(* ===== verification/Py_Runtime.thy ===== *)
theory Py_Runtime
  imports Prelude
begin

text \<open>
  What the sources use of the Python runtime: text operations, \<open>repr\<close>, decimal rendering
  and exceptions.  A \<open>str\<close> is a \<^typ>\<open>string\<close> whose characters are the code points
  0..255 (Latin-1); the whitespace, identifier and case tables below are CPython's on that
  range.  All identifiers and messages of the modelled sources are ASCII.
\<close>

section \<open>Text\<close>

definition py_isspace :: "char \<Rightarrow> bool" where
  "py_isspace c \<longleftrightarrow>
     (let n = of_char c :: nat in (9 \<le> n \<and> n \<le> 13) \<or> (28 \<le> n \<and> n \<le> 32) \<or> n = 133 \<or> n = 160)"

definition py_strip :: "string \<Rightarrow> string" where
  "py_strip s = rev (dropWhile py_isspace (rev (dropWhile py_isspace s)))"

definition py_lower_char :: "char \<Rightarrow> char" where
  "py_lower_char c =
     (let n = of_char c :: nat
      in if (65 \<le> n \<and> n \<le> 90) \<or> (192 \<le> n \<and> n \<le> 222 \<and> n \<noteq> 215) then char_of (n + 32) else c)"

definition py_lower :: "string \<Rightarrow> string" where
  "py_lower s = map py_lower_char s"

text \<open>\<open>s.replace(c, '')\<close> for a one-character \<open>c\<close>.\<close>

definition py_remove :: "char \<Rightarrow> string \<Rightarrow> string" where
  "py_remove c s = filter (\<lambda>x. x \<noteq> c) s"

text \<open>\<open>s.split(d)\<close> for a one-character separator: always at least one part.\<close>

fun py_split :: "char \<Rightarrow> string \<Rightarrow> string list" where
  "py_split d [] = [[]]"
| "py_split d (x # xs) =
     (if x = d then [] # py_split d xs
      else (case py_split d xs of [] \<Rightarrow> [[x]] | p # ps \<Rightarrow> (x # p) # ps))"

fun py_join :: "string \<Rightarrow> string list \<Rightarrow> string" where
  "py_join d [] = []"
| "py_join d [p] = p"
| "py_join d (p # q # ps) = p @ d @ py_join d (q # ps)"

text \<open>\<open>needle in haystack\<close> for text.\<close>

definition py_contains :: "string \<Rightarrow> string \<Rightarrow> bool" where
  "py_contains needle hay \<longleftrightarrow> sublist needle hay"

definition py_ident_start :: "char \<Rightarrow> bool" where
  "py_ident_start c \<longleftrightarrow>
     (let n = of_char c :: nat
      in (65 \<le> n \<and> n \<le> 90) \<or> (97 \<le> n \<and> n \<le> 122) \<or> n = 95 \<or> n = 170 \<or> n = 181 \<or> n = 186
         \<or> (192 \<le> n \<and> n \<noteq> 215 \<and> n \<noteq> 247))"

definition py_ident_continue :: "char \<Rightarrow> bool" where
  "py_ident_continue c \<longleftrightarrow>
     py_ident_start c \<or> (let n = of_char c :: nat in (48 \<le> n \<and> n \<le> 57) \<or> n = 183)"

definition py_isidentifier :: "string \<Rightarrow> bool" where
  "py_isidentifier s \<longleftrightarrow>
     (case s of [] \<Rightarrow> False | c # cs \<Rightarrow> py_ident_start c \<and> list_all py_ident_continue cs)"

lemma py_split_nonempty [simp]: "py_split d s \<noteq> []"
  by (cases s) (auto split: list.splits)

lemma py_join_split: "py_join [d] (py_split d s) = s"
proof (induction s)
  case Nil
  then show ?case by simp
next
  case (Cons x xs)
  obtain p ps where ps: "py_split d xs = p # ps"
    by (cases "py_split d xs") auto
  with Cons.IH show ?case
    by (cases ps) auto
qed

lemma dropWhile_rev_dropWhile:
  "dropWhile P (rev (dropWhile P (rev (dropWhile P s)))) = rev (dropWhile P (rev (dropWhile P s)))"
proof (cases "dropWhile P s")
  case Nil
  then show ?thesis by (simp only: rev.simps dropWhile.simps)
next
  case (Cons x xs)
  then have "\<not> P x"
    by (simp add: dropWhile_eq_Cons_conv)
  then show ?thesis
    by (simp add: Cons dropWhile_append)
qed

lemma py_strip_idem [simp]: "py_strip (py_strip s) = py_strip s"
  by (simp add: py_strip_def dropWhile_rev_dropWhile dropWhile_idem)

lemma py_strip_Nil [simp]: "py_strip [] = []"
  by (simp add: py_strip_def)

section \<open>Rendering\<close>

definition digit_char :: "nat \<Rightarrow> char" where
  "digit_char n = char_of (48 + n)"

definition hex_char :: "nat \<Rightarrow> char" where
  "hex_char n = char_of (if n < 10 then 48 + n else 87 + n)"

fun str_nat :: "nat \<Rightarrow> string" where
  "str_nat n = (if n < 10 then [digit_char n] else str_nat (n div 10) @ [digit_char (n mod 10)])"

declare str_nat.simps [simp del]

definition str_int :: "int \<Rightarrow> string" where
  "str_int i = (if i < 0 then CHR ''-'' # str_nat (nat (- i)) else str_nat (nat i))"

text \<open>
  \<open>repr\<close> of a \<open>str\<close>: single quotes unless the text has one and no double quote;
  backslash, the quote, control and unprintable characters are escaped.
\<close>

definition repr_char :: "char \<Rightarrow> char \<Rightarrow> string" where
  "repr_char q c =
     (let n = of_char c :: nat
      in if c = q \<or> n = 92 then [CHR 0x5C, c]
         else if n = 10 then [CHR 0x5C, CHR ''n'']
         else if n = 13 then [CHR 0x5C, CHR ''r'']
         else if n = 9 then [CHR 0x5C, CHR ''t'']
         else if n < 32 \<or> (127 \<le> n \<and> n \<le> 160) \<or> n = 173
         then [CHR 0x5C, CHR ''x'', hex_char (n div 16), hex_char (n mod 16)]
         else [c])"

definition py_repr :: "string \<Rightarrow> string" where
  "py_repr s =
     (let q = (if CHR 0x27 \<in> set s \<and> CHR 0x22 \<notin> set s then CHR 0x22 else CHR 0x27)
      in q # concat (map (repr_char q) s) @ [q])"

definition py_repr_tuple :: "string list \<Rightarrow> string" where
  "py_repr_tuple xs =
     ''('' @ py_join '', '' (map py_repr xs) @ (if length xs = 1 then '','' else []) @ '')''"

definition py_repr_list :: "string list \<Rightarrow> string" where
  "py_repr_list xs = ''['' @ py_join '', '' (map py_repr xs) @ '']''"

section \<open>Exceptions\<close>

text \<open>
  The exception classes the modelled code raises or tests for; \<open>OtherError\<close> stands for any
  other class, by name.  The text is what \<open>str(exc)\<close> gives.
\<close>

datatype exn_class =
    ValueError | TypeError | KeyError | IndexError | RuntimeError | ImportError
  | ModuleNotFoundError | AssertionError | AttributeError | OSError | ZeroDivisionError
  | LatchedPatchError | LateModuleReplacementError | ModuleReloadBlockedError
  | OptionalPatchUnavailable | PatchCompatibilityError | VllmCompatibilityError
  | SelectionError | RegistrationError | MatrixError
  | OtherError string

datatype exn = Exn (exn_kind: exn_class) (exn_text: string)

fun class_name :: "exn_class \<Rightarrow> string" where
  "class_name ValueError = ''ValueError''"
| "class_name TypeError = ''TypeError''"
| "class_name KeyError = ''KeyError''"
| "class_name IndexError = ''IndexError''"
| "class_name RuntimeError = ''RuntimeError''"
| "class_name ImportError = ''ImportError''"
| "class_name ModuleNotFoundError = ''ModuleNotFoundError''"
| "class_name AssertionError = ''AssertionError''"
| "class_name AttributeError = ''AttributeError''"
| "class_name OSError = ''OSError''"
| "class_name ZeroDivisionError = ''ZeroDivisionError''"
| "class_name LatchedPatchError = ''LatchedPatchError''"
| "class_name LateModuleReplacementError = ''LateModuleReplacementError''"
| "class_name ModuleReloadBlockedError = ''ModuleReloadBlockedError''"
| "class_name OptionalPatchUnavailable = ''OptionalPatchUnavailable''"
| "class_name PatchCompatibilityError = ''PatchCompatibilityError''"
| "class_name VllmCompatibilityError = ''VllmCompatibilityError''"
| "class_name SelectionError = ''SelectionError''"
| "class_name RegistrationError = ''RegistrationError''"
| "class_name MatrixError = ''MatrixError''"
| "class_name (OtherError n) = n"

type_synonym 'a result = "exn + 'a"

abbreviation raise :: "exn_class \<Rightarrow> string \<Rightarrow> 'a result" where
  "raise c m \<equiv> Inl (Exn c m)"

text \<open>Indexing a Python list: negative indices count from the end, others raise.\<close>

definition py_index :: "'a list \<Rightarrow> int \<Rightarrow> 'a result" where
  "py_index xs i =
     (if - int (length xs) \<le> i \<and> i < int (length xs)
      then Inr (xs ! nat (i mod int (length xs)))
      else raise IndexError ''list index out of range'')"

section \<open>Stateful operations\<close>

text \<open>
  An operation on a state \<open>'s\<close>: \<open>None\<close> when the calling thread would block on a lock or a
  condition variable, otherwise the exception or the value together with the state left
  behind (an exception keeps the effects made before it).
\<close>

type_synonym ('s, 'a) op = "'s \<Rightarrow> ('a result \<times> 's) option"

definition ret :: "'a \<Rightarrow> ('s, 'a) op" where
  "ret x s = Some (Inr x, s)"

definition throw :: "exn \<Rightarrow> ('s, 'a) op" where
  "throw e s = Some (Inl e, s)"

definition bind_op :: "('s, 'a) op \<Rightarrow> ('a \<Rightarrow> ('s, 'b) op) \<Rightarrow> ('s, 'b) op" where
  "bind_op m k s =
     (case m s of
        None \<Rightarrow> None
      | Some (Inl e, t) \<Rightarrow> Some (Inl e, t)
      | Some (Inr x, t) \<Rightarrow> k x t)"

definition seq_op :: "('s, 'a) op \<Rightarrow> ('s, 'b) op \<Rightarrow> ('s, 'b) op" where
  "seq_op m n = bind_op m (\<lambda>_. n)"

text \<open>\<open>try: m / except BaseException as e: h e\<close>\<close>

definition catch_op :: "('s, 'a) op \<Rightarrow> (exn \<Rightarrow> ('s, 'a) op) \<Rightarrow> ('s, 'a) op" where
  "catch_op m h s =
     (case m s of
        None \<Rightarrow> None
      | Some (Inl e, t) \<Rightarrow> h e t
      | Some (Inr x, t) \<Rightarrow> Some (Inr x, t))"

definition gets :: "('s \<Rightarrow> 'a) \<Rightarrow> ('s, 'a) op" where
  "gets f s = Some (Inr (f s), s)"

definition modify :: "('s \<Rightarrow> 's) \<Rightarrow> ('s, unit) op" where
  "modify f s = Some (Inr (), f s)"

text \<open>A pure fallible computation inside an operation.\<close>

definition lift_result :: "'a result \<Rightarrow> ('s, 'a) op" where
  "lift_result r s = Some (r, s)"

fun for_each :: "'a list \<Rightarrow> ('a \<Rightarrow> ('s, unit) op) \<Rightarrow> ('s, unit) op" where
  "for_each [] f = ret ()"
| "for_each (x # xs) f = seq_op (f x) (for_each xs f)"

lemma ret_run [op_simps]: "ret x s = Some (Inr x, s)"
  by (simp add: ret_def)

lemma throw_run [op_simps]: "throw e s = Some (Inl e, s)"
  by (simp add: throw_def)

lemma gets_run [op_simps]: "gets f s = Some (Inr (f s), s)"
  by (simp add: gets_def)

lemma modify_run [op_simps]: "modify f s = Some (Inr (), f s)"
  by (simp add: modify_def)

lemma lift_result_run [op_simps]: "lift_result r s = Some (r, s)"
  by (simp add: lift_result_def)

lemmas op_defs = bind_op_def seq_op_def catch_op_def

lemma lift_bind_run: "bind_op (lift_result r) k s = (case r of Inl e \<Rightarrow> Some (Inl e, s) | Inr x \<Rightarrow> k x s)"
  by (cases r) (simp_all add: op_defs op_simps)

lemma modify_seq_run: "seq_op (modify f) m s = m (f s)"
  by (simp add: op_defs op_simps)

lemma for_each_outcome:
  assumes "for_each xs f p = Some (r, q)" and "P p" and "fine r" and "fine (Inr ())"
    and "\<And>x p r q. x \<in> set xs \<Longrightarrow> P p \<Longrightarrow> f x p = Some (r, q) \<Longrightarrow> fine r \<Longrightarrow> P q"
  shows "P q"
  using assms
proof (induction xs arbitrary: p)
  case (Cons x xs)
  from Cons.prems(1) consider e where "f x p = Some (Inl e, q)" "r = Inl e"
    | p1 where "f x p = Some (Inr (), p1)" "for_each xs f p1 = Some (r, q)"
    by (auto simp: op_defs split: option.splits prod.splits sum.splits)
  then show ?case
  proof cases
    case 1
    then show ?thesis
      using Cons.prems(2,3,5) by (meson list.set_intros(1))
  next
    case (2 p1)
    then have "P p1"
      using Cons.prems(2,4,5) by (meson list.set_intros(1))
    then show ?thesis
      using Cons.IH [OF 2(2) _ Cons.prems(3,4)] Cons.prems(5) by (meson list.set_intros(2))
  qed
qed (simp add: op_simps)

lemma for_each_invariant:
  assumes "for_each xs f p = Some (Inr u, q)" and "P p"
    and "\<And>x p q. x \<in> set xs \<Longrightarrow> P p \<Longrightarrow> f x p = Some (Inr (), q) \<Longrightarrow> P q"
  shows "P q"
  using assms(1,2) by (rule for_each_outcome [where fine = "\<lambda>r. r = Inr ()"]) (use assms(3) in auto)

text \<open>
  \<open>op_keeps R m\<close>: every run of \<open>m\<close> that does not block relates its start to its end state,
  whether it returned or raised.  For a reflexive and transitive \<open>R\<close> it is closed under
  the combinators, so a frame or monotonicity property of a long operation follows from
  the property of its primitive steps.
\<close>

definition op_keeps :: "('s \<Rightarrow> 's \<Rightarrow> bool) \<Rightarrow> ('s, 'a) op \<Rightarrow> bool" where
  "op_keeps R m \<longleftrightarrow> (\<forall>s r t. m s = Some (r, t) \<longrightarrow> R s t)"

named_theorems keeps_intros \<open>closure rules of \<open>op_keeps\<close>\<close>

lemma op_keepsI: "(\<And>s r t. m s = Some (r, t) \<Longrightarrow> R s t) \<Longrightarrow> op_keeps R m"
  by (auto simp: op_keeps_def)

lemma op_keepsD: "op_keeps R m \<Longrightarrow> m s = Some (r, t) \<Longrightarrow> R s t"
  by (auto simp: op_keeps_def)

locale state_preorder =
  fixes R :: "'s \<Rightarrow> 's \<Rightarrow> bool"
  assumes refl_R: "R s s"
    and trans_R: "R s t \<Longrightarrow> R t u \<Longrightarrow> R s u"
begin

lemma keeps_ret [keeps_intros]: "op_keeps R (ret x)"
  by (auto simp: op_keeps_def op_simps intro: refl_R)

lemma keeps_throw [keeps_intros]: "op_keeps R (throw e)"
  by (auto simp: op_keeps_def op_simps intro: refl_R)

lemma keeps_gets [keeps_intros]: "op_keeps R (gets f)"
  by (auto simp: op_keeps_def op_simps intro: refl_R)

lemma keeps_lift_result [keeps_intros]: "op_keeps R (lift_result r)"
  by (auto simp: op_keeps_def op_simps intro: refl_R)

lemma keeps_modify: "(\<And>s. R s (f s)) \<Longrightarrow> op_keeps R (modify f)"
  by (auto simp: op_keeps_def op_simps)

lemma keeps_bind [keeps_intros]:
  assumes "op_keeps R m" and "\<And>x. op_keeps R (k x)"
  shows "op_keeps R (bind_op m k)"
proof (rule op_keepsI)
  fix s r t
  assume run: "bind_op m k s = Some (r, t)"
  then obtain v u where m: "m s = Some (v, u)"
    by (auto simp: op_defs split: option.splits)
  have su: "R s u" using assms(1) m by (rule op_keepsD)
  show "R s t"
  proof (cases v)
    case (Inl e)
    with run m su show ?thesis by (auto simp: op_defs)
  next
    case (Inr x)
    with run m have "k x u = Some (r, t)" by (auto simp: op_defs)
    with assms(2) have "R u t" by (rule op_keepsD)
    with su show ?thesis by (rule trans_R)
  qed
qed

lemma keeps_lift_bind:
  "(\<And>x. r = Inr x \<Longrightarrow> op_keeps R (k x)) \<Longrightarrow> op_keeps R (bind_op (lift_result r) k)"
  by (cases r) (auto simp: op_keeps_def op_defs op_simps intro: refl_R)

lemma keeps_seq [keeps_intros]:
  "op_keeps R m \<Longrightarrow> op_keeps R n \<Longrightarrow> op_keeps R (seq_op m n)"
  unfolding seq_op_def by (rule keeps_bind)

lemma keeps_catch [keeps_intros]:
  assumes "op_keeps R m" and "\<And>e. op_keeps R (h e)"
  shows "op_keeps R (catch_op m h)"
proof (rule op_keepsI)
  fix s r t
  assume run: "catch_op m h s = Some (r, t)"
  then obtain v u where m: "m s = Some (v, u)"
    by (auto simp: op_defs split: option.splits)
  have su: "R s u" using assms(1) m by (rule op_keepsD)
  show "R s t"
  proof (cases v)
    case (Inl e)
    with run m have "h e u = Some (r, t)" by (auto simp: op_defs)
    with assms(2) have "R u t" by (rule op_keepsD)
    with su show ?thesis by (rule trans_R)
  next
    case (Inr x)
    with run m su show ?thesis by (auto simp: op_defs)
  qed
qed

lemma keeps_if [keeps_intros]:
  "(b \<Longrightarrow> op_keeps R m) \<Longrightarrow> (\<not> b \<Longrightarrow> op_keeps R n) \<Longrightarrow> op_keeps R (if b then m else n)"
  by simp

lemma keeps_case_option [keeps_intros]:
  "(v = None \<Longrightarrow> op_keeps R m) \<Longrightarrow> (\<And>x. v = Some x \<Longrightarrow> op_keeps R (k x)) \<Longrightarrow>
     op_keeps R (case v of None \<Rightarrow> m | Some x \<Rightarrow> k x)"
  by (cases v) auto

lemma keeps_case_result [keeps_intros]:
  "(\<And>e. v = Inl e \<Longrightarrow> op_keeps R (h e)) \<Longrightarrow> (\<And>x. v = Inr x \<Longrightarrow> op_keeps R (k x)) \<Longrightarrow>
     op_keeps R (case v of Inl e \<Rightarrow> h e | Inr x \<Rightarrow> k x)"
  by (cases v) auto

lemma keeps_for_each [keeps_intros]:
  "(\<And>x. x \<in> set xs \<Longrightarrow> op_keeps R (f x)) \<Longrightarrow> op_keeps R (for_each xs f)"
  by (induction xs) (auto intro: keeps_intros)

end

end
