(* ===== verification/Patch_Registry.thy ===== *)
theory Patch_Registry
  imports Py_Runtime
begin

text \<open>
  The process-local patch registry, \<open>src/vllm_hcu/patch/runtime_state.py\<close>: one record per
  runtime patch, its lifecycle status, and the thread that is applying it.  Every method
  holds the registry's condition lock for its whole body, so one method call is one atomic
  step; \<open>begin\<close> waits while another thread is applying the patch, which is the blocked
  outcome \<open>None\<close>.  The wall clock (\<open>time.time()\<close>) is the field \<open>clock\<close>, which the
  environment may move between calls.
\<close>

section \<open>Data\<close>

datatype process_role = MAIN | ENGINE_CORE | WORKER

fun role_value :: "process_role \<Rightarrow> string" where
  "role_value MAIN = ''Main''"
| "role_value ENGINE_CORE = ''EngineCore''"
| "role_value WORKER = ''Worker''"

datatype patch_status = ARMED | APPLYING | APPLIED | SKIPPED | FAILED

fun status_value :: "patch_status \<Rightarrow> string" where
  "status_value ARMED = ''armed''"
| "status_value APPLYING = ''applying''"
| "status_value APPLIED = ''applied''"
| "status_value SKIPPED = ''skipped''"
| "status_value FAILED = ''failed''"

record patch_record =
  rec_patch_id :: string
  rec_status :: patch_status
  rec_targets :: "string list"
  rec_feature_enabled :: bool
  rec_failure_reason :: "string option"
  rec_updated_at :: int

record registry =
  records :: "(string, patch_record) dict"
  owners :: "(string, nat) dict"
  role :: "process_role option"
  clock :: int

definition empty_registry :: "int \<Rightarrow> registry" where
  "empty_registry now = \<lparr>records = [], owners = [], role = None, clock = now\<rparr>"

datatype role_arg = RoleEnum process_role | RoleName string

datatype targets_arg = OneTarget string | ManyTargets "string list"

datatype failure_arg = FromExn exn | FromText string

section \<open>Errors\<close>

definition err_unknown_role :: "string \<Rightarrow> exn" where
  "err_unknown_role name = Exn ValueError
     (''unknown process role '' @ py_repr name @ ''; expected one of '' @
      py_join '', '' (map role_value [MAIN, ENGINE_CORE, WORKER]))"

definition err_patch_id :: exn where
  "err_patch_id = Exn ValueError ''patch_id must be a non-empty string''"

definition err_targets :: exn where
  "err_targets = Exn ValueError ''targets must contain at least one non-empty symbol name''"

definition err_failure_reason :: exn where
  "err_failure_reason =
     Exn ValueError ''failure reason must be a non-empty string or exception''"

definition err_rebound :: "string \<Rightarrow> string list \<Rightarrow> string list \<Rightarrow> exn" where
  "err_rebound pid bound wanted = Exn ValueError
     (''patch id '' @ py_repr pid @ '' is already bound to '' @ py_repr_tuple bound @
      '', not '' @ py_repr_tuple wanted)"

text \<open>\<open>str(KeyError(msg))\<close> is the \<open>repr\<close> of the message.\<close>

definition undeclared_error :: "string \<Rightarrow> exn" where
  "undeclared_error pid =
     Exn KeyError (py_repr (''patch '' @ py_repr pid @ '' has not been declared''))"

definition err_reentrant :: "string \<Rightarrow> exn" where
  "err_reentrant pid = Exn RuntimeError (''re-entrant application of patch '' @ py_repr pid)"

text \<open>Python renders a missing failure reason as \<open>None\<close>.\<close>

definition err_latched :: "string \<Rightarrow> string option \<Rightarrow> exn" where
  "err_latched pid reason = Exn LatchedPatchError
     (''patch '' @ py_repr pid @ '' previously failed: '' @
      (case reason of None \<Rightarrow> ''None'' | Some t \<Rightarrow> t))"

definition err_mark_applied :: "string \<Rightarrow> patch_status \<Rightarrow> exn" where
  "err_mark_applied pid st = Exn RuntimeError
     (''cannot mark patch '' @ py_repr pid @ '' applied from '' @ py_repr (status_value st))"

definition err_skip :: "string \<Rightarrow> patch_status \<Rightarrow> exn" where
  "err_skip pid st = Exn RuntimeError
     (''cannot skip patch '' @ py_repr pid @ '' from '' @ py_repr (status_value st))"

definition err_fail :: "string \<Rightarrow> patch_status \<Rightarrow> exn" where
  "err_fail pid st = Exn RuntimeError
     (''cannot fail patch '' @ py_repr pid @ '' from '' @ py_repr (status_value st))"

definition err_feature_state :: "patch_status \<Rightarrow> exn" where
  "err_feature_state st = Exn RuntimeError
     (''feature state requires an armed, applied, or skipped patch, got '' @
      py_repr (status_value st))"

section \<open>Process roles\<close>

definition role_aliases :: "(string, process_role) dict" where
  "role_aliases =
     [(''main'', MAIN), (''mainprocess'', MAIN), (''enginecore'', ENGINE_CORE),
      (''engine'', ENGINE_CORE), (''worker'', WORKER)]"

definition normalise_role :: "role_arg \<Rightarrow> process_role result" where
  "normalise_role arg =
     (case arg of
        RoleEnum r \<Rightarrow> Inr r
      | RoleName name \<Rightarrow>
          (let normalised = py_remove (CHR ''-'') (py_remove (CHR ''_'') (py_lower (py_strip name)))
           in case dict_get role_aliases normalised of
                Some r \<Rightarrow> Inr r
              | None \<Rightarrow> Inl (err_unknown_role name)))"

text \<open>The two things role detection reads of the process.\<close>

record proc_env =
  env_process_role :: "string option"
  process_name :: string
  os_pid :: nat

definition detect_process_role :: "proc_env \<Rightarrow> process_role result" where
  "detect_process_role env =
     (case env_process_role env of
        Some explicit \<Rightarrow>
          if explicit \<noteq> [] then normalise_role (RoleName explicit)
          else (let compact = py_remove (CHR ''-'') (py_remove (CHR ''_'') (py_lower (process_name env)))
                in if py_contains ''enginecore'' compact then Inr ENGINE_CORE
                   else if py_contains ''worker'' compact then Inr WORKER else Inr MAIN)
      | None \<Rightarrow>
          (let compact = py_remove (CHR ''-'') (py_remove (CHR ''_'') (py_lower (process_name env)))
           in if py_contains ''enginecore'' compact then Inr ENGINE_CORE
              else if py_contains ''worker'' compact then Inr WORKER else Inr MAIN))"

section \<open>Registry operations\<close>

definition validate_patch_id :: "string \<Rightarrow> string result" where
  "validate_patch_id pid =
     (if py_strip pid = [] then Inl err_patch_id
      else Inr (py_strip pid))"

definition normalise_targets :: "targets_arg \<Rightarrow> string list result" where
  "normalise_targets targets =
     (let values = (case targets of OneTarget t \<Rightarrow> [t] | ManyTargets ts \<Rightarrow> ts)
      in if values = [] \<or> list_ex (\<lambda>t. py_strip t = []) values
         then Inl err_targets
         else Inr (map py_strip values))"

definition format_failure :: "failure_arg \<Rightarrow> string result" where
  "format_failure err =
     (case err of
        FromExn (Exn c message) \<Rightarrow>
          Inr (if message \<noteq> [] then class_name c @ '': '' @ message else class_name c)
      | FromText s \<Rightarrow>
          (if py_strip s = []
           then Inl err_failure_reason
           else Inr (py_strip s)))"

definition reg_set_process_role :: "role_arg \<Rightarrow> (registry, unit) op" where
  "reg_set_process_role arg =
     bind_op (lift_result (normalise_role arg)) (\<lambda>r. modify (\<lambda>s. s\<lparr>role := Some r\<rparr>))"

definition reg_process_role :: "proc_env \<Rightarrow> (registry, process_role) op" where
  "reg_process_role env =
     bind_op (gets role)
       (\<lambda>r. case r of Some v \<Rightarrow> ret v | None \<Rightarrow> lift_result (detect_process_role env))"

definition reg_declare :: "string \<Rightarrow> targets_arg \<Rightarrow> (registry, patch_record) op" where
  "reg_declare pid0 targets =
     bind_op (lift_result (validate_patch_id pid0)) (\<lambda>pid.
     bind_op (lift_result (normalise_targets targets)) (\<lambda>target_tuple.
     bind_op (gets (\<lambda>s. dict_get (records s) pid)) (\<lambda>existing.
       case existing of
         Some old \<Rightarrow>
           if rec_targets old \<noteq> target_tuple
           then throw (err_rebound pid (rec_targets old) target_tuple)
           else ret old
       | None \<Rightarrow>
           bind_op (gets (\<lambda>s. \<lparr>rec_patch_id = pid, rec_status = ARMED, rec_targets = target_tuple,
                            rec_feature_enabled = False, rec_failure_reason = None,
                            rec_updated_at = clock s\<rparr>)) (\<lambda>record.
           seq_op (modify (\<lambda>s. s\<lparr>records := dict_set pid record (records s)\<rparr>)) (ret record)))))"

definition reg_begin :: "nat \<Rightarrow> string \<Rightarrow> (registry, bool) op" where
  "reg_begin tid pid0 s =
     (case validate_patch_id pid0 of
        Inl e \<Rightarrow> Some (Inl e, s)
      | Inr pid \<Rightarrow>
          (case dict_get (records s) pid of
             None \<Rightarrow> Some (Inl (undeclared_error pid), s)
           | Some record \<Rightarrow>
               (case rec_status record of
                  APPLYING \<Rightarrow>
                    (if dict_get (owners s) pid = Some tid
                     then Some (Inl (err_reentrant pid), s)
                     else None)
                | FAILED \<Rightarrow>
                    Some (Inl (err_latched pid (rec_failure_reason record)), s)
                | APPLIED \<Rightarrow> Some (Inr False, s)
                | SKIPPED \<Rightarrow> Some (Inr False, s)
                | ARMED \<Rightarrow>
                    Some (Inr True,
                      s\<lparr>records := dict_set pid
                           (record\<lparr>rec_status := APPLYING, rec_failure_reason := None,
                                    rec_updated_at := clock s\<rparr>) (records s),
                         owners := dict_set pid tid (owners s)\<rparr>))))"

definition require_record :: "string \<Rightarrow> (registry, patch_record) op" where
  "require_record pid0 =
     bind_op (lift_result (validate_patch_id pid0)) (\<lambda>pid.
     bind_op (gets (\<lambda>s. dict_get (records s) pid)) (\<lambda>record.
       case record of Some r \<Rightarrow> ret r | None \<Rightarrow> throw (undeclared_error pid)))"

text \<open>
  \<open>_finish\<close> stores under the name its caller passed, without the whitespace stripping that
  \<open>_require_record\<close> applied when it looked the record up.
\<close>

definition reg_finish :: "string \<Rightarrow> patch_record \<Rightarrow> (registry, unit) op" where
  "reg_finish pid record =
     modify (\<lambda>s. s\<lparr>records := dict_set pid record (records s), owners := dict_pop pid (owners s)\<rparr>)"

definition reg_mark_applied :: "string \<Rightarrow> bool \<Rightarrow> (registry, patch_record) op" where
  "reg_mark_applied pid enabled =
     bind_op (require_record pid) (\<lambda>record.
       if rec_status record = APPLIED then ret record
       else if rec_status record \<noteq> APPLYING
       then throw (err_mark_applied pid (rec_status record))
       else bind_op (gets clock) (\<lambda>now.
              let updated = record\<lparr>rec_status := APPLIED, rec_feature_enabled := enabled,
                                    rec_failure_reason := None, rec_updated_at := now\<rparr>
              in seq_op (reg_finish pid updated) (ret updated)))"

definition reg_mark_skipped :: "string \<Rightarrow> string option \<Rightarrow> (registry, patch_record) op" where
  "reg_mark_skipped pid reason =
     bind_op (require_record pid) (\<lambda>record.
       if rec_status record = SKIPPED then ret record
       else if rec_status record \<noteq> ARMED \<and> rec_status record \<noteq> APPLYING
       then throw (err_skip pid (rec_status record))
       else bind_op (gets clock) (\<lambda>now.
              let updated = record\<lparr>rec_status := SKIPPED,
                                    rec_feature_enabled := rec_feature_enabled record,
                                    rec_failure_reason := reason, rec_updated_at := now\<rparr>
              in seq_op (reg_finish pid updated) (ret updated)))"

definition reg_mark_failed :: "string \<Rightarrow> failure_arg \<Rightarrow> (registry, patch_record) op" where
  "reg_mark_failed pid err =
     bind_op (lift_result (format_failure err)) (\<lambda>reason.
     bind_op (require_record pid) (\<lambda>record.
       if rec_status record = FAILED then ret record
       else if rec_status record = APPLIED \<or> rec_status record = SKIPPED
       then throw (err_fail pid (rec_status record))
       else bind_op (gets clock) (\<lambda>now.
              let updated = record\<lparr>rec_status := FAILED,
                                    rec_feature_enabled := rec_feature_enabled record,
                                    rec_failure_reason := Some reason, rec_updated_at := now\<rparr>
              in seq_op (reg_finish pid updated) (ret updated))))"

definition reg_set_feature_enabled :: "string \<Rightarrow> bool \<Rightarrow> (registry, patch_record) op" where
  "reg_set_feature_enabled pid enabled =
     bind_op (require_record pid) (\<lambda>record.
       if rec_status record \<notin> {ARMED, APPLIED, SKIPPED}
       then throw (err_feature_state (rec_status record))
       else bind_op (gets clock) (\<lambda>now.
              let updated = record\<lparr>rec_feature_enabled := enabled, rec_updated_at := now\<rparr>
              in seq_op (modify (\<lambda>s. s\<lparr>records := dict_set pid updated (records s)\<rparr>)) (ret updated)))"

definition reg_get :: "string \<Rightarrow> registry \<Rightarrow> patch_record option" where
  "reg_get pid s = dict_get (records s) pid"

definition reg_snapshot :: "registry \<Rightarrow> patch_record list" where
  "reg_snapshot s = map (\<lambda>k. the (dict_get (records s) k)) (sort (dict_keys (records s)))"

record patch_report_entry =
  rep_pid :: nat
  rep_role :: string
  rep_status :: string
  rep_targets :: "string list"
  rep_failure_reason :: "string option"
  rep_feature_enabled :: bool
  rep_updated_at :: int

record process_report =
  report_pid :: nat
  report_role :: string
  report_patches :: "(string, patch_report_entry) dict"

definition reg_report :: "proc_env \<Rightarrow> (registry, process_report) op" where
  "reg_report env =
     bind_op (reg_process_role env) (\<lambda>r.
     bind_op (gets reg_snapshot) (\<lambda>snapshot.
       ret \<lparr>report_pid = os_pid env, report_role = role_value r,
            report_patches = fold (\<lambda>record d. dict_set (rec_patch_id record)
                 \<lparr>rep_pid = os_pid env, rep_role = role_value r,
                  rep_status = status_value (rec_status record), rep_targets = rec_targets record,
                  rep_failure_reason = rec_failure_reason record,
                  rep_feature_enabled = rec_feature_enabled record,
                  rep_updated_at = rec_updated_at record\<rparr> d) snapshot []\<rparr>))"

definition reg_reset_for_tests :: "registry \<Rightarrow> registry" where
  "reg_reset_for_tests s = s\<lparr>records := [], owners := [], role := None\<rparr>"

section \<open>Applying one patch\<close>

text \<open>
  The callback is arbitrary code of the caller: an operation on the same registry, which
  may return, raise or block.
\<close>

definition run_patch ::
  "nat \<Rightarrow> string \<Rightarrow> targets_arg \<Rightarrow> (registry, 'a) op \<Rightarrow> bool \<Rightarrow> (registry, 'a option) op" where
  "run_patch tid pid targets callback enabled =
     seq_op (reg_declare pid targets)
       (bind_op (reg_begin tid pid) (\<lambda>claimed.
          if \<not> claimed then ret None
          else bind_op (catch_op callback
                 (\<lambda>exc. seq_op (reg_mark_failed pid (FromExn exc)) (throw exc))) (\<lambda>value.
               seq_op (reg_mark_applied pid enabled) (ret (Some value)))))"

text \<open>The context-manager form; \<open>body\<close> is the code of the \<open>with\<close> block, given the yielded flag.\<close>

definition applying_patch ::
  "nat \<Rightarrow> string \<Rightarrow> targets_arg \<Rightarrow> bool \<Rightarrow> (bool \<Rightarrow> (registry, 'a) op) \<Rightarrow> (registry, 'a) op" where
  "applying_patch tid pid targets enabled body =
     seq_op (reg_declare pid targets)
       (bind_op (reg_begin tid pid) (\<lambda>should_apply.
          if \<not> should_apply then body False
          else bind_op (catch_op (body True)
                 (\<lambda>exc. seq_op (reg_mark_failed pid (FromExn exc)) (throw exc))) (\<lambda>value.
               seq_op (reg_mark_applied pid enabled) (ret value))))"

section \<open>Lifecycle order\<close>

text \<open>
  The status of a patch only moves forward: undeclared, armed, applying, then one of the
  three final states, which are never left.
\<close>

abbreviation reg_status :: "registry \<Rightarrow> string \<Rightarrow> patch_status option" where
  "reg_status s k \<equiv> map_option rec_status (dict_get (records s) k)"

fun status_rank :: "patch_status option \<Rightarrow> nat" where
  "status_rank None = 0"
| "status_rank (Some ARMED) = 1"
| "status_rank (Some APPLYING) = 2"
| "status_rank (Some APPLIED) = 3"
| "status_rank (Some SKIPPED) = 3"
| "status_rank (Some FAILED) = 3"

definition status_evolves :: "patch_status option \<Rightarrow> patch_status option \<Rightarrow> bool" where
  "status_evolves a b \<longleftrightarrow> a = b \<or> status_rank a < status_rank b"

lemma status_evolves_refl [simp]: "status_evolves a a"
  by (simp add: status_evolves_def)

lemma status_evolves_trans: "status_evolves a b \<Longrightarrow> status_evolves b c \<Longrightarrow> status_evolves a c"
  by (auto simp: status_evolves_def)

definition final_status :: "patch_status \<Rightarrow> bool" where
  "final_status st \<longleftrightarrow> st = APPLIED \<or> st = SKIPPED \<or> st = FAILED"

lemma status_rank_bound: "status_rank a \<le> 3"
  by (cases a rule: status_rank.cases) auto

lemma status_evolves_final: "final_status st \<Longrightarrow> status_evolves (Some st) b \<Longrightarrow> b = Some st"
  using status_rank_bound [of b] by (auto simp: final_status_def status_evolves_def)

lemma status_evolves_not_armed:
  "status_evolves a b \<Longrightarrow> a \<noteq> None \<Longrightarrow> a \<noteq> Some ARMED \<Longrightarrow> b \<noteq> None \<and> b \<noteq> Some ARMED"
  by (cases a rule: status_rank.cases; cases b) (auto simp: status_evolves_def)

lemma status_evolves_declared: "status_evolves a b \<Longrightarrow> a \<noteq> None \<Longrightarrow> b \<noteq> None"
  by (cases b) (auto simp: status_evolves_def)

text \<open>A key is canonical when whitespace stripping leaves it alone; only those are looked up.\<close>

definition canonical :: "string \<Rightarrow> bool" where
  "canonical k \<longleftrightarrow> py_strip k = k"

lemma canonical_strip [simp]: "canonical (py_strip k)"
  by (simp add: canonical_def)

definition reg_evolves :: "registry \<Rightarrow> registry \<Rightarrow> bool" where
  "reg_evolves s t \<longleftrightarrow> (\<forall>k. canonical k \<longrightarrow> status_evolves (reg_status s k) (reg_status t k))"

interpretation evolution: state_preorder reg_evolves
  by unfold_locales (auto simp: reg_evolves_def intro: status_evolves_trans)

lemma reg_evolvesD: "reg_evolves s t \<Longrightarrow> canonical k \<Longrightarrow> status_evolves (reg_status s k) (reg_status t k)"
  by (simp add: reg_evolves_def)

section \<open>What each operation does to the records\<close>

lemma validate_patch_id_Inr: "validate_patch_id p = Inr k \<longleftrightarrow> k = py_strip p \<and> k \<noteq> []"
  by (auto simp: validate_patch_id_def)

lemma require_record_run:
  "require_record pid s =
     Some (case validate_patch_id pid of
             Inl e \<Rightarrow> Inl e
           | Inr k \<Rightarrow> (case dict_get (records s) k of
                        Some v \<Rightarrow> Inr v | None \<Rightarrow> Inl (undeclared_error k)), s)"
  by (simp add: require_record_def bind_op_def op_simps split: sum.split option.split)

definition store_state :: "string \<Rightarrow> patch_record \<Rightarrow> registry \<Rightarrow> registry" where
  "store_state pid old s = s\<lparr>records := dict_set pid old (records s)\<rparr>"

definition finish_state :: "string \<Rightarrow> patch_record \<Rightarrow> registry \<Rightarrow> registry" where
  "finish_state pid old s =
     s\<lparr>records := dict_set pid old (records s), owners := dict_pop pid (owners s)\<rparr>"

lemma reg_finish_run [op_simps]: "reg_finish pid old s = Some (Inr (), finish_state pid old s)"
  by (simp add: reg_finish_def op_simps finish_state_def)

lemma reg_declare_writes:
  assumes "reg_declare pid targets s = Some (v, t)"
  shows "t = s \<or> (\<exists>new. dict_get (records s) (py_strip pid) = None \<and> py_strip pid \<noteq> []
    \<and> rec_patch_id new = py_strip pid \<and> rec_status new = ARMED \<and> rec_targets new \<noteq> []
    \<and> rec_failure_reason new = None \<and> v = Inr new \<and> t = store_state (py_strip pid) new s)"
  using assms
  by (auto simp: reg_declare_def bind_op_def seq_op_def op_simps store_state_def normalise_targets_def
      validate_patch_id_Inr Let_def split: sum.splits option.splits if_splits)

lemma reg_begin_writes:
  assumes "reg_begin tid pid s = Some (v, t)"
  shows "(t = s \<and> v \<noteq> Inr True) \<or>
    (\<exists>old. dict_get (records s) (py_strip pid) = Some old \<and> py_strip pid \<noteq> []
      \<and> rec_status old = ARMED \<and> v = Inr True
      \<and> t = s\<lparr>records := dict_set (py_strip pid) (old\<lparr>rec_status := APPLYING,
               rec_failure_reason := None, rec_updated_at := clock s\<rparr>) (records s),
             owners := dict_set (py_strip pid) tid (owners s)\<rparr>)"
  using assms
  by (auto simp: reg_begin_def validate_patch_id_Inr
      split: sum.splits option.splits patch_status.splits if_splits)

lemma reg_mark_applied_writes:
  assumes "reg_mark_applied pid enabled s = Some (v, t)"
  shows "t = s \<or> (\<exists>old new. dict_get (records s) (py_strip pid) = Some old \<and> py_strip pid \<noteq> []
    \<and> rec_status old = APPLYING \<and> v = Inr new
    \<and> new = old\<lparr>rec_status := APPLIED, rec_feature_enabled := enabled,
               rec_failure_reason := None, rec_updated_at := clock s\<rparr>
    \<and> t = finish_state pid new s)"
  using assms
  by (auto simp: reg_mark_applied_def bind_op_def seq_op_def require_record_run op_simps Let_def
      validate_patch_id_Inr split: sum.splits option.splits if_splits)

lemma reg_mark_skipped_writes:
  assumes "reg_mark_skipped pid reason s = Some (v, t)"
  shows "t = s \<or> (\<exists>old new. dict_get (records s) (py_strip pid) = Some old \<and> py_strip pid \<noteq> []
    \<and> (rec_status old = ARMED \<or> rec_status old = APPLYING) \<and> v = Inr new
    \<and> new = old\<lparr>rec_status := SKIPPED, rec_failure_reason := reason, rec_updated_at := clock s\<rparr>
    \<and> t = finish_state pid new s)"
  using assms
  by (auto simp: reg_mark_skipped_def bind_op_def seq_op_def require_record_run op_simps Let_def
      validate_patch_id_Inr split: sum.splits option.splits if_splits)

lemma open_status_iff:
  "st \<noteq> FAILED \<and> st \<noteq> APPLIED \<and> st \<noteq> SKIPPED \<longleftrightarrow> st = ARMED \<or> st = APPLYING"
  by (cases st) auto

lemma reg_mark_failed_writes:
  assumes "reg_mark_failed pid err s = Some (v, t)"
  shows "t = s \<or> (\<exists>old new reason. dict_get (records s) (py_strip pid) = Some old \<and> py_strip pid \<noteq> []
    \<and> (rec_status old = ARMED \<or> rec_status old = APPLYING) \<and> v = Inr new
    \<and> new = old\<lparr>rec_status := FAILED, rec_failure_reason := Some reason, rec_updated_at := clock s\<rparr>
    \<and> t = finish_state pid new s)"
  using assms unfolding open_status_iff [symmetric]
  by (auto simp: reg_mark_failed_def bind_op_def seq_op_def require_record_run op_simps Let_def
      validate_patch_id_Inr split: sum.splits option.splits if_splits)

lemma reg_set_feature_writes:
  assumes "reg_set_feature_enabled pid enabled s = Some (v, t)"
  shows "t = s \<or> (\<exists>old new. dict_get (records s) (py_strip pid) = Some old \<and> py_strip pid \<noteq> []
    \<and> rec_status old \<in> {ARMED, APPLIED, SKIPPED} \<and> v = Inr new
    \<and> new = old\<lparr>rec_feature_enabled := enabled, rec_updated_at := clock s\<rparr>
    \<and> t = store_state pid new s)"
  using assms
  by (auto simp: reg_set_feature_enabled_def bind_op_def seq_op_def require_record_run op_simps
      Let_def validate_patch_id_Inr store_state_def split: sum.splits option.splits if_splits)

section \<open>Evolution\<close>

lemma reg_declare_evolves [keeps_intros]: "op_keeps reg_evolves (reg_declare pid targets)"
  by (rule op_keepsI, drule reg_declare_writes)
    (auto simp: reg_evolves_def store_state_def status_evolves_def)

lemma reg_begin_evolves [keeps_intros]: "op_keeps reg_evolves (reg_begin tid pid)"
  by (rule op_keepsI, drule reg_begin_writes) (auto simp: reg_evolves_def status_evolves_def)

lemma reg_mark_applied_evolves [keeps_intros]: "op_keeps reg_evolves (reg_mark_applied pid enabled)"
  by (rule op_keepsI, drule reg_mark_applied_writes)
    (auto simp: reg_evolves_def canonical_def finish_state_def status_evolves_def)

lemma reg_mark_skipped_evolves [keeps_intros]: "op_keeps reg_evolves (reg_mark_skipped pid reason)"
  by (rule op_keepsI, drule reg_mark_skipped_writes)
    (auto simp: reg_evolves_def canonical_def finish_state_def status_evolves_def)

lemma reg_mark_failed_evolves [keeps_intros]: "op_keeps reg_evolves (reg_mark_failed pid err)"
  by (rule op_keepsI, drule reg_mark_failed_writes)
    (auto simp: reg_evolves_def canonical_def finish_state_def status_evolves_def)

lemma reg_set_feature_evolves [keeps_intros]:
  "op_keeps reg_evolves (reg_set_feature_enabled pid enabled)"
  by (rule op_keepsI, drule reg_set_feature_writes)
    (auto simp: reg_evolves_def canonical_def store_state_def status_evolves_def)

lemma reg_set_role_evolves [keeps_intros]: "op_keeps reg_evolves (reg_set_process_role arg)"
  unfolding reg_set_process_role_def
  by (intro keeps_intros evolution.keeps_modify) (simp add: reg_evolves_def)

lemma op_keeps_tick: "(\<And>s. R s (s\<lparr>clock := now\<rparr>)) \<Longrightarrow> op_keeps R (modify (\<lambda>s. s\<lparr>clock := now\<rparr>))"
  by (auto simp: op_keeps_def op_simps)

section \<open>Well-formedness invariant\<close>

text \<open>
  A record is named after its stripped key, has targets, and carries a failure reason
  exactly when its status allows one.  A patch has an owner thread exactly while it is
  applying, and only canonical keys are ever in that state.
\<close>

definition wf_record :: "string \<Rightarrow> patch_record \<Rightarrow> bool" where
  "wf_record k r \<longleftrightarrow>
     rec_patch_id r = py_strip k \<and> rec_targets r \<noteq> [] \<and>
     (rec_status r = FAILED \<longrightarrow> rec_failure_reason r \<noteq> None) \<and>
     (rec_status r = ARMED \<or> rec_status r = APPLYING \<or> rec_status r = APPLIED
        \<longrightarrow> rec_failure_reason r = None)"

definition reg_inv :: "registry \<Rightarrow> bool" where
  "reg_inv s \<longleftrightarrow>
     distinct (dict_keys (records s)) \<and> distinct (dict_keys (owners s)) \<and>
     (\<forall>k v. dict_get (records s) k = Some v \<longrightarrow> wf_record k v) \<and>
     (\<forall>k. (dict_get (owners s) k \<noteq> None) = (reg_status s k = Some APPLYING)) \<and>
     (\<forall>k. reg_status s k = Some APPLYING \<longrightarrow> canonical k)"

interpretation invariance: state_preorder "\<lambda>s t. reg_inv s \<longrightarrow> reg_inv t"
  by unfold_locales auto

lemma reg_inv_empty: "reg_inv (empty_registry now)"
  by (simp add: reg_inv_def empty_registry_def)

lemma reg_inv_record: "reg_inv s \<Longrightarrow> dict_get (records s) k = Some v \<Longrightarrow> wf_record k v"
  by (simp add: reg_inv_def)

lemma reg_inv_owner: "reg_inv s \<Longrightarrow> (dict_get (owners s) k \<noteq> None) = (reg_status s k = Some APPLYING)"
  by (simp add: reg_inv_def)

lemma store_inv:
  assumes inv: "reg_inv s" and wf: "wf_record k new" and st: "rec_status new \<noteq> APPLYING"
    and old: "reg_status s k \<noteq> Some APPLYING"
  shows "reg_inv (store_state k new s)"
  using assms by (auto simp: reg_inv_def store_state_def intro: dict_set_distinct)

lemma finish_inv:
  assumes inv: "reg_inv s" and wf: "wf_record k new" and st: "rec_status new \<noteq> APPLYING"
  shows "reg_inv (finish_state k new s)"
  using assms by (auto simp: reg_inv_def finish_state_def intro: dict_set_distinct dict_pop_distinct)

lemma reg_declare_inv [keeps_intros]:
  "op_keeps (\<lambda>s t. reg_inv s \<longrightarrow> reg_inv t) (reg_declare pid targets)"
  by (rule op_keepsI, drule reg_declare_writes) (auto simp: wf_record_def intro!: store_inv)

lemma reg_begin_inv [keeps_intros]:
  "op_keeps (\<lambda>s t. reg_inv s \<longrightarrow> reg_inv t) (reg_begin tid pid)"
proof (rule op_keepsI, intro impI)
  fix s r t
  assume run: "reg_begin tid pid s = Some (r, t)" and inv: "reg_inv s"
  from reg_begin_writes [OF run] consider "t = s"
    | old where "dict_get (records s) (py_strip pid) = Some old" "rec_status old = ARMED"
        "t = s\<lparr>records := dict_set (py_strip pid) (old\<lparr>rec_status := APPLYING,
               rec_failure_reason := None, rec_updated_at := clock s\<rparr>) (records s),
             owners := dict_set (py_strip pid) tid (owners s)\<rparr>"
    by blast
  then show "reg_inv t"
  proof cases
    case 1
    with inv show ?thesis by simp
  next
    case 2
    moreover from reg_inv_record [OF inv 2(1)] have "wf_record (py_strip pid) old" .
    ultimately show ?thesis
      using inv by (auto simp: reg_inv_def wf_record_def intro: dict_set_distinct)
  qed
qed

lemma stripped_wf:
  "reg_inv s \<Longrightarrow> dict_get (records s) (py_strip pid) = Some old \<Longrightarrow>
     rec_patch_id old = py_strip pid \<and> rec_targets old \<noteq> []"
  by (auto dest: reg_inv_record simp: wf_record_def)

lemma reg_mark_applied_inv [keeps_intros]:
  "op_keeps (\<lambda>s t. reg_inv s \<longrightarrow> reg_inv t) (reg_mark_applied pid enabled)"
  by (rule op_keepsI, drule reg_mark_applied_writes)
    (auto simp: wf_record_def dest: stripped_wf intro!: finish_inv)

lemma reg_mark_skipped_inv [keeps_intros]:
  "op_keeps (\<lambda>s t. reg_inv s \<longrightarrow> reg_inv t) (reg_mark_skipped pid reason)"
  by (rule op_keepsI, drule reg_mark_skipped_writes)
    (auto simp: wf_record_def dest: stripped_wf intro!: finish_inv)

lemma reg_mark_failed_inv [keeps_intros]:
  "op_keeps (\<lambda>s t. reg_inv s \<longrightarrow> reg_inv t) (reg_mark_failed pid err)"
  by (rule op_keepsI, drule reg_mark_failed_writes)
    (auto simp: wf_record_def dest: stripped_wf intro!: finish_inv)

lemma reg_set_feature_inv [keeps_intros]:
  "op_keeps (\<lambda>s t. reg_inv s \<longrightarrow> reg_inv t) (reg_set_feature_enabled pid enabled)"
proof (rule op_keepsI, intro impI)
  fix s r t
  assume run: "reg_set_feature_enabled pid enabled s = Some (r, t)" and inv: "reg_inv s"
  from reg_set_feature_writes [OF run] consider "t = s"
    | old where "dict_get (records s) (py_strip pid) = Some old"
        "rec_status old \<in> {ARMED, APPLIED, SKIPPED}"
        "t = store_state pid (old\<lparr>rec_feature_enabled := enabled, rec_updated_at := clock s\<rparr>) s"
    by blast
  then show "reg_inv t"
  proof cases
    case 1
    with inv show ?thesis by simp
  next
    case 2
    have "wf_record (py_strip pid) old" using inv 2(1) by (rule reg_inv_record)
    moreover have "reg_status s pid \<noteq> Some APPLYING"
      using inv 2(1,2) by (auto simp: reg_inv_def canonical_def)
    ultimately show ?thesis
      using inv 2 by (auto simp: wf_record_def intro!: store_inv)
  qed
qed

lemma reg_set_role_inv [keeps_intros]:
  "op_keeps (\<lambda>s t. reg_inv s \<longrightarrow> reg_inv t) (reg_set_process_role arg)"
  unfolding reg_set_process_role_def
  by (intro keeps_intros invariance.keeps_modify) (simp add: reg_inv_def)

section \<open>Interleaved calls\<close>

text \<open>
  Threads of one process call the registry in any order; each call is one atomic step.  A
  trace is the sequence of calls with their outcomes.  \<open>reset_for_tests\<close> is not a step of
  a production process.
\<close>

datatype reg_call =
    CDeclare string targets_arg
  | CBegin nat string
  | CMarkApplied string bool
  | CMarkSkipped string "string option"
  | CMarkFailed string failure_arg
  | CSetFeature string bool
  | CSetRole role_arg
  | CTick int

datatype reg_value = VRecord patch_record | VBool bool | VUnit

fun reg_exec :: "reg_call \<Rightarrow> (registry, reg_value) op" where
  "reg_exec (CDeclare pid ts) = bind_op (reg_declare pid ts) (\<lambda>r. ret (VRecord r))"
| "reg_exec (CBegin tid pid) = bind_op (reg_begin tid pid) (\<lambda>b. ret (VBool b))"
| "reg_exec (CMarkApplied pid en) = bind_op (reg_mark_applied pid en) (\<lambda>r. ret (VRecord r))"
| "reg_exec (CMarkSkipped pid why) = bind_op (reg_mark_skipped pid why) (\<lambda>r. ret (VRecord r))"
| "reg_exec (CMarkFailed pid err) = bind_op (reg_mark_failed pid err) (\<lambda>r. ret (VRecord r))"
| "reg_exec (CSetFeature pid en) = bind_op (reg_set_feature_enabled pid en) (\<lambda>r. ret (VRecord r))"
| "reg_exec (CSetRole arg) = seq_op (reg_set_process_role arg) (ret VUnit)"
| "reg_exec (CTick now) = seq_op (modify (\<lambda>s. s\<lparr>clock := now\<rparr>)) (ret VUnit)"

inductive reg_trace :: "registry \<Rightarrow> (reg_call \<times> reg_value result) list \<Rightarrow> registry \<Rightarrow> bool" where
  trace_start: "reg_trace s [] s"
| trace_call: "reg_trace s tr t \<Longrightarrow> reg_exec c t = Some (v, u) \<Longrightarrow> reg_trace s (tr @ [(c, v)]) u"

lemma reg_exec_evolves: "op_keeps reg_evolves (reg_exec c)"
  by (cases c)
    (auto intro!: keeps_intros op_keeps_tick simp: reg_evolves_def)

lemma reg_inv_tick: "reg_inv (s\<lparr>clock := now\<rparr>) = reg_inv s"
  by (simp add: reg_inv_def)

lemma reg_exec_inv: "op_keeps (\<lambda>s t. reg_inv s \<longrightarrow> reg_inv t) (reg_exec c)"
  by (cases c) (auto intro!: keeps_intros op_keeps_tick simp: reg_inv_tick)

text \<open>A call that claims the patch \<open>p\<close> for its thread.\<close>

fun claims :: "string \<Rightarrow> reg_call \<times> reg_value result \<Rightarrow> bool" where
  "claims p (CBegin tid q, Inr (VBool True)) = (py_strip q = p)"
| "claims p _ = False"

lemma claims_iff: "claims p (c, v) \<longleftrightarrow> (\<exists>tid q. c = CBegin tid q \<and> v = Inr (VBool True) \<and> py_strip q = p)"
  by (cases "(p, (c, v))" rule: claims.cases) auto

lemma claims_rank:
  assumes "reg_exec c t = Some (v, u)" and "claims p (c, v)"
  shows "status_rank (reg_status t p) = 1 \<and> status_rank (reg_status u p) = 2"
proof -
  obtain tid q where c: "c = CBegin tid q" and v: "v = Inr (VBool True)" and p: "py_strip q = p"
    using assms(2) by (auto simp: claims_iff)
  with assms(1) have "reg_begin tid q t = Some (Inr True, u)"
    by (auto simp: bind_op_def op_simps split: option.splits sum.splits)
  then show ?thesis
    using p by (auto dest!: reg_begin_writes)
qed

lemma evolves_rank: "status_evolves a b \<Longrightarrow> status_rank a \<le> status_rank b"
  by (auto simp: status_evolves_def)

lemma claims_canonical: "claims p e \<Longrightarrow> canonical p"
  by (cases e) (auto simp: claims_iff)

lemma claim_count:
  assumes "reg_trace s tr t"
  shows "length (filter (claims p) tr) + (if 2 \<le> status_rank (reg_status s p) \<and> canonical p then 1 else 0)
         \<le> (if 2 \<le> status_rank (reg_status t p) \<and> canonical p then 1 else 0)"
  using assms
proof (induction rule: reg_trace.induct)
  case (trace_start s)
  then show ?case by simp
next
  case (trace_call s tr t c v u)
  have mono: "canonical p \<Longrightarrow> status_rank (reg_status t p) \<le> status_rank (reg_status u p)"
    using op_keepsD [OF reg_exec_evolves trace_call.hyps(2)] by (metis evolves_rank reg_evolvesD)
  show ?case
  proof (cases "claims p (c, v)")
    case True
    with claims_rank [OF trace_call.hyps(2)] have "status_rank (reg_status t p) = 1"
      "status_rank (reg_status u p) = 2" by auto
    with trace_call.IH claims_canonical [OF True] True show ?thesis by auto
  next
    case False
    with trace_call.IH mono show ?thesis by (auto split: if_splits)
  qed
qed

lemma trace_evolves: "reg_trace s tr t \<Longrightarrow> reg_evolves s t"
  by (induction rule: reg_trace.induct)
    (auto intro: evolution.refl_R evolution.trans_R op_keepsD [OF reg_exec_evolves])

lemma trace_inv: "reg_trace s tr t \<Longrightarrow> reg_inv s \<Longrightarrow> reg_inv t"
  by (induction rule: reg_trace.induct) (auto dest: op_keepsD [OF reg_exec_inv])

section \<open>Properties\<close>

text \<open>
  C1. At most one call ever claims a patch, over any interleaving of registry calls by any
  threads and from any starting state: the patch's callback can be entered at most once
  per process.
\<close>

theorem begin_claims_at_most_once:
  assumes "reg_trace s tr t"
  shows "length (filter (claims p) tr) \<le> 1"
  using claim_count [OF assms, of p] by (auto split: if_splits)

text \<open>A two-thread run in which the second \<open>begin\<close> finds the patch applied.\<close>

definition demo_calls :: "reg_call list" where
  "demo_calls = [CDeclare ''p'' (OneTarget ''m.f''), CBegin 1 ''p'', CMarkApplied ''p'' True,
     CBegin 2 '' p '', CMarkFailed ''p'' (FromText ''late'')]"

fun run_calls :: "reg_call list \<Rightarrow> registry \<Rightarrow> ((reg_call \<times> reg_value result) list \<times> registry) option" where
  "run_calls [] s = Some ([], s)"
| "run_calls (c # cs) s =
     (case reg_exec c s of
        None \<Rightarrow> None
      | Some (v, t) \<Rightarrow> map_option (\<lambda>(tr, u). ((c, v) # tr, u)) (run_calls cs t))"

lemma run_calls_trace: "run_calls cs s = Some (tr, t) \<Longrightarrow> reg_trace r pre s \<Longrightarrow> reg_trace r (pre @ tr) t"
proof (induction cs arbitrary: s pre tr)
  case Nil
  then show ?case by simp
next
  case (Cons c cs)
  then obtain v u tr' where v: "reg_exec c s = Some (v, u)" and rest: "run_calls cs u = Some (tr', t)"
    and tr: "tr = (c, v) # tr'"
    by (auto split: option.splits)
  have "reg_trace r (pre @ [(c, v)]) u" using Cons.prems(2) v by (rule trace_call)
  from Cons.IH [OF rest this] show ?case by (simp add: tr)
qed

definition demo_run :: "(reg_call \<times> reg_value result) list \<times> registry" where
  "demo_run = the (run_calls demo_calls (empty_registry 0))"

lemma demo_run_ok: "run_calls demo_calls (empty_registry 0) = Some demo_run"
proof -
  have "run_calls demo_calls (empty_registry 0) \<noteq> None" by code_simp
  then show ?thesis by (simp add: demo_run_def)
qed

lemma demo_trace: "reg_trace (empty_registry 0) (fst demo_run) (snd demo_run)"
  using run_calls_trace [OF _ trace_start, of demo_calls "empty_registry 0" "fst demo_run" "snd demo_run"]
  by (simp add: demo_run_ok)

theorem begin_claims_at_most_once_witness:
  "reg_trace (empty_registry 0) (fst demo_run) (snd demo_run)
   \<and> length (filter (claims ''p'') (fst demo_run)) \<le> 1"
  using demo_trace begin_claims_at_most_once [OF demo_trace, of "''p''"] by simp

text \<open>
  C2. Every state reachable from a fresh registry is well formed: records are named and
  typed consistently, failure reasons match statuses, and a patch has an owner thread
  exactly while it is applying.
\<close>

theorem reachable_registry_well_formed:
  assumes "reg_trace (empty_registry now) tr t"
  shows "reg_inv t"
  using trace_inv [OF assms reg_inv_empty] .

theorem reachable_registry_well_formed_witness:
  "reg_trace (empty_registry 0) (fst demo_run) (snd demo_run) \<and> reg_inv (snd demo_run)"
  using demo_trace reachable_registry_well_formed [OF demo_trace] by simp

text \<open>
  C3. Final states are latched: once a patch is applied, skipped or failed it stays so over
  every later trace of registry calls, and in particular no later \<open>begin\<close> claims it.
\<close>

theorem final_status_latched:
  assumes "reg_trace s tr t" and "canonical k" and "reg_status s k = Some st" and "final_status st"
  shows "reg_status t k = Some st \<and> filter (claims k) tr = []"
proof -
  have "status_evolves (reg_status s k) (reg_status t k)"
    using trace_evolves [OF assms(1)] assms(2) by (rule reg_evolvesD)
  then have same: "reg_status t k = Some st"
    using assms(3,4) by (metis status_evolves_final)
  have "status_rank (Some st) = 3" using assms(4) by (auto simp: final_status_def)
  with claim_count [OF assms(1), of k] assms(2,3) same show ?thesis
    by (simp only:) simp
qed

definition failed_registry :: registry where
  "failed_registry = snd (the (run_calls [CDeclare ''p'' (OneTarget ''m.f''), CBegin 1 ''p'',
     CMarkFailed ''p'' (FromExn (Exn TypeError ''bad''))] (empty_registry 0)))"

definition retry_run :: "(reg_call \<times> reg_value result) list \<times> registry" where
  "retry_run = the (run_calls [CBegin 2 ''p'', CMarkApplied ''p'' True] failed_registry)"

lemma retry_trace: "reg_trace failed_registry (fst retry_run) (snd retry_run)"
proof -
  have "run_calls [CBegin 2 ''p'', CMarkApplied ''p'' True] failed_registry \<noteq> None" by code_simp
  then have "run_calls [CBegin 2 ''p'', CMarkApplied ''p'' True] failed_registry
      = Some (fst retry_run, snd retry_run)"
    by (simp add: retry_run_def)
  from run_calls_trace [OF this trace_start] show ?thesis by simp
qed

lemma failed_registry_status: "reg_status failed_registry ''p'' = Some FAILED" "canonical ''p''"
  by code_simp+

theorem final_status_latched_witness:
  "reg_status (snd retry_run) ''p'' = Some FAILED \<and> filter (claims ''p'') (fst retry_run) = []"
  using final_status_latched [OF retry_trace failed_registry_status(2,1)]
  by (simp add: final_status_def)

section \<open>Applying a patch end to end\<close>

text \<open>
  A callback that returns \<open>x\<close> (or raises \<open>e\<close>) from every state and leaves the registry entry
  of the patch it implements alone.
\<close>

definition leaves_entry :: "string \<Rightarrow> registry \<Rightarrow> registry \<Rightarrow> bool" where
  "leaves_entry k s t \<longleftrightarrow>
     dict_get (records t) k = dict_get (records s) k \<and> dict_get (owners t) k = dict_get (owners s) k"

definition callback_ends :: "string \<Rightarrow> 'a result \<Rightarrow> (registry, 'a) op \<Rightarrow> bool" where
  "callback_ends k v cb \<longleftrightarrow> (\<forall>s. \<exists>t. cb s = Some (v, t) \<and> leaves_entry k s t)"

text \<open>The patch may be claimed: it is undeclared, or armed for the same targets.\<close>

definition claimable :: "string \<Rightarrow> targets_arg \<Rightarrow> registry \<Rightarrow> bool" where
  "claimable k targets s \<longleftrightarrow>
     k \<noteq> [] \<and> returns (normalise_targets targets) \<and>
     (case dict_get (records s) k of
        None \<Rightarrow> True
      | Some old \<Rightarrow> rec_status old = ARMED \<and> normalise_targets targets = Inr (rec_targets old))"

lemma declare_claimable:
  assumes "claimable (py_strip pid) targets s"
  shows "\<exists>r t. reg_declare pid targets s = Some (Inr r, t)
    \<and> dict_get (records t) (py_strip pid) = Some r \<and> rec_status r = ARMED
    \<and> normalise_targets targets = Inr (rec_targets r)"
proof -
  obtain ts where ts: "normalise_targets targets = Inr ts" and ne: "py_strip pid \<noteq> []"
    using assms by (auto simp: claimable_def returns_iff)
  show ?thesis
  proof (cases "dict_get (records s) (py_strip pid)")
    case None
    with ts ne show ?thesis
      by (simp add: reg_declare_def validate_patch_id_def bind_op_def seq_op_def op_simps)
  next
    case (Some old)
    with assms ts have "rec_status old = ARMED" "rec_targets old = ts"
      by (auto simp: claimable_def)
    with Some ts ne show ?thesis
      by (simp add: reg_declare_def validate_patch_id_def bind_op_def seq_op_def op_simps)
  qed
qed

lemma declare_begin_claimable:
  assumes "claimable (py_strip pid) targets s"
  shows "\<exists>r t u old. reg_declare pid targets s = Some (Inr r, t)
    \<and> reg_begin tid pid t = Some (Inr True, u)
    \<and> dict_get (records u) (py_strip pid) = Some old \<and> rec_status old = APPLYING
    \<and> normalise_targets targets = Inr (rec_targets old)
    \<and> dict_get (owners u) (py_strip pid) = Some tid"
proof -
  obtain r t where "reg_declare pid targets s = Some (Inr r, t)"
    and "dict_get (records t) (py_strip pid) = Some r" and "rec_status r = ARMED"
    and "normalise_targets targets = Inr (rec_targets r)"
    using declare_claimable [OF assms] by blast
  moreover have "py_strip pid \<noteq> []" using assms by (simp add: claimable_def)
  ultimately show ?thesis by (simp add: reg_begin_def validate_patch_id_def)
qed

text \<open>Running a patch that may be claimed comes down to the callback and its mark.\<close>

lemma run_patch_claimed:
  assumes "reg_declare pid targets s = Some (Inr r, t)" and "reg_begin tid pid t = Some (Inr True, u)"
    and "cb u = Some (v, w)"
  shows "run_patch tid pid targets cb enabled s =
     (case v of
        Inr x \<Rightarrow> seq_op (reg_mark_applied pid enabled) (ret (Some x)) w
      | Inl e \<Rightarrow> seq_op (reg_mark_failed pid (FromExn e)) (throw e) w)"
  using assms
  by (cases v) (auto simp: run_patch_def seq_op_def bind_op_def catch_op_def op_simps
      split: option.splits sum.splits)

lemma mark_applied_run:
  assumes "dict_get (records s) (py_strip pid) = Some old" and "rec_status old = APPLYING"
    and "py_strip pid \<noteq> []"
  shows "reg_mark_applied pid enabled s = (let new = old\<lparr>rec_status := APPLIED,
           rec_feature_enabled := enabled, rec_failure_reason := None, rec_updated_at := clock s\<rparr>
         in Some (Inr new, finish_state pid new s))"
  using assms
  by (simp add: reg_mark_applied_def bind_op_def seq_op_def require_record_run op_simps
      validate_patch_id_def Let_def)

lemma mark_failed_run:
  assumes "dict_get (records s) (py_strip pid) = Some old" and "rec_status old = APPLYING"
    and "py_strip pid \<noteq> []" and "format_failure err = Inr reason"
  shows "reg_mark_failed pid err s = (let new = old\<lparr>rec_status := FAILED,
           rec_failure_reason := Some reason, rec_updated_at := clock s\<rparr>
         in Some (Inr new, finish_state pid new s))"
  using assms
  by (simp add: reg_mark_failed_def bind_op_def seq_op_def require_record_run op_simps
      validate_patch_id_def Let_def)

lemma declare_again:
  assumes "dict_get (records s) (py_strip pid) = Some old" and "py_strip pid \<noteq> []"
    and "normalise_targets targets = Inr (rec_targets old)"
  shows "reg_declare pid targets s = Some (Inr old, s)"
  using assms by (simp add: reg_declare_def validate_patch_id_def bind_op_def op_simps)

lemma run_patch_unclaimed:
  assumes "dict_get (records s) (py_strip pid) = Some old" and "py_strip pid \<noteq> []"
    and "normalise_targets targets = Inr (rec_targets old)"
  shows "run_patch tid pid targets cb enabled s =
     (case reg_begin tid pid s of
        None \<Rightarrow> None
      | Some (Inl e, t) \<Rightarrow> Some (Inl e, t)
      | Some (Inr b, t) \<Rightarrow> if \<not> b then Some (Inr None, t) else run_patch tid pid targets cb enabled s)"
  using declare_again [OF assms]
  by (auto simp: run_patch_def seq_op_def bind_op_def op_simps split: option.splits sum.splits)

text \<open>
  C4. A patch that may be claimed and whose callback returns is applied: \<open>run_patch\<close> returns
  the callback's value, records the patch as applied with the feature flag it was given and
  frees its owner; running it again, from any thread and with any callback, is a no-op that
  returns \<open>None\<close>.
\<close>

theorem run_patch_applies_once:
  assumes "canonical pid" and "claimable pid targets s" and "callback_ends pid (Inr x) cb"
  shows "\<exists>t. run_patch tid pid targets cb enabled s = Some (Inr (Some x), t)
     \<and> reg_status t pid = Some APPLIED
     \<and> map_option rec_feature_enabled (reg_get pid t) = Some enabled
     \<and> dict_get (owners t) pid = None
     \<and> (\<forall>tid' (cb' :: (registry, 'b) op) enabled'. run_patch tid' pid targets cb' enabled' t = Some (Inr None, t))"
proof -
  have pid: "py_strip pid = pid" "pid \<noteq> []" using assms(1,2) by (auto simp: canonical_def claimable_def)
  obtain r t u old where run: "reg_declare pid targets s = Some (Inr r, t)"
      "reg_begin tid pid t = Some (Inr True, u)"
    and old: "dict_get (records u) pid = Some old" "rec_status old = APPLYING"
      "normalise_targets targets = Inr (rec_targets old)"
    using declare_begin_claimable [of pid targets s tid] assms(2) pid by metis
  obtain w where w: "cb u = Some (Inr x, w)" "leaves_entry pid u w"
    using assms(3) by (auto simp: callback_ends_def)
  let ?new = "old\<lparr>rec_status := APPLIED, rec_feature_enabled := enabled,
           rec_failure_reason := None, rec_updated_at := clock w\<rparr>"
  have "run_patch tid pid targets cb enabled s = Some (Inr (Some x), finish_state pid ?new w)"
    using run_patch_claimed [of pid targets s r t tid u cb _ w enabled, OF run w(1)] mark_applied_run [of w pid old enabled] w(2) old pid
    by (simp add: leaves_entry_def seq_op_def bind_op_def op_simps Let_def)
  moreover have "run_patch tid' pid targets cb' enabled' (finish_state pid ?new w)
      = Some (Inr None, finish_state pid ?new w)" for tid' enabled' and cb' :: "(registry, 'b) op"
    using pid old(3)
    by (subst run_patch_unclaimed [where old = ?new]) (auto simp: finish_state_def reg_begin_def validate_patch_id_def)
  ultimately show ?thesis
    by (auto simp: finish_state_def reg_get_def)
qed

definition tick_callback :: "(registry, nat) op" where
  "tick_callback s = Some (Inr 7, s\<lparr>clock := clock s + 1\<rparr>)"

lemma tick_callback_ends: "callback_ends k (Inr 7) tick_callback"
  by (simp add: callback_ends_def tick_callback_def leaves_entry_def)

lemma fresh_claimable: "claimable ''p'' (OneTarget ''m.f'') (empty_registry 0)" "canonical ''p''"
  by code_simp+

theorem run_patch_applies_once_witness:
  "\<exists>t. run_patch 1 ''p'' (OneTarget ''m.f'') tick_callback True (empty_registry 0) = Some (Inr (Some 7), t)
     \<and> reg_status t ''p'' = Some APPLIED
     \<and> map_option rec_feature_enabled (reg_get ''p'' t) = Some True
     \<and> dict_get (owners t) ''p'' = None
     \<and> (\<forall>tid' (cb' :: (registry, nat) op) enabled'. run_patch tid' ''p'' (OneTarget ''m.f'') cb' enabled' t = Some (Inr None, t))"
  using run_patch_applies_once [OF fresh_claimable(2,1) tick_callback_ends] by blast

text \<open>
  C5. A callback that raises latches its patch: \<open>run_patch\<close> raises the callback's own
  exception, the record is failed with the formatted reason, the owner is freed, and every
  later attempt raises \<open>LatchedPatchError\<close> without running a callback.
\<close>

theorem run_patch_failure_latches:
  assumes "canonical pid" and "claimable pid targets s" and "callback_ends pid (Inl e) cb"
  shows "\<exists>t reason. run_patch tid pid targets cb enabled s = Some (Inl e, t)
     \<and> format_failure (FromExn e) = Inr reason
     \<and> reg_status t pid = Some FAILED
     \<and> map_option rec_failure_reason (reg_get pid t) = Some (Some reason)
     \<and> dict_get (owners t) pid = None
     \<and> (\<forall>tid' (cb' :: (registry, 'b) op) enabled'. run_patch tid' pid targets cb' enabled' t
           = Some (Inl (err_latched pid (Some reason)), t))"
proof -
  have pid: "py_strip pid = pid" "pid \<noteq> []" using assms(1,2) by (auto simp: canonical_def claimable_def)
  obtain r t u old where run: "reg_declare pid targets s = Some (Inr r, t)"
      "reg_begin tid pid t = Some (Inr True, u)"
    and old: "dict_get (records u) pid = Some old" "rec_status old = APPLYING"
      "normalise_targets targets = Inr (rec_targets old)"
    using declare_begin_claimable [of pid targets s tid] assms(2) pid by metis
  obtain w where w: "cb u = Some (Inl e, w)" "leaves_entry pid u w"
    using assms(3) by (auto simp: callback_ends_def)
  obtain reason where reason: "format_failure (FromExn e) = Inr reason"
    by (cases e) (auto simp: format_failure_def)
  let ?new = "old\<lparr>rec_status := FAILED, rec_failure_reason := Some reason, rec_updated_at := clock w\<rparr>"
  have "run_patch tid pid targets cb enabled s = Some (Inl e, finish_state pid ?new w)"
    using run_patch_claimed [of pid targets s r t tid u cb _ w enabled, OF run w(1)] mark_failed_run [of w pid old "FromExn e" reason] w(2) old pid reason
    by (simp add: leaves_entry_def seq_op_def bind_op_def op_simps Let_def)
  moreover have "run_patch tid' pid targets cb' enabled' (finish_state pid ?new w)
      = Some (Inl (err_latched pid (Some reason)), finish_state pid ?new w)"
    for tid' enabled' and cb' :: "(registry, 'b) op"
    using pid old(3)
    by (subst run_patch_unclaimed [where old = ?new]) (auto simp: finish_state_def reg_begin_def validate_patch_id_def)
  ultimately show ?thesis
    using reason by (auto simp: finish_state_def reg_get_def)
qed

definition raising_callback :: "(registry, nat) op" where
  "raising_callback s = Some (raise TypeError ''bad'', s\<lparr>clock := clock s + 1\<rparr>)"

lemma raising_callback_ends: "callback_ends k (raise TypeError ''bad'') raising_callback"
  by (simp add: callback_ends_def raising_callback_def leaves_entry_def)

theorem run_patch_failure_latches_witness:
  "\<exists>t reason. run_patch 1 ''p'' (OneTarget ''m.f'') raising_callback True (empty_registry 0)
        = Some (raise TypeError ''bad'', t)
     \<and> format_failure (FromExn (Exn TypeError ''bad'')) = Inr reason
     \<and> reg_status t ''p'' = Some FAILED
     \<and> map_option rec_failure_reason (reg_get ''p'' t) = Some (Some reason)
     \<and> dict_get (owners t) ''p'' = None
     \<and> (\<forall>tid' (cb' :: (registry, nat) op) enabled'. run_patch tid' ''p'' (OneTarget ''m.f'') cb' enabled' t
           = Some (Inl (err_latched ''p'' (Some reason)), t))"
  using run_patch_failure_latches [OF fresh_claimable(2,1) raising_callback_ends] by blast

text \<open>
  While a patch is applying, every other thread that begins it waits, the owner itself
  gets a re-entrancy error, and neither changes the registry.
\<close>

theorem applying_excludes_others:
  assumes "reg_inv s" and "reg_status s (py_strip pid) = Some APPLYING" and "py_strip pid \<noteq> []"
  shows "\<exists>owner. dict_get (owners s) (py_strip pid) = Some owner
     \<and> (\<forall>tid. reg_begin tid pid s =
           (if tid = owner then Some (Inl (err_reentrant (py_strip pid)), s) else None))"
proof -
  obtain owner where "dict_get (owners s) (py_strip pid) = Some owner"
    using reg_inv_owner [OF assms(1), of "py_strip pid"] assms(2) by auto
  then show ?thesis
    using assms(2,3) by (auto simp: reg_begin_def validate_patch_id_def)
qed

definition applying_registry :: registry where
  "applying_registry = snd (the (run_calls [CDeclare ''p'' (OneTarget ''m.f''), CBegin 1 ''p'']
     (empty_registry 0)))"

lemma applying_registry_ok:
  "reg_inv applying_registry" "reg_status applying_registry (py_strip '' p '') = Some APPLYING"
  "py_strip '' p '' \<noteq> []"
proof -
  have "run_calls [CDeclare ''p'' (OneTarget ''m.f''), CBegin 1 ''p''] (empty_registry 0) \<noteq> None"
    by code_simp
  then obtain tr where "run_calls [CDeclare ''p'' (OneTarget ''m.f''), CBegin 1 ''p''] (empty_registry 0)
      = Some (tr, applying_registry)"
    by (auto simp: applying_registry_def)
  from trace_inv [OF run_calls_trace [OF this trace_start] reg_inv_empty]
  show "reg_inv applying_registry" .
  show "reg_status applying_registry (py_strip '' p '') = Some APPLYING" by code_simp
  show "py_strip '' p '' \<noteq> []" by code_simp
qed

theorem applying_excludes_others_witness:
  "\<exists>owner. dict_get (owners applying_registry) (py_strip '' p '') = Some owner
     \<and> (\<forall>tid. reg_begin tid '' p '' applying_registry =
           (if tid = owner then Some (Inl (err_reentrant (py_strip '' p '')), applying_registry) else None))"
  using applying_excludes_others [OF applying_registry_ok] .

text \<open>
  A patch run under a name with surrounding white space is never finished: the mark is
  stored under the unstripped name, so the stripped entry stays applying although the call
  returned the callback's value; the same thread then gets a re-entrancy error and every
  other thread waits for ever.
\<close>

theorem padded_id_left_applying:
  assumes "\<not> canonical pid" and "claimable (py_strip pid) targets s"
    and "callback_ends (py_strip pid) (Inr x) cb"
  shows "\<exists>t. run_patch tid pid targets cb enabled s = Some (Inr (Some x), t)
     \<and> reg_status t (py_strip pid) = Some APPLYING \<and> reg_status t pid = Some APPLIED
     \<and> (\<forall>tid'. reg_begin tid' pid t =
           (if tid' = tid then Some (Inl (err_reentrant (py_strip pid)), t) else None))"
proof -
  have pid: "py_strip pid \<noteq> pid" "py_strip pid \<noteq> []"
    using assms(1,2) by (auto simp: canonical_def claimable_def)
  obtain r t u old where run: "reg_declare pid targets s = Some (Inr r, t)"
      "reg_begin tid pid t = Some (Inr True, u)"
    and old: "dict_get (records u) (py_strip pid) = Some old" "rec_status old = APPLYING"
      "dict_get (owners u) (py_strip pid) = Some tid"
    using declare_begin_claimable [of pid targets s tid] assms(2) by metis
  obtain w where w: "cb u = Some (Inr x, w)" "leaves_entry (py_strip pid) u w"
    using assms(3) by (auto simp: callback_ends_def)
  let ?new = "old\<lparr>rec_status := APPLIED, rec_feature_enabled := enabled,
           rec_failure_reason := None, rec_updated_at := clock w\<rparr>"
  have "run_patch tid pid targets cb enabled s = Some (Inr (Some x), finish_state pid ?new w)"
    using run_patch_claimed [of pid targets s r t tid u cb _ w enabled, OF run w(1)] mark_applied_run [of w pid old enabled] w(2) old pid
    by (simp add: leaves_entry_def seq_op_def bind_op_def op_simps Let_def)
  then show ?thesis
    using w(2) old pid
    by (auto simp: finish_state_def leaves_entry_def reg_begin_def validate_patch_id_def)
qed

lemma padded_claimable:
  "\<not> canonical '' p''" "claimable (py_strip '' p'') (OneTarget ''m.f'') (empty_registry 0)"
  by code_simp+

theorem padded_id_left_applying_witness:
  "\<exists>t. run_patch 1 '' p'' (OneTarget ''m.f'') tick_callback True (empty_registry 0) = Some (Inr (Some 7), t)
     \<and> reg_status t (py_strip '' p'') = Some APPLYING \<and> reg_status t '' p'' = Some APPLIED
     \<and> (\<forall>tid'. reg_begin tid' '' p'' t =
           (if tid' = 1 then Some (Inl (err_reentrant (py_strip '' p'')), t) else None))"
  using padded_id_left_applying [OF padded_claimable tick_callback_ends] .

end
