(* ===== verification/Import_Coordinator.thy ===== *)
theory Import_Coordinator
  imports Patch_Registry
begin

text \<open>
  The exact-name import coordinator, \<open>src/vllm_hcu/patch/import_coordinator.py\<close>.  The state
  of a process is a record: the patch registry, the coordinator's two dictionaries, the
  interpreter's \<open>sys.modules\<close> and \<open>sys.meta_path\<close>, and the heaps of entry and module
  objects (the code mutates both and compares them by identity, so they have addresses).

  Callbacks, replacement factories, \<open>importlib.import_module\<close> and the finders and loaders of
  other packages are code outside the coordinator: they are operations on the same state,
  given by a \<open>coord_env\<close>.  An operation is the run of one thread; it blocks when
  \<open>PatchRegistry.begin\<close> waits for another thread.
\<close>

section \<open>Data\<close>

datatype import_action = CALLBACK | REPLACEMENT

datatype late_policy = LateFail | LateReplace

text \<open>A Python object that may be bound in \<open>sys.modules\<close>: a module, or another object with its type name.\<close>

datatype obj = ModuleObj nat | OtherObj string

datatype payload = PName string | PModule nat | PCallable nat

record entry =
  ent_patch_id :: string
  ent_module_name :: string
  ent_targets :: "string list"
  ent_action :: import_action
  ent_payload :: payload
  ent_feature_enabled :: bool
  ent_late_policy :: late_policy
  ent_replacement_module :: "nat option"
  ent_previous_module :: "obj option"

datatype loader =
    PostLoadLoader string "loader option"
  | ReplacementLoader string
  | BlockedLoader exn_class string
  | ForeignLoader nat

record module_spec =
  spec_name :: string
  spec_loader :: "loader option"
  spec_origin :: "string option"
  spec_is_package :: bool
  spec_initializing :: bool

text \<open>The attributes of a module that the coordinator reads and writes.\<close>

record module_attrs =
  mod_spec :: "module_spec option"
  mod_loader :: "loader option"
  mod_has_path :: bool

text \<open>What \<open>_install_reload_guard\<close> saves of a replacement module, once per entry.\<close>

record guard_save =
  guard_spec :: "module_spec option"
  guard_loader :: "loader option"

datatype finder = SelfFinder | ForeignFinder nat

record world =
  w_reg :: registry
  w_entries :: "(string, nat) dict"
  w_by_module :: "(string, string list) dict"
  w_installed :: bool
  w_meta_path :: "finder list"
  w_sys_modules :: "(string, obj) dict"
  w_entry :: "nat \<Rightarrow> entry"
  w_next_entry :: nat
  w_guard :: "nat \<Rightarrow> guard_save option"
  w_module :: "nat \<Rightarrow> module_attrs"

record coord_env =
  env_call :: "nat \<Rightarrow> obj option \<Rightarrow> (world, obj) op"
  env_import_module :: "string \<Rightarrow> (world, obj) op"
  env_find_spec :: "nat \<Rightarrow> (string \<Rightarrow> nat option \<Rightarrow> nat option \<Rightarrow> (world, module_spec option) op) option"
  env_create_module :: "nat \<Rightarrow> (module_spec \<Rightarrow> (world, nat option) op) option"
  env_exec_module :: "nat \<Rightarrow> nat \<Rightarrow> (world, unit) op"

record import_registration =
  ir_patch_id :: string
  ir_module_name :: string
  ir_targets :: "string list"
  ir_action :: import_action
  ir_status :: string
  ir_feature_enabled :: bool

section \<open>Errors\<close>

definition err_module_name_empty :: exn where
  "err_module_name_empty = Exn ValueError ''module_name must be a non-empty absolute module name''"

definition err_module_name_relative :: "string \<Rightarrow> exn" where
  "err_module_name_relative n = Exn ValueError
     (''relative or incomplete module name is not allowed: '' @ py_repr n)"

definition err_module_name_invalid :: "string \<Rightarrow> exn" where
  "err_module_name_invalid n = Exn ValueError (''invalid exact module name: '' @ py_repr n)"

definition err_optional_reason :: exn where
  "err_optional_reason = Exn ValueError ''optional patch reason must be a non-empty string''"

definition err_late_install :: "string \<Rightarrow> exn" where
  "err_late_install n = Exn LateModuleReplacementError
     (''cannot replace already imported module '' @ py_repr n @
      ''; the module loaded between HCU registration and coordinator install'')"

definition err_late_register :: "string \<Rightarrow> exn" where
  "err_late_register n = Exn LateModuleReplacementError
     (''cannot replace already imported module '' @ py_repr n @
      ''; register this replacement during platform plugin initialization'')"

definition err_same_module :: exn where
  "err_same_module =
     Exn ValueError ''replacement module must differ from the canonical module name''"

definition err_conflict :: "string \<Rightarrow> exn" where
  "err_conflict pid = Exn ValueError
     (''conflicting import registration for patch '' @ py_repr pid)"

definition err_second_replacement :: "string \<Rightarrow> string \<Rightarrow> exn" where
  "err_second_replacement n pid = Exn ValueError
     (''module '' @ py_repr n @ '' already has replacement '' @ py_repr pid)"

definition failure_text :: "string option \<Rightarrow> string" where
  "failure_text reason =
     (case reason of None \<Rightarrow> ''unknown failure'' | Some t \<Rightarrow> if t = [] then ''unknown failure'' else t)"

definition err_previously_failed :: "string \<Rightarrow> string option \<Rightarrow> exn" where
  "err_previously_failed pid reason = Exn LatchedPatchError
     (''patch '' @ py_repr pid @ '' previously failed: '' @ failure_text reason)"

definition err_unknown_registration :: "string \<Rightarrow> exn" where
  "err_unknown_registration pid =
     Exn KeyError (py_repr (''unknown import registration '' @ py_repr pid))"

definition err_missing_reference :: "string \<Rightarrow> exn" where
  "err_missing_reference pid = Exn LatchedPatchError
     (''replacement '' @ py_repr pid @ '' is applied but its module reference is missing'')"

definition err_no_replacement :: "string \<Rightarrow> exn" where
  "err_no_replacement n = Exn ImportError (''no HCU replacement registered for '' @ py_repr n)"

definition err_not_a_module :: "string \<Rightarrow> exn" where
  "err_not_a_module tyname = Exn TypeError
     (''module replacement must resolve to ModuleType, got '' @ tyname)"

definition msg_reload :: "string \<Rightarrow> string \<Rightarrow> string" where
  "msg_reload n pid =
     ''reload of '' @ py_repr n @ '' is blocked because HCU patch '' @ py_repr pid @
     '' is already applied; reload could discard a wrapper or register a custom op twice''"

definition msg_applying :: "string \<Rightarrow> string \<Rightarrow> string" where
  "msg_applying n pid =
     ''re-entrant import of '' @ py_repr n @ '' blocked while HCU patch '' @ py_repr pid @
     '' is applying''"

definition msg_failed :: "string \<Rightarrow> string option \<Rightarrow> string" where
  "msg_failed pid reason =
     ''import blocked by failed HCU patch '' @ py_repr pid @ '': '' @ failure_text reason"

section \<open>Validation\<close>

text \<open>The exception that \<open>OptionalPatchUnavailable(reason)\<close> constructs.\<close>

definition optional_patch_unavailable :: "string \<Rightarrow> exn result" where
  "optional_patch_unavailable reason =
     (if py_strip reason = [] then Inl err_optional_reason
      else Inr (Exn OptionalPatchUnavailable (py_strip reason)))"

definition validate_module_name :: "string \<Rightarrow> string result" where
  "validate_module_name n =
     (if n = [] then Inl err_module_name_empty
      else if hd n = CHR ''.'' \<or> last n = CHR ''.'' then Inl (err_module_name_relative n)
      else if list_ex (\<lambda>part. \<not> py_isidentifier part) (py_split (CHR ''.'') n)
      then Inl (err_module_name_invalid n)
      else Inr n)"

definition coord_normalise_targets :: "string \<Rightarrow> targets_arg option \<Rightarrow> string list result" where
  "coord_normalise_targets module_name targets =
     (let values = (case targets of
                      None \<Rightarrow> [module_name]
                    | Some (OneTarget t) \<Rightarrow> [t]
                    | Some (ManyTargets ts) \<Rightarrow> ts)
      in if values = [] \<or> list_ex (\<lambda>t. py_strip t = []) values then Inl err_targets
         else Inr (map py_strip values))"

definition validate_replacement :: "payload \<Rightarrow> unit result" where
  "validate_replacement replacement =
     (case replacement of
        PName n \<Rightarrow> and_then (validate_module_name n) (\<lambda>_. Inr ())
      | PModule _ \<Rightarrow> Inr ()
      | PCallable _ \<Rightarrow> Inr ())"

section \<open>Reading the state\<close>

text \<open>A registry call made by the coordinator.\<close>

definition in_reg :: "(registry, 'a) op \<Rightarrow> (world, 'a) op" where
  "in_reg m w = map_option (\<lambda>(v, r). (v, w\<lparr>w_reg := r\<rparr>)) (m (w_reg w))"

definition entry_status :: "world \<Rightarrow> nat \<Rightarrow> patch_status option" where
  "entry_status w a = map_option rec_status (reg_get (ent_patch_id (w_entry w a)) (w_reg w))"

definition entry_failure :: "world \<Rightarrow> nat \<Rightarrow> string option" where
  "entry_failure w a =
     (case reg_get (ent_patch_id (w_entry w a)) (w_reg w) of
        None \<Rightarrow> None | Some r \<Rightarrow> rec_failure_reason r)"

definition is_armed :: "world \<Rightarrow> nat \<Rightarrow> bool" where
  "is_armed w a \<longleftrightarrow> entry_status w a = Some ARMED"

text \<open>\<open>[self._entries[key] for key in self._by_module.get(fullname, ())]\<close>\<close>

definition module_ids :: "world \<Rightarrow> string \<Rightarrow> string list" where
  "module_ids w fullname = (case dict_get (w_by_module w) fullname of None \<Rightarrow> [] | Some ids \<Rightarrow> ids)"

definition lookup_entry :: "world \<Rightarrow> string \<Rightarrow> nat result" where
  "lookup_entry w pid =
     (case dict_get (w_entries w) pid of Some a \<Rightarrow> Inr a | None \<Rightarrow> raise KeyError (py_repr pid))"

definition entries_for :: "world \<Rightarrow> string \<Rightarrow> nat list result" where
  "entries_for w fullname = map_result (lookup_entry w) (module_ids w fullname)"

definition module_is_initializing :: "world \<Rightarrow> nat \<Rightarrow> bool" where
  "module_is_initializing w m \<longleftrightarrow>
     (case mod_spec (w_module w m) of None \<Rightarrow> False | Some spec \<Rightarrow> spec_initializing spec)"

text \<open>The module bound to a name, when it is a module whose loader has finished.\<close>

definition loaded_module :: "world \<Rightarrow> string \<Rightarrow> nat option" where
  "loaded_module w name =
     (case dict_get (w_sys_modules w) name of
        Some (ModuleObj m) \<Rightarrow> if module_is_initializing w m then None else Some m
      | _ \<Rightarrow> None)"

definition raise_if_failed :: "nat \<Rightarrow> (world, unit) op" where
  "raise_if_failed a w =
     (if entry_status w a = Some FAILED
      then Some (Inl (err_previously_failed (ent_patch_id (w_entry w a)) (entry_failure w a)), w)
      else Some (Inr (), w))"

text \<open>
  Payloads are compared by identity.  Modules and callables are their identities here; a text payload is
  the literal of its call site, so equal texts are the same object.
\<close>

definition same_registration :: "entry \<Rightarrow> entry \<Rightarrow> bool" where
  "same_registration l r \<longleftrightarrow>
     ent_module_name l = ent_module_name r \<and> ent_targets l = ent_targets r \<and>
     ent_action l = ent_action r \<and> ent_payload l = ent_payload r \<and>
     ent_late_policy l = ent_late_policy r"

definition active_replacement :: "world \<Rightarrow> nat list \<Rightarrow> nat option" where
  "active_replacement w es =
     List.find (\<lambda>a. ent_action (w_entry w a) = REPLACEMENT \<and>
                    (entry_status w a = Some ARMED \<or> entry_status w a = Some APPLIED)) es"

definition view :: "nat \<Rightarrow> world \<Rightarrow> import_registration" where
  "view a w =
     (let e = w_entry w a; r = reg_get (ent_patch_id e) (w_reg w)
      in \<lparr>ir_patch_id = ent_patch_id e, ir_module_name = ent_module_name e,
          ir_targets = ent_targets e, ir_action = ent_action e,
          ir_status = (case r of None \<Rightarrow> ''unknown'' | Some rc \<Rightarrow> status_value (rec_status rc)),
          ir_feature_enabled = (case r of None \<Rightarrow> False | Some rc \<Rightarrow> rec_feature_enabled rc)\<rparr>)"

definition registrations :: "world \<Rightarrow> import_registration list" where
  "registrations w = map (\<lambda>k. view (the (dict_get (w_entries w) k)) w) (sort (dict_keys (w_entries w)))"

section \<open>Writing the state\<close>

definition update_entry :: "nat \<Rightarrow> (entry \<Rightarrow> entry) \<Rightarrow> world \<Rightarrow> world" where
  "update_entry a f w = w\<lparr>w_entry := (w_entry w)(a := f (w_entry w a))\<rparr>"

text \<open>
  \<open>importlib.util.spec_from_loader\<close> for the coordinator's own loaders, which define neither
  \<open>get_filename\<close> nor \<open>is_package\<close>.
\<close>

definition spec_from_loader :: "string \<Rightarrow> loader \<Rightarrow> string \<Rightarrow> bool \<Rightarrow> module_spec" where
  "spec_from_loader name l origin is_package =
     \<lparr>spec_name = name, spec_loader = Some l, spec_origin = Some origin,
      spec_is_package = is_package, spec_initializing = False\<rparr>"

definition install_reload_guard :: "nat \<Rightarrow> nat \<Rightarrow> (world, unit) op" where
  "install_reload_guard a m =
     modify (\<lambda>w.
       let saved = (case w_guard w a of
                      Some g \<Rightarrow> g
                    | None \<Rightarrow> \<lparr>guard_spec = mod_spec (w_module w m), guard_loader = mod_loader (w_module w m)\<rparr>);
           guarded = ReplacementLoader (ent_module_name (w_entry w a));
           attrs = w_module w m
       in w\<lparr>w_guard := (w_guard w)(a := Some saved),
            w_module := (w_module w)(m := attrs\<lparr>
              mod_spec := Some (spec_from_loader (ent_module_name (w_entry w a)) guarded
                 (''vllm-hcu replacement:'' @ ent_patch_id (w_entry w a)) (mod_has_path attrs)),
              mod_loader := Some guarded\<rparr>)\<rparr>)"

fun first_replacement :: "world \<Rightarrow> string list \<Rightarrow> nat option result" where
  "first_replacement w [] = Inr None"
| "first_replacement w (pid # ids) =
     and_then (lookup_entry w pid) (\<lambda>a.
       if ent_action (w_entry w a) = REPLACEMENT then Inr (Some a) else first_replacement w ids)"

definition replacement_for :: "string \<Rightarrow> (world, nat) op" where
  "replacement_for fullname w =
     (case first_replacement w (module_ids w fullname) of
        Inl e \<Rightarrow> Some (Inl e, w)
      | Inr (Some a) \<Rightarrow> Some (Inr a, w)
      | Inr None \<Rightarrow> Some (Inl (err_no_replacement fullname), w))"

definition resolve_replacement :: "coord_env \<Rightarrow> payload \<Rightarrow> (world, nat) op" where
  "resolve_replacement env replacement =
     bind_op (case replacement of
                PModule m \<Rightarrow> ret (ModuleObj m)
              | PName n \<Rightarrow> env_import_module env n
              | PCallable c \<Rightarrow> env_call env c None) (\<lambda>v.
       case v of ModuleObj m \<Rightarrow> ret m | OtherObj tyname \<Rightarrow> throw (err_not_a_module tyname))"

section \<open>Applying callbacks\<close>

definition apply_callback :: "coord_env \<Rightarrow> nat \<Rightarrow> nat \<Rightarrow> nat \<Rightarrow> (world, unit) op" where
  "apply_callback env tid a m =
     bind_op (gets (\<lambda>w. w_entry w a)) (\<lambda>e.
     bind_op (in_reg (reg_begin tid (ent_patch_id e))) (\<lambda>claimed.
       if \<not> claimed then ret ()
       else (case ent_payload e of
          PCallable c \<Rightarrow>
            bind_op (catch_op (seq_op (env_call env c (Some (ModuleObj m))) (ret True))
              (\<lambda>exc.
                 if exn_kind exc = OptionalPatchUnavailable
                 then seq_op (in_reg (reg_mark_skipped (ent_patch_id e) (Some (exn_text exc)))) (ret False)
                 else seq_op (in_reg (reg_mark_failed (ent_patch_id e) (FromExn exc))) (throw exc)))
              (\<lambda>completed.
                 if \<not> completed then ret ()
                 else bind_op (gets (\<lambda>w. ent_feature_enabled (w_entry w a))) (\<lambda>enabled.
                        seq_op (in_reg (reg_mark_applied (ent_patch_id e) enabled)) (ret ())))
        | _ \<Rightarrow> throw (Exn AssertionError []))))"

text \<open>The loop of \<open>_module_loaded\<close>: every entry is tried, the first error is kept.\<close>

fun apply_all :: "coord_env \<Rightarrow> nat \<Rightarrow> nat list \<Rightarrow> nat \<Rightarrow> exn option \<Rightarrow> (world, exn option) op" where
  "apply_all env tid [] m first_error = ret first_error"
| "apply_all env tid (a # es) m first_error =
     bind_op (gets (\<lambda>w. ent_action (w_entry w a) \<noteq> CALLBACK \<or> \<not> is_armed w a)) (\<lambda>skip.
       if skip then apply_all env tid es m first_error
       else bind_op (catch_op (seq_op (apply_callback env tid a m) (ret first_error))
                (\<lambda>exc. ret (case first_error of None \<Rightarrow> Some exc | Some e \<Rightarrow> Some e)))
              (apply_all env tid es m))"

definition module_loaded :: "coord_env \<Rightarrow> nat \<Rightarrow> string \<Rightarrow> nat \<Rightarrow> (world, unit) op" where
  "module_loaded env tid fullname m =
     bind_op (gets (\<lambda>w. entries_for w fullname)) (\<lambda>found.
     bind_op (lift_result found) (\<lambda>es.
     bind_op (apply_all env tid es m None) (\<lambda>first_error.
       case first_error of None \<Rightarrow> ret () | Some e \<Rightarrow> throw e)))"

definition module_load_failed :: "string \<Rightarrow> exn \<Rightarrow> (world, unit) op" where
  "module_load_failed fullname error =
     bind_op (gets (\<lambda>w. entries_for w fullname)) (\<lambda>found.
     bind_op (lift_result found) (\<lambda>es.
       for_each es (\<lambda>a.
         bind_op (gets (\<lambda>w. ent_action (w_entry w a) = CALLBACK \<and> is_armed w a)) (\<lambda>armed.
           if armed
           then bind_op (gets (\<lambda>w. ent_patch_id (w_entry w a))) (\<lambda>pid.
                  seq_op (in_reg (reg_mark_failed pid (FromExn error))) (ret ()))
           else ret ()))))"

section \<open>Replacing modules\<close>

definition create_replacement :: "coord_env \<Rightarrow> nat \<Rightarrow> string \<Rightarrow> (world, nat) op" where
  "create_replacement env tid fullname =
     bind_op (replacement_for fullname) (\<lambda>a.
     bind_op (gets (\<lambda>w. (entry_status w a, w_entry w a))) (\<lambda>(status, e).
       if status = Some APPLIED
       then (case ent_replacement_module e of
               None \<Rightarrow> throw (err_missing_reference (ent_patch_id e))
             | Some m \<Rightarrow> ret m)
       else seq_op (in_reg (reg_begin tid (ent_patch_id e)))
              (bind_op (catch_op (resolve_replacement env (ent_payload e))
                 (\<lambda>exc. seq_op (in_reg (reg_mark_failed (ent_patch_id e) (FromExn exc))) (throw exc)))
                (\<lambda>m. seq_op (modify (update_entry a
                        (\<lambda>x. x\<lparr>ent_previous_module := None, ent_replacement_module := Some m\<rparr>)))
                      (ret m)))))"

definition replacement_loaded :: "coord_env \<Rightarrow> nat \<Rightarrow> string \<Rightarrow> nat \<Rightarrow> (world, unit) op" where
  "replacement_loaded env tid fullname m =
     bind_op (replacement_for fullname) (\<lambda>a.
     bind_op (gets (\<lambda>w. (entry_status w a, w_entry w a))) (\<lambda>(status, e).
     seq_op (if status = Some APPLYING
             then seq_op (in_reg (reg_mark_applied (ent_patch_id e) (ent_feature_enabled e))) (ret ())
             else ret ())
       (seq_op (install_reload_guard a m) (module_loaded env tid fullname m))))"

definition replace_loaded_module :: "coord_env \<Rightarrow> nat \<Rightarrow> nat \<Rightarrow> obj \<Rightarrow> (world, unit) op" where
  "replace_loaded_module env tid a previous =
     bind_op (gets (\<lambda>w. w_entry w a)) (\<lambda>e.
     bind_op (in_reg (reg_begin tid (ent_patch_id e))) (\<lambda>claimed.
       if \<not> claimed then ret ()
       else bind_op (catch_op
              (bind_op (resolve_replacement env (ent_payload e)) (\<lambda>m.
                 seq_op (modify (\<lambda>w. update_entry a
                    (\<lambda>x. x\<lparr>ent_previous_module := Some previous, ent_replacement_module := Some m\<rparr>)
                    (w\<lparr>w_sys_modules := dict_set (ent_module_name e) (ModuleObj m) (w_sys_modules w)\<rparr>)))
                   (ret m)))
              (\<lambda>exc. seq_op (in_reg (reg_mark_failed (ent_patch_id e) (FromExn exc))) (throw exc))) (\<lambda>m.
            bind_op (gets (\<lambda>w. ent_feature_enabled (w_entry w a))) (\<lambda>enabled.
            seq_op (in_reg (reg_mark_applied (ent_patch_id e) enabled))
              (seq_op (install_reload_guard a m) (module_loaded env tid (ent_module_name e) m))))))"

section \<open>Registration\<close>

definition install :: "coord_env \<Rightarrow> nat \<Rightarrow> (world, unit) op" where
  "install env tid =
     bind_op (gets (\<lambda>w. SelfFinder \<in> set (w_meta_path w))) (\<lambda>present.
       if present then modify (\<lambda>w. w\<lparr>w_installed := True\<rparr>)
       else seq_op (modify (\<lambda>w. w\<lparr>w_meta_path := SelfFinder # w_meta_path w, w_installed := True\<rparr>))
         (bind_op (gets (\<lambda>w. dict_keys (w_by_module w))) (\<lambda>module_names.
            for_each module_names (\<lambda>module_name.
              bind_op (gets (\<lambda>w. loaded_module w module_name)) (\<lambda>loaded.
                case loaded of
                  None \<Rightarrow> ret ()
                | Some m \<Rightarrow>
                    bind_op (gets (\<lambda>w. entries_for w module_name)) (\<lambda>found.
                    bind_op (lift_result found) (\<lambda>es.
                    bind_op (gets (\<lambda>w. active_replacement w es)) (\<lambda>replacement.
                      case replacement of
                        None \<Rightarrow> module_loaded env tid module_name m
                      | Some a \<Rightarrow>
                          bind_op (gets (\<lambda>w. w_entry w a)) (\<lambda>e.
                            if ent_late_policy e = LateFail
                            then seq_op (in_reg (reg_mark_failed (ent_patch_id e)
                                          (FromExn (err_late_install module_name))))
                                   (throw (err_late_install module_name))
                            else replace_loaded_module env tid a (ModuleObj m))))))))))"

definition uninstall :: "(world, unit) op" where
  "uninstall =
     modify (\<lambda>w. w\<lparr>w_meta_path := filter (\<lambda>f. f \<noteq> SelfFinder) (w_meta_path w), w_installed := False\<rparr>)"

definition installed :: "world \<Rightarrow> bool" where
  "installed w \<longleftrightarrow> w_installed w \<and> SelfFinder \<in> set (w_meta_path w)"

text \<open>Allocation of a new entry object; it is registered only when \<open>_register\<close> accepts it.\<close>

definition new_entry :: "entry \<Rightarrow> (world, nat) op" where
  "new_entry e w =
     Some (Inr (w_next_entry w), w\<lparr>w_entry := (w_entry w)(w_next_entry w := e), w_next_entry := w_next_entry w + 1\<rparr>)"

definition register :: "nat \<Rightarrow> (world, nat) op" where
  "register a =
     bind_op (gets (\<lambda>w. w_entry w a)) (\<lambda>e.
     bind_op (gets (\<lambda>w. dict_get (w_entries w) (ent_patch_id e))) (\<lambda>existing.
       case existing of
         Some b \<Rightarrow>
           bind_op (gets (\<lambda>w. w_entry w b)) (\<lambda>old.
             if \<not> same_registration old e then throw (err_conflict (ent_patch_id e))
             else seq_op (raise_if_failed b)
               (seq_op (if ent_feature_enabled old \<noteq> ent_feature_enabled e
                        then seq_op (modify (update_entry b (\<lambda>x. x\<lparr>ent_feature_enabled := ent_feature_enabled e\<rparr>)))
                               (seq_op (in_reg (reg_set_feature_enabled (ent_patch_id old) (ent_feature_enabled e)))
                                 (ret ()))
                        else ret ())
                 (ret b)))
       | None \<Rightarrow>
           seq_op (if ent_action e = REPLACEMENT
                   then bind_op (gets (\<lambda>w. first_replacement w (module_ids w (ent_module_name e)))) (\<lambda>found.
                        bind_op (lift_result found) (\<lambda>other.
                          case other of
                            None \<Rightarrow> ret ()
                          | Some b \<Rightarrow>
                              bind_op (gets (\<lambda>w. ent_patch_id (w_entry w b))) (\<lambda>pid.
                                throw (err_second_replacement (ent_module_name e) pid))))
                   else ret ())
             (seq_op (in_reg (reg_declare (ent_patch_id e) (ManyTargets (ent_targets e))))
               (seq_op (in_reg (reg_set_feature_enabled (ent_patch_id e) (ent_feature_enabled e)))
                 (seq_op (modify (\<lambda>w. w\<lparr>
                      w_entries := dict_set (ent_patch_id e) a (w_entries w),
                      w_by_module := dict_set (ent_module_name e)
                         (module_ids w (ent_module_name e) @ [ent_patch_id e]) (w_by_module w)\<rparr>))
                   (ret a))))))"

text \<open>The allocated entry and the entry registered for its patch: the same unless it was known.\<close>

definition enrol :: "entry \<Rightarrow> (world, nat \<times> nat) op" where
  "enrol e = bind_op (new_entry e) (\<lambda>a. bind_op (register a) (\<lambda>b. ret (a, b)))"

definition register_callback ::
  "coord_env \<Rightarrow> nat \<Rightarrow> string \<Rightarrow> string \<Rightarrow> nat \<Rightarrow> targets_arg option \<Rightarrow> bool
     \<Rightarrow> (world, import_registration) op" where
  "register_callback env tid pid module_name callback targets enabled =
     bind_op (lift_result (validate_module_name module_name)) (\<lambda>name.
     bind_op (lift_result (coord_normalise_targets module_name targets)) (\<lambda>ts.
     bind_op (enrol \<lparr>ent_patch_id = pid, ent_module_name = name, ent_targets = ts,
        ent_action = CALLBACK, ent_payload = PCallable callback, ent_feature_enabled = enabled,
        ent_late_policy = LateFail, ent_replacement_module = None, ent_previous_module = None\<rparr>) (\<lambda>(a, b).
       if b \<noteq> a
       then seq_op (raise_if_failed b)
         (bind_op (gets (\<lambda>w. loaded_module w (ent_module_name (w_entry w b)))) (\<lambda>loaded.
          bind_op (gets (\<lambda>w. is_armed w b)) (\<lambda>armed.
            seq_op (case loaded of
                      None \<Rightarrow> ret ()
                    | Some m \<Rightarrow> if armed then apply_callback env tid b m else ret ())
              (gets (view b)))))
       else bind_op (gets (\<lambda>w. loaded_module w name)) (\<lambda>loaded.
              seq_op (case loaded of None \<Rightarrow> ret () | Some m \<Rightarrow> apply_callback env tid a m)
                (gets (view a))))))"

definition register_replacement ::
  "coord_env \<Rightarrow> nat \<Rightarrow> string \<Rightarrow> string \<Rightarrow> payload \<Rightarrow> targets_arg option \<Rightarrow> bool \<Rightarrow> late_policy
     \<Rightarrow> (world, import_registration) op" where
  "register_replacement env tid pid module_name replacement targets enabled policy =
     bind_op (lift_result (validate_module_name module_name)) (\<lambda>name.
     seq_op (lift_result (validate_replacement replacement))
     (if replacement = PName name then throw err_same_module
      else bind_op (lift_result (coord_normalise_targets name targets)) (\<lambda>ts.
     bind_op (enrol \<lparr>ent_patch_id = pid, ent_module_name = name, ent_targets = ts,
        ent_action = REPLACEMENT, ent_payload = replacement, ent_feature_enabled = enabled,
        ent_late_policy = policy, ent_replacement_module = None, ent_previous_module = None\<rparr>) (\<lambda>(a, b).
       if b \<noteq> a then seq_op (raise_if_failed b) (gets (view b))
       else bind_op (gets (\<lambda>w. dict_get (w_sys_modules w) name)) (\<lambda>loaded.
              seq_op (case loaded of
                        None \<Rightarrow> ret ()
                      | Some previous \<Rightarrow>
                          if policy = LateFail
                          then seq_op (in_reg (reg_mark_failed pid (FromExn (err_late_register name))))
                                 (throw (err_late_register name))
                          else replace_loaded_module env tid a previous)
                (gets (view a)))))))"

definition drain_ready_callbacks :: "coord_env \<Rightarrow> nat \<Rightarrow> (world, import_registration list) op" where
  "drain_ready_callbacks env tid =
     bind_op (gets (\<lambda>w. filter (\<lambda>a. ent_action (w_entry w a) = CALLBACK) (map snd (w_entries w)))) (\<lambda>es.
     seq_op (for_each es (\<lambda>a.
         seq_op (raise_if_failed a)
           (bind_op (gets (\<lambda>w. is_armed w a)) (\<lambda>armed.
              if \<not> armed then ret ()
              else bind_op (gets (\<lambda>w. loaded_module w (ent_module_name (w_entry w a)))) (\<lambda>loaded.
                     case loaded of None \<Rightarrow> ret () | Some m \<Rightarrow> apply_callback env tid a m)))))
       (gets registrations))"

definition coord_set_feature_enabled :: "string \<Rightarrow> bool \<Rightarrow> (world, import_registration) op" where
  "coord_set_feature_enabled pid enabled =
     bind_op (gets (\<lambda>w. dict_get (w_entries w) pid)) (\<lambda>found.
       case found of
         None \<Rightarrow> throw (err_unknown_registration pid)
       | Some a \<Rightarrow>
           seq_op (modify (update_entry a (\<lambda>x. x\<lparr>ent_feature_enabled := enabled\<rparr>)))
             (seq_op (in_reg (reg_set_feature_enabled pid enabled)) (gets (view a))))"

text \<open>Restoring one replaced alias; a previous value that is \<open>None\<close> counts as missing.\<close>

definition restore_alias :: "nat \<Rightarrow> world \<Rightarrow> world" where
  "restore_alias a w =
     (let e = w_entry w a
      in case ent_replacement_module e of
           None \<Rightarrow> w
         | Some m \<Rightarrow>
             (let w1 = (if dict_get (w_sys_modules w) (ent_module_name e) = Some (ModuleObj m)
                        then (case ent_previous_module e of
                                Some previous \<Rightarrow>
                                  if previous = OtherObj ''NoneType''
                                  then w\<lparr>w_sys_modules := dict_pop (ent_module_name e) (w_sys_modules w)\<rparr>
                                  else w\<lparr>w_sys_modules := dict_set (ent_module_name e) previous (w_sys_modules w)\<rparr>
                              | None \<Rightarrow> w\<lparr>w_sys_modules := dict_pop (ent_module_name e) (w_sys_modules w)\<rparr>)
                        else w)
              in case w_guard w1 a of
                   None \<Rightarrow> w1
                 | Some g \<Rightarrow> w1\<lparr>w_module := (w_module w1)(m := (w_module w1 m)\<lparr>
                      mod_spec := guard_spec g, mod_loader := guard_loader g\<rparr>)\<rparr>))"

definition coord_reset_for_tests :: "bool \<Rightarrow> (world, unit) op" where
  "coord_reset_for_tests reset_registry =
     seq_op uninstall
       (bind_op (gets (\<lambda>w. filter (\<lambda>a. ent_action (w_entry w a) = REPLACEMENT) (map snd (w_entries w)))) (\<lambda>replacements.
        seq_op (modify (\<lambda>w. w\<lparr>w_entries := [], w_by_module := []\<rparr>))
          (seq_op (modify (fold restore_alias replacements))
            (if reset_registry then modify (\<lambda>w. w\<lparr>w_reg := reg_reset_for_tests (w_reg w)\<rparr>) else ret ()))))"

section \<open>Finding and loading modules\<close>

fun find_delegate_spec ::
  "coord_env \<Rightarrow> finder list \<Rightarrow> string \<Rightarrow> nat option \<Rightarrow> nat option \<Rightarrow> (world, module_spec option) op" where
  "find_delegate_spec env [] fullname path target = ret None"
| "find_delegate_spec env (SelfFinder # fs) fullname path target =
     find_delegate_spec env fs fullname path target"
| "find_delegate_spec env (ForeignFinder n # fs) fullname path target =
     (case env_find_spec env n of
        None \<Rightarrow> find_delegate_spec env fs fullname path target
      | Some search \<Rightarrow>
          bind_op (search fullname path target) (\<lambda>spec.
            case spec of
              None \<Rightarrow> find_delegate_spec env fs fullname path target
            | Some sp \<Rightarrow> ret (Some sp)))"

definition find_status :: "world \<Rightarrow> patch_status \<Rightarrow> nat list \<Rightarrow> nat option" where
  "find_status w st es = List.find (\<lambda>a. entry_status w a = Some st) es"

definition reload_guard_spec :: "string \<Rightarrow> string \<Rightarrow> module_spec" where
  "reload_guard_spec fullname pid =
     spec_from_loader fullname (BlockedLoader ModuleReloadBlockedError (msg_reload fullname pid))
       (''vllm-hcu reload guard:'' @ pid) False"

definition applying_spec :: "string \<Rightarrow> string \<Rightarrow> module_spec" where
  "applying_spec fullname pid =
     spec_from_loader fullname (BlockedLoader LatchedPatchError (msg_applying fullname pid))
       (''vllm-hcu applying patch:'' @ pid) False"

definition failed_spec :: "string \<Rightarrow> string \<Rightarrow> string option \<Rightarrow> module_spec" where
  "failed_spec fullname pid reason =
     spec_from_loader fullname (BlockedLoader LatchedPatchError (msg_failed pid reason))
       (''vllm-hcu failed patch:'' @ pid) False"

definition find_spec ::
  "coord_env \<Rightarrow> string \<Rightarrow> nat option \<Rightarrow> nat option \<Rightarrow> (world, module_spec option) op" where
  "find_spec env fullname path target w =
     (case entries_for w fullname of
        Inl e \<Rightarrow> Some (Inl e, w)
      | Inr es \<Rightarrow>
          if es = [] then Some (Inr None, w)
          else (case (if target \<noteq> None then find_status w APPLIED es else None) of
            Some a \<Rightarrow> Some (Inr (Some (reload_guard_spec fullname (ent_patch_id (w_entry w a)))), w)
          | None \<Rightarrow> (case find_status w APPLYING es of
            Some a \<Rightarrow> Some (Inr (Some (applying_spec fullname (ent_patch_id (w_entry w a)))), w)
          | None \<Rightarrow> (case find_status w FAILED es of
            Some a \<Rightarrow>
              Some (Inr (Some (failed_spec fullname (ent_patch_id (w_entry w a)) (entry_failure w a))), w)
          | None \<Rightarrow> (case active_replacement w es of
            Some a \<Rightarrow>
              Some (Inr (Some (spec_from_loader fullname (ReplacementLoader fullname)
                      (''vllm-hcu replacement:'' @ ent_patch_id (w_entry w a)) False)), w)
          | None \<Rightarrow>
              if \<not> list_ex (\<lambda>a. ent_action (w_entry w a) = CALLBACK \<and> is_armed w a) es
              then Some (Inr None, w)
              else bind_op (find_delegate_spec env (w_meta_path w) fullname path target) (\<lambda>found.
                     case found of
                       None \<Rightarrow> ret None
                     | Some sp \<Rightarrow>
                         ret (Some (sp\<lparr>spec_loader := Some (PostLoadLoader fullname (spec_loader sp))\<rparr>))) w)))))"

text \<open>
  The loaders' \<open>create_module\<close> and \<open>exec_module\<close>.  A module created by default semantics is
  \<open>None\<close>.  A delegate that is itself a coordinator loader is run the same way.
\<close>

fun create_module :: "coord_env \<Rightarrow> nat \<Rightarrow> loader \<Rightarrow> module_spec \<Rightarrow> (world, nat option) op" where
  "create_module env tid (PostLoadLoader fullname None) sp = ret None"
| "create_module env tid (PostLoadLoader fullname (Some d)) sp = create_module env tid d sp"
| "create_module env tid (ReplacementLoader fullname) sp =
     bind_op (create_replacement env tid fullname) (\<lambda>m. ret (Some m))"
| "create_module env tid (BlockedLoader c msg) sp = throw (Exn c msg)"
| "create_module env tid (ForeignLoader n) sp =
     (case env_create_module env n of None \<Rightarrow> ret None | Some create \<Rightarrow> create sp)"

fun exec_module :: "coord_env \<Rightarrow> nat \<Rightarrow> loader \<Rightarrow> nat \<Rightarrow> (world, unit) op" where
  "exec_module env tid (PostLoadLoader fullname d) m =
     seq_op (catch_op (case d of None \<Rightarrow> ret () | Some l \<Rightarrow> exec_module env tid l m)
              (\<lambda>exc. seq_op (module_load_failed fullname exc) (throw exc)))
       (module_loaded env tid fullname m)"
| "exec_module env tid (ReplacementLoader fullname) m = replacement_loaded env tid fullname m"
| "exec_module env tid (BlockedLoader c msg) m = throw (Exn c msg)"
| "exec_module env tid (ForeignLoader n) m = env_exec_module env n m"

section \<open>What every operation keeps\<close>

text \<open>
  A relation between states that the primitive steps keep is kept by every coordinator
  operation, provided the outside code (callbacks, factories, imports, finders, loaders)
  keeps it.  The primitive steps are the registry calls, the enrolment of a validated entry
  and the writes that change neither the registry nor the identity of any entry.
\<close>

definition env_keeps :: "(world \<Rightarrow> world \<Rightarrow> bool) \<Rightarrow> coord_env \<Rightarrow> bool" where
  "env_keeps R env \<longleftrightarrow>
     (\<forall>c arg. op_keeps R (env_call env c arg)) \<and>
     (\<forall>n. op_keeps R (env_import_module env n)) \<and>
     (\<forall>n search name path target. env_find_spec env n = Some search \<longrightarrow>
        op_keeps R (search name path target)) \<and>
     (\<forall>n create sp. env_create_module env n = Some create \<longrightarrow> op_keeps R (create sp)) \<and>
     (\<forall>n m. op_keeps R (env_exec_module env n m))"

lemma env_keepsD:
  assumes "env_keeps R env"
  shows "op_keeps R (env_call env c arg)" and "op_keeps R (env_import_module env name)"
    and "env_find_spec env n = Some search \<Longrightarrow> op_keeps R (search name path target)"
    and "env_create_module env n = Some create \<Longrightarrow> op_keeps R (create sp)"
    and "op_keeps R (env_exec_module env n m)"
  using assms by (auto simp: env_keeps_def)

text \<open>The part of an entry that is fixed when it is created.\<close>

definition ident :: "entry \<Rightarrow> string \<times> string \<times> import_action \<times> payload" where
  "ident e = (ent_patch_id e, ent_module_name e, ent_action e, ent_payload e)"

definition same_identities :: "world \<Rightarrow> world \<Rightarrow> bool" where
  "same_identities w v \<longleftrightarrow>
     w_reg v = w_reg w \<and> w_entries v = w_entries w \<and> w_by_module v = w_by_module w \<and>
     w_next_entry v = w_next_entry w \<and> (\<forall>a. ident (w_entry v a) = ident (w_entry w a))"

locale coordinator_relation = state_preorder R for R :: "world \<Rightarrow> world \<Rightarrow> bool" +
  assumes frame_R: "same_identities w v \<Longrightarrow> R w v"
    and declare_R: "op_keeps R (in_reg (reg_declare pid targets))"
    and begin_R: "op_keeps R (in_reg (reg_begin tid pid))"
    and applied_R: "op_keeps R (in_reg (reg_mark_applied pid enabled))"
    and skipped_R: "op_keeps R (in_reg (reg_mark_skipped pid why))"
    and failed_R: "op_keeps R (in_reg (reg_mark_failed pid err))"
    and feature_R: "op_keeps R (in_reg (reg_set_feature_enabled pid enabled))"
    and enrol_R: "validate_module_name (ent_module_name e) = Inr (ent_module_name e) \<Longrightarrow>
        op_keeps R (enrol e)"
begin

lemma modify_frame [keeps_intros]: "(\<And>w. same_identities w (f w)) \<Longrightarrow> op_keeps R (modify f)"
  by (rule keeps_modify) (rule frame_R)

lemmas registry_calls [keeps_intros] = declare_R begin_R applied_R skipped_R failed_R feature_R

lemma update_entry_frame [keeps_intros]:
  "(\<And>e. ident (f e) = ident e) \<Longrightarrow> op_keeps R (modify (update_entry a f))"
  by (rule modify_frame) (auto simp: same_identities_def update_entry_def)

lemma reads_keep [keeps_intros]:
  "op_keeps R (raise_if_failed a)" "op_keeps R (replacement_for name)"
  by (auto intro!: op_keepsI simp: raise_if_failed_def replacement_for_def refl_R
      split: if_splits sum.splits option.splits)

lemma guard_keeps [keeps_intros]: "op_keeps R (install_reload_guard a m)"
  unfolding install_reload_guard_def by (intro keeps_intros) (simp add: Let_def same_identities_def)

lemma resolve_keeps [keeps_intros]:
  "env_keeps R env \<Longrightarrow> op_keeps R (resolve_replacement env p)"
  unfolding resolve_replacement_def
  by (auto intro!: keeps_intros simp: env_keepsD split: payload.splits obj.splits)

lemma apply_callback_keeps [keeps_intros]:
  "env_keeps R env \<Longrightarrow> op_keeps R (apply_callback env tid a m)"
  unfolding apply_callback_def
  by (auto intro!: keeps_intros simp: env_keepsD split: payload.splits)

lemma apply_all_keeps [keeps_intros]:
  "env_keeps R env \<Longrightarrow> op_keeps R (apply_all env tid es m err)"
  by (induction es arbitrary: err) (auto intro!: keeps_intros)

lemma module_loaded_keeps [keeps_intros]:
  "env_keeps R env \<Longrightarrow> op_keeps R (module_loaded env tid name m)"
  unfolding module_loaded_def by (intro keeps_intros)

lemma module_load_failed_keeps [keeps_intros]: "op_keeps R (module_load_failed name err)"
  unfolding module_load_failed_def by (intro keeps_intros)

lemma create_replacement_keeps [keeps_intros]:
  "env_keeps R env \<Longrightarrow> op_keeps R (create_replacement env tid name)"
  unfolding create_replacement_def
  by (auto intro!: keeps_intros simp: ident_def split: prod.splits)

lemma replacement_loaded_keeps [keeps_intros]:
  "env_keeps R env \<Longrightarrow> op_keeps R (replacement_loaded env tid name m)"
  unfolding replacement_loaded_def
  by (auto intro!: keeps_intros split: prod.splits)

lemma replace_loaded_keeps [keeps_intros]:
  "env_keeps R env \<Longrightarrow> op_keeps R (replace_loaded_module env tid a previous)"
  unfolding replace_loaded_module_def
  by (intro keeps_intros) (auto simp: update_entry_def same_identities_def ident_def)

lemma install_keeps [keeps_intros]: "env_keeps R env \<Longrightarrow> op_keeps R (install env tid)"
  unfolding install_def by (intro keeps_intros) (auto simp: same_identities_def)

lemma uninstall_keeps [keeps_intros]: "op_keeps R uninstall"
  unfolding uninstall_def by (intro keeps_intros) (auto simp: same_identities_def)

lemma validated_name: "validate_module_name n = Inr k \<Longrightarrow> validate_module_name k = Inr k"
  by (auto simp: validate_module_name_def split: if_splits)

lemma register_callback_keeps [keeps_intros]:
  assumes "env_keeps R env"
  shows "op_keeps R (register_callback env tid pid name c targets enabled)"
  unfolding register_callback_def using assms
  by (auto intro!: keeps_lift_bind keeps_intros enrol_R dest: validated_name split: prod.splits)

lemma register_replacement_keeps [keeps_intros]:
  assumes "env_keeps R env"
  shows "op_keeps R (register_replacement env tid pid name p targets enabled policy)"
  unfolding register_replacement_def using assms
  by (auto intro!: keeps_lift_bind keeps_intros enrol_R dest: validated_name split: prod.splits)

lemma drain_keeps [keeps_intros]:
  "env_keeps R env \<Longrightarrow> op_keeps R (drain_ready_callbacks env tid)"
  unfolding drain_ready_callbacks_def by (intro keeps_intros)

lemma set_feature_keeps [keeps_intros]: "op_keeps R (coord_set_feature_enabled pid enabled)"
  unfolding coord_set_feature_enabled_def by (intro keeps_intros) (auto simp: ident_def)

lemma delegate_keeps [keeps_intros]:
  "env_keeps R env \<Longrightarrow> op_keeps R (find_delegate_spec env fs name path target)"
  by (induction fs rule: find_delegate_spec.induct [of _ env _ name path target])
    (auto intro!: keeps_intros simp: env_keepsD)

lemma find_spec_keeps [keeps_intros]:
  assumes "env_keeps R env"
  shows "op_keeps R (find_spec env name path target)"
proof (rule op_keepsI)
  fix w :: world and r v
  have search: "op_keeps R (bind_op (find_delegate_spec env (w_meta_path w) name path target)
      (\<lambda>found. case found of None \<Rightarrow> ret None
        | Some sp \<Rightarrow> ret (Some (sp\<lparr>spec_loader := Some (PostLoadLoader name (spec_loader sp))\<rparr>))))"
    using assms by (intro keeps_intros)
  assume "find_spec env name path target w = Some (r, v)"
  then show "R w v"
    using op_keepsD [OF search]
    by (auto simp: find_spec_def refl_R split: sum.splits if_splits option.splits)
qed

lemma create_module_keeps [keeps_intros]:
  "env_keeps R env \<Longrightarrow> op_keeps R (create_module env tid l sp)"
  by (induction l rule: create_module.induct [of _ env tid _ sp])
    (auto intro!: keeps_intros simp: env_keepsD)

lemma exec_module_keeps [keeps_intros]:
  "env_keeps R env \<Longrightarrow> op_keeps R (exec_module env tid l m)"
  by (induction l rule: exec_module.induct [of _ env tid _ m])
    (auto intro!: keeps_intros simp: env_keepsD)

end

section \<open>What the coordinator does to the registry\<close>

text \<open>
  Relations on registries that the registry's operations keep; the coordinator touches the
  registry through its methods only.
\<close>

definition reg_rel :: "(registry \<Rightarrow> registry \<Rightarrow> bool) \<Rightarrow> world \<Rightarrow> world \<Rightarrow> bool" where
  "reg_rel Q w v \<longleftrightarrow> Q (w_reg w) (w_reg v)"

lemma in_reg_keeps: "op_keeps Q m \<Longrightarrow> op_keeps (reg_rel Q) (in_reg m)"
  by (auto simp: op_keeps_def in_reg_def reg_rel_def)

locale registry_relation =
  fixes Q :: "registry \<Rightarrow> registry \<Rightarrow> bool"
  assumes refl_Q: "Q r r" and trans_Q: "Q r s \<Longrightarrow> Q s t \<Longrightarrow> Q r t"
    and declare_Q: "op_keeps Q (reg_declare pid targets)"
    and begin_Q: "op_keeps Q (reg_begin tid pid)"
    and applied_Q: "op_keeps Q (reg_mark_applied pid enabled)"
    and skipped_Q: "op_keeps Q (reg_mark_skipped pid why)"
    and failed_Q: "op_keeps Q (reg_mark_failed pid err)"
    and feature_Q: "op_keeps Q (reg_set_feature_enabled pid enabled)"

sublocale registry_relation \<subseteq> state_preorder "reg_rel Q"
  by unfold_locales (auto simp: reg_rel_def intro: refl_Q trans_Q)

context registry_relation
begin

lemma modify_reg [keeps_intros]: "(\<And>w. w_reg (f w) = w_reg w) \<Longrightarrow> op_keeps (reg_rel Q) (modify f)"
  by (rule keeps_modify) (simp add: reg_rel_def refl_Q)

lemmas calls_Q = declare_Q [THEN in_reg_keeps] begin_Q [THEN in_reg_keeps]
  applied_Q [THEN in_reg_keeps] skipped_Q [THEN in_reg_keeps] failed_Q [THEN in_reg_keeps]
  feature_Q [THEN in_reg_keeps]

lemma steps_Q: "op_keeps (reg_rel Q) (raise_if_failed a)" "op_keeps (reg_rel Q) (new_entry e)"
  by (auto intro!: op_keepsI simp: raise_if_failed_def new_entry_def reg_rel_def refl_Q
      split: if_splits)

lemma register_Q: "op_keeps (reg_rel Q) (register a)"
  unfolding register_def
  by (intro keeps_intros calls_Q steps_Q) (auto simp: update_entry_def)

lemma enrol_Q: "op_keeps (reg_rel Q) (enrol e)"
  unfolding enrol_def by (intro keeps_intros register_Q steps_Q)

end

sublocale registry_relation \<subseteq> coordinator_relation "reg_rel Q"
  by unfold_locales (auto simp: reg_rel_def same_identities_def refl_Q intro: calls_Q enrol_Q)

interpretation coord_evolution: registry_relation reg_evolves
  by unfold_locales (auto intro: keeps_intros evolution.refl_R evolution.trans_R)

interpretation coord_invariance: registry_relation "\<lambda>r s. reg_inv r \<longrightarrow> reg_inv s"
  by unfold_locales (auto intro: keeps_intros)

section \<open>The two dictionaries agree\<close>

text \<open>
  Every registered entry is filed under its own patch id and its validated module name, a
  module's list holds exactly the ids registered for that very name in registration order,
  and a module has at most one replacement.
\<close>

definition coord_inv :: "world \<Rightarrow> bool" where
  "coord_inv w \<longleftrightarrow>
     distinct (dict_keys (w_entries w)) \<and>
     (\<forall>(k, a) \<in> set (w_entries w). a < w_next_entry w \<and> ent_patch_id (w_entry w a) = k \<and>
        validate_module_name (ent_module_name (w_entry w a)) = Inr (ent_module_name (w_entry w a))) \<and>
     (\<forall>n. module_ids w n = map fst (filter (\<lambda>(k, a). ent_module_name (w_entry w a) = n) (w_entries w))) \<and>
     (\<forall>n. length (filter (\<lambda>(k, a). ent_module_name (w_entry w a) = n \<and>
             ent_action (w_entry w a) = REPLACEMENT) (w_entries w)) \<le> 1)"

definition empty_world :: "int \<Rightarrow> finder list \<Rightarrow> (string, obj) dict \<Rightarrow> (nat \<Rightarrow> module_attrs) \<Rightarrow> world" where
  "empty_world now finders mods attrs =
     \<lparr>w_reg = empty_registry now, w_entries = [], w_by_module = [], w_installed = False,
      w_meta_path = finders, w_sys_modules = mods,
      w_entry = (\<lambda>_. \<lparr>ent_patch_id = [], ent_module_name = [], ent_targets = [], ent_action = CALLBACK,
         ent_payload = PName [], ent_feature_enabled = False, ent_late_policy = LateFail,
         ent_replacement_module = None, ent_previous_module = None\<rparr>),
      w_next_entry = 0, w_guard = (\<lambda>_. None), w_module = attrs\<rparr>"

lemma coord_inv_empty: "coord_inv (empty_world now finders mods attrs)"
  by (simp add: coord_inv_def empty_world_def module_ids_def)

lemma ident_eqD:
  "ident x = ident y \<Longrightarrow> ent_patch_id x = ent_patch_id y"
  "ident x = ident y \<Longrightarrow> ent_module_name x = ent_module_name y"
  "ident x = ident y \<Longrightarrow> ent_action x = ent_action y"
  "ident x = ident y \<Longrightarrow> ent_payload x = ent_payload y"
  by (auto simp: ident_def)

text \<open>The invariant reads the dictionaries, the allocation mark and the entries' identities only.\<close>

lemma coord_inv_cong:
  assumes "w_entries v = w_entries w" and "w_by_module v = w_by_module w"
    and "w_next_entry w \<le> w_next_entry v"
    and "\<And>k a. (k, a) \<in> set (w_entries w) \<Longrightarrow> ident (w_entry v a) = ident (w_entry w a)"
    and "coord_inv w"
  shows "coord_inv v"
proof -
  have same: "ent_patch_id (w_entry v a) = ent_patch_id (w_entry w a)"
    "ent_module_name (w_entry v a) = ent_module_name (w_entry w a)"
    "ent_action (w_entry v a) = ent_action (w_entry w a)" if "(k, a) \<in> set (w_entries w)" for k a
    using ident_eqD [OF assms(4) [OF that]] by auto
  have name: "filter (\<lambda>(k, a). ent_module_name (w_entry v a) = n) (w_entries w)
      = filter (\<lambda>(k, a). ent_module_name (w_entry w a) = n) (w_entries w)" for n
    by (intro filter_cong) (auto simp: same)
  have repl: "filter (\<lambda>(k, a). ent_module_name (w_entry v a) = n \<and> ent_action (w_entry v a) = REPLACEMENT) (w_entries w)
      = filter (\<lambda>(k, a). ent_module_name (w_entry w a) = n \<and> ent_action (w_entry w a) = REPLACEMENT) (w_entries w)" for n
    by (intro filter_cong) (auto simp: same)
  have ids: "module_ids v n = module_ids w n" for n
    by (simp add: module_ids_def assms(2))
  have each: "\<forall>(k, a) \<in> set (w_entries w). a < w_next_entry v \<and> ent_patch_id (w_entry v a) = k \<and>
        validate_module_name (ent_module_name (w_entry v a)) = Inr (ent_module_name (w_entry v a))"
    using assms(3,5) by (fastforce simp: coord_inv_def same)
  show ?thesis
    using assms(5) each unfolding coord_inv_def assms(1) name repl ids by blast
qed

lemma coord_inv_frame: "same_identities w v \<Longrightarrow> coord_inv w \<longrightarrow> coord_inv v"
  by (auto simp: same_identities_def intro: coord_inv_cong)

lemma coord_inv_reg [simp]: "coord_inv (w\<lparr>w_reg := r\<rparr>) = coord_inv w"
  using coord_inv_cong [of w "w\<lparr>w_reg := r\<rparr>"] coord_inv_cong [of "w\<lparr>w_reg := r\<rparr>" w] by auto

lemma module_ids_reg [simp]: "module_ids (w\<lparr>w_reg := r\<rparr>) n = module_ids w n"
  by (simp add: module_ids_def)

lemma in_reg_coord: "op_keeps (\<lambda>w v. coord_inv w \<longrightarrow> coord_inv v) (in_reg m)"
  by (auto simp: op_keeps_def in_reg_def)

lemma lookup_registered:
  assumes "coord_inv w" and "(k, a) \<in> set (w_entries w)"
  shows "lookup_entry w k = Inr a"
  using assms by (simp add: coord_inv_def lookup_entry_def map_of_is_SomeI)

lemma first_replacement_None:
  "first_replacement w ids = Inr None \<Longrightarrow> pid \<in> set ids \<Longrightarrow> lookup_entry w pid = Inr a \<Longrightarrow>
     ent_action (w_entry w a) \<noteq> REPLACEMENT"
  by (induction ids) (auto simp: and_then_Inr_iff split: if_splits)

lemma no_replacement_yet:
  assumes "coord_inv w" and "first_replacement w (module_ids w n) = Inr None"
  shows "filter (\<lambda>(k, a). ent_module_name (w_entry w a) = n \<and> ent_action (w_entry w a) = REPLACEMENT)
           (w_entries w) = []"
proof -
  have "ent_action (w_entry w a) \<noteq> REPLACEMENT"
    if "(k, a) \<in> set (w_entries w)" and "ent_module_name (w_entry w a) = n" for k a
  proof -
    have "module_ids w n = map fst (filter (\<lambda>(k, a). ent_module_name (w_entry w a) = n) (w_entries w))"
      using assms(1) by (simp add: coord_inv_def)
    then have "k \<in> set (module_ids w n)"
      using that by (auto intro!: image_eqI [where x = "(k, a)"])
    with assms(2) show ?thesis
      using lookup_registered [OF assms(1) that(1)] by (rule first_replacement_None)
  qed
  then show ?thesis by (auto simp: filter_empty_conv)
qed

text \<open>What \<open>_register\<close> does when the patch is new.\<close>

lemma register_new:
  assumes "w_entry w a = e" and "dict_get (w_entries w) (ent_patch_id e) = None"
    and "register a w = Some (r, v)"
  shows "(v = w\<lparr>w_reg := w_reg v\<rparr> \<and> r \<noteq> Inr a) \<or>
    (v = w\<lparr>w_reg := w_reg v, w_entries := dict_set (ent_patch_id e) a (w_entries w),
            w_by_module := dict_set (ent_module_name e)
               (module_ids w (ent_module_name e) @ [ent_patch_id e]) (w_by_module w)\<rparr>
       \<and> r = Inr a
       \<and> (ent_action e = REPLACEMENT \<longrightarrow>
            first_replacement w (module_ids w (ent_module_name e)) = Inr None))"
  using assms
  by (auto simp: register_def op_defs op_simps in_reg_def
      split: option.splits sum.splits if_splits)

lemma register_known:
  assumes "dict_get (w_entries w) (ent_patch_id (w_entry w a)) = Some b"
    and "register a w = Some (r, v)"
  shows "\<exists>g f. v = update_entry b f (w\<lparr>w_reg := g\<rparr>) \<and> (\<forall>e. ident (f e) = ident e)"
proof -
  have "v = w \<or> v = update_entry b (\<lambda>x. x\<lparr>ent_feature_enabled := ent_feature_enabled (w_entry w a)\<rparr>)
      (w\<lparr>w_reg := w_reg v\<rparr>)"
    using assms
    by (auto simp: register_def op_defs op_simps in_reg_def raise_if_failed_def update_entry_def
        split: option.splits sum.splits if_splits)
  then show ?thesis
  proof
    assume "v = w"
    then have "v = update_entry b id (w\<lparr>w_reg := w_reg w\<rparr>)" by (simp add: update_entry_def)
    then show ?thesis by (intro exI [of _ "w_reg w"] exI [of _ id]) auto
  qed (auto intro!: exI [of _ "w_reg v"]
        exI [of _ "\<lambda>x. x\<lparr>ent_feature_enabled := ent_feature_enabled (w_entry w a)\<rparr>"] simp: ident_def)
qed

lemma coord_inv_extend:
  assumes inv: "coord_inv w" and a: "a < w_next_entry w" and e: "w_entry w a = e"
    and fresh: "dict_get (w_entries w) (ent_patch_id e) = None"
    and valid: "validate_module_name (ent_module_name e) = Inr (ent_module_name e)"
    and only: "ent_action e = REPLACEMENT \<longrightarrow>
            first_replacement w (module_ids w (ent_module_name e)) = Inr None"
  shows "coord_inv (w\<lparr>w_reg := g, w_entries := dict_set (ent_patch_id e) a (w_entries w),
            w_by_module := dict_set (ent_module_name e)
               (module_ids w (ent_module_name e) @ [ent_patch_id e]) (w_by_module w)\<rparr>)"
    (is "coord_inv ?v")
proof -
  have entries: "w_entries ?v = w_entries w @ [(ent_patch_id e, a)]"
    using fresh by (simp add: dict_set_fresh)
  have ids: "module_ids ?v n = module_ids w n @ (if n = ent_module_name e then [ent_patch_id e] else [])" for n
    by (simp add: module_ids_def)
  have same: "w_entry ?v = w_entry w" "w_next_entry ?v = w_next_entry w" by simp_all
  have "distinct (dict_keys (w_entries ?v))"
    using inv unfolding w_entries_def [symmetric] by (auto simp: coord_inv_def intro: dict_set_distinct)
  moreover have "length (filter (\<lambda>(k, b). ent_module_name (w_entry w b) = n \<and>
       ent_action (w_entry w b) = REPLACEMENT) (w_entries w @ [(ent_patch_id e, a)])) \<le> 1" for n
    using inv only no_replacement_yet [OF inv, of n] e by (auto simp: coord_inv_def)
  ultimately show ?thesis
    using inv a e valid unfolding coord_inv_def entries ids same
    by (auto simp: entries)
qed

lemma register_coord:
  assumes "coord_inv w" and "a < w_next_entry w" and "register a w = Some (r, v)"
    and "validate_module_name (ent_module_name (w_entry w a)) = Inr (ent_module_name (w_entry w a))"
  shows "coord_inv v"
proof (cases "dict_get (w_entries w) (ent_patch_id (w_entry w a))")
  case None
  from register_new [OF refl None assms(3)] show ?thesis
    using coord_inv_extend [OF assms(1,2) refl None assms(4), of "w_reg v"]
      coord_inv_reg [of "w_reg v" w] assms(1) by metis
next
  case (Some b)
  from register_known [OF this assms(3)] obtain g f
    where "v = update_entry b f (w\<lparr>w_reg := g\<rparr>)" "\<forall>e. ident (f e) = ident e" by blast
  then show ?thesis
    using assms(1) coord_inv_cong [of v w] by (simp add: update_entry_def)
qed

lemma enrol_coord:
  assumes "validate_module_name (ent_module_name e) = Inr (ent_module_name e)"
  shows "op_keeps (\<lambda>w v. coord_inv w \<longrightarrow> coord_inv v) (enrol e)"
proof (rule op_keepsI, rule impI)
  fix w r v
  assume run: "enrol e w = Some (r, v)" and inv: "coord_inv w"
  let ?w = "w\<lparr>w_entry := (w_entry w)(w_next_entry w := e), w_next_entry := w_next_entry w + 1\<rparr>"
  from run obtain r' where reg: "register (w_next_entry w) ?w = Some (r', v)"
    by (auto simp: enrol_def new_entry_def op_defs op_simps split: option.splits sum.splits)
  have "coord_inv ?w"
    using inv by (rule coord_inv_cong [rotated -1]) (use inv in \<open>auto simp: coord_inv_def\<close>)
  from register_coord [OF this _ reg] show "coord_inv v" using assms by simp
qed

interpretation coord_structure: coordinator_relation "\<lambda>w v. coord_inv w \<longrightarrow> coord_inv v"
  by unfold_locales (auto intro: in_reg_coord enrol_coord dest: coord_inv_frame)

text \<open>No call removes an entry or changes what it is for.\<close>

definition keeps_entries :: "world \<Rightarrow> world \<Rightarrow> bool" where
  "keeps_entries w v \<longleftrightarrow> (coord_inv w \<longrightarrow> coord_inv v
     \<and> (\<forall>pid a. dict_get (w_entries w) pid = Some a \<longrightarrow>
          dict_get (w_entries v) pid = Some a \<and> ident (w_entry v a) = ident (w_entry w a)))"

lemma keeps_entries_frame: "same_identities w v \<Longrightarrow> keeps_entries w v"
  using coord_inv_frame [of w v] by (auto simp: keeps_entries_def same_identities_def)

lemma keeps_entries_reg: "op_keeps keeps_entries (in_reg m)"
  by (auto simp: op_keeps_def in_reg_def keeps_entries_def)

lemma registered_below: "coord_inv w \<Longrightarrow> dict_get (w_entries w) pid = Some a \<Longrightarrow> a < w_next_entry w"
  unfolding coord_inv_def by (auto dest!: map_of_SomeD)

lemma register_new_entries:
  assumes "dict_get (w_entries w) (ent_patch_id (w_entry w a)) = None" and "register a w = Some (r, v)"
  shows "w_entry v = w_entry w"
    and "w_entries v = w_entries w \<or> w_entries v = dict_set (ent_patch_id (w_entry w a)) a (w_entries w)"
proof -
  from register_new [OF refl assms] consider g where "v = w\<lparr>w_reg := g\<rparr>"
    | g ids where "v = w\<lparr>w_reg := g, w_entries := dict_set (ent_patch_id (w_entry w a)) a (w_entries w), w_by_module := ids\<rparr>"
    by blast
  then show "w_entry v = w_entry w"
    and "w_entries v = w_entries w \<or> w_entries v = dict_set (ent_patch_id (w_entry w a)) a (w_entries w)"
    by (cases; simp)+
qed

lemma enrol_keeps_entries:
  assumes valid: "validate_module_name (ent_module_name e) = Inr (ent_module_name e)"
  shows "op_keeps keeps_entries (enrol e)"
proof (rule op_keepsI)
  fix w r v
  assume run: "enrol e w = Some (r, v)"
  let ?w = "w\<lparr>w_entry := (w_entry w)(w_next_entry w := e), w_next_entry := w_next_entry w + 1\<rparr>"
  from run obtain r' where reg: "register (w_next_entry w) ?w = Some (r', v)"
    by (auto simp: enrol_def new_entry_def op_defs op_simps split: option.splits sum.splits)
  show "keeps_entries w v"
    unfolding keeps_entries_def
  proof (intro impI conjI allI)
    assume inv: "coord_inv w"
    show "coord_inv v"
      using op_keepsD [OF enrol_coord [OF valid] run] inv by blast
    fix pid a
    assume a: "dict_get (w_entries w) pid = Some a"
    then have old: "w_entry ?w a = w_entry w a"
      using registered_below [OF inv a] by simp
    have "dict_get (w_entries v) pid = Some a \<and> ident (w_entry v a) = ident (w_entry ?w a)"
    proof (cases "dict_get (w_entries w) (ent_patch_id e)")
      case None
      then have "w_entry v = w_entry ?w" "w_entries v = w_entries w \<or> w_entries v = dict_set (ent_patch_id e) (w_next_entry w) (w_entries w)"
        using register_new_entries [OF _ reg] by auto
      then show ?thesis
        using a None by auto
    next
      case (Some b)
      from register_known [OF _ reg, of b] Some obtain g f
        where "v = update_entry b f (?w\<lparr>w_reg := g\<rparr>)" "\<forall>x. ident (f x) = ident x"
        by auto
      then show ?thesis
        using a by (simp add: update_entry_def)
    qed
    then show "dict_get (w_entries v) pid = Some a" "ident (w_entry v a) = ident (w_entry w a)"
      unfolding old by simp_all
  qed
qed

interpretation entry_permanence: coordinator_relation keeps_entries
proof unfold_locales
  show "keeps_entries s s" for s
    by (simp add: keeps_entries_def)
  show "keeps_entries s u" if "keeps_entries s t" "keeps_entries t u" for s t u
    using that unfolding keeps_entries_def by metis
qed (auto intro: keeps_entries_frame keeps_entries_reg enrol_keeps_entries)

section \<open>Sequences of coordinator calls\<close>

text \<open>The entry points a process and its import machinery call, \<open>reset_for_tests\<close> apart.\<close>

datatype coord_call =
    Install
  | Uninstall
  | RegisterCallback string string nat "targets_arg option" bool
  | RegisterReplacement string string payload "targets_arg option" bool late_policy
  | Drain
  | SetFeature string bool
  | FindSpec string "nat option" "nat option"
  | CreateModule loader module_spec
  | ExecModule loader nat

definition void :: "('s, 'a) op \<Rightarrow> ('s, unit) op" where
  "void m = seq_op m (ret ())"

fun coord_exec :: "coord_env \<Rightarrow> nat \<Rightarrow> coord_call \<Rightarrow> (world, unit) op" where
  "coord_exec env tid Install = install env tid"
| "coord_exec env tid Uninstall = uninstall"
| "coord_exec env tid (RegisterCallback pid name c ts en) =
     void (register_callback env tid pid name c ts en)"
| "coord_exec env tid (RegisterReplacement pid name p ts en policy) =
     void (register_replacement env tid pid name p ts en policy)"
| "coord_exec env tid Drain = void (drain_ready_callbacks env tid)"
| "coord_exec env tid (SetFeature pid en) = void (coord_set_feature_enabled pid en)"
| "coord_exec env tid (FindSpec name path target) = void (find_spec env name path target)"
| "coord_exec env tid (CreateModule l sp) = void (create_module env tid l sp)"
| "coord_exec env tid (ExecModule l m) = exec_module env tid l m"

inductive coord_reach :: "coord_env \<Rightarrow> world \<Rightarrow> world \<Rightarrow> bool" for env where
  reach_start: "coord_reach env w w"
| reach_call: "coord_reach env w v \<Longrightarrow> coord_exec env tid c v = Some (r, u) \<Longrightarrow> coord_reach env w u"

context coordinator_relation
begin

lemma exec_keeps: "env_keeps R env \<Longrightarrow> op_keeps R (coord_exec env tid c)"
  by (cases c) (auto intro!: keeps_intros simp: void_def)

lemma reach_keeps: "coord_reach env w v \<Longrightarrow> env_keeps R env \<Longrightarrow> R w v"
  by (induction rule: coord_reach.induct) (auto intro: refl_R trans_R dest: exec_keeps op_keepsD)

end

section \<open>Properties\<close>

text \<open>
  C8. In every state reached by coordinator calls from an empty coordinator the two
  dictionaries agree (exact, validated names; registration order; at most one replacement
  per module) and the registry is well formed, for outside code that keeps both.
\<close>

theorem reachable_coordinator_consistent:
  assumes "coord_reach env (empty_world now finders mods attrs) w"
    and "env_keeps (\<lambda>w v. coord_inv w \<longrightarrow> coord_inv v) env"
    and "env_keeps (reg_rel (\<lambda>r s. reg_inv r \<longrightarrow> reg_inv s)) env"
  shows "coord_inv w \<and> reg_inv (w_reg w)"
  using coord_structure.reach_keeps [OF assms(1,2)] coord_invariance.reach_keeps [OF assms(1,3)]
    coord_inv_empty [of now finders mods attrs] reg_inv_empty [of now]
  by (auto simp: reg_rel_def empty_world_def)

text \<open>
  Outside code of a small process: callable 0 returns a module, callable 1 raises, callable
  2 reports an unavailable optional dependency; no other finder or loader exists.
\<close>

definition demo_env :: coord_env where
  "demo_env = \<lparr>
     env_call = (\<lambda>c arg.
        if c = 0 then ret (ModuleObj 9)
        else if c = 1 then throw (Exn TypeError ''bad'')
        else throw (Exn OptionalPatchUnavailable ''no lib'')),
     env_import_module = (\<lambda>n. throw (Exn ModuleNotFoundError n)),
     env_find_spec = (\<lambda>n. None),
     env_create_module = (\<lambda>n. None),
     env_exec_module = (\<lambda>n m. ret ())\<rparr>"

lemma demo_env_keeps: "(\<And>w. R w w) \<Longrightarrow> env_keeps R demo_env"
  by (auto simp: env_keeps_def demo_env_def op_keeps_def op_simps)

definition plain_attrs :: "nat \<Rightarrow> module_attrs" where
  "plain_attrs m = \<lparr>mod_spec = None, mod_loader = None, mod_has_path = False\<rparr>"

definition demo_start :: world where
  "demo_start = empty_world 0 [] [(''vllm.a'', ModuleObj 1)] plain_attrs"

fun run_coord :: "coord_env \<Rightarrow> coord_call list \<Rightarrow> world \<Rightarrow> world option" where
  "run_coord env [] w = Some w"
| "run_coord env (c # cs) w = (case coord_exec env 1 c w of None \<Rightarrow> None | Some (r, v) \<Rightarrow> run_coord env cs v)"

lemma run_coord_reach: "coord_reach env u w \<Longrightarrow> run_coord env cs w = Some v \<Longrightarrow> coord_reach env u v"
  by (induction cs arbitrary: w) (auto split: option.splits intro: reach_call)

definition demo_world :: "coord_call list \<Rightarrow> world" where
  "demo_world cs = the (run_coord demo_env cs demo_start)"

lemma demo_world_reach:
  "run_coord demo_env cs demo_start \<noteq> None \<Longrightarrow> coord_reach demo_env demo_start (demo_world cs)"
  by (auto simp: demo_world_def intro: run_coord_reach reach_start)

definition demo_calls_failed :: "coord_call list" where
  "demo_calls_failed =
     [Install, RegisterCallback ''cb'' ''vllm.a'' 1 None True,
      RegisterReplacement ''rp'' ''vllm.b'' (PCallable 0) None True LateFail]"

lemma demo_failed_runs: "run_coord demo_env demo_calls_failed demo_start \<noteq> None"
  by code_simp

lemma demo_failed_reach:
  "coord_reach demo_env (empty_world 0 [] [(''vllm.a'', ModuleObj 1)] plain_attrs)
     (demo_world demo_calls_failed)"
  using demo_world_reach [OF demo_failed_runs] by (simp add: demo_start_def)

theorem reachable_coordinator_consistent_witness:
  "coord_inv (demo_world demo_calls_failed) \<and> reg_inv (w_reg (demo_world demo_calls_failed))"
  by (rule reachable_coordinator_consistent [OF demo_failed_reach])
    (auto intro!: demo_env_keeps simp: reg_rel_def)

lemma entries_for_inv:
  assumes "coord_inv w"
  shows "entries_for w n = Inr (map snd (filter (\<lambda>(k, a). ent_module_name (w_entry w a) = n) (w_entries w)))"
proof -
  have "map_result (lookup_entry w) (map fst ps) = Inr (map snd ps)" if "set ps \<subseteq> set (w_entries w)" for ps
    using that lookup_registered [OF assms] by (induction ps) auto
  then show ?thesis
    using assms by (simp add: entries_for_def coord_inv_def)
qed

text \<open>
  Interception is by exact name: a module name under which nothing is registered is left
  to the other finders, with no effect at all; in particular neither a parent package nor a
  submodule of a registered module is intercepted.
\<close>

theorem unregistered_name_ignored:
  assumes "coord_inv w"
    and "\<And>k a. (k, a) \<in> set (w_entries w) \<Longrightarrow> ent_module_name (w_entry w a) \<noteq> fullname"
  shows "find_spec env fullname path target w = Some (Inr None, w)"
proof -
  have "filter (\<lambda>(k, a). ent_module_name (w_entry w a) = fullname) (w_entries w) = []"
    using assms(2) by (auto simp: filter_empty_conv)
  then show ?thesis
    by (simp add: find_spec_def entries_for_inv [OF assms(1)])
qed

theorem unregistered_name_ignored_witness:
  "find_spec demo_env ''vllm'' None None (demo_world demo_calls_failed)
     = Some (Inr None, demo_world demo_calls_failed)"
proof (rule unregistered_name_ignored)
  show "coord_inv (demo_world demo_calls_failed)"
    using coord_structure.reach_keeps [OF demo_failed_reach] coord_inv_empty
    by (auto intro!: demo_env_keeps)
  have "list_all (\<lambda>(k, a). ent_module_name (w_entry (demo_world demo_calls_failed) a) \<noteq> ''vllm'')
      (w_entries (demo_world demo_calls_failed))"
    by code_simp
  then show "\<And>k a. (k, a) \<in> set (w_entries (demo_world demo_calls_failed)) \<Longrightarrow>
      ent_module_name (w_entry (demo_world demo_calls_failed) a) \<noteq> ''vllm''"
    by (auto simp: list_all_iff)
qed

text \<open>A loader that never loads: creating and executing a module both raise the same error.\<close>

definition refuses :: "coord_env \<Rightarrow> module_spec \<Rightarrow> world \<Rightarrow> bool" where
  "refuses env sp w \<longleftrightarrow>
     (\<exists>l e. spec_loader sp = Some l \<and> exn_kind e \<in> {LatchedPatchError, ModuleReloadBlockedError} \<and>
        (\<forall>tid sp'. create_module env tid l sp' w = Some (Inl e, w)) \<and>
        (\<forall>tid m. exec_module env tid l m w = Some (Inl e, w)))"

lemma blocked_specs_refuse [simp]:
  "refuses env (reload_guard_spec n pid) w" "refuses env (applying_spec n pid) w"
  "refuses env (failed_spec n pid reason) w"
  by (auto simp: refuses_def reload_guard_spec_def applying_spec_def failed_spec_def
      spec_from_loader_def op_simps)

lemma find_status_None: "find_status w st es = None \<longleftrightarrow> (\<forall>a \<in> set es. entry_status w a \<noteq> Some st)"
  by (auto simp: find_status_def find_None_iff)

lemma entries_for_mem:
  assumes "coord_inv w" and "dict_get (w_entries w) pid = Some a" and "ent_module_name (w_entry w a) = n"
  shows "\<exists>es. entries_for w n = Inr es \<and> a \<in> set es"
  using map_of_SomeD [OF assms(2)] assms(3)
  by (auto simp: entries_for_inv [OF assms(1)] intro!: image_eqI [where x = "(pid, a)"])

lemma blocked_find_spec:
  assumes "coord_inv w" and "dict_get (w_entries w) pid = Some a"
    and "ent_module_name (w_entry w a) = fullname"
    and "entry_status w a = Some FAILED \<or> entry_status w a = Some APPLYING \<or>
         (entry_status w a = Some APPLIED \<and> target \<noteq> None)"
  shows "\<exists>sp. find_spec env fullname path target w = Some (Inr (Some sp), w) \<and> refuses env sp w"
proof -
  obtain es where es: "entries_for w fullname = Inr es" "a \<in> set es"
    using entries_for_mem [OF assms(1-3)] by blast
  then have ne: "es \<noteq> []" by auto
  have "target \<noteq> None \<and> find_status w APPLIED es \<noteq> None
      \<or> find_status w APPLYING es \<noteq> None \<or> find_status w FAILED es \<noteq> None"
    using assms(4) es(2) by (auto simp: find_status_None simp del: not_None_eq)
  then show ?thesis
    using es(1) ne by (auto simp: find_spec_def split: option.splits)
qed

text \<open>
  C7. The coordinator fails closed: an import of a module with a registered patch that has
  failed or is being applied, and a reload of a module with an applied patch, is answered
  with a loader that raises in both \<open>create_module\<close> and \<open>exec_module\<close>; the canonical
  implementation is never loaded instead and no state changes.
\<close>

theorem patched_import_fails_closed:
  assumes "coord_inv w" and "dict_get (w_entries w) pid = Some a"
    and "ent_module_name (w_entry w a) = fullname"
    and "entry_status w a = Some FAILED \<or> entry_status w a = Some APPLYING \<or>
         (entry_status w a = Some APPLIED \<and> target \<noteq> None)"
  shows "\<exists>sp. find_spec env fullname path target w = Some (Inr (Some sp), w) \<and> refuses env sp w"
  using blocked_find_spec [OF assms] .

lemma demo_failed_inv: "coord_inv (demo_world demo_calls_failed)"
  using coord_structure.reach_keeps [OF demo_failed_reach] coord_inv_empty
  by (auto intro!: demo_env_keeps)

lemma demo_failed_facts:
  "dict_get (w_entries (demo_world demo_calls_failed)) ''cb'' = Some 0"
  "ent_module_name (w_entry (demo_world demo_calls_failed) 0) = ''vllm.a''"
  "entry_status (demo_world demo_calls_failed) 0 = Some FAILED"
  by code_simp+

theorem patched_import_fails_closed_witness:
  "\<exists>sp. find_spec demo_env ''vllm.a'' None None (demo_world demo_calls_failed)
          = Some (Inr (Some sp), demo_world demo_calls_failed)
     \<and> refuses demo_env sp (demo_world demo_calls_failed)"
  using patched_import_fails_closed [OF demo_failed_inv demo_failed_facts(1,2)] demo_failed_facts(3)
  by simp

text \<open>The registry never forgets an attempt, so a callback that was entered is not entered again.\<close>

lemma begin_not_armed:
  assumes "canonical k" and "reg_status s k \<noteq> Some ARMED" and "reg_begin tid k s = Some (v, t)"
  shows "t = s \<and> v \<noteq> Inr True"
  using reg_begin_writes [OF assms(3)] assms(1,2) by (auto simp: canonical_def)

lemma apply_callback_not_armed:
  assumes "canonical (ent_patch_id (w_entry w a))" and "entry_status w a \<noteq> Some ARMED"
    and "apply_callback env tid a m w = Some (r, v)"
  shows "v = w \<and> (r = Inr () \<or> (\<exists>e. r = Inl e))"
  using assms begin_not_armed [of "ent_patch_id (w_entry w a)" "w_reg w" tid]
  by (auto simp: apply_callback_def op_defs op_simps in_reg_def entry_status_def reg_get_def
      split: option.splits sum.splits if_splits)

lemma apply_callback_leaves_armed:
  assumes keeps: "env_keeps (reg_rel reg_evolves) env"
    and canon: "canonical (ent_patch_id (w_entry w a))" and named: "ent_patch_id (w_entry w a) \<noteq> []"
    and run: "apply_callback env tid a m w = Some (r, v)"
  shows "reg_status (w_reg v) (ent_patch_id (w_entry w a)) \<noteq> Some ARMED"
proof -
  let ?pid = "ent_patch_id (w_entry w a)"
  obtain b t where claim: "reg_begin tid ?pid (w_reg w) = Some (b, t)"
    using run by (auto simp: apply_callback_def op_defs op_simps in_reg_def split: option.splits)
  show ?thesis
  proof (cases "b = Inr True")
    case False
    then have "v = w\<lparr>w_reg := t\<rparr>" "t = w_reg w"
      using run claim reg_begin_writes [OF claim]
      by (auto simp: apply_callback_def op_defs op_simps in_reg_def split: sum.splits if_splits)
    moreover have "reg_status (w_reg w) ?pid \<noteq> Some ARMED"
      using False claim canon named
      by (auto simp: reg_begin_def canonical_def validate_patch_id_def
          split: sum.splits option.splits patch_status.splits if_splits)
    ultimately show ?thesis by simp
  next
    case True
    have applying: "reg_status t ?pid = Some APPLYING"
      using reg_begin_writes [OF claim] True canon by (auto simp: canonical_def)
    define rest where "rest = (case ent_payload (w_entry w a) of
          PCallable c \<Rightarrow>
            bind_op (catch_op (seq_op (env_call env c (Some (ModuleObj m))) (ret True))
              (\<lambda>exc.
                 if exn_kind exc = OptionalPatchUnavailable
                 then seq_op (in_reg (reg_mark_skipped ?pid (Some (exn_text exc)))) (ret False)
                 else seq_op (in_reg (reg_mark_failed ?pid (FromExn exc))) (throw exc)))
              (\<lambda>completed.
                 if \<not> completed then ret ()
                 else bind_op (gets (\<lambda>w. ent_feature_enabled (w_entry w a))) (\<lambda>enabled.
                        seq_op (in_reg (reg_mark_applied ?pid enabled)) (ret ())))
        | _ \<Rightarrow> throw (Exn AssertionError []))"
    have "op_keeps (reg_rel reg_evolves) rest"
      unfolding rest_def using keeps
      by (auto intro!: keeps_intros simp: env_keepsD split: payload.splits)
    moreover have "rest (w\<lparr>w_reg := t\<rparr>) = Some (r, v)"
      using run claim True unfolding rest_def
      by (simp add: apply_callback_def op_defs op_simps in_reg_def)
    ultimately have "reg_evolves t (w_reg v)"
      by (auto dest: op_keepsD simp: reg_rel_def)
    from reg_evolvesD [OF this canon] show ?thesis
      using applying status_evolves_not_armed by force
  qed
qed

text \<open>
  C6. A callback is applied at most once: after \<open>_apply_callback\<close> has ended, by returning or
  raising, no later \<open>_apply_callback\<close> of the same patch, from any thread, in any state
  reached by coordinator calls and whatever the outside code now does, has any effect; it
  returns or raises immediately.
\<close>

theorem callback_applied_at_most_once:
  assumes "env_keeps (reg_rel reg_evolves) env"
    and "canonical (ent_patch_id (w_entry w a))" and "ent_patch_id (w_entry w a) \<noteq> []"
    and "apply_callback env tid a m w = Some (r, v)"
    and "coord_reach env v u"
    and "ent_patch_id (w_entry u b) = ent_patch_id (w_entry w a)"
    and "reg_get (ent_patch_id (w_entry w a)) (w_reg w) \<noteq> None"
    and "apply_callback env' tid' b m' u = Some (r', x)"
  shows "x = u"
proof -
  let ?pid = "ent_patch_id (w_entry w a)"
  have later: "reg_evolves (w_reg v) (w_reg u)"
    using coord_evolution.reach_keeps [OF assms(5,1)] by (simp add: reg_rel_def)
  have first: "reg_evolves (w_reg w) (w_reg v)"
    using op_keepsD [OF coord_evolution.apply_callback_keeps [OF assms(1)] assms(4)]
    by (simp add: reg_rel_def)
  have "reg_status (w_reg v) ?pid \<noteq> None"
    using status_evolves_declared [OF reg_evolvesD [OF first assms(2)]] assms(7) by (simp add: reg_get_def)
  with apply_callback_leaves_armed [OF assms(1-4)]
  have "reg_status (w_reg u) ?pid \<noteq> Some ARMED"
    using status_evolves_not_armed [OF reg_evolvesD [OF later assms(2)]] by simp
  then have "entry_status u b \<noteq> Some ARMED"
    using assms(6) by (simp add: entry_status_def reg_get_def)
  with apply_callback_not_armed [OF _ this assms(8)] assms(2,6) show ?thesis by simp
qed

definition armed_world :: world where
  "armed_world = demo_world [Install, RegisterCallback ''cb'' ''vllm.c'' 1 None True]"

definition applied_world :: world where
  "applied_world = snd (the (apply_callback demo_env 1 0 5 armed_world))"

lemma armed_world_facts:
  "canonical (ent_patch_id (w_entry armed_world 0))" "ent_patch_id (w_entry armed_world 0) \<noteq> []"
  "reg_get (ent_patch_id (w_entry armed_world 0)) (w_reg armed_world) \<noteq> None"
  "apply_callback demo_env 1 0 5 armed_world \<noteq> None"
  "ent_patch_id (w_entry applied_world 0) = ent_patch_id (w_entry armed_world 0)"
  "apply_callback demo_env 2 0 6 applied_world \<noteq> None"
  by code_simp+

theorem callback_applied_at_most_once_witness:
  "\<exists>r. apply_callback demo_env 2 0 6 applied_world = Some (r, applied_world)"
proof -
  obtain r where first: "apply_callback demo_env 1 0 5 armed_world = Some (r, applied_world)"
    using armed_world_facts(4) by (auto simp: applied_world_def)
  obtain r' x where again: "apply_callback demo_env 2 0 6 applied_world = Some (r', x)"
    using armed_world_facts(6) by auto
  have "env_keeps (reg_rel reg_evolves) demo_env"
    by (rule demo_env_keeps) (simp add: coord_evolution.refl_R)
  from callback_applied_at_most_once [OF this armed_world_facts(1,2) first reach_start
      armed_world_facts(5,3) again]
  show ?thesis using again by simp
qed

lemma coord_targets_stripped:
  "coord_normalise_targets name targets = Inr ts \<Longrightarrow> normalise_targets (ManyTargets ts) = Inr ts"
  by (auto simp: coord_normalise_targets_def normalise_targets_def Let_def list_ex_iff
      split: if_splits option.splits targets_arg.splits)

lemma first_replacement_fresh:
  assumes inv: "coord_inv w" and none: "first_replacement w (module_ids w name) = Inr None"
  shows "first_replacement (w\<lparr>w_entry := (w_entry w)(w_next_entry w := e), w_next_entry := w_next_entry w + 1\<rparr>)
           (module_ids w name) = Inr None" (is "first_replacement ?v _ = _")
proof -
  have old: "a < w_next_entry w" if "lookup_entry w pid = Inr a" for pid a
    using inv that by (auto simp: coord_inv_def lookup_entry_def dest!: map_of_SomeD split: option.splits)
  have "first_replacement ?v ids = Inr None" if "first_replacement w ids = Inr None" for ids
    using that
  proof (induction ids)
    case (Cons pid ids)
    then obtain a where a: "lookup_entry w pid = Inr a" "ent_action (w_entry w a) \<noteq> REPLACEMENT"
      "first_replacement w ids = Inr None"
      by (auto simp: and_then_Inr_iff split: if_splits)
    with Cons.IH old [OF a(1)] show ?case by (auto simp: lookup_entry_def split: option.splits)
  qed simp
  then show ?thesis using none .
qed

lemma enrol_fresh:
  assumes pid: "canonical pid" "pid \<noteq> []" "ent_patch_id e = pid"
    and fresh: "dict_get (w_entries w) pid = None" "reg_get pid (w_reg w) = None"
    and targets: "normalise_targets (ManyTargets (ent_targets e)) = Inr (ent_targets e)"
    and none: "ent_action e = REPLACEMENT \<longrightarrow>
        first_replacement (w\<lparr>w_entry := (w_entry w)(w_next_entry w := e), w_next_entry := w_next_entry w + 1\<rparr>)
          (module_ids w (ent_module_name e)) = Inr None"
  shows "\<exists>v. enrol e w = Some (Inr (w_next_entry w, w_next_entry w), v)
     \<and> w_entry v (w_next_entry w) = e \<and> dict_get (w_entries v) pid = Some (w_next_entry w)
     \<and> w_sys_modules v = w_sys_modules w \<and> reg_status (w_reg v) pid = Some ARMED"
proof -
  have strip: "py_strip pid = pid" using pid(1) by (simp add: canonical_def)
  have "claimable (py_strip pid) (ManyTargets (ent_targets e)) (w_reg w)"
    using fresh(2) pid(2) targets strip by (simp add: claimable_def reg_get_def)
  from declare_claimable [OF this] obtain r g
    where d: "reg_declare pid (ManyTargets (ent_targets e)) (w_reg w) = Some (Inr r, g)"
      and g: "dict_get (records g) pid = Some r" "rec_status r = ARMED"
    by (auto simp: strip)
  let ?r = "r\<lparr>rec_feature_enabled := ent_feature_enabled e, rec_updated_at := clock g\<rparr>"
  have f: "reg_set_feature_enabled pid (ent_feature_enabled e) g
      = Some (Inr ?r, g\<lparr>records := dict_set pid ?r (records g)\<rparr>)"
    using g pid(2) strip
    by (simp add: reg_set_feature_enabled_def op_defs op_simps require_record_run validate_patch_id_def Let_def)
  show ?thesis
    using fresh(1) pid none d f g
    by (auto simp: enrol_def register_def new_entry_def op_defs op_simps in_reg_def module_ids_def)
qed

text \<open>
  A strict replacement registered after its module was imported is refused and stays
  refused: the registration raises \<open>LateModuleReplacementError\<close>, the patch is failed, the
  loaded module stays bound, and the next import of that name is blocked.
\<close>

theorem late_replacement_refused:
  assumes inv: "coord_inv w" and canon: "canonical pid" "pid \<noteq> []"
    and fresh: "dict_get (w_entries w) pid = None" "reg_get pid (w_reg w) = None"
    and name: "validate_module_name name = Inr name"
    and none: "first_replacement w (module_ids w name) = Inr None"
    and payload: "validate_replacement p = Inr ()" "p \<noteq> PName name"
    and targets: "coord_normalise_targets name targets = Inr ts"
    and loaded: "dict_get (w_sys_modules w) name = Some old"
  shows "\<exists>v. register_replacement env tid pid name p targets enabled LateFail w
              = Some (Inl (err_late_register name), v)
      \<and> reg_status (w_reg v) pid = Some FAILED
      \<and> w_sys_modules v = w_sys_modules w
      \<and> (\<forall>path target. \<exists>sp. find_spec env name path target v = Some (Inr (Some sp), v) \<and> refuses env sp v)"
proof -
  let ?e = "\<lparr>ent_patch_id = pid, ent_module_name = name, ent_targets = ts, ent_action = REPLACEMENT,
     ent_payload = p, ent_feature_enabled = enabled, ent_late_policy = LateFail,
     ent_replacement_module = None, ent_previous_module = None\<rparr>"
  let ?a = "w_next_entry w"
  have strip: "py_strip pid = pid" using canon(1) by (simp add: canonical_def)
  have "first_replacement (w\<lparr>w_entry := (w_entry w)(?a := ?e), w_next_entry := ?a + 1\<rparr>) (module_ids w name)
      = Inr None"
    using first_replacement_fresh [OF inv none] .
  then obtain u where u: "enrol ?e w = Some (Inr (?a, ?a), u)" "w_entry u ?a = ?e"
      "dict_get (w_entries u) pid = Some ?a" "w_sys_modules u = w_sys_modules w"
      "reg_status (w_reg u) pid = Some ARMED"
    using enrol_fresh [OF canon _ fresh, of ?e] coord_targets_stripped [OF targets] by auto
  from u(5) obtain old where old: "dict_get (records (w_reg u)) pid = Some old" "rec_status old = ARMED"
    by auto
  obtain reason where "format_failure (FromExn (err_late_register name)) = Inr reason"
    by (simp add: err_late_register_def format_failure_def)
  then obtain f where f: "reg_mark_failed pid (FromExn (err_late_register name)) (w_reg u) = Some (Inr f, finish_state pid f (w_reg u))"
    and st: "rec_status f = FAILED"
    using old canon(2) strip
    by (auto simp: reg_mark_failed_def op_defs op_simps require_record_run validate_patch_id_def Let_def)
  let ?v = "u\<lparr>w_reg := finish_state pid f (w_reg u)\<rparr>"
  have "register_replacement env tid pid name p targets enabled LateFail w = Some (Inl (err_late_register name), ?v)"
    using u f name payload targets loaded
    by (simp add: register_replacement_def op_defs op_simps in_reg_def)
  moreover have inv': "coord_inv ?v"
    using op_keepsD [OF enrol_coord u(1)] name inv by simp
  moreover have failed: "reg_status (w_reg ?v) pid = Some FAILED"
    using st by (simp add: finish_state_def)
  moreover have "\<exists>sp. find_spec env name path target ?v = Some (Inr (Some sp), ?v) \<and> refuses env sp ?v"
    for path target
    using failed u(2,3) by (intro blocked_find_spec [OF inv', of pid ?a]) (auto simp: entry_status_def reg_get_def)
  ultimately show ?thesis
    using u(4) by (intro exI [of _ ?v]) auto
qed

theorem late_replacement_refused_witness:
  "\<exists>v. register_replacement demo_env 1 ''late'' ''vllm.a'' (PCallable 0) None True LateFail demo_start
              = Some (Inl (err_late_register ''vllm.a''), v)
      \<and> reg_status (w_reg v) ''late'' = Some FAILED
      \<and> w_sys_modules v = w_sys_modules demo_start
      \<and> (\<forall>path target. \<exists>sp. find_spec demo_env ''vllm.a'' path target v = Some (Inr (Some sp), v)
           \<and> refuses demo_env sp v)"
proof (rule late_replacement_refused)
  show "coord_inv demo_start" by (simp add: demo_start_def coord_inv_empty)
  show "canonical ''late''" "''late'' \<noteq> []" "dict_get (w_entries demo_start) ''late'' = None"
    "reg_get ''late'' (w_reg demo_start) = None"
    "validate_module_name ''vllm.a'' = Inr ''vllm.a''"
    "first_replacement demo_start (module_ids demo_start ''vllm.a'') = Inr None"
    "validate_replacement (PCallable 0) = Inr ()" "PCallable 0 \<noteq> PName ''vllm.a''"
    "dict_get (w_sys_modules demo_start) ''vllm.a'' = Some (ModuleObj 1)"
    "coord_normalise_targets ''vllm.a'' None = Inr [''vllm.a'']"
    by code_simp+
qed

end
