(* ===== verification/Module_Exchange.thy ===== *)
theory Module_Exchange
  imports Import_Coordinator
begin

text \<open>
  The whole-module exchanges, \<open>src/vllm_hcu/patch/module_exchange.py\<close>: an inventory of vLLM modules and
  the modules of the plugin that stand in for them, validated as a whole and registered with the
  import coordinator.

  \<open>root\<close> is the plugin's source directory and \<open>is_file\<close> what the file system answers.  Whether the fused
  PLE module is requested comes from the environment.  A registration batch holds the coordinator's
  lock, so the calls of a batch are one run of the calling thread.
\<close>

section \<open>The inventory\<close>

type_synonym exchange = "string \<times> string \<times> string"

definition modular_kernel_group :: "exchange list" where
  "modular_kernel_group =
     [(''module_exchange.modular_kernel'', ''vllm.model_executor.layers.fused_moe.modular_kernel'',
       ''vllm_hcu.model_executor.layers.fused_moe.modular_kernel'')]"

definition base_linear_group :: "exchange list" where
  "base_linear_group =
     [(''module_exchange.base_linear.linear'', ''vllm.model_executor.layers.linear'', ''vllm_hcu.model_executor.layers.linear'')]"

definition deepseek_v4_group :: "exchange list" where
  "deepseek_v4_group =
     [(''module_exchange.deepseek_v4.sparse_swa'', ''vllm.v1.attention.backends.mla.sparse_swa'',
       ''vllm_hcu.v1.attention.backends.mla.sparse_swa'')]"

definition deep_gemm_group :: "exchange list" where
  "deep_gemm_group =
     [(''module_exchange.deep_gemm.utils'', ''vllm.model_executor.layers.fused_moe.deep_gemm_utils'',
       ''vllm_hcu.model_executor.layers.fused_moe.deep_gemm_utils''),
      (''module_exchange.deep_gemm.experts'', ''vllm.model_executor.layers.fused_moe.experts.deep_gemm_moe'',
       ''vllm_hcu.model_executor.layers.fused_moe.experts.deep_gemm_moe''),
      (''module_exchange.deep_gemm.batched_experts'', ''vllm.model_executor.layers.fused_moe.experts.batched_deep_gemm_moe'',
       ''vllm_hcu.model_executor.layers.fused_moe.experts.batched_deep_gemm_moe'')]"

definition attention_group :: "exchange list" where
  "attention_group =
     [(''module_exchange.attention.sparse_indexer'', ''vllm.model_executor.layers.sparse_attn_indexer'',
       ''vllm_hcu.model_executor.layers.sparse_attn_indexer'')]"

definition qwen4_exp_ple_group :: "exchange list" where
  "qwen4_exp_ple_group =
     [(''module_exchange.qwen4_exp.fused_ple'', ''vllm.models.qwen4_exp.amd.ple_layer'', ''vllm_hcu.models.qwen4_exp.amd.ple_layer'')]"

definition step5_group :: "exchange list" where
  "step5_group =
     [(''module_exchange.step5.text_model'', ''vllm.model_executor.models.step5_text'', ''vllm_hcu.models.step5_text''),
      (''module_exchange.step5.multimodal_model'', ''vllm.model_executor.models.step5_vl'', ''vllm_hcu.models.step5_vl''),
      (''module_exchange.step5.mtp_model'', ''vllm.model_executor.models.step5_mtp'', ''vllm_hcu.models.step5_mtp''),
      (''module_exchange.step5.swa_fused'', ''vllm.model_executor.models.step5_swa_fused'', ''vllm_hcu.models.step5_swa_fused''),
      (''module_exchange.step5.config'', ''vllm.transformers_utils.configs.step5'', ''vllm_hcu.models.step5_config''),
      (''module_exchange.step5.dsa_backend'', ''vllm.model_executor.layers.step4_dsa'', ''vllm_hcu.model_executor.layers.step4_dsa''),
      (''module_exchange.step5.dsa_kernels'', ''vllm.model_executor.layers.step4_dsa_kernels'',
       ''vllm_hcu.model_executor.layers.step4_dsa_kernels''),
      (''module_exchange.step5.skinny_lm_head'', ''vllm.model_executor.layers.skinny_lm_head'',
       ''vllm_hcu.model_executor.layers.skinny_lm_head'')]"

definition all_groups :: "exchange list list" where
  "all_groups =
     [modular_kernel_group, base_linear_group, attention_group, deepseek_v4_group, deep_gemm_group, step5_group]"

text \<open>The mode is logged when it is first asked for; the log line is the second component.\<close>

definition log_ple_mode_once :: "bool \<Rightarrow> bool option \<Rightarrow> bool option \<times> string option" where
  "log_ple_mode_once enabled logged =
     (case logged of
        Some b \<Rightarrow> (logged, None)
      | None \<Rightarrow> (Some enabled, Some (''Qwen4Exp PLE mode selected: '' @ (if enabled then ''fused'' else ''fallback''))))"

definition enabled_groups :: "bool \<Rightarrow> exchange list list" where
  "enabled_groups ple = (if ple then all_groups @ [qwen4_exp_ple_group] else all_groups)"

definition module_exchange_names :: "bool \<Rightarrow> (string \<times> string) list" where
  "module_exchange_names ple = map (\<lambda>(pid, canonical_name, replacement). (canonical_name, replacement)) (concat (enabled_groups ple))"

section \<open>Validation\<close>

definition module_file :: "string \<Rightarrow> string list \<Rightarrow> string" where
  "module_file root parts = py_join ''/'' (root # parts) @ ''.py''"

definition package_file :: "string \<Rightarrow> string list \<Rightarrow> string" where
  "package_file root parts = py_join ''/'' (root # parts) @ ''/__init__.py''"

definition validate_hcu_replacement_path :: "string \<Rightarrow> (string \<Rightarrow> bool) \<Rightarrow> string \<Rightarrow> unit result" where
  "validate_hcu_replacement_path root is_file module_name =
     (let parts = py_split (CHR ''.'') module_name
      in if length parts < 2 \<or> hd parts \<noteq> ''vllm_hcu'' \<or> list_ex (\<lambda>p. \<not> py_isidentifier p) parts
         then raise ValueError (''replacement must be an absolute vllm_hcu module name: '' @ py_repr module_name)
         else if \<not> is_file (module_file root (tl parts)) \<and> \<not> is_file (package_file root (tl parts))
         then raise ModuleNotFoundError (''HCU replacement module '' @ py_repr module_name @ '' has no source at ''
                @ module_file root (tl parts) @ '' or '' @ package_file root (tl parts))
         else Inr ())"

fun validate_from :: "string \<Rightarrow> (string \<Rightarrow> bool) \<Rightarrow> exchange list \<Rightarrow> string list \<Rightarrow> string list \<Rightarrow> unit result" where
  "validate_from root is_file [] pids names = Inr ()"
| "validate_from root is_file ((pid, name, replacement) # es) pids names =
     (if pid = [] \<or> pid \<in> set pids
      then raise ValueError (''duplicate or empty module-exchange patch id: '' @ py_repr pid)
      else if take 5 name \<noteq> ''vllm.'' \<or> name = replacement
      then raise ValueError (''invalid canonical module exchange target: '' @ py_repr name)
      else if name \<in> set names
      then raise ValueError (''duplicate canonical module exchange target: '' @ py_repr name)
      else and_then (validate_hcu_replacement_path root is_file replacement) (\<lambda>_.
             validate_from root is_file es (pid # pids) (name # names)))"

definition validate_entries :: "string \<Rightarrow> (string \<Rightarrow> bool) \<Rightarrow> exchange list \<Rightarrow> exchange list result" where
  "validate_entries root is_file es = and_then (validate_from root is_file es [] []) (\<lambda>_. Inr es)"

section \<open>Registration\<close>

definition register_exchange :: "coord_env \<Rightarrow> nat \<Rightarrow> exchange \<Rightarrow> (world, import_registration) op" where
  "register_exchange env tid = (\<lambda>(pid, name, replacement).
     register_replacement env tid pid name (PName replacement) (Some (ManyTargets [name, replacement])) True LateFail)"

fun collect_op :: "('a \<Rightarrow> ('s, 'b) op) \<Rightarrow> 'a list \<Rightarrow> ('s, 'b list) op" where
  "collect_op f [] = ret []"
| "collect_op f (x # xs) = bind_op (f x) (\<lambda>y. bind_op (collect_op f xs) (\<lambda>ys. ret (y # ys)))"

definition register_entries ::
    "coord_env \<Rightarrow> nat \<Rightarrow> string \<Rightarrow> (string \<Rightarrow> bool) \<Rightarrow> exchange list \<Rightarrow> (world, import_registration list) op" where
  "register_entries env tid root is_file es =
     bind_op (lift_result (validate_entries root is_file es)) (collect_op (register_exchange env tid))"

definition register_modular_kernel_exchange where
  "register_modular_kernel_exchange env tid root is_file = register_entries env tid root is_file modular_kernel_group"

definition register_base_linear_exchanges where
  "register_base_linear_exchanges env tid root is_file = register_entries env tid root is_file base_linear_group"

definition register_deepseek_v4_exchanges where
  "register_deepseek_v4_exchanges env tid root is_file = register_entries env tid root is_file deepseek_v4_group"

definition register_deep_gemm_exchanges where
  "register_deep_gemm_exchanges env tid root is_file = register_entries env tid root is_file deep_gemm_group"

definition register_attention_exchanges where
  "register_attention_exchanges env tid root is_file = register_entries env tid root is_file attention_group"

definition register_qwen4_exp_ple_exchange where
  "register_qwen4_exp_ple_exchange env tid root is_file ple =
     (if \<not> ple then ret [] else register_entries env tid root is_file qwen4_exp_ple_group)"

definition register_all_module_exchanges ::
    "coord_env \<Rightarrow> nat \<Rightarrow> string \<Rightarrow> (string \<Rightarrow> bool) \<Rightarrow> bool \<Rightarrow> (world, import_registration list) op" where
  "register_all_module_exchanges env tid root is_file ple =
     seq_op (lift_result (validate_entries root is_file (concat (enabled_groups ple))))
       (bind_op (collect_op (register_entries env tid root is_file) (enabled_groups ple)) (\<lambda>regs. ret (concat regs)))"

section \<open>Registering a fresh exchange\<close>

text \<open>
  What \<open>_validate_entries\<close> and the coordinator's own checks ask of one exchange, the file system and
  its neighbours apart; that its source exists; that the coordinator does not know it and its module is
  not loaded; and that the coordinator holds it, waiting for the import.
\<close>

definition exchange_wf :: "exchange \<Rightarrow> bool" where
  "exchange_wf = (\<lambda>(pid, name, replacement).
     canonical pid \<and> pid \<noteq> [] \<and> validate_module_name name = Inr name \<and> validate_module_name replacement = Inr replacement
     \<and> take 5 name = ''vllm.'' \<and> name \<noteq> replacement \<and> canonical name \<and> canonical replacement
     \<and> 2 \<le> length (py_split (CHR ''.'') replacement) \<and> hd (py_split (CHR ''.'') replacement) = ''vllm_hcu'')"

definition has_source :: "string \<Rightarrow> (string \<Rightarrow> bool) \<Rightarrow> exchange \<Rightarrow> bool" where
  "has_source root is_file = (\<lambda>(pid, name, replacement).
     is_file (module_file root (tl (py_split (CHR ''.'') replacement)))
     \<or> is_file (package_file root (tl (py_split (CHR ''.'') replacement))))"

definition exchange_free :: "world \<Rightarrow> exchange \<Rightarrow> bool" where
  "exchange_free w = (\<lambda>(pid, name, replacement).
     dict_get (w_entries w) pid = None \<and> reg_get pid (w_reg w) = None \<and> module_ids w name = []
     \<and> dict_get (w_sys_modules w) name = None)"

definition holds_exchange :: "world \<Rightarrow> nat \<Rightarrow> exchange \<Rightarrow> bool" where
  "holds_exchange w a = (\<lambda>(pid, name, replacement).
     dict_get (w_entries w) pid = Some a \<and> a < w_next_entry w \<and> module_ids w name = [pid]
     \<and> ent_action (w_entry w a) = REPLACEMENT \<and> ent_payload (w_entry w a) = PName replacement
     \<and> ent_patch_id (w_entry w a) = pid \<and> ent_module_name (w_entry w a) = name \<and> map_option rec_status (reg_get pid (w_reg w)) = Some ARMED)"

definition exchange_armed :: "world \<Rightarrow> exchange \<Rightarrow> bool" where
  "exchange_armed w x \<longleftrightarrow> (\<exists>a. holds_exchange w a x)"

lemma declare_fresh:
  assumes "py_strip pid = pid" and "pid \<noteq> []" and "dict_get (records g) pid = None" and "normalise_targets targets = Inr ts"
  shows "reg_declare pid targets g = Some (Inr \<lparr>rec_patch_id = pid, rec_status = ARMED, rec_targets = ts,
      rec_feature_enabled = False, rec_failure_reason = None, rec_updated_at = clock g\<rparr>,
    g\<lparr>records := dict_set pid \<lparr>rec_patch_id = pid, rec_status = ARMED, rec_targets = ts,
      rec_feature_enabled = False, rec_failure_reason = None, rec_updated_at = clock g\<rparr> (records g)\<rparr>)"
  using assms by (simp add: reg_declare_def op_defs op_simps validate_patch_id_def)

text \<open>The state after a fresh replacement entry was registered under a name that had none.\<close>

definition enrolled :: "string \<Rightarrow> string \<Rightarrow> entry \<Rightarrow> registry \<Rightarrow> world \<Rightarrow> world" where
  "enrolled pid name e g w =
     w\<lparr>w_reg := g, w_entry := (w_entry w)(w_next_entry w := e), w_next_entry := w_next_entry w + 1,
       w_entries := dict_set pid (w_next_entry w) (w_entries w), w_by_module := dict_set name [pid] (w_by_module w)\<rparr>"

lemma register_exchange_step:
  assumes wf: "exchange_wf (pid, name, replacement)" and free: "exchange_free w (pid, name, replacement)"
  shows "\<exists>reg e r g. register_exchange env tid (pid, name, replacement) w = Some (Inr reg, enrolled pid name e g w)
    \<and> ir_module_name reg = name
    \<and> ent_action e = REPLACEMENT \<and> ent_payload e = PName replacement \<and> ent_patch_id e = pid \<and> ent_module_name e = name
    \<and> reg_get pid g = Some r \<and> rec_status r = ARMED \<and> (\<forall>q. q \<noteq> pid \<longrightarrow> reg_get q g = reg_get q (w_reg w))"
proof -
  note wf' = wf [unfolded exchange_wf_def, simplified] and free' = free [unfolded exchange_free_def, simplified]
  have strip: "py_strip pid = pid" "py_strip name = name" "py_strip replacement = replacement"
    using wf' by (simp_all add: canonical_def)
  have ne: "name \<noteq> []" "replacement \<noteq> []"
    using wf' by (auto simp: validate_module_name_def)
  have targets: "normalise_targets (ManyTargets [name, replacement]) = Inr [name, replacement]"
    "coord_normalise_targets name (Some (ManyTargets [name, replacement])) = Inr [name, replacement]"
    using strip ne by (simp_all add: normalise_targets_def coord_normalise_targets_def)
  define e where "e = \<lparr>ent_patch_id = pid, ent_module_name = name, ent_targets = [name, replacement], ent_action = REPLACEMENT,
     ent_payload = PName replacement, ent_feature_enabled = True, ent_late_policy = LateFail,
     ent_replacement_module = None, ent_previous_module = None\<rparr>"
  let ?g = "w_reg w" and ?a = "w_next_entry w"
  let ?fresh = "\<lparr>rec_patch_id = pid, rec_status = ARMED, rec_targets = [name, replacement], rec_feature_enabled = False,
     rec_failure_reason = None, rec_updated_at = clock ?g\<rparr>"
  let ?r = "?fresh\<lparr>rec_feature_enabled := True\<rparr>"
  let ?declared = "?g\<lparr>records := dict_set pid ?fresh (records ?g)\<rparr>"
  let ?known = "?declared\<lparr>records := dict_set pid ?r (records ?declared)\<rparr>"
  have decl: "reg_declare pid (ManyTargets [name, replacement]) ?g = Some (Inr ?fresh, ?declared)"
    by (rule declare_fresh [OF strip(1) _ _ targets(1)]) (use wf' free' in \<open>simp_all add: reg_get_def\<close>)
  have feat: "reg_set_feature_enabled pid True ?declared = Some (Inr ?r, ?known)"
    using wf' strip
    by (simp add: reg_set_feature_enabled_def op_defs op_simps require_record_run validate_patch_id_def Let_def)
  have enrol: "enrol e w = Some (Inr (?a, ?a), enrolled pid name e ?known w)"
    using free' decl feat
    by (simp add: enrol_def register_def new_entry_def op_defs op_simps in_reg_def module_ids_def e_def enrolled_def)
  obtain reg where "register_exchange env tid (pid, name, replacement) w = Some (Inr reg, enrolled pid name e ?known w)"
    "ir_module_name reg = name"
    using enrol wf' free' targets
    by (auto simp: register_exchange_def register_replacement_def op_defs op_simps validate_replacement_def
        e_def [symmetric] view_def enrolled_def Let_def) (simp add: e_def)
  moreover have "ent_action e = REPLACEMENT" "ent_payload e = PName replacement" "ent_patch_id e = pid" "ent_module_name e = name"
    by (simp_all add: e_def)
  moreover have "reg_get pid ?known = Some ?r" "rec_status ?r = ARMED" "\<forall>q. q \<noteq> pid \<longrightarrow> reg_get q ?known = reg_get q ?g"
    by (simp_all add: reg_get_def)
  ultimately show ?thesis
    by blast
qed

lemma exchange_frame:
  assumes reg: "\<And>q. q \<noteq> pid \<Longrightarrow> reg_get q g = reg_get q (w_reg w)" and other: "fst y \<noteq> pid" "fst (snd y) \<noteq> name"
  shows "exchange_free w y \<Longrightarrow> exchange_free (enrolled pid name e g w) y"
    and "exchange_armed w y \<Longrightarrow> exchange_armed (enrolled pid name e g w) y"
proof -
  show "exchange_free w y \<Longrightarrow> exchange_free (enrolled pid name e g w) y"
    using other reg by (auto simp: enrolled_def exchange_free_def module_ids_def split: prod.splits)
  have "holds_exchange (enrolled pid name e g w) a y" if "holds_exchange w a y" for a
    using that other reg by (auto simp: enrolled_def holds_exchange_def module_ids_def split: prod.splits)
  then show "exchange_armed w y \<Longrightarrow> exchange_armed (enrolled pid name e g w) y"
    unfolding exchange_armed_def by blast
qed

lemma enrolled_inv:
  assumes inv: "coord_inv w" and fresh: "dict_get (w_entries w) pid = None" "module_ids w name = []"
    and e: "ent_patch_id e = pid" "ent_module_name e = name" and name: "validate_module_name name = Inr name"
  shows "coord_inv (enrolled pid name e g w)"
proof -
  let ?u = "w\<lparr>w_entry := (w_entry w)(w_next_entry w := e), w_next_entry := w_next_entry w + 1\<rparr>"
  have "coord_inv ?u"
    using inv by (rule coord_inv_cong [rotated -1]) (use inv in \<open>auto simp: coord_inv_def\<close>)
  from coord_inv_extend [OF this, of "w_next_entry w" e g]
  have "coord_inv (?u\<lparr>w_reg := g, w_entries := dict_set pid (w_next_entry w) (w_entries w),
      w_by_module := dict_set name [pid] (w_by_module w)\<rparr>)"
    using fresh e name by (simp add: module_ids_def)
  moreover have "?u\<lparr>w_reg := g, w_entries := dict_set pid (w_next_entry w) (w_entries w),
      w_by_module := dict_set name [pid] (w_by_module w)\<rparr> = enrolled pid name e g w"
    by (cases w) (simp add: enrolled_def)
  ultimately show ?thesis
    by simp
qed

text \<open>How far apart two exchanges are, and what the registration of some keeps of the others.\<close>

definition apart :: "exchange \<Rightarrow> exchange \<Rightarrow> bool" where
  "apart x y \<longleftrightarrow> fst x \<noteq> fst y \<and> fst (snd x) \<noteq> fst (snd y)"

definition keeps_exchange :: "world \<Rightarrow> world \<Rightarrow> exchange \<Rightarrow> bool" where
  "keeps_exchange w v y \<longleftrightarrow> (exchange_free w y \<longrightarrow> exchange_free v y) \<and> (exchange_armed w y \<longrightarrow> exchange_armed v y)"

lemma armed_after_step:
  assumes inv: "coord_inv w" and wf: "exchange_wf x" and free: "exchange_free w x"
  shows "\<exists>reg v. register_exchange env tid x w = Some (Inr reg, v) \<and> ir_module_name reg = fst (snd x)
    \<and> coord_inv v \<and> w_sys_modules v = w_sys_modules w \<and> exchange_armed v x
    \<and> (\<forall>y. apart x y \<longrightarrow> keeps_exchange w v y)"
proof -
  obtain pid name replacement where x: "x = (pid, name, replacement)"
    by (cases x)
  from register_exchange_step [OF wf [unfolded x] free [unfolded x], of env tid]
  obtain reg e r g where run: "register_exchange env tid x w = Some (Inr reg, enrolled pid name e g w)"
    and name: "ir_module_name reg = name"
    and e: "ent_action e = REPLACEMENT" "ent_payload e = PName replacement" "ent_patch_id e = pid" "ent_module_name e = name"
    and g: "reg_get pid g = Some r" "rec_status r = ARMED" "\<And>q. q \<noteq> pid \<Longrightarrow> reg_get q g = reg_get q (w_reg w)"
    unfolding x by blast
  let ?v = "enrolled pid name e g w"
  have "coord_inv ?v"
    using wf free e(3,4) by (intro enrolled_inv [OF inv]) (simp_all add: x exchange_wf_def exchange_free_def)
  moreover have "holds_exchange ?v (w_next_entry w) x"
    using e g by (simp add: holds_exchange_def x enrolled_def module_ids_def)
  moreover have "keeps_exchange w ?v y" if "apart x y" for y
    using that exchange_frame [OF g(3), where y = y and name = name and e = e] by (auto simp: x apart_def keeps_exchange_def)
  moreover have "w_sys_modules ?v = w_sys_modules w"
    by (simp add: enrolled_def)
  ultimately show ?thesis
    using run name by (intro exI [of _ reg] exI [of _ ?v]) (auto simp: x exchange_armed_def)
qed

section \<open>Registering a list of exchanges\<close>

definition all_apart :: "exchange list \<Rightarrow> bool" where
  "all_apart es \<longleftrightarrow> distinct (map fst es) \<and> distinct (map (\<lambda>x. fst (snd x)) es)"

lemma all_apart_append:
  "all_apart (es @ fs) \<longleftrightarrow> all_apart es \<and> all_apart fs \<and> list_all (\<lambda>x. list_all (apart x) fs) es"
  by (auto simp: all_apart_def apart_def list_all_iff)

lemma all_apart_Cons: "all_apart (x # es) \<longleftrightarrow> list_all (apart x) es \<and> all_apart es"
  using all_apart_append [of "[x]" es] by (auto simp: all_apart_def)

lemma apart_sym: "apart x y \<Longrightarrow> apart y x"
  by (auto simp: apart_def)

text \<open>A batch of registrations that worked.\<close>

definition batch_done :: "world \<Rightarrow> exchange list \<Rightarrow> import_registration list \<Rightarrow> world \<Rightarrow> bool" where
  "batch_done w es regs v \<longleftrightarrow>
     map ir_module_name regs = map (\<lambda>x. fst (snd x)) es \<and> coord_inv v \<and> w_sys_modules v = w_sys_modules w
     \<and> list_all (exchange_armed v) es \<and> (\<forall>y. list_all (apart y) es \<longrightarrow> keeps_exchange w v y)"

lemma batch_doneD: "batch_done w es regs v \<Longrightarrow> list_all (apart y) es \<Longrightarrow> keeps_exchange w v y"
  unfolding batch_done_def by blast

lemma batch_done_free:
  assumes "batch_done w es regs v" and "list_all (exchange_free w) fs" and "all_apart (es @ fs)"
  shows "list_all (exchange_free v) fs"
  unfolding list_all_iff
proof
  fix y
  assume "y \<in> set fs"
  then have "list_all (apart y) es" "exchange_free w y"
    using assms(2,3) by (auto simp: all_apart_append list_all_iff intro: apart_sym)
  with batch_doneD [OF assms(1)] show "exchange_free v y"
    by (simp add: keeps_exchange_def)
qed

lemma batch_done_append:
  assumes one: "batch_done w es regs u" and two: "batch_done u fs qs v" and apart: "all_apart (es @ fs)"
  shows "batch_done w (es @ fs) (regs @ qs) v"
proof -
  have "exchange_armed v x" if "x \<in> set es" for x
  proof -
    have "list_all (apart x) fs" "exchange_armed u x"
      using that one apart by (auto simp: all_apart_append list_all_iff batch_done_def)
    with batch_doneD [OF two] show ?thesis
      by (simp add: keeps_exchange_def)
  qed
  moreover have "keeps_exchange w v y" if "list_all (apart y) (es @ fs)" for y
  proof -
    have "keeps_exchange w u y" "keeps_exchange u v y"
      using batch_doneD [OF one] batch_doneD [OF two] that by simp_all
    then show ?thesis
      by (simp add: keeps_exchange_def)
  qed
  ultimately show ?thesis
    using one two by (auto simp: batch_done_def list_all_iff)
qed

lemma collect_exchanges:
  assumes "coord_inv w" and "list_all exchange_wf es" and "list_all (exchange_free w) es" and "all_apart es"
  shows "\<exists>regs v. collect_op (register_exchange env tid) es w = Some (Inr regs, v) \<and> batch_done w es regs v"
  using assms
proof (induction es arbitrary: w)
  case Nil
  then show ?case
    by (simp add: op_simps batch_done_def keeps_exchange_def)
next
  case (Cons x es)
  from armed_after_step [of w x env tid] Cons.prems
  obtain reg u where run: "register_exchange env tid x w = Some (Inr reg, u)" and one: "batch_done w [x] [reg] u"
    by (auto simp: batch_done_def apart_sym)
  have free: "list_all (exchange_free u) es"
    using batch_done_free [OF one, of es] Cons.prems by simp
  have "coord_inv u"
    using one by (simp add: batch_done_def)
  with Cons.IH [of u] free Cons.prems obtain regs v
    where rest: "collect_op (register_exchange env tid) es u = Some (Inr regs, v)" and two: "batch_done u es regs v"
    by (auto simp: all_apart_Cons)
  show ?case
  proof (intro exI conjI)
    show "collect_op (register_exchange env tid) (x # es) w = Some (Inr (reg # regs), v)"
      using run rest by (simp add: op_defs op_simps)
    show "batch_done w (x # es) (reg # regs) v"
      using batch_done_append [OF one two] Cons.prems(4) by simp
  qed
qed

section \<open>Validating a list of exchanges\<close>

lemma validate_path:
  assumes "exchange_wf (pid, name, replacement)"
  shows "validate_hcu_replacement_path root is_file replacement =
     (if has_source root is_file (pid, name, replacement) then Inr ()
      else raise ModuleNotFoundError (''HCU replacement module '' @ py_repr replacement @ '' has no source at ''
        @ module_file root (tl (py_split (CHR ''.'') replacement)) @ '' or ''
        @ package_file root (tl (py_split (CHR ''.'') replacement))))"
proof -
  have "list_all py_isidentifier (py_split (CHR ''.'') replacement)"
    using assms by (auto simp: exchange_wf_def validate_module_name_def list_all_iff list_ex_iff split: if_splits)
  then show ?thesis
    using assms by (auto simp: validate_hcu_replacement_path_def exchange_wf_def has_source_def Let_def list_ex_iff list_all_iff)
qed

text \<open>A well-formed inventory validates exactly when every replacement has a source.\<close>

lemma validate_from_inventory:
  assumes "list_all exchange_wf es" and "all_apart es"
    and "set (map fst es) \<inter> set pids = {}" and "set (map (\<lambda>x. fst (snd x)) es) \<inter> set names = {}"
  shows "if list_all (has_source root is_file) es then validate_from root is_file es pids names = Inr ()
    else \<exists>msg. validate_from root is_file es pids names = raise ModuleNotFoundError msg"
  using assms
proof (induction es arbitrary: pids names)
  case (Cons x es)
  obtain pid name replacement where x: "x = (pid, name, replacement)"
    by (cases x)
  have path: "validate_hcu_replacement_path root is_file replacement = Inr ()" if "has_source root is_file x"
    using validate_path [of pid name replacement root is_file] that Cons.prems(1) x by simp
  have missing: "\<exists>msg. validate_hcu_replacement_path root is_file replacement = raise ModuleNotFoundError msg"
    if "\<not> has_source root is_file x"
    using validate_path [of pid name replacement root is_file] that Cons.prems(1) x by auto
  have here: "pid \<noteq> []" "pid \<notin> set pids" "take 5 name = ''vllm.''" "name \<noteq> replacement" "name \<notin> set names"
    using Cons.prems x by (auto simp: exchange_wf_def)
  have there: "set (map fst es) \<inter> set (pid # pids) = {}" "set (map (\<lambda>x. fst (snd x)) es) \<inter> set (name # names) = {}"
    "all_apart es" "list_all exchange_wf es"
    using Cons.prems by (auto simp: x all_apart_def)
  show ?case
  proof (cases "has_source root is_file x")
    case True
    then show ?thesis
      using path here Cons.IH [OF there(4,3,1,2)] by (simp add: x)
  next
    case False
    then show ?thesis
      using missing here by (auto simp: x)
  qed
qed simp

lemma groups_wf:
  "list_all exchange_wf modular_kernel_group" "list_all exchange_wf base_linear_group"
  "list_all exchange_wf deepseek_v4_group" "list_all exchange_wf deep_gemm_group"
  "list_all exchange_wf attention_group" "list_all exchange_wf qwen4_exp_ple_group" "list_all exchange_wf step5_group"
  by code_simp+

lemma inventory_wf: "list_all exchange_wf (concat (enabled_groups ple))"
  using groups_wf by (simp add: enabled_groups_def all_groups_def)

lemma inventory_apart: "all_apart (concat (enabled_groups ple))"
proof -
  have all: "all_apart (concat (enabled_groups True))"
    by code_simp
  then show ?thesis
    by (cases ple) (simp_all add: enabled_groups_def all_apart_append)
qed

lemma validate_entries_ok:
  assumes "list_all exchange_wf es" and "all_apart es" and "list_all (has_source root is_file) es"
  shows "validate_entries root is_file es = Inr es"
  using validate_from_inventory [OF assms(1,2), of "[]" "[]" root is_file] assms(3) by (simp add: validate_entries_def)

lemma collect_groups:
  assumes "coord_inv w" and "list_all exchange_wf (concat gs)" and "all_apart (concat gs)"
    and "list_all (exchange_free w) (concat gs)" and "list_all (has_source root is_file) (concat gs)"
  shows "\<exists>regss v. collect_op (register_entries env tid root is_file) gs w = Some (Inr regss, v)
    \<and> batch_done w (concat gs) (concat regss) v"
  using assms
proof (induction gs arbitrary: w)
  case Nil
  then show ?case
    by (auto simp: op_simps batch_done_def keeps_exchange_def)
next
  case (Cons es gs)
  have here: "list_all exchange_wf es" "all_apart es" "list_all (has_source root is_file) es" "list_all (exchange_free w) es"
    using Cons.prems by (simp_all add: all_apart_append)
  from collect_exchanges [OF Cons.prems(1) here(1,4,2), of env tid] obtain regs u
    where run: "collect_op (register_exchange env tid) es w = Some (Inr regs, u)" and one: "batch_done w es regs u"
    by blast
  have "coord_inv u" "list_all (exchange_free u) (concat gs)"
    using one batch_done_free [OF one, of "concat gs"] Cons.prems by (simp_all add: batch_done_def)
  with Cons.IH [of u] Cons.prems obtain regss v
    where rest: "collect_op (register_entries env tid root is_file) gs u = Some (Inr regss, v)"
      and two: "batch_done u (concat gs) (concat regss) v"
    by (auto simp: all_apart_append)
  show ?case
  proof (intro exI conjI)
    show "collect_op (register_entries env tid root is_file) (es # gs) w = Some (Inr (regs # regss), v)"
      using run rest validate_entries_ok [OF here(1-3)] by (simp add: register_entries_def op_defs op_simps)
    show "batch_done w (concat (es # gs)) (concat (regs # regss)) v"
      using batch_done_append [OF one two] Cons.prems(3) by simp
  qed
qed

section \<open>Imports after the registration\<close>

text \<open>The spec the coordinator's finder returns for a replaced module.\<close>

definition replacement_spec :: "string \<Rightarrow> string \<Rightarrow> module_spec" where
  "replacement_spec name pid = spec_from_loader name (ReplacementLoader name) (''vllm-hcu replacement:'' @ pid) False"

lemma holds_exchange_spec:
  assumes "holds_exchange v a (pid, name, replacement)"
  shows "find_spec env name path target v = Some (Inr (Some (replacement_spec name pid)), v)"
    and "replacement_for name v = Some (Inr a, v)" and "ent_payload (w_entry v a) = PName replacement"
proof -
  have es: "entries_for v name = Inr [a]" "entry_status v a = Some ARMED" "ent_action (w_entry v a) = REPLACEMENT"
    "ent_patch_id (w_entry v a) = pid" "lookup_entry v pid = Inr a" "module_ids v name = [pid]"
    using assms by (simp_all add: holds_exchange_def entries_for_def lookup_entry_def entry_status_def)
  show "find_spec env name path target v = Some (Inr (Some (replacement_spec name pid)), v)"
    using es by (simp add: find_spec_def find_status_def active_replacement_def replacement_spec_def)
  show "replacement_for name v = Some (Inr a, v)"
    using es by (simp add: replacement_for_def)
  show "ent_payload (w_entry v a) = PName replacement"
    using assms by (simp add: holds_exchange_def)
qed

text \<open>A module has one replacement, which the loaders find as long as the coordinator is consistent.\<close>

lemma replacement_unique:
  assumes inv: "coord_inv w" and a: "dict_get (w_entries w) p = Some a" "ent_action (w_entry w a) = REPLACEMENT"
    and b: "dict_get (w_entries w) q = Some b" "ent_action (w_entry w b) = REPLACEMENT"
    and same: "ent_module_name (w_entry w a) = ent_module_name (w_entry w b)"
  shows "b = a"
proof -
  let ?xs = "filter (\<lambda>(k, c). ent_module_name (w_entry w c) = ent_module_name (w_entry w a) \<and> ent_action (w_entry w c) = REPLACEMENT) (w_entries w)"
  have "length ?xs \<le> 1"
    using inv by (simp add: coord_inv_def)
  moreover have "(p, a) \<in> set ?xs" "(q, b) \<in> set ?xs"
    using map_of_SomeD [OF a(1)] map_of_SomeD [OF b(1)] a(2) b(2) same by auto
  ultimately show ?thesis
    by (cases ?xs rule: remdups_adj.cases) auto
qed

lemma first_replacement_Some:
  assumes "pid \<in> set ids" and "lookup_entry w pid = Inr a" and "ent_action (w_entry w a) = REPLACEMENT"
    and "\<forall>k \<in> set ids. \<exists>b. lookup_entry w k = Inr b"
  shows "\<exists>k b. k \<in> set ids \<and> first_replacement w ids = Inr (Some b) \<and> lookup_entry w k = Inr b \<and> ent_action (w_entry w b) = REPLACEMENT"
  using assms by (induction ids) (auto, blast+)

definition registered_exchange :: "world \<Rightarrow> exchange \<Rightarrow> nat \<Rightarrow> bool" where
  "registered_exchange w x a \<longleftrightarrow> coord_inv w \<and> dict_get (w_entries w) (fst x) = Some a
     \<and> ident (w_entry w a) = (fst x, fst (snd x), REPLACEMENT, PName (snd (snd x)))"

lemma registered_exchangeD:
  assumes "registered_exchange w (pid, name, replacement) a"
  shows "coord_inv w" and "dict_get (w_entries w) pid = Some a" and "ent_patch_id (w_entry w a) = pid"
    and "ent_module_name (w_entry w a) = name" and "ent_action (w_entry w a) = REPLACEMENT" and "ent_payload (w_entry w a) = PName replacement"
  using assms by (auto simp: registered_exchange_def ident_def)

lemma registered_replacement_for:
  assumes "registered_exchange w (pid, name, replacement) a"
  shows "replacement_for name w = Some (Inr a, w)"
proof -
  note D = registered_exchangeD [OF assms]
  have ids: "module_ids w name = map fst (filter (\<lambda>(k, c). ent_module_name (w_entry w c) = name) (w_entries w))"
    using D(1) by (simp add: coord_inv_def)
  have known: "\<exists>b. lookup_entry w k = Inr b \<and> dict_get (w_entries w) k = Some b \<and> ent_module_name (w_entry w b) = name"
    if "k \<in> set (module_ids w name)" for k
  proof -
    from that obtain b where b: "(k, b) \<in> set (w_entries w)" "ent_module_name (w_entry w b) = name"
      unfolding ids by auto
    then have "lookup_entry w k = Inr b"
      by (intro lookup_registered [OF D(1)])
    then show ?thesis
      using b(2) by (auto simp: lookup_entry_def split: option.splits)
  qed
  have "pid \<in> set (module_ids w name)"
    unfolding ids using map_of_SomeD [OF D(2)] D(4) by (force intro: image_eqI [where x = "(pid, a)"])
  moreover have "lookup_entry w pid = Inr a"
    using D(2) by (simp add: lookup_entry_def)
  ultimately obtain k b where k: "k \<in> set (module_ids w name)" "first_replacement w (module_ids w name) = Inr (Some b)"
    "lookup_entry w k = Inr b" "ent_action (w_entry w b) = REPLACEMENT"
    using first_replacement_Some [of pid "module_ids w name" w a] D(5) known by blast
  then have "b = a"
    using known [OF k(1)] replacement_unique [OF D(1,2,5), of k b] D(4) by auto
  then show ?thesis
    using k(2) by (simp add: replacement_for_def)
qed

lemma registered_find_spec:
  assumes reg: "registered_exchange w (pid, name, replacement) a"
    and st: "entry_status w a \<noteq> None" "entry_status w a \<noteq> Some SKIPPED"
  shows "\<exists>sp. find_spec env name path target w = Some (Inr (Some sp), w) \<and> (sp = replacement_spec name pid \<or> refuses env sp w)"
proof -
  note D = registered_exchangeD [OF reg]
  obtain es where es: "entries_for w name = Inr es" "a \<in> set es"
    using entries_for_mem [OF D(1,2,4)] by blast
  have own: "b = a" if "b \<in> set es" "ent_action (w_entry w b) = REPLACEMENT" for b
  proof -
    from that(1) es(1) obtain k where "(k, b) \<in> set (w_entries w)" "ent_module_name (w_entry w b) = name"
      by (auto simp: entries_for_inv [OF D(1)])
    moreover have "dict_get (w_entries w) k = Some b"
      using D(1) calculation(1) by (simp add: coord_inv_def map_of_is_SomeI)
    ultimately show ?thesis
      using replacement_unique [OF D(1,2,5), of k b] that(2) D(4) by simp
  qed
  show ?thesis
  proof (cases "(target \<noteq> None \<and> find_status w APPLIED es \<noteq> None) \<or> find_status w APPLYING es \<noteq> None \<or> find_status w FAILED es \<noteq> None")
    case True
    then show ?thesis
      using es by (auto simp: find_spec_def split: option.splits)
  next
    case False
    then have "entry_status w a \<noteq> Some APPLYING" "entry_status w a \<noteq> Some FAILED"
      using es(2) unfolding find_status_None by blast+
    moreover obtain s where "entry_status w a = Some s"
      using st(1) by blast
    ultimately have "entry_status w a = Some ARMED \<or> entry_status w a = Some APPLIED"
      using st(2) by (cases s) simp_all
    then have "active_replacement w es \<noteq> None"
      using es(2) D(5) by (auto simp: active_replacement_def find_None_iff)
    then obtain b where b: "active_replacement w es = Some b"
      by blast
    then have "b = a"
      using own by (auto simp: active_replacement_def find_Some_iff)
    then show ?thesis
      using False es b D(3) by (auto simp: find_spec_def replacement_spec_def)
  qed
qed

lemma registered_later:
  assumes reg: "registered_exchange w x a" and reach: "coord_reach env w u" and env: "env_keeps keeps_entries env"
  shows "registered_exchange u x a"
  using entry_permanence.reach_keeps [OF reach env] reg by (auto simp: registered_exchange_def keeps_entries_def)

lemma inventory_canonical: "list_all (\<lambda>x. canonical (fst x)) (concat (enabled_groups ple))"
proof -
  have "list_all (\<lambda>x. canonical (fst x)) (concat (enabled_groups True))"
    by code_simp
  then show ?thesis
    by (cases ple) (simp_all add: enabled_groups_def)
qed

lemma declared_later:
  assumes reg: "registered_exchange w (pid, name, replacement) a" and "entry_status w a \<noteq> None" and "canonical pid"
    and reach: "coord_reach env w u" and env: "env_keeps keeps_entries env" "env_keeps (reg_rel reg_evolves) env"
  shows "entry_status u a \<noteq> None"
proof -
  have "reg_evolves (w_reg w) (w_reg u)"
    using coord_evolution.reach_keeps [OF reach env(2)] by (simp add: reg_rel_def)
  then have "reg_status (w_reg w) pid \<noteq> None \<Longrightarrow> reg_status (w_reg u) pid \<noteq> None"
    using reg_evolvesD status_evolves_declared assms(3) by blast
  then show ?thesis
    using assms(2) registered_exchangeD(3) [OF reg] registered_exchangeD(3) [OF registered_later [OF reg reach env(1)]]
    by (simp add: entry_status_def reg_get_def)
qed

lemma holds_exchange_later:
  assumes hold: "holds_exchange v a (pid, name, replacement)" and inv: "coord_inv v" and pid: "canonical pid"
    and reach: "coord_reach env v u" and env: "env_keeps keeps_entries env" "env_keeps (reg_rel reg_evolves) env"
  shows "replacement_for name u = Some (Inr a, u)" and "ent_payload (w_entry u a) = PName replacement"
    and "entry_status u a \<noteq> Some SKIPPED \<Longrightarrow> \<exists>sp. find_spec env name path target u = Some (Inr (Some sp), u)
       \<and> (sp = replacement_spec name pid \<or> refuses env sp u)"
proof -
  have now: "registered_exchange v (pid, name, replacement) a" "entry_status v a \<noteq> None"
    using hold inv by (auto simp: holds_exchange_def registered_exchange_def ident_def entry_status_def)
  note later = registered_later [OF now(1) reach env(1)]
  show "replacement_for name u = Some (Inr a, u)"
    by (rule registered_replacement_for [OF later])
  show "ent_payload (w_entry u a) = PName replacement"
    by (rule registered_exchangeD(6) [OF later])
  show "\<exists>sp. find_spec env name path target u = Some (Inr (Some sp), u) \<and> (sp = replacement_spec name pid \<or> refuses env sp u)"
    if "entry_status u a \<noteq> Some SKIPPED"
    by (rule registered_find_spec [OF later declared_later [OF now pid reach env] that])
qed

text \<open>
  C9. On a consistent coordinator that knows none of the exchanged modules, with none of them imported
  and every replacement present as a source file, \<open>register_all_module_exchanges\<close> succeeds and imports
  nothing: it returns one registration per inventory entry, in order, and the import of any of the
  canonical modules is then answered by the coordinator's replacement loader.  After any further
  coordinator calls, by any threads, with outside code that keeps entries and lets no patch go back,
  the module still has its replacement, the plugin's module named in the inventory, and its import is
  answered by the replacement loader or, while a patch of it is running, after one failed or on a
  reload, by a loader that refuses; vLLM's own module is found only if the patch was marked skipped.
\<close>

theorem exchanges_intercept_imports:
  assumes inv: "coord_inv w" and free: "list_all (exchange_free w) (concat (enabled_groups ple))"
    and sources: "list_all (has_source root is_file) (concat (enabled_groups ple))"
    and env: "env_keeps keeps_entries env" "env_keeps (reg_rel reg_evolves) env"
  shows "\<exists>regs v. register_all_module_exchanges env tid root is_file ple w = Some (Inr regs, v)
    \<and> w_sys_modules v = w_sys_modules w
    \<and> map ir_module_name regs = map fst (module_exchange_names ple)
    \<and> (\<forall>(name, replacement) \<in> set (module_exchange_names ple). \<exists>a pid.
         (\<forall>path target. find_spec env name path target v = Some (Inr (Some (replacement_spec name pid)), v))
         \<and> (\<forall>u. coord_reach env v u \<longrightarrow> replacement_for name u = Some (Inr a, u) \<and> ent_payload (w_entry u a) = PName replacement
              \<and> (entry_status u a \<noteq> Some SKIPPED \<longrightarrow> (\<forall>path target. \<exists>sp. find_spec env name path target u = Some (Inr (Some sp), u)
                   \<and> (sp = replacement_spec name pid \<or> refuses env sp u)))))"
proof -
  from collect_groups [OF inv inventory_wf inventory_apart free sources, of env tid] obtain regss v
    where run: "collect_op (register_entries env tid root is_file) (enabled_groups ple) w = Some (Inr regss, v)"
      and batch: "batch_done w (concat (enabled_groups ple)) (concat regss) v"
    by blast
  have all: "register_all_module_exchanges env tid root is_file ple w = Some (Inr (concat regss), v)"
    using run validate_entries_ok [OF inventory_wf inventory_apart sources]
    by (simp add: register_all_module_exchanges_def op_defs op_simps)
  have names: "map ir_module_name (concat regss) = map fst (module_exchange_names ple)"
    using batch by (simp add: batch_done_def module_exchange_names_def case_prod_unfold)
  have "\<exists>a pid. (\<forall>path target. find_spec env name path target v = Some (Inr (Some (replacement_spec name pid)), v))
         \<and> (\<forall>u. coord_reach env v u \<longrightarrow> replacement_for name u = Some (Inr a, u) \<and> ent_payload (w_entry u a) = PName replacement
              \<and> (entry_status u a \<noteq> Some SKIPPED \<longrightarrow> (\<forall>path target. \<exists>sp. find_spec env name path target u = Some (Inr (Some sp), u)
                   \<and> (sp = replacement_spec name pid \<or> refuses env sp u))))"
    if "(name, replacement) \<in> set (module_exchange_names ple)" for name replacement
  proof -
    from that obtain pid where x: "(pid, name, replacement) \<in> set (concat (enabled_groups ple))"
      unfolding module_exchange_names_def by (force simp del: set_concat)
    with batch obtain a where a: "holds_exchange v a (pid, name, replacement)"
      unfolding batch_done_def list_all_iff exchange_armed_def by blast
    have "canonical pid"
      using inventory_canonical [of ple] x by (auto simp: list_all_iff simp del: set_concat)
    moreover have "coord_inv v"
      using batch by (simp add: batch_done_def)
    ultimately show ?thesis
      using holds_exchange_later [OF a _ _ _ env] holds_exchange_spec(1) [OF a] by blast
  qed
  with all names batch show ?thesis
    unfolding batch_done_def by blast
qed

definition bare_world :: world where
  "bare_world = empty_world 0 [SelfFinder] [(''vllm'', ModuleObj 0)] plain_attrs"

lemma bare_world_free: "list_all (exchange_free bare_world) (concat (enabled_groups ple))"
proof -
  have "list_all (\<lambda>x. take 5 (fst (snd x)) = ''vllm.'') (concat (enabled_groups ple))"
    using inventory_wf [of ple] by (rule list.pred_mono_strong) (simp add: exchange_wf_def case_prod_unfold)
  then show ?thesis
    by (rule list.pred_mono_strong)
      (auto simp: exchange_free_def bare_world_def empty_world_def empty_registry_def module_ids_def reg_get_def)
qed

theorem exchanges_intercept_imports_witness:
  "\<exists>regs v. register_all_module_exchanges demo_env 1 ''/opt/vllm_hcu'' (\<lambda>_. True) True bare_world = Some (Inr regs, v)
    \<and> w_sys_modules v = w_sys_modules bare_world
    \<and> map ir_module_name regs = map fst (module_exchange_names True)
    \<and> (\<forall>(name, replacement) \<in> set (module_exchange_names True). \<exists>a pid.
         (\<forall>path target. find_spec demo_env name path target v = Some (Inr (Some (replacement_spec name pid)), v))
         \<and> (\<forall>u. coord_reach demo_env v u \<longrightarrow> replacement_for name u = Some (Inr a, u) \<and> ent_payload (w_entry u a) = PName replacement
              \<and> (entry_status u a \<noteq> Some SKIPPED \<longrightarrow> (\<forall>path target. \<exists>sp. find_spec demo_env name path target u = Some (Inr (Some sp), u)
                   \<and> (sp = replacement_spec name pid \<or> refuses demo_env sp u)))))"
proof (rule exchanges_intercept_imports)
  show "coord_inv bare_world"
    by (simp only: bare_world_def coord_inv_empty)
  show "list_all (has_source ''/opt/vllm_hcu'' (\<lambda>_. True)) (concat (enabled_groups True))"
    by (simp add: list_all_iff has_source_def case_prod_unfold)
qed (auto intro!: demo_env_keeps bare_world_free simp: entry_permanence.refl_R reg_rel_def evolution.refl_R)

text \<open>
  C10. The inventory is checked as a whole before anything is registered: when some enabled replacement
  has no source file, \<open>register_all_module_exchanges\<close> raises \<open>ModuleNotFoundError\<close> and neither the
  coordinator nor the registry has changed.
\<close>

theorem missing_source_changes_nothing:
  assumes "\<not> list_all (has_source root is_file) (concat (enabled_groups ple))"
  shows "\<exists>msg. register_all_module_exchanges env tid root is_file ple w = Some (raise ModuleNotFoundError msg, w)"
proof -
  obtain msg where "validate_from root is_file (concat (enabled_groups ple)) [] [] = raise ModuleNotFoundError msg"
    using validate_from_inventory [OF inventory_wf [of ple] inventory_apart, of "[]" "[]" root is_file] assms by auto
  then show ?thesis
    by (simp add: register_all_module_exchanges_def validate_entries_def op_defs op_simps)
qed

theorem missing_source_changes_nothing_witness:
  "\<exists>msg. register_all_module_exchanges demo_env 1 ''/opt/vllm_hcu'' (\<lambda>p. p \<noteq> ''/opt/vllm_hcu/models/step5_vl.py''
        \<and> p \<noteq> ''/opt/vllm_hcu/models/step5_vl/__init__.py'') False bare_world
      = Some (raise ModuleNotFoundError msg, bare_world)"
  by (rule missing_source_changes_nothing) code_simp

end
