(* ===== verification/Interval_Tiling.thy ===== *)
theory Interval_Tiling
  imports Py_Runtime
begin

text \<open>
  The contract shared by every routine that cuts \<open>0 ..< total\<close> into consecutive half-open
  intervals: token chunks of the context-parallel layout, layer shards and pipeline stages.
\<close>

locale interval_tiling =
  fixes valid :: "'c \<Rightarrow> bool" and parts :: "'c \<Rightarrow> nat" and total :: "'c \<Rightarrow> nat"
    and lo :: "'c \<Rightarrow> nat \<Rightarrow> nat" and hi :: "'c \<Rightarrow> nat \<Rightarrow> nat"
  assumes first_lo: "valid c \<Longrightarrow> 0 < parts c \<Longrightarrow> lo c 0 = 0"
    and lo_hi: "valid c \<Longrightarrow> i < parts c \<Longrightarrow> lo c i \<le> hi c i"
    and next_lo: "valid c \<Longrightarrow> Suc i < parts c \<Longrightarrow> lo c (Suc i) = hi c i"
    and last_hi: "valid c \<Longrightarrow> 0 < parts c \<Longrightarrow> hi c (parts c - 1) = total c"
    and some_part: "valid c \<Longrightarrow> 0 < parts c"
begin

lemma prefix_cells:
  "valid c \<Longrightarrow> Suc k \<le> parts c \<Longrightarrow> concat (map (\<lambda>i. [lo c i..<hi c i]) [0..<Suc k]) = [0..<hi c k]"
proof (induction k)
  case 0
  then show ?case using first_lo [of c] by simp
next
  case (Suc k)
  have "concat (map (\<lambda>i. [lo c i..<hi c i]) [0..<Suc (Suc k)]) = [0..<hi c k] @ [lo c (Suc k)..<hi c (Suc k)]"
    using Suc by simp
  also have "\<dots> = [0..<hi c (Suc k)]"
  proof -
    have "lo c (Suc k) = hi c k" "lo c (Suc k) \<le> hi c (Suc k)"
      using Suc.prems by (auto intro: next_lo lo_hi)
    then show ?thesis using upt_add_eq_append [of 0 "hi c k" "hi c (Suc k) - hi c k"] by simp
  qed
  finally show ?case .
qed

lemma cells_all: "valid c \<Longrightarrow> concat (map (\<lambda>i. [lo c i..<hi c i]) [0..<parts c]) = [0..<total c]"
  using prefix_cells [of c "parts c - 1"] some_part [of c] last_hi [of c] by simp

lemma hi_mono: "valid c \<Longrightarrow> i \<le> j \<Longrightarrow> j < parts c \<Longrightarrow> hi c i \<le> hi c j"
proof (induction j)
  case (Suc j)
  have "hi c j \<le> hi c (Suc j)"
    using Suc.prems next_lo [of c j] lo_hi [of c "Suc j"] by simp
  with Suc show ?case by (cases "i = Suc j") auto
qed simp

lemma hi_total: "valid c \<Longrightarrow> i < parts c \<Longrightarrow> hi c i \<le> total c"
  using hi_mono [of c i "parts c - 1"] last_hi [of c] by simp

lemma part_before: "valid c \<Longrightarrow> j < i \<Longrightarrow> i < parts c \<Longrightarrow> hi c j \<le> lo c i"
  using hi_mono [of c j "i - 1"] next_lo [of c "i - 1"] by simp

text \<open>Every point lies in exactly one part.\<close>

lemma unique_part:
  assumes "valid c" and "x < total c"
  shows "\<exists>!i. i < parts c \<and> lo c i \<le> x \<and> x < hi c i"
proof -
  have "x \<in> set (concat (map (\<lambda>i. [lo c i..<hi c i]) [0..<parts c]))"
    using cells_all [OF assms(1)] assms(2) by simp
  then obtain i where i: "i < parts c" "lo c i \<le> x" "x < hi c i" by fastforce
  have "j = i" if "j < parts c" "lo c j \<le> x" "x < hi c j" for j
    using part_before [OF assms(1), of i j] part_before [OF assms(1), of j i] i that
    by (cases j i rule: linorder_cases) auto
  with i show ?thesis by blast
qed

lemma sizes_sum: "valid c \<Longrightarrow> (\<Sum>i<parts c. hi c i - lo c i) = total c"
proof -
  assume v: "valid c"
  have "total c = length (concat (map (\<lambda>i. [lo c i..<hi c i]) [0..<parts c]))"
    using cells_all [OF v] by simp
  also have "\<dots> = (\<Sum>i<parts c. hi c i - lo c i)"
    by (simp add: length_concat comp_def interv_sum_list_conv_sum_set_nat atLeast0LessThan)
  finally show ?thesis by simp
qed

end

end
