(* ===== verification/Pcp_Layout.thy ===== *)
theory Pcp_Layout
  imports Interval_Tiling
begin

text \<open>
  The DualChunkSwap token layout of prefill context parallelism,
  \<open>src/vllm_hcu/v1/pcp_manager.py\<close> up to \<open>_build_batch_layout\<close>.  Token counts and
  positions are natural numbers (the arrays hold counts that the scheduler produced); the
  one routine that validates signed arguments, \<open>rank_segments\<close>, takes integers.  An
  \<open>input_batch\<close> holds the per-request arrays of \<open>InputBatch\<close>; \<open>wf_batch\<close> says that they have
  one entry per request and that \<open>query_start_loc\<close> is their running sum, which is how the
  scheduler builds them.
\<close>

section \<open>Data\<close>

record rank_segment =
  rs_start :: nat
  rs_stop :: nat

definition rs_num_tokens :: "rank_segment \<Rightarrow> nat" where
  "rs_num_tokens s = rs_stop s - rs_start s"

record batch_segment =
  bs_req :: nat
  bs_gstart :: nat
  bs_gstop :: nat
  bs_lstart :: nat
  bs_lstop :: nat
  bs_padding :: nat

definition num_actual_tokens :: "batch_segment \<Rightarrow> nat" where
  "num_actual_tokens s = bs_gstop s - bs_gstart s"

definition seg_num_tokens :: "batch_segment \<Rightarrow> nat" where
  "seg_num_tokens s = num_actual_tokens s + bs_padding s"

record input_batch =
  ib_req_ids :: "string list"
  ib_num_reqs :: nat
  ib_num_reqs_after_padding :: nat
  ib_idx_mapping :: "nat list"
  ib_expanded_idx_mapping :: "nat list"
  ib_expanded_local_pos :: "nat list"
  ib_num_scheduled_tokens :: "nat list"
  ib_num_tokens :: nat
  ib_num_tokens_after_padding :: nat
  ib_num_draft_tokens :: nat
  ib_num_draft_tokens_per_req :: "nat list option"
  ib_query_start_loc :: "nat list"
  ib_seq_lens :: "nat list"
  ib_seq_lens_upper :: "nat list"
  ib_num_computed_tokens :: "nat list"
  ib_prefill_len :: "nat list"
  ib_num_computed_prefill :: "nat list"
  ib_is_prefilling :: "bool list"
  ib_has_prefill :: bool
  ib_input_ids :: "int list"
  ib_positions :: "nat list"
  ib_is_padding :: "bool list"
  ib_logits_indices :: "nat list"
  ib_cu_num_logits :: "nat list"

record pcp_config =
  pcp_size :: nat
  pcp_rank :: nat
  use_mla :: bool
  max_local_reqs :: nat
  max_local_tokens :: nat
  dcp_world_size :: nat
  dcp_rank :: nat
  cp_interleave :: nat

section \<open>DualChunkSwap chunks\<close>

definition chunk_size :: "nat \<Rightarrow> nat \<Rightarrow> nat" where
  "chunk_size len n = (len + 2 * n - 1) div (2 * n)"

definition chunk_segment :: "nat \<Rightarrow> nat \<Rightarrow> nat \<Rightarrow> rank_segment" where
  "chunk_segment len n chunk_idx =
     (let start = min (chunk_idx * chunk_size len n) len
      in \<lparr>rs_start = start, rs_stop = min (start + chunk_size len n) len\<rparr>)"

definition dual_chunks :: "nat \<Rightarrow> nat \<Rightarrow> nat \<Rightarrow> rank_segment \<times> rank_segment" where
  "dual_chunks len rank n =
     (chunk_segment len n rank, chunk_segment len n (2 * n - 1 - rank))"

definition rank_segments :: "int \<Rightarrow> int \<Rightarrow> int \<Rightarrow> (rank_segment \<times> rank_segment) result" where
  "rank_segments len rank n =
     (if len < 0 then raise ValueError ''token length must be non-negative''
      else if n \<le> 0 \<or> \<not> (0 \<le> rank \<and> rank < n)
      then raise ValueError ''invalid PCP rank or size''
      else Inr (dual_chunks (nat len) (nat rank) (nat n)))"

text \<open>\<open>sum(segment.num_tokens for segment in self.rank_segments(...))\<close>\<close>

definition rank_tokens :: "nat \<Rightarrow> nat \<Rightarrow> nat \<Rightarrow> nat" where
  "rank_tokens n rank len =
     (let (x, y) = dual_chunks len rank n in rs_num_tokens x + rs_num_tokens y)"

definition widest_rank :: "nat \<Rightarrow> nat \<Rightarrow> nat" where
  "widest_rank n len = Max (set (map (\<lambda>rank. rank_tokens n rank len) [0..<n]))"

definition get_num_tokens_for_dispatch :: "pcp_config \<Rightarrow> nat list \<Rightarrow> bool list \<Rightarrow> nat" where
  "get_num_tokens_for_dispatch cfg scheduled prefilling =
     (if use_mla cfg
      then (\<Sum>(len, prefill) \<leftarrow> zip scheduled prefilling.
              if \<not> prefill then len else widest_rank (pcp_size cfg) len)
      else fold (\<lambda>rank largest. max largest
              (\<Sum>(len, prefill) \<leftarrow> zip scheduled prefilling.
                 if prefill then rank_tokens (pcp_size cfg) rank len else len))
             [0..<pcp_size cfg] 0)"

section \<open>Rows of one rank\<close>

definition is_pure_prefill :: "input_batch \<Rightarrow> batch_segment \<Rightarrow> bool" where
  "is_pure_prefill b s \<longleftrightarrow>
     ib_is_prefilling b ! bs_req s \<and>
     int (ib_num_computed_tokens b ! bs_req s)
       + (int (bs_gstart s) - int (ib_query_start_loc b ! bs_req s)) = 0"

fun relocate :: "nat \<Rightarrow> batch_segment list \<Rightarrow> batch_segment list" where
  "relocate offset [] = []"
| "relocate offset (s # segs) =
     s\<lparr>bs_lstart := offset, bs_lstop := offset + seg_num_tokens s\<rparr>
       # relocate (offset + seg_num_tokens s) segs"

text \<open>A stable sort: rows that are not pure prefill first.\<close>

definition reorder_segments :: "input_batch \<Rightarrow> batch_segment list \<Rightarrow> batch_segment list" where
  "reorder_segments b segs = relocate 0 (sort_key (is_pure_prefill b) segs)"

fun emit_segments :: "nat \<Rightarrow> nat \<Rightarrow> rank_segment list \<Rightarrow> nat \<Rightarrow> batch_segment list \<times> nat" where
  "emit_segments req global_start [] local_offset = ([], local_offset)"
| "emit_segments req global_start (s # ss) local_offset =
     (if rs_num_tokens s = 0 then emit_segments req global_start ss local_offset
      else (let seg = \<lparr>bs_req = req, bs_gstart = global_start + rs_start s,
                        bs_gstop = global_start + rs_stop s, bs_lstart = local_offset,
                        bs_lstop = local_offset + rs_num_tokens s, bs_padding = 0\<rparr>;
                (segs, offset) = emit_segments req global_start ss (local_offset + rs_num_tokens s)
            in (seg # segs, offset)))"

definition request_segments :: "nat \<Rightarrow> nat \<Rightarrow> input_batch \<Rightarrow> nat \<Rightarrow> nat \<Rightarrow> rank_segment list" where
  "request_segments n rank b req query_len =
     (if ib_is_prefilling b ! req
      then (let (x, y) = dual_chunks query_len rank n in [x, y])
      else [\<lparr>rs_start = 0, rs_stop = query_len\<rparr>])"

fun raw_segments :: "nat \<Rightarrow> nat \<Rightarrow> input_batch \<Rightarrow> (nat \<times> nat) list \<Rightarrow> nat \<Rightarrow> batch_segment list" where
  "raw_segments n rank b [] local_offset = []"
| "raw_segments n rank b ((req, query_len) # rest) local_offset =
     (if query_len = 0 then raw_segments n rank b rest local_offset
      else (let (segs, offset) = emit_segments req (ib_query_start_loc b ! req)
                  (request_segments n rank b req query_len) local_offset
            in segs @ raw_segments n rank b rest offset))"

definition segments_for_rank :: "nat \<Rightarrow> nat \<Rightarrow> input_batch \<Rightarrow> batch_segment list" where
  "segments_for_rank n rank b =
     reorder_segments b (raw_segments n rank b (List.enumerate 0 (ib_num_scheduled_tokens b)) 0)"

section \<open>Equal shapes for MLA collectives\<close>

definition request_rows :: "nat \<Rightarrow> batch_segment list \<Rightarrow> batch_segment list" where
  "request_rows req segs = filter (\<lambda>s. bs_req s = req) segs"

definition actual_tokens :: "nat \<Rightarrow> batch_segment list \<Rightarrow> nat" where
  "actual_tokens req segs = (\<Sum>s \<leftarrow> request_rows req segs. num_actual_tokens s)"

definition padding_row :: "nat \<Rightarrow> nat \<Rightarrow> nat \<Rightarrow> batch_segment" where
  "padding_row req global_start tokens =
     \<lparr>bs_req = req, bs_gstart = global_start, bs_gstop = global_start, bs_lstart = 0, bs_lstop = 0,
      bs_padding = tokens\<rparr>"

text \<open>The rows appended to one rank; the code asserts that there is room for the missing tokens.\<close>

definition append_padding ::
  "nat \<Rightarrow> nat \<Rightarrow> nat \<Rightarrow> nat \<Rightarrow> batch_segment list \<Rightarrow> batch_segment list result" where
  "append_padding req global_start target_tokens target_rows segs =
     (let missing_tokens = target_tokens - actual_tokens req segs;
          missing_rows = target_rows - length (request_rows req segs)
      in if missing_rows < (if missing_tokens > 0 then 1 else 0) then raise AssertionError []
         else Inr (segs @ map (\<lambda>row. padding_row req global_start (if row = 0 then missing_tokens else 0))
                            [0..<missing_rows]))"

definition pad_request ::
  "bool \<Rightarrow> input_batch \<Rightarrow> nat \<times> nat \<Rightarrow> batch_segment list list \<Rightarrow> batch_segment list list result" where
  "pad_request mla b rq segments_by_rank =
     (let (req, query_len) = rq in
      if \<not> mla \<or> query_len = 0 \<or> \<not> ib_is_prefilling b ! req then Inr segments_by_rank
      else let actual = map (actual_tokens req) segments_by_rank;
               target_tokens = Max (set actual)
           in if Min (set actual) = target_tokens then Inr segments_by_rank
              else let row_counts = map (\<lambda>segs. length (request_rows req segs)) segments_by_rank;
                       most_rows = Max (set row_counts);
                       target_rows = (if list_ex (\<lambda>(count, rows). count < target_tokens \<and> rows = most_rows)
                                          (zip actual row_counts)
                                      then most_rows + 1 else most_rows)
                   in map_result (append_padding req (ib_query_start_loc b ! req) target_tokens target_rows)
                        segments_by_rank)"

section \<open>Index arrays\<close>

text \<open>
  \<open>hidden_restore_idx\<close> is allocated uninitialised (\<open>np.empty\<close>); an entry that was never
  written is \<open>None\<close>.
\<close>

record index_arrays =
  gather_idx :: "nat list"
  write_mask :: "bool list"
  restore_idx :: "nat option list"

text \<open>Assignment to a slice that lies inside the array.\<close>

definition put_slice :: "nat \<Rightarrow> 'a list \<Rightarrow> 'a list \<Rightarrow> 'a list" where
  "put_slice i ys xs = take i xs @ ys @ drop (i + length ys) xs"

definition write_segment ::
  "input_batch \<Rightarrow> nat \<Rightarrow> nat \<Rightarrow> batch_segment \<Rightarrow> index_arrays \<Rightarrow> index_arrays" where
  "write_segment b padded rank s arr =
     (let n = num_actual_tokens s; dst = rank * padded + bs_lstart s
      in if n = 0 then arr
         else let arr1 = arr\<lparr>gather_idx := put_slice dst [bs_gstart s..<bs_gstop s] (gather_idx arr)\<rparr>;
                  is_decode = (\<not> ib_is_prefilling b ! bs_req s)
              in if \<not> is_decode \<or> rank = 0
                 then arr1\<lparr>write_mask := put_slice dst (replicate n True) (write_mask arr1),
                           restore_idx := put_slice (bs_gstart s) (map Some [dst..<dst + n]) (restore_idx arr1)\<rparr>
                 else arr1)"

definition index_arrays_of :: "input_batch \<Rightarrow> nat \<Rightarrow> batch_segment list list \<Rightarrow> index_arrays" where
  "index_arrays_of b padded segments_by_rank =
     fold (\<lambda>(rank, segs). fold (write_segment b padded rank) segs)
       (List.enumerate 0 segments_by_rank)
       \<lparr>gather_idx = replicate (padded * length segments_by_rank) 0,
        write_mask = replicate (padded * length segments_by_rank) False,
        restore_idx = replicate (ib_num_tokens b) None\<rparr>"

record pcp_layout =
  lay_segments :: "batch_segment list list"
  lay_per_rank :: "nat list"
  lay_padded :: nat
  lay_arrays :: index_arrays

definition err_dispatch_padding :: "nat \<Rightarrow> nat \<Rightarrow> exn" where
  "err_dispatch_padding given required = Exn PatchCompatibilityError
     (''official PCP dispatch padding is smaller than the HCU rank-local batch: '' @
      str_nat given @ '' < '' @ str_nat required)"

definition padded_segments :: "pcp_config \<Rightarrow> input_batch \<Rightarrow> batch_segment list list result" where
  "padded_segments cfg b =
     and_then (fold_result (pad_request (use_mla cfg) b) (List.enumerate 0 (ib_num_scheduled_tokens b))
         (map (\<lambda>rank. segments_for_rank (pcp_size cfg) rank b) [0..<pcp_size cfg]))
       (\<lambda>segs. Inr (map (reorder_segments b) segs))"

definition build_batch_layout :: "pcp_config \<Rightarrow> input_batch \<Rightarrow> nat option \<Rightarrow> pcp_layout result" where
  "build_batch_layout cfg b padded_num_tokens =
     and_then (padded_segments cfg b) (\<lambda>segments_by_rank.
       let per_rank = map (\<lambda>segs. \<Sum>s \<leftarrow> segs. seg_num_tokens s) segments_by_rank;
           required = foldr max per_rank 0;
           layout = (\<lambda>padded. \<lparr>lay_segments = segments_by_rank, lay_per_rank = per_rank,
                       lay_padded = padded, lay_arrays = index_arrays_of b padded segments_by_rank\<rparr>)
       in case padded_num_tokens of
            None \<Rightarrow> Inr (layout required)
          | Some padded \<Rightarrow>
              if padded < required then Inl (err_dispatch_padding padded required)
              else Inr (layout padded))"

section \<open>Well-formed batches\<close>

definition wf_batch :: "input_batch \<Rightarrow> bool" where
  "wf_batch b \<longleftrightarrow>
     length (ib_is_prefilling b) = length (ib_num_scheduled_tokens b) \<and>
     length (ib_num_computed_tokens b) = length (ib_num_scheduled_tokens b) \<and>
     ib_query_start_loc b =
       map (\<lambda>i. sum_list (take i (ib_num_scheduled_tokens b))) [0..<Suc (length (ib_num_scheduled_tokens b))] \<and>
     ib_num_tokens b = sum_list (ib_num_scheduled_tokens b)"

end
