(* ===== verification/Pcp_Correct.thy ===== *)
theory Pcp_Correct
  imports Pcp_Layout
begin

text \<open>
  Correctness of the context-parallel layout: the chunks tile every request, the rows of all
  ranks together own every token exactly once, the index arrays are inverse to each other,
  and the padded widths agree across ranks.
\<close>

section \<open>Chunks\<close>

lemma chunk_size_covers: "0 < n \<Longrightarrow> len \<le> 2 * n * chunk_size len n"
proof -
  assume n: "0 < n"
  have "len + 2 * n - 1 < 2 * n * Suc (chunk_size len n)"
    unfolding chunk_size_def using dividend_less_times_div [of "2 * n" "len + 2 * n - 1"] n by simp
  then show ?thesis by simp
qed

interpretation chunks: interval_tiling "\<lambda>(len, n). 0 < n" "\<lambda>(len, n). 2 * n" fst
  "\<lambda>(len, n) i. rs_start (chunk_segment len n i)" "\<lambda>(len, n) i. rs_stop (chunk_segment len n i)"
proof unfold_locales
  fix c :: "nat \<times> nat"
  obtain len n where c: "c = (len, n)" by (cases c)
  assume "case c of (len, n) \<Rightarrow> 0 < n"
  then have n: "0 < n" by (simp add: c)
  have "len \<le> (2 * n - 1) * chunk_size len n + chunk_size len n"
    using chunk_size_covers [OF n, of len] n by (simp add: algebra_simps diff_mult_distrib)
  then show "(case c of (len, n) \<Rightarrow> \<lambda>i. rs_stop (chunk_segment len n i)) ((case c of (len, n) \<Rightarrow> 2 * n) - 1) = fst c"
    by (simp add: c chunk_segment_def Let_def)
qed (auto simp: chunk_segment_def Let_def split: prod.splits)

text \<open>The positions of a half-open interval, as a multiset that sums can count.\<close>

definition cells :: "nat \<Rightarrow> nat \<Rightarrow> nat multiset" where
  "cells a z = mset [a..<z]"

lemma cells_empty [simp]: "z \<le> a \<Longrightarrow> cells a z = {#}"
  by (simp add: cells_def)

lemma cells_append: "a \<le> m \<Longrightarrow> m \<le> z \<Longrightarrow> cells a m + cells m z = cells a z"
  unfolding cells_def mset_append [symmetric]
  by (metis le_add_diff_inverse upt_add_eq_append)

lemma cells_shift: "cells (k + a) (k + z) = image_mset ((+) k) (cells a z)"
  unfolding cells_def mset_map [symmetric] by (rule arg_cong [of _ _ mset]) (simp add: list_eq_iff_nth_eq)

abbreviation chunk_cells :: "nat \<Rightarrow> nat \<Rightarrow> nat \<Rightarrow> nat multiset" where
  "chunk_cells len n i \<equiv> cells (rs_start (chunk_segment len n i)) (rs_stop (chunk_segment len n i))"

lemma sum_pairs: "(\<Sum>r<n. f r + f (2 * n - 1 - r)) = (\<Sum>i<2 * n. f i)" for f :: "nat \<Rightarrow> 'a::comm_monoid_add"
proof -
  have "(\<Sum>r<n. f (2 * n - 1 - r)) = (\<Sum>i\<in>{n..<2 * n}. f i)"
    by (rule sum.reindex_bij_witness [where i = "\<lambda>i. 2 * n - 1 - i" and j = "\<lambda>r. 2 * n - 1 - r"]) auto
  moreover have "(\<Sum>i<2 * n. f i) = (\<Sum>i<n. f i) + (\<Sum>i\<in>{n..<2 * n}. f i)"
    using sum.atLeastLessThan_concat [of 0 n "2 * n" f] by (simp add: atLeast0LessThan)
  ultimately show ?thesis by (simp add: sum.distrib)
qed

lemma mset_concat_upt: "mset (concat (map f [0..<n])) = (\<Sum>i<n. mset (f i))"
  by (induction n) (simp_all add: add.commute)

lemma dual_chunks_cover:
  "0 < n \<Longrightarrow> (\<Sum>r<n. chunk_cells len n r + chunk_cells len n (2 * n - 1 - r)) = cells 0 len"
  using chunks.cells_all [of "(len, n)"] by (subst sum_pairs) (simp add: cells_def mset_concat_upt [symmetric] del: mset_upt)

section \<open>Ownership of tokens\<close>

definition seg_cells :: "batch_segment \<Rightarrow> nat multiset" where
  "seg_cells s = cells (bs_gstart s) (bs_gstop s)"

text \<open>The rank writes the token's KV entry and returns its hidden state.\<close>

definition owns :: "input_batch \<Rightarrow> nat \<Rightarrow> batch_segment \<Rightarrow> bool" where
  "owns b rank s \<longleftrightarrow> ib_is_prefilling b ! bs_req s \<or> rank = 0"

definition owned_cells :: "input_batch \<Rightarrow> nat \<Rightarrow> batch_segment list \<Rightarrow> nat multiset" where
  "owned_cells b rank segs = (\<Sum>s \<leftarrow> segs. if owns b rank s then seg_cells s else {#})"

lemma owned_cells_simps [simp]:
  "owned_cells b rank [] = {#}"
  "owned_cells b rank (s # segs) = (if owns b rank s then seg_cells s else {#}) + owned_cells b rank segs"
  "owned_cells b rank (segs @ segs') = owned_cells b rank segs + owned_cells b rank segs'"
  by (simp_all add: owned_cells_def)

lemma sum_list_perm: "mset xs = mset ys \<Longrightarrow> sum_list (map f xs) = sum_list (map f ys)"
  for f :: "'a \<Rightarrow> 'b::comm_monoid_add"
  by (metis mset_map sum_mset_sum_list)

lemma relocate_map:
  assumes "\<And>s a z. f (s\<lparr>bs_lstart := a, bs_lstop := z\<rparr>) = f s"
  shows "map f (relocate off segs) = map f segs"
  by (induction segs arbitrary: off) (auto simp: assms)

lemma reorder_sum:
  fixes f :: "batch_segment \<Rightarrow> 'b::comm_monoid_add"
  assumes "\<And>s a z. f (s\<lparr>bs_lstart := a, bs_lstop := z\<rparr>) = f s"
  shows "sum_list (map f (reorder_segments b segs)) = sum_list (map f segs)"
proof -
  have "sum_list (map f (reorder_segments b segs)) = sum_list (map f (sort_key (is_pure_prefill b) segs))"
    unfolding reorder_segments_def by (simp add: relocate_map [of f, OF assms])
  also have "\<dots> = sum_list (map f segs)"
    by (rule sum_list_perm) simp
  finally show ?thesis .
qed

lemma reorder_owned: "owned_cells b rank (reorder_segments b' segs) = owned_cells b rank segs"
  unfolding owned_cells_def by (rule reorder_sum) (simp add: owns_def seg_cells_def)

lemma emit_owned:
  "owned_cells b rank (fst (emit_segments req g ss off)) =
     (if ib_is_prefilling b ! req \<or> rank = 0
      then image_mset ((+) g) (\<Sum>s \<leftarrow> ss. cells (rs_start s) (rs_stop s)) else {#})"
  by (induction ss arbitrary: off)
    (auto simp: Let_def split_beta owns_def seg_cells_def rs_num_tokens_def cells_shift)

lemma image_mset_sum: "image_mset f (\<Sum>i\<in>A. g i) = (\<Sum>i\<in>A. image_mset f (g i))"
  by (induction A rule: infinite_finite_induct) auto

text \<open>The tokens of one request that one rank owns.\<close>

definition request_cells :: "nat \<Rightarrow> input_batch \<Rightarrow> nat \<Rightarrow> nat \<times> nat \<Rightarrow> nat multiset" where
  "request_cells n b rank = (\<lambda>(req, len).
     if ib_is_prefilling b ! req
     then image_mset ((+) (ib_query_start_loc b ! req)) (chunk_cells len n rank + chunk_cells len n (2 * n - 1 - rank))
     else if rank = 0 then image_mset ((+) (ib_query_start_loc b ! req)) (cells 0 len) else {#})"

lemma empty_chunks [simp]: "rs_start (chunk_segment 0 n i) = 0" "rs_stop (chunk_segment 0 n i) = 0"
  by (simp_all add: chunk_segment_def Let_def)

lemma request_segments_cells:
  "(if ib_is_prefilling b ! req \<or> rank = 0
    then image_mset ((+) (ib_query_start_loc b ! req))
           (\<Sum>s \<leftarrow> request_segments n rank b req len. cells (rs_start s) (rs_stop s)) else {#})
   = request_cells n b rank (req, len)"
  by (simp add: request_cells_def request_segments_def dual_chunks_def)

lemma request_cells_zero [simp]: "request_cells n b rank (req, 0) = {#}"
  by (simp add: request_cells_def)

lemma raw_owned: "owned_cells b rank (raw_segments n rank b ps off) = (\<Sum>p \<leftarrow> ps. request_cells n b rank p)"
proof (induction ps arbitrary: off)
  case (Cons p ps)
  obtain req len where p: "p = (req, len)" by (cases p)
  obtain segs off' where e: "emit_segments req (ib_query_start_loc b ! req)
      (request_segments n rank b req len) off = (segs, off')" by fastforce
  have "owned_cells b rank segs = request_cells n b rank (req, len)"
    using emit_owned [of b rank req "ib_query_start_loc b ! req" "request_segments n rank b req len" off]
    unfolding request_segments_cells by (simp add: e)
  then show ?case
    using Cons.IH by (cases "len = 0") (simp_all add: p e)
qed simp

lemma request_cells_cover:
  assumes "0 < n"
  shows "(\<Sum>rank<n. request_cells n b rank (req, len))
           = cells (ib_query_start_loc b ! req) (ib_query_start_loc b ! req + len)"
proof -
  have decode: "(\<Sum>rank<n. if rank = 0 then X else {#}) = X" for X :: "nat multiset"
    using assms by (simp add: sum.delta)
  show ?thesis
  proof (cases "ib_is_prefilling b ! req")
    case True
    then show ?thesis
      using dual_chunks_cover [OF assms, of len] cells_shift [of "ib_query_start_loc b ! req" 0 len]
      by (simp add: request_cells_def image_mset_sum [symmetric] del: image_mset_union)
  next
    case False
    then show ?thesis
      using cells_shift [of "ib_query_start_loc b ! req" 0 len] by (simp add: request_cells_def decode)
  qed
qed

lemma enumerate_upt: "List.enumerate 0 xs = map (\<lambda>i. (i, xs ! i)) [0..<length xs]"
  by (rule nth_equalityI) (auto simp: nth_enumerate_eq)

lemma wf_query_start:
  "wf_batch b \<Longrightarrow> i \<le> length (ib_num_scheduled_tokens b) \<Longrightarrow>
     ib_query_start_loc b ! i = sum_list (take i (ib_num_scheduled_tokens b))"
  by (simp add: wf_batch_def del: upt_Suc)

lemma requests_tile:
  assumes "wf_batch b"
  shows "(\<Sum>(req, len) \<leftarrow> List.enumerate 0 (ib_num_scheduled_tokens b).
            cells (ib_query_start_loc b ! req) (ib_query_start_loc b ! req + len)) = cells 0 (ib_num_tokens b)"
proof -
  let ?ls = "ib_num_scheduled_tokens b"
  have "k \<le> length ?ls \<Longrightarrow>
      (\<Sum>i\<leftarrow>[0..<k]. cells (ib_query_start_loc b ! i) (ib_query_start_loc b ! i + ?ls ! i))
        = cells 0 (sum_list (take k ?ls))" for k
    by (induction k) (auto simp: wf_query_start [OF assms] take_Suc_conv_app_nth cells_append)
  from this [of "length ?ls"] show ?thesis
    using assms by (simp add: enumerate_upt comp_def wf_batch_def)
qed

lemma sum_list_swap: "(\<Sum>i\<in>A. \<Sum>x\<leftarrow>xs. f i x) = (\<Sum>x\<leftarrow>xs. \<Sum>i\<in>A. f i x)"
  for f :: "'i \<Rightarrow> 'x \<Rightarrow> 'b::comm_monoid_add"
  by (induction xs) (simp_all add: sum.distrib)

lemma raw_segments_own_all:
  assumes "wf_batch b" and "0 < n"
  shows "(\<Sum>rank<n. owned_cells b rank (segments_for_rank n rank b)) = cells 0 (ib_num_tokens b)"
proof -
  have "(\<Sum>rank<n. owned_cells b rank (segments_for_rank n rank b))
      = (\<Sum>p \<leftarrow> List.enumerate 0 (ib_num_scheduled_tokens b). \<Sum>rank<n. request_cells n b rank p)"
    by (simp add: segments_for_rank_def reorder_owned raw_owned sum_list_swap)
  also have "\<dots> = (\<Sum>(req, len) \<leftarrow> List.enumerate 0 (ib_num_scheduled_tokens b).
            cells (ib_query_start_loc b ! req) (ib_query_start_loc b ! req + len))"
    using request_cells_cover [OF assms(2), of b] by (intro arg_cong [of _ _ sum_list] map_cong) auto
  finally show ?thesis by (simp add: requests_tile [OF assms(1)])
qed

section \<open>Padding rows\<close>

text \<open>Rows without tokens of their own were appended for one request, \<open>d\<close> padding tokens in all.\<close>

definition padded_by :: "nat \<Rightarrow> nat \<Rightarrow> batch_segment list \<Rightarrow> batch_segment list \<Rightarrow> bool" where
  "padded_by req d segs segs' \<longleftrightarrow>
     (\<exists>pads. segs' = segs @ pads \<and> (\<forall>p \<in> set pads. bs_req p = req \<and> bs_gstop p = bs_gstart p)
        \<and> (\<Sum>p \<leftarrow> pads. seg_num_tokens p) = d)"

lemma padded_by_refl: "padded_by req 0 segs segs"
  by (simp add: padded_by_def)

lemma padding_rows_sum:
  "(\<Sum>row \<leftarrow> [0..<k]. seg_num_tokens (padding_row req g (if row = 0 then d else 0))) = (if k = 0 then 0 else d)"
  by (induction k) (auto simp: seg_num_tokens_def num_actual_tokens_def padding_row_def)

lemma append_padding_ok:
  assumes "target - actual_tokens req segs > 0 \<Longrightarrow> length (request_rows req segs) < rows"
  shows "\<exists>segs'. append_padding req g target rows segs = Inr segs'
           \<and> padded_by req (target - actual_tokens req segs) segs segs'"
  using assms
  by (auto simp: append_padding_def Let_def padded_by_def padding_rows_sum comp_def)
    (auto simp: padding_row_def seg_num_tokens_def num_actual_tokens_def)

text \<open>The padding tokens that request \<open>req\<close> gets on each rank.\<close>

definition deficit :: "bool \<Rightarrow> input_batch \<Rightarrow> batch_segment list list \<Rightarrow> nat \<times> nat \<Rightarrow> batch_segment list \<Rightarrow> nat" where
  "deficit mla b by_rank rq segs =
     (let (req, len) = rq in
      if \<not> mla \<or> len = 0 \<or> \<not> ib_is_prefilling b ! req then 0
      else Max (set (map (actual_tokens req) by_rank)) - actual_tokens req segs)"

lemma target_rows_enough:
  assumes s: "segs \<in> set by_rank" and less: "f segs < Max (set (map f by_rank))"
  shows "(g segs :: nat) < (if list_ex (\<lambda>(count, rows). count < Max (set (map f by_rank)) \<and> rows = Max (set (map g by_rank)))
            (zip (map f by_rank) (map g by_rank))
          then Max (set (map g by_rank)) + 1 else Max (set (map g by_rank)))"
proof -
  have le: "g segs \<le> Max (set (map g by_rank))" using s by (intro Max_ge) auto
  have mem: "(f segs, g segs) \<in> set (zip (map f by_rank) (map g by_rank))"
    using s by (auto simp: zip_map_map zip_same_conv_map)
  show ?thesis
  proof (cases "g segs = Max (set (map g by_rank))")
    case True
    with less mem have "list_ex (\<lambda>(count, rows). count < Max (set (map f by_rank)) \<and> rows = Max (set (map g by_rank)))
            (zip (map f by_rank) (map g by_rank))"
      unfolding list_ex_iff by blast
    then show ?thesis using le by simp
  qed (use le in auto)
qed

lemma pad_request_ok:
  assumes ne: "by_rank \<noteq> []"
  shows "\<exists>by_rank'. pad_request mla b rq by_rank = Inr by_rank'
     \<and> list_all2 (\<lambda>segs segs'. padded_by (fst rq) (deficit mla b by_rank rq segs) segs segs') by_rank by_rank'"
proof (cases "\<not> mla \<or> snd rq = 0 \<or> \<not> ib_is_prefilling b ! fst rq")
  case True
  then show ?thesis
    by (auto simp: pad_request_def deficit_def split_beta intro!: list_all2_refl padded_by_refl)
next
  case False
  let ?req = "fst rq"
  let ?a = "map (actual_tokens ?req) by_rank"
  show ?thesis
  proof (cases "Min (set ?a) = Max (set ?a)")
    case True
    have "actual_tokens ?req segs = Max (set ?a)" if "segs \<in> set by_rank" for segs
    proof -
      have mem: "actual_tokens ?req segs \<in> set ?a" using that by simp
      show ?thesis
        using True Min_le [OF finite_set mem] Max_ge [OF finite_set mem] by linarith
    qed
    then have "list_all2 (\<lambda>segs segs'. padded_by ?req (deficit mla b by_rank rq segs) segs segs') by_rank by_rank"
      unfolding list_all2_same using False
      by (auto simp: deficit_def split_beta padded_by_refl)
    then show ?thesis
      using False True by (auto simp: pad_request_def split_beta Let_def)
  next
    case unequal: False
    let ?g = "\<lambda>segs. length (request_rows ?req segs)"
    let ?rows = "if list_ex (\<lambda>(count, rows). count < Max (set ?a) \<and> rows = Max (set (map ?g by_rank)))
            (zip ?a (map ?g by_rank))
          then Max (set (map ?g by_rank)) + 1 else Max (set (map ?g by_rank))"
    let ?f = "append_padding ?req (ib_query_start_loc b ! ?req) (Max (set ?a)) ?rows"
    have "\<exists>segs'. ?f segs = Inr segs' \<and> padded_by ?req (deficit mla b by_rank rq segs) segs segs'"
      if "segs \<in> set by_rank" for segs
    proof -
      have "deficit mla b by_rank rq segs = Max (set ?a) - actual_tokens ?req segs"
        using False by (simp add: deficit_def split_beta)
      moreover have "Max (set ?a) - actual_tokens ?req segs > 0 \<Longrightarrow> ?g segs < ?rows"
        using target_rows_enough [OF that, of "actual_tokens ?req" ?g] by simp
      ultimately show ?thesis using append_padding_ok by metis
    qed
    then obtain h where h: "\<And>segs. segs \<in> set by_rank \<Longrightarrow> ?f segs = Inr (h segs)
        \<and> padded_by ?req (deficit mla b by_rank rq segs) segs (h segs)"
      by metis
    have "map_result ?f by_rank = Inr (map h by_rank)"
      using h by (intro map_result_total) blast
    moreover have "list_all2 (\<lambda>segs segs'. padded_by ?req (deficit mla b by_rank rq segs) segs segs') by_rank (map h by_rank)"
      using h by (auto simp: list_all2_conv_all_nth)
    moreover have "pad_request mla b rq by_rank = map_result ?f by_rank"
      using False unequal unfolding pad_request_def split_beta Let_def by simp
    ultimately show ?thesis by metis
  qed
qed

definition extended_by :: "nat \<Rightarrow> batch_segment list \<Rightarrow> batch_segment list \<Rightarrow> bool" where
  "extended_by d segs segs' \<longleftrightarrow>
     (\<exists>pads. segs' = segs @ pads \<and> (\<forall>p \<in> set pads. bs_gstop p = bs_gstart p)
        \<and> (\<Sum>p \<leftarrow> pads. seg_num_tokens p) = d)"

lemma padded_extended:
  "padded_by req d x y \<Longrightarrow> extended_by d' y z \<Longrightarrow> extended_by (d + d') x z"
  unfolding padded_by_def extended_by_def by (force intro: exI [of _ "_ @ _"])

lemma padded_by_actual: "padded_by req d segs segs' \<Longrightarrow> actual_tokens j segs' = actual_tokens j segs"
  by (auto simp: padded_by_def actual_tokens_def request_rows_def num_actual_tokens_def
      sum_list_eq_0_iff)

lemma pad_all_ok:
  assumes "by_rank \<noteq> []"
  shows "\<exists>by_rank'. fold_result (pad_request mla b) ps by_rank = Inr by_rank'
     \<and> list_all2 (\<lambda>segs segs'. extended_by (\<Sum>rq \<leftarrow> ps. deficit mla b by_rank rq segs) segs segs') by_rank by_rank'"
  using assms
proof (induction ps arbitrary: by_rank)
  case Nil
  show ?case by (auto simp: extended_by_def intro!: list_all2_refl)
next
  case (Cons rq ps)
  obtain mid where mid: "pad_request mla b rq by_rank = Inr mid"
    and pads: "list_all2 (\<lambda>segs segs'. padded_by (fst rq) (deficit mla b by_rank rq segs) segs segs') by_rank mid"
    using pad_request_ok [OF Cons.prems] by blast
  from pads have len: "length mid = length by_rank" by (simp add: list_all2_lengthD)
  with Cons.prems have "mid \<noteq> []" by auto
  from Cons.IH [OF this] obtain out where out: "fold_result (pad_request mla b) ps mid = Inr out"
    and ext: "list_all2 (\<lambda>segs segs'. extended_by (\<Sum>q \<leftarrow> ps. deficit mla b mid q segs) segs segs') mid out"
    by blast
  have same: "map (actual_tokens j) mid = map (actual_tokens j) by_rank" for j
    using pads len by (auto simp: list_eq_iff_nth_eq list_all2_conv_all_nth dest: padded_by_actual)
  have "deficit mla b mid q (mid ! r) = deficit mla b by_rank q (by_rank ! r)" if "r < length by_rank" for q r
  proof -
    have "actual_tokens j (mid ! r) = actual_tokens j (by_rank ! r)" for j
      using same [of j] that len by (metis nth_map)
    then show ?thesis by (simp only: deficit_def same)
  qed
  then have "list_all2 (\<lambda>segs segs'. extended_by (\<Sum>q \<leftarrow> rq # ps. deficit mla b by_rank q segs) segs segs') by_rank out"
    using pads ext len by (auto simp: list_all2_conv_all_nth intro: padded_extended)
  then show ?case using mid out by auto
qed

section \<open>Widths\<close>

definition share :: "nat \<Rightarrow> input_batch \<Rightarrow> nat \<Rightarrow> nat \<times> nat \<Rightarrow> nat" where
  "share n b rank = (\<lambda>(req, len). if ib_is_prefilling b ! req then rank_tokens n rank len else len)"

definition total_tokens :: "batch_segment list \<Rightarrow> nat" where
  "total_tokens segs = (\<Sum>s \<leftarrow> segs. seg_num_tokens s)"

lemma actual_tokens_alt: "actual_tokens i segs = (\<Sum>s \<leftarrow> segs. if bs_req s = i then num_actual_tokens s else 0)"
  by (induction segs) (auto simp: actual_tokens_def request_rows_def)

lemma widths_append [simp]:
  "total_tokens (xs @ ys) = total_tokens xs + total_tokens ys"
  "actual_tokens i (xs @ ys) = actual_tokens i xs + actual_tokens i ys"
  "total_tokens [] = 0" "actual_tokens i [] = 0"
  "total_tokens (s # xs) = seg_num_tokens s + total_tokens xs"
  "actual_tokens i (s # xs) = (if bs_req s = i then num_actual_tokens s else 0) + actual_tokens i xs"
  by (simp_all add: total_tokens_def actual_tokens_alt)

lemma emit_widths:
  "total_tokens (fst (emit_segments req g ss off)) = (\<Sum>s \<leftarrow> ss. rs_num_tokens s)"
  "actual_tokens i (fst (emit_segments req g ss off)) = (if req = i then \<Sum>s \<leftarrow> ss. rs_num_tokens s else 0)"
  by (induction ss arbitrary: off)
    (auto simp: Let_def split_beta seg_num_tokens_def num_actual_tokens_def rs_num_tokens_def)

lemma request_segments_share: "(\<Sum>s \<leftarrow> request_segments n rank b req len. rs_num_tokens s) = share n b rank (req, len)"
  by (simp add: request_segments_def share_def rank_tokens_def split_beta rs_num_tokens_def)

lemma share_zero [simp]: "share n b rank (req, 0) = 0"
  by (simp add: share_def rank_tokens_def dual_chunks_def rs_num_tokens_def)

lemma raw_widths_step:
  fixes i :: nat
  shows "total_tokens (raw_segments n rank b ((req, len) # ps) off)
      = share n b rank (req, len) + total_tokens (raw_segments n rank b ps
          (if len = 0 then off else snd (emit_segments req (ib_query_start_loc b ! req) (request_segments n rank b req len) off)))"
    and "actual_tokens i (raw_segments n rank b ((req, len) # ps) off)
      = (if req = i then share n b rank (req, len) else 0) + actual_tokens i (raw_segments n rank b ps
          (if len = 0 then off else snd (emit_segments req (ib_query_start_loc b ! req) (request_segments n rank b req len) off)))"
  using emit_widths(1) [of req "ib_query_start_loc b ! req" "request_segments n rank b req len" off]
    emit_widths(2) [of i req "ib_query_start_loc b ! req" "request_segments n rank b req len" off]
  unfolding request_segments_share by (auto simp: split_beta)

lemma raw_total: "total_tokens (raw_segments n rank b ps off) = (\<Sum>p \<leftarrow> ps. share n b rank p)"
  by (induction ps arbitrary: off) (auto simp: raw_widths_step simp del: raw_segments.simps(2))

lemma raw_actual:
  "actual_tokens i (raw_segments n rank b ps off) = (\<Sum>p \<leftarrow> ps. if fst p = i then share n b rank p else 0)"
  by (induction ps arbitrary: off) (auto simp: raw_widths_step simp del: raw_segments.simps(2))

lemmas raw_widths = raw_total raw_actual

lemma reorder_widths [simp]:
  "total_tokens (reorder_segments b segs) = total_tokens segs"
  "actual_tokens i (reorder_segments b segs) = actual_tokens i segs"
  unfolding total_tokens_def actual_tokens_alt
  by (rule reorder_sum; simp add: seg_num_tokens_def num_actual_tokens_def)+

lemma segments_widths:
  "total_tokens (segments_for_rank n rank b) = (\<Sum>p \<leftarrow> List.enumerate 0 (ib_num_scheduled_tokens b). share n b rank p)"
  "i < length (ib_num_scheduled_tokens b) \<Longrightarrow>
     actual_tokens i (segments_for_rank n rank b) = share n b rank (i, ib_num_scheduled_tokens b ! i)"
proof -
  show "total_tokens (segments_for_rank n rank b) = (\<Sum>p \<leftarrow> List.enumerate 0 (ib_num_scheduled_tokens b). share n b rank p)"
    by (simp add: segments_for_rank_def raw_widths)
  assume "i < length (ib_num_scheduled_tokens b)"
  then show "actual_tokens i (segments_for_rank n rank b) = share n b rank (i, ib_num_scheduled_tokens b ! i)"
    by (simp add: segments_for_rank_def raw_widths enumerate_upt comp_def interv_sum_list_conv_sum_set_nat
        sum.delta atLeast0LessThan)
qed

text \<open>The common width of a request on every rank, once it is padded.\<close>

definition request_width :: "pcp_config \<Rightarrow> input_batch \<Rightarrow> nat \<Rightarrow> nat \<times> nat \<Rightarrow> nat" where
  "request_width cfg b rank p =
     (if use_mla cfg \<and> ib_is_prefilling b ! fst p then widest_rank (pcp_size cfg) (snd p)
      else share (pcp_size cfg) b rank p)"

abbreviation requests :: "input_batch \<Rightarrow> (nat \<times> nat) list" where
  "requests b \<equiv> List.enumerate 0 (ib_num_scheduled_tokens b)"

abbreviation rank_rows :: "pcp_config \<Rightarrow> input_batch \<Rightarrow> batch_segment list list" where
  "rank_rows cfg b \<equiv> map (\<lambda>rank. segments_for_rank (pcp_size cfg) rank b) [0..<pcp_size cfg]"

lemma share_deficit:
  assumes "p \<in> set (requests b)" and r: "r < pcp_size cfg"
  shows "share (pcp_size cfg) b r p
       + deficit (use_mla cfg) b (rank_rows cfg b) p (segments_for_rank (pcp_size cfg) r b)
     = request_width cfg b r p"
proof -
  let ?n = "pcp_size cfg"
  obtain i where p: "p = (i, ib_num_scheduled_tokens b ! i)" and i: "i < length (ib_num_scheduled_tokens b)"
    using assms(1) by (auto simp: enumerate_upt)
  have act: "actual_tokens i (segments_for_rank ?n rank b) = share ?n b rank p" for rank
    using segments_widths(2) [OF i] p by simp
  have mem: "rank_tokens ?n r len \<le> widest_rank ?n len" for len
    unfolding widest_rank_def using r by (intro Max_ge) auto
  have widest0: "widest_rank ?n 0 = 0"
    using r by (auto simp: widest_rank_def rank_tokens_def dual_chunks_def rs_num_tokens_def)
  show ?thesis
  proof (cases "use_mla cfg \<and> ib_is_prefilling b ! i")
    case True
    have "map (actual_tokens i) (rank_rows cfg b) = map (\<lambda>rank. rank_tokens ?n rank (snd p)) [0..<?n]"
      using True by (simp add: comp_def act share_def p)
    then have "deficit (use_mla cfg) b (rank_rows cfg b) p (segments_for_rank ?n r b)
        = (if snd p = 0 then 0 else widest_rank ?n (snd p) - rank_tokens ?n r (snd p))"
      using True act [of r] unfolding deficit_def widest_rank_def p by (simp add: share_def del: map_map)
    then show ?thesis
      using True mem [of "snd p"] widest0 by (auto simp: request_width_def p share_def)
  next
    case False
    then show ?thesis by (auto simp: deficit_def request_width_def p)
  qed
qed

lemma extended_by_total: "extended_by d segs segs' \<Longrightarrow> total_tokens segs' = total_tokens segs + d"
  by (auto simp: extended_by_def total_tokens_def)

lemma extended_by_owned: "extended_by d segs segs' \<Longrightarrow> owned_cells b rank segs' = owned_cells b rank segs"
proof -
  have "\<forall>p \<in> set pads. bs_gstop p = bs_gstart p \<Longrightarrow> owned_cells b rank pads = {#}" for pads
    by (induction pads) (auto simp: seg_cells_def)
  then show "extended_by d segs segs' \<Longrightarrow> ?thesis" by (auto simp: extended_by_def)
qed

text \<open>The padding loop never fails its assertion; its rows own the same tokens and have the common widths.\<close>

lemma padded_segments_ok:
  assumes "0 < pcp_size cfg"
  shows "\<exists>segs. padded_segments cfg b = Inr segs \<and> length segs = pcp_size cfg
    \<and> (\<forall>r < pcp_size cfg. \<exists>rows. segs ! r = reorder_segments b rows
         \<and> total_tokens rows = (\<Sum>p \<leftarrow> requests b. request_width cfg b r p)
         \<and> (\<forall>rank. owned_cells b rank rows = owned_cells b rank (segments_for_rank (pcp_size cfg) r b)))"
proof -
  let ?n = "pcp_size cfg"
  have "rank_rows cfg b \<noteq> []" using assms by simp
  from pad_all_ok [OF this] obtain out
    where out: "fold_result (pad_request (use_mla cfg) b) (requests b) (rank_rows cfg b) = Inr out"
      and ext: "list_all2 (\<lambda>segs segs'. extended_by
          (\<Sum>rq \<leftarrow> requests b. deficit (use_mla cfg) b (rank_rows cfg b) rq segs) segs segs') (rank_rows cfg b) out"
    by blast
  have len: "length out = ?n" using list_all2_lengthD [OF ext] by simp
  have "total_tokens (out ! r) = (\<Sum>p \<leftarrow> requests b. request_width cfg b r p)
      \<and> (\<forall>rank. owned_cells b rank (out ! r) = owned_cells b rank (segments_for_rank ?n r b))"
    if r: "r < ?n" for r
  proof -
    let ?s = "segments_for_rank ?n r b"
    have e: "extended_by (\<Sum>rq \<leftarrow> requests b. deficit (use_mla cfg) b (rank_rows cfg b) rq ?s) ?s (out ! r)"
      using list_all2_nthD [OF ext, of r] r by simp
    have "total_tokens (out ! r) = (\<Sum>p \<leftarrow> requests b. share ?n b r p
        + deficit (use_mla cfg) b (rank_rows cfg b) p ?s)"
      using extended_by_total [OF e] by (simp add: segments_widths(1) sum_list_addf)
    also have "\<dots> = (\<Sum>p \<leftarrow> requests b. request_width cfg b r p)"
      using share_deficit [OF _ r] by (intro arg_cong [of _ _ sum_list] map_cong) auto
    finally show ?thesis using extended_by_owned [OF e] by simp
  qed
  then show ?thesis
    using out len by (intro exI [of _ "map (reorder_segments b) out"]) (auto simp: padded_segments_def)
qed

section \<open>Writing disjoint slices\<close>

lemma put_slice_length: "i + length ys \<le> length xs \<Longrightarrow> length (put_slice i ys xs) = length xs"
  by (simp add: put_slice_def)

lemma put_slice_nth:
  assumes "i + length ys \<le> length xs"
  shows "put_slice i ys xs ! j = (if i \<le> j \<and> j < i + length ys then ys ! (j - i) else xs ! j)"
  using assms by (auto simp: put_slice_def nth_append)

lemma put_slice_Nil [simp]: "put_slice i [] xs = xs"
  by (simp add: put_slice_def)

abbreviation write_all :: "('w \<Rightarrow> nat) \<Rightarrow> ('w \<Rightarrow> 'v list) \<Rightarrow> 'w list \<Rightarrow> 'v list \<Rightarrow> 'v list" where
  "write_all st vals ws arr \<equiv> fold (\<lambda>w. put_slice (st w) (vals w)) ws arr"

definition writes_fit :: "('w \<Rightarrow> nat) \<Rightarrow> ('w \<Rightarrow> 'v list) \<Rightarrow> 'w list \<Rightarrow> 'v list \<Rightarrow> bool" where
  "writes_fit st vals ws arr \<longleftrightarrow>
     (\<forall>w \<in> set ws. vals w \<noteq> [] \<longrightarrow> st w + length (vals w) \<le> length arr)"

lemma write_all_frame:
  assumes "writes_fit st vals ws arr"
  shows "length (write_all st vals ws arr) = length arr \<and>
    ((\<forall>w \<in> set ws. \<not> (st w \<le> j \<and> j < st w + length (vals w))) \<longrightarrow> write_all st vals ws arr ! j = arr ! j)"
  using assms
proof (induction ws arbitrary: arr)
  case (Cons w ws)
  show ?case
  proof (cases "vals w = []")
    case True
    then show ?thesis using Cons by (simp add: writes_fit_def)
  next
    case False
    then have "st w + length (vals w) \<le> length arr" using Cons.prems by (simp add: writes_fit_def)
    note put = put_slice_length [OF this] put_slice_nth [OF this, of j]
    show ?thesis using Cons.IH [of "put_slice (st w) (vals w) arr"] Cons.prems put by (auto simp: writes_fit_def)
  qed
qed simp

lemma write_all_written:
  assumes "writes_fit st vals ws arr"
    and "distinct (concat (map (\<lambda>w. [st w..<st w + length (vals w)]) ws))"
    and "w \<in> set ws" and "k < length (vals w)"
  shows "write_all st vals ws arr ! (st w + k) = vals w ! k"
  using assms
proof (induction ws arbitrary: arr)
  case (Cons v ws)
  have len: "length (put_slice (st v) (vals v) arr) = length arr"
    using Cons.prems(1) by (cases "vals v = []") (auto simp: writes_fit_def intro: put_slice_length)
  then have fit: "writes_fit st vals ws (put_slice (st v) (vals v) arr)"
    using Cons.prems(1) by (simp add: writes_fit_def)
  show ?case
  proof (cases "w \<in> set ws")
    case True
    then show ?thesis using Cons.IH [OF fit] Cons.prems by auto
  next
    case False
    then have w: "w = v" using Cons.prems(3) by simp
    then have v: "st v + length (vals v) \<le> length arr" using Cons.prems(1,4) by (fastforce simp: writes_fit_def)
    have "\<forall>u \<in> set ws. \<not> (st u \<le> st v + k \<and> st v + k < st u + length (vals u))"
      using Cons.prems(2,4) w by (force simp: disjoint_iff)
    then show ?thesis
      using write_all_frame [OF fit, of "st v + k"] Cons.prems(4) w put_slice_nth [OF v, of "st v + k"] by auto
  qed
qed simp

section \<open>The index arrays\<close>

abbreviation dst :: "nat \<Rightarrow> nat \<times> batch_segment \<Rightarrow> nat" where
  "dst padded w \<equiv> fst w * padded + bs_lstart (snd w)"

text \<open>All rows with their ranks, in the order the arrays are written.\<close>

definition row_writes :: "batch_segment list list \<Rightarrow> (nat \<times> batch_segment) list" where
  "row_writes by_rank = concat (map (\<lambda>(rank, segs). map (Pair rank) segs) (List.enumerate 0 by_rank))"

abbreviation owned_writes :: "input_batch \<Rightarrow> batch_segment list list \<Rightarrow> (nat \<times> batch_segment) list" where
  "owned_writes b by_rank \<equiv> filter (\<lambda>w. owns b (fst w) (snd w)) (row_writes by_rank)"

lemma write_segment_fields:
  "gather_idx (write_segment b p r s arr) = put_slice (dst p (r, s)) [bs_gstart s..<bs_gstop s] (gather_idx arr)"
  "write_mask (write_segment b p r s arr) =
     (if owns b r s then put_slice (dst p (r, s)) (replicate (num_actual_tokens s) True) (write_mask arr)
      else write_mask arr)"
  "restore_idx (write_segment b p r s arr) =
     (if owns b r s
      then put_slice (bs_gstart s) (map Some [dst p (r, s)..<dst p (r, s) + num_actual_tokens s]) (restore_idx arr)
      else restore_idx arr)"
  by (auto simp: write_segment_def Let_def owns_def num_actual_tokens_def)

lemma fold_field:
  assumes "\<And>w arr. f (upd w arr) = (if P w then g w (f arr) else f arr)"
  shows "f (fold upd ws arr) = fold g (filter P ws) (f arr)"
  by (induction ws arbitrary: arr) (auto simp: assms)

lemma fold_nested:
  "fold (\<lambda>(rank, segs). fold (f rank) segs) xs arr
     = fold (\<lambda>(rank, s). f rank s) (concat (map (\<lambda>(rank, segs). map (Pair rank) segs) xs)) arr"
  by (induction xs arbitrary: arr) (auto simp: fold_map comp_def)

lemma index_arrays_fields:
  fixes by_rank padded b
  defines "arr \<equiv> index_arrays_of b padded by_rank"
  shows "gather_idx arr = write_all (dst padded) (\<lambda>w. [bs_gstart (snd w)..<bs_gstop (snd w)])
           (row_writes by_rank) (replicate (padded * length by_rank) 0)"
    and "write_mask arr = write_all (dst padded) (\<lambda>w. replicate (num_actual_tokens (snd w)) True)
           (owned_writes b by_rank) (replicate (padded * length by_rank) False)"
    and "restore_idx arr = write_all (\<lambda>w. bs_gstart (snd w))
           (\<lambda>w. map Some [dst padded w..<dst padded w + num_actual_tokens (snd w)])
           (owned_writes b by_rank) (replicate (ib_num_tokens b) None)"
proof -
  let ?init = "\<lparr>gather_idx = replicate (padded * length by_rank) 0,
        write_mask = replicate (padded * length by_rank) False,
        restore_idx = replicate (ib_num_tokens b) None\<rparr>"
  let ?upd = "\<lambda>(rank, s). write_segment b padded rank s"
  have arr: "arr = fold ?upd (row_writes by_rank) ?init"
    unfolding arr_def index_arrays_of_def row_writes_def fold_nested by simp
  show "gather_idx arr = write_all (dst padded) (\<lambda>w. [bs_gstart (snd w)..<bs_gstop (snd w)])
           (row_writes by_rank) (replicate (padded * length by_rank) 0)"
    unfolding arr using fold_field [of gather_idx ?upd "\<lambda>_. True"
        "\<lambda>w. put_slice (dst padded w) [bs_gstart (snd w)..<bs_gstop (snd w)]" "row_writes by_rank" ?init]
    by (simp add: split_beta write_segment_fields)
  show "write_mask arr = write_all (dst padded) (\<lambda>w. replicate (num_actual_tokens (snd w)) True)
           (owned_writes b by_rank) (replicate (padded * length by_rank) False)"
    unfolding arr using fold_field [of write_mask ?upd "\<lambda>w. owns b (fst w) (snd w)"
        "\<lambda>w. put_slice (dst padded w) (replicate (num_actual_tokens (snd w)) True)" "row_writes by_rank" ?init]
    by (simp add: split_beta write_segment_fields)
  show "restore_idx arr = write_all (\<lambda>w. bs_gstart (snd w))
           (\<lambda>w. map Some [dst padded w..<dst padded w + num_actual_tokens (snd w)])
           (owned_writes b by_rank) (replicate (ib_num_tokens b) None)"
    unfolding arr using fold_field [of restore_idx ?upd "\<lambda>w. owns b (fst w) (snd w)"
        "\<lambda>w. put_slice (bs_gstart (snd w)) (map Some [dst padded w..<dst padded w + num_actual_tokens (snd w)])"
        "row_writes by_rank" ?init]
    by (simp add: split_beta write_segment_fields)
qed

text \<open>The destinations are pieces of one increasing enumeration of the expanded batch.\<close>

lemma subseq_concat_map:
  "(\<And>x. x \<in> set xs \<Longrightarrow> subseq (f x) (g x)) \<Longrightarrow> subseq (concat (map f xs)) (concat (map g xs))"
  by (induction xs) (auto intro: list_emb_append_mono)

lemma upt_join: "a \<le> m \<Longrightarrow> m \<le> z \<Longrightarrow> [a..<m] @ [m..<z] = [a..<z]"
  by (metis le_add_diff_inverse upt_add_eq_append)

lemma subseq_distinct: "subseq xs ys \<Longrightarrow> distinct ys \<Longrightarrow> distinct xs \<and> set xs \<subseteq> set ys"
  by (induction rule: list_emb.induct) auto

lemma subseq_upt:
  assumes "a' \<le> a" and "z \<le> z'"
  shows "subseq [a..<z] [a'..<z']"
proof (cases "a \<le> z")
  case True
  then have "[a'..<z'] = [a'..<a] @ [a..<z] @ [z..<z']"
    using assms by (simp add: upt_join)
  then show ?thesis by (metis subseq_order.order_refl list_emb_append2 subseq_rev_drop_many)
qed simp

lemma relocate_tiles:
  "concat (map (\<lambda>s. [k + bs_lstart s..<k + bs_lstop s]) (relocate off segs))
     = [k + off..<k + off + total_tokens segs]"
  by (induction segs arbitrary: off) (auto simp: add.assoc upt_join)

lemma relocate_actual:
  "s \<in> set (relocate off segs) \<Longrightarrow> bs_lstart s + num_actual_tokens s \<le> bs_lstop s"
  by (induction segs arbitrary: off) (auto simp: seg_num_tokens_def num_actual_tokens_def)

lemma ranks_tile: "concat (map (\<lambda>r. [r * p..<Suc r * p]) [0..<n]) = [0..<n * p]"
  by (induction n) (auto simp: upt_join)

lemma row_writes_upt: "row_writes by_rank = concat (map (\<lambda>r. map (Pair r) (by_rank ! r)) [0..<length by_rank])"
  by (simp add: row_writes_def enumerate_upt comp_def)

lemma concat_map_concat: "concat (map f (concat xss)) = concat (map (\<lambda>xs. concat (map f xs)) xss)"
  by (induction xss) auto

lemma destinations_subseq:
  assumes rows: "\<And>r. r < length by_rank \<Longrightarrow> \<exists>rows. by_rank ! r = reorder_segments b rows"
    and fits: "\<And>r. r < length by_rank \<Longrightarrow> total_tokens (by_rank ! r) \<le> padded"
  shows "subseq (concat (map (\<lambda>w. [dst padded w..<dst padded w + num_actual_tokens (snd w)]) (row_writes by_rank)))
           [0..<length by_rank * padded]"
proof -
  have row: "subseq (concat (map (\<lambda>s. [r * padded + bs_lstart s..<r * padded + bs_lstart s + num_actual_tokens s])
        (by_rank ! r))) [r * padded..<Suc r * padded]" if r: "r < length by_rank" for r
  proof -
    obtain rows where "by_rank ! r = reorder_segments b rows" using assms(1) [OF r] by blast
    then obtain srt where srt: "by_rank ! r = relocate 0 srt" by (simp add: reorder_segments_def)
    have "map seg_num_tokens (relocate 0 srt) = map seg_num_tokens srt"
      by (rule relocate_map) (simp add: seg_num_tokens_def num_actual_tokens_def)
    then have "total_tokens srt \<le> padded"
      using fits [OF r] by (simp add: srt total_tokens_def)
    then have "subseq (concat (map (\<lambda>s. [r * padded + bs_lstart s..<r * padded + bs_lstop s]) (relocate 0 srt)))
        [r * padded..<Suc r * padded]"
      unfolding relocate_tiles by (intro subseq_upt) auto
    moreover have "subseq (concat (map (\<lambda>s. [r * padded + bs_lstart s..<r * padded + bs_lstart s + num_actual_tokens s])
        (relocate 0 srt))) (concat (map (\<lambda>s. [r * padded + bs_lstart s..<r * padded + bs_lstop s]) (relocate 0 srt)))"
      by (intro subseq_concat_map subseq_upt) (auto dest: relocate_actual simp: add.assoc)
    ultimately show ?thesis unfolding srt by (rule subseq_order.order_trans [rotated])
  qed
  have "subseq (concat (map (\<lambda>r. concat (map (\<lambda>s. [r * padded + bs_lstart s..<r * padded + bs_lstart s + num_actual_tokens s])
        (by_rank ! r))) [0..<length by_rank])) (concat (map (\<lambda>r. [r * padded..<Suc r * padded]) [0..<length by_rank]))"
    using row by (intro subseq_concat_map) auto
  then show ?thesis
    unfolding ranks_tile by (simp add: row_writes_upt concat_map_concat comp_def)
qed

lemma mset_concat_map: "mset (concat (map f xs)) = (\<Sum>x \<leftarrow> xs. mset (f x))"
  by (induction xs) auto

lemma sum_filter_concat:
  "(\<Sum>w \<leftarrow> filter P (concat (map g rs)). f w) = (\<Sum>r \<leftarrow> rs. \<Sum>w \<leftarrow> filter P (g r). f w)"
  for f :: "'w \<Rightarrow> 'b::comm_monoid_add"
  by (induction rs) auto

lemma sources_mset:
  "mset (concat (map (\<lambda>w. [bs_gstart (snd w)..<bs_gstop (snd w)]) (owned_writes b by_rank)))
     = (\<Sum>r<length by_rank. owned_cells b r (by_rank ! r))"
proof -
  have one: "(\<Sum>w \<leftarrow> filter (\<lambda>w. owns b (fst w) (snd w)) (map (Pair r) segs). mset [bs_gstart (snd w)..<bs_gstop (snd w)])
      = owned_cells b r segs" for r segs
    by (induction segs) (auto simp: seg_cells_def cells_def)
  have "(\<Sum>w \<leftarrow> owned_writes b by_rank. mset [bs_gstart (snd w)..<bs_gstop (snd w)])
      = (\<Sum>r \<leftarrow> [0..<length by_rank]. owned_cells b r (by_rank ! r))"
    unfolding row_writes_upt one [symmetric] by (rule sum_filter_concat)
  then show ?thesis
    unfolding mset_concat_map by (simp add: interv_sum_list_conv_sum_set_nat atLeast0LessThan)
qed

text \<open>
  A layout whose rows are relocated, fit into the padded width and own every token once.
\<close>

definition sound_rows :: "input_batch \<Rightarrow> nat \<Rightarrow> batch_segment list list \<Rightarrow> bool" where
  "sound_rows b padded by_rank \<longleftrightarrow>
     (\<forall>r < length by_rank. \<exists>rows. by_rank ! r = reorder_segments b rows) \<and>
     (\<forall>r < length by_rank. total_tokens (by_rank ! r) \<le> padded) \<and>
     (\<Sum>r<length by_rank. owned_cells b r (by_rank ! r)) = cells 0 (ib_num_tokens b)"

abbreviation dst_cells :: "nat \<Rightarrow> nat \<times> batch_segment \<Rightarrow> nat list" where
  "dst_cells padded w \<equiv> [dst padded w..<dst padded w + num_actual_tokens (snd w)]"

lemma destinations_ok:
  assumes "sound_rows b padded by_rank"
  shows "distinct (concat (map (dst_cells padded) (row_writes by_rank)))"
    and "distinct (concat (map (dst_cells padded) (owned_writes b by_rank)))"
    and "w \<in> set (row_writes by_rank) \<Longrightarrow> 0 < num_actual_tokens (snd w) \<Longrightarrow>
           dst padded w + num_actual_tokens (snd w) \<le> padded * length by_rank"
proof -
  have sub: "subseq (concat (map (dst_cells padded) (row_writes by_rank))) [0..<length by_rank * padded]"
    using assms by (intro destinations_subseq [of by_rank b]) (auto simp: sound_rows_def)
  show D: "distinct (concat (map (dst_cells padded) (row_writes by_rank)))"
    using subseq_distinct [OF sub distinct_upt] by (rule conjunct1)
  have "subseq (concat (map (dst_cells padded) (filter P ws))) (concat (map (dst_cells padded) ws))" for P ws
  proof (induction ws)
    case (Cons w ws)
    have "subseq (dst_cells padded w @ concat (map (dst_cells padded) (filter P ws)))
        (dst_cells padded w @ concat (map (dst_cells padded) ws))"
      by (rule list_emb_append_mono [OF subseq_order.order_refl Cons.IH])
    moreover have "subseq (concat (map (dst_cells padded) (filter P ws)))
        (dst_cells padded w @ concat (map (dst_cells padded) ws))"
      by (rule list_emb_append2 [OF Cons.IH])
    ultimately show ?case by (simp del: upt.simps)
  qed simp
  with D show "distinct (concat (map (dst_cells padded) (owned_writes b by_rank)))"
    using subseq_distinct by blast
  assume w: "w \<in> set (row_writes by_rank)" "0 < num_actual_tokens (snd w)"
  let ?x = "dst padded w + num_actual_tokens (snd w) - 1"
  have "?x \<in> set (dst_cells padded w)" using w(2) by simp
  then have "?x \<in> set (concat (map (dst_cells padded) (row_writes by_rank)))"
    using w(1) unfolding set_concat set_map by blast
  moreover have "set (concat (map (dst_cells padded) (row_writes by_rank))) \<subseteq> set [0..<length by_rank * padded]"
    using subseq_distinct [OF sub] by simp
  ultimately have "?x \<in> set [0..<length by_rank * padded]" by blast
  then show "dst padded w + num_actual_tokens (snd w) \<le> padded * length by_rank"
    using w(2) by (simp add: mult.commute)
qed

lemma sources_ok:
  assumes "sound_rows b padded by_rank"
  shows "distinct (concat (map (\<lambda>w. [bs_gstart (snd w)..<bs_gstop (snd w)]) (owned_writes b by_rank)))"
    and "(\<exists>w \<in> set (owned_writes b by_rank). bs_gstart (snd w) \<le> i \<and> i < bs_gstop (snd w)) \<longleftrightarrow> i < ib_num_tokens b"
proof -
  have src: "mset (concat (map (\<lambda>w. [bs_gstart (snd w)..<bs_gstop (snd w)]) (owned_writes b by_rank)))
      = mset [0..<ib_num_tokens b]"
    unfolding sources_mset using assms by (simp only: sound_rows_def cells_def)
  show "distinct (concat (map (\<lambda>w. [bs_gstart (snd w)..<bs_gstop (snd w)]) (owned_writes b by_rank)))"
    using mset_eq_imp_distinct_iff [OF src] by simp
  have "i \<in> set (concat (map (\<lambda>w. [bs_gstart (snd w)..<bs_gstop (snd w)]) (owned_writes b by_rank)))
      \<longleftrightarrow> i \<in> set [0..<ib_num_tokens b]"
    using mset_eq_setD [OF src] by (simp only:)
  then show "(\<exists>w \<in> set (owned_writes b by_rank). bs_gstart (snd w) \<le> i \<and> i < bs_gstop (snd w)) \<longleftrightarrow> i < ib_num_tokens b"
    by auto
qed

lemma arrays_written:
  fixes by_rank padded b
  defines "arr \<equiv> index_arrays_of b padded by_rank"
  assumes sound: "sound_rows b padded by_rank"
  shows "length (gather_idx arr) = padded * length by_rank" "length (write_mask arr) = padded * length by_rank"
    "length (restore_idx arr) = ib_num_tokens b"
    and "w \<in> set (row_writes by_rank) \<Longrightarrow> k < num_actual_tokens (snd w) \<Longrightarrow>
      gather_idx arr ! (dst padded w + k) = bs_gstart (snd w) + k"
    and "w \<in> set (owned_writes b by_rank) \<Longrightarrow> k < num_actual_tokens (snd w) \<Longrightarrow>
      write_mask arr ! (dst padded w + k) \<and> restore_idx arr ! (bs_gstart (snd w) + k) = Some (dst padded w + k)"
    and "j < padded * length by_rank \<Longrightarrow> write_mask arr ! j \<Longrightarrow>
      \<exists>w k. w \<in> set (owned_writes b by_rank) \<and> k < num_actual_tokens (snd w) \<and> j = dst padded w + k"
proof -
  let ?W = "row_writes by_rank" and ?O = "owned_writes b by_rank"
  note fields = index_arrays_fields [of b padded by_rank, folded arr_def]
  note D = destinations_ok [OF sound]
  have len: "length [bs_gstart s..<bs_gstop s] = num_actual_tokens s" for s
    by (simp add: num_actual_tokens_def)
  have in_dst: "w \<in> set ?W \<Longrightarrow> 0 < num_actual_tokens (snd w) \<Longrightarrow>
      dst padded w + num_actual_tokens (snd w) \<le> length (replicate (padded * length by_rank) x)" for w x
    using D(3) by simp
  have stop: "bs_gstart s + num_actual_tokens s = (if bs_gstart s \<le> bs_gstop s then bs_gstop s else bs_gstart s)" for s
    by (simp add: num_actual_tokens_def)
  have cell: "[bs_gstart s..<bs_gstart s + num_actual_tokens s] = [bs_gstart s..<bs_gstop s]" for s
    by (simp add: stop)
  have in_src: "bs_gstart (snd w) + num_actual_tokens (snd w) \<le> length (replicate (ib_num_tokens b) x)"
    if "w \<in> set ?O" "0 < num_actual_tokens (snd w)" for w x
  proof -
    have "\<exists>w \<in> set ?O. bs_gstart (snd w) \<le> bs_gstop (snd w') - 1 \<and> bs_gstop (snd w') - 1 < bs_gstop (snd w)"
      if "w' = w" for w'
      using that \<open>w \<in> set ?O\<close> \<open>0 < num_actual_tokens (snd w)\<close>
      by (intro bexI [of _ w]) (auto simp: num_actual_tokens_def)
    then have "bs_gstop (snd w) - 1 < ib_num_tokens b"
      using sources_ok(2) [OF sound, of "bs_gstop (snd w) - 1"] by blast
    then show ?thesis using that(2) by (simp add: num_actual_tokens_def)
  qed
  have gather: "writes_fit (dst padded) (\<lambda>w. [bs_gstart (snd w)..<bs_gstop (snd w)]) ?W (replicate (padded * length by_rank) 0)"
    unfolding writes_fit_def len using in_dst by (auto simp: num_actual_tokens_def)
  have mask: "writes_fit (dst padded) (\<lambda>w. replicate (num_actual_tokens (snd w)) True) ?O (replicate (padded * length by_rank) False)"
    unfolding writes_fit_def using in_dst by auto
  have restore: "writes_fit (\<lambda>w. bs_gstart (snd w)) (\<lambda>w. map Some (dst_cells padded w)) ?O (replicate (ib_num_tokens b) None)"
    unfolding writes_fit_def using in_src by auto
  show "length (gather_idx arr) = padded * length by_rank" "length (write_mask arr) = padded * length by_rank"
    "length (restore_idx arr) = ib_num_tokens b"
    using write_all_frame [OF gather] write_all_frame [OF mask] write_all_frame [OF restore]
    unfolding fields by simp_all
  show "w \<in> set ?W \<Longrightarrow> k < num_actual_tokens (snd w) \<Longrightarrow> gather_idx arr ! (dst padded w + k) = bs_gstart (snd w) + k"
    using write_all_written [OF gather, of w k] D(1) unfolding fields len by (simp add: len num_actual_tokens_def)
  show "w \<in> set ?O \<Longrightarrow> k < num_actual_tokens (snd w) \<Longrightarrow>
      write_mask arr ! (dst padded w + k) \<and> restore_idx arr ! (bs_gstart (snd w) + k) = Some (dst padded w + k)"
    using write_all_written [OF mask, of w k] write_all_written [OF restore, of w k] D(2) sources_ok(1) [OF sound]
    unfolding fields by (simp add: cell)
  assume j: "j < padded * length by_rank" "write_mask arr ! j"
  show "\<exists>w k. w \<in> set ?O \<and> k < num_actual_tokens (snd w) \<and> j = dst padded w + k"
  proof (rule ccontr)
    assume none: "\<not> ?thesis"
    have "\<forall>w \<in> set ?O. \<not> (dst padded w \<le> j \<and> j < dst padded w + length (replicate (num_actual_tokens (snd w)) True))"
    proof (intro ballI notI)
      fix w
      assume w: "w \<in> set ?O"
        "dst padded w \<le> j \<and> j < dst padded w + length (replicate (num_actual_tokens (snd w)) True)"
      then have "j = dst padded w + (j - dst padded w)" "j - dst padded w < num_actual_tokens (snd w)" by auto
      with w(1) none show False by blast
    qed
    then have "write_mask arr ! j = replicate (padded * length by_rank) False ! j"
      unfolding fields using write_all_frame [OF mask, of j] by blast
    with j show False by simp
  qed
qed

lemma arrays_inverse:
  assumes "sound_rows b padded by_rank"
  defines "arr \<equiv> index_arrays_of b padded by_rank"
  shows "i < ib_num_tokens b \<Longrightarrow>
      \<exists>j < padded * length by_rank. restore_idx arr ! i = Some j \<and> gather_idx arr ! j = i \<and> write_mask arr ! j"
    and "j < padded * length by_rank \<Longrightarrow> write_mask arr ! j \<Longrightarrow>
      gather_idx arr ! j < ib_num_tokens b \<and> restore_idx arr ! (gather_idx arr ! j) = Some j"
proof -
  note W = arrays_written [OF assms(1), folded arr_def]
  assume "i < ib_num_tokens b"
  then obtain w where w: "w \<in> set (owned_writes b by_rank)" "bs_gstart (snd w) \<le> i" "i < bs_gstop (snd w)"
    using sources_ok(2) [OF assms(1)] by blast
  define k where "k = i - bs_gstart (snd w)"
  have k: "k < num_actual_tokens (snd w)" "i = bs_gstart (snd w) + k"
    using w by (auto simp: k_def num_actual_tokens_def)
  have "dst padded w + num_actual_tokens (snd w) \<le> padded * length by_rank"
    using destinations_ok(3) [OF assms(1), of w] w(1) k(1) by simp
  then show "\<exists>j < padded * length by_rank. restore_idx arr ! i = Some j \<and> gather_idx arr ! j = i \<and> write_mask arr ! j"
    using W(4) [of w k] W(5) [of w k] w(1) k by (intro exI [of _ "dst padded w + k"]) auto
next
  note W = arrays_written [OF assms(1), folded arr_def]
  assume "j < padded * length by_rank" "write_mask arr ! j"
  then obtain w k where w: "w \<in> set (owned_writes b by_rank)" "k < num_actual_tokens (snd w)" "j = dst padded w + k"
    using W(6) by blast
  have "bs_gstart (snd w) + k < ib_num_tokens b"
    using sources_ok(2) [OF assms(1), of "bs_gstart (snd w) + k"] w
    by (force simp: num_actual_tokens_def)
  then show "gather_idx arr ! j < ib_num_tokens b \<and> restore_idx arr ! (gather_idx arr ! j) = Some j"
    using W(4) [of w k] W(5) [of w k] w by auto
qed

section \<open>The layout\<close>

lemma foldr_max_ge: "x \<in> set xs \<Longrightarrow> x \<le> foldr max xs (0::nat)"
  by (induction xs) auto

text \<open>Everything the layout builder guarantees, from which the properties below are read off.\<close>

lemma layout_cases:
  assumes n: "0 < pcp_size cfg" and wf: "wf_batch b" and run: "build_batch_layout cfg b padded = Inr lay"
  shows "length (lay_segments lay) = pcp_size cfg \<and> sound_rows b (lay_padded lay) (lay_segments lay)
    \<and> lay_arrays lay = index_arrays_of b (lay_padded lay) (lay_segments lay)
    \<and> lay_per_rank lay = map (\<lambda>r. \<Sum>p \<leftarrow> requests b. request_width cfg b r p) [0..<pcp_size cfg]"
proof -
  obtain segs where segs: "padded_segments cfg b = Inr segs" "length segs = pcp_size cfg"
    and rows: "\<And>r. r < pcp_size cfg \<Longrightarrow> \<exists>rows. segs ! r = reorder_segments b rows
         \<and> total_tokens rows = (\<Sum>p \<leftarrow> requests b. request_width cfg b r p)
         \<and> (\<forall>rank. owned_cells b rank rows = owned_cells b rank (segments_for_rank (pcp_size cfg) r b))"
    using padded_segments_ok [OF n] by metis
  have lay: "lay_segments lay = segs" "lay_per_rank lay = map total_tokens segs"
    "lay_arrays lay = index_arrays_of b (lay_padded lay) segs" "foldr max (map total_tokens segs) 0 \<le> lay_padded lay"
    using run segs(1) by (auto simp: build_batch_layout_def Let_def total_tokens_def [abs_def, symmetric] split: option.splits if_splits)
  have each: "total_tokens (segs ! r) = (\<Sum>p \<leftarrow> requests b. request_width cfg b r p)
      \<and> owned_cells b r (segs ! r) = owned_cells b r (segments_for_rank (pcp_size cfg) r b)"
    if r: "r < pcp_size cfg" for r
  proof -
    obtain rs where "segs ! r = reorder_segments b rs"
      "total_tokens rs = (\<Sum>p \<leftarrow> requests b. request_width cfg b r p)"
      "owned_cells b r rs = owned_cells b r (segments_for_rank (pcp_size cfg) r b)"
      using rows [OF r] by blast
    then show ?thesis by (simp add: reorder_owned)
  qed
  have "total_tokens (segs ! r) \<le> lay_padded lay" if "r < length segs" for r
    using lay(4) foldr_max_ge [of "total_tokens (segs ! r)" "map total_tokens segs"] that by fastforce
  moreover have "(\<Sum>r<length segs. owned_cells b r (segs ! r)) = cells 0 (ib_num_tokens b)"
    using each segs(2) raw_segments_own_all [OF wf n] by simp
  moreover have "\<exists>rs. segs ! r = reorder_segments b rs" if "r < length segs" for r
    using rows [of r] that segs(2) by auto
  ultimately have "sound_rows b (lay_padded lay) segs"
    by (simp add: sound_rows_def)
  moreover have "map total_tokens segs = map (\<lambda>r. \<Sum>p \<leftarrow> requests b. request_width cfg b r p) [0..<pcp_size cfg]"
    using each segs(2) by (auto simp: list_eq_iff_nth_eq)
  ultimately show ?thesis using lay segs(2) by simp
qed

lemma fold_max_foldr: "fold (\<lambda>x m. max m (f x)) xs a = max a (foldr max (map f xs) (0::nat))"
  by (induction xs arbitrary: a) auto

lemma foldr_max_const: "xs \<noteq> [] \<Longrightarrow> foldr max (map (\<lambda>_. x) xs) (0::nat) = x"
proof (induction xs)
  case (Cons y ys)
  then show ?case by (cases "ys = []") auto
qed simp

lemma zip_requests:
  "wf_batch b \<Longrightarrow> zip (ib_num_scheduled_tokens b) (ib_is_prefilling b)
     = map (\<lambda>(i, len). (len, ib_is_prefilling b ! i)) (requests b)"
  by (rule nth_equalityI) (auto simp: wf_batch_def nth_enumerate_eq)

lemma required_is_dispatch:
  assumes wf: "wf_batch b" and n: "0 < pcp_size cfg"
  shows "foldr max (map (\<lambda>r. \<Sum>p \<leftarrow> requests b. request_width cfg b r p) [0..<pcp_size cfg]) 0
       = get_num_tokens_for_dispatch cfg (ib_num_scheduled_tokens b) (ib_is_prefilling b)"
proof (cases "use_mla cfg")
  case True
  then have "(\<Sum>p \<leftarrow> requests b. request_width cfg b r p)
      = get_num_tokens_for_dispatch cfg (ib_num_scheduled_tokens b) (ib_is_prefilling b)" for r
    unfolding get_num_tokens_for_dispatch_def zip_requests [OF wf]
    by (auto simp: comp_def request_width_def share_def intro!: arg_cong [of _ _ sum_list])
  then show ?thesis using n by (simp add: foldr_max_const)
next
  case False
  have "(\<Sum>p \<leftarrow> requests b. request_width cfg b r p) =
      (\<Sum>(len, prefill) \<leftarrow> zip (ib_num_scheduled_tokens b) (ib_is_prefilling b).
         if prefill then rank_tokens (pcp_size cfg) r len else len)" for r
    unfolding zip_requests [OF wf] using False
    by (auto simp: comp_def request_width_def share_def intro!: arg_cong [of _ _ sum_list])
  then show ?thesis using False by (simp add: get_num_tokens_for_dispatch_def fold_max_foldr)
qed

section \<open>Properties\<close>

text \<open>
  The DualChunkSwap intervals of all ranks partition a request: every token position lies
  in exactly one of the two intervals of exactly one rank.
\<close>

theorem dual_chunks_partition:
  assumes "0 < n" and "t < len"
  shows "\<exists>!(rank, second). rank < n \<and>
     (let seg = (if second then snd else fst) (dual_chunks len rank n) in rs_start seg \<le> t \<and> t < rs_stop seg)"
proof -
  let ?in = "\<lambda>i. rs_start (chunk_segment len n i) \<le> t \<and> t < rs_stop (chunk_segment len n i)"
  have ex1: "\<exists>!i. i < 2 * n \<and> ?in i"
    using chunks.unique_part [of "(len, n)" t] assms by simp
  then obtain i where i: "i < 2 * n" "?in i" by blast
  have uniq: "j < 2 * n \<Longrightarrow> ?in j \<Longrightarrow> j = i" for j using ex1 i by blast
  show ?thesis
  proof (cases "i < n")
    case True
    show ?thesis
    proof (rule ex1I [of _ "(i, False)"])
      show "case (i, False) of (rank, second) \<Rightarrow> rank < n \<and>
         (let seg = (if second then snd else fst) (dual_chunks len rank n) in rs_start seg \<le> t \<and> t < rs_stop seg)"
        using True i by (simp add: dual_chunks_def)
      fix p
      assume "case p of (rank, second) \<Rightarrow> rank < n \<and>
         (let seg = (if second then snd else fst) (dual_chunks len rank n) in rs_start seg \<le> t \<and> t < rs_stop seg)"
      then show "p = (i, False)"
        using uniq [of "fst p"] uniq [of "2 * n - 1 - fst p"] True
        by (cases p) (auto simp: dual_chunks_def Let_def split: if_splits)
    qed
  next
    case False
    show ?thesis
    proof (rule ex1I [of _ "(2 * n - 1 - i, True)"])
      show "case (2 * n - 1 - i, True) of (rank, second) \<Rightarrow> rank < n \<and>
         (let seg = (if second then snd else fst) (dual_chunks len rank n) in rs_start seg \<le> t \<and> t < rs_stop seg)"
        using False i by (simp add: dual_chunks_def)
      fix p
      assume "case p of (rank, second) \<Rightarrow> rank < n \<and>
         (let seg = (if second then snd else fst) (dual_chunks len rank n) in rs_start seg \<le> t \<and> t < rs_stop seg)"
      then show "p = (2 * n - 1 - i, True)"
        using uniq [of "fst p"] uniq [of "2 * n - 1 - fst p"] False
        by (cases p) (auto simp: dual_chunks_def Let_def split: if_splits)
    qed
  qed
qed

theorem dual_chunks_partition_witness:
  "\<exists>!(rank, second). rank < 2 \<and>
     (let seg = (if second then snd else fst) (dual_chunks 5 rank 2) in rs_start seg \<le> 3 \<and> 3 < rs_stop seg)"
  using dual_chunks_partition [of 2 3 5] by simp

text \<open>
  C12. The index arrays are inverse to each other: every token of the global batch has a
  restore position inside the gathered batch, that position gathers this very token and is
  marked for the KV write.
\<close>

theorem restore_index_inverts_gather:
  assumes "wf_batch b" and "0 < pcp_size cfg" and "build_batch_layout cfg b padded = Inr lay"
    and "i < ib_num_tokens b"
  shows "\<exists>j < lay_padded lay * pcp_size cfg. restore_idx (lay_arrays lay) ! i = Some j
     \<and> gather_idx (lay_arrays lay) ! j = i \<and> write_mask (lay_arrays lay) ! j"
  using layout_cases [OF assms(2,1,3)] arrays_inverse(1) [of b "lay_padded lay" "lay_segments lay" i] assms(4)
  by auto

text \<open>A batch of three requests: a fresh prefill, a decode and a continued prefill.\<close>

definition demo_batch :: input_batch where
  "demo_batch =
     \<lparr>ib_req_ids = [''a'', ''b'', ''c''], ib_num_reqs = 3, ib_num_reqs_after_padding = 3,
      ib_idx_mapping = [2, 0, 1], ib_expanded_idx_mapping = [2, 0, 1], ib_expanded_local_pos = [0, 0, 0],
      ib_num_scheduled_tokens = [5, 1, 3], ib_num_tokens = 9, ib_num_tokens_after_padding = 9,
      ib_num_draft_tokens = 0, ib_num_draft_tokens_per_req = None, ib_query_start_loc = [0, 5, 6, 9],
      ib_seq_lens = [5, 10, 7], ib_seq_lens_upper = [5, 10, 7], ib_num_computed_tokens = [0, 9, 4],
      ib_prefill_len = [5, 9, 7], ib_num_computed_prefill = [0, 9, 4], ib_is_prefilling = [True, False, True],
      ib_has_prefill = True, ib_input_ids = [10, 11, 12, 13, 14, 15, 16, 17, 18],
      ib_positions = [0, 1, 2, 3, 4, 9, 4, 5, 6], ib_is_padding = replicate 9 False,
      ib_logits_indices = [4, 5, 8], ib_cu_num_logits = [0, 1, 2, 3]\<rparr>"

definition demo_config :: "bool \<Rightarrow> pcp_config" where
  "demo_config mla = \<lparr>pcp_size = 2, pcp_rank = 1, use_mla = mla, max_local_reqs = 9, max_local_tokens = 64,
     dcp_world_size = 1, dcp_rank = 0, cp_interleave = 1\<rparr>"

definition demo_layout :: "bool \<Rightarrow> pcp_layout" where
  "demo_layout mla = (case build_batch_layout (demo_config mla) demo_batch None of Inr lay \<Rightarrow> lay)"

lemma demo_batch_wf: "wf_batch demo_batch" "0 < pcp_size (demo_config mla)"
  by code_simp (simp add: demo_config_def)

lemma demo_layout_ok: "build_batch_layout (demo_config mla) demo_batch None = Inr (demo_layout mla)"
proof -
  have "returns (build_batch_layout (demo_config True) demo_batch None)"
    "returns (build_batch_layout (demo_config False) demo_batch None)" by code_simp+
  then show ?thesis by (cases mla) (auto simp: demo_layout_def returns_iff)
qed

theorem restore_index_inverts_gather_witness:
  "\<exists>j < lay_padded (demo_layout True) * pcp_size (demo_config True).
     restore_idx (lay_arrays (demo_layout True)) ! 7 = Some j
     \<and> gather_idx (lay_arrays (demo_layout True)) ! j = 7 \<and> write_mask (lay_arrays (demo_layout True)) ! j"
  by (rule restore_index_inverts_gather [OF demo_batch_wf demo_layout_ok]) code_simp

text \<open>
  The KV write mask selects each token exactly once: a marked position of the gathered
  batch holds a real token whose restore position is that position, so no two marked
  positions write the same token's slot.
\<close>

theorem kv_write_mask_exclusive:
  assumes "wf_batch b" and "0 < pcp_size cfg" and "build_batch_layout cfg b padded = Inr lay"
    and "j < lay_padded lay * pcp_size cfg" and "write_mask (lay_arrays lay) ! j"
  shows "gather_idx (lay_arrays lay) ! j < ib_num_tokens b
     \<and> restore_idx (lay_arrays lay) ! (gather_idx (lay_arrays lay) ! j) = Some j"
  using layout_cases [OF assms(2,1,3)] arrays_inverse(2) [of b "lay_padded lay" "lay_segments lay" j] assms(4,5)
  by auto

theorem kv_write_mask_exclusive_witness:
  "gather_idx (lay_arrays (demo_layout False)) ! 7 < ib_num_tokens demo_batch
     \<and> restore_idx (lay_arrays (demo_layout False)) ! (gather_idx (lay_arrays (demo_layout False)) ! 7) = Some 7"
  by (rule kv_write_mask_exclusive [OF demo_batch_wf demo_layout_ok [of False]]) code_simp+

lemma per_rank_widths:
  assumes "0 < pcp_size cfg"
  shows "\<exists>segs. padded_segments cfg b = Inr segs
     \<and> map total_tokens segs = map (\<lambda>r. \<Sum>p \<leftarrow> requests b. request_width cfg b r p) [0..<pcp_size cfg]"
proof -
  obtain segs where segs: "padded_segments cfg b = Inr segs" "length segs = pcp_size cfg"
    and rows: "\<And>r. r < pcp_size cfg \<Longrightarrow> \<exists>rows. segs ! r = reorder_segments b rows
         \<and> total_tokens rows = (\<Sum>p \<leftarrow> requests b. request_width cfg b r p)"
    using padded_segments_ok [OF assms] by metis
  have "total_tokens (segs ! r) = (\<Sum>p \<leftarrow> requests b. request_width cfg b r p)" if r: "r < pcp_size cfg" for r
    using rows [OF r] by fastforce
  then have "map total_tokens segs = map (\<lambda>r. \<Sum>p \<leftarrow> requests b. request_width cfg b r p) [0..<pcp_size cfg]"
    using segs(2) by (intro nth_equalityI) auto
  with segs(1) show ?thesis by blast
qed

text \<open>
  The dispatch width is exact: \<open>get_num_tokens_for_dispatch\<close> is the padded width the
  layout needs, so the layout is built for exactly the paddings of at least that width and
  a smaller one is rejected; the padding loop's assertion never fails.
\<close>

theorem dispatch_width_exact:
  assumes "wf_batch b" and "0 < pcp_size cfg"
    and "width = get_num_tokens_for_dispatch cfg (ib_num_scheduled_tokens b) (ib_is_prefilling b)"
  shows "(\<exists>lay. build_batch_layout cfg b None = Inr lay \<and> lay_padded lay = width) \<and>
     (\<forall>p. if p < width then build_batch_layout cfg b (Some p) = Inl (err_dispatch_padding p width)
          else (\<exists>lay. build_batch_layout cfg b (Some p) = Inr lay \<and> lay_padded lay = p))"
proof -
  obtain segs where segs: "padded_segments cfg b = Inr segs"
    and w: "map total_tokens segs = map (\<lambda>r. \<Sum>p \<leftarrow> requests b. request_width cfg b r p) [0..<pcp_size cfg]"
    using per_rank_widths [OF assms(2)] by blast
  have "foldr max (map total_tokens segs) 0 = width"
    unfolding w assms(3) by (rule required_is_dispatch [OF assms(1,2)])
  then show ?thesis
    using segs by (simp add: build_batch_layout_def Let_def total_tokens_def [abs_def, symmetric])
qed

theorem dispatch_width_exact_witness:
  "(\<exists>lay. build_batch_layout (demo_config False) demo_batch None = Inr lay \<and> lay_padded lay = 6) \<and>
     (\<forall>p. if p < 6 then build_batch_layout (demo_config False) demo_batch (Some p) = Inl (err_dispatch_padding p 6)
          else (\<exists>lay. build_batch_layout (demo_config False) demo_batch (Some p) = Inr lay \<and> lay_padded lay = p))"
  by (rule dispatch_width_exact [OF demo_batch_wf]) code_simp

text \<open>
  With MLA every rank contributes the same number of token rows: the collectives that
  derive their shapes from the attention metadata see equal widths on all ranks.
\<close>

theorem mla_ranks_equal_width:
  assumes "wf_batch b" and "0 < pcp_size cfg" and "use_mla cfg"
    and "build_batch_layout cfg b padded = Inr lay"
  shows "lay_per_rank lay = replicate (pcp_size cfg)
           (get_num_tokens_for_dispatch cfg (ib_num_scheduled_tokens b) (ib_is_prefilling b))"
proof -
  have "(\<Sum>p \<leftarrow> requests b. request_width cfg b r p)
      = get_num_tokens_for_dispatch cfg (ib_num_scheduled_tokens b) (ib_is_prefilling b)" for r
    using assms(3) unfolding get_num_tokens_for_dispatch_def zip_requests [OF assms(1)]
    by (auto simp: comp_def request_width_def share_def intro!: arg_cong [of _ _ sum_list])
  then show ?thesis
    using layout_cases [OF assms(2,1,4)] by (simp add: map_replicate_const)
qed

theorem mla_ranks_equal_width_witness:
  "lay_per_rank (demo_layout True) = replicate (pcp_size (demo_config True))
     (get_num_tokens_for_dispatch (demo_config True) (ib_num_scheduled_tokens demo_batch) (ib_is_prefilling demo_batch))"
  by (rule mla_ranks_equal_width [OF demo_batch_wf _ demo_layout_ok]) code_simp

end
