(* ===== verification/Pcp_Batch.thy ===== *)
theory Pcp_Batch
  imports Pcp_Correct
begin

text \<open>
  The rank-local batch of prefill context parallelism, \<open>src/vllm_hcu/v1/pcp_manager.py\<close> from
  \<open>partition_batch\<close> on: the local input tensors, sequence lengths, logits bookkeeping, slot
  mappings, the attention plan and the restoration of the global token order.  Tensors and
  their host mirrors hold the same values and are one list; device transfers are the
  identity.  vLLM's \<open>get_dcp_local_seq_lens\<close> and the block-table storage are parameters.
\<close>

section \<open>Rows of the local batch\<close>

definition err_draft_counts :: exn where
  "err_draft_counts = Exn PatchCompatibilityError ''PCP spec decode requires per-request draft-token counts''"

definition err_local_reqs :: exn where
  "err_local_reqs = Exn RuntimeError ''PCP local request count exceeds its buffer''"

definition err_local_tokens :: exn where
  "err_local_tokens = Exn RuntimeError ''PCP local token count exceeds its buffer''"

definition err_slot_ownership :: exn where
  "err_slot_ownership = Exn RuntimeError ''PCP rank-0 decode slot ownership is incomplete''"

definition err_local_logits :: exn where
  "err_local_logits =
     Exn PatchCompatibilityError ''PCP local logits exceed their rank-local query lengths''"

definition err_draft_prefill :: exn where
  "err_draft_prefill =
     Exn PatchCompatibilityError ''PCP+MTP draft tokens are only valid for decode requests''"

text \<open>A rank without rows keeps one empty metadata row.\<close>

definition local_rows :: "pcp_config \<Rightarrow> pcp_layout \<Rightarrow> batch_segment list" where
  "local_rows cfg lay =
     (let segs = lay_segments lay ! pcp_rank cfg
      in if segs = [] then [padding_row 0 0 0] else segs)"

definition cumsum :: "nat list \<Rightarrow> nat list" where
  "cumsum xs = map (\<lambda>i. sum_list (take i xs)) [0..<Suc (length xs)]"

definition local_start_pos :: "input_batch \<Rightarrow> batch_segment \<Rightarrow> nat" where
  "local_start_pos b s =
     (if num_actual_tokens s > 0
      then ib_num_computed_tokens b ! bs_req s + bs_gstart s - ib_query_start_loc b ! bs_req s
      else 0)"

section \<open>Local token tensors\<close>

text \<open>Copy the rows' slices of a global tensor into a zeroed local one; rows without tokens copy nothing.\<close>

definition copy_rows :: "'v \<Rightarrow> 'v list \<Rightarrow> nat \<Rightarrow> batch_segment list \<Rightarrow> 'v list" where
  "copy_rows zero src padded segs =
     fold (\<lambda>s. if num_actual_tokens s = 0 then id
               else put_slice (bs_lstart s) (take (num_actual_tokens s) (drop (bs_gstart s) src)))
       segs (replicate padded zero)"

definition mark_rows :: "(batch_segment \<Rightarrow> bool) \<Rightarrow> bool \<Rightarrow> nat \<Rightarrow> batch_segment list \<Rightarrow> bool list" where
  "mark_rows P v padded segs =
     fold (\<lambda>s. if num_actual_tokens s = 0 \<or> \<not> P s then id
               else put_slice (bs_lstart s) (replicate (num_actual_tokens s) v))
       segs (replicate padded (\<not> v))"

text \<open>Where rank 0 holds each decode token; \<open>None\<close> is the initial \<open>-1\<close>.\<close>

definition rank0_decode_position :: "input_batch \<Rightarrow> batch_segment list \<Rightarrow> nat option list" where
  "rank0_decode_position b rank0_rows =
     fold (\<lambda>s. if num_actual_tokens s = 0 \<or> ib_is_prefilling b ! bs_req s then id
               else put_slice (bs_gstart s) (map Some [bs_lstart s..<bs_lstart s + num_actual_tokens s]))
       rank0_rows (replicate (ib_num_tokens b) None)"

definition replicated_slot_step ::
  "input_batch \<Rightarrow> nat option list \<Rightarrow> batch_segment \<Rightarrow> nat list \<Rightarrow> nat list result" where
  "replicated_slot_step b owner s slots =
     (if num_actual_tokens s = 0 \<or> ib_is_prefilling b ! bs_req s then Inr slots
      else let positions = take (num_actual_tokens s) (drop (bs_gstart s) owner)
           in if None \<in> set positions then Inl err_slot_ownership
              else Inr (put_slice (bs_lstart s) (map the positions) slots))"

definition replicated_slot_indices ::
  "input_batch \<Rightarrow> nat \<Rightarrow> batch_segment list \<Rightarrow> batch_segment list \<Rightarrow> nat list result" where
  "replicated_slot_indices b padded rank0_rows segs =
     fold_result (replicated_slot_step b (rank0_decode_position b rank0_rows)) segs (replicate padded 0)"

section \<open>Sequence lengths\<close>

definition full_request_rows :: "input_batch \<Rightarrow> batch_segment list \<Rightarrow> bool" where
  "full_request_rows b segs \<longleftrightarrow>
     list_all (\<lambda>s. num_actual_tokens s > 0 \<and> bs_gstart s = ib_query_start_loc b ! bs_req s
                 \<and> bs_gstop s = ib_query_start_loc b ! (bs_req s + 1)) segs"

definition local_seq_lens :: "input_batch \<Rightarrow> nat list \<Rightarrow> batch_segment list \<Rightarrow> nat list" where
  "local_seq_lens b positions segs =
     (if full_request_rows b segs then map (\<lambda>s. ib_seq_lens b ! bs_req s) segs
      else map (\<lambda>s. if num_actual_tokens s > 0
                    then positions ! (bs_lstart s + num_actual_tokens s - 1) + 1
                    else bs_padding s) segs)"

section \<open>Logits\<close>

definition local_num_logits :: "input_batch \<Rightarrow> batch_segment list \<Rightarrow> nat list" where
  "local_num_logits b segs =
     map (\<lambda>s. if num_actual_tokens s = 0 then 0
              else ib_cu_num_logits b ! (bs_req s + 1) - ib_cu_num_logits b ! bs_req s) segs"

definition local_logits_indices :: "nat list \<Rightarrow> nat list \<Rightarrow> nat list" where
  "local_logits_indices query_start counts =
     concat (map (\<lambda>(row, count). [query_start ! (row + 1) - count..<query_start ! (row + 1)])
       (List.enumerate 0 counts))"

definition repeat_interleave :: "'v list \<Rightarrow> nat list \<Rightarrow> 'v list" where
  "repeat_interleave xs counts = concat (map (\<lambda>(x, n). replicate n x) (zip xs counts))"

definition expanded_local_pos :: "nat list \<Rightarrow> nat list" where
  "expanded_local_pos counts =
     map2 (\<lambda>i start. i - start) [0..<sum_list counts] (repeat_interleave (butlast (cumsum counts)) counts)"

section \<open>The local batch\<close>

record pcp_state =
  ps_global_batch :: "input_batch option"
  ps_global_has_prefill :: bool
  ps_global_attn_ready :: bool
  ps_layout :: "pcp_layout option"
  ps_local_segments :: "batch_segment list"
  ps_replicated_token_mask :: "bool list"
  ps_replicated_slot_indices :: "nat list"

definition local_draft_tokens :: "input_batch \<Rightarrow> batch_segment list \<Rightarrow> bool list \<Rightarrow> nat list option result" where
  "local_draft_tokens b segs local_is_prefilling =
     (case ib_num_draft_tokens_per_req b of
        None \<Rightarrow> Inr None
      | Some per_req \<Rightarrow>
          let drafts = map (\<lambda>s. if num_actual_tokens s = 0 then 0 else per_req ! bs_req s) segs
          in if list_ex (\<lambda>(d, prefill). prefill \<and> d \<noteq> 0) (zip drafts local_is_prefilling)
             then Inl err_draft_prefill else Inr (Some drafts))"

definition local_batch ::
  "input_batch \<Rightarrow> pcp_layout \<Rightarrow> nat \<Rightarrow> batch_segment list \<Rightarrow> nat list option \<Rightarrow> bool list \<Rightarrow> input_batch" where
  "local_batch b lay num_local_tokens segs drafts local_is_prefilling =
     (let padded = lay_padded lay;
          lengths = map seg_num_tokens segs;
          query_start = cumsum lengths;
          start_pos = map (local_start_pos b) segs;
          positions = copy_rows 0 (ib_positions b) padded segs;
          counts = local_num_logits b segs;
          idx_mapping = map (\<lambda>s. ib_idx_mapping b ! bs_req s) segs;
          prefill_len = map (\<lambda>s. ib_prefill_len b ! bs_req s) segs
      in b\<lparr>ib_req_ids := map (\<lambda>s. ib_req_ids b ! bs_req s) segs,
           ib_num_reqs := length segs, ib_num_reqs_after_padding := length segs,
           ib_idx_mapping := idx_mapping,
           ib_expanded_idx_mapping := repeat_interleave idx_mapping counts,
           ib_expanded_local_pos := expanded_local_pos counts,
           ib_num_scheduled_tokens := lengths, ib_num_tokens := num_local_tokens,
           ib_num_tokens_after_padding := padded,
           ib_num_draft_tokens := (case drafts of None \<Rightarrow> 0 | Some ds \<Rightarrow> sum_list ds),
           ib_num_draft_tokens_per_req := drafts,
           ib_query_start_loc := query_start,
           ib_seq_lens := local_seq_lens b positions segs,
           ib_seq_lens_upper := map2 (+) start_pos lengths,
           ib_num_computed_tokens := start_pos, ib_prefill_len := prefill_len,
           ib_num_computed_prefill := map2 min start_pos prefill_len,
           ib_is_prefilling := local_is_prefilling,
           ib_has_prefill := list_ex id local_is_prefilling,
           ib_input_ids := copy_rows 0 (ib_input_ids b) padded segs,
           ib_positions := positions,
           ib_is_padding := mark_rows (\<lambda>_. True) False padded segs,
           ib_logits_indices := local_logits_indices query_start counts,
           ib_cu_num_logits := cumsum counts\<rparr>)"

definition partition_batch :: "pcp_config \<Rightarrow> input_batch \<Rightarrow> nat option \<Rightarrow> (pcp_state, input_batch) op" where
  "partition_batch cfg b padded_num_tokens =
     (if ib_num_draft_tokens b \<noteq> 0 \<and> ib_num_draft_tokens_per_req b = None then throw err_draft_counts
      else
     seq_op (modify (\<lambda>st. st\<lparr>ps_global_batch := Some b, ps_global_has_prefill := list_ex id (ib_is_prefilling b),
                            ps_global_attn_ready := False\<rparr>))
     (bind_op (lift_result (build_batch_layout cfg b padded_num_tokens)) (\<lambda>lay.
      let segs = local_rows cfg lay
      in seq_op (modify (\<lambda>st. st\<lparr>ps_layout := Some lay, ps_local_segments := segs\<rparr>))
     (if length segs > max_local_reqs cfg then throw err_local_reqs
      else if lay_padded lay > max_local_tokens cfg then throw err_local_tokens
      else bind_op (lift_result (replicated_slot_indices b (lay_padded lay) (lay_segments lay ! 0) segs)) (\<lambda>slots.
     seq_op (modify (\<lambda>st. st\<lparr>ps_replicated_slot_indices := slots,
               ps_replicated_token_mask := mark_rows (\<lambda>s. \<not> ib_is_prefilling b ! bs_req s) True (lay_padded lay) segs\<rparr>))
     (if list_ex (\<lambda>(n, s). n > num_actual_tokens s) (zip (local_num_logits b segs) segs) then throw err_local_logits
      else let local_is_prefilling = map (\<lambda>s. min (local_start_pos b s) (ib_prefill_len b ! bs_req s) < ib_prefill_len b ! bs_req s
                                             \<and> ib_is_prefilling b ! bs_req s) segs
           in bind_op (lift_result (local_draft_tokens b segs local_is_prefilling)) (\<lambda>drafts.
              ret (local_batch b lay (lay_per_rank lay ! pcp_rank cfg) segs drafts local_is_prefilling))))))))"

section \<open>Slot mappings and restoration\<close>

definition pad_slot_id :: int where
  "pad_slot_id = - 1"

definition convert_slot_mappings :: "index_arrays \<Rightarrow> int list list \<Rightarrow> int list list" where
  "convert_slot_mappings arr global_slots =
     map (\<lambda>row. map2 (\<lambda>j keep. if keep then row ! j else pad_slot_id) (gather_idx arr) (write_mask arr)) global_slots"

definition get_dummy_slot_mappings :: "pcp_config \<Rightarrow> nat \<Rightarrow> nat \<Rightarrow> int list list result" where
  "get_dummy_slot_mappings cfg num_kv_groups num_tokens =
     (if num_tokens * pcp_size cfg > max_local_tokens cfg * pcp_size cfg
      then raise RuntimeError ''PCP dummy slot count exceeds its buffer''
      else Inr (replicate num_kv_groups (replicate (num_tokens * pcp_size cfg) pad_slot_id)))"

text \<open>
  \<open>all_gather\<close> concatenates the ranks' tensors; indexing by an entry that was never written
  is not defined, hence the \<open>the\<close>.
\<close>

definition restore_hidden_states :: "pcp_layout option \<Rightarrow> 'v list list \<Rightarrow> nat \<Rightarrow> 'v list" where
  "restore_hidden_states lay_opt by_rank rank =
     (case lay_opt of
        None \<Rightarrow> by_rank ! rank
      | Some lay \<Rightarrow> map (\<lambda>j. concat by_rank ! the j) (restore_idx (lay_arrays lay)))"

definition restore_for_sampling ::
  "pcp_state \<Rightarrow> 'v list list option \<Rightarrow> nat \<Rightarrow> ('v list option \<times> input_batch) result" where
  "restore_for_sampling st hidden rank =
     (case ps_global_batch st of
        None \<Rightarrow> raise AssertionError []
      | Some b \<Rightarrow> Inr (map_option (\<lambda>by_rank. restore_hidden_states (ps_layout st) by_rank rank) hidden, b))"

section \<open>Attention plan\<close>

record pcp_context_plan =
  cp_padded_num_tokens :: nat
  cp_restore_idx :: "nat option list"
  cp_local_idx :: "nat list"
  cp_cu_q :: "nat list"
  cp_max_q :: nat
  cp_ctx_lens :: "nat list"
  cp_ctx_cu :: "nat list"
  cp_max_ctx :: nat

record pcp_plan =
  pl_new_kv_idx :: "nat option list"
  pl_new_cu_kv :: "nat list"
  pl_new_max_kv :: nat
  pl_ctx :: "pcp_context_plan option"

definition row_kv :: "input_batch \<Rightarrow> nat option list \<Rightarrow> batch_segment \<Rightarrow> nat option list" where
  "row_kv b restore s =
     take (bs_gstop s - ib_query_start_loc b ! bs_req s) (drop (ib_query_start_loc b ! bs_req s) restore)"

definition build_plan ::
  "pcp_config \<Rightarrow> (nat list \<Rightarrow> nat \<Rightarrow> nat \<Rightarrow> nat \<Rightarrow> nat list) \<Rightarrow> pcp_state \<Rightarrow> pcp_plan option" where
  "build_plan cfg get_dcp_local_seq_lens st =
     (case (ps_global_batch st, ps_layout st) of
        (Some b, Some lay) \<Rightarrow>
          if use_mla cfg \<or> dcp_world_size cfg \<le> 1 \<or> \<not> ps_global_has_prefill st then None
          else
           (let segs = ps_local_segments st;
                restore = restore_idx (lay_arrays lay);
                lens = map (\<lambda>s. bs_gstop s - ib_query_start_loc b ! bs_req s) segs;
                computed = take (ib_num_reqs b) (ib_num_computed_tokens b);
                has_context = list_ex (\<lambda>c. c \<noteq> 0) computed;
                ctx_lens = (if has_context
                            then get_dcp_local_seq_lens computed (dcp_world_size cfg) (dcp_rank cfg) (cp_interleave cfg)
                            else []);
                rank_start = pcp_rank cfg * lay_padded lay;
                num_local = sum_list (map seg_num_tokens segs)
            in Some \<lparr>pl_new_kv_idx = concat (map (row_kv b restore) segs),
                     pl_new_cu_kv = cumsum lens,
                     pl_new_max_kv = foldr max lens 0,
                     pl_ctx = (if \<not> has_context then None
                       else Some \<lparr>cp_padded_num_tokens = lay_padded lay, cp_restore_idx = restore,
                         cp_local_idx = take num_local (drop rank_start (gather_idx (lay_arrays lay))),
                         cp_cu_q = take (ib_num_reqs b + 1) (ib_query_start_loc b),
                         cp_max_q = foldr max (ib_num_scheduled_tokens b) 0,
                         cp_ctx_lens = ctx_lens, cp_ctx_cu = cumsum ctx_lens,
                         cp_max_ctx = foldr max ctx_lens 0\<rparr>)\<rparr>)
      | _ \<Rightarrow> None)"

section \<open>Construction\<close>

definition repr_args :: "nat \<times> nat \<times> nat \<times> nat option \<times> nat option \<Rightarrow> string" where
  "repr_args args =
     (let (a, b, c, d, e) = args; show = (\<lambda>x. case x of None \<Rightarrow> ''None'' | Some n \<Rightarrow> str_nat n)
      in ''('' @ py_join '', '' [str_nat a, str_nat b, str_nat c, show d, show e] @ '')'')"

definition err_constructor_args ::
  "nat \<times> nat \<times> nat \<times> nat option \<times> nat option \<Rightarrow> nat \<times> nat \<times> nat \<times> nat option \<times> nat option \<Rightarrow> exn" where
  "err_constructor_args actual expected = Exn PatchCompatibilityError
     (''official PCP manager constructor arguments do not match the bound HCU config: actual='' @
      repr_args actual @ '', expected='' @ repr_args expected)"

definition err_constructor_state :: exn where
  "err_constructor_state =
     Exn PatchCompatibilityError ''official PCP manager constructor omitted HCU runtime state''"

definition err_constructor_ranks :: exn where
  "err_constructor_ranks =
     Exn PatchCompatibilityError ''official PCP manager ranks do not match HCU process groups''"

text \<open>The checks of the bound constructor; the ranks of the process groups are given.\<close>

definition check_constructor ::
  "(nat \<times> nat \<times> nat \<times> nat option \<times> nat option) \<Rightarrow> (nat \<times> nat \<times> nat \<times> nat \<times> nat) \<Rightarrow> bool
     \<Rightarrow> nat \<times> nat \<Rightarrow> nat \<times> nat \<Rightarrow> unit result" where
  "check_constructor actual expected has_state group_ranks ranks =
     (let (pcp, dcp, interleave, seqs, tokens) = expected;
          wanted = (pcp, dcp, interleave, Some seqs, Some tokens)
      in if actual \<noteq> wanted then Inl (err_constructor_args actual wanted)
         else if \<not> has_state then Inl err_constructor_state
         else if group_ranks \<noteq> ranks then Inl err_constructor_ranks
         else Inr ())"

section \<open>Copying rows\<close>

lemma copy_rows_write_all:
  "copy_rows zero src padded segs =
     write_all bs_lstart (\<lambda>s. take (num_actual_tokens s) (drop (bs_gstart s) src)) segs (replicate padded zero)"
  unfolding copy_rows_def by (intro fold_cong) auto

lemma rank_cells:
  assumes "sound_rows b padded by_rank" and "r < length by_rank"
  shows "distinct (concat (map (\<lambda>s. [bs_lstart s..<bs_lstart s + num_actual_tokens s]) (by_rank ! r)))"
    and "s \<in> set (by_rank ! r) \<Longrightarrow> bs_lstart s + num_actual_tokens s \<le> padded"
proof -
  obtain rows where "by_rank ! r = reorder_segments b rows" using assms by (auto simp: sound_rows_def)
  then obtain srt where srt: "by_rank ! r = relocate 0 srt" by (simp add: reorder_segments_def)
  have "subseq (concat (map (\<lambda>s. [bs_lstart s..<bs_lstart s + num_actual_tokens s]) (relocate 0 srt)))
      (concat (map (\<lambda>s. [bs_lstart s..<bs_lstop s]) (relocate 0 srt)))"
    by (intro subseq_concat_map subseq_upt) (auto dest: relocate_actual)
  moreover have tiles: "concat (map (\<lambda>s. [bs_lstart s..<bs_lstop s]) (relocate 0 srt)) = [0..<total_tokens srt]"
    using relocate_tiles [of 0 0 srt] by simp
  ultimately show "distinct (concat (map (\<lambda>s. [bs_lstart s..<bs_lstart s + num_actual_tokens s]) (by_rank ! r)))"
    unfolding srt using subseq_distinct by (metis distinct_upt)
  have total: "total_tokens srt \<le> padded"
  proof -
    have "map seg_num_tokens (relocate 0 srt) = map seg_num_tokens srt"
      by (rule relocate_map) (simp add: seg_num_tokens_def num_actual_tokens_def)
    then show ?thesis using assms by (auto simp: sound_rows_def srt total_tokens_def)
  qed
  have "bs_lstop s \<le> off + total_tokens xs" if "s \<in> set (relocate off xs)" for s off xs
    using that by (induction xs arbitrary: off) fastforce+
  then show "s \<in> set (by_rank ! r) \<Longrightarrow> bs_lstart s + num_actual_tokens s \<le> padded"
    unfolding srt using relocate_actual [of s 0 srt] total by fastforce
qed

lemma copy_rows_nth:
  assumes "sound_rows b padded by_rank" and "r < length by_rank" and "s \<in> set (by_rank ! r)"
    and "k < num_actual_tokens s" and "bs_gstart s + num_actual_tokens s \<le> length src"
    and "\<And>s. s \<in> set (by_rank ! r) \<Longrightarrow> 0 < num_actual_tokens s \<Longrightarrow> bs_gstart s + num_actual_tokens s \<le> length src"
  shows "copy_rows zero src padded (by_rank ! r) ! (bs_lstart s + k) = src ! (bs_gstart s + k)"
proof -
  let ?v = "\<lambda>s. take (num_actual_tokens s) (drop (bs_gstart s) src)"
  have len: "length (?v s) = num_actual_tokens s" if "s \<in> set (by_rank ! r)" for s
    using assms(6) [OF that] by (cases "num_actual_tokens s = 0") auto
  have "writes_fit bs_lstart ?v (by_rank ! r) (replicate padded zero)"
    using rank_cells(2) [OF assms(1,2)] len by (auto simp: writes_fit_def simp del: length_take length_drop)
  moreover have "distinct (concat (map (\<lambda>s. [bs_lstart s..<bs_lstart s + length (?v s)]) (by_rank ! r)))"
    using rank_cells(1) [OF assms(1,2)] len by (simp cong: map_cong del: length_take length_drop)
  ultimately have "write_all bs_lstart ?v (by_rank ! r) (replicate padded zero) ! (bs_lstart s + k) = ?v s ! k"
    using assms(3,4) len by (intro write_all_written) (auto simp del: length_take length_drop)
  then show ?thesis
    using assms(4,5) by (simp add: copy_rows_write_all)
qed

lemma row_writes_mem: "(r, s) \<in> set (row_writes by_rank) \<longleftrightarrow> r < length by_rank \<and> s \<in> set (by_rank ! r)"
  by (auto simp: row_writes_upt)

section \<open>Rows stay inside their request\<close>

definition row_ok :: "input_batch \<Rightarrow> batch_segment \<Rightarrow> bool" where
  "row_ok b s \<longleftrightarrow> bs_req s < length (ib_num_scheduled_tokens b) \<and>
     ib_query_start_loc b ! bs_req s \<le> bs_gstart s \<and>
     bs_gstop s \<le> ib_query_start_loc b ! bs_req s + ib_num_scheduled_tokens b ! bs_req s"

lemma row_ok_local [simp]: "row_ok b (s\<lparr>bs_lstart := a, bs_lstop := z\<rparr>) = row_ok b s"
  by (simp add: row_ok_def)

lemma reorder_row_ok: "(\<forall>s \<in> set (reorder_segments b' segs). row_ok b s) \<longleftrightarrow> (\<forall>s \<in> set segs. row_ok b s)"
proof -
  have "map (row_ok b) (relocate 0 (sort_key (is_pure_prefill b') segs)) = map (row_ok b) (sort_key (is_pure_prefill b') segs)"
    by (rule relocate_map) simp
  then have "row_ok b ` set (reorder_segments b' segs) = row_ok b ` set segs"
    unfolding reorder_segments_def by (metis list.set_map set_sort)
  then show ?thesis by (metis (full_types) image_iff)
qed

lemma emit_row:
  "s \<in> set (fst (emit_segments req g ss off)) \<Longrightarrow>
     \<exists>x \<in> set ss. bs_req s = req \<and> bs_gstart s = g + rs_start x \<and> bs_gstop s = g + rs_stop x"
  by (induction ss arbitrary: off) (auto simp: Let_def split_beta split: if_splits)

lemma request_segments_bound: "x \<in> set (request_segments n rank b req len) \<Longrightarrow> rs_stop x \<le> len"
  by (auto simp: request_segments_def dual_chunks_def chunk_segment_def Let_def split: if_splits)

lemma raw_row_ok:
  "s \<in> set (raw_segments n rank b ps off) \<Longrightarrow>
     \<exists>(req, len) \<in> set ps. bs_req s = req \<and> ib_query_start_loc b ! req \<le> bs_gstart s \<and>
       bs_gstop s \<le> ib_query_start_loc b ! req + len"
proof (induction ps arbitrary: off)
  case (Cons p ps)
  obtain req len where p: "p = (req, len)" by (cases p)
  obtain segs off' where e: "emit_segments req (ib_query_start_loc b ! req)
      (request_segments n rank b req len) off = (segs, off')" by fastforce
  from Cons.prems consider "s \<in> set segs" | off'' where "s \<in> set (raw_segments n rank b ps off'')"
    by (auto simp: p e split: if_splits)
  then show ?case
  proof cases
    case 1
    then obtain x where x: "x \<in> set (request_segments n rank b req len)" "bs_req s = req"
      "bs_gstart s = ib_query_start_loc b ! req + rs_start x" "bs_gstop s = ib_query_start_loc b ! req + rs_stop x"
      using emit_row [of s req "ib_query_start_loc b ! req" "request_segments n rank b req len" off] e by auto
    then show ?thesis using request_segments_bound [OF x(1)] by (auto simp: p)
  next
    case 2
    then show ?thesis using Cons.IH by fastforce
  qed
qed simp

lemma segments_row_ok: "\<forall>s \<in> set (segments_for_rank n rank b). row_ok b s"
  unfolding segments_for_rank_def reorder_row_ok
  using raw_row_ok by (fastforce simp: row_ok_def enumerate_upt)

lemma append_padding_rows:
  "append_padding req g t rows segs = Inr segs' \<Longrightarrow>
     \<exists>pads. segs' = segs @ pads \<and> (\<forall>p \<in> set pads. \<exists>d. p = padding_row req g d)"
  by (auto simp: append_padding_def Let_def split: if_splits)

lemma pad_request_cases:
  assumes "pad_request mla b (req, len) by_rank = Inr out"
  shows "out = by_rank \<or>
    (\<exists>t rows. map_result (append_padding req (ib_query_start_loc b ! req) t rows) by_rank = Inr out)"
proof (rule ccontr)
  assume no: "\<not> ?thesis"
  have "(if c then Inr by_rank else if d then Inr by_rank
      else map_result (append_padding req (ib_query_start_loc b ! req) t rows) by_rank) \<noteq> Inr out" for c d t rows
    using no by auto
  then show False using assms unfolding pad_request_def Let_def prod.case by blast
qed

lemma pad_request_row_ok:
  assumes "pad_request mla b (req, len) by_rank = Inr out" and "req < length (ib_num_scheduled_tokens b)"
    and "\<forall>segs \<in> set by_rank. \<forall>s \<in> set segs. row_ok b s"
  shows "\<forall>segs \<in> set out. \<forall>s \<in> set segs. row_ok b s"
proof -
  have pad: "row_ok b (padding_row req (ib_query_start_loc b ! req) d)" for d
    using assms(2) by (simp add: row_ok_def padding_row_def)
  from assms(1) consider "out = by_rank"
    | t rows where "map_result (append_padding req (ib_query_start_loc b ! req) t rows) by_rank = Inr out"
    using pad_request_cases by blast
  then show ?thesis
  proof cases
    case 2
    then have "list_all2 (\<lambda>x y. append_padding req (ib_query_start_loc b ! req) t rows x = Inr y) by_rank out"
      by (simp add: map_result_Inr_iff)
    then have each: "\<exists>x \<in> set by_rank. append_padding req (ib_query_start_loc b ! req) t rows x = Inr y"
      if "y \<in> set out" for y
      using that by (force simp: list_all2_conv_all_nth in_set_conv_nth [of y])
    show ?thesis
    proof (intro ballI)
      fix y s
      assume y: "y \<in> set out" and s: "s \<in> set y"
      obtain x where x: "x \<in> set by_rank" "append_padding req (ib_query_start_loc b ! req) t rows x = Inr y"
        using each [OF y] by blast
      obtain pads where pads: "y = x @ pads"
        "\<forall>p \<in> set pads. \<exists>d. p = padding_row req (ib_query_start_loc b ! req) d"
        using append_padding_rows [OF x(2)] by blast
      show "row_ok b s"
      proof (cases "s \<in> set x")
        case True
        then show ?thesis using assms(3) x(1) by blast
      next
        case False
        then have "s \<in> set pads" using s pads(1) by simp
        then obtain d where "s = padding_row req (ib_query_start_loc b ! req) d" using pads(2) by blast
        then show ?thesis using pad by simp
      qed
    qed
  qed (use assms in simp)
qed

lemma padded_row_ok:
  assumes "padded_segments cfg b = Inr out" and "segs \<in> set out" and "s \<in> set segs"
  shows "row_ok b s"
proof -
  obtain mid where mid: "fold_result (pad_request (use_mla cfg) b) (requests b) (rank_rows cfg b) = Inr mid"
    and out: "out = map (reorder_segments b) mid"
    using assms(1) by (auto simp: padded_segments_def and_then_Inr_iff)
  have "\<forall>segs \<in> set mid. \<forall>s \<in> set segs. row_ok b s"
    using mid
  proof (rule fold_result_invariant)
    show "\<forall>segs \<in> set (rank_rows cfg b). \<forall>s \<in> set segs. row_ok b s"
      using segments_row_ok by fastforce
    fix p x y
    assume "p \<in> set (requests b)" "\<forall>segs \<in> set x. \<forall>s \<in> set segs. row_ok b s"
      "pad_request (use_mla cfg) b p x = Inr y"
    then show "\<forall>segs \<in> set y. \<forall>s \<in> set segs. row_ok b s"
      using pad_request_row_ok [of "use_mla cfg" b "fst p" "snd p" x y] by (auto simp: enumerate_upt)
  qed
  then show ?thesis using assms(2,3) reorder_row_ok [of b _ b] by (auto simp: out)
qed

lemma row_ok_bound:
  assumes "wf_batch b" and "row_ok b s"
  shows "bs_gstop s \<le> ib_num_tokens b"
proof -
  let ?l = "ib_num_scheduled_tokens b"
  have r: "bs_req s < length ?l" using assms(2) by (simp add: row_ok_def)
  have "bs_gstop s \<le> sum_list (take (bs_req s) ?l) + ?l ! bs_req s"
    using assms r wf_query_start [OF assms(1), of "bs_req s"] by (simp add: row_ok_def)
  also have "\<dots> = sum_list (take (Suc (bs_req s)) ?l)" using r by (simp add: take_Suc_conv_app_nth)
  also have "\<dots> \<le> sum_list ?l"
    by (metis append_take_drop_id le_add1 sum_list_append)
  finally show ?thesis using assms(1) by (simp add: wf_batch_def)
qed

lemma layout_rows_ok:
  assumes "build_batch_layout cfg b padded = Inr lay" and "segs \<in> set (lay_segments lay)" and "s \<in> set segs"
  shows "row_ok b s"
proof -
  have "padded_segments cfg b = Inr (lay_segments lay)"
    using assms(1) by (auto simp: build_batch_layout_def and_then_Inr_iff Let_def split: option.splits if_splits)
  then show ?thesis using assms(2,3) by (rule padded_row_ok)
qed

section \<open>Gathering and restoring\<close>

lemma concat_nth_blocks:
  assumes "\<And>r. r < n \<Longrightarrow> length (f r) = p" and "r < n" and "l < p"
  shows "concat (map f [0..<n]) ! (r * p + l) = f r ! l"
  using assms
proof (induction n)
  case (Suc n)
  have len: "length (concat (map f [0..<n])) = n * p"
  proof -
    have "map (\<lambda>r. length (f r)) [0..<n] = replicate n p"
      using Suc.prems(1) by (intro nth_equalityI) auto
    then show ?thesis by (simp add: length_concat comp_def)
  qed
  show ?case
  proof (cases "r < n")
    case True
    have "r * p + l < Suc r * p" using Suc.prems(3) by simp
    also have "\<dots> \<le> n * p" using True by (intro mult_le_mono1) simp
    finally have "r * p + l < n * p" .
    then show ?thesis using Suc True len by (simp add: nth_append)
  next
    case False
    then have "r = n" using Suc.prems(2) by simp
    then show ?thesis using Suc.prems len by (simp add: nth_append)
  qed
qed simp

text \<open>A layout that was built for a well-formed batch.\<close>

definition built :: "pcp_config \<Rightarrow> input_batch \<Rightarrow> pcp_layout \<Rightarrow> bool" where
  "built cfg b lay \<longleftrightarrow> wf_batch b \<and> 0 < pcp_size cfg \<and> (\<exists>padded. build_batch_layout cfg b padded = Inr lay)"

lemma built_sound:
  assumes "built cfg b lay"
  shows "length (lay_segments lay) = pcp_size cfg" "sound_rows b (lay_padded lay) (lay_segments lay)"
    "lay_arrays lay = index_arrays_of b (lay_padded lay) (lay_segments lay)"
  using assms layout_cases by (auto simp: built_def)

lemma built_row_bound:
  assumes "built cfg b lay" and "r < pcp_size cfg" and "s \<in> set (lay_segments lay ! r)" and "0 < num_actual_tokens s"
  shows "bs_gstart s + num_actual_tokens s \<le> ib_num_tokens b"
proof -
  have "lay_segments lay ! r \<in> set (lay_segments lay)" using built_sound(1) [OF assms(1)] assms(2) by simp
  then have "row_ok b s" using assms(1,3) layout_rows_ok by (auto simp: built_def)
  then have "bs_gstop s \<le> ib_num_tokens b" using assms(1) row_ok_bound by (auto simp: built_def)
  then show ?thesis using assms(4) by (simp add: num_actual_tokens_def)
qed

lemma built_copy_nth:
  assumes "built cfg b lay" and "r < pcp_size cfg" and "s \<in> set (lay_segments lay ! r)"
    and "k < num_actual_tokens s" and "length src = ib_num_tokens b"
  shows "copy_rows zero src (lay_padded lay) (lay_segments lay ! r) ! (bs_lstart s + k) = src ! (bs_gstart s + k)"
  using built_row_bound [OF assms(1,2)] assms
  by (intro copy_rows_nth [OF built_sound(2) [OF assms(1)]]) (auto simp: built_sound(1))

lemma built_copy_length:
  assumes "built cfg b lay" and "r < pcp_size cfg"
  shows "length (copy_rows zero src (lay_padded lay) (lay_segments lay ! r)) = lay_padded lay"
proof -
  have "bs_lstart s + num_actual_tokens s \<le> lay_padded lay" if "s \<in> set (lay_segments lay ! r)" for s
    using rank_cells(2) [OF built_sound(2) [OF assms(1)] _ that] assms(2) built_sound(1) [OF assms(1)] by simp
  then have "writes_fit bs_lstart (\<lambda>s. take (num_actual_tokens s) (drop (bs_gstart s) src))
      (lay_segments lay ! r) (replicate (lay_padded lay) zero)"
    by (fastforce simp: writes_fit_def)
  from write_all_frame [OF this] show ?thesis by (simp add: copy_rows_write_all)
qed

text \<open>Where a token of the global batch lives: its rank, row and offset in the row.\<close>

lemma token_home:
  assumes "built cfg b lay" and "i < ib_num_tokens b"
  shows "\<exists>r s k. r < pcp_size cfg \<and> s \<in> set (lay_segments lay ! r) \<and> k < num_actual_tokens s
    \<and> i = bs_gstart s + k \<and> bs_lstart s + k < lay_padded lay
    \<and> restore_idx (lay_arrays lay) ! i = Some (r * lay_padded lay + (bs_lstart s + k))"
proof -
  let ?segs = "lay_segments lay" and ?p = "lay_padded lay"
  note lay = built_sound [OF assms(1)]
  obtain w where w: "w \<in> set (owned_writes b ?segs)" "bs_gstart (snd w) \<le> i" "i < bs_gstop (snd w)"
    using sources_ok(2) [OF lay(2)] assms(2) by blast
  define k where "k = i - bs_gstart (snd w)"
  have rs: "fst w < length ?segs" "snd w \<in> set (?segs ! fst w)"
    using w(1) row_writes_mem [of "fst w" "snd w" ?segs] by auto
  have k: "k < num_actual_tokens (snd w)" "i = bs_gstart (snd w) + k"
    using w by (auto simp: k_def num_actual_tokens_def)
  have "bs_lstart (snd w) + k < ?p" using rank_cells(2) [OF lay(2) rs] k(1) by simp
  moreover have "restore_idx (lay_arrays lay) ! i = Some (fst w * ?p + (bs_lstart (snd w) + k))"
    using arrays_written(5) [OF lay(2), of w k] w(1) k by (simp add: lay(3) add.assoc)
  ultimately show ?thesis using rs k lay(1) by auto
qed

section \<open>Partitioning\<close>

lemma layout_any_rank: "build_batch_layout (cfg\<lparr>pcp_rank := r\<rparr>) b padded = build_batch_layout cfg b padded"
  by (simp add: build_batch_layout_def padded_segments_def)

lemma local_rows_copy:
  "copy_rows zero src p (local_rows cfg lay) = copy_rows zero src p (lay_segments lay ! pcp_rank cfg)"
  by (simp add: local_rows_def Let_def copy_rows_def padding_row_def num_actual_tokens_def)

lemma partition_batch_tensors:
  assumes "partition_batch cfg b padded st = Some (Inr loc, st')"
  shows "\<exists>lay. build_batch_layout cfg b padded = Inr lay \<and> ps_layout st' = Some lay
     \<and> ps_global_batch st' = Some b
     \<and> ib_input_ids loc = copy_rows 0 (ib_input_ids b) (lay_padded lay) (lay_segments lay ! pcp_rank cfg)
     \<and> ib_positions loc = copy_rows 0 (ib_positions b) (lay_padded lay) (lay_segments lay ! pcp_rank cfg)"
  using assms
  by (auto simp: partition_batch_def op_defs op_simps Let_def local_batch_def local_rows_copy
      split: if_splits sum.splits option.splits)

section \<open>Properties\<close>

text \<open>
  C11. Context parallelism is transparent to token-wise computation: when every rank runs the
  same function of token id and position on its local batch, gathering the ranks' outputs
  and restoring them gives that function of the global batch, in the global token order.
\<close>

theorem restored_states_in_global_order:
  assumes "wf_batch b" and "0 < pcp_size cfg"
    and "length (ib_input_ids b) = ib_num_tokens b" and "length (ib_positions b) = ib_num_tokens b"
    and "\<And>r. r < pcp_size cfg \<Longrightarrow> partition_batch (cfg\<lparr>pcp_rank := r\<rparr>) b padded (st r) = Some (Inr (loc r), st' r)"
    and "rank < pcp_size cfg"
  shows "restore_hidden_states (ps_layout (st' rank))
           (map (\<lambda>r. map2 f (ib_input_ids (loc r)) (ib_positions (loc r))) [0..<pcp_size cfg]) rank
         = map2 f (ib_input_ids b) (ib_positions b)"
proof -
  let ?n = "pcp_size cfg"
  obtain lay where run: "build_batch_layout cfg b padded = Inr lay" and st: "ps_layout (st' rank) = Some lay"
    using partition_batch_tensors [OF assms(5) [OF assms(6)]] layout_any_rank by auto
  have built: "built cfg b lay" using assms(1,2) run by (auto simp: built_def)
  have loc: "ib_input_ids (loc r) = copy_rows 0 (ib_input_ids b) (lay_padded lay) (lay_segments lay ! r)"
    "ib_positions (loc r) = copy_rows 0 (ib_positions b) (lay_padded lay) (lay_segments lay ! r)" if "r < ?n" for r
    using partition_batch_tensors [OF assms(5) [OF that]] layout_any_rank run by auto
  let ?f = "\<lambda>r. map2 f (ib_input_ids (loc r)) (ib_positions (loc r))"
  have blocks: "length (?f r) = lay_padded lay" if "r < ?n" for r
    by (simp add: loc [OF that] built_copy_length [OF built that])
  have restored: "restore_hidden_states (ps_layout (st' rank)) (map ?f [0..<?n]) rank
      = map (\<lambda>j. concat (map ?f [0..<?n]) ! the j) (restore_idx (lay_arrays lay))"
    using st by (simp add: restore_hidden_states_def)
  have len: "length (restore_idx (lay_arrays lay)) = ib_num_tokens b"
    using arrays_written(3) built_sound [OF built] by metis
  show ?thesis
    unfolding restored
  proof (rule nth_equalityI)
    show "length (map (\<lambda>j. concat (map ?f [0..<?n]) ! the j) (restore_idx (lay_arrays lay)))
        = length (map2 f (ib_input_ids b) (ib_positions b))"
      using len assms(3,4) by simp
    fix i
    assume "i < length (map (\<lambda>j. concat (map ?f [0..<?n]) ! the j) (restore_idx (lay_arrays lay)))"
    then have i: "i < ib_num_tokens b" using len by simp
    then obtain r s k where h: "r < ?n" "s \<in> set (lay_segments lay ! r)" "k < num_actual_tokens s" "i = bs_gstart s + k"
        "bs_lstart s + k < lay_padded lay"
        "restore_idx (lay_arrays lay) ! i = Some (r * lay_padded lay + (bs_lstart s + k))"
      using token_home [OF built] by metis
    have "concat (map ?f [0..<?n]) ! (r * lay_padded lay + (bs_lstart s + k)) = ?f r ! (bs_lstart s + k)"
      using concat_nth_blocks [of ?n ?f "lay_padded lay" r "bs_lstart s + k"] blocks h(1,5) by blast
    also have "\<dots> = f (ib_input_ids b ! i) (ib_positions b ! i)"
      using h(4,5) assms(3,4)
      by (simp add: loc [OF h(1)] built_copy_length [OF built h(1)] built_copy_nth [OF built h(1-3)])
    finally show "map (\<lambda>j. concat (map ?f [0..<?n]) ! the j) (restore_idx (lay_arrays lay)) ! i
        = map2 f (ib_input_ids b) (ib_positions b) ! i"
      using i len h(6) assms(3,4) by simp
  qed
qed

definition idle_state :: pcp_state where
  "idle_state = \<lparr>ps_global_batch = None, ps_global_has_prefill = False, ps_global_attn_ready = False,
     ps_layout = None, ps_local_segments = [], ps_replicated_token_mask = [], ps_replicated_slot_indices = []\<rparr>"

definition demo_partition :: "nat \<Rightarrow> input_batch result \<times> pcp_state" where
  "demo_partition r = the (partition_batch (demo_config True\<lparr>pcp_rank := r\<rparr>) demo_batch None idle_state)"

definition demo_local :: "nat \<Rightarrow> input_batch" where
  "demo_local r = (case fst (demo_partition r) of Inr x \<Rightarrow> x)"

lemma demo_partition_ok:
  "r < pcp_size (demo_config True) \<Longrightarrow>
     partition_batch (demo_config True\<lparr>pcp_rank := r\<rparr>) demo_batch None idle_state
       = Some (Inr (demo_local r), snd (demo_partition r))"
proof -
  have "(case partition_batch (demo_config True\<lparr>pcp_rank := 0\<rparr>) demo_batch None idle_state of
       None \<Rightarrow> False | Some (v, _) \<Rightarrow> returns v)"
    "(case partition_batch (demo_config True\<lparr>pcp_rank := 1\<rparr>) demo_batch None idle_state of
       None \<Rightarrow> False | Some (v, _) \<Rightarrow> returns v)"
    by code_simp+
  moreover assume "r < pcp_size (demo_config True)"
  then have "r = 0 \<or> r = 1" by (auto simp: demo_config_def)
  ultimately show ?thesis
    by (auto simp: demo_local_def demo_partition_def returns_iff split: option.splits prod.splits)
qed

theorem restored_states_in_global_order_witness:
  "restore_hidden_states (ps_layout (snd (demo_partition 1)))
     (map (\<lambda>r. map2 (\<lambda>x p. x + int p) (ib_input_ids (demo_local r)) (ib_positions (demo_local r)))
        [0..<pcp_size (demo_config True)]) 1
   = map2 (\<lambda>x p. x + int p) (ib_input_ids demo_batch) (ib_positions demo_batch)"
  by (rule restored_states_in_global_order [OF demo_batch_wf _ _ demo_partition_ok])
    (simp_all add: demo_batch_def demo_config_def)

lemma masked_gather_permutes:
  assumes "built cfg b lay"
  shows "mset (map (\<lambda>j. gather_idx (lay_arrays lay) ! j)
            (filter (\<lambda>j. write_mask (lay_arrays lay) ! j) [0..<lay_padded lay * pcp_size cfg]))
       = mset [0..<ib_num_tokens b]"
proof -
  let ?g = "\<lambda>j. gather_idx (lay_arrays lay) ! j" and ?N = "lay_padded lay * pcp_size cfg"
  let ?js = "filter (\<lambda>j. write_mask (lay_arrays lay) ! j) [0..<?N]"
  note lay = built_sound [OF assms]
  have origin: "?g j < ib_num_tokens b \<and> restore_idx (lay_arrays lay) ! (?g j) = Some j" if "j \<in> set ?js" for j
    using arrays_inverse(2) [OF lay(2), of j] that lay by auto
  have "inj_on ?g (set ?js)"
    by (rule inj_onI) (metis origin option.inject)
  then have "distinct (map ?g ?js)" by (simp add: distinct_map)
  moreover have "set (map ?g ?js) = set [0..<ib_num_tokens b]"
  proof
    show "set (map ?g ?js) \<subseteq> set [0..<ib_num_tokens b]" using origin by auto
    show "set [0..<ib_num_tokens b] \<subseteq> set (map ?g ?js)"
    proof
      fix i
      assume "i \<in> set [0..<ib_num_tokens b]"
      then obtain j where "j < ?N" "?g j = i" "write_mask (lay_arrays lay) ! j"
        using arrays_inverse(1) [OF lay(2), of i] lay by auto
      then show "i \<in> set (map ?g ?js)" by auto
    qed
  qed
  ultimately show ?thesis by (metis distinct_upt set_eq_iff_mset_eq_distinct)
qed

lemma filter_kept:
  assumes "length g = N" and "length m = N" and "\<And>j. j < N \<Longrightarrow> m ! j \<Longrightarrow> h (g ! j) \<noteq> z"
  shows "filter (\<lambda>v. v \<noteq> z) (map2 (\<lambda>j keep. if keep then h j else z) g m)
       = map (\<lambda>j. h (g ! j)) (filter (\<lambda>j. m ! j) [0..<N])"
proof -
  have "map2 (\<lambda>j keep. if keep then h j else z) g m = map (\<lambda>j. if m ! j then h (g ! j) else z) [0..<N]"
    using assms(1,2) by (intro nth_equalityI) auto
  then show ?thesis
    using assms(3) by (simp add: filter_map comp_def) (rule map_cong [OF filter_cong], auto)
qed

text \<open>
  C13. The converted slot mapping writes every token's slot exactly once: without the padding
  entries, each KV group's expanded mapping is a permutation of the group's global slots.
\<close>

theorem slot_mapping_permutation:
  assumes "wf_batch b" and "0 < pcp_size cfg" and "build_batch_layout cfg b padded = Inr lay"
    and "g < length slots" and "length (slots ! g) = ib_num_tokens b" and "pad_slot_id \<notin> set (slots ! g)"
  shows "mset (filter (\<lambda>v. v \<noteq> pad_slot_id) (convert_slot_mappings (lay_arrays lay) slots ! g)) = mset (slots ! g)"
proof -
  let ?a = "lay_arrays lay" and ?N = "lay_padded lay * pcp_size cfg"
  have built: "built cfg b lay" using assms(1-3) by (auto simp: built_def)
  note lay = built_sound [OF built]
  have len: "length (gather_idx ?a) = ?N" "length (write_mask ?a) = ?N"
    using arrays_written(1,2) [OF lay(2)] lay by auto
  have "slots ! g ! (gather_idx ?a ! j) \<noteq> pad_slot_id" if "j < ?N" "write_mask ?a ! j" for j
    using arrays_inverse(2) [OF lay(2), of j] that lay assms(5,6) by (metis nth_mem)
  then have "filter (\<lambda>v. v \<noteq> pad_slot_id) (convert_slot_mappings ?a slots ! g)
      = map (\<lambda>j. slots ! g ! (gather_idx ?a ! j)) (filter (\<lambda>j. write_mask ?a ! j) [0..<?N])"
    using assms(4) filter_kept [OF len, of "(!) (slots ! g)" pad_slot_id] by (simp add: convert_slot_mappings_def)
  then have "mset (filter (\<lambda>v. v \<noteq> pad_slot_id) (convert_slot_mappings ?a slots ! g))
      = image_mset ((!) (slots ! g)) (mset (map (\<lambda>j. gather_idx ?a ! j) (filter (\<lambda>j. write_mask ?a ! j) [0..<?N])))"
    by (simp add: multiset.map_comp comp_def)
  also have "\<dots> = mset (map ((!) (slots ! g)) [0..<ib_num_tokens b])"
    unfolding masked_gather_permutes [OF built] by (simp del: mset_upt)
  also have "\<dots> = mset (slots ! g)"
    using assms(5) map_nth [of "slots ! g"] by simp
  finally show ?thesis .
qed

definition demo_slots :: "int list list" where
  "demo_slots = [[40, 41, 42, 43, 44, 7, 90, 91, 92]]"

theorem slot_mapping_permutation_witness:
  "mset (filter (\<lambda>v. v \<noteq> pad_slot_id) (convert_slot_mappings (lay_arrays (demo_layout True)) demo_slots ! 0))
     = mset (demo_slots ! 0)"
  by (rule slot_mapping_permutation [OF demo_batch_wf demo_layout_ok])
    (simp_all add: demo_slots_def demo_batch_def pad_slot_id_def)

lemma partition_batch_state:
  assumes "partition_batch cfg b padded st = Some (Inr loc, st')"
  shows "\<exists>lay. build_batch_layout cfg b padded = Inr lay \<and> ps_layout st' = Some lay
     \<and> ps_global_batch st' = Some b \<and> ps_local_segments st' = local_rows cfg lay"
  using assms
  by (auto simp: partition_batch_def op_defs op_simps Let_def split: if_splits sum.splits option.splits)

lemma local_row_stop:
  assumes "built cfg b lay" and "pcp_rank cfg < pcp_size cfg" and "s \<in> set (local_rows cfg lay)"
  shows "bs_gstop s \<le> ib_num_tokens b"
proof (cases "lay_segments lay ! pcp_rank cfg = []")
  case True
  then show ?thesis using assms(3) by (simp add: local_rows_def padding_row_def)
next
  case False
  then have "s \<in> set (lay_segments lay ! pcp_rank cfg)" using assms(3) by (simp add: local_rows_def Let_def)
  moreover have "lay_segments lay ! pcp_rank cfg \<in> set (lay_segments lay)"
    using built_sound(1) [OF assms(1)] assms(2) by simp
  ultimately show ?thesis
    using assms(1) layout_rows_ok row_ok_bound by (auto simp: built_def)
qed

lemma gather_restored:
  assumes "built cfg b lay" and "z \<le> ib_num_tokens b"
  shows "map (\<lambda>j. gather_idx (lay_arrays lay) ! the j) (take (z - a) (drop a (restore_idx (lay_arrays lay)))) = [a..<z]"
proof -
  note lay = built_sound [OF assms(1)]
  have "gather_idx (lay_arrays lay) ! the (restore_idx (lay_arrays lay) ! i) = i" if "i < ib_num_tokens b" for i
    using arrays_inverse(1) [OF lay(2) that] lay by auto
  moreover have "length (restore_idx (lay_arrays lay)) = ib_num_tokens b"
    using arrays_written(3) [OF lay(2)] lay by simp
  ultimately show ?thesis
    using assms(2) by (intro nth_equalityI) auto
qed

text \<open>
  C14. In the attention plan of a sharded prefill every local row attends to exactly the new
  tokens of its own request up to the row's end: the plan's gathered KV indices are, in the
  global token order, the interval from the request's start to the row's stop.
\<close>

theorem plan_rows_see_their_prefix:
  assumes "wf_batch b" and "pcp_rank cfg < pcp_size cfg"
    and "partition_batch cfg b padded st = Some (Inr loc, st')"
    and "ps_layout st' = Some lay" and "build_plan cfg lens st' = Some plan"
  shows "map (\<lambda>j. gather_idx (lay_arrays lay) ! the j) (pl_new_kv_idx plan)
       = concat (map (\<lambda>s. [ib_query_start_loc b ! bs_req s..<bs_gstop s]) (ps_local_segments st'))"
proof -
  have st: "build_batch_layout cfg b padded = Inr lay" "ps_global_batch st' = Some b"
    "ps_local_segments st' = local_rows cfg lay"
    using partition_batch_state [OF assms(3)] assms(4) by auto
  then have built: "built cfg b lay" using assms(1,2) by (auto simp: built_def)
  have "pl_new_kv_idx plan = concat (map (row_kv b (restore_idx (lay_arrays lay))) (local_rows cfg lay))"
    using assms(4,5) st by (auto simp: build_plan_def Let_def split: if_splits)
  moreover have "map (\<lambda>j. gather_idx (lay_arrays lay) ! the j) (row_kv b (restore_idx (lay_arrays lay)) s)
      = [ib_query_start_loc b ! bs_req s..<bs_gstop s]" if "s \<in> set (local_rows cfg lay)" for s
    unfolding row_kv_def by (rule gather_restored [OF built local_row_stop [OF built assms(2) that]])
  ultimately show ?thesis
    unfolding st(3) by (simp add: map_concat comp_def cong: map_cong)
qed

definition demo_gqa :: pcp_config where
  "demo_gqa = demo_config False\<lparr>dcp_world_size := 2\<rparr>"

definition demo_gqa_run :: "input_batch result \<times> pcp_state" where
  "demo_gqa_run = the (partition_batch demo_gqa demo_batch None idle_state)"

text \<open>A stand-in for \<open>get_dcp_local_seq_lens\<close>: interleaved shares of each context.\<close>

definition demo_dcp_lens :: "nat list \<Rightarrow> nat \<Rightarrow> nat \<Rightarrow> nat \<Rightarrow> nat list" where
  "demo_dcp_lens lens world rank interleave = map (\<lambda>l. (l + world - 1 - rank) div world) lens"

lemma demo_gqa_facts:
  "partition_batch demo_gqa demo_batch None idle_state \<noteq> None" "returns (fst demo_gqa_run)"
  "ps_layout (snd demo_gqa_run) \<noteq> None" "build_plan demo_gqa demo_dcp_lens (snd demo_gqa_run) \<noteq> None"
  "pcp_rank demo_gqa < pcp_size demo_gqa"
  by code_simp+

theorem plan_rows_see_their_prefix_witness:
  "map (\<lambda>j. gather_idx (lay_arrays (the (ps_layout (snd demo_gqa_run)))) ! the j)
       (pl_new_kv_idx (the (build_plan demo_gqa demo_dcp_lens (snd demo_gqa_run))))
     = concat (map (\<lambda>s. [ib_query_start_loc demo_batch ! bs_req s..<bs_gstop s]) (ps_local_segments (snd demo_gqa_run)))"
proof -
  obtain loc where "partition_batch demo_gqa demo_batch None idle_state = Some (Inr loc, snd demo_gqa_run)"
    using demo_gqa_facts(1,2) by (auto simp: demo_gqa_run_def returns_iff)
  from plan_rows_see_their_prefix [OF demo_batch_wf(1) demo_gqa_facts(5) this, of
      "the (ps_layout (snd demo_gqa_run))" demo_dcp_lens "the (build_plan demo_gqa demo_dcp_lens (snd demo_gqa_run))"]
  show ?thesis using demo_gqa_facts(3,4) by simp
qed

end
