(* ===== verification/Memory_Pool.thy ===== *)
theory Memory_Pool
  imports Py_Runtime
begin

text \<open>
  The pinned-memory buddy allocator of the KV-transfer connector,
  \<open>src/vllm_hcu/distributed/kv_transfer/kv_connector/v1/du/tensor_memory_pool.py\<close>.  Sizes and
  addresses are natural numbers of bytes; the pinned buffer is a map from addresses to byte
  values.  A \<open>MemoryBlock\<close> is its size, filed under its address (no two references to one
  block are ever held).  Every operation is a function of the pool state that returns its
  result or exception together with the state left behind.

  The correctness argument relates a pool state to a binary tree of blocks: splitting and
  merging are substitutions of leaves, which keeps blocks disjoint and aligned.
\<close>

section \<open>State\<close>

record mem_pool =
  max_block_size :: nat
  min_block_size :: nat
  base_address :: nat
  free_lists :: "(nat, (nat, nat) dict) dict"
  allocated_blocks :: "(nat, nat) dict"
  pinned :: "nat \<Rightarrow> int"

section \<open>Errors\<close>

definition err_positive :: exn where "err_positive = Exn ValueError ''Block sizes must be positive''"
definition err_max_min :: exn where
  "err_max_min = Exn ValueError ''Max block size must be greater than min block size''"
definition err_alloc_size :: exn where "err_alloc_size = Exn ValueError ''Allocation size must be positive''"
definition err_too_large :: exn where
  "err_too_large = Exn ValueError ''Requested size exceeds maximum block size''"
definition err_no_memory :: exn where "err_no_memory = Exn ValueError ''Insufficient memory''"
definition err_free :: exn where "err_free = Exn ValueError ''Invalid address to free''"
definition err_load_addr :: exn where "err_load_addr = Exn ValueError ''Invalid address to load''"
definition err_load_size :: exn where
  "err_load_size = Exn ValueError ''Requested tensor size exceeds block size''"
definition err_not_cuda :: exn where "err_not_cuda = Exn ValueError ''Only CUDA tensors can be stored''"
definition err_block_small :: "nat \<Rightarrow> nat \<Rightarrow> exn" where
  "err_block_small block sz = Exn ValueError
     (''Allocated block size '' @ str_nat block @ '' is smaller than required size '' @ str_nat sz)"

section \<open>Sizes\<close>

fun bit_length :: "nat \<Rightarrow> nat" where
  "bit_length n = (if n = 0 then 0 else Suc (bit_length (n div 2)))"

declare bit_length.simps [simp del]

definition round_to_power_of_two :: "nat \<Rightarrow> nat" where
  "round_to_power_of_two s = 2 ^ bit_length (s - 1)"

section \<open>Construction\<close>

text \<open>The empty free lists, from the largest size down; the loop ends because sizes halve.\<close>

fun initialize_free_lists :: "nat \<Rightarrow> nat \<Rightarrow> (nat, (nat, nat) dict) dict \<Rightarrow> (nat, (nat, nat) dict) dict" where
  "initialize_free_lists sz mn fl =
     (if sz < mn \<or> sz = 0 then fl else initialize_free_lists (sz div 2) mn (dict_set sz [] fl))"

declare initialize_free_lists.simps [simp del]

text \<open>The buffer's address and contents come from the runtime.\<close>

definition new_pool :: "int \<Rightarrow> int \<Rightarrow> nat \<Rightarrow> (nat \<Rightarrow> int) \<Rightarrow> mem_pool result" where
  "new_pool mx mn base contents =
     (if mx \<le> 0 \<or> mn \<le> 0 then Inl err_positive
      else if mx < mn then Inl err_max_min
      else let big = round_to_power_of_two (nat mx); small = round_to_power_of_two (nat mn);
               fl = initialize_free_lists big small []
           in case dict_get fl big of
                None \<Rightarrow> raise KeyError (str_nat big)
              | Some d \<Rightarrow> Inr \<lparr>max_block_size = big, min_block_size = small, base_address = base,
                  free_lists = dict_set big (dict_set base big d) fl,
                  allocated_blocks = [], pinned = contents\<rparr>)"

text \<open>The bytes really pinned: \<open>max_block_size // 4\<close> elements of four bytes.\<close>

definition buffer_bytes :: "mem_pool \<Rightarrow> nat" where
  "buffer_bytes p = max_block_size p div 4 * 4"

section \<open>Allocation\<close>

text \<open>The size of the block after splitting, and the free lists with the split-off buddies.\<close>

fun split_block :: "nat \<Rightarrow> nat \<Rightarrow> nat \<Rightarrow> nat \<Rightarrow> (nat, (nat, nat) dict) dict
    \<Rightarrow> (nat \<times> (nat, (nat, nat) dict) dict) result" where
  "split_block mn addr sz required fl =
     (if required < sz \<and> mn \<le> sz div 2
      then let half = sz div 2
           in case dict_get fl half of
                None \<Rightarrow> raise KeyError (str_nat half)
              | Some d \<Rightarrow> split_block mn addr half required
                            (dict_set half (dict_set (addr + half) half d) fl)
      else Inr (sz, fl))"

declare split_block.simps [simp del]

text \<open>
  The search for a non-empty free list; \<open>popitem\<close> takes the entry inserted last.  The size
  doubles at each step, so the loop is bounded by the distance to the largest size.
\<close>

function find_free :: "nat \<Rightarrow> nat \<Rightarrow> (nat, (nat, nat) dict) dict
    \<Rightarrow> (nat \<times> nat \<times> nat \<times> (nat, (nat, nat) dict) dict) result" where
  "find_free current mx fl =
     (if mx < current \<or> current = 0 then Inl err_no_memory
      else case dict_get fl current of
             None \<Rightarrow> raise KeyError (str_nat current)
           | Some [] \<Rightarrow> find_free (current * 2) mx fl
           | Some (e # es) \<Rightarrow>
               (let (addr, sz) = last (e # es)
                in Inr (current, addr, sz, dict_set current (butlast (e # es)) fl)))"
  by pat_completeness auto
termination by (relation "measure (\<lambda>(current, mx, _). Suc mx - current)") auto

declare find_free.simps [simp del]

definition allocate :: "int \<Rightarrow> (mem_pool, nat) op" where
  "allocate sz0 p =
     (if sz0 \<le> 0 then Some (Inl err_alloc_size, p)
      else let required = round_to_power_of_two (max (nat sz0) (min_block_size p))
           in if max_block_size p < required then Some (Inl err_too_large, p)
              else case find_free required (max_block_size p) (free_lists p) of
                     Inl e \<Rightarrow> Some (Inl e, p)
                   | Inr (current, addr, sz, fl) \<Rightarrow>
                       (case split_block (min_block_size p) addr sz required fl of
                          Inl e \<Rightarrow> Some (Inl e, p\<lparr>free_lists := fl\<rparr>)
                        | Inr (final, fl2) \<Rightarrow>
                            Some (Inr addr, p\<lparr>free_lists := fl2,
                              allocated_blocks := dict_set addr final (allocated_blocks p)\<rparr>)))"

section \<open>Release\<close>

definition buddy_of :: "nat \<Rightarrow> nat \<Rightarrow> nat \<Rightarrow> int" where
  "buddy_of base addr sz =
     (if (int addr - int base) mod (2 * int sz) = 0 then int addr + int sz else int addr - int sz)"

text \<open>The merge loop; \<open>depth\<close> counts down from \<open>MAX_MERGE_DEPTH\<close>.  An error comes with the free lists so far.\<close>

fun merge_buddies :: "nat \<Rightarrow> nat \<Rightarrow> nat \<Rightarrow> nat \<Rightarrow> (nat, (nat, nat) dict) dict
    \<Rightarrow> exn \<times> (nat, (nat, nat) dict) dict + nat \<times> nat \<times> (nat, (nat, nat) dict) dict" where
  "merge_buddies 0 base addr sz fl = Inr (addr, sz, fl)"
| "merge_buddies (Suc depth) base addr sz fl =
     (case dict_get fl sz of
        None \<Rightarrow> Inl (Exn KeyError (str_nat sz), fl)
      | Some d \<Rightarrow>
          (let buddy = buddy_of base addr sz
           in case (if buddy < 0 then None else dict_get d (nat buddy)) of
                None \<Rightarrow> Inr (addr, sz, fl)
              | Some bsz \<Rightarrow>
                  merge_buddies depth base (min addr (nat buddy)) (sz * 2)
                    (dict_set sz (dict_pop (nat buddy) d) fl)))"

definition max_merge_depth :: nat where
  "max_merge_depth = 30"

definition free_block :: "nat \<Rightarrow> (mem_pool, unit) op" where
  "free_block addr p =
     (case dict_get (allocated_blocks p) addr of
        None \<Rightarrow> Some (Inl err_free, p)
      | Some sz \<Rightarrow>
          (let p1 = p\<lparr>allocated_blocks := dict_pop addr (allocated_blocks p)\<rparr>
           in case merge_buddies max_merge_depth (base_address p) addr sz (free_lists p) of
                Inl (e, fl) \<Rightarrow> Some (Inl e, p1\<lparr>free_lists := fl\<rparr>)
              | Inr (a, s, fl) \<Rightarrow>
                  (case dict_get fl s of
                     None \<Rightarrow> Some (raise KeyError (str_nat s), p1\<lparr>free_lists := fl\<rparr>)
                   | Some d \<Rightarrow> Some (Inr (), p1\<lparr>free_lists := dict_set s (dict_set a s d) fl\<rparr>))))"

section \<open>Tensors\<close>

record tensor =
  t_is_cuda :: bool
  t_element_size :: nat
  t_numel :: nat
  t_bytes :: "int list"

text \<open>The tensor's storage has \<open>element_size() * numel()\<close> bytes.\<close>

definition tensor_ok :: "tensor \<Rightarrow> bool" where
  "tensor_ok t \<longleftrightarrow> length (t_bytes t) = t_element_size t * t_numel t"

text \<open>
  \<open>torch.frombuffer(buffer, dtype=..., count=...)\<close> belongs to the runtime: the parameter
  \<open>view\<close> takes the buffer length, the element size and the count, and returns or raises.
\<close>

type_synonym frombuffer = "nat \<Rightarrow> nat \<Rightarrow> nat \<Rightarrow> unit result"

text \<open>\<open>copy_\<close> writes the bytes from the block's address on.\<close>

definition write_bytes :: "nat \<Rightarrow> int list \<Rightarrow> (nat \<Rightarrow> int) \<Rightarrow> nat \<Rightarrow> int" where
  "write_bytes addr bs mem = (\<lambda>x. if addr \<le> x \<and> x < addr + length bs then bs ! (x - addr) else mem x)"

definition read_bytes :: "nat \<Rightarrow> nat \<Rightarrow> (nat \<Rightarrow> int) \<Rightarrow> int list" where
  "read_bytes addr n mem = map (\<lambda>i. mem (addr + i)) [0..<n]"

definition view_failed :: "exn \<Rightarrow> exn" where
  "view_failed e = Exn ValueError (''Failed to create tensor view: '' @ exn_text e)"

definition store_tensor :: "frombuffer \<Rightarrow> tensor \<Rightarrow> (mem_pool, nat) op" where
  "store_tensor view t =
     (if \<not> t_is_cuda t then throw err_not_cuda
      else let sz = t_element_size t * t_numel t
           in bind_op (allocate (int sz)) (\<lambda>addr.
              bind_op (gets (\<lambda>p. dict_get (allocated_blocks p) addr)) (\<lambda>entry.
                case entry of
                  None \<Rightarrow> throw (Exn KeyError (str_nat addr))
                | Some block \<Rightarrow>
                    if block < sz
                    then seq_op (free_block addr) (throw (err_block_small block sz))
                    else case view block (t_element_size t) (t_numel t) of
                           Inl e \<Rightarrow> if exn_kind e = ValueError
                                     then seq_op (free_block addr) (throw (view_failed e))
                                     else throw e
                         | Inr _ \<Rightarrow> seq_op (modify (\<lambda>p. p\<lparr>pinned := write_bytes addr (t_bytes t) (pinned p)\<rparr>))
                                      (ret addr))))"

definition load_tensor :: "frombuffer \<Rightarrow> nat \<Rightarrow> nat \<Rightarrow> nat list \<Rightarrow> (mem_pool, int list) op" where
  "load_tensor view addr dtype_size shape p =
     (case dict_get (allocated_blocks p) addr of
        None \<Rightarrow> Some (Inl err_load_addr, p)
      | Some block \<Rightarrow>
          (let num_elements = prod_list shape
           in if block < num_elements * dtype_size then Some (Inl err_load_size, p)
              else case view block dtype_size num_elements of
                     Inl e \<Rightarrow> Some (Inl e, p)
                   | Inr _ \<Rightarrow> Some (Inr (read_bytes addr (num_elements * dtype_size) (pinned p)), p)))"

definition cleanup :: "mem_pool \<Rightarrow> mem_pool" where
  "cleanup p = p\<lparr>free_lists := [], allocated_blocks := []\<rparr>"

end
