(* ===== verification/Buddy_Tree.thy ===== *)
theory Buddy_Tree
  imports Memory_Pool
begin

text \<open>
  The abstract state of the buddy allocator: a binary tree whose leaves are the blocks.  A
  tree of level \<open>k\<close> over unit \<open>m\<close> covers \<open>m * 2 ^ k\<close> bytes; a node splits its region in two
  halves, and two free siblings are never left unmerged.
\<close>

datatype btree = Free | Used | Split btree btree

fun blocks :: "nat \<Rightarrow> btree \<Rightarrow> nat \<Rightarrow> nat \<Rightarrow> (nat \<times> nat \<times> bool) set" where
  "blocks m Free a k = {(a, k, False)}"
| "blocks m Used a k = {(a, k, True)}"
| "blocks m (Split l r) a 0 = {}"
| "blocks m (Split l r) a (Suc k) = blocks m l a k \<union> blocks m r (a + m * 2 ^ k) k"

fun coalesced :: "btree \<Rightarrow> nat \<Rightarrow> bool" where
  "coalesced (Split l r) 0 = False"
| "coalesced (Split l r) (Suc k) = (coalesced l k \<and> coalesced r k \<and> (l \<noteq> Free \<or> r \<noteq> Free))"
| "coalesced t k = True"

lemma blocks_range:
  "(x, j, u) \<in> blocks m t a k \<Longrightarrow> a \<le> x \<and> x + m * 2 ^ j \<le> a + m * 2 ^ k \<and> j \<le> k"
proof (induction m t a k rule: blocks.induct)
  case (4 m l r a k)
  then show ?case by (auto simp: mult_2 distrib_left)
qed auto

lemma blocks_aligned: "(x, j, u) \<in> blocks m t a k \<Longrightarrow> m * 2 ^ j dvd x - a"
proof (induction m t a k rule: blocks.induct)
  case (4 m l r a k)
  then consider "(x, j, u) \<in> blocks m l a k" | "(x, j, u) \<in> blocks m r (a + m * 2 ^ k) k" by auto
  then show ?case
  proof cases
    case 2
    have "m * 2 ^ j dvd x - (a + m * 2 ^ k)" using 4 2 by simp
    moreover have "m * 2 ^ j dvd m * 2 ^ k"
      using blocks_range [OF 2] by (simp add: le_imp_power_dvd mult_dvd_mono)
    moreover have "x - a = (x - (a + m * 2 ^ k)) + m * 2 ^ k" using blocks_range [OF 2] by simp
    ultimately show ?thesis by (metis dvd_add)
  qed (use 4 in simp)
qed auto

lemma halves_apart:
  assumes "(x, j, u) \<in> blocks m l a k" and "(y, i, v) \<in> blocks m r (a + m * 2 ^ k) k"
  shows "x + m * 2 ^ j \<le> y"
  using blocks_range [OF assms(1)] blocks_range [OF assms(2)] by simp

lemma blocks_disjoint:
  assumes "(x, j, u) \<in> blocks m t a k" and "(y, i, v) \<in> blocks m t a k"
    and "(x, j, u) \<noteq> (y, i, v)"
  shows "x + m * 2 ^ j \<le> y \<or> y + m * 2 ^ i \<le> x"
  using assms
proof (induction m t a k rule: blocks.induct)
  case (4 m l r a k)
  then show ?case using halves_apart [of _ _ _ m l a k _ _ _ r] by auto
qed auto

lemma not_in_right: "0 < m \<Longrightarrow> x + m * 2 ^ i \<le> h \<Longrightarrow> (x, j, u) \<notin> blocks m r h k"
proof
  assume "0 < m" "x + m * 2 ^ i \<le> h" "(x, j, u) \<in> blocks m r h k"
  moreover from this(3) have "h \<le> x" by (simp add: blocks_range)
  moreover have "0 < m * 2 ^ i" using \<open>0 < m\<close> by simp
  ultimately show False by linarith
qed

lemma not_in_left: "0 < m \<Longrightarrow> a + m * 2 ^ k \<le> x \<Longrightarrow> (x, j, u) \<notin> blocks m l a k"
proof
  assume "0 < m" "a + m * 2 ^ k \<le> x" "(x, j, u) \<in> blocks m l a k"
  moreover from this(3) have "x + m * 2 ^ j \<le> a + m * 2 ^ k" by (simp add: blocks_range)
  moreover have "0 < m * 2 ^ j" using \<open>0 < m\<close> by simp
  ultimately show False by linarith
qed

lemma blocks_same_addr:
  assumes "0 < m" and "(x, j, u) \<in> blocks m t a k" and "(x, i, v) \<in> blocks m t a k"
  shows "j = i \<and> u = v"
  using blocks_disjoint [OF assms(2,3)] assms(1) by auto

lemma top_block: "coalesced t k \<Longrightarrow> (x, k, u) \<in> blocks m t a k \<Longrightarrow> x = a \<and> t = (if u then Used else Free)"
proof (cases t)
  case (Split l r)
  moreover assume "(x, k, u) \<in> blocks m t a k" "coalesced t k"
  ultimately show ?thesis by (cases k) (auto dest: blocks_range)
qed auto

lemma all_free_merged: "coalesced t k \<Longrightarrow> (\<And>x j u. (x, j, u) \<in> blocks m t a k \<Longrightarrow> \<not> u) \<Longrightarrow> t = Free"
proof (induction m t a k rule: blocks.induct)
  case (4 m l r a k)
  then show ?case by (auto 4 4)
qed auto

section \<open>Replacing leaves\<close>

lemma replace_leaf:
  assumes "0 < m" and "(x, j, v) \<in> blocks m t a k" and "coalesced t k" and "coalesced s j" and "s \<noteq> Free"
  shows "\<exists>t'. coalesced t' k \<and> t' \<noteq> Free \<and> blocks m t' a k = blocks m t a k - {(x, j, v)} \<union> blocks m s x j"
  using assms
proof (induction m t a k rule: blocks.induct)
  case (4 m l r a k)
  from 4(4) consider (left) "(x, j, v) \<in> blocks m l a k" | (right) "(x, j, v) \<in> blocks m r (a + m * 2 ^ k) k" by auto
  then show ?case
  proof cases
    case left
    have "(x, j, v) \<notin> blocks m r (a + m * 2 ^ k) k"
      using halves_apart [OF left, of x j v] 4(3) by auto
    moreover obtain l' where "coalesced l' k" "l' \<noteq> Free" "blocks m l' a k = blocks m l a k - {(x, j, v)} \<union> blocks m s x j"
      using 4(1) left 4 by auto
    ultimately show ?thesis using 4(5) by (intro exI [of _ "Split l' r"]) auto
  next
    case right
    have "(x, j, v) \<notin> blocks m l a k"
      using halves_apart [OF _ right, of x j v] 4(3) by auto
    moreover obtain r' where "coalesced r' k" "r' \<noteq> Free"
      "blocks m r' (a + m * 2 ^ k) k = blocks m r (a + m * 2 ^ k) k - {(x, j, v)} \<union> blocks m s x j"
      using 4(2) right 4 by auto
    ultimately show ?thesis using 4(5) by (intro exI [of _ "Split l r'"]) auto
  qed
qed auto

text \<open>A free block of level \<open>k\<close> split down to level \<open>j\<close>: one used leaf and a free buddy at each level.\<close>

fun split_tree :: "nat \<Rightarrow> nat \<Rightarrow> btree" where
  "split_tree j 0 = Used"
| "split_tree j (Suc k) = (if Suc k \<le> j then Used else Split (split_tree j k) Free)"

lemma split_tree_not_free [simp]: "split_tree j k \<noteq> Free"
  by (cases k) auto

lemma split_tree_coalesced: "coalesced (split_tree j k) k"
  by (induction k) auto

lemma split_tree_blocks:
  "j \<le> k \<Longrightarrow> blocks m (split_tree j k) a k = insert (a, j, True) {(a + m * 2 ^ i, i, False) | i. j \<le> i \<and> i < k}"
proof (induction k)
  case (Suc k)
  show ?case
  proof (cases "j = Suc k")
    case False
    then have "blocks m (split_tree j (Suc k)) a (Suc k) =
        insert (a, j, True) {(a + m * 2 ^ i, i, False) | i. j \<le> i \<and> i < k} \<union> {(a + m * 2 ^ k, k, False)}"
      using Suc by simp
    also have "\<dots> = insert (a, j, True) {(a + m * 2 ^ i, i, False) | i. j \<le> i \<and> i < Suc k}"
      using False Suc.prems by (auto simp: less_Suc_eq)
    finally show ?thesis .
  qed auto
qed simp

section \<open>Buddies\<close>

text \<open>The address of the sibling of a block at offset \<open>x - a\<close> of its region.\<close>

definition sibling :: "nat \<Rightarrow> nat \<Rightarrow> nat \<Rightarrow> nat \<Rightarrow> nat" where
  "sibling m a x j = (if m * 2 ^ Suc j dvd x - a then x + m * 2 ^ j else x - m * 2 ^ j)"

lemma sibling_shift:
  assumes "a' \<le> x" and "m * 2 ^ Suc j dvd a' - a" and "a \<le> a'"
  shows "sibling m a' x j = sibling m a x j"
proof -
  have "x - a = (x - a') + (a' - a)" using assms by simp
  then have "m * 2 ^ Suc j dvd x - a \<longleftrightarrow> m * 2 ^ Suc j dvd x - a'"
    using assms(2) by (metis dvd_add_left_iff)
  then show ?thesis by (simp add: sibling_def)
qed

lemma sibling_inside:
  assumes "0 < m" and "(x, j, u) \<in> blocks m t a k" and "j < k"
  shows "a \<le> sibling m a x j" and "sibling m a x j + m * 2 ^ j \<le> a + m * 2 ^ k"
proof -
  have r: "a \<le> x" "x + m * 2 ^ j \<le> a + m * 2 ^ k" using blocks_range [OF assms(2)] by auto
  obtain q where q: "x - a = m * 2 ^ j * q" using blocks_aligned [OF assms(2)] by (auto elim: dvdE)
  have k: "m * 2 ^ k = m * 2 ^ j * 2 ^ (k - j)" using assms(3) by (simp add: power_add [symmetric] mult.assoc)
  have pos: "0 < m * 2 ^ j" using assms(1) by simp
  show "a \<le> sibling m a x j"
  proof (cases "m * 2 ^ Suc j dvd x - a")
    case False
    then have "q \<noteq> 0" using q by (metis dvd_0_right mult_0_right)
    then have "m * 2 ^ j \<le> x - a" using q by simp
    then show ?thesis using False r by (simp add: sibling_def)
  qed (use r in \<open>simp add: sibling_def\<close>)
  show "sibling m a x j + m * 2 ^ j \<le> a + m * 2 ^ k"
  proof (cases "m * 2 ^ Suc j dvd x - a")
    case True
    then obtain p where p: "x - a = m * 2 ^ j * (2 * p)" by (metis dvdE mult.assoc mult.commute power_Suc2)
    have even: "2 ^ (k - j) = (2 * 2 ^ (k - Suc j) :: nat)"
      using assms(3) by (simp add: power_Suc [symmetric] Suc_diff_Suc del: power_Suc)
    have "m * 2 ^ j * (2 * p + 1) \<le> m * 2 ^ j * 2 ^ (k - j)"
      using r p k by (simp add: distrib_left)
    then have "2 * p + 1 \<le> 2 ^ (k - j)" using pos by (simp only: mult_le_cancel1)
    then have "2 * p + 2 \<le> (2 ^ (k - j) :: nat)" unfolding even by presburger
    then have "m * 2 ^ j * (2 * p + 2) \<le> m * 2 ^ j * 2 ^ (k - j)" by (rule mult_le_mono2)
    then have "(x - a) + m * 2 ^ j + m * 2 ^ j \<le> m * 2 ^ k" unfolding p k by (simp add: distrib_left)
    then show ?thesis using True r by (simp add: sibling_def)
  next
    case False
    then show ?thesis using r by (simp add: sibling_def)
  qed
qed

text \<open>
  What releasing a used block does to the blocks: with a free sibling the two become one used
  block of the next level, otherwise the block becomes free.
\<close>

definition released :: "nat \<Rightarrow> nat \<Rightarrow> nat \<Rightarrow> nat \<Rightarrow> (nat \<times> nat \<times> bool) set \<Rightarrow> (nat \<times> nat \<times> bool) set" where
  "released m a x j B =
     (let b = sibling m a x j
      in if (b, j, False) \<in> B then insert (min x b, Suc j, True) (B - {(x, j, True), (b, j, False)})
         else insert (x, j, False) (B - {(x, j, True)}))"

lemma released_Un:
  assumes "(sibling m a x j, j, False) \<notin> C" and "(x, j, True) \<notin> C"
  shows "released m a x j (B \<union> C) = released m a x j B \<union> C" "released m a x j (C \<union> B) = C \<union> released m a x j B"
  using assms by (auto simp: released_def Let_def)

lemma released_not_Free: "j < k \<Longrightarrow> blocks m t a k = released m a' x j B \<Longrightarrow> t \<noteq> Free \<or> Suc j = k"
  by (auto simp: released_def Let_def split: if_splits)

lemma release_step:
  assumes "0 < m" and "(x, j, True) \<in> blocks m t a k" and "coalesced t k" and "j < k"
  shows "\<exists>t'. coalesced t' k \<and> t' \<noteq> Free \<and> blocks m t' a k = released m a x j (blocks m t a k)"
  using assms
proof (induction m t a k rule: blocks.induct)
  case (4 m l r a k)
  let ?h = "a + m * 2 ^ k" and ?b = "sibling m a x j"
  have pos: "0 < m * 2 ^ j" using 4(3) by simp
  from 4(4) consider (left) "(x, j, True) \<in> blocks m l a k" | (right) "(x, j, True) \<in> blocks m r ?h k" by auto
  then show ?case
  proof cases
    case left
    show ?thesis
    proof (cases "j < k")
      case True
      obtain l' where l': "coalesced l' k" "l' \<noteq> Free" "blocks m l' a k = released m a x j (blocks m l a k)"
        using 4(1) 4(3,5) left True by auto
      have "(?b, j, False) \<notin> blocks m r ?h k"
        using sibling_inside(2) [OF 4(3) left True] by (rule not_in_right [OF 4(3)])
      moreover have "(x, j, True) \<notin> blocks m r ?h k"
        using blocks_range [OF left] by (intro not_in_right [OF 4(3), of x j]) auto
      ultimately show ?thesis
        using l' 4(5) by (intro exI [of _ "Split l' r"]) (auto simp: released_Un)
    next
      case False
      then have j: "j = k" using blocks_range [OF left] by simp
      have l: "l = Used" "x = a" using top_block [of l k x True m a] left 4(5) j by auto
      have b: "?b = ?h" by (simp add: sibling_def l j)
      have r: "(?h, k, False) \<in> blocks m r ?h k \<longleftrightarrow> r = Free"
        using top_block [of r k ?h False m ?h] 4(5) by auto
      have "(a, k, True) \<notin> blocks m r ?h k" by (rule not_in_right [OF 4(3), of a k]) simp
      then show ?thesis
        using 4(5) r pos l j b
        by (intro exI [of _ "if r = Free then Used else Split Free r"]) (auto simp: released_def Let_def)
    qed
  next
    case right
    have sib: "sibling m ?h x j = ?b" if "j < k"
      using that blocks_range [OF right] by (intro sibling_shift) (auto simp: le_imp_power_dvd mult_dvd_mono simp del: power_Suc)
    show ?thesis
    proof (cases "j < k")
      case True
      obtain r' where r': "coalesced r' k" "r' \<noteq> Free" "blocks m r' ?h k = released m ?h x j (blocks m r ?h k)"
        using 4(2) 4(3,5) right True by auto
      have "(?b, j, False) \<notin> blocks m l a k"
        using sibling_inside(1) [OF 4(3) right True] sib [OF True] by (intro not_in_left [OF 4(3)]) auto
      moreover have "(x, j, True) \<notin> blocks m l a k"
        using blocks_range [OF right] by (intro not_in_left [OF 4(3)]) auto
      moreover have "released m ?h x j (blocks m r ?h k) = released m a x j (blocks m r ?h k)"
        by (simp add: released_def sib [OF True])
      ultimately show ?thesis
        using r' 4(5) by (intro exI [of _ "Split l r'"]) (auto simp: released_Un)
    next
      case False
      then have j: "j = k" using blocks_range [OF right] by simp
      have r: "r = Used" "x = ?h" using top_block [of r k x True m ?h] right 4(5) j by auto
      have "\<not> m * 2 ^ Suc k dvd m * 2 ^ k" using 4(3) by (auto dest: dvd_imp_le)
      then have b: "?b = a" by (simp add: sibling_def r j)
      have l: "(a, k, False) \<in> blocks m l a k \<longleftrightarrow> l = Free"
        using top_block [of l k a False m a] 4(5) by auto
      have "(?h, k, True) \<notin> blocks m l a k" by (rule not_in_left [OF 4(3)]) simp
      then show ?thesis
        using 4(5) l pos r j b
        by (intro exI [of _ "if l = Free then Used else Split l Free"]) (auto simp: released_def Let_def)
    qed
  qed
qed auto

end
