(* ===== verification/Memory_Pool_Correct.thy ===== *)
theory Memory_Pool_Correct
  imports Buddy_Tree
begin

text \<open>
  The buddy allocator refines the tree of blocks: the free lists are the free leaves by size,
  the allocated dictionary is the used leaves by address, and every operation of the pool is
  a step of the tree.
\<close>

section \<open>Powers of two\<close>

lemma round_to_power_of_two_ge: "s \<le> round_to_power_of_two s"
proof -
  have "n < 2 ^ bit_length n" for n
  proof (induction n rule: bit_length.induct)
    case (1 n)
    show ?case
    proof (cases "n = 0")
      case False
      then have "n div 2 < 2 ^ bit_length (n div 2)" using 1 by simp
      then have "n < 2 * 2 ^ bit_length (n div 2)" by simp
      then show ?thesis using False by (subst bit_length.simps) simp
    qed (simp add: bit_length.simps)
  qed
  from this [of "s - 1"] show ?thesis by (simp add: round_to_power_of_two_def)
qed

lemma round_to_power_of_two_less: "0 < s \<Longrightarrow> round_to_power_of_two s < 2 * s"
proof -
  have "0 < n \<Longrightarrow> 2 ^ bit_length n \<le> 2 * n" for n
  proof (induction n rule: bit_length.induct)
    case (1 n)
    show ?case
    proof (cases "n div 2 = 0")
      case True
      then have "n = 1" using 1 by simp
      then show ?thesis by (simp add: bit_length.simps [of "Suc 0"] bit_length.simps [of 0])
    next
      case False
      then have "2 ^ bit_length (n div 2) \<le> 2 * (n div 2)" using 1 by simp
      then have "2 * 2 ^ bit_length (n div 2) \<le> 2 * n" by linarith
      then show ?thesis using 1(2) by (subst bit_length.simps) simp
    qed
  qed
  from this [of "s - 1"] show "0 < s \<Longrightarrow> round_to_power_of_two s < 2 * s"
    by (cases "s = 1") (auto simp: round_to_power_of_two_def bit_length.simps [of 0])
qed

lemma bit_length_mono: "a \<le> b \<Longrightarrow> bit_length a \<le> bit_length b"
proof (induction a arbitrary: b rule: bit_length.induct)
  case (1 a)
  show ?case
  proof (cases "a = 0")
    case False
    then have "bit_length (a div 2) \<le> bit_length (b div 2)" using 1 by (simp add: div_le_mono)
    then show ?thesis using False 1(2) by (subst (1 2) bit_length.simps) simp
  qed (simp add: bit_length.simps)
qed

lemma bit_length_power: "bit_length (2 ^ e - 1) = e"
proof (induction e)
  case (Suc e)
  have "(2 ^ Suc e - 1) div 2 = (2 ^ e - 1 :: nat)" by simp
  moreover have "2 ^ Suc e - 1 \<noteq> (0 :: nat)"
  proof -
    have "1 < (2::nat) ^ Suc e" by (rule one_less_power) auto
    then show ?thesis by linarith
  qed
  ultimately show ?case using Suc by (subst bit_length.simps) simp
qed (simp add: bit_length.simps)

lemma round_mono: "a \<le> b \<Longrightarrow> round_to_power_of_two a \<le> round_to_power_of_two b"
  unfolding round_to_power_of_two_def by (intro power_increasing bit_length_mono) auto

lemma round_fixed: "round_to_power_of_two (2 ^ e) = 2 ^ e"
  using bit_length_power [of e] by (simp add: round_to_power_of_two_def)

text \<open>A rounded size that is at least the unit is the unit times a power of two.\<close>

lemma round_level:
  assumes "2 ^ e \<le> s"
  shows "\<exists>j. round_to_power_of_two s = 2 ^ e * 2 ^ j"
proof -
  have "(2::nat) ^ e \<le> 2 ^ bit_length (s - 1)"
    using round_mono [OF assms] round_fixed [of e] by (simp add: round_to_power_of_two_def)
  then have "e \<le> bit_length (s - 1)" by simp
  then show ?thesis
    by (auto simp: round_to_power_of_two_def power_add [symmetric] intro!: exI [of _ "bit_length (s - 1) - e"])
qed

section \<open>Free lists and leaves\<close>

definition free_ok :: "nat \<Rightarrow> nat \<Rightarrow> (nat, (nat, nat) dict) dict \<Rightarrow> (nat \<times> nat \<times> bool) set \<Rightarrow> bool" where
  "free_ok m K fl B \<longleftrightarrow>
     (\<forall>sz. dict_get fl sz \<noteq> None \<longleftrightarrow> (\<exists>k \<le> K. sz = m * 2 ^ k)) \<and>
     (\<forall>k d. k \<le> K \<longrightarrow> dict_get fl (m * 2 ^ k) = Some d \<longrightarrow>
        distinct (dict_keys d) \<and> (\<forall>a. dict_get d a = (if (a, k, False) \<in> B then Some (m * 2 ^ k) else None)))"

definition alloc_ok :: "nat \<Rightarrow> (nat, nat) dict \<Rightarrow> (nat \<times> nat \<times> bool) set \<Rightarrow> bool" where
  "alloc_ok m al B \<longleftrightarrow> (\<forall>a s. dict_get al a = Some s \<longleftrightarrow> (\<exists>k. s = m * 2 ^ k \<and> (a, k, True) \<in> B))"

lemma level_inj: "0 < m \<Longrightarrow> m * 2 ^ j = m * 2 ^ k \<longleftrightarrow> j = (k::nat)" for m :: nat
  by simp

lemma free_ok_cong: "(\<And>a k. (a, k, False) \<in> B \<longleftrightarrow> (a, k, False) \<in> C) \<Longrightarrow> free_ok m K fl B = free_ok m K fl C"
  by (simp add: free_ok_def)

lemma free_ok_get:
  assumes "free_ok m K fl B" and "k \<le> K"
  obtains d where "dict_get fl (m * 2 ^ k) = Some d" "distinct (dict_keys d)"
    "\<And>a. dict_get d a = (if (a, k, False) \<in> B then Some (m * 2 ^ k) else None)"
proof -
  have "dict_get fl (m * 2 ^ k) \<noteq> None" using assms by (auto simp: free_ok_def)
  then obtain d where "dict_get fl (m * 2 ^ k) = Some d" by auto
  then show thesis using assms that by (auto simp: free_ok_def)
qed

lemma free_ok_change:
  assumes ok: "free_ok m K fl B" and m: "0 < m" and k: "k \<le> K" and d: "distinct (dict_keys d)"
    and get: "\<And>a. dict_get d a = (if (a, k, False) \<in> C then Some (m * 2 ^ k) else None)"
    and rest: "\<And>a i. i \<noteq> k \<Longrightarrow> (a, i, False) \<in> C \<longleftrightarrow> (a, i, False) \<in> B"
  shows "free_ok m K (dict_set (m * 2 ^ k) d fl) C"
  unfolding free_ok_def
proof (intro conjI allI impI)
  show "dict_get (dict_set (m * 2 ^ k) d fl) sz \<noteq> None \<longleftrightarrow> (\<exists>k \<le> K. sz = m * 2 ^ k)" for sz
    using ok k by (auto simp: free_ok_def)
  fix i e
  assume i: "i \<le> K" "dict_get (dict_set (m * 2 ^ k) d fl) (m * 2 ^ i) = Some e"
  have "distinct (dict_keys e) \<and> (\<forall>a. dict_get e a = (if (a, i, False) \<in> C then Some (m * 2 ^ i) else None))"
  proof (cases "i = k")
    case True
    then show ?thesis using i d get by simp
  next
    case False
    then have "dict_get fl (m * 2 ^ i) = Some e" using i m by simp
    then show ?thesis using ok i(1) rest [OF False] by (simp add: free_ok_def)
  qed
  then show "distinct (dict_keys e)" "\<And>a. dict_get e a = (if (a, i, False) \<in> C then Some (m * 2 ^ i) else None)"
    by auto
qed

lemma dict_get_butlast:
  "distinct (dict_keys d) \<Longrightarrow> d \<noteq> [] \<Longrightarrow>
     dict_get (butlast d) x = (if x = fst (last d) then None else dict_get d x)"
proof (induction d)
  case (Cons e d)
  show ?case
  proof (cases "d = []")
    case False
    have "fst (last d) \<in> set (dict_keys d)" using False by simp
    then show ?thesis using Cons False by (cases e) auto
  qed simp
qed simp

lemma dict_keys_butlast: "dict_keys (butlast d) = butlast (dict_keys d)"
  by (simp add: map_butlast)

section \<open>Allocation\<close>

lemma split_block_ok:
  assumes "0 < m" and "j \<le> c" and "c \<le> K" and "free_ok m K fl B"
  shows "\<exists>fl'. split_block m a (m * 2 ^ c) (m * 2 ^ j) fl = Inr (m * 2 ^ j, fl')
    \<and> free_ok m K fl' (B \<union> {(a + m * 2 ^ i, i, False) | i. j \<le> i \<and> i < c})"
  using assms
proof (induction c arbitrary: fl B)
  case 0
  then show ?case by (auto simp: split_block.simps)
next
  case (Suc c)
  show ?case
  proof (cases "j = Suc c")
    case True
    then have "B \<union> {(a + m * 2 ^ i, i, False) | i. j \<le> i \<and> i < Suc c} = B" by auto
    then have "free_ok m K fl (B \<union> {(a + m * 2 ^ i, i, False) | i. j \<le> i \<and> i < Suc c})"
      using Suc.prems(4) by simp
    then show ?thesis using True by (subst split_block.simps) auto
  next
    case False
    then have j: "j \<le> c" using Suc.prems(2) by simp
    obtain d where d: "dict_get fl (m * 2 ^ c) = Some d" "distinct (dict_keys d)"
        "\<And>a. dict_get d a = (if (a, c, False) \<in> B then Some (m * 2 ^ c) else None)"
      using free_ok_get [OF Suc.prems(4), of c] Suc.prems(3) by auto
    let ?fl = "dict_set (m * 2 ^ c) (dict_set (a + m * 2 ^ c) (m * 2 ^ c) d) fl"
    have "free_ok m K ?fl (insert (a + m * 2 ^ c, c, False) B)"
      using Suc.prems d by (intro free_ok_change [OF Suc.prems(4,1)]) (auto intro: dict_set_distinct)
    from Suc.IH [OF Suc.prems(1) j _ this] obtain fl'
      where fl': "split_block m a (m * 2 ^ c) (m * 2 ^ j) ?fl = Inr (m * 2 ^ j, fl')"
        and ok: "free_ok m K fl' (insert (a + m * 2 ^ c, c, False) B \<union> {(a + m * 2 ^ i, i, False) | i. j \<le> i \<and> i < c})"
      using Suc.prems(3) by auto
    have "insert (a + m * 2 ^ c, c, False) B \<union> {(a + m * 2 ^ i, i, False) | i. j \<le> i \<and> i < c}
        = B \<union> {(a + m * 2 ^ i, i, False) | i. j \<le> i \<and> i < Suc c}"
      using j by (auto simp: less_Suc_eq)
    moreover have "m * 2 ^ j < m * 2 ^ Suc c" using j Suc.prems(1) by (simp del: power_Suc add: le_imp_less_Suc)
    moreover have "m * 2 ^ Suc c div 2 = m * 2 ^ c" "m \<le> m * 2 ^ c" by simp_all
    ultimately show ?thesis
      using fl' ok d(1) by (subst split_block.simps) (auto simp: Let_def simp del: power_Suc)
  qed
qed

lemma find_free_step:
  assumes "0 < m" and "j \<le> K" and "dict_get fl (m * 2 ^ j) = Some d"
  shows "find_free (m * 2 ^ j) (m * 2 ^ K) fl =
    (if d = [] then find_free (m * 2 ^ Suc j) (m * 2 ^ K) fl
     else Inr (m * 2 ^ j, fst (last d), snd (last d), dict_set (m * 2 ^ j) (butlast d) fl))"
proof -
  have "\<not> m * 2 ^ K < m * 2 ^ j" "m * 2 ^ j \<noteq> 0" using assms(1,2) by (simp_all add: not_less)
  then have "find_free (m * 2 ^ j) (m * 2 ^ K) fl =
      (if d = [] then find_free (m * 2 ^ j * 2) (m * 2 ^ K) fl
       else Inr (m * 2 ^ j, fst (last d), snd (last d), dict_set (m * 2 ^ j) (butlast d) fl))"
    using assms(3) by (subst find_free.simps) (auto simp: split_beta Let_def split: list.splits)
  moreover have "m * 2 ^ j * 2 = m * 2 ^ Suc j" by simp
  ultimately show ?thesis by (simp only:)
qed

definition found :: "nat \<Rightarrow> nat \<Rightarrow> nat \<Rightarrow> (nat, (nat, nat) dict) dict \<Rightarrow> (nat \<times> nat \<times> bool) set \<Rightarrow> bool" where
  "found m K j fl B \<longleftrightarrow>
     (\<exists>c a fl'. j \<le> c \<and> c \<le> K \<and> (a, c, False) \<in> B
        \<and> find_free (m * 2 ^ j) (m * 2 ^ K) fl = Inr (m * 2 ^ c, a, m * 2 ^ c, fl')
        \<and> free_ok m K fl' (B - {(a, c, False)}))"

lemma find_free_ok:
  assumes "0 < m" and "j \<le> Suc K" and ok: "free_ok m K fl B"
  shows "found m K j fl B
    \<or> (find_free (m * 2 ^ j) (m * 2 ^ K) fl = Inl err_no_memory \<and> (\<forall>c a. j \<le> c \<and> c \<le> K \<longrightarrow> (a, c, False) \<notin> B))"
  using assms(2)
proof (induction "Suc K - j" arbitrary: j)
  case 0
  then have "j = Suc K" by simp
  then show ?case using assms(1) by (subst find_free.simps) auto
next
  case (Suc x)
  then have j: "j \<le> K" by simp
  obtain d where d: "dict_get fl (m * 2 ^ j) = Some d" "distinct (dict_keys d)"
      "\<And>a. dict_get d a = (if (a, j, False) \<in> B then Some (m * 2 ^ j) else None)"
    using free_ok_get [OF ok j] by metis
  note step = find_free_step [OF assms(1) j d(1)]
  show ?case
  proof (cases "d = []")
    case True
    then have none: "(a, j, False) \<notin> B" for a using d(3) [of a] by (auto split: if_splits)
    have "found m K (Suc j) fl B \<or> (find_free (m * 2 ^ Suc j) (m * 2 ^ K) fl = Inl err_no_memory
        \<and> (\<forall>c a. Suc j \<le> c \<and> c \<le> K \<longrightarrow> (a, c, False) \<notin> B))"
      using Suc by (intro Suc(1)) auto
    then show ?thesis
    proof
      assume "found m K (Suc j) fl B"
      then have "found m K j fl B"
        unfolding found_def using step True by (metis Suc_leD)
      then show ?thesis ..
    next
      assume *: "find_free (m * 2 ^ Suc j) (m * 2 ^ K) fl = Inl err_no_memory
        \<and> (\<forall>c a. Suc j \<le> c \<and> c \<le> K \<longrightarrow> (a, c, False) \<notin> B)"
      have "(a, c, False) \<notin> B" if "j \<le> c" "c \<le> K" for c a
        using * none that by (cases "c = j") auto
      with * step True show ?thesis by simp
    qed
  next
    case False
    obtain a s where last: "last d = (a, s)" by (cases "last d")
    have "dict_get d a = Some s"
      using False last d(2) by (metis last_in_set map_of_is_SomeI)
    then have as: "(a, j, False) \<in> B" "s = m * 2 ^ j" using d(3) [of a] by (auto split: if_splits)
    have "free_ok m K (dict_set (m * 2 ^ j) (butlast d) fl) (B - {(a, j, False)})"
      using d last False as
      by (intro free_ok_change [OF ok assms(1) j])
        (auto simp: dict_get_butlast dict_keys_butlast distinct_butlast)
    then show ?thesis
      using step False last as j unfolding found_def by (intro disjI1 exI [of _ j] exI [of _ a]) auto
  qed
qed

section \<open>Release\<close>

lemma buddy_of_sibling:
  assumes "0 < m" and "(x, j, u) \<in> blocks m t base K" and "j < K"
  shows "buddy_of base x (m * 2 ^ j) = int (sibling m base x j)"
proof -
  have bx: "base \<le> x" using blocks_range [OF assms(2)] by simp
  have "(int x - int base) mod (2 * int (m * 2 ^ j)) = 0 \<longleftrightarrow> m * 2 ^ Suc j dvd x - base"
  proof -
    have "int x - int base = int (x - base)" "2 * int (m * 2 ^ j) = int (m * 2 ^ Suc j)" using bx by auto
    then show ?thesis by (simp only: mod_eq_0_iff_dvd int_dvd_int_iff)
  qed
  moreover have "m * 2 ^ j \<le> x" if "\<not> m * 2 ^ Suc j dvd x - base"
  proof -
    obtain q where q: "x - base = m * 2 ^ j * q" using blocks_aligned [OF assms(2)] by (auto elim: dvdE)
    then have "q \<noteq> 0" using that by (metis dvd_0_right mult_0_right)
    then show ?thesis using q by (cases q) auto
  qed
  ultimately show ?thesis by (auto simp: buddy_of_def sibling_def of_nat_diff simp del: power_Suc)
qed

definition merged :: "nat \<Rightarrow> nat \<Rightarrow> nat \<Rightarrow> nat \<Rightarrow> nat \<Rightarrow> nat \<Rightarrow> btree
    \<Rightarrow> exn \<times> (nat, (nat, nat) dict) dict + nat \<times> nat \<times> (nat, (nat, nat) dict) dict \<Rightarrow> bool" where
  "merged m K base depth x j t res \<longleftrightarrow>
     (\<exists>a k fl' t'. res = Inr (a, m * 2 ^ k, fl') \<and> k \<le> K \<and> coalesced t' K
        \<and> (a, k, False) \<in> blocks m t' base K \<and> free_ok m K fl' (blocks m t' base K - {(a, k, False)})
        \<and> (\<forall>y i. (y, i, True) \<in> blocks m t' base K \<longleftrightarrow> (y, i, True) \<in> blocks m t base K \<and> (y, i) \<noteq> (x, j)))"

lemma merge_at_root:
  assumes m: "0 < m" and t: "coalesced t K" "(x, K, True) \<in> blocks m t base K"
    and ok: "free_ok m K fl (blocks m t base K)"
  shows "merge_buddies depth base x (m * 2 ^ K) fl = Inr (x, m * 2 ^ K, fl)" and "merged m K base depth x K t (Inr (x, m * 2 ^ K, fl))"
proof -
  have root: "t = Used" "x = base" using top_block [OF t] by auto
  obtain d where d: "dict_get fl (m * 2 ^ K) = Some d"
      "\<And>a. dict_get d a = (if (a, K, False) \<in> blocks m t base K then Some (m * 2 ^ K) else None)"
    using free_ok_get [OF ok, of K] by auto
  have "buddy_of base x (m * 2 ^ K) = int (base + m * 2 ^ K)" by (simp add: buddy_of_def root)
  then show "merge_buddies depth base x (m * 2 ^ K) fl = Inr (x, m * 2 ^ K, fl)"
    using d root by (cases depth) (auto simp: Let_def)
  have "free_ok m K fl (blocks m Free base K - {(x, K, False)})"
    using ok root by (simp add: free_ok_def)
  then show "merged m K base depth x K t (Inr (x, m * 2 ^ K, fl))"
    unfolding merged_def using root by (intro exI [of _ x] exI [of _ K] exI [of _ fl] exI [of _ Free]) auto
qed

lemma merge_stops:
  assumes m: "0 < m" and t: "coalesced t K" "(x, j, True) \<in> blocks m t base K" and j: "j < K"
    and ok: "free_ok m K fl (blocks m t base K)" and no: "(sibling m base x j, j, False) \<notin> blocks m t base K"
  shows "merged m K base depth x j t (Inr (x, m * 2 ^ j, fl))"
proof -
  let ?B = "blocks m t base K"
  obtain t' where t': "coalesced t' K" "blocks m t' base K = released m base x j ?B"
    using release_step [OF m t(2,1) j] by metis
  have new: "blocks m t' base K = insert (x, j, False) (?B - {(x, j, True)})"
    using t'(2) no by (simp add: released_def)
  have "(x, j, False) \<notin> ?B" using blocks_same_addr [OF m t(2), of j False] by auto
  then have "free_ok m K fl (blocks m t' base K - {(x, j, False)})"
    using ok free_ok_cong [of ?B "blocks m t' base K - {(x, j, False)}" m K fl] new by auto
  then show ?thesis
    unfolding merged_def using t'(1) new j
    by (intro exI [of _ x] exI [of _ j] exI [of _ fl] exI [of _ t']) auto
qed

lemma merge_joins:
  assumes m: "0 < m" and t: "coalesced t K" "(x, j, True) \<in> blocks m t base K" and j: "j < K"
    and ok: "free_ok m K fl (blocks m t base K)" and yes: "(sibling m base x j, j, False) \<in> blocks m t base K"
    and d: "dict_get fl (m * 2 ^ j) = Some d"
  obtains t1 where "coalesced t1 K" "(min x (sibling m base x j), Suc j, True) \<in> blocks m t1 base K"
    "free_ok m K (dict_set (m * 2 ^ j) (dict_pop (sibling m base x j) d) fl) (blocks m t1 base K)"
    "\<And>y i. (y, i, True) \<in> blocks m t1 base K \<and> (y, i) \<noteq> (min x (sibling m base x j), Suc j)
        \<longleftrightarrow> (y, i, True) \<in> blocks m t base K \<and> (y, i) \<noteq> (x, j)"
proof -
  let ?B = "blocks m t base K" and ?b = "sibling m base x j"
  obtain t1 where t1: "coalesced t1 K" "blocks m t1 base K = released m base x j ?B"
    using release_step [OF m t(2,1) j] by metis
  have new: "blocks m t1 base K = insert (min x ?b, Suc j, True) (?B - {(x, j, True), (?b, j, False)})"
    using t1(2) yes by (simp add: released_def Let_def)
  have "(min x ?b, Suc j, True) \<notin> ?B"
    using blocks_same_addr [OF m t(2), of "Suc j" True] blocks_same_addr [OF m yes, of "Suc j" True]
    by (auto simp: min_def)
  then have used: "(y, i, True) \<in> blocks m t1 base K \<and> (y, i) \<noteq> (min x ?b, Suc j)
        \<longleftrightarrow> (y, i, True) \<in> ?B \<and> (y, i) \<noteq> (x, j)" for y i
    using new by auto
  have "distinct (dict_keys d) \<and> (\<forall>a. dict_get d a = (if (a, j, False) \<in> ?B then Some (m * 2 ^ j) else None))"
    using ok d less_imp_le [OF j] unfolding free_ok_def by blast
  then have "free_ok m K (dict_set (m * 2 ^ j) (dict_pop ?b d) fl) (blocks m t1 base K)"
    using j new by (intro free_ok_change [OF ok m]) (auto intro: dict_pop_distinct)
  with t1(1) new used that show thesis by blast
qed

lemma merge_buddies_ok:
  assumes "0 < m" and "coalesced t K" and "(x, j, True) \<in> blocks m t base K"
    and "free_ok m K fl (blocks m t base K)" and "K - j \<le> depth"
  shows "merged m K base depth x j t (merge_buddies depth base x (m * 2 ^ j) fl)"
  using assms(2-)
proof (induction depth arbitrary: x j t fl)
  case 0
  then have "j = K" using blocks_range [OF 0(2)] by simp
  then show ?case using merge_at_root [OF assms(1)] 0 by metis
next
  case (Suc depth)
  let ?b = "sibling m base x j"
  show ?case
  proof (cases "j = K")
    case True
    then show ?thesis using merge_at_root [OF assms(1)] Suc.prems by metis
  next
    case False
    then have j: "j < K" using blocks_range [OF Suc.prems(2)] by simp
    obtain d where d: "dict_get fl (m * 2 ^ j) = Some d"
        "\<And>a. dict_get d a = (if (a, j, False) \<in> blocks m t base K then Some (m * 2 ^ j) else None)"
      using free_ok_get [OF Suc.prems(3), of j] j by auto
    note buddy = buddy_of_sibling [OF assms(1) Suc.prems(2) j]
    show ?thesis
    proof (cases "(?b, j, False) \<in> blocks m t base K")
      case False
      then have "merge_buddies (Suc depth) base x (m * 2 ^ j) fl = Inr (x, m * 2 ^ j, fl)"
        using d buddy by (simp add: Let_def)
      then show ?thesis using merge_stops [OF assms(1) Suc.prems(1,2) j Suc.prems(3) False] by simp
    next
      case True
      let ?fl = "dict_set (m * 2 ^ j) (dict_pop ?b d) fl"
      obtain t1 where t1: "coalesced t1 K" "(min x ?b, Suc j, True) \<in> blocks m t1 base K"
          "free_ok m K ?fl (blocks m t1 base K)"
          "\<And>y i. (y, i, True) \<in> blocks m t1 base K \<and> (y, i) \<noteq> (min x ?b, Suc j)
            \<longleftrightarrow> (y, i, True) \<in> blocks m t base K \<and> (y, i) \<noteq> (x, j)"
        using merge_joins [OF assms(1) Suc.prems(1,2) j Suc.prems(3) True d(1)] by metis
      have eq: "m * 2 ^ j * 2 = m * 2 ^ Suc j" by simp
      have "merge_buddies (Suc depth) base x (m * 2 ^ j) fl = merge_buddies depth base (min x ?b) (m * 2 ^ j * 2) ?fl"
        using d True buddy by (simp add: Let_def)
      then have "merge_buddies (Suc depth) base x (m * 2 ^ j) fl = merge_buddies depth base (min x ?b) (m * 2 ^ Suc j) ?fl"
        by (simp only: eq)
      moreover have "merged m K base depth (min x ?b) (Suc j) t1 (merge_buddies depth base (min x ?b) (m * 2 ^ Suc j) ?fl)"
        using Suc.prems(4) by (intro Suc.IH [OF t1(1-3)]) simp
      ultimately show ?thesis using t1(4) by (simp add: merged_def)
    qed
  qed
qed

section \<open>The pool invariant\<close>

definition pool_ok :: "mem_pool \<Rightarrow> btree \<Rightarrow> nat \<Rightarrow> nat \<Rightarrow> bool" where
  "pool_ok p t e K \<longleftrightarrow>
     min_block_size p = 2 ^ e \<and> max_block_size p = 2 ^ e * 2 ^ K \<and> K \<le> max_merge_depth \<and> coalesced t K
     \<and> free_ok (2 ^ e) K (free_lists p) (blocks (2 ^ e) t (base_address p) K)
     \<and> alloc_ok (2 ^ e) (allocated_blocks p) (blocks (2 ^ e) t (base_address p) K)"

definition pool_inv :: "mem_pool \<Rightarrow> bool" where
  "pool_inv p \<longleftrightarrow> (\<exists>t e K. pool_ok p t e K)"

lemma initialize_free_lists_get:
  "0 < m \<Longrightarrow> dict_get (initialize_free_lists (m * 2 ^ k) m fl) sz
     = (if \<exists>i \<le> k. sz = m * 2 ^ i then Some [] else dict_get fl sz)"
proof (induction k arbitrary: fl)
  case 0
  then have "m div 2 < m" by simp
  then show ?case using 0 by (simp add: initialize_free_lists.simps [of m] initialize_free_lists.simps [of "m div 2"])
next
  case (Suc k)
  have "m \<le> m * 2 ^ Suc k" "m * 2 ^ Suc k \<noteq> 0" "m * 2 ^ Suc k div 2 = m * 2 ^ k" using Suc.prems by auto
  then have "initialize_free_lists (m * 2 ^ Suc k) m fl = initialize_free_lists (m * 2 ^ k) m (dict_set (m * 2 ^ Suc k) [] fl)"
    by (subst initialize_free_lists.simps) (simp del: power_Suc)
  moreover have "(\<exists>i \<le> Suc k. sz = m * 2 ^ i) \<longleftrightarrow> sz = m * 2 ^ Suc k \<or> (\<exists>i \<le> k. sz = m * 2 ^ i)"
    by (auto simp: le_Suc_eq simp del: power_Suc)
  ultimately show ?case using Suc by (auto simp del: power_Suc)
qed

lemma new_pool_inv:
  assumes new: "new_pool mx mn base mem = Inr p" and bound: "max_block_size p \<le> min_block_size p * 2 ^ max_merge_depth"
  shows "pool_inv p"
proof -
  define small where "small = round_to_power_of_two (nat mn)"
  define e where "e = bit_length (nat mn - 1)"
  have small: "small = 2 ^ e" by (simp add: small_def e_def round_to_power_of_two_def)
  have sizes: "0 < mn" "mn \<le> mx" using new by (auto simp: new_pool_def split: if_splits)
  have "2 ^ e \<le> round_to_power_of_two (nat mx)"
    using round_mono [of "nat mn" "nat mx"] sizes small by (simp add: small_def)
  moreover obtain b where b: "round_to_power_of_two (nat mx) = 2 ^ b" by (simp add: round_to_power_of_two_def)
  ultimately have "e \<le> b" by simp
  then obtain K where K: "round_to_power_of_two (nat mx) = 2 ^ e * 2 ^ K"
    using b by (metis le_add_diff_inverse power_add)
  let ?fl = "initialize_free_lists (2 ^ e * 2 ^ K) (2 ^ e) []"
  have get: "dict_get ?fl sz = (if \<exists>i \<le> K. sz = 2 ^ e * 2 ^ i then Some [] else None)" for sz
    by (subst initialize_free_lists_get) auto
  have p: "p = \<lparr>max_block_size = 2 ^ e * 2 ^ K, min_block_size = 2 ^ e, base_address = base,
      free_lists = dict_set (2 ^ e * 2 ^ K) (dict_set base (2 ^ e * 2 ^ K) []) ?fl,
      allocated_blocks = [], pinned = mem\<rparr>"
    using new get [of "2 ^ e * 2 ^ K"] sizes K small
    by (auto simp: new_pool_def Let_def small_def split: if_splits option.splits)
  have "(2::nat) ^ K \<le> 2 ^ max_merge_depth" using bound by (simp add: p)
  then have "K \<le> max_merge_depth" by simp
  moreover have "free_ok (2 ^ e) K ?fl {}" using get by (simp add: free_ok_def)
  then have "free_ok (2 ^ e) K (free_lists p) (blocks (2 ^ e) Free base K)"
    unfolding p by (simp, intro free_ok_change) auto
  moreover have "alloc_ok (2 ^ e) (allocated_blocks p) (blocks (2 ^ e) Free base K)" by (simp add: alloc_ok_def p)
  ultimately show ?thesis unfolding pool_inv_def pool_ok_def
    by (intro exI [of _ Free] exI [of _ e] exI [of _ K]) (simp add: p)
qed

section \<open>The operations on the invariant\<close>

definition same_shape :: "mem_pool \<Rightarrow> mem_pool \<Rightarrow> bool" where
  "same_shape p q \<longleftrightarrow> base_address q = base_address p \<and> max_block_size q = max_block_size p
     \<and> min_block_size q = min_block_size p \<and> pinned q = pinned p"

definition has_free :: "mem_pool \<Rightarrow> nat \<Rightarrow> nat \<Rightarrow> bool" where
  "has_free p a s \<longleftrightarrow> (\<exists>d. dict_get (free_lists p) s = Some d \<and> dict_get d a = Some s)"

lemma has_free_iff:
  assumes "pool_ok p t e K"
  shows "has_free p a s \<longleftrightarrow> (\<exists>k. s = 2 ^ e * 2 ^ k \<and> (a, k, False) \<in> blocks (2 ^ e) t (base_address p) K)"
proof
  let ?B = "blocks (2 ^ e) t (base_address p) K"
  have ok: "free_ok (2 ^ e) K (free_lists p) ?B" using assms by (simp add: pool_ok_def)
  {
    assume "has_free p a s"
    then obtain d where d: "dict_get (free_lists p) s = Some d" "dict_get d a = Some s" by (auto simp: has_free_def)
    then obtain k where k: "k \<le> K" "s = 2 ^ e * 2 ^ k" using ok unfolding free_ok_def by blast
    then have "dict_get d a = (if (a, k, False) \<in> ?B then Some (2 ^ e * 2 ^ k) else None)"
      using ok d unfolding free_ok_def by blast
    then show "\<exists>k. s = 2 ^ e * 2 ^ k \<and> (a, k, False) \<in> ?B" using k d(2) by (auto split: if_splits)
  next
    assume "\<exists>k. s = 2 ^ e * 2 ^ k \<and> (a, k, False) \<in> ?B"
    then obtain k where k: "s = 2 ^ e * 2 ^ k" "(a, k, False) \<in> ?B" by blast
    then have "k \<le> K" using blocks_range by blast
    from free_ok_get [OF ok this] k show "has_free p a s" unfolding has_free_def by metis
  }
qed

text \<open>A successful allocation: a free leaf is replaced by the split of it down to the required size.\<close>

definition allocated :: "mem_pool \<Rightarrow> nat \<Rightarrow> nat \<Rightarrow> mem_pool \<Rightarrow> bool" where
  "allocated p a s q \<longleftrightarrow> pool_inv q \<and> same_shape p q \<and> dict_get (allocated_blocks p) a = None
     \<and> (\<forall>x. dict_get (allocated_blocks q) x = (if x = a then Some s else dict_get (allocated_blocks p) x))"

definition starved :: "mem_pool \<Rightarrow> nat \<Rightarrow> bool" where
  "starved p s \<longleftrightarrow> (\<forall>a r. has_free p a r \<longrightarrow> r < s)"

lemma free_leaf_not_allocated:
  assumes "pool_ok p t e K" and "(a, c, False) \<in> blocks (2 ^ e) t (base_address p) K"
  shows "dict_get (allocated_blocks p) a = None"
proof (rule ccontr)
  assume "dict_get (allocated_blocks p) a \<noteq> None"
  then obtain s where "dict_get (allocated_blocks p) a = Some s" by auto
  then obtain k where "(a, k, True) \<in> blocks (2 ^ e) t (base_address p) K"
    using assms(1) by (auto simp: pool_ok_def alloc_ok_def)
  then show False using blocks_same_addr [OF _ assms(2)] by auto
qed

lemma allocate_found:
  assumes ok: "pool_ok p t e K" and found: "found (2 ^ e) K j (free_lists p) (blocks (2 ^ e) t (base_address p) K)"
    and n: "0 < n" "round_to_power_of_two (max (nat n) (2 ^ e)) = 2 ^ e * 2 ^ j"
  shows "\<exists>a q. allocate n p = Some (Inr a, q) \<and> allocated p a (2 ^ e * 2 ^ j) q"
proof -
  let ?m = "2 ^ e :: nat"
  let ?B = "blocks ?m t (base_address p) K"
  have m: "0 < ?m" by simp
  obtain c a fl where c: "j \<le> c" "c \<le> K" "(a, c, False) \<in> ?B"
    and find: "find_free (?m * 2 ^ j) (?m * 2 ^ K) (free_lists p) = Inr (?m * 2 ^ c, a, ?m * 2 ^ c, fl)"
    and fl: "free_ok ?m K fl (?B - {(a, c, False)})"
    using found unfolding found_def by blast
  obtain fl2 where split: "split_block ?m a (?m * 2 ^ c) (?m * 2 ^ j) fl = Inr (?m * 2 ^ j, fl2)"
    and fl2: "free_ok ?m K fl2 (?B - {(a, c, False)} \<union> {(a + ?m * 2 ^ i, i, False) | i. j \<le> i \<and> i < c})"
    using split_block_ok [OF m c(1,2) fl] by blast
  have P: "coalesced t K" "min_block_size p = ?m" "max_block_size p = ?m * 2 ^ K" "K \<le> max_merge_depth"
      "alloc_ok ?m (allocated_blocks p) ?B" using ok by (auto simp: pool_ok_def)
  obtain t' where t': "coalesced t' K"
      "blocks ?m t' (base_address p) K = ?B - {(a, c, False)} \<union> blocks ?m (split_tree j c) a c"
    using replace_leaf [OF m c(3) P(1) split_tree_coalesced, of j] by auto
  then have new: "blocks ?m t' (base_address p) K
      = insert (a, j, True) (?B - {(a, c, False)} \<union> {(a + ?m * 2 ^ i, i, False) | i. j \<le> i \<and> i < c})"
    using split_tree_blocks [OF c(1), of ?m a] by simp
  define q where "q = p\<lparr>free_lists := fl2, allocated_blocks := dict_set a (?m * 2 ^ j) (allocated_blocks p)\<rparr>"
  have run: "allocate n p = Some (Inr a, q)"
    using n P c find split by (simp add: allocate_def Let_def q_def)
  have none: "dict_get (allocated_blocks p) a = None" by (rule free_leaf_not_allocated [OF ok c(3)])
  then have nobody: "(a, k, True) \<notin> ?B" for k using P(5) unfolding alloc_ok_def by (metis option.distinct(1))
  have "free_ok ?m K fl2 (blocks ?m t' (base_address p) K)"
    using fl2 by (rule iffD1 [OF free_ok_cong, rotated]) (simp add: new)
  moreover have "alloc_ok ?m (allocated_blocks q) (blocks ?m t' (base_address p) K)"
    using P(5) nobody by (auto simp: alloc_ok_def q_def new)
  ultimately have "pool_inv q"
    unfolding pool_inv_def pool_ok_def using P t'(1) by (intro exI [of _ t'] exI [of _ e] exI [of _ K]) (simp add: q_def)
  then have "allocated p a (?m * 2 ^ j) q" using none by (simp add: allocated_def same_shape_def q_def)
  with run show ?thesis by blast
qed

lemma allocate_cases:
  assumes inv: "pool_inv p" and n: "0 < n" and fits: "s \<le> max_block_size p"
    and s: "s = round_to_power_of_two (max (nat n) (min_block_size p))"
  shows "(\<exists>a q. allocate n p = Some (Inr a, q) \<and> allocated p a s q)
    \<or> (allocate n p = Some (Inl err_no_memory, p) \<and> starved p s)"
proof -
  obtain t e K where ok: "pool_ok p t e K" using inv by (auto simp: pool_inv_def)
  let ?B = "blocks (2 ^ e) t (base_address p) K"
  have P: "min_block_size p = 2 ^ e" "max_block_size p = 2 ^ e * 2 ^ K"
    "free_ok (2 ^ e) K (free_lists p) ?B" using ok by (auto simp: pool_ok_def)
  obtain j where j: "s = 2 ^ e * 2 ^ j" using round_level [of e "max (nat n) (2 ^ e)"] s P by auto
  have jK: "j \<le> Suc K" using fits j P by simp
  consider "found (2 ^ e) K j (free_lists p) ?B"
    | "find_free (2 ^ e * 2 ^ j) (2 ^ e * 2 ^ K) (free_lists p) = Inl err_no_memory"
      "\<forall>c a. j \<le> c \<and> c \<le> K \<longrightarrow> (a, c, False) \<notin> ?B"
    using find_free_ok [OF _ jK P(3)] by auto
  then show ?thesis
  proof cases
    case 1
    then show ?thesis using allocate_found [OF ok 1 n] s P j by auto
  next
    case 2
    have "r < s" if free: "has_free p a r" for a r
    proof -
      obtain k where "r = 2 ^ e * 2 ^ k" "(a, k, False) \<in> ?B" using free has_free_iff [OF ok, of a r] by blast
      moreover from this have "k \<le> K" using blocks_range by blast
      ultimately have "k < j" "r = 2 ^ e * 2 ^ k" using 2(2) by (auto simp: not_le [symmetric])
      then show ?thesis using j by simp
    qed
    then have "starved p s" by (simp add: starved_def)
    moreover have "allocate n p = Some (Inl err_no_memory, p)"
      using 2 n fits s P j by (simp add: allocate_def Let_def)
    ultimately show ?thesis by simp
  qed
qed

text \<open>Releasing a block takes exactly its entry away and never fails.\<close>

lemma free_block_inv:
  assumes inv: "pool_inv p" and entry: "dict_get (allocated_blocks p) a = Some s"
  shows "\<exists>q. free_block a p = Some (Inr (), q) \<and> pool_inv q \<and> same_shape p q
    \<and> allocated_blocks q = dict_pop a (allocated_blocks p)"
proof -
  obtain t e K where ok: "pool_ok p t e K" using inv by (auto simp: pool_inv_def)
  let ?m = "2 ^ e :: nat"
  let ?B = "blocks ?m t (base_address p) K"
  have P: "min_block_size p = ?m" "max_block_size p = ?m * 2 ^ K" "K \<le> max_merge_depth" "coalesced t K"
    "free_ok ?m K (free_lists p) ?B" "alloc_ok ?m (allocated_blocks p) ?B" using ok by (auto simp: pool_ok_def)
  obtain j where j: "s = ?m * 2 ^ j" "(a, j, True) \<in> ?B" using P(6) entry by (auto simp: alloc_ok_def)
  have "merged ?m K (base_address p) max_merge_depth a j t
      (merge_buddies max_merge_depth (base_address p) a (?m * 2 ^ j) (free_lists p))"
    using P(3) by (intro merge_buddies_ok P j) auto
  then obtain a' k fl t' where merge: "merge_buddies max_merge_depth (base_address p) a s (free_lists p) = Inr (a', ?m * 2 ^ k, fl)"
    and k: "k \<le> K" and t': "coalesced t' K" "(a', k, False) \<in> blocks ?m t' (base_address p) K"
      "free_ok ?m K fl (blocks ?m t' (base_address p) K - {(a', k, False)})"
    and used: "\<And>y i. (y, i, True) \<in> blocks ?m t' (base_address p) K \<longleftrightarrow> (y, i, True) \<in> ?B \<and> (y, i) \<noteq> (a, j)"
    unfolding merged_def j(1) by blast
  obtain d where d: "dict_get fl (?m * 2 ^ k) = Some d" "distinct (dict_keys d)"
      "\<And>x. dict_get d x = (if (x, k, False) \<in> blocks ?m t' (base_address p) K - {(a', k, False)} then Some (?m * 2 ^ k) else None)"
    using free_ok_get [OF t'(3) k] by metis
  let ?q = "p\<lparr>allocated_blocks := dict_pop a (allocated_blocks p),
    free_lists := dict_set (?m * 2 ^ k) (dict_set a' (?m * 2 ^ k) d) fl\<rparr>"
  have "free_ok ?m K (free_lists ?q) (blocks ?m t' (base_address p) K)"
    using d t'(2) k by (simp, intro free_ok_change [OF t'(3)]) (auto intro: dict_set_distinct)
  moreover have "alloc_ok ?m (allocated_blocks ?q) (blocks ?m t' (base_address p) K)"
  proof -
    have "i = j" if "(a, i, True) \<in> ?B" for i using blocks_same_addr [OF _ that j(2)] by simp
    then show ?thesis using P(6) used by (auto simp: alloc_ok_def)
  qed
  ultimately have "pool_inv ?q"
    unfolding pool_inv_def pool_ok_def using P t'(1) by (intro exI [of _ t'] exI [of _ e] exI [of _ K]) simp
  moreover have "free_block a p = Some (Inr (), ?q)"
    using entry merge d(1) by (simp add: free_block_def Let_def)
  ultimately show ?thesis by (auto simp: same_shape_def)
qed

lemma allocate_outcome:
  assumes "pool_inv p" and "allocate n p = Some (r, q)"
  shows "(\<exists>x. r = Inl x \<and> q = p) \<or> (\<exists>a s. r = Inr a \<and> nat n \<le> s \<and> allocated p a s q)"
proof (cases "0 < n")
  case True
  let ?s = "round_to_power_of_two (max (nat n) (min_block_size p))"
  show ?thesis
  proof (cases "?s \<le> max_block_size p")
    case fits: True
    have "nat n \<le> ?s" using round_to_power_of_two_ge [of "max (nat n) (min_block_size p)"] by simp
    then show ?thesis using allocate_cases [OF assms(1) True fits refl] assms(2) by auto
  qed (use True assms in \<open>auto simp: allocate_def Let_def\<close>)
qed (use assms in \<open>auto simp: allocate_def\<close>)

lemma free_block_outcome:
  assumes "pool_inv p" and "free_block a p = Some (r, q)"
  shows "pool_inv q \<and> same_shape p q \<and> allocated_blocks q = dict_pop a (allocated_blocks p)"
proof (cases "dict_get (allocated_blocks p) a")
  case None
  then have "q = p" using assms(2) by (simp add: free_block_def)
  moreover have "dict_pop a (allocated_blocks p) = allocated_blocks p"
    using None by (simp add: delete_idem map_of_eq_None_iff)
  ultimately show ?thesis using assms(1) by (simp add: same_shape_def)
next
  case (Some s)
  then show ?thesis using free_block_inv [OF assms(1) Some] assms(2) by auto
qed

text \<open>The three ways a call of \<open>store_tensor\<close> ends.\<close>

definition stored :: "mem_pool \<Rightarrow> tensor \<Rightarrow> nat \<Rightarrow> mem_pool \<Rightarrow> bool" where
  "stored p t a q \<longleftrightarrow> (\<exists>s u. allocated p a s u \<and> t_element_size t * t_numel t \<le> s
     \<and> q = u\<lparr>pinned := write_bytes a (t_bytes t) (pinned u)\<rparr>)"

definition kept :: "mem_pool \<Rightarrow> mem_pool \<Rightarrow> bool" where
  "kept p q \<longleftrightarrow> pool_inv q \<and> same_shape p q
     \<and> (\<forall>x s. dict_get (allocated_blocks p) x = Some s \<longrightarrow> dict_get (allocated_blocks q) x = Some s)"

lemma allocated_kept: "allocated p a s q \<Longrightarrow> kept p q"
  by (auto simp: allocated_def kept_def)

lemma released_kept:
  assumes "allocated p a s q" and "free_block a q = Some (r, u)"
  shows "kept p u"
  using free_block_outcome [OF _ assms(2)] assms(1) by (auto simp: allocated_def kept_def same_shape_def)

lemma store_tensor_outcome:
  assumes inv: "pool_inv p" and run: "store_tensor view t p = Some (r, q)"
  shows "(\<exists>x. r = Inl x \<and> kept p q) \<or> (\<exists>a. r = Inr a \<and> stored p t a q)"
proof (cases "t_is_cuda t")
  case False
  then have "kept p q" "\<exists>x. r = Inl x"
    using run inv by (auto simp: store_tensor_def op_simps kept_def same_shape_def)
  then show ?thesis by simp
next
  case True
  let ?sz = "t_element_size t * t_numel t"
  obtain v u where al: "allocate (int ?sz) p = Some (v, u)"
    using run True by (auto simp: store_tensor_def op_defs Let_def split: option.splits)
  consider x where "v = Inl x" "u = p" | a s where "v = Inr a" "?sz \<le> s" "allocated p a s u"
    using allocate_outcome [OF inv al] by (auto simp del: of_nat_mult)
  then show ?thesis
  proof cases
    case 1
    then show ?thesis using run True al inv
      by (auto simp: store_tensor_def op_defs Let_def kept_def same_shape_def)
  next
    case 2
    then have entry: "dict_get (allocated_blocks u) a = Some s" and u: "pool_inv u" by (auto simp: allocated_def)
    obtain w where w: "free_block a u = Some (Inr (), w)" using free_block_inv [OF u entry] by blast
    have ends: "kept p u" "kept p w" using 2(3) w by (auto intro: allocated_kept released_kept)
    show ?thesis
      using run True al 2 entry w ends
      by (auto simp: store_tensor_def op_defs op_simps Let_def stored_def split: sum.splits if_splits)
  qed
qed

section \<open>Reachable pools\<close>

datatype pool_call = Call_allocate int | Call_free nat | Call_store tensor | Call_load nat nat "nat list"

definition run_call :: "frombuffer \<Rightarrow> pool_call \<Rightarrow> (mem_pool, unit) op" where
  "run_call view c =
     (case c of
        Call_allocate n \<Rightarrow> seq_op (allocate n) (ret ())
      | Call_free a \<Rightarrow> free_block a
      | Call_store t \<Rightarrow> seq_op (store_tensor view t) (ret ())
      | Call_load a d sh \<Rightarrow> seq_op (load_tensor view a d sh) (ret ()))"

text \<open>A sequence of calls, each of which may return or raise.\<close>

inductive pool_trace :: "frombuffer \<Rightarrow> mem_pool \<Rightarrow> pool_call list \<Rightarrow> mem_pool \<Rightarrow> bool" for view where
  pool_done: "pool_trace view p [] p"
| pool_call: "pool_trace view p cs q \<Longrightarrow> run_call view c q = Some (r, u) \<Longrightarrow> pool_trace view p (cs @ [c]) u"

lemma run_seq_ret: "seq_op m (ret ()) p = Some (r, q) \<Longrightarrow> \<exists>v. m p = Some (v, q)"
  by (auto simp: op_defs op_simps split: option.splits sum.splits)

text \<open>What a call that does not free \<open>a\<close> keeps of the block at \<open>a\<close>.\<close>

definition block_kept :: "nat \<Rightarrow> mem_pool \<Rightarrow> mem_pool \<Rightarrow> bool" where
  "block_kept a p q \<longleftrightarrow> (\<forall>s. dict_get (allocated_blocks p) a = Some s \<longrightarrow>
     dict_get (allocated_blocks q) a = Some s \<and> (\<forall>x. a \<le> x \<and> x < a + s \<longrightarrow> pinned q x = pinned p x))"

definition sizes_kept :: "mem_pool \<Rightarrow> mem_pool \<Rightarrow> bool" where
  "sizes_kept p q \<longleftrightarrow> base_address q = base_address p \<and> max_block_size q = max_block_size p
     \<and> min_block_size q = min_block_size p"

lemma kept_block: "kept p q \<Longrightarrow> block_kept a p q \<and> sizes_kept p q"
  by (simp add: kept_def block_kept_def sizes_kept_def same_shape_def)

lemma allocated_apart:
  assumes "pool_inv p" and "dict_get (allocated_blocks p) a = Some s" and "dict_get (allocated_blocks p) b = Some r"
    and "a \<noteq> b"
  shows "a + s \<le> b \<or> b + r \<le> a"
proof -
  obtain t e K where "pool_ok p t e K" using assms(1) by (auto simp: pool_inv_def)
  then obtain j i where "(a, j, True) \<in> blocks (2 ^ e) t (base_address p) K" "s = 2 ^ e * 2 ^ j"
      "(b, i, True) \<in> blocks (2 ^ e) t (base_address p) K" "r = 2 ^ e * 2 ^ i"
    using assms(2,3) by (auto simp: pool_ok_def alloc_ok_def)
  then show ?thesis using blocks_disjoint assms(4) by blast
qed

lemma pool_inv_pinned [simp]: "pool_inv (p\<lparr>pinned := f\<rparr>) = pool_inv p"
  by (simp add: pool_inv_def pool_ok_def)

lemma stored_keeps:
  assumes st: "stored p t a q" and t: "tensor_ok t"
  shows "pool_inv q" and "sizes_kept p q" and "block_kept b p q"
proof -
  obtain s u where u: "allocated p a s u" "length (t_bytes t) \<le> s" "q = u\<lparr>pinned := write_bytes a (t_bytes t) (pinned u)\<rparr>"
    using st t by (auto simp: stored_def tensor_ok_def)
  then show "pool_inv q" "sizes_kept p q" by (auto simp: allocated_def sizes_kept_def same_shape_def)
  show "block_kept b p q"
    unfolding block_kept_def
  proof (intro allI impI)
    fix r
    assume r: "dict_get (allocated_blocks p) b = Some r"
    then have b: "b \<noteq> a" "dict_get (allocated_blocks u) b = Some r" "dict_get (allocated_blocks u) a = Some s" "pool_inv u"
      using u(1) by (auto simp: allocated_def)
    have apart: "b + r \<le> a \<or> a + s \<le> b" using allocated_apart [OF b(4,2,3,1)] .
    have "pinned u = pinned p" using u(1) by (simp add: allocated_def same_shape_def)
    then show "dict_get (allocated_blocks q) b = Some r \<and> (\<forall>x. b \<le> x \<and> x < b + r \<longrightarrow> pinned q x = pinned p x)"
      using u b apart by (auto simp: write_bytes_def)
  qed
qed

definition call_ok :: "pool_call \<Rightarrow> bool" where
  "call_ok c \<longleftrightarrow> (case c of Call_store t \<Rightarrow> tensor_ok t | _ \<Rightarrow> True)"

lemma run_call_keeps:
  assumes inv: "pool_inv p" and c: "call_ok c" and run: "run_call view c p = Some (r, q)"
  shows "pool_inv q \<and> sizes_kept p q \<and> (c \<noteq> Call_free a \<longrightarrow> block_kept a p q)"
proof (cases c)
  case (Call_allocate n)
  then obtain v where "allocate n p = Some (v, q)" using run run_seq_ret by (fastforce simp: run_call_def)
  from allocate_outcome [OF inv this] have "kept p q"
    using inv by (auto simp: allocated_def kept_def same_shape_def)
  then show ?thesis using kept_block by (auto simp: kept_def)
next
  case (Call_free b)
  have "free_block b p = Some (r, q)" using run Call_free by (simp add: run_call_def)
  from free_block_outcome [OF inv this] show ?thesis
    using Call_free by (auto simp: block_kept_def sizes_kept_def same_shape_def)
next
  case (Call_store t)
  then obtain v where "store_tensor view t p = Some (v, q)" using run run_seq_ret by (fastforce simp: run_call_def)
  from store_tensor_outcome [OF inv this] c Call_store show ?thesis
    using kept_block stored_keeps by (auto simp: kept_def call_ok_def)
next
  case (Call_load b d sh)
  then obtain v where "load_tensor view b d sh p = Some (v, q)" using run run_seq_ret by (fastforce simp: run_call_def)
  then have "q = p" by (auto simp: load_tensor_def Let_def split: option.splits if_splits sum.splits)
  then show ?thesis using inv by (simp add: block_kept_def sizes_kept_def)
qed

lemma pool_trace_keeps:
  assumes "pool_trace view p cs q" and "pool_inv p" and "list_all call_ok cs"
  shows "pool_inv q \<and> sizes_kept p q \<and> (Call_free a \<notin> set cs \<longrightarrow> block_kept a p q)"
  using assms
proof (induction rule: pool_trace.induct)
  case (pool_done p)
  then show ?case by (simp add: sizes_kept_def block_kept_def)
next
  case (pool_call p cs q c r u)
  have cs: "list_all call_ok cs" "call_ok c" using pool_call.prems by auto
  have q: "pool_inv q" "sizes_kept p q" "Call_free a \<notin> set cs \<longrightarrow> block_kept a p q"
    using pool_call.IH pool_call.prems cs by auto
  have u: "pool_inv u" "sizes_kept q u" "c \<noteq> Call_free a \<longrightarrow> block_kept a q u"
    using run_call_keeps [OF q(1) cs(2) pool_call.hyps(2)] by auto
  show ?case
  proof (intro conjI impI)
    show "pool_inv u" by (rule u)
    show "sizes_kept p u" using q u by (simp add: sizes_kept_def)
    show "block_kept a p u" if "Call_free a \<notin> set (cs @ [c])"
      using q(3) u(3) that by (auto simp: block_kept_def)
  qed
qed

text \<open>The pools that the constructor and any calls after it give, within the merge bound.\<close>

definition reachable_pool :: "frombuffer \<Rightarrow> mem_pool \<Rightarrow> bool" where
  "reachable_pool view q \<longleftrightarrow> (\<exists>mx mn base mem p cs. new_pool mx mn base mem = Inr p
     \<and> max_block_size p \<le> min_block_size p * 2 ^ max_merge_depth
     \<and> list_all call_ok cs \<and> pool_trace view p cs q)"

lemma reachable_inv: "reachable_pool view q \<Longrightarrow> pool_inv q"
  unfolding reachable_pool_def using new_pool_inv pool_trace_keeps by blast

lemma pool_trace_run: "pool_trace view p cs q \<Longrightarrow> run_call view c q = Some (r, u) \<Longrightarrow> pool_trace view p (cs @ [c]) u"
  by (rule pool_call)

text \<open>Every address of a region lies in exactly one leaf.\<close>

lemma blocks_cover:
  assumes "coalesced t k" and "a \<le> x" and "x < a + m * 2 ^ k"
  shows "\<exists>y j u. (y, j, u) \<in> blocks m t a k \<and> y \<le> x \<and> x < y + m * 2 ^ j"
  using assms
proof (induction m t a k rule: blocks.induct)
  case (4 m l r a k)
  show ?case
  proof (cases "x < a + m * 2 ^ k")
    case True
    then show ?thesis using 4 by (fastforce)
  next
    case False
    then have "\<exists>y j u. (y, j, u) \<in> blocks m r (a + m * 2 ^ k) k \<and> y \<le> x \<and> x < y + m * 2 ^ j"
      using 4 by (intro 4(2)) auto
    then show ?thesis by auto
  qed
qed auto

text \<open>\<open>owns p a s u\<close>: the pool holds the block at \<open>a\<close> of size \<open>s\<close>, allocated or free.\<close>

definition owns :: "mem_pool \<Rightarrow> nat \<times> nat \<times> bool \<Rightarrow> bool" where
  "owns p = (\<lambda>(a, s, u). if u then dict_get (allocated_blocks p) a = Some s else has_free p a s)"

lemma owns_iff:
  assumes "pool_ok p t e K"
  shows "owns p (a, s, u) \<longleftrightarrow> (\<exists>k. s = 2 ^ e * 2 ^ k \<and> (a, k, u) \<in> blocks (2 ^ e) t (base_address p) K)"
  using has_free_iff [OF assms, of a s] assms by (auto simp: owns_def pool_ok_def alloc_ok_def)

section \<open>A concrete pool\<close>

text \<open>A buffer of 1024 bytes at 4096 in blocks of at least 512, in which a 4-byte tensor is stored.\<close>

definition demo_view :: frombuffer where
  "demo_view b s n = Inr ()"

definition demo_tensor :: tensor where
  "demo_tensor = \<lparr>t_is_cuda = True, t_element_size = 2, t_numel = 2, t_bytes = [1, 2, 3, 4]\<rparr>"

definition demo_new :: mem_pool where
  "demo_new = \<lparr>max_block_size = 1024, min_block_size = 512, base_address = 4096,
     free_lists = [(1024, [(4096, 1024)]), (512, [])], allocated_blocks = [], pinned = (\<lambda>_. 0)\<rparr>"

definition demo_pool :: mem_pool where
  "demo_pool = demo_new\<lparr>free_lists := [(1024, []), (512, [(4608, 512)])],
     allocated_blocks := [(4096, 512)], pinned := write_bytes 4096 [1, 2, 3, 4] (\<lambda>_. 0)\<rparr>"

lemma demo_rounds: "round_to_power_of_two 1024 = 1024" "round_to_power_of_two 512 = 512"
  using round_fixed [of 10] round_fixed [of 9] by simp_all

lemma demo_new_pool: "new_pool 1024 512 4096 (\<lambda>_. 0) = Inr demo_new"
  by (simp add: new_pool_def demo_rounds demo_new_def initialize_free_lists.simps [of 1024]
      initialize_free_lists.simps [of 512] initialize_free_lists.simps [of 256])

lemma demo_store: "store_tensor demo_view demo_tensor demo_new = Some (Inr 4096, demo_pool)"
  by (simp add: store_tensor_def demo_tensor_def demo_new_def demo_pool_def allocate_def demo_rounds
      find_free.simps [of 512] find_free.simps [of 1024]
      split_block.simps [of _ _ 1024] split_block.simps [of _ _ 512] op_defs op_simps demo_view_def)

lemma demo_tensor_ok: "tensor_ok demo_tensor"
  by (simp add: tensor_ok_def demo_tensor_def)

lemma demo_reachable: "reachable_pool demo_view demo_new" "reachable_pool demo_view demo_pool"
proof -
  have bound: "max_block_size demo_new \<le> min_block_size demo_new * 2 ^ max_merge_depth"
    by (simp add: demo_new_def max_merge_depth_def)
  show "reachable_pool demo_view demo_new"
    unfolding reachable_pool_def using demo_new_pool bound pool_done by (metis list.pred_inject(1))
  have "run_call demo_view (Call_store demo_tensor) demo_new = Some (Inr (), demo_pool)"
    by (simp add: run_call_def op_defs op_simps demo_store)
  then have "pool_trace demo_view demo_new ([] @ [Call_store demo_tensor]) demo_pool"
    by (rule pool_call [OF pool_done])
  moreover have "list_all call_ok ([] @ [Call_store demo_tensor])" by (simp add: call_ok_def demo_tensor_ok)
  ultimately show "reachable_pool demo_view demo_pool"
    unfolding reachable_pool_def using demo_new_pool bound by blast
qed

section \<open>Properties\<close>

text \<open>
  C15.  The blocks of a reachable pool, allocated and free together, tile the pinned buffer:
  every address of it lies in exactly one block, whatever calls came before, returned or raised.
\<close>

theorem pool_blocks_tile:
  assumes "reachable_pool view p" and "base_address p \<le> x" and "x < base_address p + max_block_size p"
  shows "\<exists>!b. owns p b \<and> fst b \<le> x \<and> x < fst b + fst (snd b)"
proof -
  obtain t e K where ok: "pool_ok p t e K" using reachable_inv [OF assms(1)] by (auto simp: pool_inv_def)
  let ?B = "blocks (2 ^ e) t (base_address p) K"
  have "coalesced t K" "max_block_size p = 2 ^ e * 2 ^ K" using ok by (auto simp: pool_ok_def)
  then obtain y j u where y: "(y, j, u) \<in> ?B" "y \<le> x" "x < y + 2 ^ e * 2 ^ j"
    using blocks_cover [of t K "base_address p" x "2 ^ e"] assms(2,3) by auto
  show ?thesis
  proof (rule ex1I [of _ "(y, 2 ^ e * 2 ^ j, u)"])
    show "owns p (y, 2 ^ e * 2 ^ j, u) \<and> fst (y, 2 ^ e * 2 ^ j, u) \<le> x
        \<and> x < fst (y, 2 ^ e * 2 ^ j, u) + fst (snd (y, 2 ^ e * 2 ^ j, u))"
      using y owns_iff [OF ok] by auto
  next
    fix b
    assume b: "owns p b \<and> fst b \<le> x \<and> x < fst b + fst (snd b)"
    obtain z s v where "b = (z, s, v)" by (cases b)
    moreover from this b obtain i where "s = 2 ^ e * 2 ^ i" "(z, i, v) \<in> ?B" using owns_iff [OF ok, of z s v] by auto
    ultimately show "b = (y, 2 ^ e * 2 ^ j, u)"
      using blocks_disjoint [OF y(1), of z i v] b y(2,3) by fastforce
  qed
qed

theorem pool_blocks_tile_witness:
  "owns demo_pool (4608, 512, False) \<and> (\<exists>!b. owns demo_pool b \<and> fst b \<le> 4700 \<and> 4700 < fst b + fst (snd b))"
proof
  show "owns demo_pool (4608, 512, False)" by (simp add: owns_def has_free_def demo_pool_def demo_new_def)
  show "\<exists>!b. owns demo_pool b \<and> fst b \<le> 4700 \<and> 4700 < fst b + fst (snd b)"
    by (rule pool_blocks_tile [OF demo_reachable(2)]) (simp_all add: demo_pool_def demo_new_def)
qed

text \<open>
  Every block of a reachable pool starts at a multiple of its own size from the buffer's
  start, has a power-of-two size between the two block sizes, and, for pools of at least four
  bytes, lies inside the bytes that were really pinned.
\<close>

theorem pool_block_aligned:
  assumes "reachable_pool view p" and "owns p (a, s, u)"
  shows "base_address p \<le> a \<and> a + s \<le> base_address p + max_block_size p
    \<and> s dvd a - base_address p \<and> min_block_size p \<le> s \<and> (\<exists>i. s = 2 ^ i)
    \<and> (4 \<le> max_block_size p \<longrightarrow> a + s \<le> base_address p + buffer_bytes p)"
proof -
  obtain t e K where ok: "pool_ok p t e K" using reachable_inv [OF assms(1)] by (auto simp: pool_inv_def)
  then obtain k where k: "s = 2 ^ e * 2 ^ k" "(a, k, u) \<in> blocks (2 ^ e) t (base_address p) K"
    using owns_iff [OF ok] assms(2) by blast
  moreover have "\<exists>i. s = 2 ^ i" using k(1) by (metis power_add)
  moreover have "buffer_bytes p = max_block_size p" if "4 \<le> max_block_size p"
  proof -
    have pow: "max_block_size p = 2 ^ (e + K)" using ok by (simp add: pool_ok_def power_add)
    with that have "(2::nat) ^ 2 \<le> 2 ^ (e + K)" by simp
    then have "2 \<le> e + K" by (simp only: power_increasing_iff)
    then have "(2::nat) ^ 2 dvd 2 ^ (e + K)" by (rule le_imp_power_dvd)
    then show ?thesis by (simp add: buffer_bytes_def pow)
  qed
  ultimately show ?thesis
    using blocks_range [OF k(2)] blocks_aligned [OF k(2)] ok by (auto simp: pool_ok_def)
qed

theorem pool_block_aligned_witness:
  "owns demo_pool (4608, 512, False) \<and> (512::nat) dvd 4608 - base_address demo_pool"
proof -
  have o: "owns demo_pool (4608, 512, False)" by (simp add: owns_def has_free_def demo_pool_def demo_new_def)
  with pool_block_aligned [OF demo_reachable(2) o] show ?thesis by blast
qed

text \<open>
  Allocation on a reachable pool: a size that is not positive or that exceeds the largest
  block is refused; otherwise the call returns the address of a fresh block whose size is the
  rounded request and leaves every other allocation alone, or it reports insufficient memory,
  leaves the pool as it is, and there is no free block of the rounded size or more.
\<close>

theorem allocate_spec:
  assumes "reachable_pool view p"
  shows "let s = round_to_power_of_two (max (nat n) (min_block_size p)) in
    (n \<le> 0 \<longrightarrow> allocate n p = Some (Inl err_alloc_size, p))
    \<and> (0 < n \<and> max_block_size p < s \<longrightarrow> allocate n p = Some (Inl err_too_large, p))
    \<and> (0 < n \<and> s \<le> max_block_size p \<longrightarrow>
        (\<exists>a q. allocate n p = Some (Inr a, q) \<and> dict_get (allocated_blocks p) a = None
           \<and> (\<forall>x. dict_get (allocated_blocks q) x = (if x = a then Some s else dict_get (allocated_blocks p) x))
           \<and> n \<le> int s \<and> s < 2 * max (nat n) (min_block_size p))
        \<or> (allocate n p = Some (Inl err_no_memory, p) \<and> (\<forall>a r. has_free p a r \<longrightarrow> r < s)))"
proof -
  let ?s = "round_to_power_of_two (max (nat n) (min_block_size p))"
  have inv: "pool_inv p" using assms by (rule reachable_inv)
  have pos: "0 < max (nat n) (min_block_size p)" using inv by (auto simp: pool_inv_def pool_ok_def less_max_iff_disj)
  have upper: "?s < 2 * max (nat n) (min_block_size p)" using round_to_power_of_two_less [OF pos] .
  have lower: "n \<le> int ?s"
    using round_to_power_of_two_ge [of "max (nat n) (min_block_size p)"] by linarith
  have "\<not> 0 < n \<Longrightarrow> allocate n p = Some (Inl err_alloc_size, p)" by (simp add: allocate_def)
  moreover have "0 < n \<Longrightarrow> max_block_size p < ?s \<Longrightarrow> allocate n p = Some (Inl err_too_large, p)"
    by (simp add: allocate_def Let_def)
  ultimately show ?thesis
    using allocate_cases [OF inv _ _ refl, of n] upper lower
    unfolding Let_def allocated_def starved_def by (auto simp: not_less)
qed

theorem allocate_spec_witness:
  "\<exists>a q. allocate 100 demo_pool = Some (Inr a, q) \<and> dict_get (allocated_blocks q) a = Some 512"
proof -
  have s: "round_to_power_of_two (max (nat 100) (min_block_size demo_pool)) = 512"
    by (simp add: demo_pool_def demo_new_def demo_rounds)
  have "has_free demo_pool 4608 512" by (simp add: has_free_def demo_pool_def demo_new_def)
  then have "\<not> (\<forall>a r. has_free demo_pool a r \<longrightarrow> r < 512)" by blast
  moreover have "512 \<le> max_block_size demo_pool" by (simp add: demo_pool_def demo_new_def)
  ultimately show ?thesis using allocate_spec [OF demo_reachable(2), of 100] unfolding s Let_def by fastforce
qed

text \<open>
  Releasing an allocated address of a reachable pool succeeds and takes exactly that entry
  away; releasing any other address raises and changes nothing.
\<close>

theorem free_block_spec:
  assumes "reachable_pool view p"
  shows "case dict_get (allocated_blocks p) a of
      None \<Rightarrow> free_block a p = Some (Inl err_free, p)
    | Some s \<Rightarrow> (\<exists>q. free_block a p = Some (Inr (), q) \<and> pinned q = pinned p
        \<and> allocated_blocks q = dict_pop a (allocated_blocks p))"
proof (cases "dict_get (allocated_blocks p) a")
  case None
  then show ?thesis by (simp add: free_block_def)
next
  case (Some s)
  then show ?thesis using free_block_inv [OF reachable_inv [OF assms] Some] by (auto simp: same_shape_def)
qed

theorem free_block_spec_witness: "\<exists>q. free_block 4096 demo_pool = Some (Inr (), q) \<and> allocated_blocks q = []"
  using free_block_spec [OF demo_reachable(2), of 4096] by (auto simp: demo_pool_def demo_new_def)

text \<open>
  Coalescing is complete: when nothing is allocated in a reachable pool, its free memory is
  one block, the whole buffer, so a request of the largest size succeeds.
\<close>

theorem empty_pool_is_whole:
  assumes "reachable_pool view p" and "allocated_blocks p = []"
  shows "has_free p a s \<longleftrightarrow> a = base_address p \<and> s = max_block_size p"
proof -
  obtain t e K where ok: "pool_ok p t e K" using reachable_inv [OF assms(1)] by (auto simp: pool_inv_def)
  let ?B = "blocks (2 ^ e) t (base_address p) K"
  have "\<not> u" if "(x, j, u) \<in> ?B" for x j u
    using ok that assms(2) by (auto simp: pool_ok_def alloc_ok_def)
  then have "t = Free" using all_free_merged [of t K "2 ^ e" "base_address p"] ok by (auto simp: pool_ok_def)
  then show ?thesis using has_free_iff [OF ok, of a s] ok by (auto simp: pool_ok_def)
qed

theorem empty_pool_is_whole_witness: "allocated_blocks demo_new = [] \<and> has_free demo_new 4096 1024"
  using empty_pool_is_whole [OF demo_reachable(1), of 4096 1024] by (simp add: demo_new_def)

text \<open>
  C16.  A tensor stored in a reachable pool is read back byte for byte from the returned address
  after any further calls that do not free that address, whatever they store or release elsewhere.
\<close>

theorem stored_tensor_loads:
  assumes "reachable_pool view p" and t: "tensor_ok t" and store: "store_tensor view t p = Some (Inr a, q)"
    and trace: "pool_trace view q cs r" "list_all call_ok cs" "Call_free a \<notin> set cs"
    and shape: "prod_list sh = t_numel t" and view: "\<And>b. view b (t_element_size t) (t_numel t) = Inr ()"
  shows "load_tensor view a (t_element_size t) sh r = Some (Inr (t_bytes t), r)"
proof -
  have st: "stored p t a q" using store_tensor_outcome [OF reachable_inv [OF assms(1)] store] by auto
  then obtain s u where u: "allocated p a s u" "t_element_size t * t_numel t \<le> s"
    and q: "q = u\<lparr>pinned := write_bytes a (t_bytes t) (pinned u)\<rparr>" by (auto simp: stored_def)
  have entry: "dict_get (allocated_blocks q) a = Some s" using u(1) q by (simp add: allocated_def)
  have "block_kept a q r" using pool_trace_keeps [OF trace(1) stored_keeps(1) [OF st t] trace(2)] trace(3) by blast
  then have r: "dict_get (allocated_blocks r) a = Some s" "\<And>x. a \<le> x \<Longrightarrow> x < a + s \<Longrightarrow> pinned r x = pinned q x"
    using entry by (auto simp: block_kept_def)
  have len: "length (t_bytes t) = t_numel t * t_element_size t" using t by (simp add: tensor_ok_def)
  have "read_bytes a (t_numel t * t_element_size t) (pinned r) = t_bytes t"
  proof (rule nth_equalityI)
    fix i
    assume "i < length (read_bytes a (t_numel t * t_element_size t) (pinned r))"
    then have i: "i < length (t_bytes t)" by (simp add: read_bytes_def len)
    then have "pinned r (a + i) = pinned q (a + i)" using u(2) len by (intro r(2)) (auto simp: mult.commute)
    then show "read_bytes a (t_numel t * t_element_size t) (pinned r) ! i = t_bytes t ! i"
      using i by (simp add: read_bytes_def len q write_bytes_def)
  qed (simp add: read_bytes_def len)
  moreover have "\<not> s < t_numel t * t_element_size t" using u(2) by (simp add: mult.commute)
  ultimately show ?thesis using r(1) shape view by (simp add: load_tensor_def Let_def)
qed

theorem stored_tensor_loads_witness:
  "load_tensor demo_view 4096 2 [2] demo_pool = Some (Inr [1, 2, 3, 4], demo_pool)"
  using stored_tensor_loads [OF demo_reachable(1) demo_tensor_ok demo_store pool_done, of "[2]"]
  by (simp add: demo_tensor_def demo_view_def)

text \<open>A pool of at most two bytes hands out memory beyond the pinned bytes.\<close>

lemma tiny_pool_exceeds_buffer:
  "\<exists>p. new_pool 2 1 base mem = Inr p \<and> has_free p base 2 \<and> buffer_bytes p = 0"
  using round_fixed [of 1] round_fixed [of 0]
  by (simp add: new_pool_def has_free_def buffer_bytes_def initialize_free_lists.simps [of 2]
      initialize_free_lists.simps [of "Suc 0"] initialize_free_lists.simps [of 0])

end
