(* ===== verification/Layer_Split.thy ===== *)
theory Layer_Split
  imports Interval_Tiling
begin

text \<open>
  Ownership of DSA cache layers by prefill-context-parallel ranks,
  \<open>src/vllm_hcu/v1/dsa_cache_layer_split.py\<close> (first half and the packed-slot section): the
  contiguous shard ranges, the owner of a layer, the validation of the feature's
  prerequisites, the resolution of the runtime state and the rank-local packed slots.

  Layer indices and sizes are Python integers.  Configuration objects are records whose
  \<open>None\<close> stands for a missing attribute or the value \<open>None\<close>; the environment is a
  dictionary argument.  The feature flag that \<open>get_hcu_config\<close> reads is a field holding
  the outcome of that call.
\<close>

section \<open>Shard ranges\<close>

definition err_shard_size :: "int \<Rightarrow> exn" where
  "err_shard_size s = Exn ValueError (''shard_size must be > 0; got '' @ str_int s)"

definition err_total_layers :: "int \<Rightarrow> exn" where
  "err_total_layers n = Exn ValueError (''total_layers must be >= 0; got '' @ str_int n)"

definition err_shard_rank :: "int \<Rightarrow> int \<Rightarrow> exn" where
  "err_shard_rank s r = Exn ValueError (''rank must be in [0, '' @ str_int s @ ''); got '' @ str_int r)"

definition get_layer_shard_range :: "int \<Rightarrow> int \<Rightarrow> int \<Rightarrow> (int \<times> int) result" where
  "get_layer_shard_range rank shard_size total_layers =
     (if shard_size \<le> 0 then Inl (err_shard_size shard_size)
      else if total_layers < 0 then Inl (err_total_layers total_layers)
      else if \<not> (0 \<le> rank \<and> rank < shard_size) then Inl (err_shard_rank shard_size rank)
      else let base = total_layers div shard_size;
               rem = total_layers mod shard_size;
               start = rank * base + min rank rem
           in Inr (start, start + base + (if rank < rem then 1 else 0)))"

definition py_range :: "int \<Rightarrow> int list" where
  "py_range n = map int [0..<nat n]"

definition err_layer_range :: "int \<Rightarrow> int \<Rightarrow> exn" where
  "err_layer_range i n = Exn ValueError
     (''local_layer_idx='' @ str_int i @ '' out of range for total_layers='' @ str_int n)"

definition err_no_owner :: "int \<Rightarrow> int \<Rightarrow> int \<Rightarrow> exn" where
  "err_no_owner i s n = Exn ValueError
     (''Invalid local_layer_idx='' @ str_int i @ '' for shard_size='' @ str_int s
      @ '', total_layers='' @ str_int n)"

fun search_owner :: "int list \<Rightarrow> int \<Rightarrow> int \<Rightarrow> int \<Rightarrow> int result" where
  "search_owner [] i shard_size total_layers = Inl (err_no_owner i shard_size total_layers)"
| "search_owner (rank # ranks) i shard_size total_layers =
     and_then (get_layer_shard_range rank shard_size total_layers) (\<lambda>(start, stop).
       if start \<le> i \<and> i < stop then Inr rank else search_owner ranks i shard_size total_layers)"

definition get_layer_owner :: "int \<Rightarrow> int \<Rightarrow> int \<Rightarrow> int result" where
  "get_layer_owner i shard_size total_layers =
     (if \<not> (0 \<le> i \<and> i < total_layers) then Inl (err_layer_range i total_layers)
      else search_owner (py_range shard_size) i shard_size total_layers)"

definition effective_num_layers :: "int \<Rightarrow> int \<Rightarrow> int" where
  "effective_num_layers num_layers shard_size =
     (if shard_size \<le> 1 then num_layers
      else max 1 ((num_layers + shard_size - 1) div shard_size + 1))"

section \<open>Runtime ownership\<close>

record layer_split_state =
  shard_rank :: int
  shard_size :: int
  total_layers :: int
  start_layer :: int

definition local_index :: "layer_split_state \<Rightarrow> int \<Rightarrow> int" where
  "local_index st layer_idx = layer_idx - start_layer st"

definition covers :: "layer_split_state \<Rightarrow> int \<Rightarrow> bool" where
  "covers st layer_idx \<longleftrightarrow> 0 \<le> local_index st layer_idx \<and> local_index st layer_idx < total_layers st"

definition is_owned :: "layer_split_state \<Rightarrow> int \<Rightarrow> bool result" where
  "is_owned st layer_idx =
     (if \<not> covers st layer_idx then Inr True
      else and_then (get_layer_shard_range (shard_rank st) (shard_size st) (total_layers st)) (\<lambda>(start, stop).
        Inr (start \<le> local_index st layer_idx \<and> local_index st layer_idx < stop)))"

definition owner_of :: "layer_split_state \<Rightarrow> int \<Rightarrow> int result" where
  "owner_of st layer_idx =
     (if \<not> covers st layer_idx then Inr (shard_rank st)
      else get_layer_owner (local_index st layer_idx) (shard_size st) (total_layers st))"

section \<open>Configuration\<close>

record hf_config =
  hf_index_topk :: "int option"
  hf_num_hidden_layers :: "int option"

record model_config =
  mc_architectures :: "string list option"
  mc_use_mla :: "bool option"
  mc_hf_config :: "hf_config option"
  mc_hf_text_config :: "hf_config option"

record parallel_config =
  pc_pcp_size :: "int option"
  pc_pp_size :: "int option"

record vllm_config =
  vc_layer_split_flag :: "bool result"
  vc_parallel_config :: "parallel_config option"
  vc_kv_role :: "string option"
  vc_model_config :: "model_config option"
  vc_block_size :: "int option"

type_synonym environ = "(string, string) dict"

definition is_dsa_cache_layer_split_requested :: "vllm_config option \<Rightarrow> bool" where
  "is_dsa_cache_layer_split_requested cfg =
     (case cfg of None \<Rightarrow> False
      | Some c \<Rightarrow> (case vc_layer_split_flag c of Inl _ \<Rightarrow> False | Inr b \<Rightarrow> b))"

definition dsa_layer_split_architectures :: "string list" where
  "dsa_layer_split_architectures =
     [''DeepseekV32ForCausalLM'', ''DeepseekV3ForCausalLM'', ''GlmMoeDsaForCausalLM'', ''HYV4ForCausalLM'']"

definition dsa_env_opt_out_architectures :: "string list" where
  "dsa_env_opt_out_architectures =
     [''DeepseekV3ForCausalLM'', ''DeepseekV32ForCausalLM'', ''GlmMoeDsaForCausalLM'']"

definition dsa_hf_config :: "model_config \<Rightarrow> hf_config option" where
  "dsa_hf_config mc = (case mc_hf_config mc of None \<Rightarrow> mc_hf_text_config mc | Some h \<Rightarrow> Some h)"

definition dsa_disabled_by_environment :: "environ \<Rightarrow> string \<Rightarrow> bool" where
  "dsa_disabled_by_environment env architecture =
     (if architecture \<notin> set dsa_env_opt_out_architectures then False
      else py_lower (case dict_get env ''VLLM_HCU_DISABLE_DSA'' of None \<Rightarrow> ''False'' | Some s \<Rightarrow> s)
             \<in> {''1'', ''true'', ''yes'', ''on''})"

definition first_architecture :: "model_config \<Rightarrow> string option" where
  "first_architecture mc =
     (case mc_architectures mc of None \<Rightarrow> None | Some [] \<Rightarrow> None | Some (a # _) \<Rightarrow> Some a)"

definition has_index_topk :: "model_config \<Rightarrow> bool" where
  "has_index_topk mc \<longleftrightarrow>
     (case dsa_hf_config mc of None \<Rightarrow> False | Some h \<Rightarrow> hf_index_topk h \<noteq> None)"

definition is_hcu_dsa_mla_model :: "environ \<Rightarrow> model_config option \<Rightarrow> bool" where
  "is_hcu_dsa_mla_model env mco =
     (case mco of
        None \<Rightarrow> False
      | Some mc \<Rightarrow>
          (case first_architecture mc of
             None \<Rightarrow> False
           | Some a \<Rightarrow>
               if a \<notin> set dsa_layer_split_architectures then False
               else if dsa_disabled_by_environment env a then False
               else if mc_use_mla mc \<noteq> Some True then False
               else has_index_topk mc))"

definition repr_opt_str :: "string option \<Rightarrow> string" where
  "repr_opt_str x = (case x of None \<Rightarrow> ''None'' | Some s \<Rightarrow> py_repr s)"

definition repr_opt_bool :: "bool option \<Rightarrow> string" where
  "repr_opt_bool x = (case x of None \<Rightarrow> ''None'' | Some b \<Rightarrow> if b then ''True'' else ''False'')"

definition dsa_capability_error :: "environ \<Rightarrow> model_config option \<Rightarrow> string" where
  "dsa_capability_error env mco =
     (case mco of
        None \<Rightarrow> ''model_config is missing''
      | Some mc \<Rightarrow>
          (case first_architecture mc of
             None \<Rightarrow> ''architecture must be one of '' @ py_repr_list dsa_layer_split_architectures
                     @ '' (got None)''
           | Some a \<Rightarrow>
               if a \<notin> set dsa_layer_split_architectures
               then ''architecture must be one of '' @ py_repr_list dsa_layer_split_architectures
                    @ '' (got '' @ py_repr a @ '')''
               else if dsa_disabled_by_environment env a then ''VLLM_HCU_DISABLE_DSA is enabled''
               else if mc_use_mla mc \<noteq> Some True
               then ''use_mla must be True (got '' @ repr_opt_bool (mc_use_mla mc) @ '')''
               else if \<not> has_index_topk mc then ''hf_config.index_topk is missing''
               else ''the HCU DSA runtime capability is unavailable''))"

text \<open>\<open>int(value or 1)\<close>\<close>

definition int_or_one :: "int option \<Rightarrow> int" where
  "int_or_one x = (case x of None \<Rightarrow> 1 | Some n \<Rightarrow> if n = 0 then 1 else n)"

definition err_kv_role :: "string option \<Rightarrow> exn" where
  "err_kv_role role = Exn ValueError
     (''enable_dsa_cache_layer_split is only supported on a PD-disaggregated prefill worker ''
      @ ''(--kv-transfer-config with kv_role='' @ py_repr ''kv_producer'' @ ''); got kv_role=''
      @ repr_opt_str role
      @ ''. Workers that also run decode require full local DSA cache; drop --enable-dsa-cache-layer-split.'')"

definition require_pd_prefill_worker :: "vllm_config \<Rightarrow> unit result" where
  "require_pd_prefill_worker c =
     (if vc_kv_role c \<noteq> Some ''kv_producer'' then Inl (err_kv_role (vc_kv_role c)) else Inr ())"

definition total_layers_from_config :: "vllm_config \<Rightarrow> int option" where
  "total_layers_from_config c =
     (case vc_model_config c of None \<Rightarrow> None
      | Some mc \<Rightarrow> (case dsa_hf_config mc of None \<Rightarrow> None | Some h \<Rightarrow> hf_num_hidden_layers h))"

definition err_manager_block :: "int \<Rightarrow> exn" where
  "err_manager_block b = Exn ValueError
     (''enable_dsa_cache_layer_split packs every layer into one block stride, so a manager block ''
      @ ''cannot be split into kernel blocks. Use --block-size 64 (got '' @ str_int b @ '').'')"

definition require_unsplittable_manager_block :: "vllm_config \<Rightarrow> unit result" where
  "require_unsplittable_manager_block c =
     (case vc_block_size c of
        None \<Rightarrow> Inr ()
      | Some b \<Rightarrow> if 64 < b \<and> b mod 64 = 0 then Inl (err_manager_block b) else Inr ())"

definition err_requires :: "string \<Rightarrow> exn" where
  "err_requires what = Exn ValueError (''enable_dsa_cache_layer_split requires '' @ what)"

definition err_pcp_size :: "int \<Rightarrow> exn" where
  "err_pcp_size n = err_requires (''prefill_context_parallel_size > 1 (got '' @ str_int n @ '').'')"

definition err_pp_size :: "int \<Rightarrow> exn" where
  "err_pp_size n = Exn ValueError
     (''enable_dsa_cache_layer_split does not support pipeline_parallel_size > 1 (got '' @ str_int n @ '').'')"

definition err_too_many_ranks :: "int \<Rightarrow> int \<Rightarrow> exn" where
  "err_too_many_ranks pcp n = err_requires
     (''prefill_context_parallel_size <= num_hidden_layers (got pcp='' @ str_int pcp
      @ '', num_hidden_layers='' @ str_int n
      @ ''); PCP ranks with an empty owned range cannot register Mooncake KV tensors.'')"

definition validate_dsa_cache_layer_split :: "environ \<Rightarrow> vllm_config \<Rightarrow> unit result" where
  "validate_dsa_cache_layer_split env c =
     (if \<not> is_dsa_cache_layer_split_requested (Some c) then Inr ()
      else case vc_parallel_config c of
        None \<Rightarrow> Inl (err_requires ''a parallel_config'')
      | Some par \<Rightarrow>
          (let pcp = int_or_one (pc_pcp_size par); pp = int_or_one (pc_pp_size par)
           in if pcp \<le> 1 then Inl (err_pcp_size pcp)
              else if 1 < pp then Inl (err_pp_size pp)
              else and_then (require_pd_prefill_worker c) (\<lambda>_.
                case vc_model_config c of
                  None \<Rightarrow> Inl (err_requires ''a model_config'')
                | Some mc \<Rightarrow>
                    if \<not> is_hcu_dsa_mla_model env (Some mc)
                    then Inl (err_requires (''an HCU-supported DSA MLA capability (''
                               @ dsa_capability_error env (Some mc) @ '').''))
                    else case total_layers_from_config c of
                      None \<Rightarrow> require_unsplittable_manager_block c
                    | Some n \<Rightarrow> if n < pcp then Inl (err_too_many_ranks pcp n)
                                else require_unsplittable_manager_block c)))"

section \<open>The runtime state\<close>

text \<open>\<open>int(text)\<close>: optional sign and decimal digits, single underscores between digits.\<close>

fun int_digits :: "string \<Rightarrow> bool \<Rightarrow> nat \<Rightarrow> nat option" where
  "int_digits [] after_digit acc = (if after_digit then Some acc else None)"
| "int_digits (c # cs) after_digit acc =
     (let n = of_char c :: nat
      in if 48 \<le> n \<and> n \<le> 57 then int_digits cs True (acc * 10 + (n - 48))
         else if c = CHR ''_'' \<and> after_digit then int_digits cs False acc
         else None)"

definition py_int :: "string \<Rightarrow> int result" where
  "py_int raw =
     (let s = py_strip raw;
          neg = (s \<noteq> [] \<and> hd s = CHR ''-'');
          digits = (if s \<noteq> [] \<and> (hd s = CHR ''-'' \<or> hd s = CHR ''+'') then tl s else s)
      in case int_digits digits False 0 of
           None \<Rightarrow> raise ValueError (''invalid literal for int() with base 10: '' @ py_repr raw)
         | Some n \<Rightarrow> Inr (if neg then - int n else int n))"

fun rank_from_env :: "environ \<Rightarrow> string list \<Rightarrow> int result" where
  "rank_from_env env [] = Inr 0"
| "rank_from_env env (key # keys) =
     (case dict_get env key of
        None \<Rightarrow> rank_from_env env keys
      | Some raw \<Rightarrow> if raw = [] then rank_from_env env keys else py_int raw)"

definition rank_keys :: "string list" where
  "rank_keys = [''PCP_RANK'', ''RANK'', ''LOCAL_RANK'', ''OMPI_COMM_WORLD_LOCAL_RANK'']"

text \<open>
  What the process offers around the call: the environment, the ambient configuration, the
  rank in the PCP group (an exception before the group exists) and the cached state.
\<close>

record runtime =
  rt_env :: environ
  rt_ambient :: "vllm_config option"
  rt_pcp_rank :: "int result"
  rt_installed :: bool
  rt_state :: "layer_split_state option"

definition resolve_vllm_config :: "runtime \<Rightarrow> vllm_config option \<Rightarrow> vllm_config option" where
  "resolve_vllm_config rt cfg = (case cfg of None \<Rightarrow> rt_ambient rt | Some c \<Rightarrow> Some c)"

definition resolve_shard_size :: "vllm_config option \<Rightarrow> int option \<Rightarrow> int option" where
  "resolve_shard_size cfg sz =
     (case sz of
        Some n \<Rightarrow> Some n
      | None \<Rightarrow>
          (case cfg of
             None \<Rightarrow> None
           | Some c \<Rightarrow> Some (case vc_parallel_config c of None \<Rightarrow> 1 | Some par \<Rightarrow> int_or_one (pc_pcp_size par))))"

definition resolve_total_layers :: "vllm_config option \<Rightarrow> int option \<Rightarrow> int option" where
  "resolve_total_layers cfg nlayers =
     (case nlayers of
        Some n \<Rightarrow> Some n
      | None \<Rightarrow> (case cfg of None \<Rightarrow> None | Some c \<Rightarrow> total_layers_from_config c))"

definition resolve_shard_rank :: "runtime \<Rightarrow> int option \<Rightarrow> int result" where
  "resolve_shard_rank rt rank =
     (case rank of
        Some r \<Rightarrow> Inr r
      | None \<Rightarrow> (case rt_pcp_rank rt of Inr r \<Rightarrow> Inr r | Inl _ \<Rightarrow> rank_from_env (rt_env rt) rank_keys))"

definition get_runtime_layer_split_state ::
    "runtime \<Rightarrow> vllm_config option \<Rightarrow> int option \<Rightarrow> int option \<Rightarrow> int option
     \<Rightarrow> layer_split_state option result" where
  "get_runtime_layer_split_state rt cfg0 rank sz nlayers =
     (if cfg0 = None \<and> rank = None \<and> sz = None \<and> nlayers = None \<and> rt_installed rt then Inr (rt_state rt)
      else let cfg = resolve_vllm_config rt cfg0
           in if \<not> is_dsa_cache_layer_split_requested cfg then Inr None
              else case resolve_shard_size cfg sz of
                     None \<Rightarrow> Inr None
                   | Some size' \<Rightarrow>
                       if size' \<le> 1 then Inr None
                       else case resolve_total_layers cfg nlayers of
                              None \<Rightarrow> Inr None
                            | Some nlayers' \<Rightarrow>
                                and_then (resolve_shard_rank rt rank) (\<lambda>r.
                                  Inr (Some \<lparr>shard_rank = r, shard_size = size', total_layers = nlayers', start_layer = 0\<rparr>)))"

text \<open>\<open>parse\<close> is \<open>extract_layer_index\<close> of vLLM.\<close>

definition should_commit_durable_dsa_cache ::
    "runtime \<Rightarrow> (string \<Rightarrow> int result) \<Rightarrow> string \<Rightarrow> vllm_config option \<Rightarrow> int option \<Rightarrow> int option \<Rightarrow> int option
     \<Rightarrow> bool result" where
  "should_commit_durable_dsa_cache rt parse layer_name cfg rank sz nlayers =
     and_then (get_runtime_layer_split_state rt cfg rank sz nlayers) (\<lambda>st.
       case st of None \<Rightarrow> Inr True | Some s \<Rightarrow> and_then (parse layer_name) (is_owned s))"

section \<open>Packed slots\<close>

text \<open>A Python set of layer indices is a list without its duplicates.\<close>

definition owned_count :: "int list \<Rightarrow> int \<Rightarrow> int \<Rightarrow> int" where
  "owned_count layers start stop = int (length (filter (\<lambda>i. start \<le> i \<and> i < stop) (remdups layers)))"

fun max_owned_loop :: "int list \<Rightarrow> int list \<Rightarrow> int \<Rightarrow> int \<Rightarrow> int \<Rightarrow> int result" where
  "max_owned_loop [] layers nlayers sz best = Inr best"
| "max_owned_loop (rank # ranks) layers nlayers sz best =
     and_then (get_layer_shard_range rank sz nlayers) (\<lambda>(start, stop).
       max_owned_loop ranks layers nlayers sz
         (if best < owned_count layers start stop then owned_count layers start stop else best))"

definition max_owned_count_for_layers :: "int list \<Rightarrow> int \<Rightarrow> int \<Rightarrow> int result" where
  "max_owned_count_for_layers layers nlayers sz =
     (if layers = [] \<or> sz \<le> 1 then Inr (int (length (remdups layers)))
      else max_owned_loop (py_range sz) layers nlayers sz 0)"

definition backbone_of :: "int \<Rightarrow> int list \<Rightarrow> int list" where
  "backbone_of nlayers layers = remdups (filter (\<lambda>i. 0 \<le> i \<and> i < nlayers) layers)"

definition phys_slots_for_layer_family :: "int list \<Rightarrow> int \<Rightarrow> int \<Rightarrow> int result" where
  "phys_slots_for_layer_family layers nlayers sz =
     (let backbone = backbone_of nlayers layers;
          n_extra = int (length (filter (\<lambda>i. nlayers \<le> i) layers))
      in if backbone = [] \<or> sz \<le> 1 then Inr (int (length layers))
         else and_then (max_owned_count_for_layers backbone nlayers sz) (\<lambda>n. Inr (n + 1 + n_extra)))"

definition err_outside_backbone :: "int \<Rightarrow> int \<Rightarrow> exn" where
  "err_outside_backbone i n = Exn ValueError
     (''layer_idx='' @ str_int i @ '' is outside backbone [0, '' @ str_int n @ '')'')"

definition local_packed_slot_for_layer :: "layer_split_state \<Rightarrow> int \<Rightarrow> int result" where
  "local_packed_slot_for_layer st layer_idx =
     (if \<not> covers st layer_idx then Inl (err_outside_backbone layer_idx (total_layers st))
      else let scratch = effective_num_layers (total_layers st) (shard_size st) - 1
           in and_then (is_owned st layer_idx) (\<lambda>owned.
                if \<not> owned then Inr scratch
                else and_then (get_layer_shard_range (shard_rank st) (shard_size st) (total_layers st)) (\<lambda>(start, _).
                  Inr (local_index st layer_idx - start))))"

fun list_index :: "'a \<Rightarrow> 'a list \<Rightarrow> nat option" where
  "list_index x [] = None"
| "list_index x (y # ys) = (if x = y then Some 0 else map_option Suc (list_index x ys))"

definition repr_int_list :: "int list \<Rightarrow> string" where
  "repr_int_list xs = ''['' @ py_join '', '' (map str_int xs) @ '']''"

definition err_not_in_family :: "int \<Rightarrow> int list \<Rightarrow> exn" where
  "err_not_in_family i xs = Exn ValueError (''layer_idx='' @ str_int i @ '' not in family '' @ repr_int_list xs)"

definition err_not_in_extras :: "int \<Rightarrow> int list \<Rightarrow> exn" where
  "err_not_in_extras i xs = Exn ValueError
     (''extra layer_idx='' @ str_int i @ '' not in family extras '' @ repr_int_list xs)"

definition err_not_in_backbone :: "int \<Rightarrow> int list \<Rightarrow> exn" where
  "err_not_in_backbone i xs = Exn ValueError
     (''layer_idx='' @ str_int i @ '' not in family backbone '' @ repr_int_list xs)"

definition index_or :: "exn \<Rightarrow> int \<Rightarrow> int list \<Rightarrow> int result" where
  "index_or e x xs = (case list_index x xs of None \<Rightarrow> Inl e | Some k \<Rightarrow> Inr (int k))"

definition local_packed_slot_for_family_layer :: "layer_split_state \<Rightarrow> int \<Rightarrow> int list \<Rightarrow> int result" where
  "local_packed_slot_for_family_layer st layer_idx family =
     (let backbone = sort (backbone_of (total_layers st) family);
          extras = sort (remdups (filter (\<lambda>i. total_layers st \<le> i) family))
      in if backbone = [] \<or> shard_size st \<le> 1 then index_or (err_not_in_family layer_idx family) layer_idx family
         else and_then (max_owned_count_for_layers backbone (total_layers st) (shard_size st)) (\<lambda>scratch.
           if total_layers st \<le> layer_idx
           then and_then (index_or (err_not_in_extras layer_idx extras) layer_idx extras) (\<lambda>k. Inr (scratch + 1 + k))
           else if layer_idx \<notin> set backbone then Inl (err_not_in_backbone layer_idx backbone)
           else and_then (is_owned st layer_idx) (\<lambda>owned.
             if \<not> owned then Inr scratch
             else and_then (get_layer_shard_range (shard_rank st) (shard_size st) (total_layers st)) (\<lambda>(start, stop).
               let mine = filter (\<lambda>i. start \<le> i \<and> i < stop) backbone
               in index_or (Exn ValueError (str_int layer_idx @ '' is not in list'')) layer_idx mine))))"

end
