(* ===== verification/Packed_Layout.thy ===== *)
theory Packed_Layout
  imports Layer_Split
begin

text \<open>
  The packed KV-cache layout of \<open>src/vllm_hcu/v1/dsa_cache_layer_split.py\<close> (last section): page
  sizes of the layers, construction of packed tensor descriptors on the installed vLLM's
  descriptor class, padding of the block pitch, and the worker-local remapping of layer offsets
  to owned slots and the scratch slot.

  A descriptor is a record of the attributes the code reads; a descriptor class is described by
  its field names, whether its instances accept new attributes, and whether its constructor
  accepts the extra keywords.  \<open>parse\<close> is \<open>extract_layer_index\<close> of vLLM.
\<close>

section \<open>Data\<close>

record layer_spec =
  ls_page_size :: int
  ls_block_size :: int
  ls_dtype :: "string option"

record kv_group =
  g_spec :: layer_spec
  g_per_layer :: "(string, layer_spec) dict option"
  g_layer_names :: "string list"

datatype tensor_origin = Upstream | Hcu_descriptor

record kv_tensor =
  kt_size :: int
  kt_names :: "string list"
  kt_block_stride :: int
  kt_offset :: int
  kt_layer_stride :: int
  kt_backing :: "nat option"
  kt_origin :: tensor_origin

record tensor_cls =
  cls_fields :: "string list"
  cls_settable :: bool
  cls_permissive :: bool

record kv_cache_config =
  kc_groups :: "kv_group list"
  kc_tensors :: "kv_tensor list"
  kc_remap_applied :: bool

section \<open>Page sizes\<close>

definition group_page_sizes :: "kv_group \<Rightarrow> (string, int) dict \<Rightarrow> (string, int) dict" where
  "group_page_sizes g ps =
     (let ps1 = (case g_per_layer g of
                   None \<Rightarrow> ps
                 | Some d \<Rightarrow> fold (\<lambda>(n, sp) acc. dict_set n (ls_page_size sp) acc) d ps)
      in fold (\<lambda>n acc. if dict_get acc n \<noteq> None then acc else dict_set n (ls_page_size (g_spec g)) acc)
           (g_layer_names g) ps1)"

definition layer_page_sizes :: "kv_cache_config \<Rightarrow> (string, int) dict" where
  "layer_page_sizes cfg = fold group_page_sizes (kc_groups cfg) []"

text \<open>The Euclidean loop; the remainder shrinks, so it ends.\<close>

function gcd_loop :: "int \<Rightarrow> int \<Rightarrow> int" where
  "gcd_loop g x = (if x = 0 then g else gcd_loop x (g mod x))"
  by pat_completeness auto
termination
  by (relation "measure (\<lambda>(g, x). nat \<bar>x\<bar>)") (auto simp: abs_mod_less)

declare gcd_loop.simps [simp del]

definition gaps_of :: "int list \<Rightarrow> int list" where
  "gaps_of xs = [b - a. (a, b) \<leftarrow> zip xs (tl xs), a < b]"

definition infer_page_size_from_packed :: "kv_tensor list \<Rightarrow> string \<Rightarrow> int option" where
  "infer_page_size_from_packed packed layer_name =
     (case filter (\<lambda>t. layer_name \<in> set (kt_names t)) packed of
        [] \<Rightarrow> None
      | t0 # _ \<Rightarrow>
          (let family = filter (\<lambda>t. kt_block_stride t = kt_block_stride t0) packed;
               offsets = sort (remdups (map kt_offset family))
           in if length offsets < 2 then None
              else case gaps_of offsets of
                     [] \<Rightarrow> None
                   | g # gs \<Rightarrow> (let d = foldl gcd_loop g gs in if 0 < d then Some d else None)))"

definition primary_layer_name :: "string list \<Rightarrow> string result" where
  "primary_layer_name names =
     (case names of [] \<Rightarrow> raise ValueError ''packed KV tensor has empty layers/shared_by'' | n # _ \<Rightarrow> Inr n)"

section \<open>Descriptors\<close>

definition set_packed_backing_id :: "tensor_cls \<Rightarrow> kv_tensor \<Rightarrow> nat option \<Rightarrow> kv_tensor result" where
  "set_packed_backing_id cls t backing =
     (case backing of
        None \<Rightarrow> Inr t
      | Some b \<Rightarrow>
          if \<not> cls_settable cls
          then raise ValueError ''Packed KV descriptor cannot preserve backing_id metadata''
          else Inr (t\<lparr>kt_backing := Some b\<rparr>))"

definition make_packed_kv_tensor ::
    "tensor_cls \<Rightarrow> int \<Rightarrow> string list \<Rightarrow> int \<Rightarrow> int \<Rightarrow> int \<Rightarrow> nat option \<Rightarrow> kv_tensor result" where
  "make_packed_kv_tensor cls sz names page offset stride backing =
     (let up = \<lparr>kt_size = sz, kt_names = names, kt_block_stride = stride, kt_offset = offset,
                kt_layer_stride = page, kt_backing = None, kt_origin = Upstream\<rparr>;
          own = up\<lparr>kt_backing := backing, kt_origin := Hcu_descriptor\<rparr>;
          fields = set (cls_fields cls)
      in if names = [] then raise ValueError ''packed KV tensor requires at least one layer name''
         else if {''layers'', ''layer_stride'', ''block_stride'', ''offset''} \<subseteq> fields
         then set_packed_backing_id cls up backing
         else if {''shared_by'', ''block_stride'', ''offset''} \<subseteq> fields
         then set_packed_backing_id cls
                (if ''layer_stride'' \<in> fields then up else up\<lparr>kt_layer_stride := 0\<rparr>) backing
         else if ''shared_by'' \<in> fields then Inr own
         else if ''layers'' \<in> fields then Inr own
         else if cls_permissive cls then set_packed_backing_id cls up backing
         else Inr own)"

section \<open>The block pitch\<close>

definition group_specs :: "kv_group \<Rightarrow> layer_spec list" where
  "group_specs g =
     (case g_per_layer g of
        None \<Rightarrow> [g_spec g]
      | Some d \<Rightarrow> if d = [] then [g_spec g] else map snd d)"

definition spec_align :: "layer_spec \<Rightarrow> int \<Rightarrow> int" where
  "spec_align sp align =
     (if 0 < ls_page_size sp \<and> 0 < ls_block_size sp \<and> ls_page_size sp mod ls_block_size sp = 0
      then lcm align (ls_page_size sp div ls_block_size sp) else align)"

definition align_packed_block_stride :: "int \<Rightarrow> kv_group list \<Rightarrow> int" where
  "align_packed_block_stride payload groups =
     (let align = fold spec_align (concat (map group_specs groups)) 1
      in if 1 < align \<and> payload mod align \<noteq> 0 then (payload + align - 1) div align * align else payload)"

section \<open>Remapping\<close>

text \<open>Layers by page size in order of appearance, with the names that have no page size.\<close>

record bucketing =
  bk_buckets :: "(int, string list) dict"
  bk_seen :: "string list"
  bk_missing :: "string list"

definition bucket_layer :: "(string, int) dict \<Rightarrow> kv_tensor list \<Rightarrow> string \<Rightarrow> bucketing \<Rightarrow> bucketing" where
  "bucket_layer ps packed n bk =
     (if n \<in> set (bk_seen bk) then bk
      else let bk1 = bk\<lparr>bk_seen := bk_seen bk @ [n]\<rparr>;
               page = (case dict_get ps n of None \<Rightarrow> infer_page_size_from_packed packed n | Some p \<Rightarrow> Some p)
           in case page of
                None \<Rightarrow> bk1\<lparr>bk_missing := bk_missing bk @ [n]\<rparr>
              | Some p \<Rightarrow>
                  bk1\<lparr>bk_buckets :=
                    dict_set p ((case dict_get (bk_buckets bk) p of None \<Rightarrow> [] | Some ns \<Rightarrow> ns) @ [n]) (bk_buckets bk)\<rparr>)"

definition bucket_layers :: "(string, int) dict \<Rightarrow> kv_tensor list \<Rightarrow> bucketing" where
  "bucket_layers ps packed =
     fold (bucket_layer ps packed) (concat (map kt_names packed)) \<lparr>bk_buckets = [], bk_seen = [], bk_missing = []\<rparr>"

text \<open>One family per page size: its layers, their indices and its number of physical slots.\<close>

record layer_family =
  fam_page :: int
  fam_names :: "string list"
  fam_indices :: "int list"
  fam_slots :: int

fun parse_all :: "(string \<Rightarrow> int result) \<Rightarrow> string list \<Rightarrow> int list result" where
  "parse_all parse [] = Inr []"
| "parse_all parse (n # ns) = and_then (parse n) (\<lambda>i. and_then (parse_all parse ns) (\<lambda>is. Inr (i # is)))"

fun build_families ::
    "layer_split_state \<Rightarrow> (string \<Rightarrow> int result) \<Rightarrow> (int, string list) dict \<Rightarrow> int list \<Rightarrow> layer_family list result" where
  "build_families st parse buckets [] = Inr []"
| "build_families st parse buckets (p # pages) =
     (let names = (case dict_get buckets p of None \<Rightarrow> [] | Some ns \<Rightarrow> ns)
      in and_then (parse_all parse names) (\<lambda>indices.
         and_then (phys_slots_for_layer_family indices (total_layers st) (shard_size st)) (\<lambda>slots.
         and_then (build_families st parse buckets pages) (\<lambda>fams.
           Inr (\<lparr>fam_page = p, fam_names = names, fam_indices = indices, fam_slots = slots\<rparr> # fams)))))"

definition err_page_sizes :: "string list \<Rightarrow> exn" where
  "err_page_sizes missing = Exn RuntimeError
     (''DSA layer-split packed remap could not resolve page sizes for '' @ str_nat (length missing)
      @ '' packed layers (example='' @ py_repr_list (take 3 missing)
      @ ''); refusing to run with aliased owned-layer cache offsets.'')"

definition repr_int_dict :: "(int \<times> int) list \<Rightarrow> string" where
  "repr_int_dict d = ''{'' @ py_join '', '' (map (\<lambda>(k, v). str_int k @ '': '' @ str_int v) d) @ ''}''"

definition err_stride :: "int \<Rightarrow> int \<Rightarrow> layer_family list \<Rightarrow> exn" where
  "err_stride old new fams = Exn RuntimeError
     (''DSA layer-split packed remap: block_stride='' @ str_int old
      @ '' != expected owned+scratch stride='' @ str_int new
      @ '' phys_slots='' @ repr_int_dict (map (\<lambda>f. (fam_page f, fam_slots f)) fams)
      @ '' bucket_lens='' @ repr_int_dict (map (\<lambda>f. (fam_page f, int (length (fam_names f)))) fams)
      @ ''; the shared KV planner and the worker remap disagree on the family layout, ''
      @ ''so owned layers would alias one slot.'')"

definition err_slot :: "int \<Rightarrow> int \<Rightarrow> int \<Rightarrow> string \<Rightarrow> exn" where
  "err_slot slot page n name = Exn RuntimeError
     (''DSA layer-split slot '' @ str_int slot @ '' out of range for page_size='' @ str_int page
      @ '' n_phys='' @ str_int n @ '' layer='' @ name)"

definition err_missing_page :: "string \<Rightarrow> exn" where
  "err_missing_page name = Exn RuntimeError (''DSA layer-split remap missing page_size for '' @ name)"

text \<open>The offset of a layer, with its page size, in the rank's block layout.\<close>

type_synonym layer_places = "(string, int \<times> int) dict"

fun place_layers :: "layer_split_state \<Rightarrow> layer_family \<Rightarrow> int \<Rightarrow> (string \<times> int) list \<Rightarrow> layer_places \<Rightarrow> layer_places result" where
  "place_layers st fam base [] places = Inr places"
| "place_layers st fam base ((name, idx) # rest) places =
     and_then (local_packed_slot_for_family_layer st idx (fam_indices fam)) (\<lambda>slot.
       if \<not> (0 \<le> slot \<and> slot < fam_slots fam) then Inl (err_slot slot (fam_page fam) (fam_slots fam) name)
       else place_layers st fam base rest (dict_set name (base + slot * fam_page fam, fam_page fam) places))"

fun place_families :: "layer_split_state \<Rightarrow> layer_family list \<Rightarrow> int \<Rightarrow> layer_places \<Rightarrow> layer_places result" where
  "place_families st [] base places = Inr places"
| "place_families st (f # fs) base places =
     and_then (place_layers st f base (zip (fam_names f) (fam_indices f)) places) (\<lambda>places'.
       place_families st fs (base + fam_slots f * fam_page f) places')"

definition remap_tensor ::
    "tensor_cls \<Rightarrow> (string, int) dict \<Rightarrow> layer_places \<Rightarrow> int \<Rightarrow> kv_tensor \<Rightarrow> kv_tensor result" where
  "remap_tensor cls ps places stride t =
     (if kt_block_stride t \<le> 0 then Inr t
      else and_then (primary_layer_name (kt_names t)) (\<lambda>primary.
        let page = (case dict_get places primary of
                      Some (_, p) \<Rightarrow> p
                    | None \<Rightarrow> if kt_layer_stride t \<noteq> 0 then kt_layer_stride t
                               else (case dict_get ps primary of None \<Rightarrow> 0 | Some p \<Rightarrow> p));
            offset = (case dict_get places primary of Some (off, _) \<Rightarrow> off | None \<Rightarrow> kt_offset t)
        in if page \<le> 0 then Inl (err_missing_page primary)
           else make_packed_kv_tensor cls (kt_size t) (kt_names t) page offset stride (kt_backing t)))"

fun remap_tensors ::
    "tensor_cls \<Rightarrow> (string, int) dict \<Rightarrow> layer_places \<Rightarrow> int \<Rightarrow> kv_tensor list \<Rightarrow> kv_tensor list result" where
  "remap_tensors cls ps places stride [] = Inr []"
| "remap_tensors cls ps places stride (t # ts) =
     and_then (remap_tensor cls ps places stride t) (\<lambda>u.
     and_then (remap_tensors cls ps places stride ts) (\<lambda>us. Inr (u # us)))"

definition family_bytes :: "layer_family list \<Rightarrow> int" where
  "family_bytes fams = sum_list (map (\<lambda>f. fam_page f * fam_slots f) fams)"

definition full_bytes :: "layer_family list \<Rightarrow> int" where
  "full_bytes fams = sum_list (map (\<lambda>f. fam_page f * int (length (fam_names f))) fams)"

text \<open>
  \<open>cls\<close> describes the class of the first packed descriptor; the result tells whether the offsets
  were rewritten, and gives the configuration left behind.
\<close>

definition remap_packed_kv_tensor_offsets ::
    "(string \<Rightarrow> int result) \<Rightarrow> tensor_cls \<Rightarrow> layer_split_state option \<Rightarrow> kv_cache_config
     \<Rightarrow> (bool \<times> kv_cache_config) result" where
  "remap_packed_kv_tensor_offsets parse cls state cfg =
     (case state of
        None \<Rightarrow> Inr (False, cfg)
      | Some st \<Rightarrow>
          if kc_remap_applied cfg then Inr (False, cfg)
          else case filter (\<lambda>t. 0 < kt_block_stride t) (kc_tensors cfg) of
            [] \<Rightarrow> Inr (False, cfg)
          | t0 # others \<Rightarrow>
              (let packed = t0 # others; ps = layer_page_sizes cfg; bk = bucket_layers ps packed
               in if bk_missing bk \<noteq> [] then Inl (err_page_sizes (bk_missing bk))
                  else and_then (build_families st parse (bk_buckets bk) (sort (dict_keys (bk_buckets bk)))) (\<lambda>fams.
                    if full_bytes fams \<le> family_bytes fams then Inr (False, cfg)
                    else let stride = align_packed_block_stride (family_bytes fams) (kc_groups cfg)
                         in if kt_block_stride t0 \<noteq> stride then Inl (err_stride (kt_block_stride t0) stride fams)
                            else and_then (place_families st fams 0 []) (\<lambda>places.
                                 and_then (remap_tensors cls ps places stride (kc_tensors cfg)) (\<lambda>ts.
                                   Inr (True, cfg\<lparr>kc_tensors := ts, kc_remap_applied := True\<rparr>))))))"

end
