(* ===== verification/Kv_Planner.thy ===== *)
theory Kv_Planner
  imports Packed_Layout
begin

text \<open>
  The engine-side planner of the layer-split KV cache,
  \<open>src/vllm_hcu/patch/platform/framework_opt/patch_dsa_layer_split_kv_config.py\<close>: the layers of each page
  size are given as many slots as the largest owner needs plus the scratch slot, the number of
  blocks is what fits the packed pages and the broadcast scratch, and provisional descriptors are
  emitted that every worker rewrites for its rank.

  Parameters: \<open>parse\<close> is vLLM's \<open>extract_layer_index\<close>; \<open>bucket\<close> is vLLM's own bucketing when it has one and
  \<open>bucket_layers_by_page_size\<close> otherwise; \<open>override\<close> is \<open>may_override_num_blocks\<close> for the configuration;
  \<open>tag\<close> numbers the tuples that identify a backing buffer; \<open>gib\<close> converts the textual number of GiB to
  bytes.  The wrapped functions of vLLM are parameters of the wrappers.
\<close>

section \<open>Activation and reserve\<close>

definition pcp_of_config :: "vllm_config \<Rightarrow> int" where
  "pcp_of_config c =
     int_or_one (case vc_parallel_config c of None \<Rightarrow> None | Some p \<Rightarrow> pc_pcp_size p)"

definition layer_split_active :: "vllm_config \<Rightarrow> bool" where
  "layer_split_active c \<longleftrightarrow> is_dsa_cache_layer_split_requested (Some c) \<and> 1 < pcp_of_config c"

definition layer_split_runtime_reserve_bytes :: "environ \<Rightarrow> (string \<Rightarrow> int result) \<Rightarrow> int result" where
  "layer_split_runtime_reserve_bytes env gib =
     (case dict_get env ''VLLM_HCU_DSA_LAYER_SPLIT_RESERVE_BYTES'' of
        Some raw \<Rightarrow>
          if py_strip raw \<noteq> [] then and_then (py_int raw) (\<lambda>n. Inr (max 0 n))
          else (case dict_get env ''VLLM_HCU_DSA_LAYER_SPLIT_RESERVE_GIB'' of
                  Some g \<Rightarrow> if py_strip g \<noteq> [] then and_then (gib g) (\<lambda>n. Inr (max 0 n)) else Inr (2 * 2 ^ 30)
                | None \<Rightarrow> Inr (2 * 2 ^ 30))
      | None \<Rightarrow>
          (case dict_get env ''VLLM_HCU_DSA_LAYER_SPLIT_RESERVE_GIB'' of
             Some g \<Rightarrow> if py_strip g \<noteq> [] then and_then (gib g) (\<lambda>n. Inr (max 0 n)) else Inr (2 * 2 ^ 30)
           | None \<Rightarrow> Inr (2 * 2 ^ 30)))"

definition available_after_layer_split_reserve :: "environ \<Rightarrow> (string \<Rightarrow> int result) \<Rightarrow> int \<Rightarrow> int result" where
  "available_after_layer_split_reserve env gib available =
     and_then (layer_split_runtime_reserve_bytes env gib) (\<lambda>reserve.
       Inr (if reserve \<le> 0 then available else max 0 (available - reserve)))"

section \<open>Page-size families\<close>

definition group_entries :: "kv_group \<Rightarrow> (int \<times> string) list" where
  "group_entries g =
     (case g_per_layer g of
        Some (e # es) \<Rightarrow> map (\<lambda>(n, sp). (ls_page_size sp, n)) (e # es)
      | _ \<Rightarrow> map (\<lambda>n. (ls_page_size (g_spec g), n)) (g_layer_names g))"

definition add_slot :: "int \<times> string \<Rightarrow> (int, string list list) dict \<Rightarrow> (int, string list list) dict" where
  "add_slot = (\<lambda>(p, n) buckets.
     dict_set p ((case dict_get buckets p of None \<Rightarrow> [] | Some slots \<Rightarrow> slots) @ [[n]]) buckets)"

definition bucket_layers_by_page_size :: "kv_group list \<Rightarrow> (int, string list list) dict" where
  "bucket_layers_by_page_size groups = fold add_slot (concat (map group_entries groups)) []"

text \<open>The scratch pools of the broadcast: one per dtype, or one for a page size of unknown dtype.\<close>

datatype pool_key = Standalone int | Of_dtype string

definition note_dtype :: "layer_spec \<Rightarrow> (int, string option list) dict \<Rightarrow> (int, string option list) dict" where
  "note_dtype sp d =
     (if ls_page_size sp = 0 then d
      else dict_set (ls_page_size sp)
             (List.insert (ls_dtype sp) (case dict_get d (ls_page_size sp) of None \<Rightarrow> [] | Some ts \<Rightarrow> ts)) d)"

definition charge_pool :: "int \<Rightarrow> string option \<Rightarrow> (pool_key, int) dict \<Rightarrow> (pool_key, int) dict" where
  "charge_pool page dtype pools =
     (let key = (case dtype of None \<Rightarrow> Standalone page | Some t \<Rightarrow> Of_dtype t)
      in dict_set key (max (case dict_get pools key of None \<Rightarrow> 0 | Some n \<Rightarrow> n) page) pools)"

definition charge_page :: "(int, string option list) dict \<Rightarrow> int \<Rightarrow> (pool_key, int) dict \<Rightarrow> (pool_key, int) dict" where
  "charge_page dtypes page =
     fold (charge_pool page)
       (case dict_get dtypes page of None \<Rightarrow> [None] | Some ts \<Rightarrow> if ts = [] then [None] else ts)"

definition bounce_bytes_per_block :: "kv_group list \<Rightarrow> int list \<Rightarrow> int" where
  "bounce_bytes_per_block groups pages =
     (let dtypes = fold note_dtype (concat (map group_specs groups)) []
      in 2 * sum_list (map snd (fold (charge_page dtypes) pages [])))"

section \<open>The layout\<close>

record shrunk =
  lay_buckets :: "(int, string list list) dict"
  lay_pages :: "int list"
  lay_slots :: "(int \<times> int) list"
  lay_pitch :: int
  lay_full :: int
  lay_bounce :: int
  lay_shrunk :: bool

definition bucket_at :: "(int, string list list) dict \<Rightarrow> int \<Rightarrow> string list list" where
  "bucket_at buckets p = (case dict_get buckets p of None \<Rightarrow> [] | Some slots \<Rightarrow> slots)"

definition slot_indices :: "(string \<Rightarrow> int result) \<Rightarrow> string list list \<Rightarrow> int list" where
  "slot_indices parse slots =
     map (\<lambda>slot. case parse (hd slot) of Inr i \<Rightarrow> i | Inl _ \<Rightarrow> -1) (filter (\<lambda>slot. slot \<noteq> []) slots)"

definition shrunk_layout ::
    "(string \<Rightarrow> int result) \<Rightarrow> (kv_group list \<Rightarrow> (int, string list list) dict) \<Rightarrow> vllm_config \<Rightarrow> kv_group list
     \<Rightarrow> shrunk option result" where
  "shrunk_layout parse bucket c groups =
     (case total_layers_from_config c of
        None \<Rightarrow> Inr None
      | Some nlayers \<Rightarrow>
          if nlayers \<le> 0 then Inr None
          else let buckets = bucket groups; pages = sort (dict_keys buckets)
               in and_then (map_result (\<lambda>p. and_then
                      (phys_slots_for_layer_family (slot_indices parse (bucket_at buckets p)) nlayers (pcp_of_config c))
                      (\<lambda>n. Inr (p, n))) pages) (\<lambda>slots.
                    let owned = sum_list (map (\<lambda>(p, n). p * n) slots);
                        full = sum_list (map (\<lambda>p. p * int (length (bucket_at buckets p))) pages)
                    in if owned \<le> 0 then Inr None
                       else Inr (Some \<lparr>lay_buckets = buckets, lay_pages = pages, lay_slots = slots,
                              lay_pitch = (if owned < full then align_packed_block_stride owned groups else full),
                              lay_full = full, lay_bounce = bounce_bytes_per_block groups pages,
                              lay_shrunk = (owned < full)\<rparr>)))"

definition accounted_bytes :: "shrunk \<Rightarrow> int" where
  "accounted_bytes l = lay_pitch l + lay_bounce l"

definition floor_div :: "int \<Rightarrow> int \<Rightarrow> int result" where
  "floor_div a b = (if b = 0 then raise ZeroDivisionError ''integer division or modulo by zero'' else Inr (a div b))"

definition err_budget :: "int \<Rightarrow> int \<Rightarrow> shrunk \<Rightarrow> exn" where
  "err_budget n budget l = Exn ValueError
     (''num_gpu_blocks_override='' @ str_int n @ '' exceeds the DSA cache layer-split budget of '' @ str_int budget
      @ '' blocks (packed KV '' @ str_int (lay_pitch l) @ '' + broadcast bounce '' @ str_int (lay_bounce l)
      @ '' bytes/block); lower the override or the layer-split bounce buffers OOM on the first prefill.'')"

definition budget_blocks :: "(int \<Rightarrow> int) \<Rightarrow> shrunk \<Rightarrow> int \<Rightarrow> int result" where
  "budget_blocks override l available =
     and_then (floor_div available (accounted_bytes l)) (\<lambda>budget.
       if budget < override budget then Inl (err_budget (override budget) budget l) else Inr (override budget))"

record planner =
  pl_parse :: "string \<Rightarrow> int result"
  pl_bucket :: "kv_group list \<Rightarrow> (int, string list list) dict"
  pl_override :: "int \<Rightarrow> int"
  pl_cls :: tensor_cls
  pl_tag :: "int list \<times> int \<times> int \<Rightarrow> nat"

definition planner_layout :: "planner \<Rightarrow> vllm_config \<Rightarrow> kv_group list \<Rightarrow> shrunk option result" where
  "planner_layout pl = shrunk_layout (pl_parse pl) (pl_bucket pl)"

definition bounce_reserved_memory :: "planner \<Rightarrow> vllm_config \<Rightarrow> kv_group list \<Rightarrow> int \<Rightarrow> int result" where
  "bounce_reserved_memory pl c groups available =
     and_then (planner_layout pl c groups) (\<lambda>layout.
       case layout of
         None \<Rightarrow> Inr available
       | Some l \<Rightarrow> and_then (budget_blocks (pl_override pl) l available) (\<lambda>_.
                    floor_div (available * lay_pitch l) (accounted_bytes l)))"

section \<open>The packed plan\<close>

definition plan_slot ::
    "planner \<Rightarrow> shrunk \<Rightarrow> int \<Rightarrow> int \<Rightarrow> int \<Rightarrow> int \<Rightarrow> nat \<times> string list \<Rightarrow> kv_tensor result" where
  "plan_slot pl l num_blocks page n_phys base = (\<lambda>(slot_idx, slot).
     make_packed_kv_tensor (pl_cls pl) (lay_pitch l * num_blocks) slot page
       (base + min (int slot_idx) (n_phys - 1) * page) (lay_pitch l)
       (Some (pl_tag pl (lay_pages l, lay_pitch l, num_blocks))))"

fun plan_families :: "planner \<Rightarrow> shrunk \<Rightarrow> int \<Rightarrow> (int \<times> int) list \<Rightarrow> int \<Rightarrow> kv_tensor list result" where
  "plan_families pl l num_blocks [] base = Inr []"
| "plan_families pl l num_blocks ((page, n_phys) # rest) base =
     and_then (map_result (plan_slot pl l num_blocks page n_phys base)
                 (List.enumerate 0 (bucket_at (lay_buckets l) page))) (\<lambda>ts.
     and_then (plan_families pl l num_blocks rest (base + n_phys * page)) (\<lambda>us. Inr (ts @ us)))"

definition shrunk_packed_plan ::
    "planner \<Rightarrow> vllm_config \<Rightarrow> kv_group list \<Rightarrow> int \<Rightarrow> (int \<times> kv_tensor list) option result" where
  "shrunk_packed_plan pl c groups available =
     and_then (planner_layout pl c groups) (\<lambda>layout.
       case layout of
         None \<Rightarrow> Inr None
       | Some l \<Rightarrow>
           if \<not> lay_shrunk l then Inr None
           else and_then (budget_blocks (pl_override pl) l available) (\<lambda>num_blocks.
                and_then (plan_families pl l num_blocks (lay_slots l) 0) (\<lambda>ts. Inr (Some (num_blocks, ts)))))"

definition config_from_plan :: "int \<times> kv_tensor list \<Rightarrow> kv_group list \<Rightarrow> int \<times> kv_cache_config" where
  "config_from_plan plan groups =
     (fst plan, \<lparr>kc_groups = groups, kc_tensors = snd plan, kc_remap_applied = False\<rparr>)"

definition hcu_get_kv_cache_config_packed ::
    "planner \<Rightarrow> (vllm_config \<Rightarrow> kv_group list \<Rightarrow> int \<Rightarrow> (int \<times> kv_tensor list) result)
     \<Rightarrow> vllm_config \<Rightarrow> kv_group list \<Rightarrow> int \<Rightarrow> (int \<times> kv_tensor list) result" where
  "hcu_get_kv_cache_config_packed pl original c groups available =
     (if \<not> layer_split_active c then original c groups available
      else and_then (shrunk_packed_plan pl c groups available) (\<lambda>plan.
        case plan of None \<Rightarrow> original c groups available | Some p \<Rightarrow> Inr p))"

definition hcu_get_kv_cache_config_from_groups ::
    "planner \<Rightarrow> (vllm_config \<Rightarrow> kv_group list \<Rightarrow> int \<Rightarrow> (int \<times> kv_cache_config) result)
     \<Rightarrow> vllm_config \<Rightarrow> kv_group list \<Rightarrow> int \<Rightarrow> (int \<times> kv_cache_config) result" where
  "hcu_get_kv_cache_config_from_groups pl original c groups available =
     (if \<not> layer_split_active c \<or> groups = [] then original c groups available
      else and_then (shrunk_packed_plan pl c groups available) (\<lambda>plan.
        case plan of
          None \<Rightarrow> and_then (bounce_reserved_memory pl c groups available) (original c groups)
        | Some p \<Rightarrow> Inr (config_from_plan p groups)))"

section \<open>Sizes reported to the engine\<close>

definition shrink_bytes :: "planner \<Rightarrow> vllm_config \<Rightarrow> kv_group list \<Rightarrow> int \<Rightarrow> int result" where
  "shrink_bytes pl c groups full_value =
     (if \<not> layer_split_active c \<or> groups = [] then Inr full_value
      else and_then (planner_layout pl c groups) (\<lambda>layout.
        case layout of
          None \<Rightarrow> Inr full_value
        | Some l \<Rightarrow> and_then (floor_div (- full_value * accounted_bytes l) (lay_full l)) (\<lambda>q. Inr (- q))))"

definition hcu_max_memory_usage_bytes_from_groups ::
    "planner \<Rightarrow> bool \<Rightarrow> (vllm_config \<Rightarrow> kv_group list \<Rightarrow> int result) \<Rightarrow> vllm_config \<Rightarrow> kv_group list \<Rightarrow> int result" where
  "hcu_max_memory_usage_bytes_from_groups pl uses_pool original c groups =
     and_then (original c groups) (\<lambda>full_value.
       if uses_pool then Inr full_value else shrink_bytes pl c groups full_value)"

text \<open>
  The two signatures of the wrapped pool function.  The newer one has no configuration argument and
  reads the one that the wrapper of \<open>get_kv_cache_configs\<close> has put into the module's variable.
\<close>

definition hcu_pool_bytes_per_block ::
    "planner \<Rightarrow> (vllm_config \<Rightarrow> kv_group list \<Rightarrow> int result) \<Rightarrow> vllm_config \<Rightarrow> kv_group list \<Rightarrow> int result" where
  "hcu_pool_bytes_per_block pl original c groups = and_then (original c groups) (shrink_bytes pl c groups)"

definition hcu_pool_bytes_of_active ::
    "planner \<Rightarrow> (kv_group list \<Rightarrow> int result) \<Rightarrow> kv_group list \<Rightarrow> (vllm_config option, int) op" where
  "hcu_pool_bytes_of_active pl original groups =
     bind_op (gets (\<lambda>active. active)) (\<lambda>active.
       lift_result (case active of
         None \<Rightarrow> original groups
       | Some c \<Rightarrow> and_then (original groups) (shrink_bytes pl c groups)))"

definition reserved_memory :: "environ \<Rightarrow> (string \<Rightarrow> int result) \<Rightarrow> vllm_config \<Rightarrow> int list \<Rightarrow> int list result" where
  "reserved_memory env gib c available =
     (if \<not> layer_split_active c then Inr available
      else and_then (layer_split_runtime_reserve_bytes env gib) (\<lambda>reserve.
        Inr (if 0 < reserve then map (\<lambda>m. max 0 (m - reserve)) available else available)))"

definition finally_op :: "('s, 'a) op \<Rightarrow> ('s \<Rightarrow> 's) \<Rightarrow> ('s, 'a) op" where
  "finally_op body cleanup s = (case body s of None \<Rightarrow> None | Some (r, t) \<Rightarrow> Some (r, cleanup t))"

definition hcu_get_kv_cache_configs ::
    "environ \<Rightarrow> (string \<Rightarrow> int result) \<Rightarrow> (vllm_config \<Rightarrow> 'specs \<Rightarrow> int list \<Rightarrow> (vllm_config option, 'a) op)
     \<Rightarrow> vllm_config \<Rightarrow> 'specs \<Rightarrow> int list \<Rightarrow> (vllm_config option, 'a) op" where
  "hcu_get_kv_cache_configs env gib original c specs available =
     bind_op (gets (\<lambda>active. active)) (\<lambda>previous.
     seq_op (modify (\<lambda>_. Some c))
       (finally_op
          (bind_op (lift_result (reserved_memory env gib c available)) (original c specs))
          (\<lambda>_. previous)))"

end
