(* ===== verification/Layer_Split_Correct.thy ===== *)
theory Layer_Split_Correct
  imports Layer_Split
begin

text \<open>
  The shard ranges tile the layers, so every layer has exactly one owner; the packed slots of
  a rank keep its owned and replicated layers apart and send every other layer to the scratch
  slot; validation admits only configurations in which these facts hold for every rank.
\<close>

section \<open>Shard ranges tile the layers\<close>

definition shard_lo :: "nat \<times> nat \<Rightarrow> nat \<Rightarrow> nat" where
  "shard_lo c i = i * (snd c div fst c) + min i (snd c mod fst c)"

definition shard_hi :: "nat \<times> nat \<Rightarrow> nat \<Rightarrow> nat" where
  "shard_hi c i = shard_lo c i + snd c div fst c + (if i < snd c mod fst c then 1 else 0)"

interpretation shards: interval_tiling "\<lambda>c. 0 < fst c" fst snd shard_lo shard_hi
proof
  fix c :: "nat \<times> nat" and i :: nat
  assume c: "0 < fst c"
  show "shard_lo c 0 = 0" by (simp add: shard_lo_def)
  show "shard_lo c i \<le> shard_hi c i" by (simp add: shard_hi_def)
  show "shard_lo c (Suc i) = shard_hi c i" by (simp add: shard_hi_def shard_lo_def)
  show "0 < fst c" by (rule c)
  have "snd c mod fst c < fst c" using c by simp
  then have "snd c mod fst c \<le> fst c - 1" by simp
  then have "shard_hi c (fst c - 1) = (fst c - 1) * (snd c div fst c) + snd c mod fst c + snd c div fst c"
    by (simp add: shard_hi_def shard_lo_def)
  also have "\<dots> = fst c * (snd c div fst c) + snd c mod fst c"
    using c by (cases "fst c") simp_all
  finally show "shard_hi c (fst c - 1) = snd c" by simp
qed

lemma shard_range_nat:
  assumes "i < s"
  shows "get_layer_shard_range (int i) (int s) (int n) = Inr (int (shard_lo (s, n) i), int (shard_hi (s, n) i))"
proof -
  have "int n mod int s = int (n mod s)" "int n div int s = int (n div s)" by (simp_all add: zdiv_int zmod_int)
  then show ?thesis
    using assms by (simp add: get_layer_shard_range_def shard_hi_def shard_lo_def Let_def of_nat_min)
qed

lemma shard_range_int:
  assumes "0 \<le> rank" and "rank < s" and "0 \<le> n"
  shows "get_layer_shard_range rank s n = Inr (int (shard_lo (nat s, nat n) (nat rank)), int (shard_hi (nat s, nat n) (nat rank)))"
  using shard_range_nat [of "nat rank" "nat s" "nat n"] assms by simp

lemma search_owner_prefix:
  "j \<le> s \<Longrightarrow> k < s \<Longrightarrow> j \<le> k \<Longrightarrow> shard_lo (s, n) k \<le> i \<Longrightarrow> i < shard_hi (s, n) k \<Longrightarrow>
     search_owner (map int [j..<s]) (int i) (int s) (int n) = Inr (int k)"
proof (induction "s - j" arbitrary: j)
  case (Suc x)
  have upt: "map int [j..<s] = int j # map int [Suc j..<s]" using Suc.hyps(2) by (simp add: upt_conv_Cons)
  show ?case
  proof (cases "j = k")
    case True
    then show ?thesis using Suc.prems unfolding upt by (simp add: shard_range_nat)
  next
    case False
    have "search_owner (map int [Suc j..<s]) (int i) (int s) (int n) = Inr (int k)"
      using Suc.hyps(2) Suc.prems False by (intro Suc.hyps(1)) auto
    moreover have "shard_hi (s, n) j \<le> shard_lo (s, n) k"
      using shards.part_before [of "(s, n)" j k] Suc.prems False by simp
    ultimately show ?thesis using Suc.prems by (simp add: upt shard_range_nat)
  qed
qed simp

lemma owner_nat:
  assumes "k < s" and "shard_lo (s, n) k \<le> i" and "i < shard_hi (s, n) k"
  shows "get_layer_owner (int i) (int s) (int n) = Inr (int k)"
proof -
  have "i < n" using shards.hi_total [of "(s, n)" k] assms by simp
  then show ?thesis
    using search_owner_prefix [of 0 s k n i] assms by (simp add: get_layer_owner_def py_range_def)
qed

lemma owner_obtain:
  assumes "0 < s" and "0 \<le> i" and "i < n"
  obtains k where "k < nat s" "get_layer_owner i s n = Inr (int k)"
    "\<And>q. q < nat s \<Longrightarrow> shard_lo (nat s, nat n) q \<le> nat i \<and> nat i < shard_hi (nat s, nat n) q \<longleftrightarrow> q = k"
proof -
  have "\<exists>!k. k < fst (nat s, nat n) \<and> shard_lo (nat s, nat n) k \<le> nat i \<and> nat i < shard_hi (nat s, nat n) k"
    using assms by (intro shards.unique_part) auto
  then obtain k where k: "k < nat s" "shard_lo (nat s, nat n) k \<le> nat i" "nat i < shard_hi (nat s, nat n) k"
    and uniq: "\<And>q. q < nat s \<Longrightarrow> shard_lo (nat s, nat n) q \<le> nat i \<Longrightarrow> nat i < shard_hi (nat s, nat n) q \<Longrightarrow> q = k"
    unfolding fst_conv Ex1_def by blast
  have own: "get_layer_owner i s n = Inr (int k)" using owner_nat [OF k] assms by simp
  have "shard_lo (nat s, nat n) q \<le> nat i \<and> nat i < shard_hi (nat s, nat n) q \<longleftrightarrow> q = k" if "q < nat s" for q
    using uniq [OF that] k by blast
  then show thesis by (rule that [OF k(1) own])
qed

definition state_ok :: "layer_split_state \<Rightarrow> bool" where
  "state_ok st \<longleftrightarrow> 0 \<le> shard_rank st \<and> shard_rank st < shard_size st \<and> 0 \<le> total_layers st"

lemma is_owned_iff:
  assumes "state_ok st" and "covers st i"
  shows "is_owned st i = Inr (owner_of st i = Inr (shard_rank st))"
proof -
  let ?c = "(nat (shard_size st), nat (total_layers st))" and ?l = "local_index st i" and ?r = "nat (shard_rank st)"
  have st: "0 < shard_size st" "0 \<le> ?l" "?l < total_layers st" "?r < nat (shard_size st)"
    using assms by (auto simp: state_ok_def covers_def)
  obtain k where k: "get_layer_owner ?l (shard_size st) (total_layers st) = Inr (int k)"
      "\<And>q. q < nat (shard_size st) \<Longrightarrow> shard_lo ?c q \<le> nat ?l \<and> nat ?l < shard_hi ?c q \<longleftrightarrow> q = k"
    using owner_obtain [OF st(1-3)] by metis
  have "is_owned st i = Inr (shard_lo ?c ?r \<le> nat ?l \<and> nat ?l < shard_hi ?c ?r)"
    using assms st by (auto simp: is_owned_def shard_range_int state_ok_def le_nat_iff nat_less_iff)
  moreover have "owner_of st i = Inr (shard_rank st) \<longleftrightarrow> ?r = k"
    using assms k(1) by (auto simp: owner_of_def state_ok_def)
  ultimately show ?thesis using k(2) [OF st(4)] by simp
qed

section \<open>Packed slots\<close>

lemma list_index_some: "x \<in> set xs \<Longrightarrow> \<exists>k. list_index x xs = Some k \<and> k < length xs \<and> xs ! k = x"
  by (induction xs) auto

lemma index_or_mem:
  "x \<in> set xs \<Longrightarrow> \<exists>k. (\<forall>e. index_or e x xs = Inr (int k)) \<and> k < length xs \<and> xs ! k = x"
  using list_index_some [of x xs] by (auto simp: index_or_def)

lemma max_owned_loop_ok:
  "(\<And>r. r \<in> set ranks \<Longrightarrow> 0 \<le> r \<and> r < s) \<Longrightarrow> 0 \<le> n \<Longrightarrow>
    \<exists>m. max_owned_loop ranks layers n s best = Inr m \<and> best \<le> m
      \<and> (\<forall>r \<in> set ranks. \<forall>a b. get_layer_shard_range r s n = Inr (a, b) \<longrightarrow> owned_count layers a b \<le> m)"
proof (induction ranks arbitrary: best)
  case (Cons r ranks)
  obtain a b where ab: "get_layer_shard_range r s n = Inr (a, b)"
    using Cons.prems shard_range_int [of r s n] by auto
  let ?best = "if best < owned_count layers a b then owned_count layers a b else best"
  obtain m where "max_owned_loop ranks layers n s ?best = Inr m" "?best \<le> m"
      "\<forall>r \<in> set ranks. \<forall>a b. get_layer_shard_range r s n = Inr (a, b) \<longrightarrow> owned_count layers a b \<le> m"
    using Cons.IH [of ?best] Cons.prems by auto
  then show ?case using ab by (auto split: if_splits)
qed simp

lemma owned_count_nonneg [simp]: "0 \<le> owned_count layers a b"
  by (simp add: owned_count_def)

lemma owned_count_cong: "set xs = set ys \<Longrightarrow> owned_count xs a b = owned_count ys a b"
proof -
  assume "set xs = set ys"
  then have "mset (remdups xs) = mset (remdups ys)" by (simp add: set_eq_iff_mset_remdups_eq)
  then have "mset (filter P (remdups xs)) = mset (filter P (remdups ys))" for P by (simp add: mset_filter)
  then show ?thesis unfolding owned_count_def by (metis size_mset)
qed

lemma max_owned_cong: "set xs = set ys \<Longrightarrow> max_owned_count_for_layers xs n s = max_owned_count_for_layers ys n s"
proof -
  assume eq: "set xs = set ys"
  have "max_owned_loop ranks xs n s best = max_owned_loop ranks ys n s best" for ranks best
    by (induction ranks arbitrary: best) (simp_all add: owned_count_cong [OF eq] cong: if_cong)
  moreover have "length (remdups xs) = length (remdups ys)" using eq by (simp add: length_remdups_card_conv)
  moreover have "xs = [] \<longleftrightarrow> ys = []" using eq by auto
  ultimately show ?thesis by (simp add: max_owned_count_for_layers_def)
qed

definition slots_split :: "layer_split_state \<Rightarrow> int list \<Rightarrow> bool" where
  "slots_split st family \<longleftrightarrow> backbone_of (total_layers st) family \<noteq> [] \<and> 1 < shard_size st"

text \<open>The layout of a rank: owned layers below the scratch slot, replicated layers above it.\<close>

definition slot_layout :: "layer_split_state \<Rightarrow> int list \<Rightarrow> int \<Rightarrow> int list \<Rightarrow> bool" where
  "slot_layout st family scratch mine \<longleftrightarrow>
     0 \<le> scratch
     \<and> phys_slots_for_layer_family family (total_layers st) (shard_size st)
         = Inr (scratch + 1 + int (length (filter (\<lambda>i. total_layers st \<le> i) family)))
     \<and> (\<forall>i \<in> set family. total_layers st \<le> i \<longrightarrow>
          (\<exists>k. local_packed_slot_for_family_layer st i family = Inr (scratch + 1 + int k)
             \<and> k < length (filter (\<lambda>i. total_layers st \<le> i) family)
             \<and> sort (remdups (filter (\<lambda>i. total_layers st \<le> i) family)) ! k = i))
     \<and> (\<forall>i \<in> set family. covers st i \<and> is_owned st i = Inr False \<longrightarrow>
          local_packed_slot_for_family_layer st i family = Inr scratch)
     \<and> (\<forall>i \<in> set family. covers st i \<and> is_owned st i = Inr True \<longrightarrow>
          (\<exists>k. local_packed_slot_for_family_layer st i family = Inr (int k) \<and> int k < scratch \<and> mine ! k = i))"

lemma family_slot_layout:
  assumes st: "state_ok st" "start_layer st = 0" and split: "slots_split st family"
  shows "\<exists>scratch mine. slot_layout st family scratch mine"
proof -
  let ?n = "total_layers st" and ?s = "shard_size st" and ?B = "backbone_of (total_layers st) family"
  let ?E = "filter (\<lambda>i. ?n \<le> i) family"
  have ranks: "0 \<le> r \<and> r < ?s" if "r \<in> set (py_range ?s)" for r using that by (auto simp: py_range_def)
  have ne: "?B \<noteq> []" "sort ?B \<noteq> []" "\<not> ?s \<le> 1" using split by (auto simp: slots_split_def dest: arg_cong [of _ _ set])
  obtain m where m: "max_owned_loop (py_range ?s) ?B ?n ?s 0 = Inr m" "0 \<le> m"
      and le: "\<And>r a b. r \<in> set (py_range ?s) \<Longrightarrow> get_layer_shard_range r ?s ?n = Inr (a, b) \<Longrightarrow> owned_count ?B a b \<le> m"
    using max_owned_loop_ok [of "py_range ?s" ?s ?n ?B 0] ranks st(1) by (auto simp: state_ok_def)
  have mo: "max_owned_count_for_layers ?B ?n ?s = Inr m" "max_owned_count_for_layers (sort ?B) ?n ?s = Inr m"
    using m ne max_owned_cong [of "sort ?B" ?B ?n ?s] by (auto simp: max_owned_count_for_layers_def)
  have inB: "i \<in> set ?B \<longleftrightarrow> i \<in> set family \<and> covers st i" for i
    using st(2) by (auto simp: backbone_of_def covers_def local_index_def)
  have rank: "shard_rank st \<in> set (py_range ?s)"
    using st(1) by (auto simp: py_range_def state_ok_def image_iff intro!: bexI [of _ "nat (shard_rank st)"])
  obtain a b where ab: "get_layer_shard_range (shard_rank st) ?s ?n = Inr (a, b)"
    using st(1) by (auto simp: state_ok_def shard_range_int)
  let ?mine = "filter (\<lambda>i. a \<le> i \<and> i < b) (sort ?B)"
  have "int (length ?mine) = owned_count ?B a b"
  proof -
    have "mset ?mine = mset (filter (\<lambda>i. a \<le> i \<and> i < b) ?B)" by (simp add: mset_filter)
    then have "length ?mine = length (filter (\<lambda>i. a \<le> i \<and> i < b) ?B)" by (metis size_mset)
    moreover have "remdups ?B = ?B" by (simp add: backbone_of_def distinct_remdups_id)
    ultimately show ?thesis unfolding owned_count_def by (simp only:)
  qed
  then have len: "int (length ?mine) \<le> m" using le [OF rank ab] by simp
  note slot = local_packed_slot_for_family_layer_def Let_def
  have phys: "phys_slots_for_layer_family family ?n ?s = Inr (m + 1 + int (length ?E))"
    using ne mo by (simp add: phys_slots_for_layer_family_def Let_def)
  moreover have "\<exists>k. local_packed_slot_for_family_layer st i family = Inr (m + 1 + int k)
        \<and> k < length ?E \<and> sort (remdups ?E) ! k = i" if i: "i \<in> set family" "?n \<le> i" for i
  proof -
    have "i \<in> set (sort (remdups ?E))" using i by simp
    then obtain k where k: "\<forall>e. index_or e i (sort (remdups ?E)) = Inr (int k)" "k < length (sort (remdups ?E))"
        "sort (remdups ?E) ! k = i" using index_or_mem by blast
    moreover have "length (sort (remdups ?E)) \<le> length ?E" by (simp add: length_remdups_leq)
    ultimately have "k < length ?E" by linarith
    with k show ?thesis using ne mo i by (auto simp: slot)
  qed
  moreover have "local_packed_slot_for_family_layer st i family = Inr m"
    if i: "i \<in> set family" "covers st i" "is_owned st i = Inr False" for i
  proof -
    have "i < ?n" "i \<in> set ?B" using i st(2) inB by (auto simp: covers_def local_index_def)
    then show ?thesis using ne mo i by (simp add: slot)
  qed
  moreover have "\<exists>k. local_packed_slot_for_family_layer st i family = Inr (int k) \<and> int k < m \<and> ?mine ! k = i"
    if i: "i \<in> set family" "covers st i" "is_owned st i = Inr True" for i
  proof -
    have iB: "i < ?n" "i \<in> set ?B" using i st(2) inB by (auto simp: covers_def local_index_def)
    moreover have "a \<le> i \<and> i < b" using i ab st(2) by (auto simp: is_owned_def local_index_def)
    ultimately have "i \<in> set ?mine" by simp
    then obtain k where "\<forall>e. index_or e i ?mine = Inr (int k)" "k < length ?mine" "?mine ! k = i"
      using index_or_mem by blast
    then show ?thesis using ne mo i iB ab len by (auto simp: slot)
  qed
  ultimately have "slot_layout st family m ?mine"
    unfolding slot_layout_def using m(2) by blast
  then show ?thesis by blast
qed

text \<open>Two different layers of a family, on every combination of owned, foreign and replicated.\<close>

lemma family_slot_facts:
  assumes st: "state_ok st" "start_layer st = 0" and split: "slots_split st family"
    and i: "i \<in> set family" "0 \<le> i" and j: "j \<in> set family" "0 \<le> j" "i \<noteq> j"
  shows "\<exists>p a b. phys_slots_for_layer_family family (total_layers st) (shard_size st) = Inr p
    \<and> local_packed_slot_for_family_layer st i family = Inr a \<and> 0 \<le> a \<and> a < p
    \<and> local_packed_slot_for_family_layer st j family = Inr b
    \<and> (is_owned st i = Inr True \<longrightarrow> a \<noteq> b)
    \<and> (is_owned st i = Inr False \<and> is_owned st j = Inr False \<longrightarrow> a = b)"
proof -
  let ?n = "total_layers st" and ?E = "filter (\<lambda>i. total_layers st \<le> i) family"
  obtain m mine where layout: "slot_layout st family m mine" using family_slot_layout [OF st split] by blast
  then have m: "0 \<le> m" "phys_slots_for_layer_family family ?n (shard_size st) = Inr (m + 1 + int (length ?E))"
    and extra: "\<And>i. i \<in> set family \<Longrightarrow> ?n \<le> i \<Longrightarrow>
       \<exists>k. local_packed_slot_for_family_layer st i family = Inr (m + 1 + int k)
         \<and> k < length ?E \<and> sort (remdups ?E) ! k = i"
    and other: "\<And>i. i \<in> set family \<Longrightarrow> covers st i \<Longrightarrow> is_owned st i = Inr False \<Longrightarrow>
       local_packed_slot_for_family_layer st i family = Inr m"
    and own: "\<And>i. i \<in> set family \<Longrightarrow> covers st i \<Longrightarrow> is_owned st i = Inr True \<Longrightarrow>
       \<exists>k. local_packed_slot_for_family_layer st i family = Inr (int k) \<and> int k < m \<and> mine ! k = i"
    unfolding slot_layout_def by blast+
  have kind: "(?n \<le> x \<and> is_owned st x = Inr True)
      \<or> (covers st x \<and> is_owned st x = Inr True) \<or> (covers st x \<and> is_owned st x = Inr False)" if "0 \<le> x" for x
    using that st is_owned_iff [OF st(1), of x] by (auto simp: covers_def local_index_def is_owned_def)
  let ?slot = "\<lambda>x. local_packed_slot_for_family_layer st x family"
  have place: "\<exists>a. ?slot x = Inr a \<and> 0 \<le> a \<and> a < m + 1 + int (length ?E)
      \<and> (is_owned st x = Inr False \<and> a = m
         \<or> is_owned st x = Inr True \<and> a < m \<and> mine ! nat a = x
         \<or> is_owned st x = Inr True \<and> m < a \<and> sort (remdups ?E) ! nat (a - m - 1) = x)"
    if x: "x \<in> set family" "0 \<le> x" for x
    using kind [OF x(2)]
  proof (elim disjE conjE)
    assume "?n \<le> x" "is_owned st x = Inr True"
    then show ?thesis using extra [OF x(1)] m(1) by auto
  next
    assume "covers st x" "is_owned st x = Inr True"
    then show ?thesis using own [OF x(1)] m(1) by auto
  next
    assume "covers st x" "is_owned st x = Inr False"
    then show ?thesis using other [OF x(1)] m(1) by auto
  qed
  obtain a where a: "?slot i = Inr a" "0 \<le> a" "a < m + 1 + int (length ?E)"
      "is_owned st i = Inr False \<and> a = m \<or> is_owned st i = Inr True \<and> a < m \<and> mine ! nat a = i
         \<or> is_owned st i = Inr True \<and> m < a \<and> sort (remdups ?E) ! nat (a - m - 1) = i" using place [OF i] by blast
  obtain b where b: "?slot j = Inr b"
      "is_owned st j = Inr False \<and> b = m \<or> is_owned st j = Inr True \<and> b < m \<and> mine ! nat b = j
         \<or> is_owned st j = Inr True \<and> m < b \<and> sort (remdups ?E) ! nat (b - m - 1) = j" using place [OF j(1,2)] by blast
  have "is_owned st i = Inr True \<longrightarrow> a \<noteq> b" using a(4) b(2) j(3) by auto
  moreover have "is_owned st i = Inr False \<and> is_owned st j = Inr False \<longrightarrow> a = b" using a(4) b(2) by auto
  ultimately show ?thesis using m(2) a b(1) by blast
qed

text \<open>Without a backbone or without sharding the family keeps its native order.\<close>

lemma native_slots:
  assumes "\<not> slots_split st family" and "i \<in> set family"
  shows "phys_slots_for_layer_family family (total_layers st) (shard_size st) = Inr (int (length family))
    \<and> (\<exists>k. local_packed_slot_for_family_layer st i family = Inr (int k) \<and> k < length family \<and> family ! k = i)"
proof -
  obtain k where "\<forall>e. index_or e i family = Inr (int k)" "k < length family" "family ! k = i"
    using index_or_mem [OF assms(2)] by blast
  moreover have "backbone_of (total_layers st) family = [] \<or> shard_size st \<le> 1"
    using assms(1) by (auto simp: slots_split_def)
  ultimately show ?thesis
    by (auto simp: phys_slots_for_layer_family_def local_packed_slot_for_family_layer_def Let_def)
qed

definition slot_in :: "layer_split_state \<Rightarrow> int list \<Rightarrow> int \<Rightarrow> int \<Rightarrow> bool" where
  "slot_in st family i a \<longleftrightarrow> local_packed_slot_for_family_layer st i family = Inr a
     \<and> 0 \<le> a \<and> (\<exists>p. phys_slots_for_layer_family family (total_layers st) (shard_size st) = Inr p \<and> a < p)"

lemma slot_exists:
  assumes "state_ok st" and "start_layer st = 0" and "i \<in> set family" and "0 \<le> i"
  shows "\<exists>a. slot_in st family i a"
proof (cases "slots_split st family")
  case False
  then show ?thesis using native_slots [OF False assms(3)] by (auto simp: slot_in_def)
next
  case True
  obtain m mine where layout: "slot_layout st family m mine" using family_slot_layout [OF assms(1,2) True] by blast
  have "is_owned st i = Inr True \<or> is_owned st i = Inr False"
    using is_owned_iff [OF assms(1), of i] by (auto simp: is_owned_def)
  moreover have "covers st i \<or> total_layers st \<le> i" using assms(2,4) by (auto simp: covers_def local_index_def)
  ultimately show ?thesis using layout assms(3) unfolding slot_layout_def slot_in_def by fastforce
qed

lemma owned_slot_apart:
  assumes "state_ok st" and "start_layer st = 0" and "i \<in> set family" and "0 \<le> i" and "j \<in> set family" and "0 \<le> j"
    and "i \<noteq> j" and "is_owned st i = Inr True" and "slot_in st family i a" and "slot_in st family j b"
  shows "a \<noteq> b"
proof (cases "slots_split st family")
  case False
  then show ?thesis using native_slots [OF False assms(3)] native_slots [OF False assms(5)] assms(7,9,10)
    by (auto simp: slot_in_def)
next
  case True
  then show ?thesis using family_slot_facts [OF assms(1,2) True assms(3-7)] assms(8-10) by (auto simp: slot_in_def)
qed

section \<open>Properties\<close>

definition rank_state :: "int \<Rightarrow> int \<Rightarrow> int \<Rightarrow> layer_split_state" where
  "rank_state r s n = \<lparr>shard_rank = r, shard_size = s, total_layers = n, start_layer = 0\<rparr>"

text \<open>
  C17.  Every backbone layer has exactly one owner: the search for the owner succeeds, all ranks
  compute the same owner, and a rank considers the layer owned exactly when it is that owner.
\<close>

theorem layer_owner_unique:
  assumes "0 < s" and "0 \<le> i" and "i < n"
  shows "\<exists>k. 0 \<le> k \<and> k < s \<and> get_layer_owner i s n = Inr k
    \<and> (\<forall>r. 0 \<le> r \<and> r < s \<longrightarrow> owner_of (rank_state r s n) i = Inr k \<and> is_owned (rank_state r s n) i = Inr (r = k))"
proof -
  obtain k where k: "k < nat s" "get_layer_owner i s n = Inr (int k)" using owner_obtain [OF assms] by metis
  have "owner_of (rank_state r s n) i = Inr (int k) \<and> is_owned (rank_state r s n) i = Inr (r = int k)"
    if r: "0 \<le> r \<and> r < s" for r
  proof -
    have st: "state_ok (rank_state r s n)" "covers (rank_state r s n) i"
      using r assms by (auto simp: state_ok_def rank_state_def covers_def local_index_def)
    have own: "owner_of (rank_state r s n) i = Inr (int k)"
      using st(2) k(2) by (simp add: owner_of_def) (simp add: rank_state_def local_index_def)
    then show ?thesis using is_owned_iff [OF st] by (auto simp: rank_state_def)
  qed
  then show ?thesis using k by (intro exI [of _ "int k"]) auto
qed

theorem layer_owner_unique_witness:
  "\<exists>k. get_layer_owner 4 3 7 = Inr k \<and> is_owned (rank_state 1 3 7) 4 = Inr (1 = k) \<and> k = 1"
proof -
  have "get_layer_owner 4 3 7 = Inr 1" by code_simp
  with layer_owner_unique [of 3 4 7] show ?thesis by auto
qed

text \<open>
  The split is even and complete: ranks own floor or ceiling of the average many layers, all
  together every layer, and the owned layers plus one scratch slot fit the effective number of
  layers that the memory planner budgets.
\<close>

theorem shard_sizes_balanced:
  assumes "1 < s" and "0 \<le> n"
  shows "(\<forall>r. 0 \<le> r \<and> r < s \<longrightarrow> (\<exists>a b. get_layer_shard_range r s n = Inr (a, b)
      \<and> n div s \<le> b - a \<and> b - a \<le> (n + s - 1) div s \<and> b - a + 1 \<le> effective_num_layers n s))
    \<and> (\<Sum>r<nat s. (case get_layer_shard_range (int r) s n of Inr (a, b) \<Rightarrow> b - a | Inl _ \<Rightarrow> 0)) = n"
proof (intro conjI allI impI)
  fix r
  assume r: "0 \<le> r \<and> r < s"
  let ?a = "r * (n div s) + min r (n mod s)"
  let ?b = "?a + n div s + (if r < n mod s then 1 else 0)"
  have range: "get_layer_shard_range r s n = Inr (?a, ?b)"
    using r assms by (simp add: get_layer_shard_range_def Let_def)
  have m: "0 \<le> n mod s" "n mod s < s" "n = s * (n div s) + n mod s" using assms by auto
  have "(n + s - 1) div s = n div s + (n mod s + (s - 1)) div s"
  proof -
    have "n + s - 1 = (n mod s + (s - 1)) + s * (n div s)" using m(3) by linarith
    then show ?thesis using assms(1) by (simp only: div_mult_self2)
  qed
  moreover have "1 \<le> (n mod s + (s - 1)) div s" if "0 < n mod s"
  proof -
    have "s div s \<le> (n mod s + (s - 1)) div s" using that assms(1) by (intro zdiv_mono1) auto
    then show ?thesis using assms(1) by simp
  qed
  moreover have "0 \<le> (n mod s + (s - 1)) div s" using m assms by (simp add: pos_imp_zdiv_nonneg_iff)
  ultimately have "?b - ?a \<le> (n + s - 1) div s" using r by auto
  then show "\<exists>a b. get_layer_shard_range r s n = Inr (a, b)
      \<and> n div s \<le> b - a \<and> b - a \<le> (n + s - 1) div s \<and> b - a + 1 \<le> effective_num_layers n s"
    using range assms by (intro exI [of _ ?a] exI [of _ ?b]) (auto simp: effective_num_layers_def)
next
  let ?c = "(nat s, nat n)"
  have "(case get_layer_shard_range (int r) s n of Inr (a, b) \<Rightarrow> b - a | Inl _ \<Rightarrow> 0)
      = int (shard_hi ?c r - shard_lo ?c r)" if "r < nat s" for r
    using that assms shard_range_int [of "int r" s n] by (simp add: of_nat_diff shard_hi_def)
  then have "(\<Sum>r<nat s. (case get_layer_shard_range (int r) s n of Inr (a, b) \<Rightarrow> b - a | Inl _ \<Rightarrow> 0))
      = (\<Sum>r<nat s. int (shard_hi ?c r - shard_lo ?c r))" by simp
  also have "\<dots> = int (\<Sum>r<fst ?c. shard_hi ?c r - shard_lo ?c r)" by simp
  also have "\<dots> = n" using shards.sizes_sum [of ?c] assms by simp
  finally show "(\<Sum>r<nat s. (case get_layer_shard_range (int r) s n of Inr (a, b) \<Rightarrow> b - a | Inl _ \<Rightarrow> 0)) = n" .
qed

theorem shard_sizes_balanced_witness:
  "\<exists>a b. get_layer_shard_range 2 3 7 = Inr (a, b) \<and> b - a + 1 \<le> effective_num_layers 7 3"
  using shard_sizes_balanced [of 3 7] by (auto dest: spec [of _ 2])

text \<open>
  The packed slots of a page-size family on a rank: every layer of the family gets a slot
  below the planned number, layers the rank owns or that are replicated never share a slot with
  any other layer, and every layer owned elsewhere gets the one scratch slot.
\<close>

theorem family_slots_separate:
  assumes st: "state_ok st" "start_layer st = 0" and split: "slots_split st family"
    and i: "i \<in> set family" "0 \<le> i" and j: "j \<in> set family" "0 \<le> j" "i \<noteq> j"
  shows "\<exists>p a b. phys_slots_for_layer_family family (total_layers st) (shard_size st) = Inr p
    \<and> local_packed_slot_for_family_layer st i family = Inr a \<and> 0 \<le> a \<and> a < p
    \<and> local_packed_slot_for_family_layer st j family = Inr b
    \<and> (is_owned st i = Inr True \<longrightarrow> a \<noteq> b)
    \<and> (is_owned st i = Inr False \<and> is_owned st j = Inr False \<longrightarrow> a = b)"
  using family_slot_facts [OF assms] .

theorem family_slots_separate_witness:
  "\<exists>p a b. phys_slots_for_layer_family [0, 1, 2, 3, 4] 4 2 = Inr p
    \<and> local_packed_slot_for_family_layer (rank_state 1 2 4) 2 [0, 1, 2, 3, 4] = Inr a
    \<and> local_packed_slot_for_family_layer (rank_state 1 2 4) 0 [0, 1, 2, 3, 4] = Inr b \<and> a \<noteq> b \<and> a < p"
proof -
  have "slots_split (rank_state 1 2 4) [0, 1, 2, 3, 4]" by code_simp
  moreover have "is_owned (rank_state 1 2 4) 2 = Inr True" by code_simp
  moreover have "state_ok (rank_state 1 2 4)" "start_layer (rank_state 1 2 4) = 0"
    "total_layers (rank_state 1 2 4) = 4" "shard_size (rank_state 1 2 4) = 2"
    by (simp_all add: state_ok_def rank_state_def)
  ultimately show ?thesis
    using family_slots_separate [of "rank_state 1 2 4" "[0, 1, 2, 3, 4]" 2 0] by auto
qed

text \<open>
  Validation is exact about the ranks: a configuration that asks for the feature and passes
  has more than one context-parallel rank, one pipeline stage, is a prefill producer of a
  supported model, and when the layer count is known every rank owns at least one layer.
\<close>

theorem validated_config_ranks_own:
  assumes "validate_dsa_cache_layer_split env c = Inr ()" and "is_dsa_cache_layer_split_requested (Some c)"
  shows "\<exists>par. vc_parallel_config c = Some par \<and> 1 < int_or_one (pc_pcp_size par) \<and> int_or_one (pc_pp_size par) \<le> 1
    \<and> vc_kv_role c = Some ''kv_producer'' \<and> is_hcu_dsa_mla_model env (vc_model_config c)
    \<and> (\<forall>n r. total_layers_from_config c = Some n \<and> 0 \<le> r \<and> r < int_or_one (pc_pcp_size par) \<longrightarrow>
        (\<exists>a b. get_layer_shard_range r (int_or_one (pc_pcp_size par)) n = Inr (a, b) \<and> a < b))"
proof -
  obtain par where par: "vc_parallel_config c = Some par" "1 < int_or_one (pc_pcp_size par)"
      "int_or_one (pc_pp_size par) \<le> 1" "vc_kv_role c = Some ''kv_producer''"
      "is_hcu_dsa_mla_model env (vc_model_config c)"
    and n: "\<And>n. total_layers_from_config c = Some n \<Longrightarrow> int_or_one (pc_pcp_size par) \<le> n"
    using assms unfolding validate_dsa_cache_layer_split_def
    by (auto simp: require_pd_prefill_worker_def Let_def split: option.splits if_splits)
  let ?s = "int_or_one (pc_pcp_size par)"
  have "\<exists>a b. get_layer_shard_range r ?s n = Inr (a, b) \<and> a < b"
    if "total_layers_from_config c = Some n \<and> 0 \<le> r \<and> r < ?s" for n r
  proof -
    have "1 \<le> n div ?s" using n [of n] that par(2) by (simp add: pos_imp_zdiv_pos_iff zle_add1_eq_le int_one_le_iff_zero_less)
    then show ?thesis using that n [of n] par(2) by (simp add: get_layer_shard_range_def Let_def)
  qed
  then show ?thesis using par by blast
qed

definition demo_vllm_config :: vllm_config where
  "demo_vllm_config = \<lparr>vc_layer_split_flag = Inr True,
     vc_parallel_config = Some \<lparr>pc_pcp_size = Some 2, pc_pp_size = None\<rparr>,
     vc_kv_role = Some ''kv_producer'',
     vc_model_config = Some \<lparr>mc_architectures = Some [''DeepseekV32ForCausalLM''], mc_use_mla = Some True,
       mc_hf_config = Some \<lparr>hf_index_topk = Some 2048, hf_num_hidden_layers = Some 61\<rparr>, mc_hf_text_config = None\<rparr>,
     vc_block_size = Some 64\<rparr>"

theorem validated_config_ranks_own_witness:
  "validate_dsa_cache_layer_split [] demo_vllm_config = Inr ()
    \<and> (\<exists>a b. get_layer_shard_range 1 2 61 = Inr (a, b) \<and> a < b)"
proof -
  have v: "validate_dsa_cache_layer_split [] demo_vllm_config = Inr ()" by code_simp
  have r: "is_dsa_cache_layer_split_requested (Some demo_vllm_config)" by code_simp
  have c: "total_layers_from_config demo_vllm_config = Some 61"
    "vc_parallel_config demo_vllm_config = Some \<lparr>pc_pcp_size = Some 2, pc_pp_size = None\<rparr>" by code_simp+
  from validated_config_ranks_own [OF v r] v c show ?thesis by (auto simp: int_or_one_def)
qed

end
