(* ===== verification/Packed_Correct.thy ===== *)
theory Packed_Correct
  imports Packed_Layout Layer_Split_Correct
begin

text \<open>
  The worker-local remapping gives every owned and every replicated layer bytes of its own in
  the packed block and keeps all of them inside the block pitch.
\<close>

section \<open>Pages and buckets\<close>

definition page_of :: "(string, int) dict \<Rightarrow> kv_tensor list \<Rightarrow> string \<Rightarrow> int option" where
  "page_of ps packed n = (case dict_get ps n of None \<Rightarrow> infer_page_size_from_packed packed n | Some p \<Rightarrow> Some p)"

lemma gcd_loop_gcd: "0 \<le> g \<Longrightarrow> 0 \<le> x \<Longrightarrow> gcd_loop g x = gcd g x"
proof (induction g x rule: gcd_loop.induct)
  case (1 g x)
  show ?case
  proof (cases "x = 0")
    case False
    then have "gcd_loop x (g mod x) = gcd x (g mod x)" using 1 by simp
    then show ?thesis using False gcd_red_int [of g x] by (subst gcd_loop.simps) simp
  qed (use 1 in \<open>simp add: gcd_loop.simps [of g 0]\<close>)
qed

definition bucketing_ok :: "(string \<Rightarrow> int option) \<Rightarrow> bucketing \<Rightarrow> bool" where
  "bucketing_ok page bk \<longleftrightarrow>
     distinct (dict_keys (bk_buckets bk)) \<and> (\<forall>n \<in> set (bk_missing bk). page n = None)
     \<and> (\<forall>p ns. dict_get (bk_buckets bk) p = Some ns \<longrightarrow>
          ns \<noteq> [] \<and> distinct ns \<and> set ns = {n \<in> set (bk_seen bk). page n = Some p})
     \<and> (\<forall>n \<in> set (bk_seen bk). page n = None \<longrightarrow> n \<in> set (bk_missing bk))
     \<and> (\<forall>n \<in> set (bk_seen bk). \<forall>p. page n = Some p \<longrightarrow> dict_get (bk_buckets bk) p \<noteq> None)"

lemma bucket_layer_ok:
  assumes ok: "bucketing_ok (page_of ps packed) bk"
  shows "bucketing_ok (page_of ps packed) (bucket_layer ps packed n bk)
    \<and> set (bk_seen (bucket_layer ps packed n bk)) = insert n (set (bk_seen bk))"
proof (cases "n \<in> set (bk_seen bk)")
  case True
  then show ?thesis using ok by (auto simp: bucket_layer_def)
next
  case new: False
  show ?thesis
  proof (cases "page_of ps packed n")
    case None
    then have eq: "bucket_layer ps packed n bk
        = bk\<lparr>bk_seen := bk_seen bk @ [n], bk_missing := bk_missing bk @ [n]\<rparr>"
      using new by (simp add: bucket_layer_def Let_def page_of_def)
    show ?thesis unfolding eq using ok None by (auto simp: bucketing_ok_def)
  next
    case (Some p)
    let ?ns = "(case dict_get (bk_buckets bk) p of None \<Rightarrow> [] | Some ns \<Rightarrow> ns)"
    have eq: "bucket_layer ps packed n bk
        = bk\<lparr>bk_seen := bk_seen bk @ [n], bk_buckets := dict_set p (?ns @ [n]) (bk_buckets bk)\<rparr>"
      using new Some by (simp add: bucket_layer_def Let_def page_of_def)
    have "distinct ?ns \<and> set ?ns = {m \<in> set (bk_seen bk). page_of ps packed m = Some p}"
      using ok by (cases "dict_get (bk_buckets bk) p") (auto simp: bucketing_ok_def)
    then show ?thesis unfolding eq using ok Some new
      by (auto simp: bucketing_ok_def intro: dict_set_distinct)
  qed
qed

lemma bucket_fold_ok:
  "bucketing_ok (page_of ps packed) bk \<Longrightarrow>
     bucketing_ok (page_of ps packed) (fold (bucket_layer ps packed) names bk)
     \<and> set (bk_seen (fold (bucket_layer ps packed) names bk)) = set names \<union> set (bk_seen bk)"
proof (induction names arbitrary: bk)
  case (Cons n names)
  note step = bucket_layer_ok [OF Cons.prems, of n]
  then show ?case using Cons.IH [of "bucket_layer ps packed n bk"] by auto
qed simp

lemma bucket_layers_ok:
  "bucketing_ok (page_of ps packed) (bucket_layers ps packed)
   \<and> set (bk_seen (bucket_layers ps packed)) = set (concat (map kt_names packed))"
  using bucket_fold_ok [of ps packed "\<lparr>bk_buckets = [], bk_seen = [], bk_missing = []\<rparr>" "concat (map kt_names packed)"]
  by (simp add: bucketing_ok_def bucket_layers_def)

section \<open>Families\<close>

lemma parse_all_nth:
  "parse_all parse ns = Inr is \<Longrightarrow> length is = length ns \<and> (\<forall>k < length ns. parse (ns ! k) = Inr (is ! k))"
proof (induction ns arbitrary: "is")
  case (Cons n ns)
  then obtain i js where "parse n = Inr i" "parse_all parse ns = Inr js" "is = i # js"
    by (auto simp: and_then_Inr_iff)
  then show ?case using Cons.IH [of js] by (auto simp: nth_Cons split: nat.splits)
qed simp

definition family_ok :: "layer_split_state \<Rightarrow> (string \<Rightarrow> int result) \<Rightarrow> (int, string list) dict \<Rightarrow> layer_family \<Rightarrow> bool" where
  "family_ok st parse buckets f \<longleftrightarrow>
     fam_names f = (case dict_get buckets (fam_page f) of None \<Rightarrow> [] | Some ns \<Rightarrow> ns)
     \<and> parse_all parse (fam_names f) = Inr (fam_indices f)
     \<and> phys_slots_for_layer_family (fam_indices f) (total_layers st) (shard_size st) = Inr (fam_slots f)"

lemma build_families_ok:
  "build_families st parse buckets pages = Inr fams \<Longrightarrow>
     map fam_page fams = pages \<and> (\<forall>f \<in> set fams. family_ok st parse buckets f)"
proof (induction pages arbitrary: fams)
  case (Cons p pages)
  let ?ns = "case dict_get buckets p of None \<Rightarrow> [] | Some ns \<Rightarrow> ns"
  obtain ixs n rest where parts: "parse_all parse ?ns = Inr ixs"
      "phys_slots_for_layer_family ixs (total_layers st) (shard_size st) = Inr n"
      "build_families st parse buckets pages = Inr rest"
      "fams = \<lparr>fam_page = p, fam_names = ?ns, fam_indices = ixs, fam_slots = n\<rparr> # rest"
    using Cons.prems by (auto simp: Let_def and_then_Inr_iff)
  then show ?case using Cons.IH [OF parts(3)] by (auto simp: family_ok_def)
qed simp

section \<open>Places\<close>

lemma place_layers_get:
  "place_layers st f base nis places = Inr P \<Longrightarrow> distinct (map fst nis) \<Longrightarrow>
     (\<forall>n. n \<notin> fst ` set nis \<longrightarrow> dict_get P n = dict_get places n)
     \<and> (\<forall>(n, i) \<in> set nis. \<exists>a. local_packed_slot_for_family_layer st i (fam_indices f) = Inr a
          \<and> 0 \<le> a \<and> a < fam_slots f \<and> dict_get P n = Some (base + a * fam_page f, fam_page f))"
proof (induction nis arbitrary: places)
  case (Cons ni nis)
  obtain n i where ni: "ni = (n, i)" by (cases ni)
  obtain a where a: "local_packed_slot_for_family_layer st i (fam_indices f) = Inr a" "0 \<le> a" "a < fam_slots f"
      and rest: "place_layers st f base nis (dict_set n (base + a * fam_page f, fam_page f) places) = Inr P"
    using Cons.prems(1) by (auto simp: ni and_then_Inr_iff split: if_splits)
  have n: "n \<notin> fst ` set nis" "distinct (map fst nis)" using Cons.prems(2) by (auto simp: ni)
  from Cons.IH [OF rest n(2)] n(1) a show ?case by (auto simp: ni)
qed simp

lemma place_layers_total:
  "(\<And>n i. (n, i) \<in> set nis \<Longrightarrow> \<exists>a. local_packed_slot_for_family_layer st i (fam_indices f) = Inr a \<and> 0 \<le> a \<and> a < fam_slots f)
     \<Longrightarrow> \<exists>P. place_layers st f base nis places = Inr P"
proof (induction nis arbitrary: places)
  case (Cons ni nis)
  obtain n i where ni: "ni = (n, i)" by (cases ni)
  obtain a where a: "local_packed_slot_for_family_layer st i (fam_indices f) = Inr a" "0 \<le> a" "a < fam_slots f"
    using Cons.prems [of n i] by (auto simp: ni)
  have "\<exists>P. place_layers st f base nis (dict_set n (base + a * fam_page f, fam_page f) places) = Inr P"
    using Cons.prems by (intro Cons.IH) auto
  then show ?case using a by (simp add: ni)
qed simp

text \<open>The place of the \<open>l\<close>-th layer of the \<open>k\<close>-th family.\<close>

definition placed_at :: "layer_split_state \<Rightarrow> layer_family list \<Rightarrow> int \<Rightarrow> layer_places \<Rightarrow> nat \<Rightarrow> nat \<Rightarrow> bool" where
  "placed_at st fams base P k l \<longleftrightarrow>
     (\<exists>a. local_packed_slot_for_family_layer st (fam_indices (fams ! k) ! l) (fam_indices (fams ! k)) = Inr a
        \<and> 0 \<le> a \<and> a < fam_slots (fams ! k)
        \<and> dict_get P (fam_names (fams ! k) ! l)
            = Some (base + family_bytes (take k fams) + a * fam_page (fams ! k), fam_page (fams ! k)))"

definition families_apart :: "layer_family list \<Rightarrow> bool" where
  "families_apart fams \<longleftrightarrow> (\<forall>f \<in> set fams. distinct (fam_names f) \<and> length (fam_indices f) = length (fam_names f))
     \<and> (\<forall>k l. k < length fams \<and> l < length fams \<and> k \<noteq> l \<longrightarrow> set (fam_names (fams ! k)) \<inter> set (fam_names (fams ! l)) = {})"

lemma families_apart_Cons:
  assumes "families_apart (f # fs)"
  shows "families_apart fs" and "distinct (fam_names f)" and "length (fam_indices f) = length (fam_names f)"
    and "k < length fs \<Longrightarrow> set (fam_names f) \<inter> set (fam_names (fs ! k)) = {}"
proof -
  show "families_apart fs"
    unfolding families_apart_def
  proof (intro conjI ballI allI impI)
    fix k l assume "k < length fs \<and> l < length fs \<and> k \<noteq> l"
    then show "set (fam_names (fs ! k)) \<inter> set (fam_names (fs ! l)) = {}"
      using spec [OF spec [OF conjunct2 [OF assms [unfolded families_apart_def]], of "Suc k"], of "Suc l"] by simp
  qed (use assms in \<open>auto simp: families_apart_def\<close>)
  show "distinct (fam_names f)" "length (fam_indices f) = length (fam_names f)"
    using assms by (auto simp: families_apart_def)
  show "k < length fs \<Longrightarrow> set (fam_names f) \<inter> set (fam_names (fs ! k)) = {}"
    using spec [OF spec [OF conjunct2 [OF assms [unfolded families_apart_def]], of 0], of "Suc k"] by simp
qed

lemma place_families_get:
  "place_families st fams base places = Inr P \<Longrightarrow> families_apart fams \<Longrightarrow>
     (\<forall>n. (\<forall>f \<in> set fams. n \<notin> set (fam_names f)) \<longrightarrow> dict_get P n = dict_get places n)
     \<and> (\<forall>k < length fams. \<forall>l < length (fam_names (fams ! k)). placed_at st fams base P k l)"
proof (induction fams arbitrary: base places)
  case (Cons f fs)
  note apart = families_apart_Cons [OF Cons.prems(2)]
  let ?nis = "zip (fam_names f) (fam_indices f)"
  obtain Q where Q: "place_layers st f base ?nis places = Inr Q"
    and rest: "place_families st fs (base + fam_slots f * fam_page f) Q = Inr P"
    using Cons.prems(1) by (auto simp: and_then_Inr_iff)
  have fst: "map fst ?nis = fam_names f" using apart(3) by simp
  from place_layers_get [OF Q] have
    keep: "\<And>n. n \<notin> set (fam_names f) \<Longrightarrow> dict_get Q n = dict_get places n" and
    here: "\<And>n i. (n, i) \<in> set ?nis \<Longrightarrow> \<exists>a. local_packed_slot_for_family_layer st i (fam_indices f) = Inr a
          \<and> 0 \<le> a \<and> a < fam_slots f \<and> dict_get Q n = Some (base + a * fam_page f, fam_page f)"
    using apart(2,3) fst by (auto simp flip: set_map)
  from Cons.IH [OF rest apart(1)] have
    keep2: "\<And>n. (\<forall>f \<in> set fs. n \<notin> set (fam_names f)) \<Longrightarrow> dict_get P n = dict_get Q n" and
    there: "\<And>k l. k < length fs \<Longrightarrow> l < length (fam_names (fs ! k)) \<Longrightarrow>
      placed_at st fs (base + fam_slots f * fam_page f) P k l" by auto
  have "placed_at st (f # fs) base P k l" if k: "k < Suc (length fs)" "l < length (fam_names ((f # fs) ! k))" for k l
  proof (cases k)
    case 0
    have l: "l < length (fam_names f)" using k 0 by simp
    then have "(fam_names f ! l, fam_indices f ! l) \<in> set ?nis" using apart(3) by (force simp: set_zip)
    moreover have "\<forall>g \<in> set fs. fam_names f ! l \<notin> set (fam_names g)"
      using apart(4) l by (fastforce simp: in_set_conv_nth)
    ultimately show ?thesis using here keep2 by (fastforce simp: placed_at_def 0 family_bytes_def)
  next
    case (Suc k')
    have "placed_at st fs (base + fam_slots f * fam_page f) P k' l" using there k Suc by simp
    then show ?thesis by (simp add: placed_at_def Suc family_bytes_def algebra_simps)
  qed
  then show ?case using keep keep2 by auto
qed simp

lemma place_families_total:
  "(\<And>f n i. f \<in> set fams \<Longrightarrow> (n, i) \<in> set (zip (fam_names f) (fam_indices f)) \<Longrightarrow>
      \<exists>a. local_packed_slot_for_family_layer st i (fam_indices f) = Inr a \<and> 0 \<le> a \<and> a < fam_slots f)
     \<Longrightarrow> \<exists>P. place_families st fams base places = Inr P"
proof (induction fams arbitrary: base places)
  case (Cons f fs)
  obtain Q where "place_layers st f base (zip (fam_names f) (fam_indices f)) places = Inr Q"
    using place_layers_total [of "zip (fam_names f) (fam_indices f)" st f base places] Cons.prems [of f] by auto
  moreover have "\<exists>P. place_families st fs (base + fam_slots f * fam_page f) Q = Inr P"
    using Cons.prems by (intro Cons.IH) auto
  ultimately show ?case by auto
qed simp

section \<open>The whole remapping\<close>

definition packed_tensors :: "kv_cache_config \<Rightarrow> kv_tensor list" where
  "packed_tensors cfg = filter (\<lambda>t. 0 < kt_block_stride t) (kc_tensors cfg)"

definition cfg_page :: "kv_cache_config \<Rightarrow> string \<Rightarrow> int option" where
  "cfg_page cfg = page_of (layer_page_sizes cfg) (packed_tensors cfg)"

definition packed_names :: "kv_cache_config \<Rightarrow> string set" where
  "packed_names cfg = set (concat (map kt_names (packed_tensors cfg)))"

text \<open>
  What the layout relies on: positive page sizes, non-negative layer indices, and at most one
  cache of a given page size per layer.
\<close>

definition layout_named :: "(string \<Rightarrow> int result) \<Rightarrow> kv_cache_config \<Rightarrow> bool" where
  "layout_named parse cfg \<longleftrightarrow>
     (\<forall>n \<in> packed_names cfg. \<forall>p. cfg_page cfg n = Some p \<longrightarrow> 0 < p)
     \<and> (\<forall>n \<in> packed_names cfg. \<forall>i. parse n = Inr i \<longrightarrow> 0 \<le> i)
     \<and> (\<forall>n \<in> packed_names cfg. \<forall>m \<in> packed_names cfg. cfg_page cfg n = cfg_page cfg m \<and> parse n = parse m \<longrightarrow> n = m)"

definition remap_parts ::
    "(string \<Rightarrow> int result) \<Rightarrow> layer_split_state \<Rightarrow> kv_cache_config \<Rightarrow> layer_family list \<Rightarrow> bool" where
  "remap_parts parse st cfg fams \<longleftrightarrow>
     packed_tensors cfg \<noteq> [] \<and> bk_missing (bucket_layers (layer_page_sizes cfg) (packed_tensors cfg)) = []
     \<and> build_families st parse (bk_buckets (bucket_layers (layer_page_sizes cfg) (packed_tensors cfg)))
         (sort (dict_keys (bk_buckets (bucket_layers (layer_page_sizes cfg) (packed_tensors cfg))))) = Inr fams"

lemma remap_done:
  assumes "remap_packed_kv_tensor_offsets parse cls (Some st) cfg = Inr (True, cfg')"
  obtains fams P ts where "remap_parts parse st cfg fams"
    "place_families st fams 0 [] = Inr P"
    "remap_tensors cls (layer_page_sizes cfg) P (align_packed_block_stride (family_bytes fams) (kc_groups cfg)) (kc_tensors cfg) = Inr ts"
    "cfg' = cfg\<lparr>kc_tensors := ts, kc_remap_applied := True\<rparr>"
  using assms unfolding remap_packed_kv_tensor_offsets_def remap_parts_def packed_tensors_def
  by (auto simp: Let_def and_then_Inr_iff split: list.splits if_splits)

definition remap_ok :: "(string \<Rightarrow> int result) \<Rightarrow> layer_split_state \<Rightarrow> kv_cache_config \<Rightarrow> layer_family list \<Rightarrow> bool" where
  "remap_ok parse st cfg fams \<longleftrightarrow>
     state_ok st \<and> start_layer st = 0 \<and> remap_parts parse st cfg fams \<and> layout_named parse cfg"

lemma remap_okD:
  assumes "remap_ok parse st cfg fams"
  shows "state_ok st" "start_layer st = 0" "remap_parts parse st cfg fams" "layout_named parse cfg"
  using assms by (auto simp: remap_ok_def)

lemma families_facts:
  assumes ctx: "remap_ok parse st cfg fams" and k: "k < length fams"
  shows "\<exists>ns. fam_names (fams ! k) = ns \<and> ns \<noteq> [] \<and> distinct ns
    \<and> set ns = {n \<in> packed_names cfg. cfg_page cfg n = Some (fam_page (fams ! k))}
    \<and> family_ok st parse (bk_buckets (bucket_layers (layer_page_sizes cfg) (packed_tensors cfg))) (fams ! k)"
proof -
  let ?bk = "bucket_layers (layer_page_sizes cfg) (packed_tensors cfg)"
  have ok: "bucketing_ok (cfg_page cfg) ?bk" "set (bk_seen ?bk) = packed_names cfg"
    using bucket_layers_ok by (auto simp: cfg_page_def packed_names_def)
  have fams: "map fam_page fams = sort (dict_keys (bk_buckets ?bk))"
      "\<And>f. f \<in> set fams \<Longrightarrow> family_ok st parse (bk_buckets ?bk) f"
    using remap_okD(3) [OF ctx] build_families_ok unfolding remap_parts_def by blast+
  have "fam_page (fams ! k) \<in> set (map fam_page fams)" using k by simp
  then have "fam_page (fams ! k) \<in> set (dict_keys (bk_buckets ?bk))" unfolding fams(1) by simp
  then obtain ns where "dict_get (bk_buckets ?bk) (fam_page (fams ! k)) = Some ns"
    using dict_get_None_iff by (metis not_None_eq)
  then show ?thesis using ok fams(2) [of "fams ! k"] k by (auto simp: bucketing_ok_def family_ok_def)
qed

lemma families_distinct_pages:
  assumes ctx: "remap_ok parse st cfg fams"
  shows "k < length fams \<Longrightarrow> l < length fams \<Longrightarrow> k \<noteq> l \<Longrightarrow> fam_page (fams ! k) \<noteq> fam_page (fams ! l)"
proof -
  let ?bk = "bucket_layers (layer_page_sizes cfg) (packed_tensors cfg)"
  have "map fam_page fams = sort (dict_keys (bk_buckets ?bk))" using remap_okD(3) [OF ctx] build_families_ok unfolding remap_parts_def by blast
  moreover have "distinct (dict_keys (bk_buckets ?bk))" using bucket_layers_ok by (auto simp: bucketing_ok_def)
  ultimately have "distinct (map fam_page fams)" by simp
  then show "k < length fams \<Longrightarrow> l < length fams \<Longrightarrow> k \<noteq> l \<Longrightarrow> fam_page (fams ! k) \<noteq> fam_page (fams ! l)"
    by (metis length_map nth_eq_iff_index_eq nth_map)
qed

lemma families_are_apart:
  assumes ctx: "remap_ok parse st cfg fams"
  shows "families_apart fams"
  unfolding families_apart_def
proof (intro conjI ballI allI impI)
  fix f assume "f \<in> set fams"
  then obtain k where k: "k < length fams" "f = fams ! k" by (auto simp: in_set_conv_nth)
  then show "distinct (fam_names f)" using families_facts [OF ctx] by auto
  show "length (fam_indices f) = length (fam_names f)" using families_facts [OF ctx k(1)] k(2) parse_all_nth by (auto simp: family_ok_def)
next
  fix k l assume "k < length fams \<and> l < length fams \<and> k \<noteq> l"
  then show "set (fam_names (fams ! k)) \<inter> set (fam_names (fams ! l)) = {}"
    using families_facts [OF ctx, of k] families_facts [OF ctx, of l] families_distinct_pages [OF ctx, of k l] by auto
qed

lemma name_in_family:
  assumes ctx: "remap_ok parse st cfg fams" and n: "n \<in> packed_names cfg"
  obtains k l where "k < length fams" "l < length (fam_names (fams ! k))" "n = fam_names (fams ! k) ! l"
    "cfg_page cfg n = Some (fam_page (fams ! k))" "parse n = Inr (fam_indices (fams ! k) ! l)"
proof -
  let ?bk = "bucket_layers (layer_page_sizes cfg) (packed_tensors cfg)"
  have ok: "bucketing_ok (cfg_page cfg) ?bk" "set (bk_seen ?bk) = packed_names cfg"
    using bucket_layers_ok by (auto simp: cfg_page_def packed_names_def)
  have "cfg_page cfg n \<noteq> None" using ok n remap_okD(3) [OF ctx] by (auto simp: bucketing_ok_def remap_parts_def)
  then obtain p where p: "cfg_page cfg n = Some p" by auto
  have "p \<in> set (dict_keys (bk_buckets ?bk))"
    using ok n p unfolding bucketing_ok_def dict_get_None_iff by blast
  moreover have "map fam_page fams = sort (dict_keys (bk_buckets ?bk))" using remap_okD(3) [OF ctx] build_families_ok unfolding remap_parts_def by blast
  ultimately have "p \<in> set (map fam_page fams)" by simp
  then obtain k where k: "k < length fams" "p = fam_page (fams ! k)" by (auto simp: in_set_conv_nth)
  then have "n \<in> set (fam_names (fams ! k))" using families_facts [OF ctx k(1)] n p by auto
  then obtain l where l: "l < length (fam_names (fams ! k))" "n = fam_names (fams ! k) ! l" by (auto simp: in_set_conv_nth)
  then have "parse n = Inr (fam_indices (fams ! k) ! l)"
    using families_facts [OF ctx k(1)] parse_all_nth by (auto simp: family_ok_def)
  with k l p that show thesis by blast
qed

lemma family_indices_facts:
  assumes ctx: "remap_ok parse st cfg fams" and "k < length fams" and "l < length (fam_names (fams ! k))"
  shows "0 \<le> fam_indices (fams ! k) ! l" and "fam_indices (fams ! k) ! l \<in> set (fam_indices (fams ! k))"
    and "0 < fam_page (fams ! k)"
proof -
  have len: "length (fam_indices (fams ! k)) = length (fam_names (fams ! k))"
    using families_are_apart [OF ctx] assms(2) by (auto simp: families_apart_def)
  then show "fam_indices (fams ! k) ! l \<in> set (fam_indices (fams ! k))" using assms by simp
  have n: "fam_names (fams ! k) ! l \<in> packed_names cfg" "cfg_page cfg (fam_names (fams ! k) ! l) = Some (fam_page (fams ! k))"
    using families_facts [OF ctx assms(2)] assms(3) nth_mem by blast+
  moreover have "parse (fam_names (fams ! k) ! l) = Inr (fam_indices (fams ! k) ! l)"
    using families_facts [OF ctx assms(2)] assms parse_all_nth by (auto simp: family_ok_def)
  ultimately show "0 \<le> fam_indices (fams ! k) ! l" "0 < fam_page (fams ! k)"
    using remap_okD(4) [OF ctx] by (auto simp: layout_named_def)
qed

lemma family_slot_in:
  assumes ctx: "remap_ok parse st cfg fams" and "k < length fams" and "l < length (fam_names (fams ! k))"
  shows "\<exists>a. slot_in st (fam_indices (fams ! k)) (fam_indices (fams ! k) ! l) a \<and> a < fam_slots (fams ! k)"
proof -
  obtain a where "slot_in st (fam_indices (fams ! k)) (fam_indices (fams ! k) ! l) a"
    using slot_exists [OF remap_okD(1,2) [OF ctx] family_indices_facts(2,1) [OF assms]] by blast
  then show ?thesis using families_facts [OF ctx assms(2)] by (auto simp: slot_in_def family_ok_def)
qed

lemma family_bytes_mono:
  assumes ctx: "remap_ok parse st cfg fams" and "k < l" and "l \<le> length fams"
  shows "family_bytes (take k fams) + fam_page (fams ! k) * fam_slots (fams ! k) \<le> family_bytes (take l fams)"
proof -
  have nonneg: "0 \<le> fam_page f * fam_slots f" if mem: "f \<in> set fams" for f
  proof -
    obtain i where i: "i < length fams" "f = fams ! i" using mem by (auto simp: in_set_conv_nth)
    then have "0 < length (fam_names f)" using families_facts [OF ctx] by auto
    then show ?thesis using family_slot_in [OF ctx, of i 0] family_indices_facts(3) [OF ctx, of i 0] i by (auto simp: slot_in_def)
  qed
  have "take l fams = take k fams @ fams ! k # take (l - Suc k) (drop (Suc k) fams)"
  proof -
    have "l = k + Suc (l - Suc k)" using assms(2) by simp
    then have "take l fams = take k fams @ take (Suc (l - Suc k)) (drop k fams)" by (metis take_add)
    then show ?thesis using assms(2,3) by (simp add: Cons_nth_drop_Suc [symmetric])
  qed
  moreover have "0 \<le> family_bytes (take (l - Suc k) (drop (Suc k) fams))"
    unfolding family_bytes_def using nonneg by (intro sum_list_nonneg) (auto dest!: in_set_takeD in_set_dropD)
  ultimately show ?thesis by (simp add: family_bytes_def)
qed

lemma make_packed_fields:
  "make_packed_kv_tensor cls sz names page offset stride backing = Inr t \<Longrightarrow>
     names \<noteq> [] \<and> kt_names t = names \<and> kt_offset t = offset \<and> kt_block_stride t = stride \<and> kt_size t = sz
     \<and> kt_backing t = backing"
  by (auto simp: make_packed_kv_tensor_def Let_def set_packed_backing_id_def split: if_splits option.splits)

lemma remap_tensors_mem:
  "remap_tensors cls ps places stride ts = Inr us \<Longrightarrow> u \<in> set us \<Longrightarrow>
     \<exists>t \<in> set ts. remap_tensor cls ps places stride t = Inr u"
proof (induction ts arbitrary: us)
  case (Cons t ts)
  then obtain v vs where "remap_tensor cls ps places stride t = Inr v" "remap_tensors cls ps places stride ts = Inr vs" "us = v # vs"
    by (auto simp: and_then_Inr_iff)
  then show ?case using Cons by auto
qed simp

lemma align_ge:
  assumes "0 \<le> payload"
  shows "payload \<le> align_packed_block_stride payload groups"
proof -
  define al where "al = fold spec_align (concat (map group_specs groups)) (1::int)"
  have "payload \<le> (payload + al - 1) div al * al" if "1 < al"
  proof -
    have "(payload + al - 1) div al * al = payload + al - 1 - (payload + al - 1) mod al"
      by (simp add: minus_mod_eq_div_mult)
    moreover have "(payload + al - 1) mod al < al" using that by simp
    ultimately show ?thesis by linarith
  qed
  then show ?thesis by (simp add: align_packed_block_stride_def al_def [symmetric] Let_def)
qed

text \<open>Where a remapped descriptor lies.\<close>

definition tensor_at :: "layer_split_state \<Rightarrow> layer_family list \<Rightarrow> kv_tensor \<Rightarrow> nat \<Rightarrow> nat \<Rightarrow> int \<Rightarrow> bool" where
  "tensor_at st fams u k l a \<longleftrightarrow> k < length fams \<and> l < length (fam_names (fams ! k))
     \<and> kt_names u \<noteq> [] \<and> hd (kt_names u) = fam_names (fams ! k) ! l
     \<and> slot_in st (fam_indices (fams ! k)) (fam_indices (fams ! k) ! l) a \<and> a < fam_slots (fams ! k)
     \<and> kt_offset u = family_bytes (take k fams) + a * fam_page (fams ! k)"

lemma remapped_tensor_at:
  assumes ctx: "remap_ok parse st cfg fams" and P: "place_families st fams 0 [] = Inr P"
    and ts: "remap_tensors cls (layer_page_sizes cfg) P stride (kc_tensors cfg) = Inr ts"
    and u: "u \<in> set ts" "0 < kt_block_stride u"
  shows "\<exists>k l a. tensor_at st fams u k l a \<and> kt_block_stride u = stride
    \<and> cfg_page cfg (hd (kt_names u)) = Some (fam_page (fams ! k)) \<and> parse (hd (kt_names u)) = Inr (fam_indices (fams ! k) ! l)"
proof -
  obtain t where t: "t \<in> set (kc_tensors cfg)" "remap_tensor cls (layer_page_sizes cfg) P stride t = Inr u"
    using remap_tensors_mem [OF ts u(1)] by blast
  have packed: "0 < kt_block_stride t" using t(2) u(2) by (auto simp: remap_tensor_def split: if_splits)
  obtain n ns where names: "kt_names t = n # ns"
    using t(2) packed by (cases "kt_names t") (auto simp: remap_tensor_def primary_layer_name_def)
  have "t \<in> set (packed_tensors cfg)" using t(1) packed by (simp add: packed_tensors_def)
  then have n: "n \<in> packed_names cfg" using names by (force simp: packed_names_def)
  obtain k l where kl: "k < length fams" "l < length (fam_names (fams ! k))" "n = fam_names (fams ! k) ! l"
    "cfg_page cfg n = Some (fam_page (fams ! k))" "parse n = Inr (fam_indices (fams ! k) ! l)"
    using name_in_family [OF ctx n] by metis
  have "placed_at st fams 0 P k l" using place_families_get [OF P families_are_apart [OF ctx]] kl by blast
  then obtain a where a: "local_packed_slot_for_family_layer st (fam_indices (fams ! k) ! l) (fam_indices (fams ! k)) = Inr a"
      "dict_get P n = Some (family_bytes (take k fams) + a * fam_page (fams ! k), fam_page (fams ! k))"
    by (auto simp: placed_at_def kl(3))
  obtain b where b: "slot_in st (fam_indices (fams ! k)) (fam_indices (fams ! k) ! l) b" "b < fam_slots (fams ! k)"
    using family_slot_in [OF ctx kl(1,2)] by blast
  have "b = a" using a(1) b(1) by (simp add: slot_in_def)
  moreover have "kt_names u = kt_names t \<and> kt_block_stride u = stride
      \<and> kt_offset u = family_bytes (take k fams) + a * fam_page (fams ! k)"
    using t(2) packed names a(2) make_packed_fields
    by (fastforce simp: remap_tensor_def primary_layer_name_def Let_def split: if_splits)
  ultimately have "tensor_at st fams u k l a" using kl b names by (simp add: tensor_at_def)
  with kl names \<open>kt_names u = kt_names t \<and> _\<close> show ?thesis by auto
qed

lemma tensor_at_bounds:
  assumes ctx: "remap_ok parse st cfg fams" and u: "tensor_at st fams u k l a"
  shows "family_bytes (take k fams) \<le> kt_offset u"
    and "kt_offset u + fam_page (fams ! k) \<le> family_bytes (take k fams) + fam_page (fams ! k) * fam_slots (fams ! k)"
proof -
  have page: "0 < fam_page (fams ! k)" using family_indices_facts(3) [OF ctx] u by (auto simp: tensor_at_def)
  have a: "0 \<le> a" "a + 1 \<le> fam_slots (fams ! k)" using u by (auto simp: tensor_at_def slot_in_def)
  show "family_bytes (take k fams) \<le> kt_offset u" using u page a by (simp add: tensor_at_def)
  have "(a + 1) * fam_page (fams ! k) \<le> fam_slots (fams ! k) * fam_page (fams ! k)"
    using a page by (intro mult_right_mono) auto
  then show "kt_offset u + fam_page (fams ! k) \<le> family_bytes (take k fams) + fam_page (fams ! k) * fam_slots (fams ! k)"
    using u by (simp add: tensor_at_def algebra_simps)
qed

lemma tensor_at_apart:
  assumes ctx: "remap_ok parse st cfg fams" and u: "tensor_at st fams u k l a" and v: "tensor_at st fams v k' l' b"
    and names: "hd (kt_names u) \<noteq> hd (kt_names v)" and own: "is_owned st (fam_indices (fams ! k) ! l) = Inr True"
  shows "kt_offset u + fam_page (fams ! k) \<le> kt_offset v \<or> kt_offset v + fam_page (fams ! k') \<le> kt_offset u"
proof (cases k k' rule: linorder_cases)
  case less
  then show ?thesis
    using tensor_at_bounds(2) [OF ctx u] tensor_at_bounds(1) [OF ctx v] family_bytes_mono [OF ctx less] v
    by (auto simp: tensor_at_def)
next
  case greater
  then show ?thesis
    using tensor_at_bounds(2) [OF ctx v] tensor_at_bounds(1) [OF ctx u] family_bytes_mono [OF ctx greater] u
    by (auto simp: tensor_at_def)
next
  case equal
  let ?f = "fams ! k"
  have l: "k < length fams" "l < length (fam_names ?f)" "l' < length (fam_names ?f)" using u v equal by (auto simp: tensor_at_def)
  have facts: "set (fam_names ?f) \<subseteq> packed_names cfg" "\<And>n. n \<in> set (fam_names ?f) \<Longrightarrow> cfg_page cfg n = Some (fam_page ?f)"
      "\<And>i. i < length (fam_names ?f) \<Longrightarrow> parse (fam_names ?f ! i) = Inr (fam_indices ?f ! i)"
    using families_facts [OF ctx l(1)] parse_all_nth by (auto simp: family_ok_def)
  have "fam_indices ?f ! l \<noteq> fam_indices ?f ! l'"
  proof
    assume "fam_indices ?f ! l = fam_indices ?f ! l'"
    then have "parse (fam_names ?f ! l) = parse (fam_names ?f ! l')" using facts(3) l by simp
    moreover have "fam_names ?f ! l \<in> packed_names cfg" "fam_names ?f ! l' \<in> packed_names cfg"
      "cfg_page cfg (fam_names ?f ! l) = cfg_page cfg (fam_names ?f ! l')"
      using facts(1,2) l by auto
    ultimately have "fam_names ?f ! l = fam_names ?f ! l'"
      using remap_okD(4) [OF ctx] unfolding layout_named_def by blast
    then show False using names u v equal by (simp add: tensor_at_def)
  qed
  then have "a \<noteq> b"
    using owned_slot_apart [OF remap_okD(1,2) [OF ctx] family_indices_facts(2,1) [OF ctx l(1,2)]
        family_indices_facts(2,1) [OF ctx l(1,3)]] own u v equal by (auto simp: tensor_at_def)
  moreover have "0 < fam_page ?f" using family_indices_facts(3) [OF ctx l(1,2)] .
  ultimately have "(a + 1) * fam_page ?f \<le> b * fam_page ?f \<or> (b + 1) * fam_page ?f \<le> a * fam_page ?f"
    by (auto simp: mult_le_cancel_right)
  then show ?thesis using u v equal by (auto simp: tensor_at_def algebra_simps)
qed

text \<open>A remapped layer's page lies inside the block pitch.\<close>

lemma tensor_inside:
  assumes ctx: "remap_ok parse st cfg fams" and u: "tensor_at st fams u k l a"
    and stride: "stride = align_packed_block_stride (family_bytes fams) (kc_groups cfg)"
  shows "0 \<le> kt_offset u" and "kt_offset u + fam_page (fams ! k) \<le> stride"
proof -
  have k: "k < length fams" using u by (simp add: tensor_at_def)
  note upto = family_bytes_mono [OF ctx]
  have "0 \<le> family_bytes (take k fams)"
  proof (cases "k = 0")
    case False
    then show ?thesis using upto [of 0 k] k family_slot_in [OF ctx, of 0 0] family_indices_facts(3) [OF ctx, of 0 0]
        families_facts [OF ctx, of 0] by (fastforce simp: family_bytes_def slot_in_def intro: order_trans [rotated])
  qed (simp add: family_bytes_def)
  then show low: "0 \<le> kt_offset u" using tensor_at_bounds(1) [OF ctx u] by linarith
  have top: "kt_offset u + fam_page (fams ! k) \<le> family_bytes fams"
    using tensor_at_bounds(2) [OF ctx u] upto [OF k order_refl] by simp
  have "0 < fam_page (fams ! k)" using family_indices_facts(3) [OF ctx k, of l] u by (simp add: tensor_at_def)
  then have "0 \<le> family_bytes fams" using top low by linarith
  then have "family_bytes fams \<le> stride" unfolding stride by (rule align_ge)
  then show "kt_offset u + fam_page (fams ! k) \<le> stride" using top by linarith
qed

lemma remap_bytes:
  assumes st: "state_ok st" "start_layer st = 0" and named: "layout_named parse cfg"
    and run: "remap_packed_kv_tensor_offsets parse cls (Some st) cfg = Inr (True, cfg')"
    and u: "u \<in> set (kc_tensors cfg')" "0 < kt_block_stride u" and v: "v \<in> set (kc_tensors cfg')" "0 < kt_block_stride v"
    and other: "hd (kt_names u) \<noteq> hd (kt_names v)"
    and own: "parse (hd (kt_names u)) = Inr i" "is_owned st i = Inr True"
  shows "\<exists>p q. cfg_page cfg (hd (kt_names u)) = Some p \<and> cfg_page cfg (hd (kt_names v)) = Some q
    \<and> 0 \<le> kt_offset u \<and> kt_offset u + p \<le> kt_block_stride u
    \<and> (kt_offset u + p \<le> kt_offset v \<or> kt_offset v + q \<le> kt_offset u)
    \<and> 0 \<le> kt_offset v \<and> kt_offset v + q \<le> kt_block_stride v \<and> kt_block_stride v = kt_block_stride u"
proof -
  obtain fams P ts where parts: "remap_parts parse st cfg fams" and P: "place_families st fams 0 [] = Inr P"
    and ts: "remap_tensors cls (layer_page_sizes cfg) P (align_packed_block_stride (family_bytes fams) (kc_groups cfg)) (kc_tensors cfg) = Inr ts"
    and cfg': "cfg' = cfg\<lparr>kc_tensors := ts, kc_remap_applied := True\<rparr>" by (rule remap_done [OF run])
  have ctx: "remap_ok parse st cfg fams" using st parts named by (simp add: remap_ok_def)
  have mem: "u \<in> set ts" "v \<in> set ts" using u v cfg' by simp_all
  obtain k l a where U: "tensor_at st fams u k l a" "kt_block_stride u = align_packed_block_stride (family_bytes fams) (kc_groups cfg)"
      "cfg_page cfg (hd (kt_names u)) = Some (fam_page (fams ! k))" "parse (hd (kt_names u)) = Inr (fam_indices (fams ! k) ! l)"
    using remapped_tensor_at [OF ctx P ts mem(1) u(2)] by blast
  obtain k' l' b where V: "tensor_at st fams v k' l' b" "kt_block_stride v = align_packed_block_stride (family_bytes fams) (kc_groups cfg)"
      "cfg_page cfg (hd (kt_names v)) = Some (fam_page (fams ! k'))"
    using remapped_tensor_at [OF ctx P ts mem(2) v(2)] by blast
  have "kt_offset u + fam_page (fams ! k) \<le> kt_offset v \<or> kt_offset v + fam_page (fams ! k') \<le> kt_offset u"
    using tensor_at_apart [OF ctx U(1) V(1) other] own U(4) by simp
  then show ?thesis
    using tensor_inside [OF ctx U(1,2)] tensor_inside [OF ctx V(1,2)] U(2,3) V(2,3) by auto
qed

section \<open>Properties\<close>

text \<open>A rank of four layers over two ranks, one descriptor per layer named by its index.\<close>

definition demo_kv_tensor :: "string \<Rightarrow> kv_tensor" where
  "demo_kv_tensor n = \<lparr>kt_size = 300, kt_names = [n], kt_block_stride = 30, kt_offset = 0,
     kt_layer_stride = 10, kt_backing = Some 1, kt_origin = Upstream\<rparr>"

definition demo_kv_config :: kv_cache_config where
  "demo_kv_config = \<lparr>kc_groups = [\<lparr>g_spec = \<lparr>ls_page_size = 10, ls_block_size = 2, ls_dtype = None\<rparr>, g_per_layer = None,
       g_layer_names = [''0'', ''1'', ''2'', ''3'']\<rparr>],
     kc_tensors = map demo_kv_tensor [''0'', ''1'', ''2'', ''3''], kc_remap_applied = False\<rparr>"

definition demo_cls :: tensor_cls where
  "demo_cls = \<lparr>cls_fields = [''size'', ''layers'', ''layer_stride'', ''block_stride'', ''offset''],
     cls_settable = True, cls_permissive = False\<rparr>"

definition demo_remapped :: kv_cache_config where
  "demo_remapped = demo_kv_config\<lparr>kc_tensors := [(demo_kv_tensor ''0'')\<lparr>kt_offset := 20\<rparr>, (demo_kv_tensor ''1'')\<lparr>kt_offset := 20\<rparr>,
     demo_kv_tensor ''2'', (demo_kv_tensor ''3'')\<lparr>kt_offset := 10\<rparr>], kc_remap_applied := True\<rparr>"

lemma demo_remap: "remap_packed_kv_tensor_offsets py_int demo_cls (Some (rank_state 1 2 4)) demo_kv_config = Inr (True, demo_remapped)"
  by code_simp

lemma demo_ints: "py_int ''0'' = Inr 0" "py_int ''1'' = Inr 1" "py_int ''2'' = Inr 2" "py_int ''3'' = Inr 3"
  by code_simp+

lemma demo_named: "layout_named py_int demo_kv_config"
proof -
  have names: "packed_names demo_kv_config = {''0'', ''1'', ''2'', ''3''}" by code_simp
  have pages: "\<forall>n \<in> {''0'', ''1'', ''2'', ''3''}. cfg_page demo_kv_config n = Some 10" by code_simp
  show ?thesis unfolding layout_named_def names using pages demo_ints by auto
qed

text \<open>
  After the remapping on a rank, the bytes of a layer the rank owns (or that is replicated)
  lie inside the block pitch and are disjoint from those of every other layer's descriptor, for
  any mixture of page sizes, as long as no page size has two caches of the same layer.
\<close>

theorem remap_keeps_owned_apart:
  assumes st: "state_ok st" "start_layer st = 0" and named: "layout_named parse cfg"
    and run: "remap_packed_kv_tensor_offsets parse cls (Some st) cfg = Inr (True, cfg')"
    and u: "u \<in> set (kc_tensors cfg')" "0 < kt_block_stride u" and v: "v \<in> set (kc_tensors cfg')" "0 < kt_block_stride v"
    and other: "hd (kt_names u) \<noteq> hd (kt_names v)"
    and own: "parse (hd (kt_names u)) = Inr i" "is_owned st i = Inr True"
  shows "\<exists>p q. cfg_page cfg (hd (kt_names u)) = Some p \<and> cfg_page cfg (hd (kt_names v)) = Some q
    \<and> 0 \<le> kt_offset u \<and> kt_offset u + p \<le> kt_block_stride u
    \<and> (kt_offset u + p \<le> kt_offset v \<or> kt_offset v + q \<le> kt_offset u)"
  using remap_bytes [OF st named run u v other own] by blast

theorem remap_keeps_owned_apart_witness:
  "\<exists>p q. cfg_page demo_kv_config ''2'' = Some p \<and> cfg_page demo_kv_config ''0'' = Some q
    \<and> (kt_offset (demo_kv_tensor ''2'') + p \<le> kt_offset ((demo_kv_tensor ''0'')\<lparr>kt_offset := 20\<rparr>)
       \<or> kt_offset ((demo_kv_tensor ''0'')\<lparr>kt_offset := 20\<rparr>) + q \<le> kt_offset (demo_kv_tensor ''2''))"
proof -
  have st: "state_ok (rank_state 1 2 4)" "start_layer (rank_state 1 2 4) = 0" by (simp_all add: state_ok_def rank_state_def)
  have own: "is_owned (rank_state 1 2 4) 2 = Inr True" by code_simp
  show ?thesis
    using remap_keeps_owned_apart [OF st demo_named demo_remap, of "demo_kv_tensor ''2''" "(demo_kv_tensor ''0'')\<lparr>kt_offset := 20\<rparr>" 2]
      demo_ints(3) own by (auto simp: demo_remapped_def demo_kv_tensor_def)
qed

text \<open>
  The remapping is complete: once page sizes, layer indices and slot counts of all layers are
  known, every layer gets a slot inside its family, so the out-of-range error cannot be raised.
\<close>

theorem remap_slots_always_fit:
  assumes "state_ok st" and "start_layer st = 0" and "layout_named parse cfg" and "remap_parts parse st cfg fams"
  shows "\<exists>P. place_families st fams 0 [] = Inr P"
proof (rule place_families_total)
  fix f n i
  assume f: "f \<in> set fams" and ni: "(n, i) \<in> set (zip (fam_names f) (fam_indices f))"
  have ctx: "remap_ok parse st cfg fams" using assms by (simp add: remap_ok_def)
  obtain k where k: "k < length fams" "f = fams ! k" using f by (auto simp: in_set_conv_nth)
  obtain l where l: "l < length (fam_names f)" "i = fam_indices f ! l" using ni by (auto simp: set_zip)
  then show "\<exists>a. local_packed_slot_for_family_layer st i (fam_indices f) = Inr a \<and> 0 \<le> a \<and> a < fam_slots f"
    using family_slot_in [OF ctx k(1)] k(2) by (auto simp: slot_in_def)
qed

theorem remap_slots_always_fit_witness:
  "\<exists>P. place_families (rank_state 1 2 4)
     [\<lparr>fam_page = 10, fam_names = [''0'', ''1'', ''2'', ''3''], fam_indices = [0, 1, 2, 3], fam_slots = 3\<rparr>] 0 [] = Inr P"
proof -
  have "remap_parts py_int (rank_state 1 2 4) demo_kv_config
     [\<lparr>fam_page = 10, fam_names = [''0'', ''1'', ''2'', ''3''], fam_indices = [0, 1, 2, 3], fam_slots = 3\<rparr>]" by code_simp
  moreover have "state_ok (rank_state 1 2 4)" "start_layer (rank_state 1 2 4) = 0" by (simp_all add: state_ok_def rank_state_def)
  ultimately show ?thesis using remap_slots_always_fit [OF _ _ demo_named] by blast
qed

text \<open>Two caches of one layer with one page size are given the same bytes.\<close>

definition aliased_kv_config :: kv_cache_config where
  "aliased_kv_config = demo_kv_config\<lparr>
     kc_groups := [\<lparr>g_spec = \<lparr>ls_page_size = 10, ls_block_size = 2, ls_dtype = None\<rparr>, g_per_layer = None,
       g_layer_names = [''0'', ''1'', ''2'', ''+2'', ''3'']\<rparr>],
     kc_tensors := map demo_kv_tensor [''0'', ''1'', ''2'', ''+2'', ''3'']\<rparr>"

lemma same_layer_caches_alias:
  "(case remap_packed_kv_tensor_offsets py_int demo_cls (Some (rank_state 1 2 4)) aliased_kv_config of
      Inr (b, c) \<Rightarrow> b \<and> map kt_offset (kc_tensors c) = [20, 20, 0, 0, 10]
    | Inl _ \<Rightarrow> False)"
  by code_simp

end
