(* ===== verification/Kv_Planner_Correct.thy ===== *)
theory Kv_Planner_Correct
  imports Kv_Planner Packed_Correct "HOL-Library.Multiset"
begin

text \<open>
  The planner and the workers agree: a planned configuration is accepted by the remapping of every
  rank, its descriptors stay inside the block pitch, and the planned blocks fit the memory together
  with the broadcast scratch.
\<close>

section \<open>Buckets\<close>

definition entries :: "kv_group list \<Rightarrow> (int \<times> string) list" where
  "entries groups = concat (map group_entries groups)"

definition names_at :: "kv_group list \<Rightarrow> int \<Rightarrow> string list" where
  "names_at groups p = map snd (filter (\<lambda>e. fst e = p) (entries groups))"

lemma add_slots_at:
  "bucket_at (fold add_slot es d) p = bucket_at d p @ map (\<lambda>e. [snd e]) (filter (\<lambda>e. fst e = p) es)"
  by (induction es arbitrary: d) (auto simp: add_slot_def bucket_at_def split: option.splits)

lemma add_slots_keys:
  "distinct (dict_keys d) \<Longrightarrow> distinct (dict_keys (fold add_slot es d))
     \<and> set (dict_keys (fold add_slot es d)) = set (dict_keys d) \<union> fst ` set es"
proof (induction es arbitrary: d)
  case (Cons e es)
  obtain p n where e: "e = (p, n)" by (cases e)
  have "distinct (dict_keys (add_slot e d))" "set (dict_keys (add_slot e d)) = insert p (set (dict_keys d))"
    using Cons.prems by (auto simp: add_slot_def e dom_update distinct_update)
  then show ?case
    using Cons.IH [of "add_slot e d"] by (simp add: e)
qed simp

lemma bucket_at_own: "bucket_at (bucket_layers_by_page_size groups) p = map (\<lambda>n. [n]) (names_at groups p)"
  by (simp add: bucket_layers_by_page_size_def add_slots_at names_at_def entries_def comp_def)
     (simp add: bucket_at_def)

definition plan_pages :: "kv_group list \<Rightarrow> int list" where
  "plan_pages groups = sort (dict_keys (bucket_layers_by_page_size groups))"

lemma plan_pages: "distinct (plan_pages groups)" "set (plan_pages groups) = fst ` set (entries groups)"
  "sorted (plan_pages groups)"
  using add_slots_keys [of "[]" "entries groups"]
  by (auto simp: plan_pages_def bucket_layers_by_page_size_def entries_def)

lemma names_at_iff: "n \<in> set (names_at groups p) \<longleftrightarrow> (p, n) \<in> set (entries groups)"
  by (force simp: names_at_def)

definition index_of :: "(string \<Rightarrow> int result) \<Rightarrow> string \<Rightarrow> int" where
  "index_of parse n = (case parse n of Inr i \<Rightarrow> i | Inl _ \<Rightarrow> -1)"

lemma slot_indices_own: "slot_indices parse (map (\<lambda>n. [n]) ns) = map (index_of parse) ns"
  by (simp add: slot_indices_def comp_def filter_map index_of_def [abs_def])

section \<open>Layouts\<close>

lemma max_owned_loop_ge: "max_owned_loop ranks layers n s best = Inr m \<Longrightarrow> best \<le> m"
  by (induction ranks arbitrary: best) (fastforce simp: and_then_Inr_iff split: if_splits)+

lemma phys_slots_pos:
  assumes "phys_slots_for_layer_family layers n s = Inr k" and "layers \<noteq> []"
  shows "1 \<le> k"
proof (cases "backbone_of n layers = [] \<or> s \<le> 1")
  case True
  then show ?thesis
    using assms by (cases layers) (auto simp: phys_slots_for_layer_family_def Let_def)
next
  case False
  then obtain m where "max_owned_count_for_layers (backbone_of n layers) n s = Inr m"
    and k: "k = m + 1 + int (length (filter (\<lambda>i. n \<le> i) layers))"
    using assms(1) by (auto simp: phys_slots_for_layer_family_def Let_def and_then_Inr_iff)
  then have "0 \<le> m"
    by (auto simp: max_owned_count_for_layers_def split: if_splits dest: max_owned_loop_ge)
  then show ?thesis
    using k by simp
qed

lemma phys_slots_cong:
  assumes "mset xs = mset ys"
  shows "phys_slots_for_layer_family xs n s = phys_slots_for_layer_family ys n s"
proof -
  have sets: "set (backbone_of n xs) = set (backbone_of n ys)"
    using mset_eq_setD [OF assms] by (simp add: backbone_of_def)
  have "max_owned_count_for_layers (backbone_of n xs) n s = max_owned_count_for_layers (backbone_of n ys) n s"
    by (rule max_owned_cong [OF sets])
  moreover have "backbone_of n xs = [] \<longleftrightarrow> backbone_of n ys = []"
    using sets by (metis set_empty)
  moreover have "length (filter (\<lambda>i. n \<le> i) xs) = length (filter (\<lambda>i. n \<le> i) ys)"
    using assms by (metis mset_filter size_mset)
  ultimately show ?thesis
    using mset_eq_length [OF assms] by (simp add: phys_slots_for_layer_family_def)
qed

lemma sum_pages_nonneg:
  "(\<And>p n. (p, n) \<in> set slots \<Longrightarrow> 0 \<le> p * n) \<Longrightarrow> 0 \<le> sum_list (map (\<lambda>(p, n). p * n) (slots :: (int \<times> int) list))"
  by (intro sum_list_nonneg) auto

text \<open>What the planner computes, with its own bucketing and positive page sizes.\<close>

definition own_planner :: "planner \<Rightarrow> bool" where
  "own_planner pl \<longleftrightarrow> pl_bucket pl = bucket_layers_by_page_size"

definition pages_positive :: "kv_group list \<Rightarrow> bool" where
  "pages_positive groups \<longleftrightarrow> (\<forall>e \<in> set (entries groups). 0 < fst e)"

lemma dict_set_values: "snd ` set (dict_set k v d) \<subseteq> insert v (snd ` set d)"
  by (induction d) auto

definition sizes_nonneg :: "('k, int) dict \<Rightarrow> bool" where
  "sizes_nonneg d \<longleftrightarrow> snd ` set d \<subseteq> {0..}"

lemma charge_pool_nonneg: "sizes_nonneg d \<Longrightarrow> sizes_nonneg (charge_pool page t d)"
proof -
  assume d: "sizes_nonneg d"
  define key where "key = (case t of None \<Rightarrow> Standalone page | Some u \<Rightarrow> Of_dtype u)"
  define m where "m = max (case dict_get d key of None \<Rightarrow> 0 | Some n \<Rightarrow> n) page"
  have "0 \<le> m"
    using d by (fastforce simp: m_def sizes_nonneg_def le_max_iff_disj split: option.splits dest: map_of_SomeD)
  moreover have "charge_pool page t d = dict_set key m d"
    by (simp add: charge_pool_def key_def m_def Let_def)
  ultimately show ?thesis
    using d dict_set_values [of key m d] unfolding sizes_nonneg_def
    by (metis atLeast_iff insert_subset subset_trans)
qed

lemma charge_page_nonneg: "sizes_nonneg d \<Longrightarrow> sizes_nonneg (charge_page dtypes page d)"
  unfolding charge_page_def
  by (rule fold_invariant [where Q = "\<lambda>_. True"]) (simp_all add: charge_pool_nonneg)

lemma bounce_nonneg: "0 \<le> bounce_bytes_per_block groups pages"
proof -
  have "sizes_nonneg (fold (charge_page dtypes) pages [])" for dtypes
    by (rule fold_invariant [where Q = "\<lambda>_. True"]) (simp_all add: charge_page_nonneg, simp add: sizes_nonneg_def)
  then show ?thesis
    unfolding bounce_bytes_per_block_def Let_def sizes_nonneg_def
    by (intro mult_nonneg_nonneg sum_list_nonneg) (simp, metis atLeast_iff list.set_map subset_iff)
qed

text \<open>The parts of a layout that the planner found.\<close>

lemma planner_layout_Some:
  assumes "planner_layout pl c groups = Inr (Some l)" and "own_planner pl"
  obtains nlayers where "total_layers_from_config c = Some nlayers" "0 < nlayers"
    "lay_buckets l = bucket_layers_by_page_size groups" "lay_pages l = plan_pages groups"
    "map fst (lay_slots l) = plan_pages groups"
    "\<And>p n. (p, n) \<in> set (lay_slots l) \<Longrightarrow>
       phys_slots_for_layer_family (map (index_of (pl_parse pl)) (names_at groups p)) nlayers (pcp_of_config c) = Inr n"
    "0 < sum_list (map (\<lambda>(p, n). p * n) (lay_slots l))"
    "lay_full l = sum_list (map (\<lambda>p. p * int (length (names_at groups p))) (plan_pages groups))"
    "lay_shrunk l \<longleftrightarrow> sum_list (map (\<lambda>(p, n). p * n) (lay_slots l)) < lay_full l"
    "lay_pitch l = (if lay_shrunk l then align_packed_block_stride (sum_list (map (\<lambda>(p, n). p * n) (lay_slots l))) groups else lay_full l)"
    "0 \<le> lay_bounce l"
proof -
  let ?B = "bucket_layers_by_page_size groups"
  obtain nlayers where n: "total_layers_from_config c = Some nlayers" "0 < nlayers"
    using assms(1) by (cases "total_layers_from_config c") (auto simp: planner_layout_def shrunk_layout_def split: if_splits)
  have bucket: "pl_bucket pl = bucket_layers_by_page_size"
    using assms(2) by (simp add: own_planner_def)
  let ?f = "\<lambda>p. and_then (phys_slots_for_layer_family (slot_indices (pl_parse pl) (bucket_at ?B p)) nlayers (pcp_of_config c))
      (\<lambda>n. Inr (p, n))"
  obtain slots where slots: "map_result ?f (plan_pages groups) = Inr slots"
    and l: "0 < sum_list (map (\<lambda>(p, n). p * n) slots)"
      "l = \<lparr>lay_buckets = ?B, lay_pages = plan_pages groups, lay_slots = slots,
         lay_pitch = (if sum_list (map (\<lambda>(p, n). p * n) slots) < sum_list (map (\<lambda>p. p * int (length (bucket_at ?B p))) (plan_pages groups))
            then align_packed_block_stride (sum_list (map (\<lambda>(p, n). p * n) slots)) groups
            else sum_list (map (\<lambda>p. p * int (length (bucket_at ?B p))) (plan_pages groups))),
         lay_full = sum_list (map (\<lambda>p. p * int (length (bucket_at ?B p))) (plan_pages groups)),
         lay_bounce = bounce_bytes_per_block groups (plan_pages groups),
         lay_shrunk = (sum_list (map (\<lambda>(p, n). p * n) slots) < sum_list (map (\<lambda>p. p * int (length (bucket_at ?B p))) (plan_pages groups)))\<rparr>"
    using assms(1) n unfolding planner_layout_def shrunk_layout_def bucket plan_pages_def Let_def
    by (auto simp: and_then_Inr_iff split: if_splits)
  have rel: "list_all2 (\<lambda>p e. ?f p = Inr e) (plan_pages groups) slots"
    using slots by (simp add: map_result_Inr_iff)
  have fsts: "map fst slots = plan_pages groups"
    using rel by (induction rule: list_all2_induct) (auto simp: and_then_Inr_iff)
  have phys: "phys_slots_for_layer_family (map (index_of (pl_parse pl)) (names_at groups p)) nlayers (pcp_of_config c) = Inr n"
    if pn: "(p, n) \<in> set slots" for p n
  proof -
    obtain q where "?f q = Inr (p, n)"
      using rel pn by (auto simp: list_all2_conv_all_nth in_set_conv_nth)
    then show ?thesis
      by (auto simp: and_then_Inr_iff bucket_at_own slot_indices_own)
  qed
  show ?thesis
    using n fsts phys l bounce_nonneg by (intro that [of nlayers]) (simp_all add: bucket_at_own)
qed

section \<open>Descriptors of a plan\<close>

definition owned_bytes :: "(int \<times> int) list \<Rightarrow> int" where
  "owned_bytes slots = sum_list (map (\<lambda>(p, n). p * n) slots)"

lemma owned_bytes_simps [simp]: "owned_bytes [] = 0" "owned_bytes ((p, n) # slots) = p * n + owned_bytes slots"
  by (simp_all add: owned_bytes_def)

abbreviation slots_pos :: "(int \<times> int) list \<Rightarrow> bool" where
  "slots_pos slots \<equiv> list_all (\<lambda>(p, n). 0 < p \<and> 1 \<le> n) slots"

lemma owned_bytes_nonneg: "slots_pos slots \<Longrightarrow> 0 \<le> owned_bytes slots"
  by (induction slots) (auto intro!: add_nonneg_nonneg)

lemma plan_slots_shape:
  assumes "map_result (plan_slot pl l nb page n_phys base) (List.enumerate k (map (\<lambda>n. [n]) ns)) = Inr ts"
  shows "map kt_names ts = map (\<lambda>n. [n]) ns"
    and "\<And>t. t \<in> set ts \<Longrightarrow> kt_block_stride t = lay_pitch l \<and> kt_size t = lay_pitch l * nb
          \<and> kt_backing t = Some (pl_tag pl (lay_pages l, lay_pitch l, nb))
          \<and> (\<exists>i. kt_offset t = base + min (int i) (n_phys - 1) * page)"
proof -
  have rel: "list_all2 (\<lambda>e t. plan_slot pl l nb page n_phys base e = Inr t) (List.enumerate k (map (\<lambda>n. [n]) ns)) ts"
    using assms by (simp add: map_result_Inr_iff)
  have "map snd (List.enumerate k (map (\<lambda>n. [n]) ns)) = map kt_names ts"
    using rel
  proof (induction rule: list_all2_induct)
    case (Cons e es t ts)
    then show ?case
      using make_packed_fields by (cases e) (fastforce simp: plan_slot_def)
  qed simp
  then show "map kt_names ts = map (\<lambda>n. [n]) ns"
    by simp
  fix t assume "t \<in> set ts"
  then obtain e where "plan_slot pl l nb page n_phys base e = Inr t"
    using map_result_mem [OF assms] by blast
  then obtain i names where "make_packed_kv_tensor (pl_cls pl) (lay_pitch l * nb) names page
      (base + min (int i) (n_phys - 1) * page) (lay_pitch l) (Some (pl_tag pl (lay_pages l, lay_pitch l, nb))) = Inr t"
    by (cases e) (auto simp: plan_slot_def)
  then show "kt_block_stride t = lay_pitch l \<and> kt_size t = lay_pitch l * nb
      \<and> kt_backing t = Some (pl_tag pl (lay_pages l, lay_pitch l, nb))
      \<and> (\<exists>i. kt_offset t = base + min (int i) (n_phys - 1) * page)"
    using make_packed_fields by blast
qed

text \<open>A descriptor of the plan: one layer of the groups, its page inside the block.\<close>

definition planned_for :: "kv_group list \<Rightarrow> shrunk \<Rightarrow> int \<Rightarrow> nat \<Rightarrow> int \<Rightarrow> int \<Rightarrow> kv_tensor \<Rightarrow> bool" where
  "planned_for groups l nb tag lo hi t \<longleftrightarrow>
     kt_block_stride t = lay_pitch l \<and> kt_size t = lay_pitch l * nb \<and> kt_backing t = Some tag
     \<and> (\<exists>p n. (p, n) \<in> set (entries groups) \<and> kt_names t = [n] \<and> lo \<le> kt_offset t \<and> kt_offset t + p \<le> hi)"

lemma planned_for_mono: "planned_for groups l nb tag lo hi t \<Longrightarrow> lo' \<le> lo \<Longrightarrow> hi \<le> hi' \<Longrightarrow> planned_for groups l nb tag lo' hi' t"
  unfolding planned_for_def by (meson order_trans)

lemma plan_families_shape:
  assumes "plan_families pl l nb slots base = Inr ts" and "lay_buckets l = bucket_layers_by_page_size groups"
    and "slots_pos slots"
  shows "concat (map kt_names ts) = concat (map (names_at groups) (map fst slots))
    \<and> (\<forall>t \<in> set ts. planned_for groups l nb (pl_tag pl (lay_pages l, lay_pitch l, nb)) base (base + owned_bytes slots) t)"
  using assms(1,3)
proof (induction slots arbitrary: base ts)
  case Nil
  then show ?case by simp
next
  case (Cons s slots)
  obtain p n where s: "s = (p, n)" by (cases s)
  let ?tag = "pl_tag pl (lay_pages l, lay_pitch l, nb)"
  obtain us vs where us: "map_result (plan_slot pl l nb p n base) (List.enumerate 0 (map (\<lambda>n. [n]) (names_at groups p))) = Inr us"
    and vs: "plan_families pl l nb slots (base + n * p) = Inr vs" and ts: "ts = us @ vs"
    using Cons.prems(1) by (auto simp: s and_then_Inr_iff assms(2) bucket_at_own)
  have pn: "0 < p" "1 \<le> n"
    using Cons.prems(2) by (auto simp: s)
  have rest: "concat (map kt_names vs) = concat (map (names_at groups) (map fst slots))"
    "\<forall>t \<in> set vs. planned_for groups l nb ?tag (base + n * p) (base + n * p + owned_bytes slots) t"
    using Cons.IH [OF vs] Cons.prems(2) by auto
  have names: "map kt_names us = map (\<lambda>n. [n]) (names_at groups p)"
    by (rule plan_slots_shape(1) [OF us])
  have tail: "0 \<le> owned_bytes slots"
    using owned_bytes_nonneg Cons.prems(2) by simp
  have "planned_for groups l nb ?tag base (base + owned_bytes (s # slots)) t" if t: "t \<in> set us" for t
  proof -
    have "kt_names t \<in> (\<lambda>n. [n]) ` set (names_at groups p)"
      using t names by (metis image_eqI list.set_map)
    then obtain m where m: "(p, m) \<in> set (entries groups)" "kt_names t = [m]"
      by (auto simp: names_at_iff)
    obtain i where i: "kt_offset t = base + min (int i) (n - 1) * p"
      using plan_slots_shape(2) [OF us t] by blast
    have "0 \<le> min (int i) (n - 1) * p" "min (int i) (n - 1) * p \<le> (n - 1) * p"
      using pn by (auto intro: mult_right_mono)
    then have "base \<le> kt_offset t \<and> kt_offset t + p \<le> base + owned_bytes (s # slots)"
      using i tail by (simp add: s algebra_simps)
    then show ?thesis
      using plan_slots_shape(2) [OF us t] m unfolding planned_for_def by blast
  qed
  moreover have "planned_for groups l nb ?tag base (base + owned_bytes (s # slots)) t" if "t \<in> set vs" for t
    by (rule planned_for_mono [OF bspec [OF rest(2) that]]) (use pn in \<open>simp_all add: s algebra_simps\<close>)
  moreover have "concat (map kt_names us) = names_at groups p"
    using names by simp
  ultimately show ?case
    using rest(1) by (auto simp: ts s)
qed

lemma layout_slots_pos:
  assumes l: "planner_layout pl c groups = Inr (Some l)" and "own_planner pl" "pages_positive groups"
  shows "slots_pos (lay_slots l)"
proof -
  obtain nl where fsts: "map fst (lay_slots l) = plan_pages groups"
    and phys: "\<And>p n. (p, n) \<in> set (lay_slots l) \<Longrightarrow>
       phys_slots_for_layer_family (map (index_of (pl_parse pl)) (names_at groups p)) nl (pcp_of_config c) = Inr n"
    by (rule planner_layout_Some [OF l assms(2)]) blast
  have "0 < p \<and> 1 \<le> n" if pn: "(p, n) \<in> set (lay_slots l)" for p n
  proof -
    have "p \<in> set (plan_pages groups)"
      using pn unfolding fsts [symmetric] by force
    then obtain m where m: "(p, m) \<in> set (entries groups)"
      by (auto simp: plan_pages(2))
    then have "map (index_of (pl_parse pl)) (names_at groups p) \<noteq> []"
      using names_at_iff [of m groups p] by auto
    then have "1 \<le> n"
      using phys_slots_pos [OF phys [OF pn]] by simp
    moreover have "0 < p"
      using m assms(3) by (auto simp: pages_positive_def)
    ultimately show ?thesis by simp
  qed
  then show ?thesis
    by (auto simp: list_all_iff)
qed

lemma sum_list_positive: "xs \<noteq> [] \<Longrightarrow> (\<And>x. x \<in> set xs \<Longrightarrow> 0 < f x) \<Longrightarrow> 0 < sum_list (map f xs)" for f :: "'a \<Rightarrow> int"
  by (induction xs rule: list_nonempty_induct) (auto intro: add_pos_pos)

lemma layout_bytes_pos:
  assumes l: "planner_layout pl c groups = Inr (Some l)" and "own_planner pl" "pages_positive groups"
  shows "lay_shrunk l \<Longrightarrow> owned_bytes (lay_slots l) \<le> lay_pitch l" and "0 < lay_full l" and "0 < lay_pitch l"
    and "0 < accounted_bytes l"
proof -
  obtain owned: "0 < owned_bytes (lay_slots l)" and bounce: "0 \<le> lay_bounce l"
    and pitch: "lay_pitch l = (if lay_shrunk l then align_packed_block_stride (owned_bytes (lay_slots l)) groups else lay_full l)"
    and full: "lay_full l = sum_list (map (\<lambda>p. p * int (length (names_at groups p))) (plan_pages groups))"
    and fsts: "map fst (lay_slots l) = plan_pages groups"
    using planner_layout_Some [OF l assms(2)] unfolding owned_bytes_def by metis
  have pos: "0 < p * int (length (names_at groups p))" if p: "p \<in> set (plan_pages groups)" for p
  proof -
    obtain n where "(p, n) \<in> set (entries groups)"
      using p by (auto simp: plan_pages(2))
    then have "0 < p" "names_at groups p \<noteq> []"
      using names_at_iff [of n groups p] assms(3) by (auto simp: pages_positive_def)
    then show ?thesis
      by simp
  qed
  have "plan_pages groups \<noteq> []"
    using owned fsts by (cases "lay_slots l") auto
  then show "0 < lay_full l"
    using sum_list_positive [OF _ pos] by (simp add: full)
  show le: "lay_shrunk l \<Longrightarrow> owned_bytes (lay_slots l) \<le> lay_pitch l"
    using align_ge [of "owned_bytes (lay_slots l)" groups] owned pitch by auto
  show "0 < lay_pitch l"
    using le owned pitch \<open>0 < lay_full l\<close> by (cases "lay_shrunk l") auto
  then show "0 < accounted_bytes l"
    using bounce by (simp add: accounted_bytes_def)
qed

lemma budget_fits:
  assumes "budget_blocks override l available = Inr nb" and "0 < accounted_bytes l"
  shows "nb * accounted_bytes l \<le> available"
proof -
  have "nb \<le> available div accounted_bytes l"
    using assms by (auto simp: budget_blocks_def floor_div_def split: if_splits)
  then have "nb * accounted_bytes l \<le> available div accounted_bytes l * accounted_bytes l"
    using assms(2) by simp
  also have "\<dots> \<le> available"
    using assms(2) by (metis div_mult_mod_eq le_add_same_cancel1 pos_mod_sign)
  finally show ?thesis .
qed

lemma shrunk_plan_parts:
  assumes "shrunk_packed_plan pl c groups available = Inr (Some (nb, ts))"
  obtains l where "planner_layout pl c groups = Inr (Some l)" "lay_shrunk l"
    "budget_blocks (pl_override pl) l available = Inr nb" "plan_families pl l nb (lay_slots l) 0 = Inr ts"
  using assms by (auto simp: shrunk_packed_plan_def and_then_Inr_iff split: option.splits if_splits)

section \<open>The worker's view of a plan\<close>

text \<open>
  What the groups are relied on for: every layer is in one group, under one spec, and a group with
  per-layer specs lists no further layers.
\<close>

definition groups_named :: "kv_group list \<Rightarrow> bool" where
  "groups_named groups \<longleftrightarrow> distinct (map snd (entries groups))
     \<and> (\<forall>g \<in> set groups. set (g_layer_names g) \<subseteq> snd ` set (group_entries g))"

lemma fold_set_names:
  "dict_get (fold (\<lambda>(n, sp) acc. dict_set n (ls_page_size sp) acc) d ps) n =
     (case dict_get (rev d) n of Some sp \<Rightarrow> Some (ls_page_size sp) | None \<Rightarrow> dict_get ps n)"
  by (induction d arbitrary: ps) (auto split: option.splits simp: map_add_def)

lemma fold_default_names:
  "dict_get (fold (\<lambda>n acc. if dict_get acc n \<noteq> None then acc else dict_set n p acc) ns ps) n =
     (if dict_get ps n \<noteq> None then dict_get ps n else if n \<in> set ns then Some p else None)"
  by (induction ns arbitrary: ps) (auto split: option.splits)

lemma group_page_sizes_eq:
  "dict_get (group_page_sizes g ps) n =
     (case (case g_per_layer g of None \<Rightarrow> None | Some d \<Rightarrow> dict_get (rev d) n) of
        Some sp \<Rightarrow> Some (ls_page_size sp)
      | None \<Rightarrow> if dict_get ps n \<noteq> None then dict_get ps n
                else if n \<in> set (g_layer_names g) then Some (ls_page_size (g_spec g)) else None)"
  unfolding group_page_sizes_def Let_def fold_default_names by (auto simp: fold_set_names split: option.splits)

lemma group_entries_cases:
  obtains (per_layer) d where "g_per_layer g = Some d" "group_entries g = map (\<lambda>(n, sp). (ls_page_size sp, n)) d"
    | (uniform) "g_per_layer g = None \<or> g_per_layer g = Some []"
        "group_entries g = map (\<lambda>n. (ls_page_size (g_spec g), n)) (g_layer_names g)"
  by (cases "g_per_layer g"; cases "the (g_per_layer g)") (auto simp: group_entries_def)

lemma group_page_sizes_get:
  assumes "set (g_layer_names g) \<subseteq> snd ` set (group_entries g)" and "distinct (map snd (group_entries g))"
  shows "n \<notin> snd ` set (group_entries g) \<Longrightarrow> dict_get (group_page_sizes g ps) n = dict_get ps n"
    and "(p, n) \<in> set (group_entries g) \<Longrightarrow> dict_get ps n = None \<Longrightarrow> dict_get (group_page_sizes g ps) n = Some p"
proof -
  show "dict_get (group_page_sizes g ps) n = dict_get ps n" if n: "n \<notin> snd ` set (group_entries g)"
  proof (cases rule: group_entries_cases [of g])
    case (per_layer d)
    then have "dict_get (rev d) n = None"
      using n by (force simp: map_of_eq_None_iff)
    then show ?thesis
      using per_layer(1) n assms(1) by (auto simp: group_page_sizes_eq split: option.splits)
  next
    case uniform
    then show ?thesis
      using n by (auto simp: group_page_sizes_eq image_iff split: option.splits)
  qed
  show "dict_get (group_page_sizes g ps) n = Some p" if e: "(p, n) \<in> set (group_entries g)" "dict_get ps n = None"
  proof (cases rule: group_entries_cases [of g])
    case (per_layer d)
    have "map snd (group_entries g) = map fst d"
      by (simp add: per_layer(2) comp_def case_prod_beta')
    then have "distinct (map fst (rev d))"
      using assms(2) by (simp add: rev_map [symmetric])
    moreover obtain sp where sp: "(n, sp) \<in> set (rev d)" "p = ls_page_size sp"
      using e(1) per_layer(2) by auto
    ultimately have "dict_get (rev d) n = Some sp"
      by (simp only: map_of_eq_Some_iff)
    then show ?thesis
      by (simp add: group_page_sizes_eq per_layer(1) sp(2))
  next
    case uniform
    then show ?thesis
      using e by (auto simp: group_page_sizes_eq)
  qed
qed

lemma entries_Cons: "entries (g # groups) = group_entries g @ entries groups"
  by (simp add: entries_def)

lemma group_name_once:
  assumes "groups_named (g # groups)"
  shows "(p, n) \<in> set (group_entries g) \<Longrightarrow> n \<notin> snd ` set (entries groups)"
    and "(p, n) \<in> set (entries groups) \<Longrightarrow> n \<notin> snd ` set (group_entries g)"
proof -
  have "snd ` set (group_entries g) \<inter> snd ` set (entries groups) = {}"
    using assms by (simp add: groups_named_def entries_Cons)
  then show "(p, n) \<in> set (group_entries g) \<Longrightarrow> n \<notin> snd ` set (entries groups)"
    and "(p, n) \<in> set (entries groups) \<Longrightarrow> n \<notin> snd ` set (group_entries g)"
    by (metis disjoint_iff image_eqI snd_conv)+
qed

lemma layer_page_sizes_entry:
  assumes "groups_named groups" and "(p, n) \<in> set (entries groups)" and "kc_groups cfg = groups"
  shows "dict_get (layer_page_sizes cfg) n = Some p"
proof -
  have other: "dict_get (fold group_page_sizes gs ps) m = dict_get ps m"
    if "groups_named gs" "m \<notin> snd ` set (entries gs)" for gs ps m
    using that
  proof (induction gs arbitrary: ps)
    case (Cons g gs)
    then show ?case
      using group_page_sizes_get(1) [of g m ps] by (auto simp: groups_named_def entries_Cons image_Un)
  qed simp
  have "dict_get (fold group_page_sizes gs ps) n = Some p"
    if "groups_named gs" "(p, n) \<in> set (entries gs)" "dict_get ps n = None" for gs ps
    using that
  proof (induction gs arbitrary: ps)
    case Nil
    then show ?case by (simp add: entries_def)
  next
    case (Cons g gs)
    have named: "groups_named gs" and g: "set (g_layer_names g) \<subseteq> snd ` set (group_entries g)" "distinct (map snd (group_entries g))"
      using Cons.prems(1) by (auto simp: groups_named_def entries_Cons)
    show ?case
    proof (cases "(p, n) \<in> set (group_entries g)")
      case True
      then have "n \<notin> snd ` set (entries gs)"
        using group_name_once(1) [OF Cons.prems(1)] by blast
      then show ?thesis
        using other [OF named] group_page_sizes_get(2) [OF g True Cons.prems(3)] by simp
    next
      case False
      then have in_gs: "(p, n) \<in> set (entries gs)"
        using Cons.prems(2) by (simp add: entries_Cons)
      then have "n \<notin> snd ` set (group_entries g)"
        using group_name_once(2) [OF Cons.prems(1)] by blast
      then have "dict_get (group_page_sizes g ps) n = None"
        using group_page_sizes_get(1) [OF g] Cons.prems(3) by simp
      then show ?thesis
        using Cons.IH [OF named in_gs] by simp
    qed
  qed
  from this [OF assms(1,2), of "[]"] show ?thesis
    by (simp add: layer_page_sizes_def assms(3))
qed

section \<open>Planner and worker agree\<close>

definition planned_config :: "kv_group list \<Rightarrow> kv_tensor list \<Rightarrow> kv_cache_config" where
  "planned_config groups ts = \<lparr>kc_groups = groups, kc_tensors = ts, kc_remap_applied = False\<rparr>"

definition fits_plan :: "planner \<Rightarrow> kv_group list \<Rightarrow> bool" where
  "fits_plan pl groups \<longleftrightarrow> own_planner pl \<and> pages_positive groups \<and> groups_named groups"

lemma plan_shape:
  assumes fits: "fits_plan pl groups" and l: "planner_layout pl c groups = Inr (Some l)" "lay_shrunk l"
    and ts: "plan_families pl l nb (lay_slots l) 0 = Inr ts"
  shows "set (concat (map kt_names ts)) = snd ` set (entries groups)"
    and "t \<in> set ts \<Longrightarrow> planned_for groups l nb (pl_tag pl (lay_pages l, lay_pitch l, nb)) 0 (lay_pitch l) t"
proof -
  have own: "own_planner pl" and pos: "pages_positive groups"
    using fits by (simp_all add: fits_plan_def)
  obtain buckets: "lay_buckets l = bucket_layers_by_page_size groups" and fsts: "map fst (lay_slots l) = plan_pages groups"
    by (rule planner_layout_Some [OF l(1) own]) blast
  note shape = plan_families_shape [OF ts buckets layout_slots_pos [OF l(1) own pos]]
  have "set (concat (map (names_at groups) (plan_pages groups))) = snd ` set (entries groups)"
    by (force simp: names_at_iff plan_pages(2))
  then show "set (concat (map kt_names ts)) = snd ` set (entries groups)"
    using shape fsts by simp
  show "t \<in> set ts \<Longrightarrow> planned_for groups l nb (pl_tag pl (lay_pages l, lay_pitch l, nb)) 0 (lay_pitch l) t"
    using shape layout_bytes_pos(1) [OF l(1) own pos l(2)] by (metis add_0 planned_for_mono order_refl)
qed

lemma planned_names:
  assumes fits: "fits_plan pl groups" and l: "planner_layout pl c groups = Inr (Some l)" "lay_shrunk l"
    and ts: "plan_families pl l nb (lay_slots l) 0 = Inr ts"
  shows "packed_tensors (planned_config groups ts) = ts"
    and "packed_names (planned_config groups ts) = snd ` set (entries groups)"
    and "(p, n) \<in> set (entries groups) \<Longrightarrow> cfg_page (planned_config groups ts) n = Some p"
proof -
  have "0 < lay_pitch l"
    using fits l(1) layout_bytes_pos(3) by (auto simp: fits_plan_def)
  then show packed: "packed_tensors (planned_config groups ts) = ts"
    using plan_shape(2) [OF assms] by (auto simp: packed_tensors_def planned_config_def filter_id_conv planned_for_def)
  show "packed_names (planned_config groups ts) = snd ` set (entries groups)"
    using plan_shape(1) [OF assms] by (simp add: packed_names_def packed)
  show "(p, n) \<in> set (entries groups) \<Longrightarrow> cfg_page (planned_config groups ts) n = Some p"
    using layer_page_sizes_entry [of groups p n "planned_config groups ts"] fits
    by (simp add: cfg_page_def page_of_def planned_config_def fits_plan_def)
qed

lemma bucket_none_missing:
  assumes "\<forall>n \<in> set names. page_of ps packed n \<noteq> None"
  shows "bk_missing (fold (bucket_layer ps packed) names bk) = bk_missing bk"
  using assms
proof (induction names arbitrary: bk)
  case (Cons n names)
  have "bk_missing (bucket_layer ps packed n bk) = bk_missing bk"
    using Cons.prems by (auto simp: bucket_layer_def page_of_def Let_def split: option.splits)
  then show ?case
    using Cons by simp
qed simp

lemma build_families_eq:
  assumes "\<And>p n. p \<in> set pages \<Longrightarrow> n \<in> set (nm p) \<Longrightarrow> parse n = Inr (idx n)"
    and "\<And>p. p \<in> set pages \<Longrightarrow> phys_slots_for_layer_family (map idx (nm p)) (total_layers st) (shard_size st) = Inr (sl p)"
    and "\<And>p. p \<in> set pages \<Longrightarrow> (case dict_get buckets p of None \<Rightarrow> [] | Some ns \<Rightarrow> ns) = nm p"
  shows "build_families st parse buckets pages
    = Inr (map (\<lambda>p. \<lparr>fam_page = p, fam_names = nm p, fam_indices = map idx (nm p), fam_slots = sl p\<rparr>) pages)"
proof -
  have parse_all: "parse_all parse ns = Inr (map idx ns)" if "\<And>n. n \<in> set ns \<Longrightarrow> parse n = Inr (idx n)" for ns
    using that by (induction ns) auto
  show ?thesis
    using assms
  proof (induction pages)
    case (Cons p pages)
    have "build_families st parse buckets pages
        = Inr (map (\<lambda>p. \<lparr>fam_page = p, fam_names = nm p, fam_indices = map idx (nm p), fam_slots = sl p\<rparr>) pages)"
      by (rule Cons.IH) (use Cons.prems in auto)
    moreover have "parse_all parse (nm p) = Inr (map idx (nm p))"
      by (rule parse_all) (use Cons.prems(1) in auto)
    moreover have "phys_slots_for_layer_family (map idx (nm p)) (total_layers st) (shard_size st) = Inr (sl p)"
      "(case dict_get buckets p of None \<Rightarrow> [] | Some ns \<Rightarrow> ns) = nm p"
      using Cons.prems by auto
    ultimately show ?case
      by (simp add: Let_def)
  qed simp
qed

lemma keyed_list: "distinct (map fst xs) \<Longrightarrow> xs = map (\<lambda>k. (k, the (map_of xs k))) (map fst xs)"
proof (induction xs)
  case (Cons x xs)
  obtain k v where x: "x = (k, v)" by (cases x)
  have "\<And>j. j \<in> set (map fst xs) \<Longrightarrow> (j, the (map_of (x # xs) j)) = (j, the (map_of xs j))"
    using Cons.prems unfolding x by (metis distinct.simps(2) fst_conv list.simps(9) map_of_Cons_code(2))
  then have "map (\<lambda>k. (k, the (map_of (x # xs) k))) (map fst xs) = xs"
    using Cons by (metis (no_types, lifting) distinct.simps(2) list.simps(9) map_eq_conv)
  then show ?case
    by (simp add: x)
qed simp

text \<open>The families a worker builds from a planned configuration are the planner's.\<close>

definition indices_named :: "(string \<Rightarrow> int result) \<Rightarrow> kv_group list \<Rightarrow> bool" where
  "indices_named parse groups \<longleftrightarrow>
     (\<forall>(p, n) \<in> set (entries groups). \<exists>i \<ge> 0. parse n = Inr i)
     \<and> (\<forall>(p, n) \<in> set (entries groups). \<forall>(q, m) \<in> set (entries groups). p = q \<and> parse n = parse m \<longrightarrow> n = m)"

definition state_for :: "vllm_config \<Rightarrow> layer_split_state \<Rightarrow> bool" where
  "state_for c st \<longleftrightarrow> state_ok st \<and> start_layer st = 0 \<and> total_layers_from_config c = Some (total_layers st)
     \<and> shard_size st = pcp_of_config c"

lemma planned_named:
  assumes fits: "fits_plan pl groups" "indices_named parse groups" and l: "planner_layout pl c groups = Inr (Some l)" "lay_shrunk l"
    and ts: "plan_families pl l nb (lay_slots l) 0 = Inr ts"
  shows "layout_named parse (planned_config groups ts)"
proof -
  note facts = planned_names [OF fits(1) l ts]
  have pos: "0 < p" if "(p, n) \<in> set (entries groups)" for p n
    using fits(1) that by (auto simp: fits_plan_def pages_positive_def)
  show ?thesis
    unfolding layout_named_def facts(2)
  proof (intro conjI ballI allI impI)
    fix n p assume "n \<in> snd ` set (entries groups)" "cfg_page (planned_config groups ts) n = Some p"
    then show "0 < p"
      using facts(3) pos by auto
  next
    fix n i assume "n \<in> snd ` set (entries groups)" "parse n = Inr i"
    then show "0 \<le> i"
      using fits(2) by (fastforce simp: indices_named_def)
  next
    fix n m assume nm: "n \<in> snd ` set (entries groups)" "m \<in> snd ` set (entries groups)"
      and eq: "cfg_page (planned_config groups ts) n = cfg_page (planned_config groups ts) m \<and> parse n = parse m"
    then obtain p q where "(p, n) \<in> set (entries groups)" "(q, m) \<in> set (entries groups)"
      by auto
    moreover from this have "p = q"
      using facts(3) eq by simp
    ultimately show "n = m"
      using fits(2) eq unfolding indices_named_def by blast
  qed
qed

lemma planned_buckets:
  assumes fits: "fits_plan pl groups" and l: "planner_layout pl c groups = Inr (Some l)" "lay_shrunk l"
    and ts: "plan_families pl l nb (lay_slots l) 0 = Inr ts"
  defines "bk \<equiv> bucket_layers (layer_page_sizes (planned_config groups ts)) ts"
  shows "bk_missing bk = []" and "sort (dict_keys (bk_buckets bk)) = plan_pages groups"
    and "p \<in> set (plan_pages groups) \<Longrightarrow> \<exists>ns. dict_get (bk_buckets bk) p = Some ns \<and> mset ns = mset (names_at groups p)"
proof -
  let ?cfg = "planned_config groups ts"
  let ?page = "cfg_page ?cfg"
  note facts = planned_names [OF fits l ts]
  have page: "?page = page_of (layer_page_sizes ?cfg) ts"
    by (simp add: cfg_page_def facts(1))
  have seen: "set (concat (map kt_names ts)) = snd ` set (entries groups)"
    by (rule plan_shape(1) [OF fits l ts])
  have ok: "bucketing_ok ?page bk" "set (bk_seen bk) = snd ` set (entries groups)"
    using bucket_layers_ok [of "layer_page_sizes ?cfg" ts] seen by (simp_all add: page bk_def)
  show "bk_missing bk = []"
    unfolding bk_def bucket_layers_def
    by (subst bucket_none_missing) (use seen facts(3) in \<open>auto simp: page [symmetric]\<close>)
  have names: "{n \<in> set (bk_seen bk). ?page n = Some p} = set (names_at groups p)" for p
    using facts(3) by (force simp: ok(2) names_at_iff)
  have get: "\<exists>ns. dict_get (bk_buckets bk) p = Some ns \<and> distinct ns \<and> set ns = set (names_at groups p)"
    if p: "p \<in> fst ` set (entries groups)" for p
  proof -
    obtain n where "n \<in> set (bk_seen bk)" "?page n = Some p"
      using p facts(3) by (force simp: ok(2))
    then obtain ns where "dict_get (bk_buckets bk) p = Some ns"
      using ok(1) by (fastforce simp: bucketing_ok_def)
    then show ?thesis
      using ok(1) names [of p] by (auto simp: bucketing_ok_def)
  qed
  have "p \<in> set (plan_pages groups)" if p: "p \<in> set (dict_keys (bk_buckets bk))" for p
  proof -
    obtain ns where "dict_get (bk_buckets bk) p = Some ns"
      using p by (cases "dict_get (bk_buckets bk) p") (simp_all add: dict_get_None_iff)
    then have "ns \<noteq> []" "set ns = set (names_at groups p)"
      using ok(1) names [of p] by (auto simp: bucketing_ok_def)
    then show ?thesis
      unfolding plan_pages(2) using names_at_iff by (metis fst_conv image_eqI list.set_sel(1))
  qed
  moreover have "p \<in> set (dict_keys (bk_buckets bk))" if p: "p \<in> set (plan_pages groups)" for p
    using get [of p] p dict_get_in_keys unfolding plan_pages(2) by metis
  ultimately have "set (dict_keys (bk_buckets bk)) = set (plan_pages groups)"
    by blast
  then show "sort (dict_keys (bk_buckets bk)) = plan_pages groups"
    using ok(1) plan_pages by (intro sorted_distinct_set_unique) (auto simp: bucketing_ok_def)
  show "\<exists>ns. dict_get (bk_buckets bk) p = Some ns \<and> mset ns = mset (names_at groups p)" if p: "p \<in> set (plan_pages groups)"
  proof -
    have "distinct (names_at groups p)"
      using fits by (simp add: names_at_def fits_plan_def groups_named_def distinct_map_filter)
    then show ?thesis
      using get [of p] p by (auto simp: plan_pages(2) set_eq_iff_mset_eq_distinct)
  qed
qed

lemma planned_families:
  assumes fits: "fits_plan pl groups" "indices_named (pl_parse pl) groups"
    and l: "planner_layout pl c groups = Inr (Some l)" "lay_shrunk l"
    and ts: "plan_families pl l nb (lay_slots l) 0 = Inr ts" and st: "state_for c st"
  shows "\<exists>fams. remap_parts (pl_parse pl) st (planned_config groups ts) fams
      \<and> family_bytes fams = owned_bytes (lay_slots l) \<and> full_bytes fams = lay_full l"
proof -
  let ?parse = "pl_parse pl" and ?idx = "index_of (pl_parse pl)"
  define bk where "bk = bucket_layers (layer_page_sizes (planned_config groups ts)) ts"
  define nm where "nm p = (case dict_get (bk_buckets bk) p of None \<Rightarrow> [] | Some ns \<Rightarrow> ns)" for p
  define sl where "sl p = the (map_of (lay_slots l) p)" for p
  note buckets = planned_buckets [OF fits(1) l ts, folded bk_def]
  have own: "own_planner pl"
    using fits(1) by (simp add: fits_plan_def)
  obtain fsts: "map fst (lay_slots l) = plan_pages groups" and owned: "0 < owned_bytes (lay_slots l)"
    and phys: "\<And>p n. (p, n) \<in> set (lay_slots l) \<Longrightarrow>
       phys_slots_for_layer_family (map ?idx (names_at groups p)) (total_layers st) (shard_size st) = Inr n"
    and full: "lay_full l = sum_list (map (\<lambda>p. p * int (length (names_at groups p))) (plan_pages groups))"
    using st by (rule_tac planner_layout_Some [OF l(1) own]) (auto simp: state_for_def owned_bytes_def)
  have slots: "lay_slots l = map (\<lambda>p. (p, sl p)) (plan_pages groups)"
    using keyed_list [of "lay_slots l"] plan_pages(1) fsts unfolding sl_def by simp
  have perm: "mset (nm p) = mset (names_at groups p)" if p: "p \<in> set (plan_pages groups)" for p
    using buckets(3) [OF p] by (auto simp: nm_def)
  have idx: "?parse n = Inr (?idx n)" if "p \<in> set (plan_pages groups)" "n \<in> set (nm p)" for p n
  proof -
    have "(p, n) \<in> set (entries groups)"
      using that mset_eq_setD [OF perm] by (simp add: names_at_iff)
    then show ?thesis
      using fits(2) by (fastforce simp: indices_named_def index_of_def)
  qed
  define fams where "fams = map (\<lambda>p. \<lparr>fam_page = p, fam_names = nm p, fam_indices = map ?idx (nm p), fam_slots = sl p\<rparr>) (plan_pages groups)"
  have build: "build_families st ?parse (bk_buckets bk) (plan_pages groups) = Inr fams"
    unfolding fams_def
  proof (rule build_families_eq)
    fix p assume p: "p \<in> set (plan_pages groups)"
    then have "(p, sl p) \<in> set (lay_slots l)"
      by (simp add: slots)
    then have "phys_slots_for_layer_family (map ?idx (names_at groups p)) (total_layers st) (shard_size st) = Inr (sl p)"
      by (rule phys)
    then show "phys_slots_for_layer_family (map ?idx (nm p)) (total_layers st) (shard_size st) = Inr (sl p)"
      using phys_slots_cong [of "map ?idx (nm p)" "map ?idx (names_at groups p)"] perm [OF p] by simp
  qed (use idx in \<open>simp_all add: nm_def\<close>)
  have "packed_tensors (planned_config groups ts) = ts"
    by (rule planned_names(1) [OF fits(1) l ts])
  moreover have "ts \<noteq> []"
    using owned plan_shape(1) [OF fits(1) l ts] plan_pages(2) [of groups] slots by auto
  ultimately have "remap_parts ?parse st (planned_config groups ts) fams"
    using buckets(1,2) build by (simp add: remap_parts_def bk_def)
  moreover have "family_bytes fams = owned_bytes (lay_slots l)"
    by (simp add: family_bytes_def fams_def owned_bytes_def slots comp_def)
  moreover have "full_bytes fams = lay_full l"
    unfolding full_bytes_def fams_def full using mset_eq_length [OF perm]
    by (simp add: comp_def cong: map_cong)
  ultimately show ?thesis
    by blast
qed

lemma remap_tensors_total:
  "(\<And>t. t \<in> set ts \<Longrightarrow> \<exists>u. remap_tensor cls ps places stride t = Inr u)
    \<Longrightarrow> \<exists>us. remap_tensors cls ps places stride ts = Inr us"
proof (induction ts)
  case (Cons t ts)
  obtain u us where "remap_tensor cls ps places stride t = Inr u" "remap_tensors cls ps places stride ts = Inr us"
    using Cons by (metis list.set_intros)
  then show ?case by simp
qed simp

lemma make_packed_total: "cls_settable cls \<Longrightarrow> names \<noteq> [] \<Longrightarrow> \<exists>t. make_packed_kv_tensor cls sz names page offset stride backing = Inr t"
  by (auto simp: make_packed_kv_tensor_def Let_def set_packed_backing_id_def split: option.splits)

lemma planned_remaps:
  assumes fits: "fits_plan pl groups" "indices_named (pl_parse pl) groups"
    and l: "planner_layout pl c groups = Inr (Some l)" "lay_shrunk l"
    and ts: "plan_families pl l nb (lay_slots l) 0 = Inr ts" and st: "state_for c st" and cls: "cls_settable cls"
  shows "\<exists>cfg. remap_packed_kv_tensor_offsets (pl_parse pl) cls (Some st) (planned_config groups ts) = Inr (True, cfg)"
proof -
  let ?cfg = "planned_config groups ts" and ?parse = "pl_parse pl"
  obtain fams where parts: "remap_parts ?parse st ?cfg fams"
    and bytes: "family_bytes fams = owned_bytes (lay_slots l)" "full_bytes fams = lay_full l"
    using planned_families [OF fits l ts st] by blast
  have named: "layout_named ?parse ?cfg"
    by (rule planned_named [OF fits l ts])
  have ctx: "remap_ok ?parse st ?cfg fams"
    using st parts named by (simp add: remap_ok_def state_for_def)
  have own: "own_planner pl"
    using fits(1) by (simp add: fits_plan_def)
  obtain pitch: "lay_pitch l = align_packed_block_stride (owned_bytes (lay_slots l)) groups"
    and less: "owned_bytes (lay_slots l) < lay_full l"
    using l(2) by (rule_tac planner_layout_Some [OF l(1) own]) (auto simp: owned_bytes_def)
  obtain P where P: "place_families st fams 0 [] = Inr P"
    using remap_slots_always_fit [OF remap_okD(1,2,4,3) [OF ctx]] by blast
  have "\<exists>u. remap_tensor cls (layer_page_sizes ?cfg) P (lay_pitch l) t = Inr u" if t: "t \<in> set ts" for t
  proof -
    obtain p n where n: "(p, n) \<in> set (entries groups)" "kt_names t = [n]"
      using plan_shape(2) [OF fits(1) l ts t] by (auto simp: planned_for_def)
    then have "n \<in> packed_names ?cfg"
      using planned_names(2) [OF fits(1) l ts] by force
    then obtain k j where kj: "k < length fams" "j < length (fam_names (fams ! k))" "n = fam_names (fams ! k) ! j"
      by (rule name_in_family [OF ctx])
    have "placed_at st fams 0 P k j" "0 < fam_page (fams ! k)"
      using place_families_get [OF P families_are_apart [OF ctx]] family_indices_facts(3) [OF ctx] kj by blast+
    then obtain off q where "dict_get P n = Some (off, q)" "0 < q"
      by (auto simp: placed_at_def kj(3))
    then show ?thesis
      using make_packed_total [OF cls] by (simp add: remap_tensor_def primary_layer_name_def n(2))
  qed
  then obtain us where us: "remap_tensors cls (layer_page_sizes ?cfg) P (lay_pitch l) ts = Inr us"
    using remap_tensors_total by blast
  have "kt_block_stride (hd ts) = lay_pitch l" "ts \<noteq> []"
    using parts planned_names(1) [OF fits(1) l ts] plan_shape(2) [OF fits(1) l ts, of "hd ts"]
    by (auto simp: remap_parts_def planned_for_def)
  then obtain t0 others where t0: "ts = t0 # others" "kt_block_stride t0 = lay_pitch l"
    by (cases ts) auto
  have packed: "filter (\<lambda>t. 0 < kt_block_stride t) (kc_tensors ?cfg) = t0 # others"
    using planned_names(1) [OF fits(1) l ts] t0(1) by (simp add: packed_tensors_def)
  have "bk_missing (bucket_layers (layer_page_sizes ?cfg) (t0 # others)) = []"
    "build_families st ?parse (bk_buckets (bucket_layers (layer_page_sizes ?cfg) (t0 # others)))
       (sort (dict_keys (bk_buckets (bucket_layers (layer_page_sizes ?cfg) (t0 # others))))) = Inr fams"
    using parts by (simp_all add: remap_parts_def packed_tensors_def packed)
  then show ?thesis
    unfolding remap_packed_kv_tensor_offsets_def packed
    using P us pitch less bytes t0 by (simp add: planned_config_def Let_def)
qed

section \<open>Properties\<close>

text \<open>C31. Engine and workers agree on the packed layout: a plan of the engine, whose groups name every layer once
  and whose layer names parse, is accepted by the remapping of every rank of the group (none of its
  consistency errors can be raised), and after it the bytes of an owned or replicated layer lie inside the
  block and apart from the bytes of every other layer.\<close>

theorem planned_layout_accepted_by_workers:
  assumes plan: "shrunk_packed_plan pl c groups available = Inr (Some (nb, ts))"
    and fits: "fits_plan pl groups" "indices_named (pl_parse pl) groups" and st: "state_for c st" and cls: "cls_settable cls"
  shows "\<exists>cfg. remap_packed_kv_tensor_offsets (pl_parse pl) cls (Some st) (planned_config groups ts) = Inr (True, cfg)
    \<and> (\<forall>u \<in> set (kc_tensors cfg). \<forall>v \<in> set (kc_tensors cfg). \<forall>i.
         0 < kt_block_stride u \<and> 0 < kt_block_stride v \<and> hd (kt_names u) \<noteq> hd (kt_names v)
         \<and> pl_parse pl (hd (kt_names u)) = Inr i \<and> is_owned st i = Inr True
         \<longrightarrow> (\<exists>p q. cfg_page (planned_config groups ts) (hd (kt_names u)) = Some p
               \<and> cfg_page (planned_config groups ts) (hd (kt_names v)) = Some q
               \<and> 0 \<le> kt_offset u \<and> kt_offset u + p \<le> kt_block_stride u
               \<and> (kt_offset u + p \<le> kt_offset v \<or> kt_offset v + q \<le> kt_offset u)))"
proof -
  obtain l where l: "planner_layout pl c groups = Inr (Some l)" "lay_shrunk l"
    and ts: "plan_families pl l nb (lay_slots l) 0 = Inr ts"
    by (rule shrunk_plan_parts [OF plan])
  obtain cfg where run: "remap_packed_kv_tensor_offsets (pl_parse pl) cls (Some st) (planned_config groups ts) = Inr (True, cfg)"
    using planned_remaps [OF fits l ts st cls] by blast
  have "state_ok st" "start_layer st = 0"
    using st by (simp_all add: state_for_def)
  note bytes = remap_bytes [OF this planned_named [OF fits l ts] run]
  show ?thesis
    using run bytes by blast
qed

text \<open>Four layers of one page size on two ranks, planned with 500 bytes.\<close>

definition demo_vllm :: vllm_config where
  "demo_vllm = \<lparr>vc_layer_split_flag = Inr True, vc_parallel_config = Some \<lparr>pc_pcp_size = Some 2, pc_pp_size = None\<rparr>,
     vc_kv_role = None,
     vc_model_config = Some \<lparr>mc_architectures = None, mc_use_mla = None,
       mc_hf_config = Some \<lparr>hf_index_topk = None, hf_num_hidden_layers = Some 4\<rparr>, mc_hf_text_config = None\<rparr>,
     vc_block_size = None\<rparr>"

definition demo_planner :: planner where
  "demo_planner = \<lparr>pl_parse = py_int, pl_bucket = bucket_layers_by_page_size, pl_override = \<lambda>b. b, pl_cls = demo_cls,
     pl_tag = \<lambda>_. 1\<rparr>"

definition demo_groups :: "kv_group list" where
  "demo_groups = kc_groups demo_kv_config"

definition demo_shrunk :: shrunk where
  "demo_shrunk = \<lparr>lay_buckets = [(10, [[''0''], [''1''], [''2''], [''3'']])], lay_pages = [10], lay_slots = [(10, 3)],
     lay_pitch = 30, lay_full = 40, lay_bounce = 20, lay_shrunk = True\<rparr>"

definition demo_planned :: "int \<times> kv_tensor list" where
  "demo_planned = (10, map (\<lambda>(n, off). (demo_kv_tensor n)\<lparr>kt_offset := off\<rparr>) [(''0'', 0), (''1'', 10), (''2'', 20), (''3'', 20)])"

lemma demo_plan: "shrunk_packed_plan demo_planner demo_vllm demo_groups 500 = Inr (Some demo_planned)"
  by code_simp

lemma demo_plan_layout: "planner_layout demo_planner demo_vllm demo_groups = Inr (Some demo_shrunk)"
  by code_simp

lemma demo_entries: "entries demo_groups = [(10, ''0''), (10, ''1''), (10, ''2''), (10, ''3'')]"
  by code_simp

lemma demo_fits: "fits_plan demo_planner demo_groups"
proof -
  have "own_planner demo_planner"
    by (simp add: own_planner_def demo_planner_def)
  moreover have "\<forall>g \<in> set demo_groups. set (g_layer_names g) \<subseteq> snd ` set (group_entries g)"
    by code_simp
  ultimately show ?thesis
    by (simp add: fits_plan_def pages_positive_def groups_named_def demo_entries)
qed

lemma demo_indices: "indices_named (pl_parse demo_planner) demo_groups"
  by (simp add: indices_named_def demo_entries demo_planner_def demo_ints)

lemma demo_state: "state_for demo_vllm (rank_state 1 2 4)"
proof -
  have "total_layers_from_config demo_vllm = Some 4" "pcp_of_config demo_vllm = 2"
    by code_simp+
  then show ?thesis
    by (simp add: state_for_def state_ok_def rank_state_def)
qed

theorem planned_layout_accepted_by_workers_witness:
  "\<exists>cfg. remap_packed_kv_tensor_offsets py_int demo_cls (Some (rank_state 1 2 4))
     (planned_config demo_groups (snd demo_planned)) = Inr (True, cfg)"
proof -
  have plan: "shrunk_packed_plan demo_planner demo_vllm demo_groups 500 = Inr (Some (fst demo_planned, snd demo_planned))"
    by (simp add: demo_plan)
  show ?thesis
    using planned_layout_accepted_by_workers [OF plan demo_fits demo_indices demo_state, of demo_cls]
    by (auto simp: demo_planner_def demo_cls_def)
qed

text \<open>C32. A plan fits the memory: its blocks, each with its share of the broadcast scratch, take at most the
  available bytes; every layer of the groups has a descriptor, all on one buffer of that many blocks,
  whose page lies inside the block.\<close>

theorem planned_memory_fits:
  assumes plan: "shrunk_packed_plan pl c groups available = Inr (Some (nb, ts))" and fits: "fits_plan pl groups"
  shows "\<exists>l tag. planner_layout pl c groups = Inr (Some l) \<and> nb * (lay_pitch l + lay_bounce l) \<le> available
    \<and> set (concat (map kt_names ts)) = snd ` set (entries groups)
    \<and> (\<forall>t \<in> set ts. kt_size t = lay_pitch l * nb \<and> kt_block_stride t = lay_pitch l \<and> kt_backing t = Some tag
         \<and> (\<exists>p n. (p, n) \<in> set (entries groups) \<and> kt_names t = [n] \<and> 0 \<le> kt_offset t \<and> kt_offset t + p \<le> lay_pitch l))"
proof -
  obtain l where l: "planner_layout pl c groups = Inr (Some l)" "lay_shrunk l"
    and nb: "budget_blocks (pl_override pl) l available = Inr nb"
    and ts: "plan_families pl l nb (lay_slots l) 0 = Inr ts"
    by (rule shrunk_plan_parts [OF plan])
  have "nb * (lay_pitch l + lay_bounce l) \<le> available"
    using budget_fits [OF nb] layout_bytes_pos(4) [OF l(1)] fits by (simp add: accounted_bytes_def fits_plan_def)
  then show ?thesis
    using l(1) plan_shape [OF fits l ts] unfolding planned_for_def by blast
qed

theorem planned_memory_fits_witness:
  "\<exists>l. planner_layout demo_planner demo_vllm demo_groups = Inr (Some l) \<and> 10 * (lay_pitch l + lay_bounce l) \<le> 500
    \<and> (\<forall>t \<in> set (snd demo_planned). kt_size t = lay_pitch l * 10)"
proof -
  have plan: "shrunk_packed_plan demo_planner demo_vllm demo_groups 500 = Inr (Some (10, snd demo_planned))"
    by (simp add: demo_plan demo_planned_def)
  show ?thesis
    using planned_memory_fits [OF plan demo_fits] by blast
qed

text \<open>Equalising the workers keeps the block count: when the engine asks for the bytes per block, the answer
  for a pool of all layers is exactly packed page plus scratch, so that planning again with \<open>m\<close> blocks'
  worth of memory gives \<open>m\<close> blocks, on the shrunk layout as on the original one.\<close>

theorem equalized_replan_exact:
  assumes "layer_split_active c" and "groups \<noteq> []" and "fits_plan pl groups"
    and layout: "planner_layout pl c groups = Inr (Some l)"
    and "original c groups = Inr (lay_full l)" and "\<And>b. pl_override pl b = b"
  shows "hcu_pool_bytes_per_block pl original c groups = Inr (accounted_bytes l)
    \<and> budget_blocks (pl_override pl) l (m * accounted_bytes l) = Inr m
    \<and> bounce_reserved_memory pl c groups (m * accounted_bytes l) = Inr (m * lay_pitch l)"
proof -
  have pos: "0 < lay_full l" "0 < accounted_bytes l"
    using layout_bytes_pos [OF layout] assms(3) by (simp_all add: fits_plan_def)
  have "- (lay_full l * accounted_bytes l) div lay_full l = - accounted_bytes l"
    using pos by (metis less_irrefl minus_mult_right nonzero_mult_div_cancel_left)
  then have pool: "hcu_pool_bytes_per_block pl original c groups = Inr (accounted_bytes l)"
    using assms pos by (simp add: hcu_pool_bytes_per_block_def shrink_bytes_def floor_div_def)
  have budget: "budget_blocks (pl_override pl) l (m * accounted_bytes l) = Inr m"
    using pos assms(6) by (simp add: budget_blocks_def floor_div_def)
  have "m * accounted_bytes l * lay_pitch l div accounted_bytes l = m * lay_pitch l"
    using pos by (metis less_irrefl mult.assoc mult.commute nonzero_mult_div_cancel_left)
  then have "bounce_reserved_memory pl c groups (m * accounted_bytes l) = Inr (m * lay_pitch l)"
    using pos layout budget by (simp add: bounce_reserved_memory_def floor_div_def)
  with pool budget show ?thesis
    by simp
qed

theorem equalized_replan_exact_witness:
  "hcu_pool_bytes_per_block demo_planner (\<lambda>_ _. Inr 40) demo_vllm demo_groups = Inr 50
    \<and> bounce_reserved_memory demo_planner demo_vllm demo_groups (7 * 50) = Inr (7 * 30)"
proof -
  have "layer_split_active demo_vllm" "demo_groups \<noteq> []"
    by code_simp+
  moreover have "accounted_bytes demo_shrunk = 50" "lay_pitch demo_shrunk = 30" "lay_full demo_shrunk = 40"
    by code_simp+
  moreover have "\<And>b. pl_override demo_planner b = b"
    by (simp add: demo_planner_def)
  ultimately show ?thesis
    using equalized_replan_exact [OF _ _ demo_fits demo_plan_layout, of "\<lambda>_ _. Inr 40" 7] by simp
qed

end
