(* ===== verification/Strided_View.thy ===== *)
theory Strided_View
  imports Prelude
begin

text \<open>
  Strided tensor views: the address of an index, row-major strides, and what a permutation of
  the dimensions does to them.  Used by the KV-cache views.
\<close>

section \<open>Addresses\<close>

record tview =
  tv_size :: "nat list"
  tv_stride :: "nat list"
  tv_offset :: nat

definition dot :: "nat list \<Rightarrow> nat list \<Rightarrow> nat" where
  "dot xs ys = sum_list (map2 (*) xs ys)"

definition address :: "tview \<Rightarrow> nat list \<Rightarrow> nat" where
  "address v idx = tv_offset v + dot idx (tv_stride v)"

definition in_shape :: "nat list \<Rightarrow> nat list \<Rightarrow> bool" where
  "in_shape idx shape \<longleftrightarrow> list_all2 (<) idx shape"

lemma dot_Cons [simp]: "dot (x # xs) (y # ys) = x * y + dot xs ys" "dot [] ys = 0" "dot xs [] = 0"
  by (simp_all add: dot_def)

lemma in_shape_Cons [simp]: "in_shape (i # is) (d # ds) \<longleftrightarrow> i < d \<and> in_shape is ds" "in_shape [] []"
  "in_shape [] (d # ds) = False" "in_shape (i # is) [] = False"
  by (simp_all add: in_shape_def)

lemma in_shape_length: "in_shape idx shape \<Longrightarrow> length idx = length shape"
  by (simp add: in_shape_def list_all2_lengthD)

section \<open>Row-major strides\<close>

primrec row_major :: "nat list \<Rightarrow> nat list" where
  "row_major [] = []"
| "row_major (d # ds) = prod_list ds # row_major ds"

lemma row_major_length [simp]: "length (row_major ds) = length ds"
  by (induction ds) auto

lemma row_major_bound: "in_shape idx ds \<Longrightarrow> dot idx (row_major ds) < prod_list ds"
proof (induction ds arbitrary: idx)
  case Nil
  then show ?case by (cases idx) auto
next
  case (Cons d ds)
  obtain i js where idx: "idx = i # js" using Cons.prems by (cases idx) auto
  have "i < d" "dot js (row_major ds) < prod_list ds" using Cons idx by auto
  then have "i * prod_list ds + dot js (row_major ds) < (i + 1) * prod_list ds" by simp
  also have "\<dots> \<le> d * prod_list ds" using \<open>i < d\<close> by (intro mult_right_mono) auto
  finally show ?case by (simp add: idx)
qed

lemma row_major_inj:
  "in_shape is ds \<Longrightarrow> in_shape js ds \<Longrightarrow> dot is (row_major ds) = dot js (row_major ds) \<Longrightarrow> is = js"
proof (induction ds arbitrary: "is" js)
  case Nil
  then show ?case by (cases "is"; cases js) auto
next
  case (Cons d ds)
  obtain i it j jt where e: "is = i # it" "js = j # jt" using Cons.prems by (cases "is"; cases js) auto
  let ?p = "prod_list ds"
  have b: "dot it (row_major ds) < ?p" "dot jt (row_major ds) < ?p" using Cons.prems e row_major_bound by auto
  have eq: "dot it (row_major ds) + i * ?p = dot jt (row_major ds) + j * ?p" using Cons.prems(3) e by (simp add: add.commute)
  then have "(dot it (row_major ds) + i * ?p) div ?p = (dot jt (row_major ds) + j * ?p) div ?p" by simp
  then have "i = j" using b by simp
  then show ?case using eq Cons e by auto
qed

text \<open>The loop that builds strides from the last dimension with a running product.\<close>

definition running_strides :: "nat list \<Rightarrow> nat list" where
  "running_strides shape = fst (foldr (\<lambda>d (strides, running). (running # strides, running * d)) shape ([], 1))"

lemma running_strides_row_major [simp]: "running_strides shape = row_major shape"
proof -
  have "foldr (\<lambda>d (strides, running). (running # strides, running * d)) shape ([], 1) = (row_major shape, prod_list shape)"
    by (induction shape) (simp_all add: mult.commute)
  then show ?thesis by (simp add: running_strides_def)
qed

text \<open>The strides of a freshly created tensor; an empty dimension counts as one.\<close>

definition fresh_strides :: "nat list \<Rightarrow> nat list" where
  "fresh_strides shape = row_major (map (max 1) shape)"

lemma fresh_strides_pos: "list_all (\<lambda>d. 0 < d) ds \<Longrightarrow> fresh_strides ds = row_major ds"
proof -
  assume "list_all (\<lambda>d. 0 < d) ds"
  then have "map (max 1) ds = ds" by (induction ds) auto
  then show ?thesis by (simp add: fresh_strides_def)
qed

lemma in_shape_pos: "in_shape idx ds \<Longrightarrow> list_all (\<lambda>d. 0 < d) ds"
  by (auto simp: in_shape_def list_all2_conv_all_nth list_all_length)

section \<open>Permuted dimensions\<close>

definition gather :: "'a list \<Rightarrow> nat list \<Rightarrow> 'a list" where
  "gather xs order = map (\<lambda>i. xs ! i) order"

definition index_of :: "nat list \<Rightarrow> nat \<Rightarrow> nat" where
  "index_of order i = length (takeWhile (\<lambda>j. j \<noteq> i) order)"

definition is_order :: "nat list \<Rightarrow> nat \<Rightarrow> bool" where
  "is_order order n \<longleftrightarrow> sort order = [0..<n]"

lemma orderD:
  assumes "is_order order n"
  shows "length order = n" "set order = {0..<n}" "distinct order"
proof -
  have s: "sort order = [0..<n]" using assms by (simp add: is_order_def)
  show "length order = n" using arg_cong [OF s, of length] by simp
  show "set order = {0..<n}" using arg_cong [OF s, of set] by simp
  have "distinct (sort order)" using s by simp
  then show "distinct order" by simp
qed

lemma index_of_nth: "distinct order \<Longrightarrow> k < length order \<Longrightarrow> index_of order (order ! k) = k"
proof (induction order arbitrary: k)
  case (Cons a order)
  then show ?case by (cases k) (auto simp: index_of_def)
qed simp

lemma nth_index_of: "i \<in> set order \<Longrightarrow> index_of order i < length order \<and> order ! index_of order i = i"
  by (induction order) (auto simp: index_of_def)

lemma dot_sum: "length xs = length ys \<Longrightarrow> dot xs ys = (\<Sum>i<length xs. xs ! i * ys ! i)"
proof (induction xs ys rule: list_induct2)
  case (Cons x xs y ys)
  then show ?case by (simp add: sum.lessThan_Suc_shift del: sum.lessThan_Suc)
qed simp

lemma dot_order:
  assumes o: "is_order order n" and idx: "length idx = n" and st: "length st = n"
  shows "dot idx (map (\<lambda>i. st ! index_of order i) [0..<n]) = dot (gather idx order) st"
proof -
  note d = orderD [OF o]
  have bij: "bij_betw (\<lambda>k. order ! k) {..<n} {..<n}"
    using d by (auto simp: bij_betw_def inj_on_def nth_eq_iff_index_eq set_conv_nth image_def atLeast0LessThan)
  have "dot idx (map (\<lambda>i. st ! index_of order i) [0..<n]) = (\<Sum>i<n. idx ! i * st ! index_of order i)"
    using idx by (simp add: dot_sum)
  also have "\<dots> = (\<Sum>k<n. idx ! (order ! k) * st ! index_of order (order ! k))"
    by (rule sum.reindex_bij_betw [OF bij, symmetric])
  also have "\<dots> = (\<Sum>k<n. gather idx order ! k * st ! k)"
    using d by (intro sum.cong) (simp_all add: index_of_nth gather_def)
  also have "\<dots> = dot (gather idx order) st" using d st by (simp add: dot_sum gather_def)
  finally show ?thesis .
qed

lemma in_shape_gather: "is_order order n \<Longrightarrow> length shape = n \<Longrightarrow> in_shape idx shape \<Longrightarrow> in_shape (gather idx order) (gather shape order)"
  using orderD(2) [of order n] by (auto simp: in_shape_def gather_def list_all2_conv_all_nth)
    (metis atLeastLessThan_iff nth_mem)

lemma gather_inj:
  assumes o: "is_order order n" and "length xs = n" "length ys = n" and "gather xs order = gather ys order"
  shows "xs = ys"
proof (rule nth_equalityI)
  show "length xs = length ys" using assms by simp
  fix i assume "i < length xs"
  then have "i \<in> set order" using orderD(2) [OF o] assms(2) by simp
  then show "xs ! i = ys ! i" using assms(4) by (auto simp: gather_def)
qed

lemma prod_gather: "is_order order n \<Longrightarrow> length ds = n \<Longrightarrow> prod_list (gather ds order) = prod_list (ds :: nat list)"
proof -
  assume o: "is_order order n" and n: "length ds = n"
  have "mset order = mset [0..<n]" using o by (metis is_order_def mset_sort)
  then have "mset (gather ds order) = image_mset (\<lambda>i. ds ! i) (mset [0..<n])" by (simp add: gather_def)
  also have "\<dots> = mset (map (\<lambda>i. ds ! i) [0..<n])" by simp
  also have "map (\<lambda>i. ds ! i) [0..<n] = ds" using n map_nth by blast
  finally show ?thesis by (metis prod_mset_prod_list)
qed

end
