(* ===== verification/Kv_Cache.thy ===== *)
theory Kv_Cache
  imports Packed_Layout Strided_View
begin

text \<open>
  Allocation and views of the worker's KV cache, \<open>src/vllm_hcu/v1/kv_cache.py\<close>.

  A backing buffer is a number with a byte size; a layer's cache is a backing and a strided view
  of it.  Shapes, strides and storage offsets of tensors are natural numbers, as in torch.
  \<open>torch.as_strided\<close> gives the view with the requested sizes, strides and offset; it also refuses
  views that leave the storage, which the bounds proved in \<open>Kv_Cache_Correct\<close> show to be needless.  vLLM's own
  \<open>_reshape_kv_cache\<close> and \<open>allocate_kv_cache\<close>, and the attention backends' shape and stride
  order, are parameters.
\<close>

section \<open>Data\<close>

record view_spec =
  vs_block_size :: int
  vs_storage_block_size :: "int option"
  vs_num_kv_heads :: nat
  vs_head_size :: nat
  vs_dtype_size :: nat
  vs_quant_none :: bool
  vs_is_tq :: bool
  vs_cache_dtype_str :: "string option"

record attn_backend =
  be_module :: string
  be_shape :: "nat \<Rightarrow> nat \<Rightarrow> nat \<Rightarrow> nat \<Rightarrow> string \<Rightarrow> nat list result"
  be_stride_order :: "nat list result"

record attn_group =
  ag_layer_names :: "string list"
  ag_spec :: view_spec
  ag_per_layer :: "(string, view_spec) dict option"
  ag_backend :: attn_backend
  ag_kv_cache_group_id :: nat

type_synonym layer_view = "nat \<times> tview"

section \<open>FlashAttention views\<close>

definition hcu_flash_attn_module :: string where
  "hcu_flash_attn_module = ''vllm_hcu.v1.attention.backends.flash_attn''"

definition is_hcu_flash_attn_backend :: "attn_backend \<Rightarrow> bool" where
  "is_hcu_flash_attn_backend be \<longleftrightarrow> be_module be = hcu_flash_attn_module"

definition uses_hcu_flash_attn :: "attn_group list list \<Rightarrow> bool" where
  "uses_hcu_flash_attn groups = list_ex (list_ex (\<lambda>g. is_hcu_flash_attn_backend (ag_backend g))) groups"

definition has_packed_kv_descriptors :: "kv_tensor list \<Rightarrow> bool" where
  "has_packed_kv_descriptors tensors = list_ex (\<lambda>t. 0 < kt_block_stride t) tensors"

definition repr_nats :: "nat list \<Rightarrow> string" where
  "repr_nats xs = ''('' @ py_join '', '' (map str_nat xs) @ (if length xs = 1 then '','' else []) @ '')''"

definition err_flash_shape :: "nat list \<Rightarrow> nat list \<Rightarrow> exn" where
  "err_flash_shape got expected = Exn ValueError
     (''Unexpected official FlashAttention KV-cache shape: got '' @ repr_nats got @ '', expected [B, ''
        @ repr_nats expected @ '']'')"

definition err_stride_order :: "nat list \<Rightarrow> exn" where
  "err_stride_order so = Exn ValueError (''Invalid HCU KV-cache stride order: '' @ repr_nats so)"

definition err_small_stride :: "nat \<Rightarrow> nat \<Rightarrow> exn" where
  "err_small_stride st page = Exn ValueError
     (''Official KV-cache block stride is smaller than one HCU page: stride='' @ str_nat st @ '', page='' @ str_nat page)"

definition reshape_hcu_flash_cache :: "tview \<Rightarrow> nat \<Rightarrow> nat \<Rightarrow> nat \<Rightarrow> nat list \<Rightarrow> tview result" where
  "reshape_hcu_flash_cache cache block_size num_kv_heads head_size stride_order =
     (let expected = [num_kv_heads, block_size, 2 * head_size]
      in if length (tv_size cache) \<noteq> 4 \<or> tl (tv_size cache) \<noteq> expected
         then Inl (err_flash_shape (tv_size cache) expected)
         else let logical_shape = [hd (tv_size cache), 2, block_size, num_kv_heads, head_size]
              in if sort stride_order \<noteq> [0..<length logical_shape] then Inl (err_stride_order stride_order)
                 else let physical_shape = gather logical_shape stride_order;
                          physical_stride = running_strides physical_shape;
                          logical_stride = map (\<lambda>i. physical_stride ! index_of stride_order i) [0..<length stride_order];
                          page = 2 * block_size * num_kv_heads * head_size
                      in if hd (tv_stride cache) < page then Inl (err_small_stride (hd (tv_stride cache)) page)
                         else Inr \<lparr>tv_size = logical_shape, tv_stride = hd (tv_stride cache) # tl logical_stride,
                                  tv_offset = tv_offset cache\<rparr>)"

text \<open>\<open>dict[name]\<close> of a missing name\<close>

definition err_key :: "string \<Rightarrow> exn" where
  "err_key n = Exn KeyError (py_repr n)"

definition spec_of_layer :: "attn_group \<Rightarrow> string \<Rightarrow> view_spec result" where
  "spec_of_layer g n =
     (case ag_per_layer g of
        None \<Rightarrow> Inr (ag_spec g)
      | Some d \<Rightarrow> (case dict_get d n of None \<Rightarrow> Inl (err_key n) | Some sp \<Rightarrow> Inr sp))"

definition reshape_flash_layer ::
    "nat \<Rightarrow> nat list \<Rightarrow> attn_group \<Rightarrow> (string, string) dict \<Rightarrow> string \<Rightarrow> (string, layer_view) dict \<Rightarrow> (string, layer_view) dict result" where
  "reshape_flash_layer block_size so g shared n caches =
     (if dict_get shared n \<noteq> None then Inr caches
      else and_then (spec_of_layer g n) (\<lambda>sp.
        case dict_get caches n of
          None \<Rightarrow> Inl (err_key n)
        | Some (b, v) \<Rightarrow>
            and_then (reshape_hcu_flash_cache v block_size (vs_num_kv_heads sp) (vs_head_size sp) so) (\<lambda>w.
              Inr (dict_set n (b, w) caches))))"

definition reshape_flash_group ::
    "nat list \<Rightarrow> (string, string) dict \<Rightarrow> attn_group \<Rightarrow> (string, layer_view) dict \<Rightarrow> (string, layer_view) dict result" where
  "reshape_flash_group block_sizes shared g caches =
     (if \<not> is_hcu_flash_attn_backend (ag_backend g) then Inr caches
      else and_then (py_index block_sizes (int (ag_kv_cache_group_id g))) (\<lambda>block_size.
             and_then (be_stride_order (ag_backend g)) (\<lambda>so.
               fold_result (reshape_flash_layer block_size so g shared) (ag_layer_names g) caches)))"

definition reshape_hcu_flash_caches ::
    "(string, layer_view) dict \<Rightarrow> attn_group list list \<Rightarrow> nat list \<Rightarrow> (string, string) dict \<Rightarrow> (string, layer_view) dict result" where
  "reshape_hcu_flash_caches caches groups block_sizes shared =
     fold_result (reshape_flash_group block_sizes shared) (concat groups) caches"

section \<open>Allocation\<close>

definition cache_tensor_layers :: "kv_tensor \<Rightarrow> string list result" where
  "cache_tensor_layers t =
     (if kt_names t = [] then raise ValueError ''KV cache tensor must name at least one layer'' else Inr (kt_names t))"

datatype backing_key = Single_packed int int | Packed nat int int

text \<open>\<open>al_sizes\<close>: the buffers allocated so far, by number.\<close>

record allocation =
  al_sizes :: "int list"
  al_raw :: "(string, nat) dict"
  al_desc :: "(string, kv_tensor) dict"
  al_shared :: "(backing_key, nat) dict"
  al_layouts :: "(nat, int \<times> int) dict"

definition new_backing :: "int \<Rightarrow> allocation \<Rightarrow> nat \<times> allocation" where
  "new_backing sz s = (length (al_sizes s), s\<lparr>al_sizes := al_sizes s @ [sz]\<rparr>)"

definition err_missing_backing :: exn where
  "err_missing_backing = Exn ValueError
     ''Packed KV descriptors must carry explicit backing_id metadata when more than one packed descriptor is present''"

definition err_layout_clash :: exn where
  "err_layout_clash = Exn ValueError ''Packed KV descriptors sharing backing_id disagree on size or block_stride''"

definition backing_key_of :: "kv_tensor \<Rightarrow> allocation \<Rightarrow> (backing_key \<times> allocation) result" where
  "backing_key_of t s =
     (let layout = (kt_size t, kt_block_stride t)
      in case kt_backing t of
           None \<Rightarrow> Inr (Single_packed (kt_size t) (kt_block_stride t), s)
         | Some b \<Rightarrow>
             if dict_get (al_layouts s) b \<noteq> None \<and> dict_get (al_layouts s) b \<noteq> Some layout then Inl err_layout_clash
             else Inr (Packed b (kt_size t) (kt_block_stride t), s\<lparr>al_layouts := dict_set b layout (al_layouts s)\<rparr>))"

definition take_backing :: "kv_tensor \<Rightarrow> allocation \<Rightarrow> (nat \<times> allocation) result" where
  "take_backing t s =
     (if 0 < kt_block_stride t
      then and_then (backing_key_of t s) (\<lambda>(key, s1).
             case dict_get (al_shared s1) key of
               Some b \<Rightarrow> Inr (b, s1)
             | None \<Rightarrow> (let (b, s2) = new_backing (kt_size t) s1
                        in Inr (b, s2\<lparr>al_shared := dict_set key b (al_shared s2)\<rparr>)))
      else Inr (new_backing (kt_size t) s))"

definition allocate_tensor :: "kv_tensor \<Rightarrow> allocation \<Rightarrow> allocation result" where
  "allocate_tensor t s =
     and_then (take_backing t s) (\<lambda>(b, s1).
     and_then (cache_tensor_layers t) (\<lambda>names.
       Inr (s1\<lparr>al_raw := fold (\<lambda>n. dict_set n b) names (al_raw s1),
               al_desc := fold (\<lambda>n. dict_set n t) names (al_desc s1)\<rparr>)))"

definition allocate_modern_raw_kv_cache :: "kv_tensor list \<Rightarrow> allocation result" where
  "allocate_modern_raw_kv_cache tensors =
     (let ids = map kt_backing (filter (\<lambda>t. 0 < kt_block_stride t) tensors)
      in if None \<in> set ids \<and> (1 < length ids \<or> list_ex (\<lambda>b. b \<noteq> None) ids) then Inl err_missing_backing
         else fold_result allocate_tensor tensors
                \<lparr>al_sizes = [], al_raw = [], al_desc = [], al_shared = [], al_layouts = []\<rparr>)"

section \<open>Packed views\<close>

definition err_packed :: "string \<Rightarrow> exn" where
  "err_packed m = Exn ValueError m"

definition order_index :: "nat list \<Rightarrow> nat \<Rightarrow> nat result" where
  "order_index so i =
     (if i \<in> set so then Inr (index_of so i) else raise ValueError (''tuple.index(x): x not in tuple''))"

definition cache_dtype_of :: "view_spec \<Rightarrow> string \<Rightarrow> string" where
  "cache_dtype_of sp cache_dtype =
     (if vs_quant_none sp \<and> \<not> vs_is_tq sp then ''auto''
      else case vs_cache_dtype_str sp of None \<Rightarrow> cache_dtype | Some s \<Rightarrow> if s = [] then cache_dtype else s)"

text \<open>One page: all dimensions but the block count.\<close>

definition page_bytes_of :: "nat \<Rightarrow> nat list \<Rightarrow> nat \<Rightarrow> nat" where
  "page_bytes_of dtype_size physical_shape block_dim =
     fold (\<lambda>(i, d) acc. if i = block_dim then acc else acc * d) (List.enumerate 0 physical_shape) dtype_size"

definition packed_view ::
    "nat list \<Rightarrow> nat list \<Rightarrow> nat \<Rightarrow> nat \<Rightarrow> nat \<Rightarrow> nat list \<Rightarrow> tview" where
  "packed_view physical_shape so block_dim stride0 off ids =
     (let physical_stride = (fresh_strides physical_shape)[block_dim := stride0]
      in \<lparr>tv_size = gather physical_shape ids, tv_stride = gather physical_stride ids, tv_offset = off\<rparr>)"

definition reshape_modern_packed_cache ::
    "nat \<Rightarrow> kv_tensor \<Rightarrow> view_spec \<Rightarrow> attn_backend \<Rightarrow> int \<Rightarrow> string \<Rightarrow> tview result" where
  "reshape_modern_packed_cache numel t sp be num_blocks cache_dtype =
     (let storage = (case vs_storage_block_size sp of None \<Rightarrow> vs_block_size sp | Some b \<Rightarrow> b);
          block_stride = kt_block_stride t; offset = kt_offset t; dsz = vs_dtype_size sp
      in if vs_block_size sp \<le> 0 \<or> storage \<le> 0 then Inl (err_packed ''KV storage block size must be positive'')
         else if block_stride \<le> 0 then Inl (err_packed ''Packed KV descriptor must provide a positive block stride'')
         else if int numel mod block_stride \<noteq> 0
         then Inl (err_packed ''Packed KV backing size must be divisible by its block stride'')
         else let kernel_blocks = int numel div block_stride
              in if kernel_blocks \<noteq> num_blocks
                 then Inl (err_packed (''Packed KV descriptor and config disagree on block count: descriptor=''
                        @ str_int kernel_blocks @ '' config='' @ str_int num_blocks))
                 else and_then (be_shape be (nat kernel_blocks) (nat storage) (vs_num_kv_heads sp) (vs_head_size sp)
                                 (cache_dtype_of sp cache_dtype)) (\<lambda>shape.
                      and_then (be_stride_order be) (\<lambda>so.
                        if length so \<noteq> length shape
                        then Inl (err_packed ''HCU KV-cache stride order does not match its shape'')
                        else if \<not> list_all (\<lambda>i. i < length shape) so then raise IndexError ''tuple index out of range''
                        else let physical_shape = gather shape so
                             in if block_stride mod int dsz \<noteq> 0 \<or> offset mod int dsz \<noteq> 0
                                then Inl (err_packed ''Packed KV offsets and strides must align to cache dtype'')
                                else and_then (order_index so 0) (\<lambda>block_dim.
                                  let page = int (page_bytes_of dsz physical_shape block_dim)
                                  in if block_stride < page
                                     then Inl (err_packed (''Packed KV backend view exceeds its per-block descriptor stride: view=''
                                            @ str_int page @ '' stride='' @ str_int block_stride))
                                     else if offset < 0 \<or> int numel < offset + (kernel_blocks - 1) * block_stride + page
                                     then Inl (err_packed ''Packed KV descriptor offset/view exceeds its backing allocation'')
                                     else and_then (map_result (order_index so) [0..<length so]) (\<lambda>ids.
                                            Inr (packed_view physical_shape so block_dim (nat (block_stride div int dsz))
                                                   (nat (offset div int dsz)) ids))))))"

section \<open>Initialisation\<close>

type_synonym plain_reshape = "kv_cache_config \<Rightarrow> (string, nat) dict \<Rightarrow> (string, layer_view) dict result"

definition plain_config :: "string list \<Rightarrow> kv_cache_config \<Rightarrow> kv_cache_config" where
  "plain_config packed_layers cfg =
     cfg\<lparr>kc_tensors := filter (\<lambda>t. kt_block_stride t \<le> 0) (kc_tensors cfg),
         kc_groups := filter (\<lambda>g. g_layer_names g \<noteq> [])
           (map (\<lambda>g. g\<lparr>g_layer_names := filter (\<lambda>n. n \<notin> set packed_layers) (g_layer_names g)\<rparr>) (kc_groups cfg))\<rparr>"

text \<open>The packed layers of all groups in order, with the set of layers reshaped.\<close>

definition reshape_packed_layer ::
    "allocation \<Rightarrow> string list \<Rightarrow> int \<Rightarrow> string \<Rightarrow> attn_group \<times> string \<Rightarrow> (string, layer_view) dict \<times> string list
      \<Rightarrow> ((string, layer_view) dict \<times> string list) result" where
  "reshape_packed_layer al packed_layers num_blocks cache_dtype = (\<lambda>(g, n) (kv, done).
     if n \<notin> set packed_layers then Inr (kv, done)
     else and_then (spec_of_layer g n) (\<lambda>sp.
       case (dict_get (al_raw al) n, dict_get (al_desc al) n) of
         (Some b, Some t) \<Rightarrow>
           and_then (reshape_modern_packed_cache (nat (al_sizes al ! b)) t sp (ag_backend g) num_blocks cache_dtype) (\<lambda>v.
             Inr (dict_set n (b, v) kv, n # done))
       | _ \<Rightarrow> Inl (err_key n)))"

definition err_not_reshaped :: "string list \<Rightarrow> exn" where
  "err_not_reshaped missing = Exn ValueError
     (''Packed KV descriptors could not be reshaped by their attention backends: '' @ py_repr_list missing)"

definition share_layer :: "string \<times> string \<Rightarrow> (string, layer_view) dict \<Rightarrow> (string, layer_view) dict result" where
  "share_layer = (\<lambda>(n, target) kv.
     case dict_get kv target of None \<Rightarrow> Inl (err_key target) | Some v \<Rightarrow> Inr (dict_set n v kv))"

definition init_modern_hcu_kv_cache ::
    "plain_reshape \<Rightarrow> (string, string) dict \<Rightarrow> attn_group list list \<Rightarrow> kv_cache_config \<Rightarrow> int \<Rightarrow> string
      \<Rightarrow> (string, layer_view) dict result" where
  "init_modern_hcu_kv_cache reshape shared groups cfg num_blocks cache_dtype =
     and_then (allocate_modern_raw_kv_cache (kc_tensors cfg)) (\<lambda>al.
     and_then
       (let packed_layers = map fst (filter (\<lambda>(n, t). 0 < kt_block_stride t) (al_desc al))
        in if packed_layers = [] then reshape cfg (al_raw al)
           else and_then
                  (if filter (\<lambda>t. kt_block_stride t \<le> 0) (kc_tensors cfg) = [] then Inr []
                   else reshape (plain_config packed_layers cfg)
                          (filter (\<lambda>(n, b). n \<notin> set packed_layers) (al_raw al))) (\<lambda>kv0.
                and_then (fold_result (reshape_packed_layer al packed_layers num_blocks cache_dtype)
                    (concat (map (\<lambda>g. map (\<lambda>n. (g, n)) (ag_layer_names g)) (concat groups))) (kv0, [])) (\<lambda>(kv, done).
                  if set done \<noteq> set packed_layers
                  then Inl (err_not_reshaped (sort (remdups (filter (\<lambda>n. n \<notin> set done) packed_layers))))
                  else Inr kv)))
       (fold_result share_layer shared))"

definition init_legacy_hcu_kv_cache ::
    "(string, layer_view) dict result \<Rightarrow> (string, string) dict \<Rightarrow> attn_group list list \<Rightarrow> nat list \<Rightarrow> (string, layer_view) dict result" where
  "init_legacy_hcu_kv_cache allocated shared groups block_sizes =
     and_then allocated (\<lambda>caches.
     and_then (reshape_hcu_flash_caches caches groups block_sizes shared) (fold_result share_layer shared))"

text \<open>The replacement allocator defers to vLLM's unless flash groups or packed descriptors need it.\<close>

definition init_kv_cache ::
    "attn_group list list option \<Rightarrow> kv_tensor list \<Rightarrow> 'r result \<Rightarrow> 'r result \<Rightarrow> 'r result" where
  "init_kv_cache groups tensors official hcu =
     (case groups of
        None \<Rightarrow> hcu
      | Some gs \<Rightarrow>
          if \<not> uses_hcu_flash_attn gs \<and> \<not> has_packed_kv_descriptors tensors then official else hcu)"

end
