(* ===== verification/Kv_Cache_Correct.thy ===== *)
theory Kv_Cache_Correct
  imports Kv_Cache Packed_Correct
begin

text \<open>
  The views of the KV cache are exact: a view addresses one page per block, inside its backing
  buffer, no two indices share an element, and buffers are shared exactly between descriptors
  that carry the same backing identity.
\<close>

section \<open>Views whose block dimension comes first\<close>

lemma index_of_hd [simp]: "index_of (i # so) i = 0"
  by (simp add: index_of_def)

lemma index_of_tl: "j \<noteq> i \<Longrightarrow> index_of (i # so) j = Suc (index_of so j)"
  by (simp add: index_of_def)

text \<open>The part of an index inside its page.\<close>

definition in_page :: "nat list \<Rightarrow> nat list \<Rightarrow> nat list \<Rightarrow> nat" where
  "in_page shape so idx = dot (gather idx so) (row_major (gather shape so))"

lemma block_view:
  assumes o: "is_order (0 # so) n" and sh: "length shape = n" and idx: "in_shape idx shape"
  shows "dot idx (map (\<lambda>i. (s0 # row_major (gather shape so)) ! index_of (0 # so) i) [0..<n]) = hd idx * s0 + in_page shape so idx"
    and "in_page shape so idx < prod_list (gather shape so)"
    and "hd idx < hd shape" and "prod_list shape = hd shape * prod_list (gather shape so)"
proof -
  have len: "length idx = n" "length so + 1 = n" using in_shape_length [OF idx] sh orderD(1) [OF o] by simp_all
  then have ne: "idx \<noteq> []" "shape \<noteq> []" using sh by auto
  have g: "in_shape (gather idx (0 # so)) (gather shape (0 # so))" by (rule in_shape_gather [OF o sh idx])
  then have g': "in_shape (gather idx so) (gather shape so)" "idx ! 0 < shape ! 0" by (simp_all add: gather_def)
  show "in_page shape so idx < prod_list (gather shape so)" unfolding in_page_def by (rule row_major_bound [OF g'(1)])
  show "hd idx < hd shape" using g'(2) ne by (simp add: hd_conv_nth)
  have st: "length (s0 # row_major (gather shape so)) = n" using len by (simp add: gather_def)
  have "dot idx (map (\<lambda>i. (s0 # row_major (gather shape so)) ! index_of (0 # so) i) [0..<n])
      = dot (gather idx (0 # so)) (s0 # row_major (gather shape so))" by (rule dot_order [OF o len(1) st])
  also have "\<dots> = hd idx * s0 + in_page shape so idx" using ne by (simp add: in_page_def gather_def hd_conv_nth)
  finally show "dot idx (map (\<lambda>i. (s0 # row_major (gather shape so)) ! index_of (0 # so) i) [0..<n]) = hd idx * s0 + in_page shape so idx" .
  have "prod_list shape = prod_list (gather shape (0 # so))" by (rule prod_gather [OF o sh, symmetric])
  also have "\<dots> = hd shape * prod_list (gather shape so)" using ne by (simp add: gather_def hd_conv_nth)
  finally show "prod_list shape = hd shape * prod_list (gather shape so)" .
qed

lemma block_view_inj:
  assumes o: "is_order (0 # so) n" and sh: "length shape = n" and idx: "in_shape idx shape" "in_shape jdx shape"
    and s0: "prod_list (gather shape so) \<le> s0" and eq: "hd idx * s0 + in_page shape so idx = hd jdx * s0 + in_page shape so jdx"
  shows "idx = jdx"
proof -
  note vi = block_view [OF o sh idx(1)] and vj = block_view [OF o sh idx(2)]
  have b: "in_page shape so idx < s0" "in_page shape so jdx < s0" using vi(2) vj(2) s0 by simp_all
  have "(in_page shape so idx + hd idx * s0) div s0 = (in_page shape so jdx + hd jdx * s0) div s0" using eq by (simp add: add.commute)
  then have h: "hd idx = hd jdx" using b by simp
  then have p: "in_page shape so idx = in_page shape so jdx" using eq by simp
  have len: "length idx = n" "length jdx = n" "n \<noteq> 0" using in_shape_length [OF idx(1)] in_shape_length [OF idx(2)] sh orderD(1) [OF o] by auto
  have gi: "in_shape (gather idx (0 # so)) (gather shape (0 # so))" "in_shape (gather jdx (0 # so)) (gather shape (0 # so))"
    by (rule in_shape_gather [OF o sh idx(1)], rule in_shape_gather [OF o sh idx(2)])
  then have "gather idx so = gather jdx so" using row_major_inj [of "gather idx so" "gather shape so" "gather jdx so"] p
    by (simp add: gather_def in_page_def)
  moreover have "idx \<noteq> []" "jdx \<noteq> []" using len by auto
  ultimately have "gather idx (0 # so) = gather jdx (0 # so)" using h by (simp add: gather_def hd_conv_nth)
  then show ?thesis by (rule gather_inj [OF o len(1,2)])
qed

section \<open>FlashAttention views\<close>

lemma flash_view_form:
  assumes r: "reshape_hcu_flash_cache cache bs h d (0 # so) = Inr v"
  shows "is_order (0 # so) 5" and "tv_size v = [hd (tv_size cache), 2, bs, h, d]" and "tv_offset v = tv_offset cache"
    and "tv_stride v = map (\<lambda>i. (hd (tv_stride cache) # row_major (gather (tv_size v) so)) ! index_of (0 # so) i) [0..<5]"
    and "prod_list (gather (tv_size v) so) = 2 * bs * h * d" and "2 * bs * h * d \<le> hd (tv_stride cache)"
proof -
  let ?shape = "[hd (tv_size cache), 2, bs, h, d]" and ?s0 = "hd (tv_stride cache)"
  let ?ps = "row_major (gather ?shape (0 # so))"
  have o: "is_order (0 # so) 5" using r by (auto simp: reshape_hcu_flash_cache_def Let_def is_order_def numeral_eq_Suc split: if_splits)
  then show "is_order (0 # so) 5" .
  have len: "length (0 # so) = 5" by (rule orderD(1) [OF o])
  have v: "v = \<lparr>tv_size = ?shape, tv_stride = ?s0 # tl (map (\<lambda>i. ?ps ! index_of (0 # so) i) [0..<length (0 # so)]), tv_offset = tv_offset cache\<rparr>"
    and page: "2 * bs * h * d \<le> ?s0"
    using r by (auto simp only: reshape_hcu_flash_cache_def Let_def running_strides_row_major sum.inject sum.distinct split: if_splits)
  then show "tv_size v = ?shape" "tv_offset v = tv_offset cache" "2 * bs * h * d \<le> ?s0" by simp_all
  have ps: "?ps = prod_list (gather ?shape so) # row_major (gather ?shape so)" by (simp add: gather_def)
  have "index_of (0 # so) i = Suc (index_of so i)" if "i \<noteq> 0" for i using that by (rule index_of_tl)
  then show "tv_stride v = map (\<lambda>i. (?s0 # row_major (gather (tv_size v) so)) ! index_of (0 # so) i) [0..<5]"
    unfolding v len ps by (simp add: upt_rec)
  have "prod_list (gather (1 # tl ?shape) (0 # so)) = prod_list (1 # tl ?shape)" by (rule prod_gather [OF o]) simp
  then have "prod_list (gather (1 # tl ?shape) so) = 2 * bs * h * d" by (simp add: gather_def mult.assoc)
  moreover have "gather (1 # tl ?shape) so = gather ?shape so"
  proof -
    have "i \<noteq> 0" if "i \<in> set so" for i using orderD(3) [OF o] that by (metis distinct.simps(2))
    then show ?thesis by (auto simp: gather_def nth_Cons')
  qed
  ultimately show "prod_list (gather (tv_size v) so) = 2 * bs * h * d" unfolding v by (simp only: tview.simps)
qed

lemma flash_view_facts:
  assumes "reshape_hcu_flash_cache cache bs h d (0 # so) = Inr v" and "in_shape idx (tv_size v)" and "in_shape jdx (tv_size v)"
  shows "tv_size v = [hd (tv_size cache), 2, bs, h, d]"
    and "tv_offset cache + hd idx * hd (tv_stride cache) \<le> address v idx"
    and "address v idx < tv_offset cache + hd idx * hd (tv_stride cache) + 2 * bs * h * d"
    and "address v idx = address v jdx \<longleftrightarrow> idx = jdx"
proof -
  note f = flash_view_form [OF assms(1)]
  have len: "length (tv_size v) = 5" using f(2) by simp
  have a: "address v i = tv_offset cache + (hd i * hd (tv_stride cache) + in_page (tv_size v) so i)" if "in_shape i (tv_size v)" for i
    unfolding address_def f(3) by (subst f(4)) (simp only: block_view(1) [OF f(1) len that])
  show "tv_size v = [hd (tv_size cache), 2, bs, h, d]" by (rule f(2))
  show "tv_offset cache + hd idx * hd (tv_stride cache) \<le> address v idx" using a [OF assms(2)] by simp
  show "address v idx < tv_offset cache + hd idx * hd (tv_stride cache) + 2 * bs * h * d"
    using a [OF assms(2)] block_view(2) [OF f(1) len assms(2)] f(5) by simp
  show "address v idx = address v jdx \<longleftrightarrow> idx = jdx"
    using a [OF assms(2)] a [OF assms(3)] block_view_inj [OF f(1) len assms(2,3), of "hd (tv_stride cache)"] f(5,6) by auto
qed

text \<open>
  The FlashAttention view of an official cache: with the block dimension first in the stride
  order (both layouts of the backend), an index of block \<open>b\<close> addresses the page that starts at
  \<open>b\<close> times the official block stride and stays inside it, and different indices address different
  elements.
\<close>

theorem flash_view_exact:
  assumes "reshape_hcu_flash_cache cache bs h d (0 # so) = Inr v" and "in_shape idx (tv_size v)" and "in_shape jdx (tv_size v)"
  shows "tv_size v = [hd (tv_size cache), 2, bs, h, d]
    \<and> tv_offset cache + hd idx * hd (tv_stride cache) \<le> address v idx
    \<and> address v idx < tv_offset cache + hd idx * hd (tv_stride cache) + 2 * bs * h * d
    \<and> (address v idx = address v jdx \<longleftrightarrow> idx = jdx)"
  using flash_view_facts [OF assms] by blast

theorem flash_view_exact_witness:
  "\<exists>v. reshape_hcu_flash_cache \<lparr>tv_size = [3, 2, 16, 16], tv_stride = [1024, 256, 16, 1], tv_offset = 4\<rparr> 16 2 8 [0, 1, 3, 2, 4] = Inr v
    \<and> address v [1, 0, 0, 0, 0] = 1028 \<and> (address v [1, 0, 2, 1, 3] = address v [1, 1, 2, 1, 3] \<longleftrightarrow> False)"
proof -
  let ?c = "\<lparr>tv_size = [3, 2, 16, 16], tv_stride = [1024, 256, 16, 1], tv_offset = 4\<rparr>"
  let ?v = "\<lparr>tv_size = [3, 2, 16, 2, 8], tv_stride = [1024, 256, 8, 128, 1], tv_offset = 4\<rparr>"
  have v: "reshape_hcu_flash_cache ?c 16 2 8 [0, 1, 3, 2, 4] = Inr ?v" by code_simp
  have "in_shape [1, 0, 2, 1, 3] (tv_size ?v)" "in_shape [1, 1, 2, 1, 3] (tv_size ?v)" by simp_all
  from flash_view_exact [OF v this] have "address ?v [1, 0, 2, 1, 3] \<noteq> address ?v [1, 1, 2, 1, 3]" by simp
  moreover have "address ?v [1, 0, 0, 0, 0] = 1028" by (simp add: address_def)
  ultimately show ?thesis using v by blast
qed

section \<open>Packed views\<close>

lemma order_from_indices:
  assumes "map_result (order_index so) [0..<length so] = Inr ids"
  shows "is_order so (length so)" and "ids = map (index_of so) [0..<length so]"
proof -
  have "list_all2 (\<lambda>i k. order_index so i = Inr k) [0..<length so] ids" using assms by (simp add: map_result_Inr_iff)
  then have each: "i \<in> set so \<and> ids ! i = index_of so i" if "i < length so" for i
    using that by (auto simp: list_all2_conv_all_nth order_index_def split: if_splits)
  have len: "length ids = length so" using map_result_length [OF assms] by simp
  show "ids = map (index_of so) [0..<length so]" using each len by (intro nth_equalityI) auto
  have sub: "{0..<length so} \<subseteq> set so" using each by auto
  have fin: "finite (set so)" "card (set so) \<le> length so" by (simp_all add: card_length)
  then have "set so = {0..<length so}" using card_seteq [OF fin(1) sub] by simp
  moreover from this have "distinct so" by (metis card_atLeastLessThan card_distinct diff_zero)
  ultimately show "is_order so (length so)" unfolding is_order_def
    by (metis atLeastLessThan_upt sorted_list_of_set_range sorted_list_of_set_sort_remdups distinct_remdups_id)
qed

lemma gather_indices:
  assumes o: "is_order so n" and sh: "length shape = n"
  shows "gather (gather shape so) (map (index_of so) [0..<n]) = shape"
proof (rule nth_equalityI)
  show "length (gather (gather shape so) (map (index_of so) [0..<n])) = length shape" using sh by (simp add: gather_def)
  fix i assume i: "i < length (gather (gather shape so) (map (index_of so) [0..<n]))"
  then have "i \<in> set so" using orderD(2) [OF o] by (simp add: gather_def)
  then have "index_of so i < length so" "so ! index_of so i = i" using nth_index_of by blast+
  then show "gather (gather shape so) (map (index_of so) [0..<n]) ! i = shape ! i" using i by (simp add: gather_def)
qed

lemma page_bytes_first: "page_bytes_of dsz (d # ds) 0 = dsz * prod_list ds"
proof -
  have "fold (\<lambda>(i, d) acc. if i = 0 then acc else acc * d) (List.enumerate (Suc k) ds) a = a * prod_list ds" for k and a :: nat
    by (induction ds arbitrary: k a) (simp_all add: mult.assoc)
  then show ?thesis by (simp add: page_bytes_of_def)
qed

text \<open>The backend's contract: its shape starts with the number of blocks.\<close>

definition block_first :: "attn_backend \<Rightarrow> bool" where
  "block_first be \<longleftrightarrow> (\<forall>n b h d s shape. be_shape be n b h d s = Inr shape \<longrightarrow> shape \<noteq> [] \<and> hd shape = n)"

lemma packed_view_form:
  assumes r: "reshape_modern_packed_cache numel t sp be nb cd = Inr v" and so: "be_stride_order be = Inr (0 # so)"
    and be: "block_first be"
  obtains shape where "tv_size v = shape" and "is_order (0 # so) (length shape)" and "shape \<noteq> []"
    and "int (hd shape) * kt_block_stride t = int numel" and "0 < kt_block_stride t" and "0 \<le> kt_offset t"
    and "int (vs_dtype_size sp) dvd kt_block_stride t" and "int (vs_dtype_size sp) dvd kt_offset t"
    and "int (vs_dtype_size sp * prod_list (gather shape so)) \<le> kt_block_stride t"
    and "kt_offset t + (int (hd shape) - 1) * kt_block_stride t + int (vs_dtype_size sp * prod_list (gather shape so)) \<le> int numel"
    and "tv_offset v = nat (kt_offset t div int (vs_dtype_size sp))"
    and "list_all (\<lambda>d. 0 < d) shape \<Longrightarrow> tv_stride v = map (\<lambda>i. (nat (kt_block_stride t div int (vs_dtype_size sp))
       # row_major (gather shape so)) ! index_of (0 # so) i) [0..<length shape]"
proof -
  let ?st = "kt_block_stride t" and ?dsz = "vs_dtype_size sp" and ?off = "kt_offset t"
  obtain shape ids where st: "0 < ?st" and dv: "int numel mod ?st = 0"
    and sh: "be_shape be (nat (int numel div ?st)) (nat (case vs_storage_block_size sp of None \<Rightarrow> vs_block_size sp | Some b \<Rightarrow> b))
          (vs_num_kv_heads sp) (vs_head_size sp) (cache_dtype_of sp cd) = Inr shape"
    and len: "length (0 # so) = length shape" and al: "?st mod int ?dsz = 0" "?off mod int ?dsz = 0"
    and page: "int (page_bytes_of ?dsz (gather shape (0 # so)) 0) \<le> ?st"
    and off: "0 \<le> ?off" "?off + (int numel div ?st - 1) * ?st + int (page_bytes_of ?dsz (gather shape (0 # so)) 0) \<le> int numel"
    and ids: "map_result (order_index (0 # so)) [0..<length (0 # so)] = Inr ids"
    and v: "v = packed_view (gather shape (0 # so)) (0 # so) 0 (nat (?st div int ?dsz)) (nat (?off div int ?dsz)) ids"
  proof -
    obtain shape ids where f: "be_shape be (nat (int numel div ?st)) (nat (case vs_storage_block_size sp of None \<Rightarrow> vs_block_size sp | Some b \<Rightarrow> b))
          (vs_num_kv_heads sp) (vs_head_size sp) (cache_dtype_of sp cd) = Inr shape"
        "map_result (order_index (0 # so)) [0..<length (0 # so)] = Inr ids"
        "v = packed_view (gather shape (0 # so)) (0 # so) 0 (nat (?st div int ?dsz)) (nat (?off div int ?dsz)) ids"
      using r so by (auto simp: reshape_modern_packed_cache_def Let_def and_then_Inr_iff order_index_def [of "0 # so" 0]
          split: if_splits simp del: list.size upt_Suc)
    have g: "0 < ?st" "int numel mod ?st = 0" "length (0 # so) = length shape" "?st mod int ?dsz = 0" "?off mod int ?dsz = 0"
        "int (page_bytes_of ?dsz (gather shape (0 # so)) 0) \<le> ?st" "0 \<le> ?off"
        "?off + (int numel div ?st - 1) * ?st + int (page_bytes_of ?dsz (gather shape (0 # so)) 0) \<le> int numel"
      using r so f(1) by (auto simp: reshape_modern_packed_cache_def Let_def and_then_Inr_iff order_index_def [of "0 # so" 0] not_le not_less
          split: if_splits simp del: list.size upt_Suc)
    show thesis using f g by (intro that [of shape ids]) assumption+
  qed
  have hd: "shape \<noteq> []" "hd shape = nat (int numel div ?st)" using sh be unfolding block_first_def by blast+
  have blocks: "int (hd shape) = int numel div ?st" using hd(2) st by (simp add: pos_imp_zdiv_nonneg_iff)
  note o = order_from_indices [OF ids]
  have g: "gather shape (0 # so) = hd shape # gather shape so" using hd(1) by (simp add: gather_def hd_conv_nth)
  have pb: "page_bytes_of ?dsz (gather shape (0 # so)) 0 = ?dsz * prod_list (gather shape so)" unfolding g by (rule page_bytes_first)
  show thesis
  proof (rule that [of shape])
    show "tv_size v = shape" unfolding v o(2) using gather_indices [OF o(1) len [symmetric]] by (simp only: packed_view_def Let_def tview.simps)
    show "is_order (0 # so) (length shape)" using o(1) len by simp
    show "shape \<noteq> []" by (rule hd(1))
    show "int (hd shape) * ?st = int numel" using blocks div_mult_mod_eq [of "int numel" ?st] dv by simp
    show "0 < ?st" "0 \<le> ?off" by (rule st, rule off(1))
    show "int ?dsz dvd ?st" "int ?dsz dvd ?off" using al by auto
    show "int (?dsz * prod_list (gather shape so)) \<le> ?st" using page pb by simp
    show "?off + (int (hd shape) - 1) * ?st + int (?dsz * prod_list (gather shape so)) \<le> int numel" using off(2) pb blocks by simp
    show "tv_offset v = nat (?off div int ?dsz)" by (simp add: v packed_view_def Let_def)
    assume pos: "list_all (\<lambda>d. 0 < d) shape"
    have "i < length shape" if "i \<in> set so" for i using orderD(2) [OF o(1)] len that by auto
    then have "list_all (\<lambda>d. 0 < d) (gather shape (0 # so))" using pos hd(1) by (auto simp: gather_def list_all_iff)
    then have "fresh_strides (gather shape (0 # so)) = prod_list (gather shape so) # row_major (gather shape so)"
      using fresh_strides_pos g by simp
    then show "tv_stride v = map (\<lambda>i. (nat (?st div int ?dsz) # row_major (gather shape so)) ! index_of (0 # so) i) [0..<length shape]"
      unfolding v o(2) using len by (simp add: packed_view_def Let_def gather_def)
  qed
qed

lemma packed_address:
  assumes r: "reshape_modern_packed_cache numel t sp be nb cd = Inr v" and so: "be_stride_order be = Inr (0 # so)"
    and be: "block_first be" and dsz: "0 < vs_dtype_size sp" and idx: "in_shape idx (tv_size v)"
  shows "int (address v idx * vs_dtype_size sp) = kt_offset t + int (hd idx) * kt_block_stride t
           + int (in_page (tv_size v) so idx * vs_dtype_size sp)"
    and "in_page (tv_size v) so idx < prod_list (gather (tv_size v) so)"
    and "int (hd idx + 1) * kt_block_stride t \<le> int numel"
    and "kt_offset t + int (hd idx) * kt_block_stride t + int (vs_dtype_size sp * prod_list (gather (tv_size v) so)) \<le> int numel"
proof -
  obtain shape where f: "tv_size v = shape" "is_order (0 # so) (length shape)" "shape \<noteq> []"
      "int (hd shape) * kt_block_stride t = int numel" "0 < kt_block_stride t" "0 \<le> kt_offset t"
      "int (vs_dtype_size sp) dvd kt_block_stride t" "int (vs_dtype_size sp) dvd kt_offset t"
      "int (vs_dtype_size sp * prod_list (gather shape so)) \<le> kt_block_stride t"
      "kt_offset t + (int (hd shape) - 1) * kt_block_stride t + int (vs_dtype_size sp * prod_list (gather shape so)) \<le> int numel"
      "tv_offset v = nat (kt_offset t div int (vs_dtype_size sp))"
    and st: "list_all (\<lambda>d. 0 < d) shape \<Longrightarrow> tv_stride v = map (\<lambda>i. (nat (kt_block_stride t div int (vs_dtype_size sp))
       # row_major (gather shape so)) ! index_of (0 # so) i) [0..<length shape]"
    by (rule packed_view_form [OF r so be]) blast
  let ?d = "vs_dtype_size sp" and ?s = "nat (kt_block_stride t div int (vs_dtype_size sp))"
  have idx': "in_shape idx shape" using idx f(1) by simp
  note b = block_view [OF f(2) refl idx']
  have s0: "int (?s * ?d) = kt_block_stride t" using f(5,7) dsz by (simp add: pos_imp_zdiv_nonneg_iff)
  have off: "int (tv_offset v * ?d) = kt_offset t" using f(6,8,11) dsz by (simp add: pos_imp_zdiv_nonneg_iff)
  have "address v idx = tv_offset v + (hd idx * ?s + in_page shape so idx)"
    unfolding address_def st [OF in_shape_pos [OF idx']] b(1) ..
  then have "int (address v idx * ?d) = int (tv_offset v * ?d) + int (hd idx) * int (?s * ?d) + int (in_page shape so idx * ?d)"
    by (simp add: algebra_simps)
  then show "int (address v idx * ?d) = kt_offset t + int (hd idx) * kt_block_stride t + int (in_page (tv_size v) so idx * ?d)"
    unfolding s0 off f(1) .
  show "in_page (tv_size v) so idx < prod_list (gather (tv_size v) so)" unfolding f(1) by (rule b(2))
  have h: "int (hd idx) + 1 \<le> int (hd shape)" using b(3) by simp
  then have "(int (hd idx) + 1) * kt_block_stride t \<le> int (hd shape) * kt_block_stride t" using f(5) by (intro mult_right_mono) auto
  then show "int (hd idx + 1) * kt_block_stride t \<le> int numel" using f(4) by (simp add: add.commute)
  have "int (hd idx) * kt_block_stride t \<le> (int (hd shape) - 1) * kt_block_stride t" using h f(5) by (intro mult_right_mono) auto
  then show "kt_offset t + int (hd idx) * kt_block_stride t + int (?d * prod_list (gather (tv_size v) so)) \<le> int numel"
    using f(10) unfolding f(1) by linarith
qed

lemma packed_element:
  assumes "reshape_modern_packed_cache numel t sp be nb cd = Inr v" and "be_stride_order be = Inr (0 # so)"
    and "block_first be" and "0 < vs_dtype_size sp" and "in_shape idx (tv_size v)"
  shows "kt_offset t + int (hd idx) * kt_block_stride t \<le> int (address v idx * vs_dtype_size sp)"
    and "int (address v idx * vs_dtype_size sp) + int (vs_dtype_size sp)
       \<le> kt_offset t + int (hd idx) * kt_block_stride t + int (vs_dtype_size sp * prod_list (gather (tv_size v) so))"
proof -
  note a = packed_address [OF assms]
  let ?d = "vs_dtype_size sp"
  show "kt_offset t + int (hd idx) * kt_block_stride t \<le> int (address v idx * ?d)" using a(1) by simp
  have "(in_page (tv_size v) so idx + 1) * ?d \<le> prod_list (gather (tv_size v) so) * ?d"
    using a(2) by (intro mult_right_mono) auto
  then have "int (in_page (tv_size v) so idx * ?d + ?d) \<le> int (prod_list (gather (tv_size v) so) * ?d)" by (simp only: of_nat_le_iff) simp
  then show "int (address v idx * ?d) + int ?d \<le> kt_offset t + int (hd idx) * kt_block_stride t + int (?d * prod_list (gather (tv_size v) so))"
    unfolding a(1) by (simp add: mult.commute)
qed

lemma packed_view_facts:
  assumes "reshape_modern_packed_cache numel t sp be nb cd = Inr v" and "be_stride_order be = Inr (0 # so)"
    and "block_first be" and "0 < vs_dtype_size sp" and "in_shape idx (tv_size v)" and "in_shape jdx (tv_size v)"
  shows "kt_offset t + int (hd idx) * kt_block_stride t \<le> int (address v idx * vs_dtype_size sp)"
    and "int (address v idx * vs_dtype_size sp) + int (vs_dtype_size sp)
       \<le> kt_offset t + int (hd idx) * kt_block_stride t + int (vs_dtype_size sp * prod_list (gather (tv_size v) so))"
    and "kt_offset t + int (hd idx) * kt_block_stride t + int (vs_dtype_size sp * prod_list (gather (tv_size v) so)) \<le> int numel"
    and "address v idx = address v jdx \<longleftrightarrow> idx = jdx"
proof -
  note a = packed_address [OF assms(1-4)]
  let ?d = "vs_dtype_size sp"
  show "kt_offset t + int (hd idx) * kt_block_stride t \<le> int (address v idx * ?d)"
    "int (address v idx * ?d) + int ?d \<le> kt_offset t + int (hd idx) * kt_block_stride t + int (?d * prod_list (gather (tv_size v) so))"
    by (rule packed_element [OF assms(1-5)])+
  show "kt_offset t + int (hd idx) * kt_block_stride t + int (?d * prod_list (gather (tv_size v) so)) \<le> int numel" by (rule a(4) [OF assms(5)])
  show "address v idx = address v jdx \<longleftrightarrow> idx = jdx"
  proof
    assume eq: "address v idx = address v jdx"
    obtain shape where f: "tv_size v = shape" "is_order (0 # so) (length shape)"
        "int ?d dvd kt_block_stride t" "int (?d * prod_list (gather shape so)) \<le> kt_block_stride t" "0 < kt_block_stride t"
      by (rule packed_view_form [OF assms(1-3)]) blast
    obtain k where k: "kt_block_stride t = int ?d * k" using f(3) by blast
    then have kp: "0 < k" using f(5) assms(4) by (simp add: zero_less_mult_iff)
    have sk: "prod_list (gather shape so) \<le> nat k" using f(4) k kp assms(4) by (simp add: mult_le_cancel_left_pos nat_le_iff le_nat_iff)
    have "int ?d * (int (hd idx) * k + int (in_page shape so idx)) = int ?d * (int (hd jdx) * k + int (in_page shape so jdx))"
      using a(1) [OF assms(5)] a(1) [OF assms(6)] eq k unfolding f(1) by (simp add: algebra_simps)
    then have "int (hd idx) * k + int (in_page shape so idx) = int (hd jdx) * k + int (in_page shape so jdx)" using assms(4) by simp
    then have "int (hd idx * nat k + in_page shape so idx) = int (hd jdx * nat k + in_page shape so jdx)" using kp by simp
    then show "idx = jdx" using block_view_inj [OF f(2) refl _ _ sk, of idx jdx] assms(5,6) unfolding f(1) by (simp only: of_nat_eq_iff)
  qed simp
qed

text \<open>
  The view of a packed layer: with the block dimension first in the stride order, the
  bytes of an index of block \<open>b\<close> lie in the page that starts at the descriptor's offset plus \<open>b\<close>
  times the block stride, the page lies inside the backing buffer, and different indices have
  different elements.
\<close>

theorem packed_view_in_backing:
  assumes "reshape_modern_packed_cache numel t sp be nb cd = Inr v" and "be_stride_order be = Inr (0 # so)"
    and "block_first be" and "0 < vs_dtype_size sp" and "in_shape idx (tv_size v)" and "in_shape jdx (tv_size v)"
  shows "kt_offset t + int (hd idx) * kt_block_stride t \<le> int (address v idx * vs_dtype_size sp)
    \<and> int (address v idx * vs_dtype_size sp) + int (vs_dtype_size sp)
       \<le> kt_offset t + int (hd idx) * kt_block_stride t + int (vs_dtype_size sp * prod_list (gather (tv_size v) so))
    \<and> kt_offset t + int (hd idx) * kt_block_stride t + int (vs_dtype_size sp * prod_list (gather (tv_size v) so)) \<le> int numel
    \<and> (address v idx = address v jdx \<longleftrightarrow> idx = jdx)"
  using packed_view_facts [OF assms] by blast

text \<open>Pages of different layers of one pitch do not meet, in any pair of blocks.\<close>

lemma pages_apart:
  fixes S :: int
  assumes "a + i * S \<le> x" "x + d \<le> a + i * S + p" "b + j * S \<le> y" "y + e \<le> b + j * S + q"
    and "0 \<le> a" "a + p \<le> S" "0 \<le> b" "b + q \<le> S" "a + p \<le> b \<or> b + q \<le> a" "0 < S"
  shows "x + d \<le> y \<or> y + e \<le> x"
proof (cases i j rule: linorder_cases)
  case less
  then have "(i + 1) * S \<le> j * S" using assms(10) by (intro mult_right_mono) auto
  then show ?thesis using assms by (simp add: algebra_simps)
next
  case equal
  then show ?thesis using assms by auto
next
  case greater
  then have "(j + 1) * S \<le> i * S" using assms(10) by (intro mult_right_mono) auto
  then show ?thesis using assms by (simp add: algebra_simps)
qed

section \<open>Backing buffers\<close>

definition packed_desc :: "kv_tensor \<Rightarrow> bool" where
  "packed_desc t \<longleftrightarrow> 0 < kt_block_stride t"

definition key_of :: "kv_tensor \<Rightarrow> backing_key" where
  "key_of t = (case kt_backing t of None \<Rightarrow> Single_packed (kt_size t) (kt_block_stride t)
     | Some b \<Rightarrow> Packed b (kt_size t) (kt_block_stride t))"

text \<open>What holds after the descriptors \<open>D\<close>: \<open>buf\<close> gives each of them its buffer.\<close>

definition alloc_inv :: "(kv_tensor \<Rightarrow> nat) \<Rightarrow> kv_tensor set \<Rightarrow> allocation \<Rightarrow> bool" where
  "alloc_inv buf D s \<longleftrightarrow>
     (\<forall>t \<in> D. buf t < length (al_sizes s) \<and> al_sizes s ! buf t = kt_size t
        \<and> (\<forall>n \<in> set (kt_names t). dict_get (al_raw s) n = Some (buf t) \<and> dict_get (al_desc s) n = Some t))
     \<and> (\<forall>t \<in> D. \<forall>u \<in> D. buf t = buf u \<longleftrightarrow> t = u \<or> packed_desc t \<and> packed_desc u \<and> key_of t = key_of u)
     \<and> (\<forall>t \<in> D. packed_desc t \<longrightarrow> dict_get (al_shared s) (key_of t) = Some (buf t))
     \<and> (\<forall>k b. dict_get (al_shared s) k = Some b \<longrightarrow> (\<exists>t \<in> D. packed_desc t \<and> key_of t = k \<and> buf t = b))
     \<and> (\<forall>t \<in> D. packed_desc t \<longrightarrow> (\<forall>b. kt_backing t = Some b \<longrightarrow> dict_get (al_layouts s) b = Some (kt_size t, kt_block_stride t)))"

lemma alloc_invD:
  assumes "alloc_inv buf D s"
  shows "\<And>t. t \<in> D \<Longrightarrow> buf t < length (al_sizes s) \<and> al_sizes s ! buf t = kt_size t"
    and "\<And>t n. t \<in> D \<Longrightarrow> n \<in> set (kt_names t) \<Longrightarrow> dict_get (al_raw s) n = Some (buf t) \<and> dict_get (al_desc s) n = Some t"
    and "\<And>t u. t \<in> D \<Longrightarrow> u \<in> D \<Longrightarrow> buf t = buf u \<longleftrightarrow> t = u \<or> packed_desc t \<and> packed_desc u \<and> key_of t = key_of u"
    and "\<And>t. t \<in> D \<Longrightarrow> packed_desc t \<Longrightarrow> dict_get (al_shared s) (key_of t) = Some (buf t)"
    and "\<And>k b. dict_get (al_shared s) k = Some b \<Longrightarrow> \<exists>t \<in> D. packed_desc t \<and> key_of t = k \<and> buf t = b"
    and "\<And>t b. t \<in> D \<Longrightarrow> packed_desc t \<Longrightarrow> kt_backing t = Some b \<Longrightarrow> dict_get (al_layouts s) b = Some (kt_size t, kt_block_stride t)"
  using assms unfolding alloc_inv_def by blast+

lemma fold_dict_set: "dict_get (fold (\<lambda>n. dict_set n v) ns d) m = (if m \<in> set ns then Some v else dict_get d m)"
  by (induction ns arbitrary: d) auto

text \<open>The buffer of one more descriptor: a shared one, or a new one.\<close>

lemma take_backing_cases:
  assumes "take_backing t s = Inr (b, s1)"
  shows "al_raw s1 = al_raw s \<and> al_desc s1 = al_desc s
    \<and> (\<forall>i. packed_desc t \<and> kt_backing t = Some i \<longrightarrow>
        al_layouts s1 = dict_set i (kt_size t, kt_block_stride t) (al_layouts s)
        \<and> dict_get (al_layouts s) i \<in> {None, Some (kt_size t, kt_block_stride t)})
    \<and> (\<not> packed_desc t \<or> kt_backing t = None \<longrightarrow> al_layouts s1 = al_layouts s)
    \<and> (packed_desc t \<and> dict_get (al_shared s) (key_of t) = Some b \<and> al_sizes s1 = al_sizes s \<and> al_shared s1 = al_shared s
       \<or> b = length (al_sizes s) \<and> al_sizes s1 = al_sizes s @ [kt_size t]
         \<and> (packed_desc t \<longrightarrow> dict_get (al_shared s) (key_of t) = None)
         \<and> al_shared s1 = (if packed_desc t then dict_set (key_of t) b (al_shared s) else al_shared s))"
  using assms
  by (auto simp: take_backing_def packed_desc_def key_of_def backing_key_of_def new_backing_def Let_def and_then_Inr_iff
      split: if_splits option.splits) (metis not_None_eq surj_pair)+

lemma allocate_tensor_inv:
  assumes inv: "alloc_inv buf D s" and run: "allocate_tensor t s = Inr s'"
    and names: "\<And>u. u \<in> D \<Longrightarrow> set (kt_names u) \<inter> set (kt_names t) = {}"
  shows "t \<notin> D \<and> (\<exists>buf'. alloc_inv buf' (insert t D) s')"
proof -
  note i = alloc_invD [OF inv]
  obtain b s1 where tb: "take_backing t s = Inr (b, s1)" and ne: "kt_names t \<noteq> []"
    and s': "s' = s1\<lparr>al_raw := fold (\<lambda>n. dict_set n b) (kt_names t) (al_raw s1), al_desc := fold (\<lambda>n. dict_set n t) (kt_names t) (al_desc s1)\<rparr>"
    using run by (auto simp: allocate_tensor_def and_then_Inr_iff cache_tensor_layers_def split: if_splits)
  have new: "t \<notin> D" using names [of t] ne by auto
  note c = take_backing_cases [OF tb]
  let ?buf = "buf(t := b)"
  have raw: "al_raw s1 = al_raw s" "al_desc s1 = al_desc s" using c by blast+
  have lay: "dict_get (al_layouts s1) j = Some (kt_size u, kt_block_stride u)"
    if "u \<in> insert t D" "packed_desc u" "kt_backing u = Some j" for u j
    using c that i(6) [of u j] new by (cases "u = t"; cases "kt_backing t"; cases "packed_desc t") auto
  have old: "buf u < length (al_sizes s) \<and> al_sizes s ! buf u = kt_size u" if "u \<in> D" for u by (rule i(1) [OF that])
  from c have "packed_desc t \<and> dict_get (al_shared s) (key_of t) = Some b \<and> al_sizes s1 = al_sizes s \<and> al_shared s1 = al_shared s
       \<or> b = length (al_sizes s) \<and> al_sizes s1 = al_sizes s @ [kt_size t]
         \<and> (packed_desc t \<longrightarrow> dict_get (al_shared s) (key_of t) = None)
         \<and> al_shared s1 = (if packed_desc t then dict_set (key_of t) b (al_shared s) else al_shared s)" by blast
  then have "(\<forall>u \<in> insert t D. ?buf u < length (al_sizes s1) \<and> al_sizes s1 ! ?buf u = kt_size u)
      \<and> (\<forall>u \<in> D. b = buf u \<longleftrightarrow> packed_desc u \<and> packed_desc t \<and> key_of u = key_of t)
      \<and> (\<forall>u \<in> insert t D. packed_desc u \<longrightarrow> dict_get (al_shared s1) (key_of u) = Some (?buf u))
      \<and> (\<forall>k x. dict_get (al_shared s1) k = Some x \<longrightarrow> (\<exists>u \<in> insert t D. packed_desc u \<and> key_of u = k \<and> ?buf u = x))"
  proof
    assume a: "packed_desc t \<and> dict_get (al_shared s) (key_of t) = Some b \<and> al_sizes s1 = al_sizes s \<and> al_shared s1 = al_shared s"
    then obtain w where w: "w \<in> D" "packed_desc w" "key_of w = key_of t" "buf w = b" using i(5) by blast
    have "kt_size w = kt_size t" using w(3) by (auto simp: key_of_def split: option.splits)
    then have sz: "b < length (al_sizes s) \<and> al_sizes s ! b = kt_size t" using old [OF w(1)] w(4) by simp
    have eq: "b = buf u \<longleftrightarrow> packed_desc u \<and> packed_desc t \<and> key_of u = key_of t" if "u \<in> D" for u
      using i(3) [OF w(1) that] w a by auto
    have sh: "\<forall>u \<in> insert t D. packed_desc u \<longrightarrow> dict_get (al_shared s1) (key_of u) = Some (?buf u)" using a i(4) new by auto
    have "\<exists>u \<in> insert t D. packed_desc u \<and> key_of u = k \<and> ?buf u = x" if look: "dict_get (al_shared s1) k = Some x" for k x
    proof -
      obtain u where "u \<in> D" "packed_desc u" "key_of u = k" "buf u = x" using look a i(5) [of k x] by auto
      then show ?thesis using new by (intro bexI [of _ u]) auto
    qed
    moreover have "\<forall>u \<in> insert t D. ?buf u < length (al_sizes s1) \<and> al_sizes s1 ! ?buf u = kt_size u" using a sz old new by auto
    ultimately show ?thesis using sh eq by blast
  next
    assume a: "b = length (al_sizes s) \<and> al_sizes s1 = al_sizes s @ [kt_size t]
        \<and> (packed_desc t \<longrightarrow> dict_get (al_shared s) (key_of t) = None)
        \<and> al_shared s1 = (if packed_desc t then dict_set (key_of t) b (al_shared s) else al_shared s)"
    have eq: "b = buf u \<longleftrightarrow> packed_desc u \<and> packed_desc t \<and> key_of u = key_of t" if "u \<in> D" for u
      using old [OF that] i(4) [OF that] a by auto
    have key: "key_of u \<noteq> key_of t" if "u \<in> D" "packed_desc u" "packed_desc t" for u using i(4) that a by force
    have sz: "\<forall>u \<in> insert t D. ?buf u < length (al_sizes s1) \<and> al_sizes s1 ! ?buf u = kt_size u"
      using a old new by (auto simp: nth_append less_Suc_eq)
    have sh: "\<forall>u \<in> insert t D. packed_desc u \<longrightarrow> dict_get (al_shared s1) (key_of u) = Some (?buf u)"
      using a i(4) key new by auto
    have "\<exists>u \<in> insert t D. packed_desc u \<and> key_of u = k \<and> ?buf u = x" if "dict_get (al_shared s1) k = Some x" for k x
      using that a i(5) [of k x] new by (cases "packed_desc t \<and> k = key_of t") (auto split: if_splits)
    then show ?thesis using sz sh eq by blast
  qed
  then have "alloc_inv ?buf (insert t D) s'"
    unfolding alloc_inv_def using lay new names i(2) i(3)
    by (auto simp: s' fold_dict_set raw)
  then show ?thesis using new by blast
qed

lemma allocate_all_inv:
  assumes "fold_result allocate_tensor ts s = Inr al" and "alloc_inv buf D s"
    and "distinct (concat (map kt_names ts))" and "\<And>u t. u \<in> D \<Longrightarrow> t \<in> set ts \<Longrightarrow> set (kt_names u) \<inter> set (kt_names t) = {}"
  shows "\<exists>buf'. alloc_inv buf' (D \<union> set ts) al"
  using assms
proof (induction ts arbitrary: s buf D)
  case Nil
  then show ?case by auto
next
  case (Cons t ts)
  obtain s1 where s1: "allocate_tensor t s = Inr s1" "fold_result allocate_tensor ts s1 = Inr al"
    using Cons.prems(1) by (auto simp: and_then_Inr_iff)
  obtain buf1 where b1: "alloc_inv buf1 (insert t D) s1"
    using allocate_tensor_inv [OF Cons.prems(2) s1(1)] Cons.prems(4) by (metis list.set_intros(1))
  have dj: "set (kt_names u) \<inter> set (kt_names v) = {}" if "u \<in> insert t D" "v \<in> set ts" for u v
  proof (cases "u = t")
    case True
    then show ?thesis using Cons.prems(3) that(2) by auto
  next
    case False
    then show ?thesis using Cons.prems(4) that by auto
  qed
  have "distinct (concat (map kt_names ts))" using Cons.prems(3) by simp
  from Cons.IH [OF s1(2) b1 this dj] show ?case by simp
qed

text \<open>
  Buffers of the KV cache: when every layer is named once, each layer gets a buffer of its
  descriptor's size, and two layers share a buffer exactly when they belong to one descriptor or
  to packed descriptors with the same backing identity.
\<close>

theorem backing_shared_by_identity:
  assumes "allocate_modern_raw_kv_cache tensors = Inr al" and "distinct (concat (map kt_names tensors))"
    and "t \<in> set tensors" and "u \<in> set tensors" and "n \<in> set (kt_names t)" and "m \<in> set (kt_names u)"
  shows "\<exists>b c. dict_get (al_raw al) n = Some b \<and> dict_get (al_raw al) m = Some c \<and> dict_get (al_desc al) n = Some t
    \<and> b < length (al_sizes al) \<and> al_sizes al ! b = kt_size t
    \<and> (b = c \<longleftrightarrow> t = u \<or> 0 < kt_block_stride t \<and> 0 < kt_block_stride u \<and> kt_backing t = kt_backing u)"
proof -
  let ?ids = "map kt_backing (filter packed_desc tensors)"
  let ?s0 = "\<lparr>al_sizes = [], al_raw = [], al_desc = [], al_shared = [], al_layouts = []\<rparr>"
  have ids: "\<not> (None \<in> set ?ids \<and> 1 < length ?ids)" and run: "fold_result allocate_tensor tensors ?s0 = Inr al"
    using assms(1) by (auto simp: allocate_modern_raw_kv_cache_def Let_def packed_desc_def [abs_def] split: if_splits)
  have "alloc_inv (\<lambda>_. 0) {} ?s0" by (simp add: alloc_inv_def)
  then obtain buf where "alloc_inv buf ({} \<union> set tensors) al" using allocate_all_inv [OF run _ assms(2), of _ "{}"] by blast
  then have inv: "alloc_inv buf (set tensors) al" by simp
  note i = alloc_invD [OF inv]
  have "key_of t = key_of u \<longleftrightarrow> kt_backing t = kt_backing u" if p: "packed_desc t" "packed_desc u" "t \<noteq> u"
  proof (cases "kt_backing t = kt_backing u")
    case False
    then show ?thesis by (auto simp: key_of_def split: option.splits)
  next
    case same: True
    show ?thesis
    proof (cases "kt_backing t")
      case None
      have "{t, u} \<subseteq> set (filter packed_desc tensors)" using p assms(3,4) by auto
      then have "card {t, u} \<le> length (filter packed_desc tensors)" by (meson List.finite_set card_length card_mono le_trans)
      then have "1 < length ?ids" using p(3) by simp
      moreover have "None \<in> set ?ids" using None p(1) assms(3) by force
      ultimately show ?thesis using ids by blast
    next
      case (Some b)
      have "Some (kt_size t, kt_block_stride t) = Some (kt_size u, kt_block_stride u)"
        using i(6) [OF assms(3) p(1) Some] i(6) [OF assms(4) p(2), of b] Some same by simp
      then show ?thesis using Some same by (simp add: key_of_def)
    qed
  qed
  then have "buf t = buf u \<longleftrightarrow> t = u \<or> 0 < kt_block_stride t \<and> 0 < kt_block_stride u \<and> kt_backing t = kt_backing u"
    using i(3) [OF assms(3,4)] unfolding packed_desc_def by blast
  then show ?thesis using i(1) [OF assms(3)] i(2) [OF assms(3,5)] i(2) [OF assms(4,6)] by auto
qed

section \<open>Example\<close>

definition mla_backend :: "nat list \<Rightarrow> attn_backend" where
  "mla_backend so = \<lparr>be_module = ''vllm_hcu.v1.attention.backends.mla.flashmla'',
     be_shape = (\<lambda>n b h d s. Inr [n, b, d]), be_stride_order = Inr so\<rparr>"

definition sample_spec :: view_spec where
  "sample_spec = \<lparr>vs_block_size = 2, vs_storage_block_size = None, vs_num_kv_heads = 1, vs_head_size = 4, vs_dtype_size = 2,
     vs_quant_none = True, vs_is_tq = False, vs_cache_dtype_str = None\<rparr>"

definition sample_descriptor :: kv_tensor where
  "sample_descriptor = \<lparr>kt_size = 96, kt_names = [''model.layers.0.self_attn.attn''], kt_block_stride = 32, kt_offset = 16,
     kt_layer_stride = 16, kt_backing = Some 0, kt_origin = Upstream\<rparr>"

theorem packed_view_in_backing_witness:
  "\<exists>v. reshape_modern_packed_cache 96 sample_descriptor sample_spec (mla_backend [0, 1, 2]) 3 ''auto'' = Inr v
    \<and> int (address v [2, 1, 3] * 2) + 2 \<le> 16 + 2 * 32 + 16"
proof -
  let ?v = "\<lparr>tv_size = [3, 2, 4], tv_stride = [16, 4, 1], tv_offset = 8\<rparr>"
  have v: "reshape_modern_packed_cache 96 sample_descriptor sample_spec (mla_backend [0, 1, 2]) 3 ''auto'' = Inr ?v" by code_simp
  have b: "block_first (mla_backend [0, 1, 2])" by (auto simp: block_first_def mla_backend_def)
  have o: "be_stride_order (mla_backend [0, 1, 2]) = Inr (0 # [1, 2])" by (simp add: mla_backend_def)
  have d: "0 < vs_dtype_size sample_spec" by (simp add: sample_spec_def)
  have i: "in_shape [2, 1, 3] (tv_size ?v)" by simp
  from packed_view_in_backing [OF v o b d i i] show ?thesis using v
    by (simp add: sample_spec_def sample_descriptor_def gather_def)
qed

text \<open>
  With the block dimension inside, the page check passes and yet two indices of the view share an
  element: the strides of the outer dimensions still count the blocks of a contiguous tensor.
\<close>

lemma inner_block_dim_aliases:
  "\<exists>v. reshape_modern_packed_cache 32 (sample_descriptor\<lparr>kt_block_stride := 16, kt_offset := 0\<rparr>) sample_spec
        (mla_backend [1, 0, 2]) 2 ''auto'' = Inr v
    \<and> in_shape [0, 1, 0] (tv_size v) \<and> in_shape [1, 0, 0] (tv_size v) \<and> address v [0, 1, 0] = address v [1, 0, 0]"
proof -
  let ?v = "\<lparr>tv_size = [2, 2, 4], tv_stride = [8, 8, 1], tv_offset = 0\<rparr>"
  have "reshape_modern_packed_cache 32 (sample_descriptor\<lparr>kt_block_stride := 16, kt_offset := 0\<rparr>) sample_spec
        (mla_backend [1, 0, 2]) 2 ''auto'' = Inr ?v" by code_simp
  then show ?thesis by (intro exI [of _ ?v]) (simp add: address_def)
qed

definition sample_page_spec :: view_spec where
  "sample_page_spec = sample_spec\<lparr>vs_head_size := 5, vs_dtype_size := 1\<rparr>"

definition sample_pair :: "kv_tensor list" where
  "sample_pair = [sample_descriptor, sample_descriptor\<lparr>kt_names := [''model.layers.1.self_attn.attn''], kt_offset := 0\<rparr>]"

theorem backing_shared_by_identity_witness:
  "\<exists>al b c. allocate_modern_raw_kv_cache sample_pair = Inr al
    \<and> dict_get (al_raw al) ''model.layers.0.self_attn.attn'' = Some b
    \<and> dict_get (al_raw al) ''model.layers.1.self_attn.attn'' = Some c \<and> b = c"
proof -
  let ?u = "sample_descriptor\<lparr>kt_names := [''model.layers.1.self_attn.attn''], kt_offset := 0\<rparr>"
  have "returns (allocate_modern_raw_kv_cache sample_pair)" by code_simp
  then obtain al where al: "allocate_modern_raw_kv_cache sample_pair = Inr al" by (auto simp: returns_iff)
  have d: "distinct (concat (map kt_names sample_pair))" by code_simp
  have m: "sample_descriptor \<in> set sample_pair" "?u \<in> set sample_pair"
      "''model.layers.0.self_attn.attn'' \<in> set (kt_names sample_descriptor)"
      "''model.layers.1.self_attn.attn'' \<in> set (kt_names ?u)"
    by (simp_all add: sample_pair_def sample_descriptor_def)
  from backing_shared_by_identity [OF al d m] show ?thesis using al by (auto simp: sample_descriptor_def)
qed

end
