(* ===== verification/Layer_Broadcast.thy ===== *)
theory Layer_Broadcast
  imports Layer_Split
begin

text \<open>
  The owner-broadcast protocol of \<open>src/vllm_hcu/v1/dsa_cache_layer_split.py\<close> (middle section) and
  its two call sites, the MLA write of \<open>patch/worker/op_opt/patch_mla_attention.py\<close> and the
  indexer write of \<open>model_executor/layers/sparse_attn_indexer.py\<close>.

  One rank is a record: the module's globals (families, active block ids, layer registry), its
  runtime state, its rank in the PCP group and its memory.  A cache tensor is a logical tensor
  id with its shape and dtype, the same on every rank; \<open>rk_slot\<close> maps it to the storage slot the
  packed layout gave it on this rank (several tensors may alias one slot).  Rows of the leading
  dimension are the unit of transfer.

  An operation is an action: it ends, raises, or enters a broadcast on the PCP group with the rows
  of its own buffer and continues with the rows received.  Running the ranks of a group in lockstep
  delivers the owner's rows when all ranks enter the same collective, and gets stuck otherwise.
  The optional arguments with which unit tests inject a rank, size or layer count are left out.
  Broadcasts enqueued on the side stream take effect when they are enqueued, in stream order.
\<close>

section \<open>State\<close>

datatype cache_kind = Mla | Indexer

record cache =
  ca_id :: nat
  ca_shape :: "int list"
  ca_dtype :: string

type_synonym family_key = "cache_kind \<times> string \<times> int list"

record family =
  remote_layer_id :: "int option"
  remote_block_ids :: "int list option"
  remote_full :: bool
  pending_remote_layer_id :: "int option"
  pending_remote_block_ids :: "int list option"
  pending_remote_full :: bool
  pending_remote_broadcast :: bool

definition fresh_family :: family where
  "fresh_family = \<lparr>remote_layer_id = None, remote_block_ids = None, remote_full = False,
     pending_remote_layer_id = None, pending_remote_block_ids = None, pending_remote_full = False,
     pending_remote_broadcast = False\<rparr>"

record control =
  ct_families :: "(family_key, family) dict"
  ct_active :: "int list option"
  ct_range :: "(int \<times> int) option"
  ct_registry :: "(int, (cache_kind, cache) dict) dict"
  ct_sparse_env :: "string option"
  ct_comm :: bool
  ct_comm_init :: bool
  ct_mtp :: bool

record rank =
  rk_ctl :: control
  rk_rt :: runtime
  rk_rank :: int
  rk_slot :: "nat \<Rightarrow> nat"
  rk_mem :: "nat \<Rightarrow> nat \<Rightarrow> int"

datatype 'a action =
    Done (act_value: 'a)
  | Raised (act_exn: exn) (act_value: 'a)
  | Collect (act_owner: int) (act_rows: "int list") (act_cont: "int list \<Rightarrow> 'a action")

section \<open>Families\<close>

definition family_kind :: "string \<Rightarrow> cache_kind" where
  "family_kind layer_name =
     (let n = py_lower layer_name
      in if py_contains ''indexer'' n \<or> py_contains ''index_k'' n then Indexer else Mla)"

definition family_shape :: "cache \<Rightarrow> int list" where
  "family_shape c = (let dims = filter (\<lambda>d. d \<noteq> 1) (ca_shape c) in if dims \<noteq> [] then dims else ca_shape c)"

definition family_key :: "cache \<Rightarrow> string \<Rightarrow> family_key" where
  "family_key c layer_name = (family_kind layer_name, ca_dtype c, family_shape c)"

definition family_of :: "family_key \<Rightarrow> control \<Rightarrow> family" where
  "family_of k ct = (case dict_get (ct_families ct) k of None \<Rightarrow> fresh_family | Some f \<Rightarrow> f)"

definition set_family :: "family_key \<Rightarrow> family \<Rightarrow> control \<Rightarrow> control" where
  "set_family k f ct = ct\<lparr>ct_families := dict_set k f (ct_families ct)\<rparr>"

definition family_state :: "family_key \<Rightarrow> control \<Rightarrow> control" where
  "family_state k ct = set_family k (family_of k ct) ct"

definition numel :: "cache \<Rightarrow> int" where
  "numel c = prod_list (ca_shape c)"

section \<open>Bookkeeping\<close>

text \<open>\<open>torch.unique(..., sorted=True)\<close>\<close>

definition unique_sorted :: "int list \<Rightarrow> int list" where
  "unique_sorted xs = sort (remdups xs)"

definition record_remote_selection :: "int \<Rightarrow> int list option \<Rightarrow> bool \<Rightarrow> family \<Rightarrow> family" where
  "record_remote_selection layer_idx ids full f0 =
     (let f1 = (if remote_layer_id f0 \<noteq> Some layer_idx
                then f0\<lparr>remote_block_ids := None, remote_full := False\<rparr> else f0);
          f2 = f1\<lparr>remote_layer_id := Some layer_idx\<rparr>
      in if full then f2\<lparr>remote_block_ids := None, remote_full := True\<rparr>
         else let f3 = f2\<lparr>remote_full := False\<rparr>
              in case ids of
                   None \<Rightarrow> f3
                 | Some xs \<Rightarrow>
                     if xs = [] then f3
                     else case remote_block_ids f3 of
                            None \<Rightarrow> f3\<lparr>remote_block_ids := Some xs\<rparr>
                          | Some known \<Rightarrow> f3\<lparr>remote_block_ids := Some (unique_sorted (known @ xs))\<rparr>)"

definition finalize_pending_broadcast :: "bool \<Rightarrow> family \<Rightarrow> family" where
  "finalize_pending_broadcast set_remote f0 =
     (if \<not> pending_remote_broadcast f0 then f0
      else let f1 = f0\<lparr>pending_remote_broadcast := False\<rparr>;
               f2 = (case pending_remote_layer_id f1 of
                       None \<Rightarrow> f1
                     | Some l \<Rightarrow> if set_remote
                                 then record_remote_selection l (pending_remote_block_ids f1) (pending_remote_full f1) f1
                                 else f1)
           in f2\<lparr>pending_remote_layer_id := None, pending_remote_block_ids := None, pending_remote_full := False\<rparr>)"

definition invalidate_family :: "int list option \<Rightarrow> family \<Rightarrow> family" where
  "invalidate_family active f0 =
     (let f = (if pending_remote_broadcast f0 then finalize_pending_broadcast True f0 else f0)
      in case active of
           None \<Rightarrow> if \<not> remote_full f then f\<lparr>remote_block_ids := None\<rparr> else f
         | Some ids \<Rightarrow>
             if remote_full f then f
             else (case remote_block_ids f of
                     None \<Rightarrow> f
                   | Some known \<Rightarrow> f\<lparr>remote_block_ids := Some (filter (\<lambda>x. x \<in> set ids) known)\<rparr>))"

definition invalidate_remote_broadcast_state :: "int list option \<Rightarrow> control \<Rightarrow> control" where
  "invalidate_remote_broadcast_state active ct =
     ct\<lparr>ct_families := map (\<lambda>(k, f). (k, invalidate_family active f)) (ct_families ct)\<rparr>"

definition sparse_broadcast_enabled :: "control \<Rightarrow> bool" where
  "sparse_broadcast_enabled ct \<longleftrightarrow>
     py_lower (py_strip (case ct_sparse_env ct of None \<Rightarrow> ''1'' | Some s \<Rightarrow> s))
       \<notin> {''0'', ''false'', ''off'', ''no''}"

definition set_active_dsa_broadcast_block_ids :: "int list option \<Rightarrow> control \<Rightarrow> control" where
  "set_active_dsa_broadcast_block_ids block_ids ct =
     (let ids = (case block_ids of None \<Rightarrow> None | Some xs \<Rightarrow> if xs = [] then None else Some (unique_sorted xs));
          ct1 = (if ct_active ct \<noteq> ids then invalidate_remote_broadcast_state ids ct else ct)
      in ct1\<lparr>ct_active := ids,
             ct_range := (case ids of None \<Rightarrow> None | Some xs \<Rightarrow> Some (hd xs, last xs))\<rparr>)"

text \<open>The tables are the tensors among the arguments, each flattened.\<close>

definition set_active_dsa_broadcast_block_ids_from_tables :: "int list list \<Rightarrow> control \<Rightarrow> control" where
  "set_active_dsa_broadcast_block_ids_from_tables tables ct =
     (if \<not> sparse_broadcast_enabled ct then set_active_dsa_broadcast_block_ids None ct
      else if tables = [] then set_active_dsa_broadcast_block_ids None ct
      else set_active_dsa_broadcast_block_ids (Some (concat tables)) ct)"

definition clear_active_dsa_broadcast_block_ids :: "control \<Rightarrow> control" where
  "clear_active_dsa_broadcast_block_ids ct = set_active_dsa_broadcast_block_ids None ct"

definition active_block_ids_for :: "cache \<Rightarrow> control \<Rightarrow> int list option" where
  "active_block_ids_for c ct =
     (if \<not> sparse_broadcast_enabled ct then None
      else case (ct_active ct, ct_range ct) of
             (Some ids, Some (lo, hi)) \<Rightarrow>
               (if ids = [] then None
                else case ca_shape c of
                       [] \<Rightarrow> None
                     | n # _ \<Rightarrow>
                         if n \<le> 0 then None
                         else if lo < 0 \<or> n \<le> hi then None
                         else if n \<le> int (length ids) then None
                         else Some ids)
           | _ \<Rightarrow> None)"

text \<open>The ids to send, whether the whole pool is meant, and whether a collective is needed.\<close>

definition prepare_remote_selection ::
    "cache \<Rightarrow> int \<Rightarrow> control \<Rightarrow> family \<Rightarrow> (int list option \<times> bool \<times> bool) \<times> family" where
  "prepare_remote_selection c layer_idx ct f0 =
     (let f = (if remote_layer_id f0 \<noteq> Some layer_idx
               then f0\<lparr>remote_block_ids := None, remote_full := False\<rparr> else f0)
      in case active_block_ids_for c ct of
           None \<Rightarrow> ((None, True, \<not> remote_full f), f)
         | Some ids \<Rightarrow>
             if remote_full f then ((Some ids, False, False), f)
             else let needed = (case remote_block_ids f of
                                  None \<Rightarrow> ids
                                | Some known \<Rightarrow> if known = [] then ids else filter (\<lambda>x. x \<notin> set known) ids)
                  in ((Some needed, False, needed \<noteq> []), f))"

definition register_layer_cache :: "(string \<Rightarrow> int result) \<Rightarrow> cache \<Rightarrow> string \<Rightarrow> control \<Rightarrow> control" where
  "register_layer_cache parse c layer_name ct =
     (case parse layer_name of
        Inl _ \<Rightarrow> ct
      | Inr i \<Rightarrow>
          ct\<lparr>ct_registry :=
            dict_set i (dict_set (family_kind layer_name) c (case dict_get (ct_registry ct) i of None \<Rightarrow> [] | Some s \<Rightarrow> s))
              (ct_registry ct)\<rparr>)"

section \<open>Transfer\<close>

text \<open>Rows of a tensor in this rank's storage; the whole pool is rows \<open>0 ..< shape[0]\<close>.\<close>

definition pool_rows :: "cache \<Rightarrow> int list" where
  "pool_rows c = (case ca_shape c of [] \<Rightarrow> [0] | n # _ \<Rightarrow> py_range n)"

definition read_rows :: "cache \<Rightarrow> int list \<Rightarrow> rank \<Rightarrow> int list" where
  "read_rows c ids g = map (\<lambda>i. rk_mem g (rk_slot g (ca_id c)) (nat i)) ids"

text \<open>A write changes some rows, each by a function of its old contents (a block has many tokens).\<close>

definition modify_row :: "int \<times> (int \<Rightarrow> int) \<Rightarrow> (nat \<Rightarrow> int) \<Rightarrow> nat \<Rightarrow> int" where
  "modify_row u m = m(nat (fst u) := snd u (m (nat (fst u))))"

definition modify_rows :: "cache \<Rightarrow> (int \<times> (int \<Rightarrow> int)) list \<Rightarrow> rank \<Rightarrow> rank" where
  "modify_rows c ups g =
     g\<lparr>rk_mem := (rk_mem g)(rk_slot g (ca_id c) :=
         fold modify_row ups (rk_mem g (rk_slot g (ca_id c))))\<rparr>"

definition write_rows :: "cache \<Rightarrow> int list \<Rightarrow> int list \<Rightarrow> rank \<Rightarrow> rank" where
  "write_rows c ids payload g = modify_rows c (zip ids (map (\<lambda>v _. v) payload)) g"

definition update_ctl :: "(control \<Rightarrow> control) \<Rightarrow> rank \<Rightarrow> rank" where
  "update_ctl f g = g\<lparr>rk_ctl := f (rk_ctl g)\<rparr>"

text \<open>
  \<open>index_select\<close>, broadcast from the owner, \<open>index_copy_\<close> on the other ranks; for the whole pool
  the rows are all rows, whether or not the tensor is contiguous.
\<close>

definition broadcast_selected_blocks ::
    "cache \<Rightarrow> int list \<Rightarrow> int \<Rightarrow> int \<Rightarrow> (rank \<Rightarrow> rank action) \<Rightarrow> rank \<Rightarrow> rank action" where
  "broadcast_selected_blocks c ids owner my_rank k g =
     Collect owner (read_rows c ids g)
       (\<lambda>payload. k (if my_rank \<noteq> owner then write_rows c ids payload g else g))"

definition payload_rows :: "cache \<Rightarrow> int list option \<Rightarrow> int list" where
  "payload_rows c ids = (case ids of None \<Rightarrow> pool_rows c | Some xs \<Rightarrow> xs)"

definition broadcast_tensor_from_owner :: "cache \<Rightarrow> family_key \<Rightarrow> int \<Rightarrow> int \<Rightarrow> rank \<Rightarrow> rank action" where
  "broadcast_tensor_from_owner c key layer_idx owner g =
     (case prepare_remote_selection c layer_idx (rk_ctl g) (family_of key (rk_ctl g)) of
        ((ids, full, needs), f) \<Rightarrow>
          let g1 = update_ctl (set_family key f) g;
              finish = (\<lambda>h. Done (update_ctl (set_family key
                          (record_remote_selection layer_idx ids full (family_of key (rk_ctl h)))) h))
          in if \<not> needs then finish g1
             else broadcast_selected_blocks c (payload_rows c ids) owner (rk_rank g) finish g1)"

text \<open>The side-stream variant; \<open>fallback\<close> runs when it returns \<open>False\<close>.\<close>

definition broadcast_tensor_from_owner_async ::
    "cache \<Rightarrow> family_key \<Rightarrow> int \<Rightarrow> int \<Rightarrow> int \<Rightarrow> (rank \<Rightarrow> rank action) \<Rightarrow> rank \<Rightarrow> rank action" where
  "broadcast_tensor_from_owner_async c key layer_idx owner my_rank fallback g =
     (if \<not> ct_comm (rk_ctl g) then fallback g
      else case prepare_remote_selection c layer_idx (rk_ctl g) (family_of key (rk_ctl g)) of
        ((ids, full, needs), f) \<Rightarrow>
          let g1 = update_ctl (set_family key f) g
          in if \<not> needs
             then fallback (update_ctl (set_family key (record_remote_selection layer_idx ids full f)) g1)
             else broadcast_selected_blocks c (payload_rows c ids) owner my_rank
                    (\<lambda>h. Done (update_ctl (set_family key ((family_of key (rk_ctl h))\<lparr>
                        pending_remote_layer_id := Some layer_idx, pending_remote_block_ids := ids,
                        pending_remote_full := full, pending_remote_broadcast := True\<rparr>)) h)) g1)"

section \<open>Operations\<close>

definition rank_state_of :: "rank \<Rightarrow> layer_split_state option result" where
  "rank_state_of g = get_runtime_layer_split_state (rk_rt g) None None None None"

definition invalidate_dsa_cache_broadcast :: "(string \<Rightarrow> int result) \<Rightarrow> cache \<Rightarrow> string \<Rightarrow> control \<Rightarrow> control" where
  "invalidate_dsa_cache_broadcast parse c layer_name ct =
     (if numel c = 0 then ct
      else case parse layer_name of
             Inl _ \<Rightarrow> ct
           | Inr layer_idx \<Rightarrow>
               (let key = family_key c layer_name; f0 = family_of key ct;
                    f1 = (if pending_remote_layer_id f0 = Some layer_idx then finalize_pending_broadcast False f0 else f0);
                    f2 = (if remote_layer_id f1 = Some layer_idx
                          then f1\<lparr>remote_layer_id := None, remote_block_ids := None, remote_full := False\<rparr> else f1)
                in set_family key f2 ct))"

definition begin_mla_dsa_cache_write :: "(string \<Rightarrow> int result) \<Rightarrow> cache \<Rightarrow> string \<Rightarrow> rank \<Rightarrow> bool result \<times> rank" where
  "begin_mla_dsa_cache_write parse c layer_name g =
     (if numel c = 0 then (Inr False, g)
      else case parse layer_name of
             Inl _ \<Rightarrow> (Inr False, g)
           | Inr layer_idx \<Rightarrow>
               (case rank_state_of g of
                  Inl e \<Rightarrow> (Inl e, g)
                | Inr None \<Rightarrow> (Inr False, g)
                | Inr (Some _) \<Rightarrow>
                    (let key = family_key c layer_name; f0 = family_of key (rk_ctl g);
                         f1 = (if pending_remote_layer_id f0 = Some layer_idx then finalize_pending_broadcast True f0 else f0)
                     in case prepare_remote_selection c layer_idx (rk_ctl g) f1 of
                          ((_, _, needs), f2) \<Rightarrow>
                            (Inr (remote_layer_id f2 = Some layer_idx \<and> \<not> needs), update_ctl (set_family key f2) g))))"

text \<open>An exception leaves the rank as it is then.\<close>

definition check_act :: "'b result \<Rightarrow> 'g \<Rightarrow> ('b \<Rightarrow> 'g action) \<Rightarrow> 'g action" where
  "check_act r g k = (case r of Inl e \<Rightarrow> Raised e g | Inr x \<Rightarrow> k x)"

definition broadcast_dsa_cache_from_owner :: "(string \<Rightarrow> int result) \<Rightarrow> cache \<Rightarrow> string \<Rightarrow> rank \<Rightarrow> rank action" where
  "broadcast_dsa_cache_from_owner parse c layer_name g =
     (if numel c = 0 then Done g
      else if ct_mtp (rk_ctl g) then Done g
      else check_act (rank_state_of g) g (\<lambda>state.
        case state of
          None \<Rightarrow> Done g
        | Some st \<Rightarrow>
            check_act (parse layer_name) g (\<lambda>layer_idx.
              if \<not> covers st layer_idx then Done g
              else let key = family_key c layer_name;
                       g1 = update_ctl (\<lambda>ct. family_state key (register_layer_cache parse c layer_name ct)) g;
                       f0 = family_of key (rk_ctl g1);
                       f1 = (if pending_remote_broadcast f0
                             then finalize_pending_broadcast (pending_remote_layer_id f0 = Some layer_idx) f0 else f0);
                       g2 = update_ctl (set_family key f1) g1
                   in if remote_layer_id f1 = Some layer_idx \<and> remote_full f1 then Done g2
                      else check_act (owner_of st layer_idx) g2 (\<lambda>owner.
                             broadcast_tensor_from_owner c key layer_idx owner g2))))"

definition prefetch_dsa_cache_from_owner :: "(string \<Rightarrow> int result) \<Rightarrow> cache \<Rightarrow> string \<Rightarrow> rank \<Rightarrow> rank action" where
  "prefetch_dsa_cache_from_owner parse c layer_name g =
     (if numel c = 0 then Done g
      else if ct_mtp (rk_ctl g) then Done g
      else check_act (rank_state_of g) g (\<lambda>state.
        case state of
          None \<Rightarrow> Done g
        | Some st \<Rightarrow>
            check_act (parse layer_name) g (\<lambda>layer_idx.
              if \<not> covers st layer_idx then Done g
              else let key = family_key c layer_name;
                       g1 = update_ctl (\<lambda>ct. family_state key (register_layer_cache parse c layer_name ct)) g;
                       f0 = family_of key (rk_ctl g1)
                   in if remote_layer_id f0 = Some layer_idx then Done g1
                      else if pending_remote_broadcast f0 \<and> pending_remote_layer_id f0 = Some layer_idx then Done g1
                      else let f1 = (if pending_remote_broadcast f0 then finalize_pending_broadcast False f0 else f0);
                               g2 = update_ctl (set_family key f1) g1
                           in check_act (owner_of st layer_idx) g2 (\<lambda>owner.
                                broadcast_tensor_from_owner_async c key layer_idx owner (shard_rank st)
                                  (broadcast_dsa_cache_from_owner parse c layer_name) g2))))"

definition prefetch_registered_layer :: "(string \<Rightarrow> int result) \<Rightarrow> int \<Rightarrow> cache_kind \<Rightarrow> rank \<Rightarrow> rank action" where
  "prefetch_registered_layer parse layer_idx kind g =
     (case dict_get (ct_registry (rk_ctl g)) layer_idx of
        None \<Rightarrow> Done g
      | Some slot \<Rightarrow>
          (case dict_get slot kind of
             None \<Rightarrow> Done g
           | Some c \<Rightarrow>
               prefetch_dsa_cache_from_owner parse c
                 (''model.layers.'' @ str_int layer_idx @ (if kind = Indexer then ''.self_attn.indexer'' else ''.self_attn.attn'')) g))"

definition maybe_prefetch_same_layer_mla_cache :: "(string \<Rightarrow> int result) \<Rightarrow> int \<Rightarrow> rank \<Rightarrow> rank action" where
  "maybe_prefetch_same_layer_mla_cache parse layer_idx g =
     check_act (rank_state_of g) g (\<lambda>state.
       case state of
         None \<Rightarrow> Done g
       | Some st \<Rightarrow> if \<not> covers st layer_idx then Done g else prefetch_registered_layer parse layer_idx Mla g)"

definition maybe_prefetch_next_dsa_cache :: "(string \<Rightarrow> int result) \<Rightarrow> int \<Rightarrow> cache_kind \<Rightarrow> rank \<Rightarrow> rank action" where
  "maybe_prefetch_next_dsa_cache parse current kind g =
     check_act (rank_state_of g) g (\<lambda>state.
       case state of
         None \<Rightarrow> Done g
       | Some st \<Rightarrow> if \<not> covers st (current + 1) then Done g else prefetch_registered_layer parse (current + 1) kind g)"

definition register_dsa_cache_tensors :: "(string \<Rightarrow> int result) \<Rightarrow> (string \<times> cache) list \<Rightarrow> rank \<Rightarrow> rank" where
  "register_dsa_cache_tensors parse caches g =
     (if rt_state (rk_rt g) = None then g
      else update_ctl (fold (\<lambda>(n, c). register_layer_cache parse c n) caches) g)"

text \<open>\<open>comm_ok\<close>: whether the dedicated communicator could be created.\<close>

definition init_layer_broadcast_comm :: "bool \<Rightarrow> layer_split_state option \<Rightarrow> control \<Rightarrow> control" where
  "init_layer_broadcast_comm comm_ok state ct =
     (if ct_comm_init ct then ct
      else let ct1 = ct\<lparr>ct_comm_init := True\<rparr>
           in case state of
                None \<Rightarrow> ct1
              | Some st \<Rightarrow> if shard_size st \<le> 1 then ct1 else if comm_ok then ct1\<lparr>ct_comm := True\<rparr> else ct1)"

definition install_runtime_layer_split_state :: "bool \<Rightarrow> vllm_config option \<Rightarrow> rank \<Rightarrow> layer_split_state option result \<times> rank" where
  "install_runtime_layer_split_state comm_ok cfg g =
     (let rt = (rk_rt g)\<lparr>rt_installed := False\<rparr>;
          ct = (clear_active_dsa_broadcast_block_ids (rk_ctl g))\<lparr>ct_families := [], ct_registry := []\<rparr>;
          g1 = g\<lparr>rk_rt := rt, rk_ctl := ct\<rparr>
      in case get_runtime_layer_split_state rt cfg None None None of
           Inl e \<Rightarrow> (Inl e, g1)
         | Inr state \<Rightarrow>
             (Inr state, g1\<lparr>rk_rt := rt\<lparr>rt_state := state, rt_installed := True\<rparr>,
                            rk_ctl := init_layer_broadcast_comm comm_ok state ct\<rparr>))"

definition reset_runtime_layer_split_state_for_tests :: "rank \<Rightarrow> rank" where
  "reset_runtime_layer_split_state_for_tests g =
     g\<lparr>rk_rt := (rk_rt g)\<lparr>rt_state := None, rt_installed := False\<rparr>,
       rk_ctl := (clear_active_dsa_broadcast_block_ids (rk_ctl g))\<lparr>ct_families := [], ct_registry := [],
         ct_comm := False, ct_comm_init := False\<rparr>\<rparr>"

section \<open>Call sites\<close>

text \<open>
  The cache write of the MLA layer: the update is the gathered batch, the same on every rank;
  the owner commits it, the others only when their copy is up to date.
\<close>

definition commits :: "(string \<Rightarrow> int result) \<Rightarrow> string \<Rightarrow> rank \<Rightarrow> bool result" where
  "commits parse layer_name g = should_commit_durable_dsa_cache (rk_rt g) parse layer_name None None None None"

definition mla_cache_update ::
    "(string \<Rightarrow> int result) \<Rightarrow> cache \<Rightarrow> string \<Rightarrow> (int \<times> (int \<Rightarrow> int)) list \<Rightarrow> rank \<Rightarrow> rank action" where
  "mla_cache_update parse c layer_name ups g =
     (case begin_mla_dsa_cache_write parse c layer_name g of
        (Inl e, g1) \<Rightarrow> Raised e g1
      | (Inr updatable, g1) \<Rightarrow>
          check_act (commits parse layer_name g1) g1 (\<lambda>commit.
            broadcast_dsa_cache_from_owner parse c layer_name
              (if commit \<or> updatable then modify_rows c ups g1 else g1)))"

text \<open>
  The key write of the sparse indexer with effective context parallelism and a global prefill; the
  prefetch of the same layer's MLA cache follows it.  Otherwise a rank inserts its own keys in its own
  cache and enters no collective.
\<close>

definition indexer_cache_update ::
    "(string \<Rightarrow> int result) \<Rightarrow> cache \<Rightarrow> string \<Rightarrow> (int \<times> (int \<Rightarrow> int)) list \<Rightarrow> rank \<Rightarrow> rank action" where
  "indexer_cache_update parse c layer_name ups g =
     (let g1 = update_ctl (invalidate_dsa_cache_broadcast parse c layer_name) g
      in check_act (commits parse layer_name g1) g1 (\<lambda>commit.
           broadcast_dsa_cache_from_owner parse c layer_name (if commit then modify_rows c ups g1 else g1)))"

section \<open>A group of ranks\<close>

definition same_collective :: "'a action list \<Rightarrow> bool" where
  "same_collective acts \<longleftrightarrow>
     acts \<noteq> [] \<and> list_all is_Collect acts
     \<and> list_all (\<lambda>a. act_owner a = act_owner (hd acts) \<and> length (act_rows a) = length (act_rows (hd acts))) acts
     \<and> 0 \<le> act_owner (hd acts) \<and> act_owner (hd acts) < int (length acts)"

text \<open>
  All ranks end, all raise, or all enter the same collective; anything else is a deadlock or a
  corrupted transfer.  The fuel bounds the collectives of one call, of which there is at most one.
\<close>

fun lockstep :: "nat \<Rightarrow> 'a action list \<Rightarrow> (exn list + 'a list) option" where
  "lockstep 0 acts = None"
| "lockstep (Suc n) acts =
     (if list_all is_Done acts then Some (Inr (map act_value acts))
      else if list_all is_Raised acts then Some (Inl (map act_exn acts))
      else if same_collective acts
      then lockstep n (map (\<lambda>a. act_cont a (act_rows (acts ! nat (act_owner (hd acts))))) acts)
      else None)"

end
