(* ===== verification/Broadcast_Group.thy ===== *)
theory Broadcast_Group
  imports Layer_Broadcast Layer_Split_Correct
begin

text \<open>
  A group of ranks that run the same calls.  What a rank does with a broadcast is decided by the
  shared bookkeeping alone, so it is a plan that all ranks compute alike: either nothing is sent,
  or the owner sends the same rows to everybody.  Hence no call gets stuck.
\<close>

section \<open>Plans\<close>

datatype plan = Quiet control | Send int "int list" control

definition run_plan :: "cache \<Rightarrow> int \<Rightarrow> plan \<Rightarrow> rank \<Rightarrow> rank action" where
  "run_plan c my_rank pl g =
     (case pl of
        Quiet ct \<Rightarrow> Done (g\<lparr>rk_ctl := ct\<rparr>)
      | Send owner rows ct \<Rightarrow>
          Collect owner (read_rows c rows g)
            (\<lambda>payload. Done ((if my_rank \<noteq> owner then write_rows c rows payload g else g)\<lparr>rk_ctl := ct\<rparr>)))"

definition sync_plan :: "cache \<Rightarrow> family_key \<Rightarrow> int \<Rightarrow> int \<Rightarrow> control \<Rightarrow> plan" where
  "sync_plan c key layer owner ct =
     (case prepare_remote_selection c layer ct (family_of key ct) of
        ((ids, full, needs), f) \<Rightarrow>
          let ct' = set_family key (record_remote_selection layer ids full f) (set_family key f ct)
          in if needs then Send owner (payload_rows c ids) ct' else Quiet ct')"

text \<open>The bookkeeping when a read of a layer begins: registered, and no transfer in flight.\<close>

definition read_ctl :: "(string \<Rightarrow> int result) \<Rightarrow> cache \<Rightarrow> string \<Rightarrow> int \<Rightarrow> control \<Rightarrow> control" where
  "read_ctl parse c name layer ct0 =
     (let key = family_key c name; ct = family_state key (register_layer_cache parse c name ct0); f = family_of key ct
      in set_family key (if pending_remote_broadcast f
           then finalize_pending_broadcast (pending_remote_layer_id f = Some layer) f else f) ct)"

definition bcast_plan :: "(string \<Rightarrow> int result) \<Rightarrow> cache \<Rightarrow> string \<Rightarrow> int \<Rightarrow> int \<Rightarrow> control \<Rightarrow> plan" where
  "bcast_plan parse c name layer owner ct0 =
     (let key = family_key c name; ct = read_ctl parse c name layer ct0; f = family_of key ct
      in if remote_layer_id f = Some layer \<and> remote_full f then Quiet ct else sync_plan c key layer owner ct)"

definition prefetch_ctl :: "(string \<Rightarrow> int result) \<Rightarrow> cache \<Rightarrow> string \<Rightarrow> control \<Rightarrow> control" where
  "prefetch_ctl parse c name ct0 = family_state (family_key c name) (register_layer_cache parse c name ct0)"

definition async_plan :: "cache \<Rightarrow> family_key \<Rightarrow> int \<Rightarrow> int \<Rightarrow> (control \<Rightarrow> plan) \<Rightarrow> control \<Rightarrow> plan" where
  "async_plan c key layer owner fallback ct =
     (if \<not> ct_comm ct then fallback ct
      else case prepare_remote_selection c layer ct (family_of key ct) of
        ((ids, full, needs), f) \<Rightarrow>
          let ct1 = set_family key f ct
          in if needs
             then Send owner (payload_rows c ids) (set_family key (f\<lparr>
               pending_remote_layer_id := Some layer, pending_remote_block_ids := ids,
               pending_remote_full := full, pending_remote_broadcast := True\<rparr>) ct1)
             else fallback (set_family key (record_remote_selection layer ids full f) ct1))"

definition prefetch_plan :: "(string \<Rightarrow> int result) \<Rightarrow> cache \<Rightarrow> string \<Rightarrow> int \<Rightarrow> int \<Rightarrow> control \<Rightarrow> plan" where
  "prefetch_plan parse c name layer owner ct0 =
     (let key = family_key c name; ct = prefetch_ctl parse c name ct0; f = family_of key ct
      in if remote_layer_id f = Some layer then Quiet ct
         else if pending_remote_broadcast f \<and> pending_remote_layer_id f = Some layer then Quiet ct
         else async_plan c key layer owner (bcast_plan parse c name layer owner)
                (set_family key (if pending_remote_broadcast f then finalize_pending_broadcast False f else f) ct))"

lemma family_of_set [simp]: "family_of k (set_family k' f ct) = (if k = k' then f else family_of k ct)"
  by (simp add: family_of_def set_family_def)

lemma family_of_register [simp]: "family_of k (register_layer_cache parse c n ct) = family_of k ct"
  by (simp add: family_of_def register_layer_cache_def split: sum.splits)

lemma family_of_state [simp]: "family_of k (family_state k' ct) = family_of k ct"
  by (simp add: family_state_def)

lemma control_fields [simp]:
  "ct_mtp (set_family k f ct) = ct_mtp ct" "ct_comm (set_family k f ct) = ct_comm ct"
  "ct_active (set_family k f ct) = ct_active ct" "ct_range (set_family k f ct) = ct_range ct"
  "ct_sparse_env (set_family k f ct) = ct_sparse_env ct"
  "ct_mtp (register_layer_cache parse c n ct) = ct_mtp ct" "ct_comm (register_layer_cache parse c n ct) = ct_comm ct"
  "ct_active (register_layer_cache parse c n ct) = ct_active ct" "ct_range (register_layer_cache parse c n ct) = ct_range ct"
  "ct_sparse_env (register_layer_cache parse c n ct) = ct_sparse_env ct"
  "ct_mtp (family_state k ct) = ct_mtp ct" "ct_comm (family_state k ct) = ct_comm ct"
  "ct_active (family_state k ct) = ct_active ct" "ct_range (family_state k ct) = ct_range ct"
  "ct_sparse_env (family_state k ct) = ct_sparse_env ct"
  by (simp_all add: set_family_def register_layer_cache_def family_state_def split: sum.splits)

lemma active_ids_cong:
  "ct_active a = ct_active b \<Longrightarrow> ct_range a = ct_range b \<Longrightarrow> ct_sparse_env a = ct_sparse_env b \<Longrightarrow>
     active_block_ids_for c a = active_block_ids_for c b"
  by (simp add: active_block_ids_for_def sparse_broadcast_enabled_def)

lemma prepare_cong:
  "ct_active a = ct_active b \<Longrightarrow> ct_range a = ct_range b \<Longrightarrow> ct_sparse_env a = ct_sparse_env b \<Longrightarrow>
     prepare_remote_selection c l a f = prepare_remote_selection c l b f"
  using active_ids_cong [of a b c] by (simp add: prepare_remote_selection_def)

lemma rank_fields [simp]:
  "rk_rank (update_ctl f g) = rk_rank g" "rk_rt (update_ctl f g) = rk_rt g" "rk_ctl (update_ctl f g) = f (rk_ctl g)"
  "rk_mem (update_ctl f g) = rk_mem g" "rk_slot (update_ctl f g) = rk_slot g"
  "rk_rank (modify_rows c u g) = rk_rank g" "rk_rt (modify_rows c u g) = rk_rt g" "rk_ctl (modify_rows c u g) = rk_ctl g"
  "rk_slot (modify_rows c u g) = rk_slot g"
  "rk_rank (write_rows c i p g) = rk_rank g" "rk_rt (write_rows c i p g) = rk_rt g" "rk_ctl (write_rows c i p g) = rk_ctl g"
  "rk_slot (write_rows c i p g) = rk_slot g"
  by (simp_all add: update_ctl_def modify_rows_def write_rows_def)

lemma rank_state_simps [simp]:
  "rank_state_of (update_ctl f g) = rank_state_of g" "rank_state_of (modify_rows c u g) = rank_state_of g"
  by (simp_all add: rank_state_of_def)

lemma read_rows_ctl [simp]: "read_rows c ids (g\<lparr>rk_ctl := ct\<rparr>) = read_rows c ids g"
  by (simp add: read_rows_def)

lemma modify_rows_ctl [simp]: "(modify_rows c u (g\<lparr>rk_ctl := ct\<rparr>))\<lparr>rk_ctl := ct'\<rparr> = (modify_rows c u g)\<lparr>rk_ctl := ct'\<rparr>"
  by (simp add: modify_rows_def)

lemma write_rows_ctl [simp]: "(write_rows c i p (g\<lparr>rk_ctl := ct\<rparr>))\<lparr>rk_ctl := ct'\<rparr> = (write_rows c i p g)\<lparr>rk_ctl := ct'\<rparr>"
  by (simp add: write_rows_def)

lemma sync_is_plan:
  "broadcast_tensor_from_owner c key layer owner g = run_plan c (rk_rank g) (sync_plan c key layer owner (rk_ctl g)) g"
  by (auto simp: broadcast_tensor_from_owner_def sync_plan_def run_plan_def broadcast_selected_blocks_def Let_def
      update_ctl_def split: prod.splits)

lemma run_plan_ctl: "run_plan c r pl (g\<lparr>rk_ctl := ct\<rparr>) = run_plan c r pl g"
  by (auto simp: run_plan_def split: plan.splits)

lemma broadcast_is_plan:
  assumes "numel c \<noteq> 0" and "\<not> ct_mtp (rk_ctl g)" and "rank_state_of g = Inr (Some st)"
    and "parse name = Inr layer" and "covers st layer" and "owner_of st layer = Inr owner"
  shows "broadcast_dsa_cache_from_owner parse c name g = run_plan c (rk_rank g) (bcast_plan parse c name layer owner (rk_ctl g)) g"
proof -
  let ?ct = "read_ctl parse c name layer (rk_ctl g)"
  have "broadcast_dsa_cache_from_owner parse c name g =
      (if remote_layer_id (family_of (family_key c name) ?ct) = Some layer \<and> remote_full (family_of (family_key c name) ?ct)
       then Done (g\<lparr>rk_ctl := ?ct\<rparr>)
       else broadcast_tensor_from_owner c (family_key c name) layer owner (g\<lparr>rk_ctl := ?ct\<rparr>))"
    using assms by (auto simp: broadcast_dsa_cache_from_owner_def check_act_def read_ctl_def Let_def update_ctl_def)
  then show ?thesis
    by (simp add: bcast_plan_def Let_def sync_is_plan run_plan_ctl) (simp add: run_plan_def)
qed

lemma async_is_plan:
  assumes "\<And>ct. \<not> ct_mtp ct \<Longrightarrow> fallback (g\<lparr>rk_ctl := ct\<rparr>) = run_plan c r (fb ct) g" and "\<not> ct_mtp (rk_ctl g)"
  shows "broadcast_tensor_from_owner_async c key layer owner r fallback g = run_plan c r (async_plan c key layer owner fb (rk_ctl g)) g"
proof -
  obtain ids full needs f where prep: "prepare_remote_selection c layer (rk_ctl g) (family_of key (rk_ctl g)) = ((ids, full, needs), f)"
    by (metis prod_cases3 surj_pair)
  have self: "fallback g = run_plan c r (fb (rk_ctl g)) g" using assms(1) [OF assms(2)] by simp
  show ?thesis
  proof (cases "ct_comm (rk_ctl g) \<and> needs")
    case True
    then show ?thesis
      by (auto simp: broadcast_tensor_from_owner_async_def async_plan_def prep Let_def broadcast_selected_blocks_def
          run_plan_def update_ctl_def fun_eq_iff)
  next
    case False
    then show ?thesis
      using assms self by (auto simp: broadcast_tensor_from_owner_async_def async_plan_def prep Let_def update_ctl_def)
  qed
qed

lemma prefetch_is_plan:
  assumes "numel c \<noteq> 0" and "\<not> ct_mtp (rk_ctl g)" and "rank_state_of g = Inr (Some st)"
    and "parse name = Inr layer" and "covers st layer" and "owner_of st layer = Inr owner"
    and "shard_rank st = rk_rank g"
  shows "prefetch_dsa_cache_from_owner parse c name g = run_plan c (rk_rank g) (prefetch_plan parse c name layer owner (rk_ctl g)) g"
proof -
  let ?key = "family_key c name" and ?ct = "prefetch_ctl parse c name (rk_ctl g)"
  let ?f = "family_of ?key ?ct"
  let ?ct2 = "set_family ?key (if pending_remote_broadcast ?f then finalize_pending_broadcast False ?f else ?f) ?ct"
  have fb: "broadcast_dsa_cache_from_owner parse c name ((g\<lparr>rk_ctl := ?ct2\<rparr>)\<lparr>rk_ctl := ct\<rparr>)
      = run_plan c (rk_rank g) (bcast_plan parse c name layer owner ct) (g\<lparr>rk_ctl := ?ct2\<rparr>)" if "\<not> ct_mtp ct" for ct
  proof -
    have "rank_state_of (g\<lparr>rk_ctl := ct\<rparr>) = Inr (Some st)" using assms(3) by (simp add: rank_state_of_def)
    then show ?thesis using broadcast_is_plan [of c "g\<lparr>rk_ctl := ct\<rparr>"] assms that by (simp add: run_plan_ctl)
  qed
  have mtp: "\<not> ct_mtp ?ct2" using assms(2) by (simp add: prefetch_ctl_def)
  have "prefetch_dsa_cache_from_owner parse c name g =
      (if remote_layer_id ?f = Some layer then Done (g\<lparr>rk_ctl := ?ct\<rparr>)
       else if pending_remote_broadcast ?f \<and> pending_remote_layer_id ?f = Some layer then Done (g\<lparr>rk_ctl := ?ct\<rparr>)
       else broadcast_tensor_from_owner_async c ?key layer owner (rk_rank g)
              (broadcast_dsa_cache_from_owner parse c name) (g\<lparr>rk_ctl := ?ct2\<rparr>))"
    using assms by (auto simp: prefetch_dsa_cache_from_owner_def check_act_def Let_def update_ctl_def prefetch_ctl_def)
  moreover have "broadcast_tensor_from_owner_async c ?key layer owner (rk_rank g)
        (broadcast_dsa_cache_from_owner parse c name) (g\<lparr>rk_ctl := ?ct2\<rparr>)
      = run_plan c (rk_rank g) (async_plan c ?key layer owner (bcast_plan parse c name layer owner) ?ct2) g"
    using async_is_plan [where fallback = "broadcast_dsa_cache_from_owner parse c name" and g = "g\<lparr>rk_ctl := ?ct2\<rparr>"
        and c = c and r = "rk_rank g" and fb = "bcast_plan parse c name layer owner" and key = ?key and layer = layer and owner = owner]
      fb mtp by (simp add: run_plan_ctl)
  ultimately show ?thesis by (simp add: prefetch_plan_def Let_def run_plan_def)
qed

section \<open>Lockstep\<close>

definition after_plan :: "cache \<Rightarrow> plan \<Rightarrow> rank list \<Rightarrow> rank \<Rightarrow> rank" where
  "after_plan c pl gs g =
     (case pl of
        Quiet ct \<Rightarrow> g\<lparr>rk_ctl := ct\<rparr>
      | Send owner rows ct \<Rightarrow>
          (if rk_rank g \<noteq> owner then write_rows c rows (read_rows c rows (gs ! nat owner)) g else g)\<lparr>rk_ctl := ct\<rparr>)"

lemma lockstep_plan:
  assumes ne: "gs \<noteq> []" and owner: "\<And>ow rows ct. pl = Send ow rows ct \<Longrightarrow> 0 \<le> ow \<and> ow < int (length gs)"
  shows "lockstep (Suc (Suc k)) (map (\<lambda>g. run_plan c (rk_rank g) pl g) gs) = Some (Inr (map (after_plan c pl gs) gs))"
proof (cases pl)
  case (Quiet ct)
  then show ?thesis by (simp add: run_plan_def list_all_iff after_plan_def comp_def)
next
  case (Send ow rows ct)
  let ?acts = "map (\<lambda>g. run_plan c (rk_rank g) pl g) gs"
  have ow: "nat ow < length gs" using owner [OF Send] by auto
  have hd: "hd ?acts = run_plan c (rk_rank (hd gs)) pl (hd gs)" using ne by (simp add: hd_map)
  have "\<not> list_all is_Done ?acts" "\<not> list_all is_Raised ?acts"
    using ne by (cases gs; simp add: run_plan_def Send)+
  moreover have "same_collective ?acts"
    using ne owner [OF Send] unfolding same_collective_def hd
    by (auto simp: list_all_iff run_plan_def Send read_rows_def)
  moreover have "act_rows (?acts ! nat (act_owner (hd ?acts))) = read_rows c rows (gs ! nat ow)"
    unfolding hd using ow by (simp add: run_plan_def Send)
  ultimately have "lockstep (Suc (Suc k)) ?acts = lockstep (Suc k) (map (\<lambda>a. act_cont a (read_rows c rows (gs ! nat ow))) ?acts)"
    by (simp del: map_map)
  also have "\<dots> = Some (Inr (map (after_plan c pl gs) gs))"
    by (simp add: list_all_iff run_plan_def Send after_plan_def comp_def)
  finally show ?thesis .
qed

section \<open>Calls on a group\<close>

datatype group_call =
    Set_active "int list list"
  | Clear_active
  | Register "(string \<times> cache) list"
  | Broadcast cache string
  | Prefetch cache string
  | Prefetch_same int
  | Prefetch_next int cache_kind
  | Mla_update cache string "(int \<times> (int \<Rightarrow> int)) list"
  | Indexer_update cache string "(int \<times> (int \<Rightarrow> int)) list"

definition run_group_call :: "(string \<Rightarrow> int result) \<Rightarrow> group_call \<Rightarrow> rank \<Rightarrow> rank action" where
  "run_group_call parse call g =
     (case call of
        Set_active tables \<Rightarrow> Done (update_ctl (set_active_dsa_broadcast_block_ids_from_tables tables) g)
      | Clear_active \<Rightarrow> Done (update_ctl clear_active_dsa_broadcast_block_ids g)
      | Register caches \<Rightarrow> Done (register_dsa_cache_tensors parse caches g)
      | Broadcast c n \<Rightarrow> broadcast_dsa_cache_from_owner parse c n g
      | Prefetch c n \<Rightarrow> prefetch_dsa_cache_from_owner parse c n g
      | Prefetch_same i \<Rightarrow> maybe_prefetch_same_layer_mla_cache parse i g
      | Prefetch_next i kind \<Rightarrow> maybe_prefetch_next_dsa_cache parse i kind g
      | Mla_update c n ups \<Rightarrow> mla_cache_update parse c n ups g
      | Indexer_update c n ups \<Rightarrow> indexer_cache_update parse c n ups g)"

definition group_run :: "(string \<Rightarrow> int result) \<Rightarrow> group_call \<Rightarrow> rank list \<Rightarrow> (exn list + rank list) option" where
  "group_run parse call gs = lockstep 3 (map (run_group_call parse call) gs)"

text \<open>
  The ranks of a group: numbered, with the split state installed, and with equal bookkeeping.
\<close>

definition group_ok :: "int \<Rightarrow> rank list \<Rightarrow> bool" where
  "group_ok N gs \<longleftrightarrow> gs \<noteq> [] \<and> 0 \<le> N
     \<and> (\<forall>i < length gs. rk_rank (gs ! i) = int i \<and> rt_installed (rk_rt (gs ! i))
          \<and> rt_state (rk_rt (gs ! i)) = Some (rank_state (int i) (int (length gs)) N))
     \<and> (\<forall>g \<in> set gs. rk_ctl g = rk_ctl (hd gs))"

lemma group_mem:
  assumes "group_ok N gs" and "g \<in> set gs"
  shows "rank_state_of g = Inr (Some (rank_state (rk_rank g) (int (length gs)) N))"
    and "rk_ctl g = rk_ctl (hd gs)" and "0 \<le> rk_rank g" and "rk_rank g < int (length gs)" and "rt_state (rk_rt g) \<noteq> None"
proof -
  obtain i where i: "i < length gs" "g = gs ! i" using assms(2) by (auto simp: in_set_conv_nth)
  have g: "rk_rank g = int i" "rt_installed (rk_rt g)" "rt_state (rk_rt g) = Some (rank_state (int i) (int (length gs)) N)"
    using assms(1) i unfolding group_ok_def by blast+
  then show "rank_state_of g = Inr (Some (rank_state (rk_rank g) (int (length gs)) N))" "0 \<le> rk_rank g"
      "rk_rank g < int (length gs)" "rt_state (rk_rt g) \<noteq> None"
    using i(1) by (simp_all add: rank_state_of_def get_runtime_layer_split_state_def)
  show "rk_ctl g = rk_ctl (hd gs)" using assms unfolding group_ok_def by blast
qed

text \<open>What a call does on all ranks alike: a local step, then nothing, an exception or a plan.\<close>

definition local_step :: "(rank \<Rightarrow> rank) \<Rightarrow> rank list \<Rightarrow> bool" where
  "local_step F gs \<longleftrightarrow> (\<forall>g \<in> set gs. rk_rank (F g) = rk_rank g \<and> rk_rt (F g) = rk_rt g
     \<and> rk_ctl (F g) = rk_ctl (F (hd gs)))"

definition uniform :: "(rank \<Rightarrow> rank action) \<Rightarrow> rank list \<Rightarrow> bool" where
  "uniform act gs \<longleftrightarrow> (\<exists>F. local_step F gs \<and>
     ((\<forall>g \<in> set gs. act g = Done (F g)) \<or> (\<exists>e. \<forall>g \<in> set gs. act g = Raised e (F g))
      \<or> (\<exists>c pl. (\<forall>ow rows ct. pl = Send ow rows ct \<longrightarrow> 0 \<le> ow \<and> ow < int (length gs))
           \<and> (\<forall>g \<in> set gs. act g = run_plan c (rk_rank g) pl (F g)))))"

lemma group_ok_map:
  assumes "group_ok N gs" and "\<And>g. g \<in> set gs \<Longrightarrow> rk_rank (F g) = rk_rank g \<and> rk_rt (F g) = rk_rt g \<and> rk_ctl (F g) = rk_ctl (F (hd gs))"
  shows "group_ok N (map F gs)"
  unfolding group_ok_def
proof (intro conjI allI impI ballI)
  show "map F gs \<noteq> []" "0 \<le> N" using assms(1) by (auto simp: group_ok_def)
  fix i assume i: "i < length (map F gs)"
  then have "rk_rank (gs ! i) = int i" "rt_installed (rk_rt (gs ! i))"
      "rt_state (rk_rt (gs ! i)) = Some (rank_state (int i) (int (length gs)) N)"
    using assms(1) unfolding group_ok_def by (metis length_map)+
  then show "rk_rank (map F gs ! i) = int i" "rt_installed (rk_rt (map F gs ! i))"
      "rt_state (rk_rt (map F gs ! i)) = Some (rank_state (int i) (int (length (map F gs))) N)"
    using assms(2) [of "gs ! i"] i by simp_all
next
  fix h assume "h \<in> set (map F gs)"
  then obtain g where "g \<in> set gs" "h = F g" by auto
  moreover have "hd (map F gs) = F (hd gs)" using assms(1) by (simp add: group_ok_def hd_map)
  ultimately show "rk_ctl h = rk_ctl (hd (map F gs))" using assms(2) by simp
qed

lemma uniform_lockstep:
  assumes ok: "group_ok N gs" and u: "uniform act gs"
  shows "\<exists>res. lockstep (Suc (Suc k)) (map act gs) = Some res \<and> (\<forall>gs'. res = Inr gs' \<longrightarrow> group_ok N gs')"
proof -
  have ne: "gs \<noteq> []" using ok by (simp add: group_ok_def)
  obtain F where F: "local_step F gs"
    and cases: "(\<forall>g \<in> set gs. act g = Done (F g)) \<or> (\<exists>e. \<forall>g \<in> set gs. act g = Raised e (F g))
      \<or> (\<exists>c pl. (\<forall>ow rows ct. pl = Send ow rows ct \<longrightarrow> 0 \<le> ow \<and> ow < int (length gs))
           \<and> (\<forall>g \<in> set gs. act g = run_plan c (rk_rank g) pl (F g)))"
    using u unfolding uniform_def by blast
  have okF: "group_ok N (map F gs)" using F by (intro group_ok_map [OF ok]) (auto simp: local_step_def)
  from cases show ?thesis
  proof (elim disjE exE conjE)
    assume "\<forall>g \<in> set gs. act g = Done (F g)"
    then have "map act gs = map (\<lambda>g. Done (F g)) gs" by simp
    then have "lockstep (Suc (Suc k)) (map act gs) = Some (Inr (map F gs))"
      by (simp only: lockstep.simps) (simp add: list_all_iff comp_def)
    then show ?thesis using okF by simp
  next
    fix e assume "\<forall>g \<in> set gs. act g = Raised e (F g)"
    then have "map act gs = map (\<lambda>g. Raised e (F g)) gs" by simp
    then have "lockstep (Suc (Suc k)) (map act gs) = Some (Inl (map (\<lambda>_. e) gs))"
      using ne by (cases gs) (simp_all only: lockstep.simps, simp_all add: list_all_iff)
    then show ?thesis by simp
  next
    fix c pl
    assume pl: "\<forall>ow rows ct. pl = Send ow rows ct \<longrightarrow> 0 \<le> ow \<and> ow < int (length gs)"
      and act: "\<forall>g \<in> set gs. act g = run_plan c (rk_rank g) pl (F g)"
    have "map act gs = map (\<lambda>g. run_plan c (rk_rank g) pl g) (map F gs)"
      using act F by (auto simp: local_step_def)
    moreover have "lockstep (Suc (Suc k)) (map (\<lambda>g. run_plan c (rk_rank g) pl g) (map F gs))
        = Some (Inr (map (after_plan c pl (map F gs)) (map F gs)))"
      using pl ne by (intro lockstep_plan) auto
    moreover have "group_ok N (map (after_plan c pl (map F gs)) (map F gs))"
      by (intro group_ok_map [OF okF]) (auto simp: after_plan_def split: plan.splits)
    ultimately show ?thesis by (simp del: map_map)
  qed
qed

lemma local_id: "group_ok N gs \<Longrightarrow> local_step (\<lambda>g. g) gs"
  unfolding local_step_def group_ok_def by blast

lemma uniform_done: "group_ok N gs \<Longrightarrow> (\<And>g. g \<in> set gs \<Longrightarrow> act g = Done g) \<Longrightarrow> uniform act gs"
  unfolding uniform_def using local_id by blast

lemma uniform_raised: "group_ok N gs \<Longrightarrow> (\<And>g. g \<in> set gs \<Longrightarrow> act g = Raised e g) \<Longrightarrow> uniform act gs"
  unfolding uniform_def using local_id by blast

text \<open>The owner of a covered layer is a rank of the group and every rank knows it.\<close>

lemma group_owner:
  assumes ok: "group_ok N gs" and L: "0 \<le> L" "L < N"
  obtains ow where "0 \<le> ow" "ow < int (length gs)"
    "\<And>g. g \<in> set gs \<Longrightarrow> owner_of (rank_state (rk_rank g) (int (length gs)) N) L = Inr ow
       \<and> is_owned (rank_state (rk_rank g) (int (length gs)) N) L = Inr (rk_rank g = ow)"
proof -
  have "0 < int (length gs)" using ok by (simp add: group_ok_def)
  then obtain k where k: "k < nat (int (length gs))" "get_layer_owner L (int (length gs)) N = Inr (int k)"
    using owner_obtain [of "int (length gs)" L N] L by metis
  have "owner_of (rank_state (rk_rank g) (int (length gs)) N) L = Inr (int k)
      \<and> is_owned (rank_state (rk_rank g) (int (length gs)) N) L = Inr (rk_rank g = int k)" if g: "g \<in> set gs" for g
  proof -
    let ?st = "rank_state (rk_rank g) (int (length gs)) N"
    have st: "state_ok ?st" "covers ?st L"
      using group_mem(3,4) [OF ok g] L by (auto simp: state_ok_def rank_state_def covers_def local_index_def)
    have "owner_of ?st L = Inr (int k)" using st(2) k(2) by (simp add: owner_of_def) (simp add: rank_state_def local_index_def)
    then show ?thesis using is_owned_iff [OF st] by (auto simp: rank_state_def)
  qed
  then show thesis using that [of "int k"] k(1) by auto
qed

lemma covers_rank_state [simp]: "covers (rank_state r s N) L \<longleftrightarrow> 0 \<le> L \<and> L < N"
  by (simp add: covers_def rank_state_def local_index_def)

lemma shard_rank_rank_state [simp]: "shard_rank (rank_state r s N) = r"
  by (simp add: rank_state_def)

lemma uniform_broadcast_after:
  assumes ok: "group_ok N gs" and F: "local_step F gs"
  shows "uniform (\<lambda>g. broadcast_dsa_cache_from_owner parse c n (F g)) gs"
proof -
  have st: "rank_state_of (F g) = Inr (Some (rank_state (rk_rank g) (int (length gs)) N))" if "g \<in> set gs" for g
    using group_mem(1) [OF ok that] F that by (simp add: local_step_def rank_state_of_def)
  have ctl: "rk_ctl (F g) = rk_ctl (F (hd gs))" "rk_rank (F g) = rk_rank g" if "g \<in> set gs" for g
    using F that by (auto simp: local_step_def)
  let ?ct = "rk_ctl (F (hd gs))"
  show ?thesis
  proof (cases "numel c = 0 \<or> ct_mtp ?ct")
    case True
    then have "\<forall>g \<in> set gs. broadcast_dsa_cache_from_owner parse c n (F g) = Done (F g)"
      using ctl by (auto simp: broadcast_dsa_cache_from_owner_def)
    then show ?thesis unfolding uniform_def using F by blast
  next
    case live: False
    show ?thesis
    proof (cases "parse n")
      case (Inl e)
      then have "\<forall>g \<in> set gs. broadcast_dsa_cache_from_owner parse c n (F g) = Raised e (F g)"
        using live ctl st by (auto simp: broadcast_dsa_cache_from_owner_def check_act_def)
      then show ?thesis unfolding uniform_def using F by blast
    next
      case (Inr L)
      show ?thesis
      proof (cases "0 \<le> L \<and> L < N")
        case False
        then have "\<forall>g \<in> set gs. broadcast_dsa_cache_from_owner parse c n (F g) = Done (F g)"
          using live ctl st Inr by (auto simp: broadcast_dsa_cache_from_owner_def check_act_def)
        then show ?thesis unfolding uniform_def using F by blast
      next
        case True
        obtain ow where ow: "0 \<le> ow" "ow < int (length gs)"
          "\<And>g. g \<in> set gs \<Longrightarrow> owner_of (rank_state (rk_rank g) (int (length gs)) N) L = Inr ow"
          using group_owner [OF ok] True by metis
        let ?pl = "bcast_plan parse c n L ow ?ct"
        have "broadcast_dsa_cache_from_owner parse c n (F g) = run_plan c (rk_rank g) ?pl (F g)" if g: "g \<in> set gs" for g
          using broadcast_is_plan [of c "F g" _ parse n L ow] live ctl [OF g] st [OF g] Inr True ow(3) [OF g] by simp
        moreover have "0 \<le> ow' \<and> ow' < int (length gs)" if "?pl = Send ow' rows ct" for ow' rows ct
          using that ow(1,2) by (auto simp: bcast_plan_def sync_plan_def Let_def split: if_splits prod.splits)
        ultimately show ?thesis unfolding uniform_def using F by blast
      qed
    qed
  qed
qed

lemma uniform_prefetch:
  assumes ok: "group_ok N gs"
  shows "uniform (prefetch_dsa_cache_from_owner parse c n) gs"
proof -
  note st = group_mem(1) [OF ok] and ctl = group_mem(2) [OF ok]
  let ?ct = "rk_ctl (hd gs)"
  show ?thesis
  proof (cases "numel c = 0 \<or> ct_mtp ?ct")
    case True
    then show ?thesis using ctl by (intro uniform_done [OF ok]) (auto simp: prefetch_dsa_cache_from_owner_def)
  next
    case live: False
    show ?thesis
    proof (cases "parse n")
      case (Inl e)
      then show ?thesis using live ctl st
        by (intro uniform_raised [OF ok, where e = e]) (auto simp: prefetch_dsa_cache_from_owner_def check_act_def)
    next
      case (Inr L)
      show ?thesis
      proof (cases "0 \<le> L \<and> L < N")
        case False
        then show ?thesis using live ctl st Inr
          by (intro uniform_done [OF ok]) (auto simp: prefetch_dsa_cache_from_owner_def check_act_def)
      next
        case True
        obtain ow where ow: "0 \<le> ow" "ow < int (length gs)"
          "\<And>g. g \<in> set gs \<Longrightarrow> owner_of (rank_state (rk_rank g) (int (length gs)) N) L = Inr ow"
          using group_owner [OF ok] True by metis
        let ?pl = "prefetch_plan parse c n L ow ?ct"
        have "prefetch_dsa_cache_from_owner parse c n g = run_plan c (rk_rank g) ?pl g" if g: "g \<in> set gs" for g
          using prefetch_is_plan [of c g _ parse n L ow] live ctl [OF g] st [OF g] Inr True ow(3) [OF g] by simp
        moreover have "0 \<le> ow' \<and> ow' < int (length gs)" if "?pl = Send ow' rows ct" for ow' rows ct
          using that ow(1,2)
          by (auto simp: prefetch_plan_def async_plan_def bcast_plan_def sync_plan_def Let_def split: if_splits prod.splits)
        ultimately show ?thesis unfolding uniform_def using local_id [OF ok] by blast
      qed
    qed
  qed
qed

lemma uniform_cong: "(\<And>g. g \<in> set gs \<Longrightarrow> a g = b g) \<Longrightarrow> uniform b gs \<Longrightarrow> uniform a gs"
  unfolding uniform_def by (metis (no_types, lifting))

lemma uniform_if: "(b \<Longrightarrow> uniform x gs) \<Longrightarrow> (\<not> b \<Longrightarrow> uniform y gs) \<Longrightarrow> uniform (\<lambda>g. if b then x g else y g) gs"
  by (cases b) auto

lemma uniform_prefetch_registered:
  assumes ok: "group_ok N gs"
  shows "uniform (prefetch_registered_layer parse i kind) gs"
proof -
  let ?entry = "case dict_get (ct_registry (rk_ctl (hd gs))) i of None \<Rightarrow> None | Some slot \<Rightarrow> dict_get slot kind"
  note ctl = group_mem(2) [OF ok]
  show ?thesis
  proof (cases ?entry)
    case None
    then show ?thesis using ctl
      by (intro uniform_done [OF ok]) (auto simp: prefetch_registered_layer_def split: option.splits)
  next
    case (Some c)
    let ?n = "''model.layers.'' @ str_int i @ (if kind = Indexer then ''.self_attn.indexer'' else ''.self_attn.attn'')"
    have "prefetch_registered_layer parse i kind g = prefetch_dsa_cache_from_owner parse c ?n g" if "g \<in> set gs" for g
      using Some ctl [OF that] by (auto simp: prefetch_registered_layer_def split: option.splits)
    then show ?thesis by (rule uniform_cong) (auto intro: uniform_prefetch [OF ok])
  qed
qed

lemma ctl_step:
  assumes ok: "group_ok N gs"
  shows "local_step (update_ctl h) gs"
  unfolding local_step_def
proof
  fix g assume "g \<in> set gs"
  then have "rk_ctl g = rk_ctl (hd gs)" by (rule group_mem(2) [OF ok])
  then show "rk_rank (update_ctl h g) = rk_rank g \<and> rk_rt (update_ctl h g) = rk_rt g
      \<and> rk_ctl (update_ctl h g) = rk_ctl (update_ctl h (hd gs))" by simp
qed

lemma local_step_cong:
  assumes "local_step F gs" and "\<And>g. g \<in> set gs \<Longrightarrow> G g = F g" and "group_ok N gs"
  shows "local_step G gs"
proof -
  have "hd gs \<in> set gs" using assms(3) by (simp add: group_ok_def)
  then have "G (hd gs) = F (hd gs)" by (rule assms(2))
  then show ?thesis using assms(1,2) by (simp add: local_step_def)
qed

lemma begin_write_local:
  assumes ok: "group_ok N gs"
  obtains b where "\<And>g. g \<in> set gs \<Longrightarrow> fst (begin_mla_dsa_cache_write parse c n g) = Inr b"
    "local_step (\<lambda>g. snd (begin_mla_dsa_cache_write parse c n g)) gs"
proof (cases "numel c = 0 \<or> (\<exists>e. parse n = Inl e)")
  case True
  then have "begin_mla_dsa_cache_write parse c n g = (Inr False, g)" for g
    by (auto simp: begin_mla_dsa_cache_write_def)
  then show thesis using that [of False] local_id [OF ok] by simp
next
  case False
  then obtain L where L: "parse n = Inr L" "numel c \<noteq> 0" by (cases "parse n") auto
  let ?ct = "rk_ctl (hd gs)" and ?key = "family_key c n"
  let ?f0 = "family_of ?key ?ct"
  let ?f1 = "if pending_remote_layer_id ?f0 = Some L then finalize_pending_broadcast True ?f0 else ?f0"
  obtain x y needs f2 where prep: "prepare_remote_selection c L ?ct ?f1 = ((x, y, needs), f2)" by (metis prod_cases3 surj_pair)
  have run: "begin_mla_dsa_cache_write parse c n g = (Inr (remote_layer_id f2 = Some L \<and> \<not> needs), update_ctl (set_family ?key f2) g)"
    if "g \<in> set gs" for g
    using L prep group_mem(1,2) [OF ok that] by (simp add: begin_mla_dsa_cache_write_def Let_def)
  have "local_step (\<lambda>g. snd (begin_mla_dsa_cache_write parse c n g)) gs"
    by (rule local_step_cong [OF ctl_step [OF ok] _ ok]) (simp add: run)
  then show thesis using that run by simp
qed

lemma commits_group:
  assumes ok: "group_ok N gs" and g: "g \<in> set gs" and F: "rk_rt (F g) = rk_rt g" and n: "parse n = Inr L"
  shows "\<exists>b. commits parse n (F g) = Inr b"
proof -
  have "rank_state_of (F g) = rank_state_of g" using F by (simp add: rank_state_of_def)
  then have st: "rank_state_of (F g) = Inr (Some (rank_state (rk_rank g) (int (length gs)) N))"
    using group_mem(1) [OF ok g] by simp
  have "state_ok (rank_state (rk_rank g) (int (length gs)) N)"
    using group_mem(3,4) [OF ok g] ok by (simp add: state_ok_def rank_state_def group_ok_def)
  then have "\<exists>b. is_owned (rank_state (rk_rank g) (int (length gs)) N) L = Inr b"
    using is_owned_iff [of "rank_state (rk_rank g) (int (length gs)) N" L] by (cases "0 \<le> L \<and> L < N") (auto simp: is_owned_def)
  then show ?thesis using st n by (simp add: commits_def should_commit_durable_dsa_cache_def rank_state_of_def)
qed

lemma commits_error:
  assumes ok: "group_ok N gs" and g: "g \<in> set gs" and F: "rk_rt (F g) = rk_rt g" and n: "parse n = Inl e"
  shows "commits parse n (F g) = Inl e"
proof -
  have "rank_state_of (F g) = Inr (Some (rank_state (rk_rank g) (int (length gs)) N))"
    using group_mem(1) [OF ok g] F by (simp add: rank_state_of_def)
  then show ?thesis using n by (simp add: commits_def should_commit_durable_dsa_cache_def rank_state_of_def)
qed

lemma uniform_update:
  assumes ok: "group_ok N gs" and F: "local_step F gs"
  shows "uniform (\<lambda>g. check_act (commits parse n (F g)) (F g) (\<lambda>b.
    broadcast_dsa_cache_from_owner parse c n (if b \<or> u then modify_rows c ups (F g) else F g))) gs"
proof (cases "parse n")
  case (Inl e)
  have "\<forall>g \<in> set gs. check_act (commits parse n (F g)) (F g) (\<lambda>b.
      broadcast_dsa_cache_from_owner parse c n (if b \<or> u then modify_rows c ups (F g) else F g)) = Raised e (F g)"
    using commits_error [of N gs _ F parse n e] ok F Inl by (simp add: check_act_def local_step_def)
  then show ?thesis unfolding uniform_def using F by blast
next
  case (Inr L)
  let ?G = "\<lambda>g. if the (case commits parse n (F g) of Inr b \<Rightarrow> Some b | Inl _ \<Rightarrow> None) \<or> u then modify_rows c ups (F g) else F g"
  have G: "local_step ?G gs" using F by (auto simp: local_step_def)
  show ?thesis
  proof (rule uniform_cong [OF _ uniform_broadcast_after [OF ok G]])
    fix g assume g: "g \<in> set gs"
    then obtain b where "commits parse n (F g) = Inr b" using commits_group [of N gs g F parse n L] ok F Inr by (auto simp: local_step_def)
    then show "check_act (commits parse n (F g)) (F g) (\<lambda>b. broadcast_dsa_cache_from_owner parse c n
        (if b \<or> u then modify_rows c ups (F g) else F g)) = broadcast_dsa_cache_from_owner parse c n (?G g)"
      by (simp add: check_act_def)
  qed
qed

lemma uniform_local:
  assumes ok: "group_ok N gs"
  shows "uniform (\<lambda>g. Done (update_ctl h g)) gs"
proof -
  show ?thesis unfolding uniform_def using ctl_step [OF ok] by blast
qed

lemma group_call_uniform:
  assumes ok: "group_ok N gs"
  shows "uniform (run_group_call parse call) gs"
proof (cases call)
  case (Set_active tables)
  then show ?thesis
    by (intro uniform_cong [OF _ uniform_local [OF ok, of "set_active_dsa_broadcast_block_ids_from_tables tables"]])
      (simp add: run_group_call_def)
next
  case Clear_active
  then show ?thesis
    by (intro uniform_cong [OF _ uniform_local [OF ok, of clear_active_dsa_broadcast_block_ids]]) (simp add: run_group_call_def)
next
  case (Register caches)
  have "run_group_call parse call g = Done (update_ctl (fold (\<lambda>(n, c). register_layer_cache parse c n) caches) g)"
    if "g \<in> set gs" for g
    using group_mem(5) [OF ok that] by (auto simp: run_group_call_def Register register_dsa_cache_tensors_def)
  then show ?thesis by (rule uniform_cong) (auto intro: uniform_local [OF ok])
next
  case (Broadcast c n)
  then show ?thesis
    by (intro uniform_cong [OF _ uniform_broadcast_after [OF ok local_id [OF ok]]]) (simp add: run_group_call_def)
next
  case (Prefetch c n)
  then show ?thesis by (intro uniform_cong [OF _ uniform_prefetch [OF ok]]) (simp add: run_group_call_def)
next
  case (Prefetch_same i)
  have eq: "run_group_call parse call g = (if 0 \<le> i \<and> i < N then prefetch_registered_layer parse i Mla g else Done g)"
    if "g \<in> set gs" for g
    using group_mem(1) [OF ok that] by (simp add: run_group_call_def Prefetch_same maybe_prefetch_same_layer_mla_cache_def check_act_def)
  show ?thesis by (rule uniform_cong [OF eq]) (auto intro: uniform_if uniform_prefetch_registered [OF ok] uniform_done [OF ok])
next
  case (Prefetch_next i kind)
  have eq: "run_group_call parse call g
      = (if 0 \<le> i + 1 \<and> i + 1 < N then prefetch_registered_layer parse (i + 1) kind g else Done g)" if "g \<in> set gs" for g
    using group_mem(1) [OF ok that] by (simp add: run_group_call_def Prefetch_next maybe_prefetch_next_dsa_cache_def check_act_def)
  show ?thesis by (rule uniform_cong [OF eq]) (auto intro: uniform_if uniform_prefetch_registered [OF ok] uniform_done [OF ok])
next
  case (Mla_update c n ups)
  obtain u where u: "\<And>g. g \<in> set gs \<Longrightarrow> fst (begin_mla_dsa_cache_write parse c n g) = Inr u"
    "local_step (\<lambda>g. snd (begin_mla_dsa_cache_write parse c n g)) gs" using begin_write_local [OF ok] by metis
  let ?F = "\<lambda>g. snd (begin_mla_dsa_cache_write parse c n g)"
  have "run_group_call parse call g = check_act (commits parse n (?F g)) (?F g) (\<lambda>b.
      broadcast_dsa_cache_from_owner parse c n (if b \<or> u then modify_rows c ups (?F g) else ?F g))" if "g \<in> set gs" for g
  proof -
    have "begin_mla_dsa_cache_write parse c n g = (Inr u, ?F g)" using u(1) [OF that] by (metis prod.collapse)
    then have "run_group_call parse call g = (case (Inr u :: bool result, ?F g) of (Inl e, g1) \<Rightarrow> Raised e g1
        | (Inr updatable, g1) \<Rightarrow> check_act (commits parse n g1) g1 (\<lambda>commit.
            broadcast_dsa_cache_from_owner parse c n (if commit \<or> updatable then modify_rows c ups g1 else g1)))"
      by (simp only: run_group_call_def Mla_update mla_cache_update_def group_call.case)
    then show ?thesis by (simp only: prod.case sum.case)
  qed
  then show ?thesis by (rule uniform_cong) (auto intro: uniform_update [OF ok u(2)])
next
  case (Indexer_update c n ups)
  let ?F = "update_ctl (invalidate_dsa_cache_broadcast parse c n)"
  have F: "local_step ?F gs" by (rule ctl_step [OF ok])
  have "run_group_call parse call g = check_act (commits parse n (?F g)) (?F g) (\<lambda>b.
      broadcast_dsa_cache_from_owner parse c n (if b \<or> False then modify_rows c ups (?F g) else ?F g))" for g
    by (simp add: run_group_call_def Indexer_update indexer_cache_update_def Let_def)
  then show ?thesis by (intro uniform_cong [OF _ uniform_update [OF ok F]]) blast
qed

section \<open>Properties\<close>

inductive group_trace :: "(string \<Rightarrow> int result) \<Rightarrow> rank list \<Rightarrow> group_call list \<Rightarrow> rank list \<Rightarrow> bool" for parse where
  group_start: "group_trace parse gs [] gs"
| group_step: "group_trace parse gs calls hs \<Longrightarrow> group_run parse call hs = Some (Inr ks) \<Longrightarrow>
    group_trace parse gs (calls @ [call]) ks"

lemma group_trace_ok: "group_trace parse gs calls hs \<Longrightarrow> group_ok N gs \<Longrightarrow> group_ok N hs"
proof (induction rule: group_trace.induct)
  case (group_step gs calls hs call ks)
  have "group_ok N hs" using group_step by simp
  then show ?case
    using uniform_lockstep [OF _ group_call_uniform, of N hs N 1 parse call] group_step.hyps(2)
    by (auto simp: group_run_def numeral_3_eq_3)
qed simp

text \<open>
  C36.  The collectives of a group always match: after any sequence of calls made alike on all
  ranks, the next call never gets stuck, every rank enters the same broadcasts with the same
  sizes, and the ranks' bookkeeping stays equal.
\<close>

theorem collectives_never_stuck:
  assumes "group_ok N gs" and "group_trace parse gs calls hs"
  shows "\<exists>res. group_run parse call hs = Some res \<and> (\<forall>ks. res = Inr ks \<longrightarrow> group_ok N ks)"
proof -
  have "group_ok N hs" using group_trace_ok assms by blast
  from uniform_lockstep [OF this group_call_uniform [OF this], of 1 parse call] show ?thesis
    by (simp only: group_run_def numeral_3_eq_3 One_nat_def)
qed


section \<open>Examples\<close>

definition sample_cache :: cache where
  "sample_cache = \<lparr>ca_id = 0, ca_shape = [4, 2], ca_dtype = ''bf16''\<rparr>"

definition sample_name :: string where
  "sample_name = ''model.layers.0.self_attn.attn''"

definition sample_rank :: "int \<Rightarrow> rank" where
  "sample_rank r =
     \<lparr>rk_ctl = \<lparr>ct_families = [], ct_active = None, ct_range = None, ct_registry = [], ct_sparse_env = None,
        ct_comm = True, ct_comm_init = True, ct_mtp = False\<rparr>,
      rk_rt = \<lparr>rt_env = [], rt_ambient = None, rt_pcp_rank = Inr r, rt_installed = True,
        rt_state = Some (rank_state r 2 2)\<rparr>,
      rk_rank = r, rk_slot = (\<lambda>i. i), rk_mem = (\<lambda>_ _. 0)\<rparr>"

lemma sample_group_ok: "group_ok 2 [sample_rank 0, sample_rank 1]"
  by (simp add: group_ok_def sample_rank_def less_Suc_eq)

lemma sample_trace:
  "group_trace (\<lambda>_. Inr 0) [sample_rank 0, sample_rank 1] [Set_active [[1, 2]]]
     (map (update_ctl (set_active_dsa_broadcast_block_ids_from_tables [[1, 2]])) [sample_rank 0, sample_rank 1])"
proof -
  let ?gs = "[sample_rank 0, sample_rank 1]" and ?h = "set_active_dsa_broadcast_block_ids_from_tables [[1, 2]]"
  have "group_run (\<lambda>_. Inr 0) (Set_active [[1, 2]]) ?gs = Some (Inr (map (update_ctl ?h) ?gs))"
    by (simp add: group_run_def run_group_call_def numeral_3_eq_3)
  then show ?thesis using group_step [OF group_start] by (metis append_Nil)
qed

text \<open>Two ranks, after the active blocks were set, read a layer they share.\<close>

theorem collectives_never_stuck_witness:
  "\<exists>res. group_run (\<lambda>_. Inr 0) (Broadcast sample_cache sample_name)
      (map (update_ctl (set_active_dsa_broadcast_block_ids_from_tables [[1, 2]])) [sample_rank 0, sample_rank 1]) = Some res
    \<and> (\<forall>ks. res = Inr ks \<longrightarrow> group_ok 2 ks)"
  by (rule collectives_never_stuck [OF sample_group_ok sample_trace])

fun group_runs :: "(string \<Rightarrow> int result) \<Rightarrow> group_call list \<Rightarrow> rank list \<Rightarrow> rank list option" where
  "group_runs parse [] gs = Some gs"
| "group_runs parse (call # calls) gs =
     (case group_run parse call gs of Some (Inr hs) \<Rightarrow> group_runs parse calls hs | _ \<Rightarrow> None)"

text \<open>
  The layer a family holds is written again after the active set grew: the probe answers that
  the remote copy is not complete, so only the owner writes, and the broadcast that follows sends
  the new rows alone.  Row 1 is 6 on the owner and still 5 on the other rank.
\<close>

lemma grown_active_set_leaves_stale_row:
  "map_option (map (read_rows sample_cache [1, 2])) (group_runs (\<lambda>_. Inr 0)
      [Set_active [[1]], Mla_update sample_cache sample_name [(1, \<lambda>_. 5)],
       Set_active [[1, 2]], Mla_update sample_cache sample_name [(1, \<lambda>_. 6), (2, \<lambda>_. 7)]]
      [sample_rank 0, sample_rank 1]) = Some [[6, 7], [5, 7]]"
  by code_simp

end
