(* ===== verification/Broadcast_Coherent.thy ===== *)
theory Broadcast_Coherent
  imports Broadcast_Group
begin

text \<open>
  The bookkeeping of the broadcast protocol is truthful: the rows it records as synchronized for
  a layer hold the owner's contents on every rank.  A read that goes through the protocol
  therefore sees the owner's rows, whatever slots the packed layout lets foreign layers share.
\<close>

section \<open>Truthful bookkeeping\<close>

type_synonym tensors = "family_key \<Rightarrow> int \<Rightarrow> cache"

definition owner_rank :: "int \<Rightarrow> rank list \<Rightarrow> int \<Rightarrow> int" where
  "owner_rank N gs L = (case get_layer_owner L (int (length gs)) N of Inr k \<Rightarrow> k | Inl _ \<Rightarrow> 0)"

definition row_at :: "rank \<Rightarrow> cache \<Rightarrow> nat \<Rightarrow> int" where
  "row_at g c x = rk_mem g (rk_slot g (ca_id c)) x"

definition rows_equal :: "rank list \<Rightarrow> cache \<Rightarrow> int \<Rightarrow> nat set \<Rightarrow> bool" where
  "rows_equal gs c ow X \<longleftrightarrow> (\<forall>x \<in> X. \<forall>g \<in> set gs. row_at g c x = row_at (gs ! nat ow) c x)"

definition known_rows :: "cache \<Rightarrow> family \<Rightarrow> nat set" where
  "known_rows c f =
     nat ` set (if remote_full f then pool_rows c else case remote_block_ids f of None \<Rightarrow> [] | Some xs \<Rightarrow> xs)"

definition pending_rows :: "cache \<Rightarrow> family \<Rightarrow> nat set" where
  "pending_rows c f =
     nat ` set (if pending_remote_full f then pool_rows c else case pending_remote_block_ids f of None \<Rightarrow> [] | Some xs \<Rightarrow> xs)"

definition remote_true :: "tensors \<Rightarrow> int \<Rightarrow> rank list \<Rightarrow> family_key \<Rightarrow> family \<Rightarrow> bool" where
  "remote_true T N gs key f \<longleftrightarrow>
     (remote_full f \<longrightarrow> remote_block_ids f = None)
     \<and> (\<forall>L. remote_layer_id f = Some L \<longrightarrow>
        0 \<le> L \<and> L < N \<and> rows_equal gs (T key L) (owner_rank N gs L) (known_rows (T key L) f))"

definition pending_true :: "tensors \<Rightarrow> int \<Rightarrow> rank list \<Rightarrow> family_key \<Rightarrow> family \<Rightarrow> bool" where
  "pending_true T N gs key f \<longleftrightarrow>
     (pending_remote_broadcast f \<longrightarrow>
        (\<exists>L. pending_remote_layer_id f = Some L \<and> 0 \<le> L \<and> L < N \<and> remote_layer_id f \<noteq> Some L
           \<and> remote_block_ids f = None \<and> \<not> remote_full f
           \<and> rows_equal gs (T key L) (owner_rank N gs L) (pending_rows (T key L) f)))
     \<and> (\<not> pending_remote_broadcast f \<longrightarrow> pending_remote_layer_id f = None)"

definition family_true :: "tensors \<Rightarrow> int \<Rightarrow> rank list \<Rightarrow> family_key \<Rightarrow> family \<Rightarrow> bool" where
  "family_true T N gs key f \<longleftrightarrow> remote_true T N gs key f \<and> pending_true T N gs key f"

definition all_true :: "tensors \<Rightarrow> int \<Rightarrow> rank list \<Rightarrow> control \<Rightarrow> bool" where
  "all_true T N gs ct \<longleftrightarrow> (\<forall>key. family_true T N gs key (family_of key ct))"

lemma all_true_set:
  "all_true T N gs ct \<Longrightarrow> family_true T N gs key f \<Longrightarrow> all_true T N gs (set_family key f ct)"
  by (simp add: all_true_def)

lemma all_trueD: "all_true T N gs ct \<Longrightarrow> family_true T N gs key (family_of key ct)"
  unfolding all_true_def by blast

lemma all_true_families: "ct_families a = ct_families b \<Longrightarrow> all_true T N gs a = all_true T N gs b"
  by (simp add: all_true_def family_of_def)

lemma all_true_register [simp]: "all_true T N gs (register_layer_cache parse c n ct) = all_true T N gs ct"
  by (simp add: all_true_def)

lemma all_true_state [simp]: "all_true T N gs (family_state k ct) = all_true T N gs ct"
  by (simp add: all_true_def)

lemma all_true_fold_register [simp]:
  "all_true T N gs (fold (\<lambda>(n, c). register_layer_cache parse c n) caches ct) = all_true T N gs ct"
proof (induction caches arbitrary: ct)
  case (Cons a caches)
  show ?case by (cases a) (simp add: Cons.IH)
qed simp

section \<open>Steps of the bookkeeping\<close>

lemma rows_equal_mono: "rows_equal gs c ow X \<Longrightarrow> Y \<subseteq> X \<Longrightarrow> rows_equal gs c ow Y"
  by (auto simp: rows_equal_def)

lemma rows_equal_Un: "rows_equal gs c ow (X \<union> Y) \<longleftrightarrow> rows_equal gs c ow X \<and> rows_equal gs c ow Y"
  by (auto simp: rows_equal_def)

lemma rows_equal_empty [simp]: "rows_equal gs c ow {}"
  by (simp add: rows_equal_def)

lemma record_known:
  "remote_layer_id (record_remote_selection L ids full f) = Some L"
  "remote_full (record_remote_selection L ids full f) \<longrightarrow> remote_block_ids (record_remote_selection L ids full f) = None"
  "(remote_full f \<longrightarrow> remote_block_ids f = None) \<Longrightarrow> known_rows c (record_remote_selection L ids full f) \<subseteq>
     (if full then nat ` set (pool_rows c)
      else (if remote_layer_id f = Some L \<and> \<not> remote_full f then known_rows c f else {})
           \<union> nat ` set (case ids of None \<Rightarrow> [] | Some xs \<Rightarrow> xs))"
  by (auto simp: record_remote_selection_def known_rows_def Let_def unique_sorted_def split: option.splits if_splits)

lemma record_keeps_pending [simp]:
  "pending_remote_broadcast (record_remote_selection L ids full f) = pending_remote_broadcast f"
  "pending_remote_layer_id (record_remote_selection L ids full f) = pending_remote_layer_id f"
  by (auto simp: record_remote_selection_def Let_def split: option.splits)

lemma record_true:
  assumes f: "remote_true T N gs key f" and L: "0 \<le> L" "L < N"
    and sent: "rows_equal gs (T key L) (owner_rank N gs L)
      (nat ` set (if full then pool_rows (T key L) else case ids of None \<Rightarrow> [] | Some xs \<Rightarrow> xs))"
  shows "remote_true T N gs key (record_remote_selection L ids full f)"
proof -
  have old: "rows_equal gs (T key L) (owner_rank N gs L) (if remote_layer_id f = Some L \<and> \<not> remote_full f then known_rows (T key L) f else {})"
    using f by (auto simp: remote_true_def)
  have "rows_equal gs (T key L) (owner_rank N gs L) (known_rows (T key L) (record_remote_selection L ids full f))"
    by (rule rows_equal_mono [OF _ record_known(3)]) (use sent old f in \<open>auto simp: rows_equal_Un remote_true_def\<close>)
  then show ?thesis using L record_known(2) by (simp add: remote_true_def record_known(1))
qed

lemma finalize_true:
  assumes f: "family_true T N gs key f"
  shows "family_true T N gs key (finalize_pending_broadcast b f)" and "\<not> pending_remote_broadcast (finalize_pending_broadcast b f)"
proof -
  show no: "\<not> pending_remote_broadcast (finalize_pending_broadcast b f)"
    by (auto simp: finalize_pending_broadcast_def Let_def split: option.splits)
  show "family_true T N gs key (finalize_pending_broadcast b f)"
  proof (cases "pending_remote_broadcast f")
    case False
    then show ?thesis using f by (simp add: finalize_pending_broadcast_def)
  next
    case True
    let ?f1 = "f\<lparr>pending_remote_broadcast := False\<rparr>"
    obtain L where L: "pending_remote_layer_id f = Some L" "0 \<le> L" "L < N"
        "rows_equal gs (T key L) (owner_rank N gs L) (pending_rows (T key L) f)"
      using f True by (auto simp: family_true_def pending_true_def)
    have same: "known_rows c (f'\<lparr>pending_remote_broadcast := False\<rparr>) = known_rows c f'" for c f' by (simp add: known_rows_def)
    have r1: "remote_true T N gs key ?f1" using f by (simp add: family_true_def remote_true_def same)
    have "remote_true T N gs key (record_remote_selection L (pending_remote_block_ids f) (pending_remote_full f) ?f1)"
      using L(4) by (intro record_true [OF r1 L(2,3)]) (simp add: pending_rows_def)
    moreover have "remote_true T N gs key (h\<lparr>pending_remote_layer_id := None, pending_remote_block_ids := None,
        pending_remote_full := False\<rparr>) = remote_true T N gs key h" for h
      by (simp add: remote_true_def known_rows_def)
    ultimately have "remote_true T N gs key (finalize_pending_broadcast b f)"
      using True L(1) r1 by (simp add: finalize_pending_broadcast_def Let_def)
    moreover have "pending_remote_layer_id (finalize_pending_broadcast b f) = None"
      using True by (simp add: finalize_pending_broadcast_def Let_def)
    ultimately show ?thesis using no by (simp add: family_true_def pending_true_def)
  qed
qed

lemma remote_true_shrink:
  assumes "remote_true T N gs key f" and "remote_layer_id f' = remote_layer_id f" and "\<And>c. known_rows c f' \<subseteq> known_rows c f"
    and "remote_full f' \<longrightarrow> remote_block_ids f' = None"
  shows "remote_true T N gs key f'"
  using assms rows_equal_mono unfolding remote_true_def by metis

lemma invalidate_family_true:
  assumes f: "family_true T N gs key f"
  shows "family_true T N gs key (invalidate_family active f)"
proof -
  let ?g = "if pending_remote_broadcast f then finalize_pending_broadcast True f else f"
  have g: "family_true T N gs key ?g" "\<not> pending_remote_broadcast ?g" using f finalize_true [OF f] by auto
  have "remote_layer_id (invalidate_family active f) = remote_layer_id ?g"
      "\<And>c. known_rows c (invalidate_family active f) \<subseteq> known_rows c ?g"
      "pending_remote_broadcast (invalidate_family active f) = pending_remote_broadcast ?g"
      "pending_remote_layer_id (invalidate_family active f) = pending_remote_layer_id ?g"
      "remote_full ?g \<longrightarrow> remote_block_ids ?g = None \<Longrightarrow>
        remote_full (invalidate_family active f) \<longrightarrow> remote_block_ids (invalidate_family active f) = None"
    by (auto simp: invalidate_family_def Let_def known_rows_def split: option.splits)
  moreover have "remote_full ?g \<longrightarrow> remote_block_ids ?g = None" using g(1) unfolding family_true_def remote_true_def by blast
  ultimately show ?thesis using g remote_true_shrink [of T N gs key ?g] by (simp add: family_true_def pending_true_def)
qed

lemma invalidate_all_true: "all_true T N gs ct \<Longrightarrow> all_true T N gs (invalidate_remote_broadcast_state active ct)"
proof -
  assume t: "all_true T N gs ct"
  have "map_of (map (\<lambda>(k, f). (k, h f)) d) k = map_option h (map_of d k)" for h :: "family \<Rightarrow> family" and d :: "(family_key, family) dict" and k
    by (induction d) auto
  then have "family_of k (invalidate_remote_broadcast_state active ct) =
      (if dict_get (ct_families ct) k = None then fresh_family else invalidate_family active (family_of k ct))" for k
    by (auto simp: family_of_def invalidate_remote_broadcast_state_def)
  moreover have "family_true T N gs k fresh_family" for k
    by (simp add: fresh_family_def family_true_def remote_true_def pending_true_def)
  ultimately show ?thesis using t invalidate_family_true by (auto simp: all_true_def)
qed

lemma prepare_facts:
  assumes "prepare_remote_selection c L ct f = ((ids, full, needs), f')"
  shows "remote_layer_id f' = remote_layer_id f" and "known_rows d f' \<subseteq> known_rows d f"
    and "pending_remote_broadcast f' = pending_remote_broadcast f" and "pending_remote_layer_id f' = pending_remote_layer_id f"
    and "remote_layer_id f \<noteq> Some L \<Longrightarrow> remote_block_ids f' = None \<and> \<not> remote_full f'"
    and "pending_remote_full f' = pending_remote_full f" and "pending_remote_block_ids f' = pending_remote_block_ids f"
    and "remote_layer_id f = Some L \<Longrightarrow> f' = f" and "full \<longleftrightarrow> ids = None"
proof -
  have f': "f' = (if remote_layer_id f \<noteq> Some L then f\<lparr>remote_block_ids := None, remote_full := False\<rparr> else f)"
    using assms by (auto simp: prepare_remote_selection_def Let_def split: option.splits if_splits)
  then show "remote_layer_id f' = remote_layer_id f" "known_rows d f' \<subseteq> known_rows d f"
    "pending_remote_broadcast f' = pending_remote_broadcast f" "pending_remote_layer_id f' = pending_remote_layer_id f"
    "remote_layer_id f \<noteq> Some L \<Longrightarrow> remote_block_ids f' = None \<and> \<not> remote_full f'"
    "pending_remote_full f' = pending_remote_full f" "pending_remote_block_ids f' = pending_remote_block_ids f"
    "remote_layer_id f = Some L \<Longrightarrow> f' = f"
    by (auto simp: known_rows_def)
  show "full \<longleftrightarrow> ids = None"
  proof (cases "active_block_ids_for c ct")
    case None
    then show ?thesis using assms by (simp add: prepare_remote_selection_def Let_def)
  next
    case (Some a)
    then have "fst (fst (prepare_remote_selection c L ct f)) \<noteq> None \<and> \<not> fst (snd (fst (prepare_remote_selection c L ct f)))"
      by (simp add: prepare_remote_selection_def Let_def)
    then show ?thesis using assms by simp
  qed
qed

lemma prepare_true:
  assumes "prepare_remote_selection c L ct f = ((ids, full, needs), f')" and f: "family_true T N gs key f"
  shows "family_true T N gs key f'"
proof -
  note p = prepare_facts [OF assms(1)]
  have "remote_full f' \<longrightarrow> remote_block_ids f' = None"
    using f p(5,8) unfolding family_true_def remote_true_def by metis
  then have "remote_true T N gs key f'" using f p(1,2) remote_true_shrink [of T N gs key f f'] by (simp add: family_true_def)
  moreover have "pending_true T N gs key f'"
  proof (cases "remote_layer_id f = Some L")
    case True
    then show ?thesis using f p(8) by (simp add: family_true_def)
  next
    case False
    then show ?thesis using f p by (auto simp: family_true_def pending_true_def pending_rows_def)
  qed
  ultimately show ?thesis by (simp add: family_true_def)
qed

section \<open>Steps of the memory\<close>

text \<open>Distinct tensors share a slot only when they belong to one family and the rank owns neither.\<close>

definition slots_apart :: "tensors \<Rightarrow> int \<Rightarrow> rank list \<Rightarrow> bool" where
  "slots_apart T N gs \<longleftrightarrow>
     (\<forall>g \<in> set gs. \<forall>key L key' L'. 0 \<le> L \<and> L < N \<and> 0 \<le> L' \<and> L' < N \<and> (key, L) \<noteq> (key', L')
        \<and> rk_slot g (ca_id (T key L)) = rk_slot g (ca_id (T key' L')) \<longrightarrow>
        key = key' \<and> owner_rank N gs L \<noteq> rk_rank g \<and> owner_rank N gs L' \<noteq> rk_rank g)"

lemma fold_modify: "\<exists>h. \<forall>m. fold modify_row ups m x = h (m x)"
proof (induction ups)
  case Nil
  then show ?case by (intro exI [of _ id]) simp
next
  case (Cons u ups)
  then obtain h where h: "\<And>m. fold modify_row ups m x = h (m x)" by blast
  have "fold modify_row (u # ups) m x = h (if x = nat (fst u) then snd u (m x) else m x)" for m
    using h [of "modify_row u m"] by (simp add: modify_row_def)
  then show ?case by (intro exI [of _ "\<lambda>v. h (if x = nat (fst u) then snd u v else v)"]) blast
qed

lemma fold_modify_other: "x \<notin> nat ` fst ` set ups \<Longrightarrow> fold modify_row ups m x = m x"
  by (induction ups arbitrary: m) (auto simp: modify_row_def)

lemma fold_write:
  "fold modify_row (zip ids (map (\<lambda>v _. v) (map (\<lambda>i. h (nat i)) ids))) m x = (if x \<in> nat ` set ids then h x else m x)"
  by (induction ids arbitrary: m) (auto simp: modify_row_def)

lemma row_modify:
  "row_at (modify_rows c ups g) d x =
     (if rk_slot g (ca_id d) = rk_slot g (ca_id c) then fold modify_row ups (row_at g c) x else row_at g d x)"
  by (simp add: row_at_def [abs_def] modify_rows_def)

lemma row_write:
  "row_at (write_rows c ids (read_rows c ids h) g) d x =
     (if rk_slot g (ca_id d) = rk_slot g (ca_id c) \<and> x \<in> nat ` set ids then row_at h c x else row_at g d x)"
proof -
  have read: "read_rows c ids h = map (\<lambda>i. row_at h c (nat i)) ids" by (simp add: read_rows_def row_at_def)
  have same: "row_at g d = row_at g c" if "rk_slot g (ca_id d) = rk_slot g (ca_id c)" using that by (simp add: row_at_def fun_eq_iff)
  show ?thesis unfolding write_rows_def row_modify read fold_write using same by auto
qed

lemma row_ctl [simp]: "row_at (g\<lparr>rk_ctl := ct\<rparr>) c x = row_at g c x"
  by (simp add: row_at_def)

text \<open>A step changes a row alike on all ranks.\<close>

definition alike :: "(rank \<Rightarrow> rank) \<Rightarrow> rank list \<Rightarrow> cache \<Rightarrow> nat \<Rightarrow> bool" where
  "alike F gs c x \<longleftrightarrow> (\<exists>h. \<forall>g \<in> set gs. row_at (F g) c x = h (row_at g c x))"

lemma alikeI: "(\<And>g. g \<in> set gs \<Longrightarrow> row_at (F g) c x = row_at g c x) \<Longrightarrow> alike F gs c x"
  unfolding alike_def by (rule exI [of _ "\<lambda>v. v"]) blast

lemma rows_equal_map:
  assumes "rows_equal gs c ow X" and "nat ow < length gs" and "\<And>x. x \<in> X \<Longrightarrow> alike F gs c x"
  shows "rows_equal (map F gs) c ow X"
  unfolding rows_equal_def
proof (intro ballI)
  fix x g' assume x: "x \<in> X" and "g' \<in> set (map F gs)"
  then obtain g where g: "g \<in> set gs" "g' = F g" by auto
  have ow: "gs ! nat ow \<in> set gs" "map F gs ! nat ow = F (gs ! nat ow)" using assms(2) by simp_all
  have "row_at g c x = row_at (gs ! nat ow) c x" using assms(1) x g by (auto simp: rows_equal_def)
  then show "row_at g' c x = row_at (map F gs ! nat ow) c x"
    using assms(3) [OF x] g ow unfolding alike_def by metis
qed

lemma owner_rank_length: "length hs = length gs \<Longrightarrow> owner_rank N hs L = owner_rank N gs L"
  by (simp add: owner_rank_def)

lemma owner_rank_bounds:
  assumes "gs \<noteq> []" and "0 \<le> L" and "L < N"
  shows "0 \<le> owner_rank N gs L" "owner_rank N gs L < int (length gs)"
    "get_layer_owner L (int (length gs)) N = Inr (owner_rank N gs L)"
proof -
  obtain k where "k < nat (int (length gs))" "get_layer_owner L (int (length gs)) N = Inr (int k)"
    using owner_obtain [of "int (length gs)" L N] assms by auto
  then show "0 \<le> owner_rank N gs L" "owner_rank N gs L < int (length gs)"
    "get_layer_owner L (int (length gs)) N = Inr (owner_rank N gs L)" by (auto simp: owner_rank_def)
qed

text \<open>Truth is kept by a change of memory that keeps the rows each family speaks of.\<close>

lemma family_true_map:
  assumes f: "family_true T N gs key f" and ne: "gs \<noteq> []"
    and keep: "\<And>L x. 0 \<le> L \<Longrightarrow> L < N \<Longrightarrow>
      remote_layer_id f = Some L \<and> x \<in> known_rows (T key L) f
        \<or> pending_remote_broadcast f \<and> pending_remote_layer_id f = Some L \<and> x \<in> pending_rows (T key L) f \<Longrightarrow>
      alike F gs (T key L) x"
  shows "family_true T N (map F gs) key f"
proof -
  have ow: "owner_rank N (map F gs) L = owner_rank N gs L" for L by (rule owner_rank_length) simp
  have "remote_true T N (map F gs) key f"
    unfolding remote_true_def ow
  proof (intro conjI allI impI)
    show "remote_full f \<Longrightarrow> remote_block_ids f = None" using f unfolding family_true_def remote_true_def by blast
    fix L assume L: "remote_layer_id f = Some L"
    then show L1: "0 \<le> L" "L < N" using f unfolding family_true_def remote_true_def by blast+
    have "rows_equal gs (T key L) (owner_rank N gs L) (known_rows (T key L) f)"
      using f L unfolding family_true_def remote_true_def by blast
    then show "rows_equal (map F gs) (T key L) (owner_rank N gs L) (known_rows (T key L) f)"
      using owner_rank_bounds [OF ne L1] L keep [OF L1] by (intro rows_equal_map) auto
  qed
  moreover have "pending_true T N (map F gs) key f"
  proof (cases "pending_remote_broadcast f")
    case True
    then obtain L where L: "pending_remote_layer_id f = Some L" "0 \<le> L" "L < N" "remote_layer_id f \<noteq> Some L"
        "remote_block_ids f = None" "\<not> remote_full f"
        "rows_equal gs (T key L) (owner_rank N gs L) (pending_rows (T key L) f)"
      using f unfolding family_true_def pending_true_def by blast
    have "rows_equal (map F gs) (T key L) (owner_rank N gs L) (pending_rows (T key L) f)"
      using owner_rank_bounds [OF ne L(2,3)] L True keep [OF L(2,3)] by (intro rows_equal_map) auto
    then show ?thesis using L True unfolding pending_true_def ow by blast
  next
    case False
    then show ?thesis using f unfolding family_true_def pending_true_def by blast
  qed
  ultimately show ?thesis by (simp add: family_true_def)
qed

lemma family_true_ctl: "gs \<noteq> [] \<Longrightarrow> family_true T N gs key f \<Longrightarrow> family_true T N (map (\<lambda>g. g\<lparr>rk_ctl := ct\<rparr>) gs) key f"
  by (rule family_true_map) (auto intro: alikeI)

section \<open>Plans keep the truth\<close>

definition plan_ctl :: "plan \<Rightarrow> control" where
  "plan_ctl pl = (case pl of Quiet ct \<Rightarrow> ct | Send _ _ ct \<Rightarrow> ct)"

definition ranks_numbered :: "rank list \<Rightarrow> bool" where
  "ranks_numbered gs \<longleftrightarrow> gs \<noteq> [] \<and> (\<forall>i < length gs. rk_rank (gs ! i) = int i)"

definition after_group :: "cache \<Rightarrow> plan \<Rightarrow> rank list \<Rightarrow> rank list" where
  "after_group c pl gs = map (after_plan c pl gs) gs"

lemma after_quiet: "after_group c (Quiet ct) gs = map (\<lambda>g. g\<lparr>rk_ctl := ct\<rparr>) gs"
  by (simp add: after_group_def after_plan_def)

lemma row_after_send:
  "row_at (after_plan c (Send ow rows ct) gs g) d x =
     (if rk_rank g \<noteq> ow \<and> rk_slot g (ca_id d) = rk_slot g (ca_id c) \<and> x \<in> nat ` set rows
      then row_at (gs ! nat ow) c x else row_at g d x)"
  by (simp add: after_plan_def row_write)

lemma rank_nth_owner:
  assumes "ranks_numbered gs" and "g \<in> set gs" and "rk_rank g = ow"
  shows "g = gs ! nat ow"
  using assms by (auto simp: ranks_numbered_def in_set_conv_nth)

text \<open>The rows sent hold the owner's contents on all ranks, and rows that did keep them.\<close>

lemma rows_equal_sent:
  assumes gs: "ranks_numbered gs" and ow: "0 \<le> ow" "ow < int (length gs)" and X: "rows_equal gs c ow X"
  shows "rows_equal (after_group c (Send ow rows ct) gs) c ow (X \<union> nat ` set rows)"
  unfolding rows_equal_def
proof (intro ballI)
  fix x g' assume x: "x \<in> X \<union> nat ` set rows" and g': "g' \<in> set (after_group c (Send ow rows ct) gs)"
  obtain g where g: "g \<in> set gs" "g' = after_plan c (Send ow rows ct) gs g" using g' by (auto simp: after_group_def)
  have n: "nat ow < length gs" "rk_rank (gs ! nat ow) = ow" using ow gs by (auto simp: ranks_numbered_def)
  then have owner: "row_at (after_group c (Send ow rows ct) gs ! nat ow) c x = row_at (gs ! nat ow) c x"
    by (simp add: after_group_def row_after_send)
  show "row_at g' c x = row_at (after_group c (Send ow rows ct) gs ! nat ow) c x"
  proof (cases "rk_rank g = ow")
    case True
    then show ?thesis using owner rank_nth_owner [OF gs g(1) True] g(2) by (simp add: row_after_send)
  next
    case False
    then show ?thesis using owner g x X by (auto simp: row_after_send rows_equal_def)
  qed
qed

lemma family_true_other:
  assumes gs: "ranks_numbered gs" and sl: "slots_apart T N gs" and L: "0 \<le> L" "L < N"
    and key: "key' \<noteq> key" and f: "family_true T N gs key' f"
  shows "family_true T N (after_group (T key L) (Send ow rows ct) gs) key' f"
  unfolding after_group_def
proof (rule family_true_map [OF f])
  show "gs \<noteq> []" using gs by (simp add: ranks_numbered_def)
  fix L' x assume L': "0 \<le> L'" "L' < N"
  show "alike (after_plan (T key L) (Send ow rows ct) gs) gs (T key' L') x"
  proof (rule alikeI)
    fix g assume "g \<in> set gs"
    then have "rk_slot g (ca_id (T key' L')) \<noteq> rk_slot g (ca_id (T key L))"
      using sl L L' key unfolding slots_apart_def by blast
    then show "row_at (after_plan (T key L) (Send ow rows ct) gs g) (T key' L') x = row_at g (T key' L') x"
      by (simp add: row_after_send)
  qed
qed

definition group_hyp :: "tensors \<Rightarrow> int \<Rightarrow> rank list \<Rightarrow> family_key \<Rightarrow> int \<Rightarrow> bool" where
  "group_hyp T N gs key L \<longleftrightarrow> ranks_numbered gs \<and> slots_apart T N gs \<and> 0 \<le> L \<and> L < N"

lemma group_hypD:
  assumes "group_hyp T N gs key L"
  shows "ranks_numbered gs" "slots_apart T N gs" "0 \<le> L" "L < N" "gs \<noteq> []"
    "0 \<le> owner_rank N gs L" "owner_rank N gs L < int (length gs)"
  using assms owner_rank_bounds [of gs L N] by (auto simp: group_hyp_def ranks_numbered_def)

lemma after_group_owner [simp]: "owner_rank N (after_group c pl gs) L = owner_rank N gs L"
  by (rule owner_rank_length) (simp add: after_group_def)

text \<open>A read: after it the family holds the layer, and the wanted rows are known.\<close>

definition wanted_rows :: "cache \<Rightarrow> control \<Rightarrow> nat set" where
  "wanted_rows c ct = nat ` set (case active_block_ids_for c ct of None \<Rightarrow> pool_rows c | Some ids \<Rightarrow> ids)"

definition holds :: "cache \<Rightarrow> family_key \<Rightarrow> int \<Rightarrow> control \<Rightarrow> control \<Rightarrow> bool" where
  "holds c key L ct ct' \<longleftrightarrow> remote_layer_id (family_of key ct') = Some L
     \<and> wanted_rows c ct \<subseteq> known_rows c (family_of key ct')"

lemma record_known_full: "known_rows c (record_remote_selection L ids True f) = nat ` set (pool_rows c)"
  by (simp add: record_remote_selection_def known_rows_def Let_def)

lemma record_known_ids:
  assumes "remote_layer_id f \<noteq> Some L \<longrightarrow> remote_block_ids f = None"
  shows "nat ` set xs \<subseteq> known_rows c (record_remote_selection L (Some xs) False f)"
    and "\<not> remote_full f \<and> remote_layer_id f = Some L \<Longrightarrow> known_rows c f \<subseteq> known_rows c (record_remote_selection L (Some xs) False f)"
  using assms by (auto simp: record_remote_selection_def known_rows_def Let_def unique_sorted_def split: option.splits)

text \<open>The cached id range bounds the active ids, so these are rows of the pool.\<close>

definition range_ok :: "control \<Rightarrow> bool" where
  "range_ok ct \<longleftrightarrow>
     (\<forall>ids lo hi. ct_active ct = Some ids \<and> ct_range ct = Some (lo, hi) \<longrightarrow> (\<forall>x \<in> set ids. lo \<le> x \<and> x \<le> hi))"

lemma active_ids_facts:
  assumes "active_block_ids_for c ct = Some ids"
  shows "ids \<noteq> []" and "ct_active ct = Some ids"
    and "\<exists>lo hi n ns. ct_range ct = Some (lo, hi) \<and> ca_shape c = n # ns \<and> 0 \<le> lo \<and> hi < n"
  using assms by (auto simp: active_block_ids_for_def split: if_splits option.splits prod.splits list.splits)

lemma active_in_pool:
  assumes "range_ok ct" and a: "active_block_ids_for c ct = Some ids"
  shows "set ids \<subseteq> set (pool_rows c)"
proof
  fix x assume "x \<in> set ids"
  obtain lo hi n ns where r: "ct_range ct = Some (lo, hi)" "ca_shape c = n # ns" "0 \<le> lo" "hi < n"
    using active_ids_facts(3) [OF a] by blast
  have "lo \<le> x \<and> x \<le> hi" using assms(1) active_ids_facts(2) [OF a] r(1) \<open>x \<in> set ids\<close> unfolding range_ok_def by blast
  then have "0 \<le> x" "x < n" using r by auto
  then have "x \<in> int ` {0..<nat n}" by (intro image_eqI [of _ _ "nat x"]) auto
  then show "x \<in> set (pool_rows c)" using r(2) by (simp add: pool_rows_def py_range_def)
qed

lemma wanted_in_pool: "range_ok ct \<Longrightarrow> wanted_rows c ct \<subseteq> nat ` set (pool_rows c)"
  using active_in_pool by (fastforce simp: wanted_rows_def split: option.splits)

text \<open>When nothing has to be sent, the rows recorded are rows the family already knew.\<close>

lemma quiet_rows:
  assumes prep: "prepare_remote_selection c L ct f0 = ((ids, full, needs), f)" and quiet: "\<not> needs"
    and f: "family_true T N gs key f" and r: "range_ok ct" and c: "c = T key L"
  shows "rows_equal gs c (owner_rank N gs L) (nat ` set (if full then pool_rows c else case ids of None \<Rightarrow> [] | Some xs \<Rightarrow> xs))"
proof -
  note p = prepare_facts [OF prep]
  have full: "rows_equal gs c (owner_rank N gs L) (nat ` set (pool_rows c))" if "remote_full f"
  proof -
    have "remote_layer_id f = Some L" using that p(1,5) by metis
    then have "rows_equal gs c (owner_rank N gs L) (known_rows c f)"
      using f c unfolding family_true_def remote_true_def by blast
    then show ?thesis using that by (simp add: known_rows_def)
  qed
  show ?thesis
  proof (cases "active_block_ids_for c ct")
    case None
    then have "full" "remote_full f" using prep quiet by (auto simp: prepare_remote_selection_def Let_def split: if_splits)
    then show ?thesis using full by simp
  next
    case (Some xs)
    show ?thesis
    proof (cases "remote_full f")
      case True
      then have "ids = Some xs" "\<not> full" using prep Some by (auto simp: prepare_remote_selection_def Let_def split: if_splits)
      then show ?thesis using rows_equal_mono [OF full [OF True]] image_mono [OF active_in_pool [OF r Some], of nat] by simp
    next
      case False
      then have "ids = Some []" "\<not> full"
        using prep Some quiet by (auto simp: prepare_remote_selection_def Let_def split: if_splits)
      then show ?thesis by simp
    qed
  qed
qed

lemma record_pending_none:
  assumes "family_true T N gs key f" and "\<not> pending_remote_broadcast f"
  shows "pending_true T N hs key (record_remote_selection L ids full f)"
  using assms by (simp add: family_true_def pending_true_def)

lemma quiet_record_true:
  assumes prep: "prepare_remote_selection c L ct (family_of key ct) = ((ids, full, needs), f)" and quiet: "\<not> needs"
    and ct: "all_true T N gs ct" and r: "range_ok ct" and c: "c = T key L" and L: "0 \<le> L" "L < N"
    and idle: "\<not> pending_remote_broadcast (family_of key ct)"
  shows "all_true T N gs (set_family key (record_remote_selection L ids full f) (set_family key f ct))"
proof -
  have f: "family_true T N gs key f" by (rule prepare_true [OF prep all_trueD [OF ct]])
  have "remote_true T N gs key (record_remote_selection L ids full f)"
  proof (rule record_true [OF _ L])
    show "remote_true T N gs key f" using f by (simp add: family_true_def)
    show "rows_equal gs (T key L) (owner_rank N gs L) (nat ` set (if full then pool_rows (T key L) else case ids of None \<Rightarrow> [] | Some xs \<Rightarrow> xs))"
      using quiet_rows [OF prep quiet f r c] by (simp only: c)
  qed
  moreover have "pending_true T N gs key (record_remote_selection L ids full f)"
    using record_pending_none [OF f] idle prepare_facts(3) [OF prep] by simp
  ultimately have "family_true T N gs key (record_remote_selection L ids full f)" by (simp add: family_true_def)
  then show ?thesis by (rule all_true_set [OF all_true_set [OF ct f]])
qed

lemma sync_plan_true:
  assumes hyp: "group_hyp T N gs key L" and ct: "all_true T N gs ct" and c: "c = T key L" and r: "range_ok ct"
    and idle: "\<not> pending_remote_broadcast (family_of key ct)"
  shows "let pl = sync_plan c key L (owner_rank N gs L) ct
    in all_true T N (after_group c pl gs) (plan_ctl pl) \<and> holds c key L ct (plan_ctl pl)"
proof -
  let ?f0 = "family_of key ct" and ?ow = "owner_rank N gs L"
  note h = group_hypD [OF hyp]
  obtain ids full needs f where prep: "prepare_remote_selection c L ct ?f0 = ((ids, full, needs), f)"
    by (metis prod_cases3 surj_pair)
  have f: "family_true T N gs key f" by (rule prepare_true [OF prep all_trueD [OF ct]])
  note p = prepare_facts [OF prep]
  let ?r = "record_remote_selection L ids full f"
  let ?ct = "set_family key ?r (set_family key f ct)"
  have off: "remote_layer_id f \<noteq> Some L \<longrightarrow> remote_block_ids f = None \<and> \<not> remote_full f" using p(1,5) by simp
  have no_pending: "pending_true T N hs key ?r" for hs using record_pending_none [OF f] idle p(3) by simp
  have want: "wanted_rows c ct \<subseteq> known_rows c ?r"
  proof (cases "active_block_ids_for c ct")
    case None
    then have "full" using prep by (simp add: prepare_remote_selection_def Let_def)
    then show ?thesis using None by (simp add: wanted_rows_def record_known_full)
  next
    case (Some xs)
    show ?thesis
    proof (cases "remote_full f")
      case True
      then have "ids = Some xs \<and> \<not> full" using prep Some by (auto simp: prepare_remote_selection_def Let_def split: if_splits)
      then show ?thesis using record_known_ids(1) [where f = f and L = L and xs = xs and c = c] off Some by (simp add: wanted_rows_def)
    next
      case False
      let ?needed = "case remote_block_ids f of None \<Rightarrow> xs | Some known \<Rightarrow> if known = [] then xs else filter (\<lambda>x. x \<notin> set known) xs"
      have ids: "ids = Some ?needed \<and> \<not> full"
        using prep Some False by (auto simp: prepare_remote_selection_def Let_def split: if_splits)
      have "nat ` set xs \<subseteq> nat ` set ?needed \<union> known_rows c f"
        using False by (auto simp: known_rows_def split: option.splits)
      moreover have "known_rows c f \<subseteq> known_rows c ?r"
      proof (cases "remote_layer_id f = Some L")
        case True
        then show ?thesis using record_known_ids(2) [where f = f and L = L and xs = ?needed and c = c] ids False by auto
      next
        case other: False
        then show ?thesis using off by (simp add: known_rows_def)
      qed
      moreover have "nat ` set ?needed \<subseteq> known_rows c ?r" using record_known_ids(1) [where f = f and L = L and xs = ?needed and c = c] off ids by auto
      ultimately show ?thesis using Some by (auto simp: wanted_rows_def)
    qed
  qed
  have hold: "holds c key L ct ?ct" using want by (simp add: holds_def record_known(1))
  show ?thesis
  proof (cases needs)
    case True
    let ?pl = "Send ?ow (payload_rows c ids) ?ct"
    have pl: "sync_plan c key L ?ow ct = ?pl" using prep True by (simp add: sync_plan_def Let_def)
    let ?hs = "after_group c ?pl gs"
    have sent: "rows_equal ?hs c ?ow (nat ` set (payload_rows c ids))"
      using rows_equal_sent [OF h(1,6,7), of c "{}" "payload_rows c ids" ?ct] by simp
    have "remote_true T N ?hs key (if remote_layer_id f = Some L then f else f\<lparr>remote_layer_id := None\<rparr>)"
    proof (cases "remote_layer_id f = Some L")
      case same: True
      have "rows_equal gs c ?ow (known_rows c f)" using f same c unfolding family_true_def remote_true_def by blast
      then have "rows_equal ?hs c ?ow (known_rows c f)"
        using rows_equal_sent [OF h(1,6,7), of c "known_rows c f" "payload_rows c ids" ?ct] by (simp add: rows_equal_Un)
      then show ?thesis using same f c h(3,4) unfolding family_true_def remote_true_def by auto
    next
      case False
      then show ?thesis using off by (simp add: remote_true_def)
    qed
    moreover have "record_remote_selection L ids full (if remote_layer_id f = Some L then f else f\<lparr>remote_layer_id := None\<rparr>) = ?r"
      by (auto simp: record_remote_selection_def Let_def split: option.splits)
    ultimately have "remote_true T N ?hs key ?r"
      using record_true [of T N ?hs key "if remote_layer_id f = Some L then f else f\<lparr>remote_layer_id := None\<rparr>" L full ids]
        h(3,4) sent c p(9) by (auto simp: payload_rows_def split: option.splits)
    then have "family_true T N ?hs key ?r" using no_pending by (simp add: family_true_def)
    moreover have "family_true T N ?hs k (family_of k ct)" if "k \<noteq> key" for k
      using family_true_other [OF h(1,2,3,4) that all_trueD [OF ct]] c by simp
    ultimately have "all_true T N ?hs ?ct" unfolding all_true_def by simp
    then show ?thesis using hold by (simp add: pl plan_ctl_def)
  next
    case False
    have pl: "sync_plan c key L ?ow ct = Quiet ?ct" using prep False by (simp add: sync_plan_def Let_def)
    have "all_true T N gs ?ct" by (rule quiet_record_true [OF prep False ct r c h(3,4) idle])
    then have "all_true T N (after_group c (Quiet ?ct) gs) ?ct"
      unfolding after_quiet all_true_def using family_true_ctl [OF h(5)] by blast
    then show ?thesis using hold by (simp add: pl plan_ctl_def)
  qed
qed


section \<open>Reads and prefetches\<close>

lemma range_ok_cong: "ct_active a = ct_active b \<Longrightarrow> ct_range a = ct_range b \<Longrightarrow> range_ok a = range_ok b"
  by (simp add: range_ok_def)

lemma read_ctl_fields [simp]:
  "ct_mtp (read_ctl parse c n L ct) = ct_mtp ct" "ct_comm (read_ctl parse c n L ct) = ct_comm ct"
  "ct_active (read_ctl parse c n L ct) = ct_active ct" "ct_range (read_ctl parse c n L ct) = ct_range ct"
  "ct_sparse_env (read_ctl parse c n L ct) = ct_sparse_env ct"
  by (simp_all add: read_ctl_def Let_def)

lemma wanted_rows_cong:
  "ct_active a = ct_active b \<Longrightarrow> ct_range a = ct_range b \<Longrightarrow> ct_sparse_env a = ct_sparse_env b \<Longrightarrow>
     wanted_rows c a = wanted_rows c b"
  using active_ids_cong [of a b c] by (simp add: wanted_rows_def)

lemma idle_true:
  assumes "family_true T N gs key f"
  shows "family_true T N gs key (if pending_remote_broadcast f then finalize_pending_broadcast b f else f)"
    and "\<not> pending_remote_broadcast (if pending_remote_broadcast f then finalize_pending_broadcast b f else f)"
  using assms finalize_true [OF assms] by auto

lemma read_ctl_true:
  assumes "all_true T N gs ct"
  shows "all_true T N gs (read_ctl parse c n L ct)"
    and "\<not> pending_remote_broadcast (family_of (family_key c n) (read_ctl parse c n L ct))"
proof -
  let ?f = "family_of (family_key c n) ct"
  note t = idle_true [OF all_trueD [OF assms, of "family_key c n"], of "pending_remote_layer_id ?f = Some L"]
  have "all_true T N gs (family_state (family_key c n) (register_layer_cache parse c n ct))" using assms by simp
  from all_true_set [OF this t(1)] show "all_true T N gs (read_ctl parse c n L ct)"
    by (simp only: read_ctl_def Let_def family_of_state family_of_register)
  show "\<not> pending_remote_broadcast (family_of (family_key c n) (read_ctl parse c n L ct))"
    using t(2) by (simp only: read_ctl_def Let_def family_of_state family_of_register family_of_set) (simp split del: if_split)
qed

lemma quiet_all_true:
  assumes "gs \<noteq> []" and "all_true T N gs ct"
  shows "all_true T N (after_group c (Quiet ct') gs) ct"
  unfolding after_quiet all_true_def using family_true_ctl [OF assms(1)] all_trueD [OF assms(2)] by blast

lemma bcast_plan_true:
  assumes hyp: "group_hyp T N gs (family_key c n) L" and ct: "all_true T N gs ct" and c: "c = T (family_key c n) L" and r: "range_ok ct"
  shows "let pl = bcast_plan parse c n L (owner_rank N gs L) ct
    in all_true T N (after_group c pl gs) (plan_ctl pl) \<and> holds c (family_key c n) L ct (plan_ctl pl)"
proof -
  let ?key = "family_key c n" and ?ct = "read_ctl parse c n L ct"
  let ?f = "family_of ?key ?ct"
  note t = read_ctl_true [OF ct]
  have r': "range_ok ?ct" using r range_ok_cong [of ?ct ct] by simp
  show ?thesis
  proof (cases "remote_layer_id ?f = Some L \<and> remote_full ?f")
    case True
    then have "bcast_plan parse c n L (owner_rank N gs L) ct = Quiet ?ct" by (simp add: bcast_plan_def Let_def)
    moreover have "holds c ?key L ct ?ct" using True wanted_in_pool [OF r] by (simp add: holds_def known_rows_def)
    moreover have "all_true T N (after_group c (Quiet ?ct) gs) ?ct" by (rule quiet_all_true [OF group_hypD(5) [OF hyp] t(1)])
    ultimately show ?thesis by (simp add: plan_ctl_def)
  next
    case False
    then have "bcast_plan parse c n L (owner_rank N gs L) ct = sync_plan c ?key L (owner_rank N gs L) ?ct"
      by (auto simp: bcast_plan_def Let_def)
    moreover have "wanted_rows c ?ct = wanted_rows c ct" by (rule wanted_rows_cong) simp_all
    ultimately show ?thesis using sync_plan_true [OF hyp t(1) c r' t(2)] by (simp add: holds_def Let_def)
  qed
qed

lemma async_send_true:
  assumes hyp: "group_hyp T N gs key L" and ct: "all_true T N gs ct" and c: "c = T key L"
    and prep: "prepare_remote_selection c L ct (family_of key ct) = ((ids, full, needs), f)"
    and away: "remote_layer_id (family_of key ct) \<noteq> Some L"
    and pl: "pl = Send (owner_rank N gs L) (payload_rows c ids) ct'"
  shows "all_true T N (after_group c pl gs) (set_family key (f\<lparr>pending_remote_layer_id := Some L,
    pending_remote_block_ids := ids, pending_remote_full := full, pending_remote_broadcast := True\<rparr>) (set_family key f ct))"
proof -
  note h = group_hypD [OF hyp] and p = prepare_facts [OF prep]
  let ?hs = "after_group c pl gs" and ?p = "f\<lparr>pending_remote_layer_id := Some L,
    pending_remote_block_ids := ids, pending_remote_full := full, pending_remote_broadcast := True\<rparr>"
  have off: "remote_layer_id f \<noteq> Some L" "remote_block_ids f = None" "\<not> remote_full f" using away p(1,5) by auto
  have f: "family_true T N gs key f" by (rule prepare_true [OF prep all_trueD [OF ct]])
  have sent: "rows_equal ?hs c (owner_rank N gs L) (nat ` set (payload_rows c ids))"
    using rows_equal_sent [OF h(1,6,7), of c "{}" "payload_rows c ids" ct'] by (simp add: pl)
  moreover have "pending_rows c ?p = nat ` set (payload_rows c ids)"
    using p(9) by (auto simp: pending_rows_def payload_rows_def split: option.splits)
  ultimately have "pending_true T N ?hs key ?p" using off h(3,4) c by (simp add: pending_true_def)
  moreover have "remote_true T N ?hs key ?p"
    using f off by (auto simp: family_true_def remote_true_def known_rows_def)
  ultimately have "family_true T N ?hs key ?p" by (simp add: family_true_def)
  moreover have "family_true T N ?hs k (family_of k ct)" if "k \<noteq> key" for k
    using family_true_other [OF h(1,2,3,4) that all_trueD [OF ct]] c pl by simp
  ultimately show ?thesis unfolding all_true_def by simp
qed

lemma finalize_keeps_remote [simp]: "remote_layer_id (finalize_pending_broadcast False f) = remote_layer_id f"
  by (simp add: finalize_pending_broadcast_def Let_def split: option.splits)

lemma async_plan_true:
  assumes hyp: "group_hyp T N gs (family_key c n) L" and ct: "all_true T N gs ct" and c: "c = T (family_key c n) L" and r: "range_ok ct"
    and idle: "\<not> pending_remote_broadcast (family_of (family_key c n) ct)"
    and away: "remote_layer_id (family_of (family_key c n) ct) \<noteq> Some L"
  shows "let pl = async_plan c (family_key c n) L (owner_rank N gs L) (bcast_plan parse c n L (owner_rank N gs L)) ct
    in all_true T N (after_group c pl gs) (plan_ctl pl)"
proof -
  let ?key = "family_key c n" and ?ow = "owner_rank N gs L"
  obtain ids full needs f where prep: "prepare_remote_selection c L ct (family_of ?key ct) = ((ids, full, needs), f)"
    by (metis prod_cases3 surj_pair)
  show ?thesis
  proof (cases "ct_comm ct")
    case False
    then show ?thesis using bcast_plan_true [OF hyp ct c r] by (simp add: async_plan_def Let_def)
  next
    case True
    show ?thesis
    proof (cases needs)
      case sends: True
      show ?thesis using async_send_true [OF hyp ct c prep away refl] sends True
        by (simp add: async_plan_def prep Let_def plan_ctl_def)
    next
      case quiet: False
      let ?ct = "set_family ?key (record_remote_selection L ids full f) (set_family ?key f ct)"
      have "all_true T N gs ?ct" using quiet_record_true [OF prep quiet ct r c] group_hypD [OF hyp] idle by blast
      moreover have "range_ok ?ct" using r range_ok_cong [of ?ct ct] by simp
      ultimately show ?thesis using bcast_plan_true [OF hyp _ c] quiet True by (simp add: async_plan_def prep Let_def)
    qed
  qed
qed

lemma prefetch_plan_true:
  assumes hyp: "group_hyp T N gs (family_key c n) L" and ct: "all_true T N gs ct" and c: "c = T (family_key c n) L" and r: "range_ok ct"
  shows "let pl = prefetch_plan parse c n L (owner_rank N gs L) ct in all_true T N (after_group c pl gs) (plan_ctl pl)"
proof -
  let ?key = "family_key c n" and ?ct = "prefetch_ctl parse c n ct"
  let ?f = "family_of ?key ?ct"
  let ?ct2 = "set_family ?key (if pending_remote_broadcast ?f then finalize_pending_broadcast False ?f else ?f) ?ct"
  have t: "all_true T N gs ?ct" using ct by (simp add: prefetch_ctl_def)
  have t2: "all_true T N gs ?ct2" by (rule all_true_set [OF t idle_true(1) [OF all_trueD [OF t]]])
  have r2: "range_ok ?ct2" using r range_ok_cong [of ?ct2 ct] by (simp add: prefetch_ctl_def)
  show ?thesis
  proof (cases "remote_layer_id ?f = Some L \<or> pending_remote_broadcast ?f \<and> pending_remote_layer_id ?f = Some L")
    case True
    then have "prefetch_plan parse c n L (owner_rank N gs L) ct = Quiet ?ct" by (auto simp: prefetch_plan_def Let_def)
    then show ?thesis using quiet_all_true [OF group_hypD(5) [OF hyp] t] by (simp add: plan_ctl_def)
  next
    case False
    then have "prefetch_plan parse c n L (owner_rank N gs L) ct
        = async_plan c ?key L (owner_rank N gs L) (bcast_plan parse c n L (owner_rank N gs L)) ?ct2"
      by (auto simp: prefetch_plan_def Let_def)
    moreover have "remote_layer_id (family_of ?key ?ct2) \<noteq> Some L" using False by simp
    moreover have "\<not> pending_remote_broadcast (family_of ?key ?ct2)" using idle_true(2) [OF all_trueD [OF t]] by simp
    ultimately show ?thesis using async_plan_true [OF hyp t2 c r2] by simp
  qed
qed

end
