(* ===== verification/Broadcast_Refine.thy ===== *)
theory Broadcast_Refine
  imports Broadcast_Coherent "HOL-Library.Countable"
begin

text \<open>
  The group of ranks as one store.  The durable rows of a layer are those of its owner; only a
  write of the layer changes them, and every rank that reads a layer through the protocol sees
  them on the active rows.  So the group refines a store of layers with writes and reads.
\<close>

section \<open>Writes\<close>

text \<open>Only the owner writes, and the bookkeeping knows none of the rows that change.\<close>

definition owner_write :: "cache \<Rightarrow> int \<Rightarrow> (int \<times> (int \<Rightarrow> int)) list \<Rightarrow> control \<Rightarrow> rank \<Rightarrow> rank" where
  "owner_write c ow ups ct g =
     (if rk_rank g = ow then modify_rows c ups (g\<lparr>rk_ctl := ct\<rparr>) else g\<lparr>rk_ctl := ct\<rparr>)"

definition shared_write :: "cache \<Rightarrow> (int \<times> (int \<Rightarrow> int)) list \<Rightarrow> control \<Rightarrow> rank \<Rightarrow> rank" where
  "shared_write c ups ct g = modify_rows c ups (g\<lparr>rk_ctl := ct\<rparr>)"

lemma write_fields [simp]:
  "rk_rank (owner_write c ow ups ct g) = rk_rank g" "rk_rt (owner_write c ow ups ct g) = rk_rt g"
  "rk_slot (owner_write c ow ups ct g) = rk_slot g" "rk_ctl (owner_write c ow ups ct g) = ct"
  "rk_rank (shared_write c ups ct g) = rk_rank g" "rk_rt (shared_write c ups ct g) = rk_rt g"
  "rk_slot (shared_write c ups ct g) = rk_slot g" "rk_ctl (shared_write c ups ct g) = ct"
  by (simp_all add: owner_write_def shared_write_def modify_rows_def)

lemma private_slot:
  assumes sl: "slots_apart T N gs" and g: "g \<in> set gs" and L: "0 \<le> L" "L < N" "0 \<le> L'" "L' < N"
    and own: "owner_rank N gs L = rk_rank g" and slot: "rk_slot g (ca_id (T key' L')) = rk_slot g (ca_id (T key L))"
  shows "key' = key \<and> L' = L"
proof (rule ccontr)
  assume "\<not> (key' = key \<and> L' = L)"
  then have "(key', L') \<noteq> (key, L)" by simp
  then have "owner_rank N gs L \<noteq> rk_rank g" using sl g L slot unfolding slots_apart_def by blast
  then show False using own by simp
qed

lemma other_family_slot:
  assumes "slots_apart T N gs" and "g \<in> set gs" and "0 \<le> L" "L < N" "0 \<le> L'" "L' < N" and "key' \<noteq> key"
  shows "rk_slot g (ca_id (T key' L')) \<noteq> rk_slot g (ca_id (T key L))"
  using assms unfolding slots_apart_def by blast

lemma owner_write_true:
  assumes hyp: "group_hyp T N gs key L" and ct: "all_true T N gs ct" and c: "c = T key L"
    and known: "remote_layer_id (family_of key ct) = Some L \<Longrightarrow> nat ` fst ` set ups \<inter> known_rows c (family_of key ct) = {}"
    and pend: "pending_remote_layer_id (family_of key ct) \<noteq> Some L"
  shows "all_true T N (map (owner_write c (owner_rank N gs L) ups ct) gs) ct"
  unfolding all_true_def
proof
  fix key'
  note h = group_hypD [OF hyp]
  let ?F = "owner_write c (owner_rank N gs L) ups ct" and ?f = "family_of key' ct"
  show "family_true T N (map ?F gs) key' ?f"
  proof (rule family_true_map [OF all_trueD [OF ct] h(5)])
    fix L' x assume L': "0 \<le> L'" "L' < N" and use: "remote_layer_id ?f = Some L' \<and> x \<in> known_rows (T key' L') ?f
        \<or> pending_remote_broadcast ?f \<and> pending_remote_layer_id ?f = Some L' \<and> x \<in> pending_rows (T key' L') ?f"
    show "alike ?F gs (T key' L') x"
    proof (rule alikeI)
      fix g assume g: "g \<in> set gs"
      show "row_at (?F g) (T key' L') x = row_at g (T key' L') x"
      proof (cases "rk_rank g = owner_rank N gs L \<and> rk_slot g (ca_id (T key' L')) = rk_slot g (ca_id c)")
        case False
        then show ?thesis by (auto simp: owner_write_def row_modify)
      next
        case True
        then have same: "key' = key" "L' = L" using private_slot [OF h(2) g h(3,4) L', of key' key] c by metis+
        then have "x \<notin> nat ` fst ` set ups" using use known pend c by auto
        then have "fold modify_row ups (row_at g c) x = row_at g c x" by (rule fold_modify_other)
        moreover have "row_at (g\<lparr>rk_ctl := ct\<rparr>) c = row_at g c" by (simp add: fun_eq_iff)
        ultimately show ?thesis using same c by (simp add: owner_write_def row_modify)
      qed
    qed
  qed
qed

lemma shared_write_true:
  assumes hyp: "group_hyp T N gs key L" and ct: "all_true T N gs ct" and c: "c = T key L"
    and held: "remote_layer_id (family_of key ct) = Some L" "\<not> pending_remote_broadcast (family_of key ct)"
  shows "all_true T N (map (shared_write c ups ct) gs) ct"
  unfolding all_true_def
proof
  fix key'
  note h = group_hypD [OF hyp]
  let ?F = "shared_write c ups ct" and ?f = "family_of key' ct"
  have same: "row_at (g\<lparr>rk_ctl := ct\<rparr>) c = row_at g c" for g c by (simp add: fun_eq_iff)
  show "family_true T N (map ?F gs) key' ?f"
  proof (rule family_true_map [OF all_trueD [OF ct] h(5)])
    fix L' x assume L': "0 \<le> L'" "L' < N" and use: "remote_layer_id ?f = Some L' \<and> x \<in> known_rows (T key' L') ?f
        \<or> pending_remote_broadcast ?f \<and> pending_remote_layer_id ?f = Some L' \<and> x \<in> pending_rows (T key' L') ?f"
    show "alike ?F gs (T key' L') x"
    proof (cases "key' = key")
      case True
      then have "L' = L" using use held by auto
      moreover obtain u where "\<And>m. fold modify_row ups m x = u (m x)" using fold_modify [of ups x] by blast
      ultimately show ?thesis using True c by (auto simp: alike_def shared_write_def row_modify same)
    next
      case False
      show ?thesis
      proof (rule alikeI)
        fix g assume "g \<in> set gs"
        then show "row_at (?F g) (T key' L') x = row_at g (T key' L') x"
          using other_family_slot [OF h(2) _ h(3,4) L' False] c by (simp add: shared_write_def row_modify)
      qed
    qed
  qed
qed

section \<open>Durable rows\<close>

definition durable :: "tensors \<Rightarrow> int \<Rightarrow> rank list \<Rightarrow> family_key \<Rightarrow> int \<Rightarrow> nat \<Rightarrow> int" where
  "durable T N gs key L = row_at (gs ! nat (owner_rank N gs L)) (T key L)"

text \<open>The abstract store: a write changes the rows of its layer, nothing else does.\<close>

definition store_write ::
    "family_key \<Rightarrow> int \<Rightarrow> (int \<times> (int \<Rightarrow> int)) list \<Rightarrow> (family_key \<Rightarrow> int \<Rightarrow> nat \<Rightarrow> int) \<Rightarrow> family_key \<Rightarrow> int \<Rightarrow> nat \<Rightarrow> int" where
  "store_write key L ups s key' L' = (if key' = key \<and> L' = L then fold modify_row ups (s key L) else s key' L')"

lemma durable_map:
  assumes "gs \<noteq> []" and "0 \<le> L" and "L < N"
  shows "durable T N (map F gs) key L = row_at (F (gs ! nat (owner_rank N gs L))) (T key L)"
  using owner_rank_bounds [OF assms] owner_rank_length [of "map F gs" gs N L] by (simp add: durable_def)

lemma owner_at:
  assumes "ranks_numbered gs" and "0 \<le> L" and "L < N"
  shows "gs ! nat (owner_rank N gs L) \<in> set gs" and "rk_rank (gs ! nat (owner_rank N gs L)) = owner_rank N gs L"
  using assms owner_rank_bounds [of gs L N] by (auto simp: ranks_numbered_def)

lemma durable_writes:
  assumes hyp: "group_hyp T N gs key L" and c: "c = T key L" and L': "0 \<le> L'" "L' < N"
    and F: "F = owner_write c (owner_rank N gs L) ups ct \<or> F = shared_write c ups ct"
  shows "durable T N (map F gs) key' L' = store_write key L ups (durable T N gs) key' L'"
proof -
  note h = group_hypD [OF hyp]
  let ?g = "gs ! nat (owner_rank N gs L')"
  note o = owner_at [OF h(1) L']
  have same: "row_at (g\<lparr>rk_ctl := ct\<rparr>) d = row_at g d" for g d by (simp add: fun_eq_iff)
  show ?thesis
  proof (cases "key' = key \<and> L' = L")
    case True
    have "row_at (F ?g) c x = fold modify_row ups (row_at ?g c) x" for x
      using F o(2) True by (auto simp: owner_write_def shared_write_def row_modify same)
    then show ?thesis using True c unfolding durable_map [OF h(5) L']
      by (simp add: store_write_def fun_eq_iff durable_def [of T N gs])
  next
    case False
    then have "rk_slot ?g (ca_id (T key L)) \<noteq> rk_slot ?g (ca_id (T key' L'))"
      using private_slot [OF h(2) o(1) L' h(3,4), of key key'] o(2) by metis
    then have "rk_slot ?g (ca_id (T key' L')) \<noteq> rk_slot ?g (ca_id c)" using c by simp
    then have "row_at (F ?g) (T key' L') x = row_at ?g (T key' L') x" for x
      using F by (auto simp: owner_write_def shared_write_def row_modify)
    then show ?thesis using False unfolding durable_map [OF h(5) L']
      by (auto simp: store_write_def fun_eq_iff durable_def [of T N gs])
  qed
qed

lemma durable_ctl:
  assumes "gs \<noteq> []" and "0 \<le> L" "L < N" and "\<And>g. rk_mem (F g) = rk_mem g" and "\<And>g. rk_slot (F g) = rk_slot g"
  shows "durable T N (map F gs) key L = durable T N gs key L"
  unfolding durable_map [OF assms(1-3)] using assms(4,5) by (simp add: fun_eq_iff row_at_def durable_def)

lemma durable_after:
  assumes hyp: "group_hyp T N gs key L" and c: "c = T key L" and L': "0 \<le> L'" "L' < N"
    and pl: "\<And>ow rows ct. pl = Send ow rows ct \<Longrightarrow> ow = owner_rank N gs L"
  shows "durable T N (after_group c pl gs) key' L' = durable T N gs key' L'"
proof -
  note h = group_hypD [OF hyp]
  let ?g = "gs ! nat (owner_rank N gs L')"
  note o = owner_at [OF h(1) L']
  have "row_at (after_plan c pl gs ?g) (T key' L') x = row_at ?g (T key' L') x" for x
  proof (cases pl)
    case (Quiet ct)
    then show ?thesis by (simp add: after_plan_def)
  next
    case (Send ow rows ct)
    show ?thesis
    proof (cases "rk_slot ?g (ca_id (T key' L')) = rk_slot ?g (ca_id c)")
      case True
      then have "key = key' \<and> L = L'" using private_slot [OF h(2) o(1) L' h(3,4), of key key'] o(2) c by metis
      then show ?thesis using o(2) pl [OF Send] by (simp add: Send row_after_send)
    next
      case False
      then show ?thesis by (simp add: Send row_after_send)
    qed
  qed
  then show ?thesis unfolding after_group_def durable_map [OF h(5) L'] by (simp add: fun_eq_iff durable_def [of T N gs])
qed

section \<open>Registered names\<close>

text \<open>The name under which a registered layer is prefetched.\<close>

definition reg_name :: "int \<Rightarrow> cache_kind \<Rightarrow> string" where
  "reg_name i kind =
     ''model.layers.'' @ str_int i @ (if kind = Indexer then ''.self_attn.indexer'' else ''.self_attn.attn'')"

lemma digit_lower: "n < 10 \<Longrightarrow> py_lower_char (digit_char n) \<noteq> CHR ''x''"
proof -
  assume "n < 10"
  then have "n \<in> {0, 1, 2, 3, 4, 5, 6, 7, 8, 9}" by auto
  moreover have "\<forall>n \<in> {0, 1, 2, 3, 4, 5, 6, 7, 8, 9 :: nat}. py_lower_char (digit_char n) \<noteq> CHR ''x''" by code_simp
  ultimately show ?thesis by blast
qed

lemma str_nat_no_x: "CHR ''x'' \<notin> set (py_lower (str_nat n))"
proof (induction n rule: str_nat.induct)
  case (1 n)
  then show ?case using digit_lower [of n] digit_lower [of "n mod 10"]
    by (subst str_nat.simps) (auto simp: py_lower_def)
qed

lemma str_int_no_x: "CHR ''x'' \<notin> set (py_lower (str_int i))"
proof -
  have "py_lower_char (CHR ''-'') \<noteq> CHR ''x''" by code_simp
  then show ?thesis using str_nat_no_x by (auto simp: str_int_def py_lower_def)
qed

lemma lower_append: "py_lower (a @ b) = py_lower a @ py_lower b"
  by (simp add: py_lower_def)

lemma contains_x: "py_contains needle hay \<Longrightarrow> CHR ''x'' \<in> set needle \<Longrightarrow> CHR ''x'' \<in> set hay"
  by (auto simp: py_contains_def sublist_def)

lemma family_kind_reg_name [simp]: "family_kind (reg_name i kind) = kind"
proof (cases kind)
  case Indexer
  have "py_lower ''.self_attn.indexer'' = ''.self_attn.'' @ ''indexer''" by code_simp
  then have "py_lower (reg_name i Indexer) = (py_lower ''model.layers.'' @ py_lower (str_int i) @ ''.self_attn.'') @ ''indexer'' @ []"
    by (simp only: reg_name_def simp_thms if_True lower_append append_assoc append_Nil2)
  then have "py_contains ''indexer'' (py_lower (reg_name i Indexer))" unfolding py_contains_def sublist_def by blast
  then show ?thesis using Indexer by (simp add: family_kind_def Let_def)
next
  case Mla
  have "CHR ''x'' \<notin> set (py_lower ''model.layers.'')" "CHR ''x'' \<notin> set (py_lower ''.self_attn.attn'')" by code_simp+
  moreover have "py_lower (reg_name i Mla) = py_lower ''model.layers.'' @ py_lower (str_int i) @ py_lower ''.self_attn.attn''"
    by (simp only: reg_name_def cache_kind.distinct if_False lower_append)
  ultimately have "CHR ''x'' \<notin> set (py_lower (reg_name i Mla))" using str_int_no_x by simp
  then have "\<not> py_contains ''indexer'' (py_lower (reg_name i Mla))" "\<not> py_contains ''index_k'' (py_lower (reg_name i Mla))"
    using contains_x by fastforce+
  then show ?thesis using Mla by (simp add: family_kind_def Let_def)
qed

text \<open>A cache is bound to a name when it is the tensor of the layer the name stands for.\<close>

definition bound :: "tensors \<Rightarrow> int \<Rightarrow> (string \<Rightarrow> int result) \<Rightarrow> cache \<Rightarrow> string \<Rightarrow> bool" where
  "bound T N parse c n \<longleftrightarrow> (\<forall>L. parse n = Inr L \<and> 0 \<le> L \<and> L < N \<longrightarrow> c = T (family_key c n) L)"

definition registry_ok :: "tensors \<Rightarrow> int \<Rightarrow> control \<Rightarrow> bool" where
  "registry_ok T N ct \<longleftrightarrow>
     (\<forall>i slot kind c. 0 \<le> i \<and> i < N \<and> dict_get (ct_registry ct) i = Some slot \<and> dict_get slot kind = Some c
        \<longrightarrow> c = T (family_key c (reg_name i kind)) i)"

lemma registry_ok_cong: "ct_registry a = ct_registry b \<Longrightarrow> registry_ok T N a = registry_ok T N b"
  by (simp add: registry_ok_def)

lemma registry_fields [simp]:
  "ct_registry (set_family k f ct) = ct_registry ct" "ct_registry (family_state k ct) = ct_registry ct"
  by (simp_all add: set_family_def family_state_def)

lemma registry_register_set [simp]:
  "ct_registry (register_layer_cache parse c n (set_family k f ct)) = ct_registry (register_layer_cache parse c n ct)"
  by (simp add: register_layer_cache_def split: sum.splits)

lemma registry_ok_register:
  assumes "bound T N parse c n" and "registry_ok T N ct"
  shows "registry_ok T N (register_layer_cache parse c n ct)"
proof (cases "parse n")
  case (Inl e)
  then show ?thesis using assms(2) by (simp add: register_layer_cache_def)
next
  case (Inr i)
  let ?old = "case dict_get (ct_registry ct) i of None \<Rightarrow> [] | Some s \<Rightarrow> s"
  have reg: "ct_registry (register_layer_cache parse c n ct) = dict_set i (dict_set (family_kind n) c ?old) (ct_registry ct)"
    using Inr by (simp add: register_layer_cache_def)
  have same: "family_key c (reg_name i (family_kind n)) = family_key c n" by (simp add: family_key_def)
  show ?thesis
    unfolding registry_ok_def reg
  proof (intro allI impI, elim conjE)
    fix j slot kind d
    assume j: "0 \<le> j" "j < N" and slot: "dict_get (dict_set i (dict_set (family_kind n) c ?old) (ct_registry ct)) j = Some slot"
      and d: "dict_get slot kind = Some d"
    have old: "d = T (family_key d (reg_name j kind)) j" if "dict_get (ct_registry ct) j = Some s" "dict_get s kind = Some d" for s
      using assms(2) j that unfolding registry_ok_def by blast
    show "d = T (family_key d (reg_name j kind)) j"
    proof (cases "j = i \<and> kind = family_kind n")
      case True
      then have "d = c" using slot d by auto
      then show ?thesis using assms(1) Inr j True same unfolding bound_def by metis
    next
      case False
      then show ?thesis using slot d old by (auto split: if_splits option.splits)
    qed
  qed
qed

lemma registry_ok_fold:
  "(\<And>n c. (n, c) \<in> set caches \<Longrightarrow> bound T N parse c n) \<Longrightarrow> registry_ok T N ct \<Longrightarrow>
     registry_ok T N (fold (\<lambda>(n, c). register_layer_cache parse c n) caches ct)"
  by (induction caches arbitrary: ct) (auto intro: registry_ok_register)

section \<open>Coherent groups\<close>

definition coherent :: "tensors \<Rightarrow> int \<Rightarrow> rank list \<Rightarrow> bool" where
  "coherent T N gs \<longleftrightarrow> slots_apart T N gs
     \<and> all_true T N gs (rk_ctl (hd gs)) \<and> range_ok (rk_ctl (hd gs)) \<and> registry_ok T N (rk_ctl (hd gs))"

lemma slots_apart_map:
  assumes "slots_apart T N gs" and "\<And>g. rk_slot (F g) = rk_slot g" and "\<And>g. rk_rank (F g) = rk_rank g"
  shows "slots_apart T N (map F gs)"
proof -
  have ow: "owner_rank N (map F gs) L = owner_rank N gs L" for L by (rule owner_rank_length) simp
  show ?thesis unfolding slots_apart_def ow
  proof (intro ballI)
    fix h assume "h \<in> set (map F gs)"
    then obtain g where g: "g \<in> set gs" "h = F g" by auto
    show "\<forall>key L key' L'. 0 \<le> L \<and> L < N \<and> 0 \<le> L' \<and> L' < N \<and> (key, L) \<noteq> (key', L')
        \<and> rk_slot h (ca_id (T key L)) = rk_slot h (ca_id (T key' L')) \<longrightarrow>
        key = key' \<and> owner_rank N gs L \<noteq> rk_rank h \<and> owner_rank N gs L' \<noteq> rk_rank h"
      unfolding g(2) assms(2,3) using assms(1) g(1) unfolding slots_apart_def by blast
  qed
qed

lemma after_plan_fields [simp]:
  "rk_slot (after_plan c pl gs g) = rk_slot g" "rk_rank (after_plan c pl gs g) = rk_rank g"
  "rk_rt (after_plan c pl gs g) = rk_rt g" "rk_ctl (after_plan c pl gs g) = plan_ctl pl"
  by (auto simp: after_plan_def plan_ctl_def split: plan.splits)

lemma group_numbered: "group_ok N gs \<Longrightarrow> ranks_numbered gs"
  by (simp add: group_ok_def ranks_numbered_def)

lemma coherent_hyp: "group_ok N gs \<Longrightarrow> coherent T N gs \<Longrightarrow> 0 \<le> L \<Longrightarrow> L < N \<Longrightarrow> group_hyp T N gs key L"
  by (simp add: group_hyp_def coherent_def group_numbered)

lemma coherent_after:
  assumes "gs \<noteq> []" and "coherent T N gs" and "all_true T N (after_group c pl gs) (plan_ctl pl)"
    and "range_ok (plan_ctl pl)" and "registry_ok T N (plan_ctl pl)"
  shows "coherent T N (after_group c pl gs)"
proof -
  have "slots_apart T N (after_group c pl gs)"
    unfolding after_group_def using assms(2) by (intro slots_apart_map) (simp_all add: coherent_def)
  moreover have "rk_ctl (hd (after_group c pl gs)) = plan_ctl pl" using assms(1) by (simp add: after_group_def hd_map)
  ultimately show ?thesis using assms by (simp add: coherent_def)
qed

lemma group_after: "group_ok N gs \<Longrightarrow> group_ok N (after_group c pl gs)"
  unfolding after_group_def by (rule group_ok_map) simp_all

text \<open>Plans keep the active set, and what they register is bound.\<close>

lemma sync_plan_fields:
  "ct_active (plan_ctl (sync_plan c k L ow ct)) = ct_active ct" "ct_range (plan_ctl (sync_plan c k L ow ct)) = ct_range ct"
  "ct_sparse_env (plan_ctl (sync_plan c k L ow ct)) = ct_sparse_env ct"
  "ct_registry (plan_ctl (sync_plan c k L ow ct)) = ct_registry ct"
  by (auto simp: sync_plan_def plan_ctl_def Let_def split: prod.splits)

lemma read_ctl_registry [simp]: "ct_registry (read_ctl parse c n L ct) = ct_registry (register_layer_cache parse c n ct)"
  by (simp add: read_ctl_def Let_def)

lemma bcast_plan_fields:
  "ct_active (plan_ctl (bcast_plan parse c n L ow ct)) = ct_active ct" "ct_range (plan_ctl (bcast_plan parse c n L ow ct)) = ct_range ct"
  "ct_sparse_env (plan_ctl (bcast_plan parse c n L ow ct)) = ct_sparse_env ct"
  "ct_registry (plan_ctl (bcast_plan parse c n L ow ct)) = ct_registry (register_layer_cache parse c n ct)"
  by (auto simp: bcast_plan_def Let_def sync_plan_fields) (simp_all add: plan_ctl_def)

lemma prefetch_plan_fields:
  assumes b: "bound T N parse c n"
  shows "ct_active (plan_ctl (prefetch_plan parse c n L ow ct)) = ct_active ct"
    and "ct_range (plan_ctl (prefetch_plan parse c n L ow ct)) = ct_range ct"
    and "registry_ok T N ct \<Longrightarrow> registry_ok T N (plan_ctl (prefetch_plan parse c n L ow ct))"
proof -
  let ?key = "family_key c n"
  have async: "ct_active (plan_ctl (async_plan c ?key L ow (bcast_plan parse c n L ow) a)) = ct_active a \<and>
      ct_range (plan_ctl (async_plan c ?key L ow (bcast_plan parse c n L ow) a)) = ct_range a \<and>
      (ct_registry (plan_ctl (async_plan c ?key L ow (bcast_plan parse c n L ow) a)) = ct_registry a
       \<or> ct_registry (plan_ctl (async_plan c ?key L ow (bcast_plan parse c n L ow) a))
            = ct_registry (register_layer_cache parse c n a))" for a
    by (auto simp: async_plan_def Let_def bcast_plan_fields split: prod.splits) (auto simp: plan_ctl_def)
  let ?ct = "prefetch_ctl parse c n ct"
  let ?f = "family_of ?key ?ct"
  let ?ct2 = "set_family ?key (if pending_remote_broadcast ?f then finalize_pending_broadcast False ?f else ?f) ?ct"
  have pl: "prefetch_plan parse c n L ow ct = Quiet ?ct
      \<or> prefetch_plan parse c n L ow ct = async_plan c ?key L ow (bcast_plan parse c n L ow) ?ct2"
    by (auto simp: prefetch_plan_def Let_def)
  have ct: "ct_active ?ct = ct_active ct" "ct_range ?ct = ct_range ct" by (simp_all add: prefetch_ctl_def)
  show "ct_active (plan_ctl (prefetch_plan parse c n L ow ct)) = ct_active ct"
      "ct_range (plan_ctl (prefetch_plan parse c n L ow ct)) = ct_range ct"
    using pl async [of ?ct2] ct by (auto simp: plan_ctl_def)
  assume r: "registry_ok T N ct"
  have r2: "registry_ok T N a" if "ct_registry a = ct_registry ?ct2" for a
    using registry_ok_register [OF b r] that by (simp add: registry_ok_def prefetch_ctl_def)
  have reg2: "registry_ok T N (register_layer_cache parse c n ?ct2)" by (rule registry_ok_register [OF b r2 [OF refl]])
  let ?pl = "async_plan c ?key L ow (bcast_plan parse c n L ow) ?ct2"
  have "ct_registry (plan_ctl ?pl) = ct_registry ?ct2 \<or> ct_registry (plan_ctl ?pl) = ct_registry (register_layer_cache parse c n ?ct2)"
    using async [of ?ct2] by blast
  then have "registry_ok T N (plan_ctl ?pl)"
  proof
    assume "ct_registry (plan_ctl ?pl) = ct_registry ?ct2"
    then show ?thesis by (rule r2)
  next
    assume "ct_registry (plan_ctl ?pl) = ct_registry (register_layer_cache parse c n ?ct2)"
    from registry_ok_cong [OF this] reg2 show ?thesis by blast
  qed
  then show "registry_ok T N (plan_ctl (prefetch_plan parse c n L ow ct))"
    using pl r2 [of ?ct] by (auto simp: plan_ctl_def)
qed

section \<open>Calls\<close>

lemma lockstep_done:
  assumes "gs \<noteq> []" and "\<And>g. g \<in> set gs \<Longrightarrow> act g = Done (F g)"
  shows "lockstep 3 (map act gs) = Some (Inr (map F gs))"
proof -
  have "map act gs = map (\<lambda>g. Done (F g)) gs" using assms(2) by simp
  then show ?thesis unfolding numeral_3_eq_3 by (simp only: lockstep.simps) (simp add: list_all_iff comp_def)
qed

lemma lockstep_raised:
  assumes "gs \<noteq> []" and "\<And>g. g \<in> set gs \<Longrightarrow> act g = Raised e (F g)"
  shows "lockstep 3 (map act gs) = Some (Inl (map (\<lambda>_. e) gs))"
proof -
  have "map act gs = map (\<lambda>g. Raised e (F g)) gs" using assms(2) by simp
  then show ?thesis unfolding numeral_3_eq_3
    using assms(1) by (cases gs) (simp_all only: lockstep.simps, simp_all add: list_all_iff)
qed

lemma lockstep_after:
  assumes ok: "group_ok N gs" and act: "\<And>g. g \<in> set gs \<Longrightarrow> act g = run_plan c (rk_rank g) pl g"
    and pl: "\<And>ow rows ct. pl = Send ow rows ct \<Longrightarrow> ow = owner_rank N gs L" and L: "0 \<le> L" "L < N"
  shows "lockstep 3 (map act gs) = Some (Inr (after_group c pl gs))"
proof -
  have ne: "gs \<noteq> []" using ok by (simp add: group_ok_def)
  have "map act gs = map (\<lambda>g. run_plan c (rk_rank g) pl g) gs" using act by simp
  moreover have "lockstep (Suc (Suc 1)) (map (\<lambda>g. run_plan c (rk_rank g) pl g) gs) = Some (Inr (map (after_plan c pl gs) gs))"
  proof (rule lockstep_plan [OF ne])
    fix ow rows ct assume "pl = Send ow rows ct"
    from pl [OF this] show "0 \<le> ow \<and> ow < int (length gs)" using owner_rank_bounds [OF ne L] by simp
  qed
  ultimately show ?thesis by (simp only: numeral_3_eq_3 One_nat_def after_group_def)
qed

lemma owner_of_group:
  assumes "group_ok N gs" and "0 \<le> L" and "L < N"
  shows "owner_of (rank_state r (int (length gs)) N) L = Inr (owner_rank N gs L)"
proof -
  have "gs \<noteq> []" using assms(1) by (simp add: group_ok_def)
  then have "get_layer_owner L (int (length gs)) N = Inr (owner_rank N gs L)" using owner_rank_bounds(3) assms by blast
  then show ?thesis using assms by (simp add: owner_of_def) (simp add: rank_state_def local_index_def)
qed

lemma bcast_sender: "bcast_plan parse c n L ow ct = Send ow' rows ct' \<Longrightarrow> ow' = ow"
  by (auto simp: bcast_plan_def sync_plan_def Let_def split: if_splits prod.splits)

lemma prefetch_sender: "prefetch_plan parse c n L ow ct = Send ow' rows ct' \<Longrightarrow> ow' = ow"
  using bcast_sender [of parse c n L ow]
  by (auto simp: prefetch_plan_def async_plan_def Let_def split: if_splits prod.splits)

definition live :: "(string \<Rightarrow> int result) \<Rightarrow> cache \<Rightarrow> string \<Rightarrow> int \<Rightarrow> int \<Rightarrow> control \<Rightarrow> bool" where
  "live parse c n N L ct \<longleftrightarrow> numel c \<noteq> 0 \<and> \<not> ct_mtp ct \<and> parse n = Inr L \<and> 0 \<le> L \<and> L < N"

lemma broadcast_run:
  assumes ok: "group_ok N gs" and l: "live parse c n N L (rk_ctl (hd gs))"
  shows "lockstep 3 (map (broadcast_dsa_cache_from_owner parse c n) gs)
    = Some (Inr (after_group c (bcast_plan parse c n L (owner_rank N gs L) (rk_ctl (hd gs))) gs))"
proof (rule lockstep_after [OF ok, where L = L])
  show "0 \<le> L" "L < N" using l by (simp_all add: live_def)
  show "broadcast_dsa_cache_from_owner parse c n g
      = run_plan c (rk_rank g) (bcast_plan parse c n L (owner_rank N gs L) (rk_ctl (hd gs))) g" if g: "g \<in> set gs" for g
    using broadcast_is_plan [of c g _ parse n L "owner_rank N gs L"] l group_mem(1,2) [OF ok g] owner_of_group [OF ok]
    by (simp add: live_def)
qed (rule bcast_sender)

lemma prefetch_run:
  assumes ok: "group_ok N gs" and l: "live parse c n N L (rk_ctl (hd gs))"
  shows "lockstep 3 (map (prefetch_dsa_cache_from_owner parse c n) gs)
    = Some (Inr (after_group c (prefetch_plan parse c n L (owner_rank N gs L) (rk_ctl (hd gs))) gs))"
proof (rule lockstep_after [OF ok, where L = L])
  show "0 \<le> L" "L < N" using l by (simp_all add: live_def)
  show "prefetch_dsa_cache_from_owner parse c n g
      = run_plan c (rk_rank g) (prefetch_plan parse c n L (owner_rank N gs L) (rk_ctl (hd gs))) g" if g: "g \<in> set gs" for g
    using prefetch_is_plan [of c g _ parse n L "owner_rank N gs L"] l group_mem(1,2) [OF ok g] owner_of_group [OF ok]
    by (simp add: live_def)
qed (rule prefetch_sender)

text \<open>When the call does not apply, nothing happens or all ranks raise.\<close>

lemma idle_run:
  assumes ok: "group_ok N gs" and l: "\<And>L. \<not> live parse c n N L (rk_ctl (hd gs))"
  shows "lockstep 3 (map (broadcast_dsa_cache_from_owner parse c n) gs) \<in> {Some (Inr gs), Some (Inl (map (\<lambda>_. case parse n of Inl e \<Rightarrow> e) gs))}"
    and "lockstep 3 (map (prefetch_dsa_cache_from_owner parse c n) gs) \<in> {Some (Inr gs), Some (Inl (map (\<lambda>_. case parse n of Inl e \<Rightarrow> e) gs))}"
proof -
  have ne: "gs \<noteq> []" using ok by (simp add: group_ok_def)
  note g = group_mem(1,2) [OF ok]
  show "lockstep 3 (map (broadcast_dsa_cache_from_owner parse c n) gs) \<in> {Some (Inr gs), Some (Inl (map (\<lambda>_. case parse n of Inl e \<Rightarrow> e) gs))}"
  proof (cases "numel c = 0 \<or> ct_mtp (rk_ctl (hd gs)) \<or> (\<exists>L. parse n = Inr L)")
    case True
    then have "broadcast_dsa_cache_from_owner parse c n x = Done x" if "x \<in> set gs" for x
      using g [OF that] l by (auto simp: broadcast_dsa_cache_from_owner_def check_act_def live_def)
    then show ?thesis using lockstep_done [OF ne, of _ "\<lambda>x. x"] by simp
  next
    case False
    then obtain e where e: "parse n = Inl e" by (cases "parse n") auto
    then have "broadcast_dsa_cache_from_owner parse c n x = Raised e x" if "x \<in> set gs" for x
      using g [OF that] False by (auto simp: broadcast_dsa_cache_from_owner_def check_act_def)
    then show ?thesis using lockstep_raised [OF ne, of _ e "\<lambda>x. x"] e by simp
  qed
  show "lockstep 3 (map (prefetch_dsa_cache_from_owner parse c n) gs) \<in> {Some (Inr gs), Some (Inl (map (\<lambda>_. case parse n of Inl e \<Rightarrow> e) gs))}"
  proof (cases "numel c = 0 \<or> ct_mtp (rk_ctl (hd gs)) \<or> (\<exists>L. parse n = Inr L)")
    case True
    then have "prefetch_dsa_cache_from_owner parse c n x = Done x" if "x \<in> set gs" for x
      using g [OF that] l by (auto simp: prefetch_dsa_cache_from_owner_def check_act_def live_def)
    then show ?thesis using lockstep_done [OF ne, of _ "\<lambda>x. x"] by simp
  next
    case False
    then obtain e where e: "parse n = Inl e" by (cases "parse n") auto
    then have "prefetch_dsa_cache_from_owner parse c n x = Raised e x" if "x \<in> set gs" for x
      using g [OF that] False by (auto simp: prefetch_dsa_cache_from_owner_def check_act_def)
    then show ?thesis using lockstep_raised [OF ne, of _ e "\<lambda>x. x"] e by simp
  qed
qed

text \<open>Two groups with the same durable rows.\<close>

definition same_store :: "tensors \<Rightarrow> int \<Rightarrow> rank list \<Rightarrow> rank list \<Rightarrow> bool" where
  "same_store T N gs hs \<longleftrightarrow> (\<forall>key L. 0 \<le> L \<and> L < N \<longrightarrow> durable T N hs key L = durable T N gs key L)"

definition reads :: "tensors \<Rightarrow> int \<Rightarrow> cache \<Rightarrow> family_key \<Rightarrow> int \<Rightarrow> rank list \<Rightarrow> bool" where
  "reads T N c key L hs \<longleftrightarrow>
     (\<forall>g \<in> set hs. \<forall>x \<in> wanted_rows c (rk_ctl (hd hs)). row_at g c x = durable T N hs key L x)"

lemma broadcast_step:
  assumes ok: "group_ok N gs" and co: "coherent T N gs" and b: "bound T N parse c n"
    and run: "lockstep 3 (map (broadcast_dsa_cache_from_owner parse c n) gs) = Some (Inr hs)"
  shows "coherent T N hs \<and> same_store T N gs hs \<and>
    (\<forall>L. live parse c n N L (rk_ctl (hd gs)) \<longrightarrow> reads T N c (family_key c n) L hs)"
proof (cases "\<exists>L. live parse c n N L (rk_ctl (hd gs))")
  case False
  then have "hs = gs" using idle_run(1) [OF ok, of parse c n] run by auto
  then show ?thesis using co False by (simp add: same_store_def)
next
  case True
  then obtain L where l: "live parse c n N L (rk_ctl (hd gs))" by blast
  let ?ct = "rk_ctl (hd gs)" and ?key = "family_key c n"
  let ?pl = "bcast_plan parse c n L (owner_rank N gs L) ?ct"
  have ne: "gs \<noteq> []" using ok by (simp add: group_ok_def)
  have L: "0 \<le> L" "L < N" "parse n = Inr L" using l by (simp_all add: live_def)
  have hs: "hs = after_group c ?pl gs" using broadcast_run [OF ok l] run by simp
  have c: "c = T ?key L" using b L unfolding bound_def by blast
  note hyp = coherent_hyp [OF ok co L(1,2), of ?key]
  have ct: "all_true T N gs ?ct" "range_ok ?ct" "registry_ok T N ?ct" using co by (simp_all add: coherent_def)
  have t: "all_true T N hs (plan_ctl ?pl)" "holds c ?key L ?ct (plan_ctl ?pl)"
    using bcast_plan_true [OF hyp ct(1) c ct(2), of parse] hs by (simp_all add: Let_def)
  have "range_ok (plan_ctl ?pl)" using ct(2) range_ok_cong bcast_plan_fields by metis
  moreover have "registry_ok T N (plan_ctl ?pl)"
    using registry_ok_register [OF b ct(3)] by (simp add: registry_ok_def bcast_plan_fields)
  ultimately have "coherent T N hs" using coherent_after [OF ne co] t(1) hs by simp
  moreover have "same_store T N gs hs" unfolding same_store_def hs
    by (intro allI impI durable_after [OF hyp c]) (auto dest: bcast_sender)
  moreover have "reads T N c ?key L hs"
  proof -
    let ?f = "family_of ?key (plan_ctl ?pl)"
    have "rows_equal hs c (owner_rank N hs L) (known_rows c ?f)"
      using all_trueD [OF t(1), of ?key] t(2) c unfolding family_true_def remote_true_def holds_def by metis
    moreover have "rk_ctl (hd hs) = plan_ctl ?pl" using ne by (simp add: hs after_group_def hd_map)
    moreover have "wanted_rows c (plan_ctl ?pl) = wanted_rows c ?ct" by (rule wanted_rows_cong) (simp_all add: bcast_plan_fields)
    ultimately show ?thesis using t(2) c unfolding reads_def holds_def durable_def rows_equal_def by (metis subsetD)
  qed
  ultimately show ?thesis using L(3) by (auto simp: live_def)
qed

lemma prefetch_step:
  assumes ok: "group_ok N gs" and co: "coherent T N gs" and b: "bound T N parse c n"
    and run: "lockstep 3 (map (prefetch_dsa_cache_from_owner parse c n) gs) = Some (Inr hs)"
  shows "coherent T N hs \<and> same_store T N gs hs"
proof (cases "\<exists>L. live parse c n N L (rk_ctl (hd gs))")
  case False
  then have "hs = gs" using idle_run(2) [OF ok, of parse c n] run by auto
  then show ?thesis using co by (simp add: same_store_def)
next
  case True
  then obtain L where l: "live parse c n N L (rk_ctl (hd gs))" by blast
  let ?ct = "rk_ctl (hd gs)" and ?key = "family_key c n"
  let ?pl = "prefetch_plan parse c n L (owner_rank N gs L) ?ct"
  have ne: "gs \<noteq> []" using ok by (simp add: group_ok_def)
  have L: "0 \<le> L" "L < N" "parse n = Inr L" using l by (simp_all add: live_def)
  have hs: "hs = after_group c ?pl gs" using prefetch_run [OF ok l] run by simp
  have c: "c = T ?key L" using b L unfolding bound_def by blast
  note hyp = coherent_hyp [OF ok co L(1,2), of ?key] and fields = prefetch_plan_fields [OF b, where L = L and ow = "owner_rank N gs L" and ct = ?ct]
  have ct: "all_true T N gs ?ct" "range_ok ?ct" "registry_ok T N ?ct" using co by (simp_all add: coherent_def)
  have t: "all_true T N hs (plan_ctl ?pl)" using prefetch_plan_true [OF hyp ct(1) c ct(2), of parse] hs by (simp add: Let_def)
  have "range_ok (plan_ctl ?pl)" using ct(2) range_ok_cong [OF fields(1,2)] by blast
  then have "coherent T N hs" using coherent_after [OF ne co] t fields(3) [OF ct(3)] hs by simp
  moreover have "same_store T N gs hs" unfolding same_store_def hs
    by (intro allI impI durable_after [OF hyp c]) (auto dest: prefetch_sender)
  ultimately show ?thesis by blast
qed

section \<open>Write calls\<close>

lemma begin_write_true:
  assumes f0: "family_true T N gs key f0" and prep: "prepare_remote_selection c L ct
      (if pending_remote_layer_id f0 = Some L then finalize_pending_broadcast True f0 else f0) = ((ids, full, needs), f2)"
  shows "family_true T N gs key f2" and "pending_remote_layer_id f2 \<noteq> Some L"
    and "\<not> needs \<Longrightarrow> \<not> pending_remote_broadcast f2"
proof -
  let ?f1 = "if pending_remote_layer_id f0 = Some L then finalize_pending_broadcast True f0 else f0"
  have f1: "family_true T N gs key ?f1" using f0 finalize_true(1) [OF f0] by simp
  show f2: "family_true T N gs key f2" by (rule prepare_true [OF prep f1])
  note p = prepare_facts [OF prep]
  have "pending_remote_layer_id ?f1 \<noteq> Some L"
  proof (cases "pending_remote_layer_id f0 = Some L")
    case True
    then have "\<not> pending_remote_broadcast (finalize_pending_broadcast True f0)" using finalize_true(2) [OF f0] by blast
    moreover have "family_true T N gs key (finalize_pending_broadcast True f0)" by (rule finalize_true(1) [OF f0])
    ultimately show ?thesis using True unfolding family_true_def pending_true_def by auto
  qed simp
  then show "pending_remote_layer_id f2 \<noteq> Some L" using p(4) by simp
  assume quiet: "\<not> needs"
  show "\<not> pending_remote_broadcast f2"
  proof
    assume "pending_remote_broadcast f2"
    then have "remote_block_ids f2 = None" "\<not> remote_full f2" using f2 unfolding family_true_def pending_true_def by blast+
    then have "needs" using prep active_ids_facts(1) [of c ct]
      by (auto simp: prepare_remote_selection_def Let_def split: option.splits if_splits)
    then show False using quiet by simp
  qed
qed

text \<open>The probe of a write: what it answers and the bookkeeping it leaves, the same on all ranks.\<close>

definition probe :: "cache \<Rightarrow> string \<Rightarrow> int \<Rightarrow> control \<Rightarrow> bool \<times> control" where
  "probe c n L ct =
     (let key = family_key c n; f0 = family_of key ct;
          f1 = (if pending_remote_layer_id f0 = Some L then finalize_pending_broadcast True f0 else f0)
      in case prepare_remote_selection c L ct f1 of
           ((_, _, needs), f2) \<Rightarrow> (remote_layer_id f2 = Some L \<and> \<not> needs, set_family key f2 ct))"

text \<open>
  A write is safe when the held copy is complete, or the held layer is another one, or the rows
  written are not among those recorded as synchronized.
\<close>

definition write_safe :: "cache \<Rightarrow> string \<Rightarrow> int \<Rightarrow> (int \<times> (int \<Rightarrow> int)) list \<Rightarrow> control \<Rightarrow> bool" where
  "write_safe c n L ups ct \<longleftrightarrow>
     fst (probe c n L ct)
     \<or> remote_layer_id (family_of (family_key c n) (snd (probe c n L ct))) \<noteq> Some L
     \<or> nat ` fst ` set ups \<inter> known_rows c (family_of (family_key c n) (snd (probe c n L ct))) = {}"

lemma probe_true:
  assumes ct: "all_true T N gs ct"
  shows "all_true T N gs (snd (probe c n L ct))"
    and "pending_remote_layer_id (family_of (family_key c n) (snd (probe c n L ct))) \<noteq> Some L"
    and "fst (probe c n L ct) \<Longrightarrow> remote_layer_id (family_of (family_key c n) (snd (probe c n L ct))) = Some L
      \<and> \<not> pending_remote_broadcast (family_of (family_key c n) (snd (probe c n L ct)))"
    and "ct_active (snd (probe c n L ct)) = ct_active ct" and "ct_range (snd (probe c n L ct)) = ct_range ct"
    and "ct_registry (snd (probe c n L ct)) = ct_registry ct" and "ct_mtp (snd (probe c n L ct)) = ct_mtp ct"
    and "ct_sparse_env (snd (probe c n L ct)) = ct_sparse_env ct"
proof -
  let ?f0 = "family_of (family_key c n) ct"
  obtain ids full needs f2 where prep: "prepare_remote_selection c L ct
      (if pending_remote_layer_id ?f0 = Some L then finalize_pending_broadcast True ?f0 else ?f0) = ((ids, full, needs), f2)"
    by (metis prod_cases3 surj_pair)
  note t = begin_write_true [OF all_trueD [OF ct] prep]
  have pr: "probe c n L ct = (remote_layer_id f2 = Some L \<and> \<not> needs, set_family (family_key c n) f2 ct)"
    using prep by (simp add: probe_def Let_def)
  show "all_true T N gs (snd (probe c n L ct))" unfolding pr using all_true_set [OF ct t(1)] by simp
  show "pending_remote_layer_id (family_of (family_key c n) (snd (probe c n L ct))) \<noteq> Some L" unfolding pr using t(2) by simp
  show "fst (probe c n L ct) \<Longrightarrow> remote_layer_id (family_of (family_key c n) (snd (probe c n L ct))) = Some L
      \<and> \<not> pending_remote_broadcast (family_of (family_key c n) (snd (probe c n L ct)))" unfolding pr using t(3) by simp
  show "ct_active (snd (probe c n L ct)) = ct_active ct" "ct_range (snd (probe c n L ct)) = ct_range ct"
    "ct_registry (snd (probe c n L ct)) = ct_registry ct" "ct_mtp (snd (probe c n L ct)) = ct_mtp ct"
    "ct_sparse_env (snd (probe c n L ct)) = ct_sparse_env ct"
    unfolding pr by simp_all
qed

lemma commits_owner:
  assumes ok: "group_ok N gs" and g: "g \<in> set gs" and h: "rk_rt h = rk_rt g" and L: "parse n = Inr L" "0 \<le> L" "L < N"
  shows "commits parse n h = Inr (rk_rank g = owner_rank N gs L)"
proof -
  have "rank_state_of h = Inr (Some (rank_state (rk_rank g) (int (length gs)) N))"
    using group_mem(1) [OF ok g] h by (simp add: rank_state_of_def)
  moreover obtain ow where "owner_of (rank_state (rk_rank g) (int (length gs)) N) L = Inr ow"
      "is_owned (rank_state (rk_rank g) (int (length gs)) N) L = Inr (rk_rank g = ow)"
    using group_owner [OF ok L(2,3)] g by metis
  ultimately show ?thesis using owner_of_group [OF ok L(2,3)] L(1)
    by (simp add: commits_def should_commit_durable_dsa_cache_def rank_state_of_def)
qed

lemma write_then_read:
  assumes ok: "group_ok N gs" and co: "coherent T N gs" and b: "bound T N parse c n" and l: "live parse c n N L ct"
    and F: "F = owner_write c (owner_rank N gs L) ups ct \<or> F = shared_write c ups ct"
    and t: "all_true T N (map F gs) ct" and ct: "range_ok ct" "registry_ok T N ct"
    and run: "lockstep 3 (map (\<lambda>g. broadcast_dsa_cache_from_owner parse c n (F g)) gs) = Some (Inr hs)"
  shows "coherent T N hs" and "reads T N c (family_key c n) L hs"
    and "0 \<le> L' \<Longrightarrow> L' < N \<Longrightarrow> durable T N hs key' L' = store_write (family_key c n) L ups (durable T N gs) key' L'"
proof -
  have ne: "gs \<noteq> []" using ok by (simp add: group_ok_def)
  have L: "0 \<le> L" "L < N" "parse n = Inr L" using l by (simp_all add: live_def)
  have c: "c = T (family_key c n) L" using b L unfolding bound_def by blast
  have fields: "rk_rank (F g) = rk_rank g" "rk_rt (F g) = rk_rt g" "rk_slot (F g) = rk_slot g" "rk_ctl (F g) = ct" for g
    using F by auto
  have hd: "rk_ctl (hd (map F gs)) = ct" using ne fields(4) by (simp add: hd_map)
  have ok': "group_ok N (map F gs)" by (rule group_ok_map [OF ok]) (simp add: fields)
  have "slots_apart T N (map F gs)" using co fields by (intro slots_apart_map) (simp_all add: coherent_def)
  then have co': "coherent T N (map F gs)" using t ct hd by (simp add: coherent_def)
  have run': "lockstep 3 (map (broadcast_dsa_cache_from_owner parse c n) (map F gs)) = Some (Inr hs)"
    using run by (simp add: comp_def)
  note step = broadcast_step [OF ok' co' b run']
  show "coherent T N hs" using step by blast
  show "reads T N c (family_key c n) L hs" using step l hd by simp
  assume L': "0 \<le> L'" "L' < N"
  have "durable T N hs key' L' = durable T N (map F gs) key' L'" using step L' unfolding same_store_def by blast
  then show "durable T N hs key' L' = store_write (family_key c n) L ups (durable T N gs) key' L'"
    using durable_writes [OF coherent_hyp [OF ok co L(1,2)] c L' F] by simp
qed

lemma mla_update_run:
  assumes ok: "group_ok N gs" and l: "live parse c n N L (rk_ctl (hd gs))" and g: "g \<in> set gs"
  shows "mla_cache_update parse c n ups g = broadcast_dsa_cache_from_owner parse c n
    (if fst (probe c n L (rk_ctl (hd gs))) then shared_write c ups (snd (probe c n L (rk_ctl (hd gs)))) g
     else owner_write c (owner_rank N gs L) ups (snd (probe c n L (rk_ctl (hd gs)))) g)"
proof -
  let ?ct = "rk_ctl (hd gs)"
  let ?g = "g\<lparr>rk_ctl := snd (probe c n L ?ct)\<rparr>"
  have L: "0 \<le> L" "L < N" "parse n = Inr L" "numel c \<noteq> 0" using l by (simp_all add: live_def)
  have "begin_mla_dsa_cache_write parse c n g = (Inr (fst (probe c n L ?ct)), ?g)"
    using L group_mem(1,2) [OF ok g]
    by (simp add: begin_mla_dsa_cache_write_def probe_def Let_def update_ctl_def split: prod.splits)
  moreover have "commits parse n ?g = Inr (rk_rank g = owner_rank N gs L)"
    using commits_owner [OF ok g _ _ L(1,2), of _ parse n] L(3) by simp
  ultimately show ?thesis by (simp add: mla_cache_update_def check_act_def owner_write_def shared_write_def)
qed

lemma mla_step:
  assumes ok: "group_ok N gs" and co: "coherent T N gs" and b: "bound T N parse c n"
    and l: "live parse c n N L (rk_ctl (hd gs))" and safe: "write_safe c n L ups (rk_ctl (hd gs))"
    and run: "lockstep 3 (map (mla_cache_update parse c n ups) gs) = Some (Inr hs)"
  shows "coherent T N hs" and "reads T N c (family_key c n) L hs"
    and "0 \<le> L' \<Longrightarrow> L' < N \<Longrightarrow> durable T N hs key' L' = store_write (family_key c n) L ups (durable T N gs) key' L'"
proof -
  let ?ct = "rk_ctl (hd gs)"
  let ?u = "fst (probe c n L ?ct)" and ?ct1 = "snd (probe c n L ?ct)"
  define F where "F = (if ?u then shared_write c ups ?ct1 else owner_write c (owner_rank N gs L) ups ?ct1)"
  have L: "0 \<le> L" "L < N" "parse n = Inr L" using l by (simp_all add: live_def)
  have c: "c = T (family_key c n) L" using b L unfolding bound_def by blast
  note hyp = coherent_hyp [OF ok co L(1,2), of "family_key c n"]
  have ct: "all_true T N gs ?ct" "range_ok ?ct" "registry_ok T N ?ct" using co by (simp_all add: coherent_def)
  note p = probe_true [OF ct(1), where c = c and n = n and L = L]
  have l1: "live parse c n N L ?ct1" using l p(7) by (simp add: live_def)
  have r1: "range_ok ?ct1" "registry_ok T N ?ct1"
    using ct(2,3) range_ok_cong [OF p(4,5)] registry_ok_cong [OF p(6)] by blast+
  have t1: "all_true T N (map F gs) ?ct1"
  proof (cases ?u)
    case True
    then show ?thesis using shared_write_true [OF hyp p(1) c] p(3) by (simp add: F_def)
  next
    case False
    then show ?thesis using owner_write_true [OF hyp p(1) c _ p(2)] safe by (simp add: F_def write_safe_def)
  qed
  have "map (mla_cache_update parse c n ups) gs = map (\<lambda>g. broadcast_dsa_cache_from_owner parse c n (F g)) gs"
    using mla_update_run [OF ok l] by (simp add: F_def)
  then have run': "lockstep 3 (map (\<lambda>g. broadcast_dsa_cache_from_owner parse c n (F g)) gs) = Some (Inr hs)"
    using run by (simp only:)
  have F: "F = owner_write c (owner_rank N gs L) ups ?ct1 \<or> F = shared_write c ups ?ct1" by (simp add: F_def)
  note w = write_then_read [OF ok co b l1 F t1 r1 run']
  show "coherent T N hs" by (rule w(1))
  show "reads T N c (family_key c n) L hs" by (rule w(2))
  show "0 \<le> L' \<Longrightarrow> L' < N \<Longrightarrow> durable T N hs key' L' = store_write (family_key c n) L ups (durable T N gs) key' L'"
    by (rule w(3))
qed

lemma invalidate_true:
  assumes ct: "all_true T N gs ct" and n: "parse n = Inr L" "numel c \<noteq> 0"
  shows "all_true T N gs (invalidate_dsa_cache_broadcast parse c n ct)"
    and "remote_layer_id (family_of (family_key c n) (invalidate_dsa_cache_broadcast parse c n ct)) \<noteq> Some L"
    and "pending_remote_layer_id (family_of (family_key c n) (invalidate_dsa_cache_broadcast parse c n ct)) \<noteq> Some L"
    and "ct_active (invalidate_dsa_cache_broadcast parse c n ct) = ct_active ct"
    and "ct_range (invalidate_dsa_cache_broadcast parse c n ct) = ct_range ct"
    and "ct_registry (invalidate_dsa_cache_broadcast parse c n ct) = ct_registry ct"
    and "ct_mtp (invalidate_dsa_cache_broadcast parse c n ct) = ct_mtp ct"
proof -
  let ?key = "family_key c n"
  let ?f0 = "family_of ?key ct"
  let ?f1 = "if pending_remote_layer_id ?f0 = Some L then finalize_pending_broadcast False ?f0 else ?f0"
  let ?f2 = "if remote_layer_id ?f1 = Some L
    then ?f1\<lparr>remote_layer_id := None, remote_block_ids := None, remote_full := False\<rparr> else ?f1"
  have inv: "invalidate_dsa_cache_broadcast parse c n ct = set_family ?key ?f2 ct"
    using n by (simp only: invalidate_dsa_cache_broadcast_def Let_def if_False sum.case)
  have f0: "family_true T N gs ?key ?f0" by (rule all_trueD [OF ct])
  have f1: "family_true T N gs ?key ?f1" using f0 finalize_true(1) [OF f0] by simp
  have p1: "pending_remote_layer_id ?f1 \<noteq> Some L"
  proof (cases "pending_remote_layer_id ?f0 = Some L")
    case True
    then show ?thesis using finalize_true [OF f0, of False] unfolding family_true_def pending_true_def by auto
  qed simp
  have f2: "family_true T N gs ?key ?f2"
  proof (cases "remote_layer_id ?f1 = Some L")
    case True
    have "family_true T N gs ?key (h\<lparr>remote_layer_id := None, remote_block_ids := None, remote_full := False\<rparr>)"
      if "family_true T N gs ?key h" for h
      using that by (auto simp: family_true_def remote_true_def pending_true_def pending_rows_def)
    then show ?thesis using f1 True by simp
  qed (use f1 in simp)
  show "all_true T N gs (invalidate_dsa_cache_broadcast parse c n ct)" unfolding inv by (rule all_true_set [OF ct f2])
  show "remote_layer_id (family_of ?key (invalidate_dsa_cache_broadcast parse c n ct)) \<noteq> Some L"
    "pending_remote_layer_id (family_of ?key (invalidate_dsa_cache_broadcast parse c n ct)) \<noteq> Some L"
    "ct_active (invalidate_dsa_cache_broadcast parse c n ct) = ct_active ct"
    "ct_range (invalidate_dsa_cache_broadcast parse c n ct) = ct_range ct"
    "ct_registry (invalidate_dsa_cache_broadcast parse c n ct) = ct_registry ct"
    "ct_mtp (invalidate_dsa_cache_broadcast parse c n ct) = ct_mtp ct"
    unfolding inv using p1 by simp_all
qed

lemma indexer_step:
  assumes ok: "group_ok N gs" and co: "coherent T N gs" and b: "bound T N parse c n"
    and l: "live parse c n N L (rk_ctl (hd gs))"
    and run: "lockstep 3 (map (indexer_cache_update parse c n ups) gs) = Some (Inr hs)"
  shows "coherent T N hs" and "reads T N c (family_key c n) L hs"
    and "0 \<le> L' \<Longrightarrow> L' < N \<Longrightarrow> durable T N hs key' L' = store_write (family_key c n) L ups (durable T N gs) key' L'"
proof -
  let ?ct = "rk_ctl (hd gs)"
  let ?ct1 = "invalidate_dsa_cache_broadcast parse c n ?ct"
  define F where "F = owner_write c (owner_rank N gs L) ups ?ct1"
  have L: "0 \<le> L" "L < N" "parse n = Inr L" "numel c \<noteq> 0" using l by (simp_all add: live_def)
  have c: "c = T (family_key c n) L" using b L unfolding bound_def by blast
  note hyp = coherent_hyp [OF ok co L(1,2), of "family_key c n"]
  have ct: "all_true T N gs ?ct" "range_ok ?ct" "registry_ok T N ?ct" using co by (simp_all add: coherent_def)
  note p = invalidate_true [where parse = parse and n = n and L = L and c = c, OF ct(1) L(3,4)]
  have l1: "live parse c n N L ?ct1" using l p(7) by (simp add: live_def)
  have r1: "range_ok ?ct1" "registry_ok T N ?ct1"
    using ct(2,3) range_ok_cong [OF p(4,5)] registry_ok_cong [OF p(6)] by blast+
  have t1: "all_true T N (map F gs) ?ct1" unfolding F_def using owner_write_true [OF hyp p(1) c _ p(3)] p(2) by simp
  have "indexer_cache_update parse c n ups g = broadcast_dsa_cache_from_owner parse c n (F g)" if g: "g \<in> set gs" for g
  proof -
    have "rk_ctl g = ?ct" by (rule group_mem(2) [OF ok g])
    moreover have "commits parse n (g\<lparr>rk_ctl := ?ct1\<rparr>) = Inr (rk_rank g = owner_rank N gs L)"
      using commits_owner [OF ok g _ _ L(1,2), of _ parse n] L(3) by simp
    ultimately show ?thesis
      by (simp add: indexer_cache_update_def Let_def update_ctl_def check_act_def F_def owner_write_def)
  qed
  then have "map (indexer_cache_update parse c n ups) gs = map (\<lambda>g. broadcast_dsa_cache_from_owner parse c n (F g)) gs" by simp
  then have run': "lockstep 3 (map (\<lambda>g. broadcast_dsa_cache_from_owner parse c n (F g)) gs) = Some (Inr hs)"
    using run by (simp only:)
  have F: "F = owner_write c (owner_rank N gs L) ups ?ct1 \<or> F = shared_write c ups ?ct1" by (simp add: F_def)
  note w = write_then_read [OF ok co b l1 F t1 r1 run']
  show "coherent T N hs" by (rule w(1))
  show "reads T N c (family_key c n) L hs" by (rule w(2))
  show "0 \<le> L' \<Longrightarrow> L' < N \<Longrightarrow> durable T N hs key' L' = store_write (family_key c n) L ups (durable T N gs) key' L'"
    by (rule w(3))
qed

section \<open>Sequences of calls\<close>

text \<open>What a call does to the abstract store.\<close>

definition written :: "(string \<Rightarrow> int result) \<Rightarrow> cache \<Rightarrow> string \<Rightarrow> (int \<times> (int \<Rightarrow> int)) list
    \<Rightarrow> (family_key \<Rightarrow> int \<Rightarrow> nat \<Rightarrow> int) \<Rightarrow> family_key \<Rightarrow> int \<Rightarrow> nat \<Rightarrow> int" where
  "written parse c n ups s = (case parse n of Inl _ \<Rightarrow> s | Inr L \<Rightarrow> store_write (family_key c n) L ups s)"

definition spec_call :: "(string \<Rightarrow> int result) \<Rightarrow> group_call
    \<Rightarrow> (family_key \<Rightarrow> int \<Rightarrow> nat \<Rightarrow> int) \<Rightarrow> family_key \<Rightarrow> int \<Rightarrow> nat \<Rightarrow> int" where
  "spec_call parse call s =
     (case call of
        Mla_update c n ups \<Rightarrow> written parse c n ups s
      | Indexer_update c n ups \<Rightarrow> written parse c n ups s
      | _ \<Rightarrow> s)"

text \<open>
  The calls a model makes: caches are bound to their names, the generated names parse, writes
  go to backbone layers outside replicated MTP batches and are safe.
\<close>

definition valid_call :: "tensors \<Rightarrow> int \<Rightarrow> (string \<Rightarrow> int result) \<Rightarrow> rank list \<Rightarrow> group_call \<Rightarrow> bool" where
  "valid_call T N parse gs call \<longleftrightarrow>
     (case call of
        Register caches \<Rightarrow> \<forall>(n, c) \<in> set caches. bound T N parse c n
      | Broadcast c n \<Rightarrow> bound T N parse c n
      | Prefetch c n \<Rightarrow> bound T N parse c n
      | Prefetch_same i \<Rightarrow> parse (reg_name i Mla) = Inr i
      | Prefetch_next i kind \<Rightarrow> parse (reg_name (i + 1) kind) = Inr (i + 1)
      | Mla_update c n ups \<Rightarrow> bound T N parse c n
          \<and> (\<exists>L. live parse c n N L (rk_ctl (hd gs)) \<and> write_safe c n L ups (rk_ctl (hd gs)))
      | Indexer_update c n ups \<Rightarrow> bound T N parse c n \<and> (\<exists>L. live parse c n N L (rk_ctl (hd gs)))
      | _ \<Rightarrow> True)"

definition reads_layer :: "group_call \<Rightarrow> cache \<Rightarrow> string \<Rightarrow> bool" where
  "reads_layer call c n \<longleftrightarrow>
     (case call of
        Broadcast c' n' \<Rightarrow> c' = c \<and> n' = n
      | Mla_update c' n' _ \<Rightarrow> c' = c \<and> n' = n
      | Indexer_update c' n' _ \<Rightarrow> c' = c \<and> n' = n
      | _ \<Rightarrow> False)"

lemma sorted_range: "sorted xs \<Longrightarrow> x \<in> set xs \<Longrightarrow> hd xs \<le> x \<and> x \<le> last (xs :: int list)"
proof (induction xs)
  case (Cons y ys)
  then show ?case by (cases "ys = []") auto
qed simp

lemma unique_sorted_range: "x \<in> set xs \<Longrightarrow> hd (unique_sorted xs) \<le> x \<and> x \<le> last (unique_sorted xs)"
  unfolding unique_sorted_def by (rule sorted_range) simp_all

lemma set_unique_sorted [simp]: "set (unique_sorted xs) = set xs"
  by (simp add: unique_sorted_def)

lemma set_active_coherent:
  assumes "all_true T N gs ct" and "registry_ok T N ct"
  shows "all_true T N gs (set_active_dsa_broadcast_block_ids ids ct)"
    and "range_ok (set_active_dsa_broadcast_block_ids ids ct)"
    and "registry_ok T N (set_active_dsa_broadcast_block_ids ids ct)"
proof -
  let ?ids = "case ids of None \<Rightarrow> None | Some xs \<Rightarrow> if xs = [] then None else Some (unique_sorted xs)"
  let ?ct = "if ct_active ct \<noteq> ?ids then invalidate_remote_broadcast_state ?ids ct else ct"
  have set: "set_active_dsa_broadcast_block_ids ids ct =
      ?ct\<lparr>ct_active := ?ids, ct_range := (case ?ids of None \<Rightarrow> None | Some xs \<Rightarrow> Some (hd xs, last xs))\<rparr>"
    by (simp only: set_active_dsa_broadcast_block_ids_def Let_def)
  have "all_true T N gs ?ct" using assms(1) invalidate_all_true [OF assms(1)] by simp
  then show "all_true T N gs (set_active_dsa_broadcast_block_ids ids ct)"
    unfolding set by (subst all_true_families [where b = ?ct]) simp_all
  show "range_ok (set_active_dsa_broadcast_block_ids ids ct)"
    unfolding set range_ok_def using unique_sorted_range by (auto split: option.splits if_splits)
  have "ct_registry ?ct = ct_registry ct" by (simp add: invalidate_remote_broadcast_state_def)
  then show "registry_ok T N (set_active_dsa_broadcast_block_ids ids ct)"
    unfolding set using assms(2) by (simp add: registry_ok_def)
qed

text \<open>A call that only changes the bookkeeping.\<close>

lemma local_call:
  assumes ok: "group_ok N gs" and co: "coherent T N gs"
    and act: "\<And>g. g \<in> set gs \<Longrightarrow> act g = Done (update_ctl h g)" and run: "lockstep 3 (map act gs) = Some (Inr hs)"
    and h: "all_true T N gs (h (rk_ctl (hd gs)))" "range_ok (h (rk_ctl (hd gs)))" "registry_ok T N (h (rk_ctl (hd gs)))"
  shows "coherent T N hs" and "0 \<le> L \<Longrightarrow> L < N \<Longrightarrow> durable T N hs key L = durable T N gs key L"
proof -
  have ne: "gs \<noteq> []" using ok by (simp add: group_ok_def)
  have hs: "hs = map (update_ctl h) gs" using lockstep_done [OF ne act] run by simp
  have same: "row_at (update_ctl h g) c x = row_at g c x" for g c x by (simp add: row_at_def)
  have "all_true T N (map (update_ctl h) gs) (h (rk_ctl (hd gs)))"
    unfolding all_true_def by (intro allI family_true_map [OF all_trueD [OF h(1)] ne] alikeI same)
  moreover have "slots_apart T N (map (update_ctl h) gs)" using co by (intro slots_apart_map) (simp_all add: coherent_def)
  ultimately show "coherent T N hs" using h ne by (simp add: coherent_def hs hd_map)
  show "0 \<le> L \<Longrightarrow> L < N \<Longrightarrow> durable T N hs key L = durable T N gs key L"
    unfolding hs by (rule durable_ctl [OF ne]) simp_all
qed

lemma registered_call:
  assumes ok: "group_ok N gs" and co: "coherent T N gs" and i: "parse (reg_name i kind) = Inr i" "0 \<le> i" "i < N"
    and run: "lockstep 3 (map (prefetch_registered_layer parse i kind) gs) = Some (Inr hs)"
  shows "coherent T N hs \<and> same_store T N gs hs"
proof -
  have ne: "gs \<noteq> []" using ok by (simp add: group_ok_def)
  note ctl = group_mem(2) [OF ok]
  let ?entry = "case dict_get (ct_registry (rk_ctl (hd gs))) i of None \<Rightarrow> None | Some slot \<Rightarrow> dict_get slot kind"
  show ?thesis
  proof (cases ?entry)
    case None
    then have "prefetch_registered_layer parse i kind g = Done g" if "g \<in> set gs" for g
      using ctl [OF that] by (auto simp: prefetch_registered_layer_def split: option.splits)
    then have "hs = gs" using lockstep_done [OF ne, of _ "\<lambda>g. g"] run by simp
    then show ?thesis using co by (simp add: same_store_def)
  next
    case (Some c)
    have "prefetch_registered_layer parse i kind g = prefetch_dsa_cache_from_owner parse c (reg_name i kind) g" if "g \<in> set gs" for g
      using Some ctl [OF that] by (auto simp: prefetch_registered_layer_def reg_name_def split: option.splits)
    then have "map (prefetch_registered_layer parse i kind) gs = map (prefetch_dsa_cache_from_owner parse c (reg_name i kind)) gs" by simp
    then have run': "lockstep 3 (map (prefetch_dsa_cache_from_owner parse c (reg_name i kind)) gs) = Some (Inr hs)"
      using run by (simp only:)
    have "registry_ok T N (rk_ctl (hd gs))" using co by (simp add: coherent_def)
    moreover obtain slot where "dict_get (ct_registry (rk_ctl (hd gs))) i = Some slot" "dict_get slot kind = Some c"
      using Some by (auto split: option.splits)
    ultimately have "c = T (family_key c (reg_name i kind)) i" using i(2,3) unfolding registry_ok_def by blast
    then have "bound T N parse c (reg_name i kind)" using i(1) unfolding bound_def by simp
    then show ?thesis by (rule prefetch_step [OF ok co _ run'])
  qed
qed

lemma prefetch_covered:
  assumes ok: "group_ok N gs" and co: "coherent T N gs" and i: "parse (reg_name i kind) = Inr i"
    and act: "\<And>g. g \<in> set gs \<Longrightarrow> act g = (if 0 \<le> i \<and> i < N then prefetch_registered_layer parse i kind g else Done g)"
    and run: "lockstep 3 (map act gs) = Some (Inr hs)"
  shows "coherent T N hs \<and> same_store T N gs hs"
proof (cases "0 \<le> i \<and> i < N")
  case True
  have "map act gs = map (prefetch_registered_layer parse i kind) gs" using act True by simp
  then have "lockstep 3 (map (prefetch_registered_layer parse i kind) gs) = Some (Inr hs)" using run by (simp only:)
  then show ?thesis using registered_call [of N gs T parse i kind hs] ok co i True by blast
next
  case False
  have "gs \<noteq> []" using ok by (simp add: group_ok_def)
  then have "hs = gs" using lockstep_done [of gs act "\<lambda>g. g"] act False run by simp
  then show ?thesis using co by (simp add: same_store_def)
qed

text \<open>One valid call: the group stays coherent and follows the store.\<close>

lemma valid_call_step:
  assumes ok: "group_ok N gs" and co: "coherent T N gs" and v: "valid_call T N parse gs call"
    and run: "group_run parse call gs = Some (Inr hs)"
  shows "coherent T N hs \<and> (\<forall>key L. 0 \<le> L \<and> L < N \<longrightarrow> durable T N hs key L = spec_call parse call (durable T N gs) key L)
    \<and> (\<forall>c n L. reads_layer call c n \<and> live parse c n N L (rk_ctl (hd gs)) \<longrightarrow> reads T N c (family_key c n) L hs)"
proof -
  have t: "all_true T N gs (rk_ctl (hd gs))" "registry_ok T N (rk_ctl (hd gs))" using co by (simp_all add: coherent_def)
  note sa = set_active_coherent [OF t]
  show ?thesis
proof (cases call)
  case (Set_active tables)
  let ?h = "set_active_dsa_broadcast_block_ids_from_tables tables"
  have "?h ct = set_active_dsa_broadcast_block_ids (if \<not> sparse_broadcast_enabled ct \<or> tables = [] then None else Some (concat tables)) ct" for ct
    by (simp add: set_active_dsa_broadcast_block_ids_from_tables_def)
  then have "all_true T N gs (?h (rk_ctl (hd gs)))" "range_ok (?h (rk_ctl (hd gs)))" "registry_ok T N (?h (rk_ctl (hd gs)))"
    using sa by (simp_all only:)
  from local_call [where h = ?h and act = "run_group_call parse call" and hs = hs, OF ok co _ _ this] show ?thesis
    using run Set_active by (simp add: group_run_def run_group_call_def spec_call_def reads_layer_def)
next
  case Clear_active
  let ?h = clear_active_dsa_broadcast_block_ids
  have "all_true T N gs (?h (rk_ctl (hd gs)))" "range_ok (?h (rk_ctl (hd gs)))" "registry_ok T N (?h (rk_ctl (hd gs)))"
    unfolding clear_active_dsa_broadcast_block_ids_def by (rule sa)+
  from local_call [where h = ?h and act = "run_group_call parse call" and hs = hs, OF ok co _ _ this] show ?thesis
    using run Clear_active by (simp add: group_run_def run_group_call_def spec_call_def reads_layer_def)
next
  case (Register caches)
  let ?h = "fold (\<lambda>(n, c). register_layer_cache parse c n) caches"
  have f: "ct_active (?h ct) = ct_active ct \<and> ct_range (?h ct) = ct_range ct" for ct
    by (induction caches arbitrary: ct) auto
  have b: "bound T N parse c n" if "(n, c) \<in> set caches" for n c using v that by (auto simp: valid_call_def Register)
  have "all_true T N gs (?h (rk_ctl (hd gs)))" "range_ok (?h (rk_ctl (hd gs)))" "registry_ok T N (?h (rk_ctl (hd gs)))"
    using t registry_ok_fold [OF b t(2)] range_ok_cong [of "?h (rk_ctl (hd gs))" "rk_ctl (hd gs)"] f co
    by (simp_all add: coherent_def)
  from local_call [where h = ?h and act = "run_group_call parse call" and hs = hs, OF ok co _ _ this] show ?thesis
    using run Register group_mem(5) [OF ok] by (simp add: group_run_def run_group_call_def register_dsa_cache_tensors_def spec_call_def reads_layer_def)
next
  case (Broadcast c n)
  have "map (run_group_call parse call) gs = map (broadcast_dsa_cache_from_owner parse c n) gs" by (simp add: run_group_call_def Broadcast)
  then show ?thesis using broadcast_step [OF ok co, of parse c n hs] v run
    by (simp only: group_run_def) (auto simp: valid_call_def Broadcast spec_call_def reads_layer_def same_store_def)
next
  case (Prefetch c n)
  have "map (run_group_call parse call) gs = map (prefetch_dsa_cache_from_owner parse c n) gs" by (simp add: run_group_call_def Prefetch)
  then show ?thesis using prefetch_step [OF ok co, of parse c n hs] v run
    by (simp only: group_run_def) (auto simp: valid_call_def Prefetch spec_call_def reads_layer_def same_store_def)
next
  case (Prefetch_same i)
  have "run_group_call parse call g = (if 0 \<le> i \<and> i < N then prefetch_registered_layer parse i Mla g else Done g)" if "g \<in> set gs" for g
    using group_mem(1) [OF ok that] by (simp add: run_group_call_def Prefetch_same maybe_prefetch_same_layer_mla_cache_def check_act_def)
  from prefetch_covered [OF ok co _ this, of hs] show ?thesis
    using v run by (simp add: valid_call_def Prefetch_same group_run_def spec_call_def reads_layer_def same_store_def)
next
  case (Prefetch_next i kind)
  have "run_group_call parse call g
      = (if 0 \<le> i + 1 \<and> i + 1 < N then prefetch_registered_layer parse (i + 1) kind g else Done g)" if "g \<in> set gs" for g
    using group_mem(1) [OF ok that] by (simp add: run_group_call_def Prefetch_next maybe_prefetch_next_dsa_cache_def check_act_def)
  from prefetch_covered [OF ok co _ this, of hs] show ?thesis
    using v run by (simp add: valid_call_def Prefetch_next group_run_def spec_call_def reads_layer_def same_store_def)
next
  case (Mla_update c n ups)
  then obtain L where b: "bound T N parse c n" and l: "live parse c n N L (rk_ctl (hd gs))" "write_safe c n L ups (rk_ctl (hd gs))"
    using v by (auto simp: valid_call_def)
  have "map (run_group_call parse call) gs = map (mla_cache_update parse c n ups) gs" by (simp add: run_group_call_def Mla_update)
  then have "lockstep 3 (map (mla_cache_update parse c n ups) gs) = Some (Inr hs)" using run by (simp only: group_run_def)
  from mla_step [OF ok co b l this] show ?thesis
    using l(1) by (auto simp: Mla_update spec_call_def written_def reads_layer_def live_def)
next
  case (Indexer_update c n ups)
  then obtain L where b: "bound T N parse c n" and l: "live parse c n N L (rk_ctl (hd gs))"
    using v by (auto simp: valid_call_def)
  have "map (run_group_call parse call) gs = map (indexer_cache_update parse c n ups) gs" by (simp add: run_group_call_def Indexer_update)
  then have "lockstep 3 (map (indexer_cache_update parse c n ups) gs) = Some (Inr hs)" using run by (simp only: group_run_def)
  from indexer_step [OF ok co b l this] show ?thesis
    using l by (auto simp: Indexer_update spec_call_def written_def reads_layer_def live_def)
qed
qed

inductive valid_trace ::
    "tensors \<Rightarrow> int \<Rightarrow> (string \<Rightarrow> int result) \<Rightarrow> rank list \<Rightarrow> group_call list \<Rightarrow> rank list \<Rightarrow> bool" for T N parse gs where
  valid_start: "valid_trace T N parse gs [] gs"
| valid_step: "valid_trace T N parse gs calls hs \<Longrightarrow> valid_call T N parse hs call \<Longrightarrow>
    group_run parse call hs = Some (Inr ks) \<Longrightarrow> valid_trace T N parse gs (calls @ [call]) ks"

text \<open>A group just after \<open>install_runtime_layer_split_state\<close>: no family, no registered layer.\<close>

definition fresh_group :: "tensors \<Rightarrow> int \<Rightarrow> rank list \<Rightarrow> bool" where
  "fresh_group T N gs \<longleftrightarrow> group_ok N gs \<and> slots_apart T N gs
     \<and> ct_families (rk_ctl (hd gs)) = [] \<and> ct_registry (rk_ctl (hd gs)) = [] \<and> ct_active (rk_ctl (hd gs)) = None"

lemma fresh_coherent: "fresh_group T N gs \<Longrightarrow> coherent T N gs"
  by (simp add: fresh_group_def coherent_def all_true_def family_of_def fresh_family_def family_true_def
      remote_true_def pending_true_def range_ok_def registry_ok_def)

lemma spec_call_local:
  "s key L = t key L \<Longrightarrow> spec_call parse call s key L = spec_call parse call t key L"
  by (auto simp: spec_call_def written_def store_write_def split: group_call.splits sum.splits)

lemma group_run_ok: "group_ok N hs \<Longrightarrow> group_run parse call hs = Some (Inr ks) \<Longrightarrow> group_ok N ks"
  using uniform_lockstep [OF _ group_call_uniform, of N hs N 1 parse call] by (auto simp: group_run_def numeral_3_eq_3)

lemma valid_trace_store:
  assumes "valid_trace T N parse gs calls hs" and "fresh_group T N gs"
  shows "group_ok N hs \<and> coherent T N hs
    \<and> (\<forall>key L. 0 \<le> L \<and> L < N \<longrightarrow> durable T N hs key L = fold (spec_call parse) calls (durable T N gs) key L)"
  using assms
proof (induction rule: valid_trace.induct)
  case valid_start
  then show ?case using fresh_coherent by (simp add: fresh_group_def)
next
  case (valid_step calls hs call ks)
  have ih: "group_ok N hs" "coherent T N hs"
      "\<And>key L. 0 \<le> L \<Longrightarrow> L < N \<Longrightarrow> durable T N hs key L = fold (spec_call parse) calls (durable T N gs) key L"
    using valid_step.IH valid_step.prems by blast+
  note step = valid_call_step [OF ih(1,2) valid_step.hyps(2,3)]
  have "durable T N ks key L = fold (spec_call parse) (calls @ [call]) (durable T N gs) key L" if L: "0 \<le> L" "L < N" for key L
  proof -
    have "durable T N ks key L = spec_call parse call (durable T N hs) key L" using step L by blast
    also have "\<dots> = spec_call parse call (fold (spec_call parse) calls (durable T N gs)) key L"
      by (rule spec_call_local) (rule ih(3) [OF L])
    finally show ?thesis by simp
  qed
  then show ?case using step group_run_ok [OF ih(1) valid_step.hyps(3)] by blast
qed

section \<open>Properties\<close>

text \<open>
  C35.  The group refines one store of layers: from a freshly installed group, after any sequence
  of valid calls, the rows of every backbone layer on its owner are exactly those of a store in
  which only writes of that layer happened.  No broadcast or prefetch of another layer, and no
  slot shared by foreign layers, ever damages an owner's rows.
\<close>

theorem group_refines_store:
  assumes "fresh_group T N gs" and "valid_trace T N parse gs calls hs" and "0 \<le> L" and "L < N"
  shows "durable T N hs key L = fold (spec_call parse) calls (durable T N gs) key L"
  using valid_trace_store [OF assms(2,1)] assms(3,4) by blast

text \<open>
  C34.  Reads see the store: when a valid call reads a layer after any sequence of valid calls,
  every rank, owner or not, finds in its own memory the store's contents of every active row.
\<close>

theorem reads_see_store:
  assumes "fresh_group T N gs" and "valid_trace T N parse gs calls hs" and "valid_call T N parse hs call"
    and "group_run parse call hs = Some (Inr ks)" and "reads_layer call c n" and "live parse c n N L (rk_ctl (hd hs))"
    and "g \<in> set ks" and "x \<in> wanted_rows c (rk_ctl (hd ks))"
  shows "row_at g c x = fold (spec_call parse) (calls @ [call]) (durable T N gs) (family_key c n) L x"
proof -
  have L: "0 \<le> L" "L < N" using assms(6) by (simp_all add: live_def)
  have hs: "group_ok N hs" "coherent T N hs" using valid_trace_store [OF assms(2,1)] by blast+
  have "reads T N c (family_key c n) L ks" using valid_call_step [OF hs assms(3,4)] assms(5,6) by blast
  then have "row_at g c x = durable T N ks (family_key c n) L x" using assms(7,8) unfolding reads_def by blast
  moreover have "valid_trace T N parse gs (calls @ [call]) ks" using valid_step assms(2,3,4) by blast
  ultimately show ?thesis using valid_trace_store [of T N parse gs "calls @ [call]" ks] assms(1) L by metis
qed

section \<open>Witnesses\<close>

text \<open>Every tensor in a slot of its own.\<close>

definition sample_tensors :: tensors where
  "sample_tensors key L =
     \<lparr>ca_id = to_nat (fst key = Indexer, fst (snd key), snd (snd key), L), ca_shape = [4, 2], ca_dtype = ''bf16''\<rparr>"

lemma sample_tensors_inj:
  "ca_id (sample_tensors key L) = ca_id (sample_tensors key' L') \<Longrightarrow> key = key' \<and> L = L'"
  by (cases "fst key"; cases "fst key'"; cases key; cases key') (auto simp: sample_tensors_def)

lemma sample_fresh: "fresh_group sample_tensors 2 [sample_rank 0, sample_rank 1]"
proof -
  have "slots_apart sample_tensors 2 [sample_rank 0, sample_rank 1]"
    unfolding slots_apart_def using sample_tensors_inj by (auto simp: sample_rank_def)
  then show ?thesis using sample_group_ok by (simp add: fresh_group_def) (simp add: sample_rank_def)
qed

abbreviation sample_layer :: cache where
  "sample_layer \<equiv> sample_tensors (Mla, ''bf16'', [4, 2]) 0"

lemma sample_key: "family_key sample_layer sample_name = (Mla, ''bf16'', [4, 2])"
proof -
  have "family_kind sample_name = Mla" by code_simp
  then show ?thesis by (simp add: family_key_def family_shape_def sample_tensors_def)
qed

lemma sample_valid:
  "live (\<lambda>_. Inr 0) sample_layer sample_name 2 0 (rk_ctl (sample_rank 0))"
  "valid_call sample_tensors 2 (\<lambda>_. Inr 0) [sample_rank 0, sample_rank 1] (Mla_update sample_layer sample_name [(1, \<lambda>_. 5)])"
proof -
  show l: "live (\<lambda>_. Inr 0) sample_layer sample_name 2 0 (rk_ctl (sample_rank 0))"
    by (simp add: live_def sample_rank_def numel_def sample_tensors_def)
  have "remote_layer_id (family_of (family_key sample_layer sample_name) (snd (probe sample_layer sample_name 0 (rk_ctl (sample_rank 0))))) = None"
    by (simp add: probe_def Let_def family_of_def sample_rank_def fresh_family_def prepare_remote_selection_def
        active_block_ids_for_def sparse_broadcast_enabled_def) (simp add: set_family_def)
  then show "valid_call sample_tensors 2 (\<lambda>_. Inr 0) [sample_rank 0, sample_rank 1] (Mla_update sample_layer sample_name [(1, \<lambda>_. 5)])"
    using l by (auto simp: valid_call_def bound_def sample_key write_safe_def)
qed

lemma mla_completes:
  assumes ok: "group_ok N gs" and l: "live parse c n N L (rk_ctl (hd gs))"
  shows "\<exists>hs. group_run parse (Mla_update c n ups) gs = Some (Inr hs)"
proof -
  let ?p = "probe c n L (rk_ctl (hd gs))"
  let ?F = "\<lambda>g. if fst ?p then shared_write c ups (snd ?p) g else owner_write c (owner_rank N gs L) ups (snd ?p) g"
  have "map (run_group_call parse (Mla_update c n ups)) gs = map (broadcast_dsa_cache_from_owner parse c n) (map ?F gs)"
    using mla_update_run [OF ok l] by (simp add: run_group_call_def)
  moreover have "group_ok N (map ?F gs)" by (rule group_ok_map [OF ok]) simp
  moreover have "live parse c n N L (rk_ctl (hd (map ?F gs)))"
  proof -
    have "gs \<noteq> []" using ok by (simp add: group_ok_def)
    moreover have "ct_mtp (snd ?p) = ct_mtp (rk_ctl (hd gs))" by (auto simp: probe_def Let_def split: prod.splits)
    ultimately show ?thesis using l by (simp add: live_def hd_map)
  qed
  ultimately show ?thesis using broadcast_run [of N "map ?F gs" parse c n L] by (simp only: group_run_def) blast
qed

theorem group_refines_store_witness:
  "\<exists>hs. group_run (\<lambda>_. Inr 0) (Mla_update sample_layer sample_name [(1, \<lambda>_. 5)]) [sample_rank 0, sample_rank 1] = Some (Inr hs)
    \<and> durable sample_tensors 2 hs (Mla, ''bf16'', [4, 2]) 0 1 = 5"
proof -
  let ?gs = "[sample_rank 0, sample_rank 1]" and ?call = "Mla_update sample_layer sample_name [(1, \<lambda>_. 5)]"
  obtain hs where hs: "group_run (\<lambda>_. Inr 0) ?call ?gs = Some (Inr hs)"
    using mla_completes [OF sample_group_ok] sample_valid(1) by fastforce
  then have "valid_trace sample_tensors 2 (\<lambda>_. Inr 0) ?gs ([] @ [?call]) hs"
    by (rule valid_step [OF valid_start sample_valid(2)])
  from group_refines_store [OF sample_fresh this, of 0 "(Mla, ''bf16'', [4, 2])"]
  have "durable sample_tensors 2 hs (Mla, ''bf16'', [4, 2]) 0 1 = 5"
    by (simp add: spec_call_def written_def store_write_def sample_key modify_row_def)
  then show ?thesis using hs by blast
qed

theorem reads_see_store_witness:
  "\<exists>ks. group_run (\<lambda>_. Inr 0) (Mla_update sample_layer sample_name [(1, \<lambda>_. 5)]) [sample_rank 0, sample_rank 1] = Some (Inr ks)
    \<and> (\<forall>g x. g \<in> set ks \<and> x \<in> wanted_rows sample_layer (rk_ctl (hd ks)) \<longrightarrow>
         row_at g sample_layer x = (if x = 1 then 5 else 0))"
proof -
  let ?gs = "[sample_rank 0, sample_rank 1]" and ?call = "Mla_update sample_layer sample_name [(1, \<lambda>_. 5)]"
  obtain ks where ks: "group_run (\<lambda>_. Inr 0) ?call ?gs = Some (Inr ks)"
    using mla_completes [OF sample_group_ok] sample_valid(1) by fastforce
  have zero: "durable sample_tensors 2 ?gs key L x = 0" if "0 \<le> L" "L < 2" for key L x
  proof -
    have "?gs ! nat (owner_rank 2 ?gs L) \<in> set ?gs" using owner_rank_bounds [of ?gs L 2] that by (intro nth_mem) auto
    then show ?thesis by (auto simp: durable_def row_at_def sample_rank_def)
  qed
  have "row_at g sample_layer x = (if x = 1 then 5 else 0)" if "g \<in> set ks" "x \<in> wanted_rows sample_layer (rk_ctl (hd ks))" for g x
  proof -
    have "row_at g sample_layer x = fold (spec_call (\<lambda>_. Inr 0)) ([] @ [?call]) (durable sample_tensors 2 ?gs)
        (family_key sample_layer sample_name) 0 x"
      using sample_valid(1) that
      by (intro reads_see_store [OF sample_fresh valid_start sample_valid(2) ks]) (simp_all add: reads_layer_def)
    then show ?thesis by (simp add: spec_call_def written_def store_write_def modify_row_def zero)
  qed
  then show ?thesis using ks by blast
qed

end
