(* ===== verification/Feature_Config.thy ===== *)
theory Feature_Config
  imports Py_Runtime
begin

text \<open>
  The feature configuration stored beside vLLM's own, \<open>src/vllm_hcu/patch/config.py\<close>.

  Configurations come as dictionaries, as objects with attributes, or as instances of the feature
  class; a Python value is a \<open>pyval\<close>.  \<open>VMap\<close> is a mapping with text keys and says whether it is mutable,
  \<open>VObj\<close> an object with its class name, \<open>repr\<close> and attributes (which can be set), \<open>VConf\<close> an instance of
  \<open>HcuFeatureConfig\<close>, \<open>VOther\<close> any other value with its class name and \<open>repr\<close>.  Instances exist only after
  \<open>__post_init__\<close> has accepted them, so that their fields have the declared types.

  The state of an operation is the module's record of the deprecation warning.
\<close>

section \<open>Values\<close>

record hcu_feature_config =
  enable_lightly_cp :: bool
  enable_lightly_cplb :: bool
  enable_custom_sp :: bool
  enable_multi_layers_mtp :: bool
  enable_dsa_cache_layer_split :: bool
  deepep_auto :: bool
  fused_qwen3_rms_rope :: bool
  qwen4_exp_hc_sp :: bool
  k3_sp_moe :: bool
  glm53_kda_cp_head_shard :: "bool option"
  glm53_pcp_mtp_sync :: "bool option"
  dp_int8_allgather :: bool
  moe_backend :: string
  hcu_flash_attn_mode :: "string option"
  hcu_gdn_prefill_backend :: "string option"
  expert_map_path :: "string option"
  expert_map_record_path :: "string option"
  eplb_disable_rearrange :: bool
  eplb_static_dispatch_policy :: string

datatype pyval =
    VNone
  | VBool bool
  | VInt int
  | VStr string
  | VMap bool "(string \<times> pyval) list"
  | VObj string string "(string \<times> pyval) list"
  | VConf hcu_feature_config
  | VOther string string

type_synonym attrs = "(string, pyval) dict"

fun type_name :: "pyval \<Rightarrow> string" where
  "type_name VNone = ''NoneType''"
| "type_name (VBool b) = ''bool''"
| "type_name (VInt i) = ''int''"
| "type_name (VStr s) = ''str''"
| "type_name (VMap mutable d) = (if mutable then ''dict'' else ''mappingproxy'')"
| "type_name (VObj cls r d) = cls"
| "type_name (VConf c) = ''HcuFeatureConfig''"
| "type_name (VOther cls r) = cls"

definition val_of_bool_option :: "bool option \<Rightarrow> pyval" where
  "val_of_bool_option x = (case x of None \<Rightarrow> VNone | Some b \<Rightarrow> VBool b)"

definition val_of_str_option :: "string option \<Rightarrow> pyval" where
  "val_of_str_option x = (case x of None \<Rightarrow> VNone | Some s \<Rightarrow> VStr s)"

definition feature_fields :: "string list" where
  "feature_fields =
     [''enable_lightly_cp'', ''enable_lightly_cplb'', ''enable_custom_sp'', ''enable_multi_layers_mtp'',
      ''enable_dsa_cache_layer_split'', ''deepep_auto'', ''fused_qwen3_rms_rope'', ''qwen4_exp_hc_sp'', ''k3_sp_moe'',
      ''glm53_kda_cp_head_shard'', ''glm53_pcp_mtp_sync'', ''dp_int8_allgather'', ''moe_backend'',
      ''hcu_flash_attn_mode'', ''hcu_gdn_prefill_backend'', ''expert_map_path'', ''expert_map_record_path'',
      ''eplb_disable_rearrange'', ''eplb_static_dispatch_policy'']"

definition to_dict :: "hcu_feature_config \<Rightarrow> attrs" where
  "to_dict c = zip feature_fields
     [VBool (enable_lightly_cp c), VBool (enable_lightly_cplb c), VBool (enable_custom_sp c), VBool (enable_multi_layers_mtp c),
      VBool (enable_dsa_cache_layer_split c), VBool (deepep_auto c), VBool (fused_qwen3_rms_rope c), VBool (qwen4_exp_hc_sp c),
      VBool (k3_sp_moe c), val_of_bool_option (glm53_kda_cp_head_shard c), val_of_bool_option (glm53_pcp_mtp_sync c),
      VBool (dp_int8_allgather c), VStr (moe_backend c), val_of_str_option (hcu_flash_attn_mode c),
      val_of_str_option (hcu_gdn_prefill_backend c), val_of_str_option (expert_map_path c),
      val_of_str_option (expert_map_record_path c), VBool (eplb_disable_rearrange c), VStr (eplb_static_dispatch_policy c)]"

text \<open>\<open>repr\<close> of the values that can occur in a message.\<close>

definition repr_scalar :: "pyval \<Rightarrow> string" where
  "repr_scalar v =
     (case v of VNone \<Rightarrow> ''None'' | VBool b \<Rightarrow> (if b then ''True'' else ''False'') | VInt i \<Rightarrow> str_int i | VStr s \<Rightarrow> py_repr s
      | VObj cls r d \<Rightarrow> r | VOther cls r \<Rightarrow> r | _ \<Rightarrow> [])"

fun repr_val :: "pyval \<Rightarrow> string" where
  "repr_val (VMap mutable d) =
     (let body = ''{'' @ py_join '', '' (map (\<lambda>(k, v). py_repr k @ '': '' @ repr_val v) d) @ ''}''
      in if mutable then body else ''mappingproxy('' @ body @ '')'')"
| "repr_val (VConf c) =
     ''HcuFeatureConfig('' @ py_join '', '' (map (\<lambda>(k, v). k @ ''='' @ repr_scalar v) (to_dict c)) @ '')''"
| "repr_val v = repr_scalar v"

section \<open>The deprecated backend name\<close>

record warn_state =
  legacy_backend_warning_emitted :: bool
  warnings_issued :: "string list"

definition legacy_deep_gemm_backend :: string where
  "legacy_deep_gemm_backend = ''dpsk_deep_gemm''"

definition legacy_warning :: string where
  "legacy_warning = ''moe_backend='' @ py_repr ''dpsk_deep_gemm'' @ '' is deprecated; use moe_backend='' @ py_repr ''deep_gemm'' @ '' instead''"

definition normalize_hcu_moe_backend :: "string \<Rightarrow> (warn_state, string) op" where
  "normalize_hcu_moe_backend v =
     (if v \<noteq> legacy_deep_gemm_backend then ret v
      else seq_op (modify (\<lambda>w. if legacy_backend_warning_emitted w then w
                               else w\<lparr>legacy_backend_warning_emitted := True,
                                      warnings_issued := warnings_issued w @ [legacy_warning]\<rparr>))
             (ret ''deep_gemm''))"

section \<open>Construction\<close>

definition err_field :: "string \<Rightarrow> string \<Rightarrow> pyval \<Rightarrow> exn" where
  "err_field name kind v = Exn TypeError (''HCU config field '' @ py_repr name @ '' must be '' @ kind @ '', got '' @ type_name v)"

definition field_or :: "attrs \<Rightarrow> string \<Rightarrow> pyval \<Rightarrow> pyval" where
  "field_or args name dflt = (case dict_get args name of None \<Rightarrow> dflt | Some v \<Rightarrow> v)"

definition bool_or_none_field :: "attrs \<Rightarrow> string \<Rightarrow> bool option result" where
  "bool_or_none_field args name =
     (case field_or args name VNone of
        VNone \<Rightarrow> Inr None
      | VBool b \<Rightarrow> Inr (Some b)
      | _ \<Rightarrow> raise TypeError (''HCU config field '' @ py_repr name @ '' must be bool or None''))"

definition bool_field :: "attrs \<Rightarrow> string \<Rightarrow> bool \<Rightarrow> bool result" where
  "bool_field args name dflt =
     (case field_or args name (VBool dflt) of VBool b \<Rightarrow> Inr b | v \<Rightarrow> Inl (err_field name ''bool'' v))"

definition str_field :: "attrs \<Rightarrow> string \<Rightarrow> string \<Rightarrow> string result" where
  "str_field args name dflt =
     (case field_or args name (VStr dflt) of VStr s \<Rightarrow> Inr s | v \<Rightarrow> Inl (err_field name ''str'' v))"

definition err_unsupported :: "string \<Rightarrow> pyval \<Rightarrow> string list \<Rightarrow> exn" where
  "err_unsupported name v supported = Exn ValueError
     (''unsupported HCU '' @ name @ '' '' @ repr_val v @ ''; expected one of '' @ py_join '', '' supported)"

definition supported_moe_backends :: "string list" where
  "supported_moe_backends = [''auto'', ''deep_gemm'']"

definition supported_flash_attn_modes :: "string list" where
  "supported_flash_attn_modes = [''classic'', ''cutlass'', ''varlen'']"

definition hcu_gdn_prefill_backends :: "string list" where
  "hcu_gdn_prefill_backends = [''hcu-boltops'', ''hcu-aiter'']"

definition supported_eplb_static_dispatch_policies :: "string list" where
  "supported_eplb_static_dispatch_policies = [''locality_fair'', ''nearest'', ''token_hash'']"

definition flash_field :: "attrs \<Rightarrow> string option result" where
  "flash_field args =
     (case field_or args ''hcu_flash_attn_mode'' VNone of
        VNone \<Rightarrow> Inr None
      | VStr s \<Rightarrow> if s \<in> set supported_flash_attn_modes then Inr (Some s)
                  else Inl (err_unsupported ''hcu_flash_attn_mode'' (VStr s) supported_flash_attn_modes)
      | v \<Rightarrow> Inl (err_field ''hcu_flash_attn_mode'' ''str or None'' v))"

definition gdn_field :: "attrs \<Rightarrow> string option result" where
  "gdn_field args =
     (case field_or args ''hcu_gdn_prefill_backend'' VNone of
        VNone \<Rightarrow> Inr None
      | v \<Rightarrow> (case v of
                 VStr s \<Rightarrow> if s \<in> set hcu_gdn_prefill_backends then Inr (Some s)
                           else Inl (err_unsupported ''hcu_gdn_prefill_backend'' v hcu_gdn_prefill_backends)
               | _ \<Rightarrow> Inl (err_unsupported ''hcu_gdn_prefill_backend'' v hcu_gdn_prefill_backends)))"

definition path_field :: "attrs \<Rightarrow> string \<Rightarrow> string option result" where
  "path_field args name =
     (case field_or args name VNone of
        VNone \<Rightarrow> Inr None
      | VStr s \<Rightarrow> if py_strip s = [] then raise ValueError (''HCU config field '' @ py_repr name @ '' must not be empty'')
                  else Inr (Some s)
      | v \<Rightarrow> Inl (err_field name ''str or None'' v))"

text \<open>The constructor with its defaults and the checks of \<open>__post_init__\<close>, in their order.\<close>

definition make_config :: "attrs \<Rightarrow> (warn_state, hcu_feature_config) op" where
  "make_config args =
     bind_op (lift_result (bool_or_none_field args ''glm53_kda_cp_head_shard'')) (\<lambda>kda.
     bind_op (lift_result (bool_or_none_field args ''glm53_pcp_mtp_sync'')) (\<lambda>sync.
     bind_op (lift_result (bool_field args ''enable_lightly_cp'' False)) (\<lambda>cp.
     bind_op (lift_result (bool_field args ''enable_lightly_cplb'' False)) (\<lambda>cplb.
     bind_op (lift_result (bool_field args ''enable_custom_sp'' False)) (\<lambda>sp.
     bind_op (lift_result (bool_field args ''enable_multi_layers_mtp'' False)) (\<lambda>mtp.
     bind_op (lift_result (bool_field args ''enable_dsa_cache_layer_split'' False)) (\<lambda>dsa.
     bind_op (lift_result (bool_field args ''deepep_auto'' False)) (\<lambda>deepep.
     bind_op (lift_result (bool_field args ''fused_qwen3_rms_rope'' True)) (\<lambda>fused.
     bind_op (lift_result (bool_field args ''qwen4_exp_hc_sp'' True)) (\<lambda>hcsp.
     bind_op (lift_result (bool_field args ''k3_sp_moe'' False)) (\<lambda>k3.
     bind_op (lift_result (bool_field args ''dp_int8_allgather'' False)) (\<lambda>dp.
     bind_op (lift_result (str_field args ''moe_backend'' ''auto'')) (\<lambda>raw.
     bind_op (normalize_hcu_moe_backend raw) (\<lambda>backend.
     lift_result
       (if backend \<notin> set supported_moe_backends then Inl (err_unsupported ''moe_backend'' (VStr backend) supported_moe_backends)
        else and_then (flash_field args) (\<lambda>flash.
        and_then (gdn_field args) (\<lambda>gdn.
        if cplb \<and> \<not> cp then raise ValueError ''enable_lightly_cplb requires enable_lightly_cp''
        else and_then (path_field args ''expert_map_path'') (\<lambda>path.
        and_then (path_field args ''expert_map_record_path'') (\<lambda>record_path.
        if path \<noteq> None \<and> record_path \<noteq> None
        then raise ValueError ''expert_map_path and expert_map_record_path are mutually exclusive''
        else and_then (bool_field args ''eplb_disable_rearrange'' False) (\<lambda>rearrange.
        and_then (str_field args ''eplb_static_dispatch_policy'' ''nearest'') (\<lambda>policy.
        if policy \<notin> set supported_eplb_static_dispatch_policies
        then Inl (err_unsupported ''eplb_static_dispatch_policy'' (VStr policy) supported_eplb_static_dispatch_policies)
        else Inr \<lparr>enable_lightly_cp = cp, enable_lightly_cplb = cplb, enable_custom_sp = sp, enable_multi_layers_mtp = mtp,
               enable_dsa_cache_layer_split = dsa, deepep_auto = deepep, fused_qwen3_rms_rope = fused,
               qwen4_exp_hc_sp = hcsp, k3_sp_moe = k3, glm53_kda_cp_head_shard = kda, glm53_pcp_mtp_sync = sync,
               dp_int8_allgather = dp, moe_backend = backend, hcu_flash_attn_mode = flash,
               hcu_gdn_prefill_backend = gdn, expert_map_path = path, expert_map_record_path = record_path,
               eplb_disable_rearrange = rearrange, eplb_static_dispatch_policy = policy\<rparr>)))))))))))))))))))))"

definition err_unknown_fields :: "string list \<Rightarrow> exn" where
  "err_unknown_fields unknown = Exn ValueError (''unknown HCU config field(s): '' @ py_join '', '' unknown)"

text \<open>Names that are not feature fields, without repetition, in text order.\<close>

definition unknown_fields :: "attrs \<Rightarrow> string list" where
  "unknown_fields d =
     sort_key (map (of_char :: char \<Rightarrow> nat)) (remdups (filter (\<lambda>k. k \<notin> set feature_fields) (dict_keys d)))"

definition from_mapping :: "pyval \<Rightarrow> (warn_state, hcu_feature_config) op" where
  "from_mapping v =
     (case v of
        VNone \<Rightarrow> make_config []
      | VMap mutable d \<Rightarrow> if unknown_fields d \<noteq> [] then throw (err_unknown_fields (unknown_fields d)) else make_config d
      | _ \<Rightarrow> throw (Exn TypeError (''additional_config['' @ py_repr ''hcu'' @ ''] must be a mapping or HcuFeatureConfig, got ''
                      @ type_name v)))"

definition with_updates :: "hcu_feature_config \<Rightarrow> attrs \<Rightarrow> (warn_state, hcu_feature_config) op" where
  "with_updates c updates =
     (if unknown_fields updates \<noteq> [] then throw (err_unknown_fields (unknown_fields updates))
      else make_config (fold (\<lambda>(k, v) d. dict_set k v d) updates (to_dict c)))"

section \<open>Reading\<close>

definition attrs_of :: "pyval \<Rightarrow> attrs" where
  "attrs_of v = (case v of VObj cls r d \<Rightarrow> d | _ \<Rightarrow> [])"

definition config_from_payload :: "pyval \<Rightarrow> (warn_state, hcu_feature_config) op" where
  "config_from_payload payload =
     (case payload of
        VNone \<Rightarrow> make_config []
      | VConf c \<Rightarrow> ret c
      | VMap mutable d \<Rightarrow> from_mapping payload
      | _ \<Rightarrow>
          (let present = concat (map (\<lambda>name. case dict_get (attrs_of payload) name of None \<Rightarrow> [] | Some v \<Rightarrow> [(name, v)])
                           feature_fields)
           in if present = []
              then throw (Exn TypeError (''HCU config payload must be a mapping, HcuFeatureConfig, or object ''
                            @ ''with HCU feature attributes''))
              else from_mapping (VMap True present)))"

definition hcu_of_additional :: "pyval \<Rightarrow> pyval result" where
  "hcu_of_additional additional =
     (case additional of
        VNone \<Rightarrow> Inr VNone
      | VMap mutable d \<Rightarrow> Inr (field_or d ''hcu'' VNone)
      | _ \<Rightarrow> raise TypeError (''vllm_config.additional_config must be a mapping or None, got '' @ type_name additional))"

definition read_additional_config :: "pyval \<Rightarrow> pyval result" where
  "read_additional_config container =
     (case container of
        VNone \<Rightarrow> Inr container
      | VConf c \<Rightarrow> Inr container
      | VMap mutable d \<Rightarrow>
          if set (dict_keys d) \<subseteq> set feature_fields \<and> ''hcu'' \<notin> set (dict_keys d) then Inr container
          else if ''hcu'' \<in> set (dict_keys d) \<and> ''additional_config'' \<notin> set (dict_keys d) then Inr (field_or d ''hcu'' VNone)
          else hcu_of_additional (field_or d ''additional_config'' VNone)
      | _ \<Rightarrow>
          (case dict_get (attrs_of container) ''additional_config'' of
             Some additional \<Rightarrow> hcu_of_additional additional
           | None \<Rightarrow> Inr container))"

definition get_hcu_config :: "pyval \<Rightarrow> (warn_state, hcu_feature_config) op" where
  "get_hcu_config vc = bind_op (lift_result (read_additional_config vc)) config_from_payload"

section \<open>Writing\<close>

definition normalized_config :: "pyval \<Rightarrow> (warn_state, hcu_feature_config) op" where
  "normalized_config v = (case v of VConf c \<Rightarrow> ret c | _ \<Rightarrow> from_mapping v)"

text \<open>The mapping after the write, with the stored configuration.\<close>

definition write_hcu_config :: "pyval \<Rightarrow> pyval \<Rightarrow> (warn_state, hcu_feature_config \<times> pyval) op" where
  "write_hcu_config additional config =
     (case additional of
        VMap True d \<Rightarrow>
          bind_op (normalized_config config) (\<lambda>c. ret (c, VMap True (dict_set ''hcu'' (VMap True (to_dict c)) d)))
      | _ \<Rightarrow> throw (Exn TypeError ''additional_config must be a mutable mapping''))"

text \<open>The mutable additional mapping of a configuration: a new one for \<open>None\<close>, a copy of a read-only one.\<close>

definition own_additional :: "pyval \<Rightarrow> string \<Rightarrow> attrs result" where
  "own_additional additional place =
     (case additional of
        VNone \<Rightarrow> Inr []
      | VMap mutable d \<Rightarrow> Inr d
      | _ \<Rightarrow> raise TypeError (place @ '' must be a mapping or None''))"

definition store_hcu :: "hcu_feature_config \<Rightarrow> attrs \<Rightarrow> attrs \<Rightarrow> attrs" where
  "store_hcu c additional d =
     dict_set ''additional_config'' (VMap True (dict_set ''hcu'' (VMap True (to_dict c)) additional)) d"

definition place_hcu :: "pyval \<Rightarrow> hcu_feature_config \<Rightarrow> pyval result" where
  "place_hcu vc c =
     (case vc of
        VMap True d \<Rightarrow>
          if ''hcu'' \<in> set (dict_keys d) \<and> ''additional_config'' \<notin> set (dict_keys d)
          then Inr (VMap True (dict_set ''hcu'' (VMap True (to_dict c)) d))
          else and_then (own_additional (field_or d ''additional_config'' VNone)
                           (''vllm_config['' @ py_repr ''additional_config'' @ '']'')) (\<lambda>additional.
                 Inr (VMap True (store_hcu c additional d)))
      | _ \<Rightarrow>
          (case dict_get (attrs_of vc) ''additional_config'' of
             None \<Rightarrow> raise TypeError ''vllm_config must be a mutable mapping or expose additional_config''
           | Some v \<Rightarrow>
               and_then (own_additional v ''vllm_config.additional_config'') (\<lambda>additional.
                 case vc of VObj cls r d \<Rightarrow> Inr (VObj cls r (store_hcu c additional d)) | _ \<Rightarrow> Inr vc)))"

definition set_hcu_config :: "pyval \<Rightarrow> pyval \<Rightarrow> attrs \<Rightarrow> (warn_state, hcu_feature_config \<times> pyval) op" where
  "set_hcu_config vc config updates =
     bind_op (if config = VNone then get_hcu_config vc else normalized_config config) (\<lambda>base.
     bind_op (if updates = [] then ret base else with_updates base updates) (\<lambda>c.
     bind_op (lift_result (place_hcu vc c)) (\<lambda>vc'. ret (c, vc'))))"

section \<open>Runtime attributes\<close>

definition eplb_sidecar_values :: "hcu_feature_config \<Rightarrow> attrs" where
  "eplb_sidecar_values c =
     [(''_vllm_hcu_expert_map_path'', val_of_str_option (expert_map_path c)),
      (''_vllm_hcu_expert_map_record_path'', val_of_str_option (expert_map_record_path c)),
      (''_vllm_hcu_eplb_disable_rearrange'', VBool (eplb_disable_rearrange c)),
      (''_vllm_hcu_eplb_static_dispatch_policy'', VStr (eplb_static_dispatch_policy c))]"

definition put_values :: "attrs \<Rightarrow> attrs \<Rightarrow> attrs" where
  "put_values values d = fold (\<lambda>(k, v) acc. dict_set k v acc) values d"

definition set_on_parallel :: "pyval \<Rightarrow> attrs \<Rightarrow> pyval result" where
  "set_on_parallel p values =
     (case p of
        VMap True d \<Rightarrow> Inr (VMap True (put_values values d))
      | VObj cls r d \<Rightarrow> Inr (VObj cls r (put_values values d))
      | VConf c \<Rightarrow> raise (OtherError ''FrozenInstanceError'') (''cannot assign to field '' @ py_repr ''_vllm_hcu_expert_map_path'')
      | _ \<Rightarrow> raise AttributeError (py_repr (type_name p) @ '' object has no attribute '' @ py_repr ''_vllm_hcu_expert_map_path''))"

definition parallel_of :: "pyval \<Rightarrow> pyval" where
  "parallel_of vc = (case vc of VMap mutable d \<Rightarrow> field_or d ''parallel_config'' VNone | _ \<Rightarrow> field_or (attrs_of vc) ''parallel_config'' VNone)"

definition replace_parallel :: "pyval \<Rightarrow> pyval \<Rightarrow> pyval" where
  "replace_parallel vc p =
     (case vc of
        VMap mutable d \<Rightarrow> VMap mutable (dict_set ''parallel_config'' p d)
      | VObj cls r d \<Rightarrow> VObj cls r (dict_set ''parallel_config'' p d)
      | _ \<Rightarrow> vc)"

text \<open>The configuration after its parallel part was given the attributes.\<close>

definition bind_hcu_eplb_config :: "pyval \<Rightarrow> (warn_state, pyval) op" where
  "bind_hcu_eplb_config vc =
     (if parallel_of vc = VNone then ret vc
      else bind_op (get_hcu_config vc) (\<lambda>c.
           bind_op (lift_result (set_on_parallel (parallel_of vc) (eplb_sidecar_values c))) (\<lambda>p.
             ret (replace_parallel vc p))))"

section \<open>Keyword arguments\<close>

text \<open>The feature arguments are taken out of \<open>kwargs\<close>, also when their values are then refused.\<close>

definition popped :: "attrs \<Rightarrow> attrs" where
  "popped kwargs =
     concat (map (\<lambda>name. case dict_get kwargs name of None \<Rightarrow> [] | Some v \<Rightarrow> [(name, v)]) feature_fields)"

definition pop_hcu_feature_kwargs ::
    "attrs \<Rightarrow> pyval \<Rightarrow> warn_state \<Rightarrow> (hcu_feature_config result \<times> warn_state) option \<times> attrs" where
  "pop_hcu_feature_kwargs kwargs base w =
     (case (if base = VNone then make_config [] else normalized_config base) w of
        None \<Rightarrow> (None, kwargs)
      | Some (Inl e, w') \<Rightarrow> (Some (Inl e, w'), kwargs)
      | Some (Inr c, w') \<Rightarrow>
          ((if popped kwargs = [] then ret c else with_updates c (popped kwargs)) w',
           fold dict_pop feature_fields kwargs))"

end
