(* ===== verification/Static_Eplb.thy ===== *)
theory Static_Eplb
  imports Feature_Config
begin

text \<open>
  Offline expert placement, \<open>src/vllm_hcu/model_executor/layers/fused_moe/static_eplb.py\<close>: the
  validated plan that maps physical expert slots to logical experts, its file format, the loading
  of checkpoint experts into the slots and the binding of a plan to a model.

  The files are a parameter: a path is resolved to a canonical one, and the canonical path is read, one
  value for each time, since a file may change between reads.  So are \<open>json.loads\<close> (\<open>None\<close> for undecodable
  input) and the SHA-256 digest.  A JSON object is a dictionary.  \<open>lru_cache\<close> only saves work, the parser being a function of its arguments.
\<close>

section \<open>Plans\<close>

datatype json =
    JNull
  | JBool bool
  | JInt int
  | JFloat string
  | JStr string
  | JArr "json list"
  | JObj "(string, json) dict"

record static_eplb_plan =
  sp_model_key :: string
  sp_model_name :: string
  sp_source_path :: string
  sp_source_sha256 :: string
  sp_record_kind :: string
  sp_map_values :: "int list list"
  sp_num_logical_experts :: int
  sp_num_physical_experts :: int
  sp_num_redundant_experts :: int

definition eplb_error :: "string \<Rightarrow> exn" where
  "eplb_error m = Exn ValueError (''Static EPLB '' @ m)"

definition offline_eplb_format :: string where
  "offline_eplb_format = ''vllm_offline_eplb_physical_to_logical_by_model''"

definition record_kinds :: "string list" where
  "record_kinds = [''initial'', ''proposal'']"

definition integer_at_least :: "int \<Rightarrow> string \<Rightarrow> int \<Rightarrow> int result" where
  "integer_at_least v name minimum =
     (if v < minimum then Inl (eplb_error (name @ '' must be an integer >= '' @ str_int minimum)) else Inr v)"

definition guard :: "bool \<Rightarrow> string \<Rightarrow> unit result" where
  "guard ok m = (if ok then Inr () else Inl (eplb_error m))"

definition hex_digits :: string where
  "hex_digits = ''0123456789abcdef''"

text \<open>One row of the map: integers in range that cover every logical expert.\<close>

definition row_ints :: "json list \<Rightarrow> int list option" where
  "row_ints row = those (map (\<lambda>v. case v of JInt i \<Rightarrow> Some i | _ \<Rightarrow> None) row)"

definition check_row :: "int \<Rightarrow> int \<Rightarrow> json list \<Rightarrow> int list result" where
  "check_row logical physical row =
     (if int (length row) \<noteq> physical then Inl (eplb_error ''row shape or immutability mismatch'')
      else case row_ints row of
             None \<Rightarrow> Inl (eplb_error ''invalid logical expert ID'')
           | Some ids \<Rightarrow>
               if \<not> list_all (\<lambda>e. 0 \<le> e \<and> e < logical) ids then Inl (eplb_error ''invalid logical expert ID'')
               else if set ids \<noteq> set (map int [0..<nat logical]) then Inl (eplb_error ''row misses logical experts'')
               else Inr ids)"

text \<open>The constructor with its \<open>__post_init__\<close> checks, in their order.\<close>

definition make_plan ::
    "string \<Rightarrow> string \<Rightarrow> string \<Rightarrow> string \<Rightarrow> string \<Rightarrow> json list list \<Rightarrow> int \<Rightarrow> int \<Rightarrow> int \<Rightarrow> static_eplb_plan result" where
  "make_plan key name path sha kind rows logical physical redundant =
     and_then (guard (key \<noteq> []) ''model_key must be nonempty'') (\<lambda>_.
     and_then (guard (name \<noteq> []) ''model_name must be nonempty'') (\<lambda>_.
     and_then (guard (path \<noteq> [] \<and> hd path = CHR ''/'') ''source_path must be absolute'') (\<lambda>_.
     and_then (guard (length sha = 64 \<and> list_all (\<lambda>c. c \<in> set hex_digits) sha)
                 ''source_sha256 must be a SHA-256 hex digest'') (\<lambda>_.
     and_then (guard (kind \<in> set record_kinds) ''record_kind must be initial or proposal'') (\<lambda>_.
     and_then (integer_at_least logical ''num_logical_experts'' 1) (\<lambda>_.
     and_then (integer_at_least physical ''num_physical_experts'' 1) (\<lambda>_.
     and_then (integer_at_least redundant ''num_redundant_experts'' 0) (\<lambda>_.
     and_then (guard (logical + redundant = physical) ''physical/logical/redundant counts disagree'') (\<lambda>_.
     and_then (guard (rows \<noteq> []) ''rows must be a nonempty immutable tuple'') (\<lambda>_.
     and_then (map_result (check_row logical physical) rows) (\<lambda>ids.
       Inr \<lparr>sp_model_key = key, sp_model_name = name, sp_source_path = path, sp_source_sha256 = sha,
            sp_record_kind = kind, sp_map_values = ids, sp_num_logical_experts = logical,
            sp_num_physical_experts = physical, sp_num_redundant_experts = redundant\<rparr>)))))))))))"

definition layer_map :: "static_eplb_plan \<Rightarrow> nat \<Rightarrow> int list result" where
  "layer_map p i = py_index (sp_map_values p) (int i)"

type_synonym fingerprint = "string \<times> string \<times> string \<times> (int \<times> int) \<times> int \<times> int \<times> int"

definition fingerprint_of :: "static_eplb_plan \<Rightarrow> fingerprint" where
  "fingerprint_of p = (sp_model_key p, sp_model_name p, sp_source_sha256 p,
     (int (length (sp_map_values p)), sp_num_physical_experts p),
     sp_num_logical_experts p, sp_num_physical_experts p, sp_num_redundant_experts p)"

section \<open>The plan file\<close>

record plan_file =
  pf_resolve :: "string \<Rightarrow> nat \<Rightarrow> string result"
  pf_read :: "string \<Rightarrow> nat \<Rightarrow> string result"
  pf_loads :: "string \<Rightarrow> json option"
  pf_sha256 :: "string \<Rightarrow> string"

definition required_field :: "(string, json) dict \<Rightarrow> string \<Rightarrow> json result" where
  "required_field d name =
     (case dict_get d name of None \<Rightarrow> Inl (eplb_error (''model map is missing '' @ name)) | Some v \<Rightarrow> Inr v)"

definition expect_field :: "(string, json) dict \<Rightarrow> string \<times> json \<Rightarrow> unit result" where
  "expect_field d = (\<lambda>(name, expected).
     and_then (required_field d name) (\<lambda>v. guard (v = expected) (''declared '' @ name @ '' mismatch'')))"

definition array_rows :: "json \<Rightarrow> int \<Rightarrow> json list list result" where
  "array_rows v layers =
     (case v of
        JArr rows \<Rightarrow>
          (case those (map (\<lambda>r. case r of JArr xs \<Rightarrow> Some xs | _ \<Rightarrow> None) rows) of
             Some xss \<Rightarrow> if int (length rows) = layers then Inr xss else Inl (eplb_error ''map shape mismatch'')
           | None \<Rightarrow> Inl (eplb_error ''map shape mismatch''))
      | _ \<Rightarrow> Inl (eplb_error ''map shape mismatch''))"

definition as_object :: "json option \<Rightarrow> string \<Rightarrow> (string, json) dict result" where
  "as_object v m = (case v of Some (JObj d) \<Rightarrow> Inr d | _ \<Rightarrow> Inl (eplb_error m))"

definition as_string :: "json \<Rightarrow> string \<Rightarrow> string result" where
  "as_string v m = (case v of JStr s \<Rightarrow> Inr s | _ \<Rightarrow> Inl (eplb_error m))"

definition parse_plan ::
    "plan_file \<Rightarrow> string \<Rightarrow> string \<Rightarrow> string \<Rightarrow> string \<Rightarrow> int \<times> int \<Rightarrow> int \<Rightarrow> int \<Rightarrow> bool \<Rightarrow> static_eplb_plan result" where
  "parse_plan pf raw path key expected_name shape logical redundant require_proposal =
     (case pf_loads pf raw of
        None \<Rightarrow> Inl (eplb_error ''file must contain valid JSON'')
      | Some doc \<Rightarrow>
          and_then (as_object (Some doc) ''top-level payload must be an object'') (\<lambda>payload.
          and_then (guard (dict_get payload ''version'' = Some (JInt 2)) ''file must declare version 2'') (\<lambda>_.
          and_then (guard (dict_get payload ''format'' = Some (JStr offline_eplb_format))
                      (''file must declare format '' @ py_repr offline_eplb_format)) (\<lambda>_.
          and_then (as_object (dict_get payload ''model_maps'') ''model_maps must be an object'') (\<lambda>maps.
          and_then (guard (dict_get maps key \<noteq> None) (''missing model key '' @ py_repr key)) (\<lambda>_.
          and_then (as_object (dict_get maps key) ''model map must be an object'') (\<lambda>selected.
          and_then (required_field selected ''record_kind'') (\<lambda>kv.
          and_then (as_string kv ''record_kind must be initial or proposal'') (\<lambda>kind.
          and_then (guard (kind \<in> set record_kinds) ''record_kind must be initial or proposal'') (\<lambda>_.
          and_then (guard (require_proposal \<longrightarrow> kind = ''proposal'')
                      (''model key '' @ py_repr key @ '' has no calibration proposal'')) (\<lambda>_.
          and_then (required_field selected ''model_name'') (\<lambda>nv.
          and_then (as_string nv ''model_name must be a nonempty string'') (\<lambda>name.
          and_then (guard (name \<noteq> []) ''model_name must be a nonempty string'') (\<lambda>_.
          and_then (guard (name = expected_name) ''declared model_name mismatch'') (\<lambda>_.
          and_then (map_result (expect_field selected)
             [(''model_class'', JStr key), (''num_moe_layers'', JInt (fst shape)), (''num_logical_experts'', JInt logical),
              (''num_physical_experts'', JInt (snd shape)), (''num_redundant_experts'', JInt redundant)]) (\<lambda>_.
          and_then (required_field selected ''physical_to_logical_map'') (\<lambda>rv.
          and_then (array_rows rv (fst shape)) (\<lambda>rows.
            make_plan key name path (pf_sha256 pf raw) kind rows logical (snd shape) redundant))))))))))))))))))"

definition load_static_eplb_plan ::
    "plan_file \<Rightarrow> string \<Rightarrow> nat \<Rightarrow> string \<Rightarrow> string option \<Rightarrow> int \<times> int \<Rightarrow> int \<Rightarrow> int \<Rightarrow> bool \<Rightarrow> static_eplb_plan result" where
  "load_static_eplb_plan pf path k key expected_name shape logical redundant require_proposal =
     and_then (guard (key \<noteq> []) ''model_key must be nonempty'') (\<lambda>_.
     and_then (guard (expected_name \<noteq> None \<and> expected_name \<noteq> Some []) ''expected_model_name must be nonempty'') (\<lambda>_.
     and_then (integer_at_least (fst shape) ''shape'' 1) (\<lambda>_.
     and_then (integer_at_least (snd shape) ''shape'' 1) (\<lambda>_.
     and_then (integer_at_least logical ''num_logical_experts'' 1) (\<lambda>_.
     and_then (integer_at_least redundant ''num_redundant_experts'' 0) (\<lambda>_.
     and_then (guard (logical + redundant = snd shape) ''physical/logical/redundant counts disagree'') (\<lambda>_.
     and_then (pf_resolve pf path k) (\<lambda>canonical.
     and_then (pf_read pf canonical k) (\<lambda>raw.
       parse_plan pf raw canonical key (the expected_name) shape logical redundant require_proposal)))))))))"

definition validate_model ::
    "plan_file \<Rightarrow> string \<Rightarrow> string \<Rightarrow> string \<Rightarrow> int \<Rightarrow> int \<Rightarrow> string \<times> int \<Rightarrow> unit result" where
  "validate_model pf raw path expected_name logical redundant = (\<lambda>(key, layers).
     and_then (guard (key \<noteq> []) ''required model key must be nonempty'') (\<lambda>_.
     and_then (integer_at_least layers (key @ '' num_moe_layers'') 1) (\<lambda>_.
     and_then (parse_plan pf raw path key expected_name (layers, logical + redundant) logical redundant True) (\<lambda>_. Inr ()))))"

definition validate_static_eplb_artifact ::
    "plan_file \<Rightarrow> string \<Rightarrow> nat \<Rightarrow> (string, int) dict \<Rightarrow> string option \<Rightarrow> int \<Rightarrow> int \<Rightarrow> string result" where
  "validate_static_eplb_artifact pf path k required_models expected_name logical redundant =
     and_then (guard (required_models \<noteq> []) ''required_models must be nonempty'') (\<lambda>_.
     and_then (guard (expected_name \<noteq> None \<and> expected_name \<noteq> Some []) ''expected_model_name must be nonempty'') (\<lambda>_.
     and_then (integer_at_least logical ''num_logical_experts'' 1) (\<lambda>_.
     and_then (integer_at_least redundant ''num_redundant_experts'' 0) (\<lambda>_.
     and_then (pf_resolve pf path k) (\<lambda>canonical.
     and_then (pf_read pf canonical k) (\<lambda>raw.
     and_then (map_result (validate_model pf raw canonical (the expected_name) logical redundant) required_models) (\<lambda>_.
     and_then (pf_read pf canonical (k + 1)) (\<lambda>again.
     and_then (guard (again = raw) ''file changed during validation'') (\<lambda>_.
       Inr (pf_sha256 pf raw))))))))))"

definition hyv4_required_models :: "string list option \<Rightarrow> string \<Rightarrow> int \<Rightarrow> (string, int) dict option result" where
  "hyv4_required_models layer_types key current_layers =
     (if key \<noteq> ''HYV4ForCausalLM'' \<and> key \<noteq> ''HYV4MTP'' then Inr None
      else case layer_types of
             Some (t # ts) \<Rightarrow>
               Inr (Some [(''HYV4ForCausalLM'', int (length (filter (\<lambda>v. v \<noteq> ''dense'') (t # ts)))), (''HYV4MTP'', 1)])
           | _ \<Rightarrow>
               if key = ''HYV4ForCausalLM''
               then Inr (Some [(''HYV4ForCausalLM'', current_layers), (''HYV4MTP'', 1)])
               else Inl (eplb_error ''cannot determine HYV4ForCausalLM layer count''))"

definition resolve_offline_eplb_model_key :: "string \<Rightarrow> int \<Rightarrow> string result" where
  "resolve_offline_eplb_model_key cls pp =
     and_then (integer_at_least pp ''pipeline_parallel_size'' 1) (\<lambda>_.
     and_then (guard (pp = 1) ''does not support pipeline parallelism'') (\<lambda>_.
     and_then (guard (cls \<noteq> []) ''runtime model class name must be nonempty'') (\<lambda>_. Inr cls)))"

text \<open>The fingerprints gathered from the ranks; \<open>None\<close> when no process group exists.\<close>

definition verify_static_plan_across_ep_ranks :: "fingerprint list option \<Rightarrow> static_eplb_plan \<Rightarrow> unit result" where
  "verify_static_plan_across_ep_ranks ranks p =
     (case ranks of
        None \<Rightarrow> Inr ()
      | Some fps \<Rightarrow>
          if list_ex (\<lambda>f. f \<noteq> fingerprint_of p) fps
          then raise RuntimeError ''Static EPLB plan fingerprint mismatch across EP ranks'' else Inr ())"

section \<open>Loading experts\<close>

record routed_experts =
  re_row :: "int list"
  re_logical :: int
  re_fused_shared :: int
  re_global_sf :: bool

text \<open>vLLM's loader of one physical expert, called with the slot and \<open>return_success\<close>.\<close>

type_synonym 's expert_loader = "int \<Rightarrow> bool \<Rightarrow> ('s, bool option) op"

fun load_slots :: "'s expert_loader \<Rightarrow> int \<Rightarrow> (nat \<times> int) list \<Rightarrow> bool \<Rightarrow> ('s, bool) op" where
  "load_slots orig e [] loaded_any = ret loaded_any"
| "load_slots orig e ((p, l) # rest) loaded_any =
     (if l \<noteq> e then load_slots orig e rest loaded_any
      else bind_op (orig (int p) True) (\<lambda>loaded. load_slots orig e rest (loaded = Some True \<or> loaded_any)))"

definition load_static_logical_expert ::
    "routed_experts \<Rightarrow> 's expert_loader \<Rightarrow> nat \<Rightarrow> string \<Rightarrow> int \<Rightarrow> bool \<Rightarrow> ('s, bool option) op" where
  "load_static_logical_expert re orig ndim weight_name e return_success =
     (if e \<notin> set (re_row re) then throw (eplb_error (''invalid logical expert ID '' @ str_int e))
      else if 3 \<le> ndim then throw (eplb_error ''fused expert tensors must be split by the current loader'')
      else if re_global_sf re \<and> py_contains ''input_scale'' weight_name then orig e return_success
      else bind_op (load_slots orig e (List.enumerate 0 (re_row re)) False) (\<lambda>any.
             ret (if return_success then Some any else None)))"

definition static_loader ::
    "routed_experts \<Rightarrow> 's expert_loader \<Rightarrow> nat \<Rightarrow> string \<Rightarrow> int \<Rightarrow> bool \<Rightarrow> ('s, bool option) op" where
  "static_loader re orig ndim weight_name e return_success =
     (if re_logical re \<le> e \<and> e < re_logical re + re_fused_shared re
      then orig (int (length (re_row re)) + e - re_logical re) return_success
      else load_static_logical_expert re orig ndim weight_name e return_success)"

text \<open>Entries of an expert mapping are identified by their expert id, the third component.\<close>

definition logical_model_mapping :: "(string \<times> string \<times> int \<times> string) list \<Rightarrow> int \<Rightarrow> (string \<times> string \<times> int \<times> string) list" where
  "logical_model_mapping entries logical = filter (\<lambda>(_, _, e, _). e < logical) entries"

section \<open>Binding\<close>

record moe_param =
  mp_name :: string
  mp_is_expert_weight :: bool
  mp_loader_owned :: bool
  mp_wrapped :: bool

record moe_layer =
  ml_is_routed :: bool
  ml_quant_name :: string
  ml_supports_eplb :: bool
  ml_logical :: int
  ml_experts :: int
  ml_fused_shared :: int
  ml_row :: "int list option"
  ml_params :: "moe_param list"
  ml_static_mapping :: bool

record moe_owner =
  mo_plan :: "static_eplb_plan option"
  mo_has_mapping :: bool
  mo_limit :: "int option"

record moe_model =
  mm_class :: string
  mm_layers :: "moe_layer list"
  mm_num_moe_layers :: int
  mm_num_logical :: int
  mm_num_physical :: int
  mm_num_redundant :: int
  mm_owner :: moe_owner
  mm_inner :: "(bool \<times> moe_owner) list"

record eplb_env =
  ee_enable_eplb :: bool
  ee_enable_expert_parallel :: bool
  ee_weight_filter :: bool
  ee_pipeline_size :: int
  ee_model_name :: "string option"
  ee_layer_types :: "string list option"
  ee_ranks :: "fingerprint list option"

text \<open>The parameters of a layer that hold expert weights; their loader must belong to the layer.\<close>

definition check_param :: "moe_param \<Rightarrow> unit result" where
  "check_param p =
     guard (\<not> mp_is_expert_weight p \<or> mp_loader_owned p)
       (''parameter '' @ py_repr (mp_name p) @ '' has an unsupported loader owner'')"

definition check_layer :: "static_eplb_plan \<Rightarrow> moe_layer \<Rightarrow> unit result" where
  "check_layer p l =
     and_then (guard (ml_is_routed l) ''requires current RoutedExperts owners'') (\<lambda>_.
     and_then (if ml_supports_eplb l then Inr () else raise ValueError (''EPLB unsupported by '' @ ml_quant_name l)) (\<lambda>_.
     and_then (guard (ml_logical l = sp_num_logical_experts p \<and> ml_experts l = sp_num_physical_experts p)
                 ''RoutedExperts count mismatch'') (\<lambda>_.
     and_then (map_result check_param (ml_params l)) (\<lambda>_. Inr ()))))"

definition bind_layer :: "int list \<Rightarrow> moe_layer \<Rightarrow> moe_layer" where
  "bind_layer row l =
     l\<lparr>ml_row := Some row,
       ml_params := map (\<lambda>p. if mp_is_expert_weight p then p\<lparr>mp_wrapped := True\<rparr> else p) (ml_params l),
       ml_static_mapping := True\<rparr>"

definition bind_owner :: "static_eplb_plan \<Rightarrow> int \<Rightarrow> moe_owner \<Rightarrow> moe_owner" where
  "bind_owner p limit w =
     w\<lparr>mo_plan := Some p, mo_limit := (if mo_has_mapping w then Some limit else mo_limit w)\<rparr>"

definition publish_plan :: "static_eplb_plan \<Rightarrow> moe_model \<Rightarrow> moe_model" where
  "publish_plan p m =
     (let limit = sp_num_logical_experts p + ml_fused_shared (hd (mm_layers m))
      in m\<lparr>mm_layers := map (\<lambda>(row, l). bind_layer row l) (zip (sp_map_values p) (mm_layers m)),
           mm_owner := bind_owner p limit (mm_owner m),
           mm_inner := map (\<lambda>(same, w). (same, if same then bind_owner p limit w else w)) (mm_inner m)\<rparr>)"

text \<open>
  The plan of a model whose owner was resolved: the file is validated as a whole for HYV4 models,
  then loaded, and both must be the same file.
\<close>

definition plan_for_model :: "plan_file \<Rightarrow> eplb_env \<Rightarrow> string \<Rightarrow> moe_model \<Rightarrow> static_eplb_plan result" where
  "plan_for_model pf env path m =
     and_then (guard (ee_enable_eplb env \<and> ee_enable_expert_parallel env) ''requires EPLB and expert parallel'') (\<lambda>_.
     and_then (guard (\<not> ee_weight_filter env) ''cannot use the upstream EP weight filter'') (\<lambda>_.
     and_then (guard (mm_layers m \<noteq> []) ''found no local MoE layers'') (\<lambda>_.
     and_then (guard (int (length (mm_layers m)) = mm_num_moe_layers m) ''local MoE layer count mismatch'') (\<lambda>_.
     and_then (resolve_offline_eplb_model_key (mm_class m) (ee_pipeline_size env)) (\<lambda>key.
     and_then (hyv4_required_models (ee_layer_types env) key (int (length (mm_layers m)))) (\<lambda>required.
     and_then (case required of
                 None \<Rightarrow> Inr None
               | Some models \<Rightarrow>
                   and_then (validate_static_eplb_artifact pf path 0 models (ee_model_name env) (mm_num_logical m) (mm_num_redundant m))
                     (\<lambda>sha. Inr (Some sha))) (\<lambda>checked.
     and_then (load_static_eplb_plan pf path (if checked = None then 0 else 2) key (ee_model_name env)
                 (int (length (mm_layers m)), mm_num_physical m) (mm_num_logical m) (mm_num_redundant m) True) (\<lambda>p.
     and_then (guard (checked = None \<or> checked = Some (sp_source_sha256 p)) ''file changed after completeness validation'') (\<lambda>_.
       Inr p)))))))))"

definition rebind_check :: "static_eplb_plan \<Rightarrow> static_eplb_plan \<Rightarrow> moe_model \<Rightarrow> static_eplb_plan result" where
  "rebind_check old p m =
     and_then (guard (old = p) ''plan changed; cannot rebind loaded weights'') (\<lambda>_.
     and_then (map_result (\<lambda>(i, l). and_then (layer_map p i) (\<lambda>row.
         guard (ml_row l = Some row) ''consumer row changed after binding'')) (List.enumerate 0 (mm_layers m))) (\<lambda>_.
       Inr old))"

definition bind_resolved :: "plan_file \<Rightarrow> eplb_env \<Rightarrow> string \<Rightarrow> moe_model \<Rightarrow> static_eplb_plan option result \<times> moe_model" where
  "bind_resolved pf env path m =
     (case plan_for_model pf env path m of
        Inl e \<Rightarrow> (Inl e, m)
      | Inr p \<Rightarrow>
          (case mo_plan (mm_owner m) of
             Some old \<Rightarrow> (case rebind_check old p m of Inl e \<Rightarrow> (Inl e, m) | Inr b \<Rightarrow> (Inr (Some b), m))
           | None \<Rightarrow>
               (case and_then (map_result (check_layer p) (mm_layers m)) (\<lambda>_.
                       verify_static_plan_across_ep_ranks (ee_ranks env) p) of
                  Inl e \<Rightarrow> (Inl e, m)
                | Inr _ \<Rightarrow> (Inr (Some p), publish_plan p m))))"

text \<open>
  The module given to the binding: itself a mixture-of-experts model, or one of the two Step5 classes
  that wrap or lack one.  The counts are the attributes the drafter test reads, absent ones \<open>None\<close>.
\<close>

record given_module =
  gm_class :: string
  gm_self :: "moe_model option"
  gm_is_step5_mtp :: bool
  gm_is_dense_mtp :: bool
  gm_num_moe_layers :: "int option"
  gm_has_moe_layers :: bool
  gm_counts :: "int option list"
  gm_is_step5_vl :: bool
  gm_text :: "moe_model option"

datatype resolved = Itself moe_model | Inner moe_model | NoExperts

definition is_dense_drafter :: "given_module \<Rightarrow> bool" where
  "is_dense_drafter g \<longleftrightarrow>
     gm_class g = ''Step5MTP'' \<and> gm_is_step5_mtp g \<and> gm_is_dense_mtp g \<and> gm_num_moe_layers g = Some 0
     \<and> \<not> gm_has_moe_layers g \<and> list_all (\<lambda>c. c = Some 0) (gm_counts g)"

definition resolve_static_eplb_owner :: "given_module \<Rightarrow> resolved result" where
  "resolve_static_eplb_owner g =
     (case gm_self g of
        Some m \<Rightarrow> Inr (Itself m)
      | None \<Rightarrow>
          if is_dense_drafter g then Inr NoExperts
          else if gm_class g = ''Step5ForConditionalGeneration'' \<and> gm_is_step5_vl g
          then (case gm_text g of
                  Some m \<Rightarrow> Inr (Inner m)
                | None \<Rightarrow> Inl (eplb_error ''requires a current MixtureOfExperts model''))
          else Inl (eplb_error ''requires a current MixtureOfExperts model''))"

definition bind_to_module :: "plan_file \<Rightarrow> eplb_env \<Rightarrow> string \<Rightarrow> given_module \<Rightarrow> static_eplb_plan option result \<times> given_module" where
  "bind_to_module pf env path g =
     (case resolve_static_eplb_owner g of
        Inl e \<Rightarrow> (Inl e, g)
      | Inr NoExperts \<Rightarrow> (Inr None, g)
      | Inr (Itself m) \<Rightarrow> (case bind_resolved pf env path m of (r, m') \<Rightarrow> (r, g\<lparr>gm_self := Some m'\<rparr>))
      | Inr (Inner m) \<Rightarrow> (case bind_resolved pf env path m of (r, m') \<Rightarrow> (r, g\<lparr>gm_text := Some m'\<rparr>)))"

definition get_attr :: "pyval \<Rightarrow> string \<Rightarrow> pyval" where
  "get_attr v name = field_or (attrs_of v) name VNone"

text \<open>
  The path attribute of the parallel configuration, \<open>None\<close> when it counts as false.  It has just been set
  by \<open>bind_hcu_eplb_config\<close>, to a text or to \<open>None\<close>; other values do not occur (\<open>sidecar_is_text\<close>).
\<close>

definition sidecar_path :: "pyval \<Rightarrow> string option" where
  "sidecar_path vc =
     (case get_attr (get_attr vc ''parallel_config'') ''_vllm_hcu_expert_map_path'' of
        VStr s \<Rightarrow> (if s = [] then None else Some s)
      | _ \<Rightarrow> None)"

text \<open>The result with the module and the configuration afterwards; both are changed in place.\<close>

definition bind_static_eplb_plan ::
    "plan_file \<Rightarrow> eplb_env \<Rightarrow> pyval \<Rightarrow> given_module \<Rightarrow> warn_state
       \<Rightarrow> ((static_eplb_plan option result \<times> given_module \<times> pyval) \<times> warn_state) option" where
  "bind_static_eplb_plan pf env vc g w =
     (case bind_hcu_eplb_config vc w of
        None \<Rightarrow> None
      | Some (Inl e, w') \<Rightarrow> Some ((Inl e, g, vc), w')
      | Some (Inr vc', w') \<Rightarrow>
          (case sidecar_path vc' of
             None \<Rightarrow> Some ((Inr None, g, vc'), w')
           | Some path \<Rightarrow> (case bind_to_module pf env path g of (r, g') \<Rightarrow> Some ((r, g', vc'), w'))))"

end
