(* ===== verification/Static_Eplb_Correct.thy ===== *)
theory Static_Eplb_Correct
  imports Static_Eplb
begin

text \<open>
  Correctness of the offline expert placement: the shape of every accepted plan, where the experts
  of a checkpoint end up, and the atomicity of the binding.
\<close>

section \<open>Accepted plans\<close>

lemma guard_Inr_iff [simp]: "guard ok m = Inr u \<longleftrightarrow> ok"
  by (simp add: guard_def)

lemma integer_at_least_Inr_iff [simp]: "integer_at_least v name lo = Inr u \<longleftrightarrow> lo \<le> v \<and> u = v"
  by (auto simp: integer_at_least_def)

lemma those_length: "those xs = Some ys \<Longrightarrow> length ys = length xs"
  by (induction xs arbitrary: ys) (auto split: option.splits)

lemma check_row_Inr:
  "check_row logical physical row = Inr ids \<Longrightarrow>
     int (length ids) = physical \<and> set ids = {0..<logical} \<and> row = map JInt ids"
proof -
  assume ok: "check_row logical physical row = Inr ids"
  then have ids: "row_ints row = Some ids" and len: "int (length row) = physical"
    and cover: "set ids = set (map int [0..<nat logical])"
    by (auto simp: check_row_def split: if_splits option.splits)
  have "row = map JInt ids"
    using ids unfolding row_ints_def
    by (induction row arbitrary: ids) (auto split: option.splits json.splits)
  moreover have "set (map int [0..<nat logical]) = {0..<logical}"
    by (force simp: image_iff intro: bexI [where x = "nat _"])
  ultimately show ?thesis
    using len cover by simp
qed

definition plan_shape :: "static_eplb_plan \<Rightarrow> bool" where
  "plan_shape p \<longleftrightarrow>
     sp_map_values p \<noteq> [] \<and> 1 \<le> sp_num_logical_experts p \<and> 0 \<le> sp_num_redundant_experts p
     \<and> sp_num_physical_experts p = sp_num_logical_experts p + sp_num_redundant_experts p
     \<and> (\<forall>row \<in> set (sp_map_values p). int (length row) = sp_num_physical_experts p
          \<and> set row = {0..<sp_num_logical_experts p})"

lemma make_plan_Inr:
  assumes "make_plan key name path sha kind rows logical physical redundant = Inr p"
  shows "plan_shape p \<and> map (map JInt) (sp_map_values p) = rows
     \<and> sp_model_key p = key \<and> sp_model_name p = name \<and> sp_source_path p = path \<and> sp_source_sha256 p = sha
     \<and> sp_record_kind p = kind \<and> sp_num_logical_experts p = logical \<and> sp_num_physical_experts p = physical
     \<and> sp_num_redundant_experts p = redundant"
proof -
  obtain ids where ids: "map_result (check_row logical physical) rows = Inr ids"
    and counts: "1 \<le> logical" "0 \<le> redundant" "logical + redundant = physical" "rows \<noteq> []"
    and p: "p = \<lparr>sp_model_key = key, sp_model_name = name, sp_source_path = path, sp_source_sha256 = sha,
            sp_record_kind = kind, sp_map_values = ids, sp_num_logical_experts = logical,
            sp_num_physical_experts = physical, sp_num_redundant_experts = redundant\<rparr>"
    using assms by (auto simp: make_plan_def and_then_Inr_iff)
  have rel: "list_all2 (\<lambda>r i. check_row logical physical r = Inr i) rows ids"
    using ids by (simp add: map_result_Inr_iff)
  have "map (map JInt) ids = rows"
    using rel by (induction rule: list_all2_induct) (auto dest: check_row_Inr)
  moreover have "\<forall>row \<in> set ids. int (length row) = physical \<and> set row = {0..<logical}"
    using rel by (induction rule: list_all2_induct) (auto dest: check_row_Inr)
  ultimately show ?thesis
    using counts p by (auto simp: plan_shape_def)
qed

lemma array_rows_length: "array_rows v layers = Inr rows \<Longrightarrow> int (length rows) = layers"
  by (auto simp: array_rows_def split: json.splits option.splits if_splits dest: those_length)

lemma parse_plan_Inr:
  assumes "parse_plan pf raw path key name shape logical redundant rp = Inr p"
  shows "plan_shape p \<and> int (length (sp_map_values p)) = fst shape
     \<and> sp_model_key p = key \<and> sp_model_name p = name \<and> sp_source_path p = path \<and> sp_source_sha256 p = pf_sha256 pf raw
     \<and> sp_num_logical_experts p = logical \<and> sp_num_physical_experts p = snd shape
     \<and> sp_num_redundant_experts p = redundant \<and> (rp \<longrightarrow> sp_record_kind p = ''proposal'')"
proof -
  obtain kind rv rows where rows: "array_rows rv (fst shape) = Inr rows"
    and kind: "rp \<longrightarrow> kind = ''proposal''"
    and p: "make_plan key name path (pf_sha256 pf raw) kind rows logical (snd shape) redundant = Inr p"
    using assms by (auto simp: parse_plan_def and_then_Inr_iff split: option.splits)
  have "length (sp_map_values p) = length rows"
    using make_plan_Inr [OF p] by (metis length_map)
  with make_plan_Inr [OF p] array_rows_length [OF rows] kind show ?thesis
    by simp
qed

lemma load_plan_Inr:
  assumes "load_static_eplb_plan pf path k key name shape logical redundant rp = Inr p"
  shows "\<exists>raw. pf_resolve pf path k = Inr (sp_source_path p) \<and> pf_read pf (sp_source_path p) k = Inr raw
     \<and> plan_shape p \<and> int (length (sp_map_values p)) = fst shape
     \<and> sp_model_key p = key \<and> Some (sp_model_name p) = name \<and> sp_source_sha256 p = pf_sha256 pf raw
     \<and> sp_num_logical_experts p = logical \<and> sp_num_physical_experts p = snd shape
     \<and> sp_num_redundant_experts p = redundant \<and> (rp \<longrightarrow> sp_record_kind p = ''proposal'')"
proof -
  obtain canonical raw where "pf_resolve pf path k = Inr canonical" "pf_read pf canonical k = Inr raw" and name: "name \<noteq> None"
    and parse: "parse_plan pf raw canonical key (the name) shape logical redundant rp = Inr p"
    using assms by (auto simp: load_static_eplb_plan_def and_then_Inr_iff)
  with parse_plan_Inr [OF parse] show ?thesis
    by auto
qed

section \<open>Loading the experts of a checkpoint\<close>

text \<open>
  What is relied on from vLLM's loader of one physical expert: for a slot of this rank it stores the
  weight there and nowhere else, for any other slot it does nothing; asked for success, it says which.
\<close>

definition loader_contract ::
    "('w \<Rightarrow> 's expert_loader) \<Rightarrow> ('s \<Rightarrow> int \<Rightarrow> 'w option) \<Rightarrow> (int \<Rightarrow> bool) \<Rightarrow> bool" where
  "loader_contract orig slot here \<longleftrightarrow>
     (\<forall>w p rs s. \<exists>t. orig w p rs s = Some (Inr (if rs then Some (here p) else None), t)
        \<and> slot t = (slot s)(p := if here p then Some w else slot s p))"

lemma loader_contractD:
  assumes "loader_contract orig slot here"
  obtains t where "orig w p rs s = Some (Inr (if rs then Some (here p) else None), t)"
    and "slot t = (slot s)(p := if here p then Some w else slot s p)"
  using assms unfolding loader_contract_def by blast

lemma load_slots_run:
  assumes "loader_contract orig slot here"
  shows "\<exists>t. load_slots (orig w) e ps any s
            = Some (Inr (any \<or> (\<exists>p. (p, e) \<in> set ps \<and> here (int p))), t)
       \<and> slot t = (\<lambda>q. if here q \<and> (\<exists>p. (p, e) \<in> set ps \<and> q = int p) then Some w else slot s q)"
proof (induction ps arbitrary: any s)
  case Nil
  then show ?case by (simp add: ret_run)
next
  case (Cons pl ps)
  obtain p l where pl: "pl = (p, l)" by force
  show ?case
  proof (cases "l = e")
    case True
    obtain t where run: "orig w (int p) True s = Some (Inr (Some (here (int p))), t)"
      and slot: "slot t = (slot s)(int p := if here (int p) then Some w else slot s (int p))"
      using loader_contractD [OF assms, of w "int p" True s] by auto
    obtain u where rest: "load_slots (orig w) e ps (here (int p) \<or> any) t
          = Some (Inr ((here (int p) \<or> any) \<or> (\<exists>p. (p, e) \<in> set ps \<and> here (int p))), u)"
      and last: "slot u = (\<lambda>q. if here q \<and> (\<exists>p. (p, e) \<in> set ps \<and> q = int p) then Some w else slot t q)"
      using Cons.IH [of "here (int p) \<or> any" t] by blast
    have "load_slots (orig w) e (pl # ps) any s
          = Some (Inr ((here (int p) \<or> any) \<or> (\<exists>p. (p, e) \<in> set ps \<and> here (int p))), u)"
      by (simp add: pl True op_defs run rest)
    moreover have "slot u = (\<lambda>q. if here q \<and> (\<exists>p. (p, e) \<in> set (pl # ps) \<and> q = int p) then Some w else slot s q)"
      by (auto simp: last slot pl True fun_eq_iff)
    ultimately show ?thesis
      by (auto simp: pl True)
  next
    case False
    then show ?thesis
      using Cons.IH [of any s] by (auto simp: pl)
  qed
qed

text \<open>The physical slots a checkpoint expert belongs in: its replicas, or the tail slot of a fused shared expert.\<close>

definition slots_of :: "routed_experts \<Rightarrow> int \<Rightarrow> int set" where
  "slots_of re e =
     (if re_logical re \<le> e then {int (length (re_row re)) + e - re_logical re}
      else {p. 0 \<le> p \<and> p < int (length (re_row re)) \<and> re_row re ! nat p = e})"

definition loads_plainly :: "routed_experts \<Rightarrow> nat \<Rightarrow> string \<Rightarrow> bool" where
  "loads_plainly re ndim name \<longleftrightarrow> ndim < 3 \<and> \<not> (re_global_sf re \<and> py_contains ''input_scale'' name)"

lemma static_loader_run:
  assumes "loader_contract orig slot here" and "set (re_row re) = {0..<re_logical re}"
    and "0 \<le> e" "e < re_logical re + re_fused_shared re" and "loads_plainly re ndim name"
  shows "\<exists>t. static_loader re (orig w) ndim name e rs s
            = Some (Inr (if rs then Some (\<exists>p \<in> slots_of re e. here p) else None), t)
       \<and> slot t = (\<lambda>q. if here q \<and> q \<in> slots_of re e then Some w else slot s q)"
proof (cases "re_logical re \<le> e")
  case True
  let ?p = "int (length (re_row re)) + e - re_logical re"
  obtain t where run: "orig w ?p rs s = Some (Inr (if rs then Some (here ?p) else None), t)"
    and slot: "slot t = (slot s)(?p := if here ?p then Some w else slot s ?p)"
    using loader_contractD [OF assms(1)] by blast
  have "static_loader re (orig w) ndim name e rs s = orig w ?p rs s"
    using True assms(4) by (simp add: static_loader_def)
  then show ?thesis
    using run slot True by (auto simp: slots_of_def fun_eq_iff)
next
  case False
  let ?ps = "List.enumerate 0 (re_row re)"
  have inps: "(\<exists>p. (p, e) \<in> set ?ps \<and> q = int p) \<longleftrightarrow> q \<in> slots_of re e" for q
    using False
    by (auto simp: slots_of_def in_set_enumerate_eq intro: exI [of _ "nat q"])
  have anyhere: "(\<exists>p. (p, e) \<in> set ?ps \<and> here (int p)) \<longleftrightarrow> (\<exists>p \<in> slots_of re e. here p)"
    using inps by metis
  obtain t where run: "load_slots (orig w) e ?ps False s = Some (Inr (\<exists>p \<in> slots_of re e. here p), t)"
    and slot: "slot t = (\<lambda>q. if here q \<and> q \<in> slots_of re e then Some w else slot s q)"
    using load_slots_run [OF assms(1), of w e ?ps False s] unfolding anyhere inps by auto
  have "static_loader re (orig w) ndim name e rs s
      = bind_op (load_slots (orig w) e ?ps False) (\<lambda>any. ret (if rs then Some any else None)) s"
    using False assms(2,3,5) by (auto simp: static_loader_def load_static_logical_expert_def loads_plainly_def)
  then show ?thesis
    using run slot by (simp add: op_defs ret_run)
qed

lemma slots_of_disjoint:
  assumes "e < f" "p \<in> slots_of re e" "p \<in> slots_of re f"
  shows False
  using assms by (auto simp: slots_of_def split: if_splits)

text \<open>All experts of a checkpoint, one after the other.\<close>

definition load_experts ::
    "routed_experts \<Rightarrow> ('w \<Rightarrow> 's expert_loader) \<Rightarrow> (int \<Rightarrow> 'w) \<Rightarrow> nat \<Rightarrow> string \<Rightarrow> int list \<Rightarrow> ('s, unit) op" where
  "load_experts re orig weight ndim name es =
     for_each es (\<lambda>e. bind_op (static_loader re (orig (weight e)) ndim name e False) (\<lambda>_. ret ()))"

lemma load_experts_run:
  assumes "loader_contract orig slot here" and "set (re_row re) = {0..<re_logical re}"
    and "set es \<subseteq> {0..<re_logical re + re_fused_shared re}" and "loads_plainly re ndim name"
  shows "\<exists>t. load_experts re orig weight ndim name es s = Some (Inr (), t)
       \<and> (\<forall>e \<in> set es. \<forall>p \<in> slots_of re e. here p \<longrightarrow> slot t p = Some (weight e))
       \<and> (\<forall>p. (\<not> here p \<or> (\<forall>e \<in> set es. p \<notin> slots_of re e)) \<longrightarrow> slot t p = slot s p)"
  using assms(3)
proof (induction es arbitrary: s)
  case Nil
  then show ?case by (simp add: load_experts_def ret_run)
next
  case (Cons e es)
  have e: "0 \<le> e" "e < re_logical re + re_fused_shared re"
    using Cons.prems by auto
  obtain u where run: "static_loader re (orig (weight e)) ndim name e False s = Some (Inr None, u)"
    and slot: "slot u = (\<lambda>q. if here q \<and> q \<in> slots_of re e then Some (weight e) else slot s q)"
    using static_loader_run [OF assms(1,2) e assms(4), of "weight e" False s] by auto
  obtain t where rest: "load_experts re orig weight ndim name es u = Some (Inr (), t)"
    and set: "\<And>f p. f \<in> set es \<Longrightarrow> p \<in> slots_of re f \<Longrightarrow> here p \<Longrightarrow> slot t p = Some (weight f)"
    and other: "\<And>p. \<not> here p \<or> (\<forall>f \<in> set es. p \<notin> slots_of re f) \<Longrightarrow> slot t p = slot u p"
    using Cons.IH [of u] Cons.prems by auto
  have "load_experts re orig weight ndim name (e # es) s = Some (Inr (), t)"
    using run rest by (simp add: load_experts_def op_defs ret_run)
  moreover have "slot t p = Some (weight e)" if "p \<in> slots_of re e" "here p" for p
  proof (cases "\<exists>f \<in> set es. p \<in> slots_of re f")
    case True
    then have "e \<in> set es"
      using slots_of_disjoint that(1) by (metis linorder_neqE_linordered_idom)
    then show ?thesis
      using set that by blast
  next
    case False
    then show ?thesis
      using other slot that by simp
  qed
  moreover have "slot t p = slot s p" if "\<not> here p \<or> (\<forall>f \<in> set (e # es). p \<notin> slots_of re f)" for p
    using that other [of p] slot by auto
  ultimately show ?case
    using set by (intro exI [of _ t]) auto
qed

section \<open>Binding\<close>

lemma py_index_nth: "i < length xs \<Longrightarrow> py_index xs (int i) = Inr (xs ! i)"
  by (simp add: py_index_def)

text \<open>The plan comes from the file that the path names.\<close>

definition read_from :: "plan_file \<Rightarrow> string \<Rightarrow> static_eplb_plan \<Rightarrow> bool" where
  "read_from pf path p \<longleftrightarrow> (\<exists>k raw. pf_resolve pf path k = Inr (sp_source_path p) \<and> pf_read pf (sp_source_path p) k = Inr raw
     \<and> sp_source_sha256 p = pf_sha256 pf raw)"

lemma plan_for_model_Inr:
  assumes "plan_for_model pf env path m = Inr p"
  shows "plan_shape p \<and> length (sp_map_values p) = length (mm_layers m) \<and> mm_layers m \<noteq> []
     \<and> sp_model_key p = mm_class m \<and> Some (sp_model_name p) = ee_model_name env
     \<and> sp_record_kind p = ''proposal'' \<and> read_from pf path p"
proof -
  obtain k key where key: "resolve_offline_eplb_model_key (mm_class m) (ee_pipeline_size env) = Inr key"
    and load: "load_static_eplb_plan pf path k key (ee_model_name env) (int (length (mm_layers m)), mm_num_physical m)
        (mm_num_logical m) (mm_num_redundant m) True = Inr p"
    and ne: "mm_layers m \<noteq> []"
    using assms by (auto simp: plan_for_model_def and_then_Inr_iff)
  have "key = mm_class m"
    using key by (auto simp: resolve_offline_eplb_model_key_def and_then_Inr_iff)
  with load_plan_Inr [OF load] ne show ?thesis
    by (auto simp: read_from_def)
qed

lemma plan_for_model_cong:
  assumes "length (mm_layers m') = length (mm_layers m)" "mm_num_moe_layers m' = mm_num_moe_layers m"
    "mm_class m' = mm_class m" "mm_num_logical m' = mm_num_logical m" "mm_num_physical m' = mm_num_physical m"
    "mm_num_redundant m' = mm_num_redundant m"
  shows "plan_for_model pf env path m' = plan_for_model pf env path m"
proof -
  have "mm_layers m' = [] \<longleftrightarrow> mm_layers m = []"
    using assms(1) by (metis length_0_conv)
  then show ?thesis
    unfolding plan_for_model_def assms by (simp only:)
qed

text \<open>A model carries a plan when its owner records it and every layer has its row and wrapped loaders.\<close>

definition carries_plan :: "static_eplb_plan \<Rightarrow> moe_model \<Rightarrow> bool" where
  "carries_plan p m \<longleftrightarrow>
     mo_plan (mm_owner m) = Some p \<and> length (sp_map_values p) = length (mm_layers m)
     \<and> (\<forall>i < length (mm_layers m). ml_row (mm_layers m ! i) = Some (sp_map_values p ! i))"

definition loaders_wrapped :: "moe_model \<Rightarrow> bool" where
  "loaders_wrapped m \<longleftrightarrow>
     (\<forall>l \<in> set (mm_layers m). ml_static_mapping l \<and> (\<forall>q \<in> set (ml_params l). mp_is_expert_weight q \<longrightarrow> mp_wrapped q))"

lemma publish_plan_carries:
  assumes "length (sp_map_values p) = length (mm_layers m)"
  shows "carries_plan p (publish_plan p m)" and "loaders_wrapped (publish_plan p m)"
    and "length (mm_layers (publish_plan p m)) = length (mm_layers m)"
  using assms
  by (auto simp: carries_plan_def loaders_wrapped_def publish_plan_def Let_def bind_owner_def bind_layer_def
      dest!: set_zip_rightD)

lemma rebind_check_iff:
  assumes "length (sp_map_values p) = length (mm_layers m)"
  shows "rebind_check old p m = Inr b \<longleftrightarrow>
     old = p \<and> b = p \<and> (\<forall>i < length (mm_layers m). ml_row (mm_layers m ! i) = Some (sp_map_values p ! i))"
proof -
  let ?f = "\<lambda>(i, l). and_then (layer_map p i) (\<lambda>row.
      guard (ml_row l = Some row) ''consumer row changed after binding'')"
  have "?f (i, mm_layers m ! i) = Inr () \<longleftrightarrow> ml_row (mm_layers m ! i) = Some (sp_map_values p ! i)"
    if "i < length (mm_layers m)" for i
    using that assms by (simp add: layer_map_def py_index_nth)
  then have "(\<exists>us. map_result ?f (List.enumerate 0 (mm_layers m)) = Inr us) \<longleftrightarrow>
      (\<forall>i < length (mm_layers m). ml_row (mm_layers m ! i) = Some (sp_map_values p ! i))"
    by (auto simp: map_result_Inr_iff list_all2_conv_all_nth nth_enumerate_eq
        intro!: exI [of _ "replicate (length (mm_layers m)) ()"])
  then show ?thesis
    by (auto simp: rebind_check_def and_then_Inr_iff)
qed

lemma bind_resolved_cases:
  assumes "bind_resolved pf env path m = (r, m')"
  obtains (raised) e where "r = Inl e" "m' = m"
    | (rebound) p where "r = Inr (Some p)" "m' = m" "plan_for_model pf env path m = Inr p" "carries_plan p m"
    | (bound) p where "r = Inr (Some p)" "m' = publish_plan p m" "plan_for_model pf env path m = Inr p"
        "mo_plan (mm_owner m) = None" "map_result (check_layer p) (mm_layers m) = Inr (replicate (length (mm_layers m)) ())"
        "verify_static_plan_across_ep_ranks (ee_ranks env) p = Inr ()"
proof (cases "plan_for_model pf env path m")
  case (Inl e)
  then have "r = Inl e" "m' = m"
    using assms by (simp_all add: bind_resolved_def)
  then show ?thesis
    by (rule raised)
next
  case (Inr p)
  have len: "length (sp_map_values p) = length (mm_layers m)"
    using plan_for_model_Inr [OF Inr] by simp
  show ?thesis
  proof (cases "mo_plan (mm_owner m)")
    case None
    show ?thesis
    proof (cases "and_then (map_result (check_layer p) (mm_layers m)) (\<lambda>_. verify_static_plan_across_ep_ranks (ee_ranks env) p)")
      case (Inl e)
      then have "r = Inl e" "m' = m"
        using assms Inr None by (simp_all add: bind_resolved_def)
      then show ?thesis
        by (rule raised)
    next
      case ok: (Inr u)
      then obtain us where us: "map_result (check_layer p) (mm_layers m) = Inr us"
        and ver: "verify_static_plan_across_ep_ranks (ee_ranks env) p = Inr ()"
        by (auto simp: and_then_Inr_iff)
      have "us = replicate (length (mm_layers m)) ()"
        using map_result_length [OF us] by (simp add: replicate_eqI)
      then show ?thesis
        using assms Inr None ok us ver by (intro bound [of p]) (simp_all add: bind_resolved_def)
    qed
  next
    case (Some old)
    show ?thesis
    proof (cases "rebind_check old p m")
      case (Inl e)
      then have "r = Inl e" "m' = m"
        using assms Inr Some by (simp_all add: bind_resolved_def)
      then show ?thesis
        by (rule raised)
    next
      case ok: (Inr b)
      then have "carries_plan p m" "b = p"
        using rebind_check_iff [OF len] Some len by (auto simp: carries_plan_def)
      then show ?thesis
        using assms Inr Some ok by (intro rebound [of p]) (simp_all add: bind_resolved_def)
    qed
  qed
qed

lemma carried_plan_rebinds:
  assumes "carries_plan p m" and "plan_for_model pf env path m = Inr p"
  shows "bind_resolved pf env path m = (Inr (Some p), m)"
proof -
  have "rebind_check p p m = Inr p"
    using assms(1) rebind_check_iff by (simp add: carries_plan_def)
  then show ?thesis
    using assms by (simp add: bind_resolved_def carries_plan_def)
qed

lemma publish_plan_for_model:
  assumes "plan_for_model pf env path m = Inr p"
  shows "plan_for_model pf env path (publish_plan p m) = Inr p" and "carries_plan p (publish_plan p m)"
proof -
  have len: "length (sp_map_values p) = length (mm_layers m)"
    using plan_for_model_Inr [OF assms] by simp
  then show "carries_plan p (publish_plan p m)"
    by (rule publish_plan_carries)
  have "plan_for_model pf env path (publish_plan p m) = plan_for_model pf env path m"
    by (rule plan_for_model_cong) (simp_all add: publish_plan_def Let_def len)
  with assms show "plan_for_model pf env path (publish_plan p m) = Inr p"
    by simp
qed

lemma bind_resolved_again:
  assumes "bind_resolved pf env path m = (r, m')"
  shows "bind_resolved pf env path m' = (r, m')"
  using assms
proof (cases rule: bind_resolved_cases)
  case raised
  then show ?thesis using assms by simp
next
  case rebound
  then show ?thesis using assms by simp
next
  case bound
  then show ?thesis
    by (simp add: carried_plan_rebinds publish_plan_for_model)
qed

lemma bind_to_module_cases:
  assumes "bind_to_module pf env path g = (r, g')"
  obtains (raised) e where "resolve_static_eplb_owner g = Inl e" "r = Inl e" "g' = g"
    | (no_experts) "resolve_static_eplb_owner g = Inr NoExperts" "r = Inr None" "g' = g"
    | (itself) m m' where "resolve_static_eplb_owner g = Inr (Itself m)" "gm_self g = Some m"
        "bind_resolved pf env path m = (r, m')" "g' = g\<lparr>gm_self := Some m'\<rparr>"
    | (inner) m m' where "resolve_static_eplb_owner g = Inr (Inner m)" "gm_self g = None" "gm_text g = Some m"
        "bind_resolved pf env path m = (r, m')" "g' = g\<lparr>gm_text := Some m'\<rparr>"
proof (cases "resolve_static_eplb_owner g")
  case (Inl e)
  then show ?thesis
    using assms by (intro raised [of e]) (auto simp: bind_to_module_def)
next
  case (Inr d)
  show ?thesis
  proof (cases d)
    case (Itself m)
    then have "gm_self g = Some m"
      using Inr by (auto simp: resolve_static_eplb_owner_def split: option.splits if_splits)
    moreover obtain m' where "bind_resolved pf env path m = (r, m')" "g' = g\<lparr>gm_self := Some m'\<rparr>"
      using assms Inr Itself by (auto simp: bind_to_module_def split: prod.splits)
    ultimately show ?thesis
      using itself Inr Itself by blast
  next
    case (Inner m)
    then have "gm_self g = None" "gm_text g = Some m"
      using Inr by (auto simp: resolve_static_eplb_owner_def split: option.splits if_splits)
    moreover obtain m' where "bind_resolved pf env path m = (r, m')" "g' = g\<lparr>gm_text := Some m'\<rparr>"
      using assms Inr Inner by (auto simp: bind_to_module_def split: prod.splits)
    ultimately show ?thesis
      using inner Inr Inner by blast
  next
    case NoExperts
    then show ?thesis
      using assms Inr by (intro no_experts) (auto simp: bind_to_module_def)
  qed
qed

lemma resolve_updated:
  "resolve_static_eplb_owner (g\<lparr>gm_self := Some m\<rparr>) = Inr (Itself m)"
  "resolve_static_eplb_owner g = Inr (Inner m) \<Longrightarrow> resolve_static_eplb_owner (g\<lparr>gm_text := Some m'\<rparr>) = Inr (Inner m')"
  by (auto simp: resolve_static_eplb_owner_def is_dense_drafter_def split: option.splits if_splits)

definition experts_owner :: "given_module \<Rightarrow> moe_model option" where
  "experts_owner g = (case gm_self g of Some m \<Rightarrow> Some m | None \<Rightarrow> gm_text g)"

section \<open>Properties\<close>

text \<open>C39. An accepted plan is well typed: it has one row per layer, every row assigns each physical slot a
  logical expert in range and leaves no expert out, the counts add up, and it is a calibration
  proposal, for the requested model, with the resolved path and the digest of the bytes that were
  read there.\<close>

theorem accepted_plan_well_typed:
  assumes "load_static_eplb_plan pf path k key name (layers, physical) logical redundant True = Inr p"
  shows "\<exists>raw. pf_resolve pf path k = Inr (sp_source_path p) \<and> pf_read pf (sp_source_path p) k = Inr raw \<and> sp_source_sha256 p = pf_sha256 pf raw
    \<and> sp_model_key p = key \<and> Some (sp_model_name p) = name \<and> sp_record_kind p = ''proposal''
    \<and> sp_num_logical_experts p = logical \<and> physical = logical + redundant
    \<and> (\<forall>i. int i < layers \<longrightarrow> (\<exists>row. layer_map p i = Inr row \<and> int (length row) = physical \<and> set row = {0..<logical}))"
proof -
  obtain raw where raw: "pf_resolve pf path k = Inr (sp_source_path p)" "pf_read pf (sp_source_path p) k = Inr raw" and shape: "plan_shape p"
    and len: "int (length (sp_map_values p)) = layers" and rest: "sp_model_key p = key"
      "Some (sp_model_name p) = name" "sp_source_sha256 p = pf_sha256 pf raw" "sp_num_logical_experts p = logical"
      "sp_num_physical_experts p = physical" "sp_num_redundant_experts p = redundant" "sp_record_kind p = ''proposal''"
    using load_plan_Inr [OF assms] by auto
  have "\<exists>row. layer_map p i = Inr row \<and> int (length row) = physical \<and> set row = {0..<logical}"
    if "int i < layers" for i
    using that len shape rest by (auto simp: layer_map_def py_index_nth plan_shape_def)
  with raw rest shape show ?thesis
    by (auto simp: plan_shape_def)
qed

text \<open>A plan file for a model of one layer, two experts and one redundant slot.\<close>

definition sample_doc :: json where
  "sample_doc = JObj [(''version'', JInt 2), (''format'', JStr offline_eplb_format),
     (''model_maps'', JObj [(''M'', JObj [(''record_kind'', JStr ''proposal''), (''model_name'', JStr ''m''),
        (''model_class'', JStr ''M''), (''num_moe_layers'', JInt 1), (''num_logical_experts'', JInt 2),
        (''num_physical_experts'', JInt 3), (''num_redundant_experts'', JInt 1),
        (''physical_to_logical_map'', JArr [JArr [JInt 1, JInt 0, JInt 1]])])])]"

definition sample_file :: plan_file where
  "sample_file = \<lparr>pf_resolve = \<lambda>path _. if path = ''plan'' then Inr ''/plan'' else raise (OtherError ''FileNotFoundError'') path,
     pf_read = \<lambda>path _. if path = ''/plan'' then Inr ''raw'' else raise (OtherError ''FileNotFoundError'') path, pf_loads = \<lambda>_. Some sample_doc,
     pf_sha256 = \<lambda>_. replicate 64 CHR ''a''\<rparr>"

definition sample_plan :: static_eplb_plan where
  "sample_plan = \<lparr>sp_model_key = ''M'', sp_model_name = ''m'', sp_source_path = ''/plan'',
     sp_source_sha256 = replicate 64 CHR ''a'', sp_record_kind = ''proposal'', sp_map_values = [[1, 0, 1]],
     sp_num_logical_experts = 2, sp_num_physical_experts = 3, sp_num_redundant_experts = 1\<rparr>"

lemma sample_loads:
  "load_static_eplb_plan sample_file ''plan'' 0 ''M'' (Some ''m'') (1, 3) 2 1 True = Inr sample_plan"
  by code_simp

theorem accepted_plan_well_typed_witness:
  "sp_source_sha256 sample_plan = pf_sha256 sample_file ''raw''
    \<and> (\<exists>row. layer_map sample_plan 0 = Inr row \<and> int (length row) = 3 \<and> set row = {0..<2})"
  using accepted_plan_well_typed [OF sample_loads] by (auto simp: sample_file_def sample_plan_def)

text \<open>C38. Loading every checkpoint expert, in any order, through the wrapped loader of a layer bound to
  an accepted plan puts in every slot of this rank the weight of exactly the expert the plan puts
  there; fused shared experts go to the slots after the planned ones, and slots of other ranks are
  not touched.\<close>

theorem experts_loaded_everywhere:
  assumes "loader_contract orig slot here"
    and "load_static_eplb_plan pf path k key name (layers, physical) logical redundant True = Inr p"
    and "layer_map p i = Inr row"
    and "re = \<lparr>re_row = row, re_logical = logical, re_fused_shared = shared, re_global_sf = sf\<rparr>"
    and "loads_plainly re ndim wname" and "set es = {0..<logical + shared}" and "0 \<le> shared"
  shows "\<exists>t. load_experts re orig weight ndim wname es s = Some (Inr (), t)
    \<and> (\<forall>q. slot t q =
         (if \<not> here q then slot s q
          else if 0 \<le> q \<and> q < physical then Some (weight (row ! nat q))
          else if physical \<le> q \<and> q < physical + shared then Some (weight (logical + q - physical))
          else slot s q))"
proof -
  have shape: "plan_shape p" and counts: "sp_num_logical_experts p = logical" "sp_num_physical_experts p = physical"
    using load_plan_Inr [OF assms(2)] by auto
  have "row \<in> set (sp_map_values p)"
    using assms(3) by (auto simp: layer_map_def py_index_def split: if_splits)
  then have row: "int (length row) = physical" "set row = {0..<logical}" and lpos: "1 \<le> logical"
    using shape counts by (auto simp: plan_shape_def)
  have re: "set (re_row re) = {0..<re_logical re}" "set es \<subseteq> {0..<re_logical re + re_fused_shared re}"
    using row assms(4,6) by auto
  obtain t where run: "load_experts re orig weight ndim wname es s = Some (Inr (), t)"
    and put: "\<And>e q. e \<in> set es \<Longrightarrow> q \<in> slots_of re e \<Longrightarrow> here q \<Longrightarrow> slot t q = Some (weight e)"
    and kept: "\<And>q. \<not> here q \<or> (\<forall>e \<in> set es. q \<notin> slots_of re e) \<Longrightarrow> slot t q = slot s q"
    using load_experts_run [OF assms(1) re assms(5), of weight s] by blast
  have planned: "slot t q = Some (weight (row ! nat q))" if "here q" "0 \<le> q" "q < physical" for q
  proof -
    have "row ! nat q \<in> set row"
      using that row(1) by (intro nth_mem) linarith
    then have "0 \<le> row ! nat q" "row ! nat q < logical"
      using row(2) by auto
    then have "row ! nat q \<in> set es" "q \<in> slots_of re (row ! nat q)"
      using assms(4,6,7) that row(1) by (auto simp: slots_of_def)
    then show ?thesis
      using put that(1) by blast
  qed
  have tail: "slot t q = Some (weight (logical + q - physical))"
    if "here q" "physical \<le> q" "q < physical + shared" for q
    using put [of "logical + q - physical" q] that assms(4,6) row(1) lpos by (auto simp: slots_of_def)
  have out: "slot t q = slot s q" if "\<not> (0 \<le> q \<and> q < physical + shared)" for q
    using kept [of q] that assms(4,6,7) row(1) by (auto simp: slots_of_def)
  have off: "slot t q = slot s q" if "\<not> here q" for q
    using kept that by blast
  show ?thesis
    using run planned tail out off by (intro exI [of _ t]) auto
qed

text \<open>A loader over a table of slots, of which this rank holds the even ones.\<close>

definition table_loader :: "string \<Rightarrow> (int \<Rightarrow> string option) expert_loader" where
  "table_loader w p rs s =
     Some (Inr (if rs then Some (even p) else None), if even p then s(p := Some w) else s)"

lemma table_loader_contract: "loader_contract table_loader id even"
  by (auto simp: loader_contract_def table_loader_def)

theorem experts_loaded_everywhere_witness:
  "\<exists>t. load_experts \<lparr>re_row = [1, 0, 1], re_logical = 2, re_fused_shared = 0, re_global_sf = False\<rparr>
      table_loader str_int 2 ''w'' [0, 1] (\<lambda>_. None) = Some (Inr (), t)
    \<and> t 0 = Some (str_int 1) \<and> t 1 = None \<and> t 2 = Some (str_int 1)"
proof -
  have "layer_map sample_plan 0 = Inr [1, 0, 1]"
    by code_simp
  moreover have "set [0, 1] = {0..<2 + 0 :: int}"
    by force
  ultimately show ?thesis
    using experts_loaded_everywhere [OF table_loader_contract sample_loads, of 0 "[1, 0, 1]"
        "\<lparr>re_row = [1, 0, 1], re_logical = 2, re_fused_shared = 0, re_global_sf = False\<rparr>" 0 False 2 "''w''" "[0, 1]"
        str_int "\<lambda>_. None"]
    by (force simp: loads_plainly_def)
qed

definition bound_from :: "plan_file \<Rightarrow> string \<Rightarrow> static_eplb_plan \<Rightarrow> moe_model \<Rightarrow> moe_model \<Rightarrow> bool" where
  "bound_from pf path p m m' \<longleftrightarrow> plan_shape p \<and> read_from pf path p \<and> carries_plan p m'
     \<and> (if mo_plan (mm_owner m) = None then loaders_wrapped m' else m' = m)"

lemma bind_resolved_outcome:
  assumes b: "bind_resolved pf env path m = (r, m')"
  shows "bind_resolved pf env path m' = (r, m')
    \<and> (case r of Inl _ \<Rightarrow> m' = m | Inr None \<Rightarrow> False | Inr (Some p) \<Rightarrow> bound_from pf path p m m')"
  using b
proof (cases rule: bind_resolved_cases)
  case raised
  then show ?thesis using b by simp
next
  case (rebound p)
  then show ?thesis
    using b plan_for_model_Inr by (auto simp: bound_from_def carries_plan_def)
next
  case (bound p)
  then show ?thesis
    using bind_resolved_again [OF b] plan_for_model_Inr [OF bound(3)] publish_plan_for_model [OF bound(3)]
      publish_plan_carries(2) by (simp add: bound_from_def)
qed

text \<open>Binding a plan is all or nothing: a binding that raises or has no plan leaves the module as it
  was; one that succeeds has put the plan's row on every layer and wrapped every expert loader of a
  model that had no plan, and left a model that had one alone; the plan is that of the file.  Binding
  again with the same file gives the same outcome and changes nothing.\<close>

lemma bind_all_or_nothing:
  assumes "bind_to_module pf env path g = (r, g')"
  shows "bind_to_module pf env path g' = (r, g')"
    and "case r of
         Inl _ \<Rightarrow> g' = g
       | Inr None \<Rightarrow> g' = g \<and> resolve_static_eplb_owner g = Inr NoExperts
       | Inr (Some p) \<Rightarrow> (\<exists>m m'. experts_owner g = Some m \<and> experts_owner g' = Some m' \<and> bound_from pf path p m m')"
proof -
  have "bind_to_module pf env path g' = (r, g') \<and> (case r of
         Inl _ \<Rightarrow> g' = g
       | Inr None \<Rightarrow> g' = g \<and> resolve_static_eplb_owner g = Inr NoExperts
       | Inr (Some p) \<Rightarrow> (\<exists>m m'. experts_owner g = Some m \<and> experts_owner g' = Some m' \<and> bound_from pf path p m m'))"
    using assms
  proof (cases rule: bind_to_module_cases)
    case (itself m m')
    have "experts_owner g = Some m" "experts_owner g' = Some m'" "m' = m \<Longrightarrow> g' = g"
      using itself by (simp_all add: experts_owner_def)
    then show ?thesis
      using bind_resolved_outcome [OF itself(3)] itself(4)
      by (auto simp: bind_to_module_def resolve_updated split: sum.splits option.splits)
  next
    case (inner m m')
    have "experts_owner g = Some m" "experts_owner g' = Some m'" "m' = m \<Longrightarrow> g' = g"
      using inner by (simp_all add: experts_owner_def)
    then show ?thesis
      using bind_resolved_outcome [OF inner(4)] inner(5)
      by (auto simp: bind_to_module_def resolve_updated(2) [OF inner(1)] split: sum.splits option.splits)
  qed (use assms in simp_all)
  then show "bind_to_module pf env path g' = (r, g')" and "case r of
         Inl _ \<Rightarrow> g' = g
       | Inr None \<Rightarrow> g' = g \<and> resolve_static_eplb_owner g = Inr NoExperts
       | Inr (Some p) \<Rightarrow> (\<exists>m m'. experts_owner g = Some m \<and> experts_owner g' = Some m' \<and> bound_from pf path p m m')"
    by simp_all
qed

text \<open>A plan that loads and passes the checks of its layers and of the other ranks is bound.\<close>

definition plan_passes :: "plan_file \<Rightarrow> eplb_env \<Rightarrow> string \<Rightarrow> moe_model \<Rightarrow> static_eplb_plan \<Rightarrow> bool" where
  "plan_passes pf env path m p \<longleftrightarrow> plan_for_model pf env path m = Inr p \<and> mo_plan (mm_owner m) = None
     \<and> list_all (\<lambda>l. check_layer p l = Inr ()) (mm_layers m) \<and> verify_static_plan_across_ep_ranks (ee_ranks env) p = Inr ()"

lemma passing_plan_bound:
  assumes "resolve_static_eplb_owner g = Inr (Itself m) \<or> resolve_static_eplb_owner g = Inr (Inner m)" and "plan_passes pf env path m p"
  shows "fst (bind_to_module pf env path g) = Inr (Some p)"
proof -
  have "map_result (check_layer p) ls = Inr (map (\<lambda>_. ()) ls)" if "list_all (\<lambda>l. check_layer p l = Inr ()) ls" for ls
    using that by (induction ls) simp_all
  then have "bind_resolved pf env path m = (Inr (Some p), publish_plan p m)"
    using assms(2) by (simp add: plan_passes_def bind_resolved_def)
  then show ?thesis
    using assms(1) by (auto simp: bind_to_module_def)
qed

section \<open>The configured path\<close>

lemma sidecar_is_text:
  assumes "bind_hcu_eplb_config vc w = Some (Inr vc', w')"
  shows "get_attr (get_attr vc' ''parallel_config'') ''_vllm_hcu_expert_map_path'' \<in> insert VNone (range VStr)"
proof -
  have set_path: "get_attr (VObj cls rep (put_values (eplb_sidecar_values c) d)) ''_vllm_hcu_expert_map_path'' \<in> insert VNone (range VStr)" for c cls rep d
    by (simp add: get_attr_def attrs_of_def field_or_def put_values_def eplb_sidecar_values_def val_of_str_option_def split: option.splits)
  have none: "get_attr VNone name = VNone" "get_attr (VMap mutable d) name = VNone" "get_attr (VConf c) name = VNone" for name mutable d c
    by (simp_all add: get_attr_def attrs_of_def field_or_def)
  show ?thesis
  proof (cases "parallel_of vc = VNone")
    case True
    then have "vc' = vc"
      using assms by (simp add: bind_hcu_eplb_config_def ret_run)
    then have "get_attr vc' ''parallel_config'' = VNone"
      using True by (cases vc) (simp_all add: parallel_of_def get_attr_def attrs_of_def field_or_def)
    then show ?thesis
      by (simp add: none)
  next
    case False
    obtain c p where p: "set_on_parallel (parallel_of vc) (eplb_sidecar_values c) = Inr p" and vc': "vc' = replace_parallel vc p"
      using assms False by (auto simp: bind_hcu_eplb_config_def bind_op_def lift_result_run ret_run split: option.splits sum.splits)
    have "get_attr p ''_vllm_hcu_expert_map_path'' \<in> insert VNone (range VStr)"
      using p set_path none(2) by (cases "parallel_of vc") (auto simp: set_on_parallel_def split: if_splits bool.splits)
    moreover have "get_attr vc' ''parallel_config'' = p \<or> get_attr vc' ''parallel_config'' = VNone"
      using False by (cases vc) (simp_all add: vc' replace_parallel_def parallel_of_def get_attr_def attrs_of_def field_or_def)
    ultimately show ?thesis
      using none(1) by auto
  qed
qed

lemma configured_sidecar:
  assumes "vc = VObj cls r d" and "parallel_of vc = VObj pcls pr pd" and "get_hcu_config vc w = Some (Inr c, w')"
  shows "\<exists>vc'. bind_hcu_eplb_config vc w = Some (Inr vc', w') \<and> sidecar_path vc' = (if expert_map_path c = Some [] then None else expert_map_path c)"
proof -
  have path: "dict_get (put_values (eplb_sidecar_values c) pd) ''_vllm_hcu_expert_map_path'' = Some (val_of_str_option (expert_map_path c))"
    by (simp add: put_values_def eplb_sidecar_values_def)
  show ?thesis
    using assms path by (cases "expert_map_path c") (auto simp: bind_hcu_eplb_config_def bind_op_def lift_result_run ret_run set_on_parallel_def
        replace_parallel_def parallel_of_def attrs_of_def field_or_def sidecar_path_def get_attr_def val_of_str_option_def)
qed

section \<open>A sample module\<close>

text \<open>A module of one layer that the sample plan fits.\<close>

definition sample_module :: given_module where
  "sample_module =
     \<lparr>gm_class = ''M'',
      gm_self = Some \<lparr>mm_class = ''M'',
         mm_layers = [\<lparr>ml_is_routed = True, ml_quant_name = ''Q'', ml_supports_eplb = True, ml_logical = 2,
           ml_experts = 3, ml_fused_shared = 0, ml_row = None,
           ml_params = [\<lparr>mp_name = ''w13'', mp_is_expert_weight = True, mp_loader_owned = True, mp_wrapped = False\<rparr>],
           ml_static_mapping = False\<rparr>],
         mm_num_moe_layers = 1, mm_num_logical = 2, mm_num_physical = 3, mm_num_redundant = 1,
         mm_owner = \<lparr>mo_plan = None, mo_has_mapping = True, mo_limit = None\<rparr>, mm_inner = []\<rparr>,
      gm_is_step5_mtp = False, gm_is_dense_mtp = False, gm_num_moe_layers = None, gm_has_moe_layers = True,
      gm_counts = [], gm_is_step5_vl = False, gm_text = None\<rparr>"

definition sample_env :: eplb_env where
  "sample_env = \<lparr>ee_enable_eplb = True, ee_enable_expert_parallel = True,
     ee_weight_filter = False, ee_pipeline_size = 1, ee_model_name = Some ''m'', ee_layer_types = None,
     ee_ranks = Some [fingerprint_of sample_plan]\<rparr>"

lemma sample_binds: "fst (bind_to_module sample_file sample_env ''plan'' sample_module) = Inr (Some sample_plan)"
  by code_simp

end
