(* ===== verification/Feature_Config_Correct.thy ===== *)
theory Feature_Config_Correct
  imports Feature_Config
begin

text \<open>
  Correctness of the feature configuration: what is accepted is valid, what is stored is read back and
  nothing else is changed, and the deprecation warning is issued once.
\<close>

section \<open>Runs of operations\<close>

lemma bind_Inr_iff: "bind_op m k s = Some (Inr y, u) \<longleftrightarrow> (\<exists>x t. m s = Some (Inr x, t) \<and> k x t = Some (Inr y, u))"
  by (auto simp: bind_op_def split: option.splits sum.splits)

lemma lift_Inr_iff: "lift_result r s = Some (Inr x, t) \<longleftrightarrow> r = Inr x \<and> t = s"
  by (auto simp: lift_result_run)

lemma ret_Inr_iff: "ret v s = Some (Inr x, t) \<longleftrightarrow> x = v \<and> t = s"
  by (auto simp: ret_run)

lemma throw_Inr_iff: "throw e s = Some (Inr x, t) \<longleftrightarrow> False"
  by (simp add: throw_run)

lemmas run_iffs = bind_Inr_iff lift_Inr_iff ret_Inr_iff throw_Inr_iff

lemma bind_lift_Inr: "r = Inr x \<Longrightarrow> bind_op (lift_result r) k s = k x s"
  by (simp add: bind_op_def lift_result_run)

section \<open>Valid configurations\<close>

definition path_ok :: "string option \<Rightarrow> bool" where
  "path_ok p \<longleftrightarrow> (case p of None \<Rightarrow> True | Some s \<Rightarrow> py_strip s \<noteq> [])"

definition conf_ok :: "hcu_feature_config \<Rightarrow> bool" where
  "conf_ok c \<longleftrightarrow>
     moe_backend c \<in> set supported_moe_backends
     \<and> set_option (hcu_flash_attn_mode c) \<subseteq> set supported_flash_attn_modes
     \<and> set_option (hcu_gdn_prefill_backend c) \<subseteq> set hcu_gdn_prefill_backends
     \<and> (enable_lightly_cplb c \<longrightarrow> enable_lightly_cp c)
     \<and> path_ok (expert_map_path c) \<and> path_ok (expert_map_record_path c)
     \<and> (expert_map_path c = None \<or> expert_map_record_path c = None)
     \<and> eplb_static_dispatch_policy c \<in> set supported_eplb_static_dispatch_policies"

lemma flash_field_ok: "flash_field args = Inr x \<Longrightarrow> set_option x \<subseteq> set supported_flash_attn_modes"
  by (auto simp: flash_field_def split: pyval.splits if_splits)

lemma gdn_field_ok: "gdn_field args = Inr x \<Longrightarrow> set_option x \<subseteq> set hcu_gdn_prefill_backends"
  by (auto simp: gdn_field_def split: pyval.splits if_splits)

lemma path_field_ok: "path_field args name = Inr x \<Longrightarrow> path_ok x"
  by (auto simp: path_field_def path_ok_def split: pyval.splits if_splits)

lemma make_config_ok: "make_config args w = Some (Inr c, w') \<Longrightarrow> conf_ok c"
  unfolding make_config_def
  by (auto simp: run_iffs and_then_Inr_iff conf_ok_def split: if_splits
      dest: flash_field_ok [THEN subsetD] gdn_field_ok [THEN subsetD] path_field_ok)

section \<open>Dictionaries of configurations\<close>

lemma to_dict_fields:
  "field_or (to_dict c) ''enable_lightly_cp'' d = VBool (enable_lightly_cp c)"
  "field_or (to_dict c) ''enable_lightly_cplb'' d = VBool (enable_lightly_cplb c)"
  "field_or (to_dict c) ''enable_custom_sp'' d = VBool (enable_custom_sp c)"
  "field_or (to_dict c) ''enable_multi_layers_mtp'' d = VBool (enable_multi_layers_mtp c)"
  "field_or (to_dict c) ''enable_dsa_cache_layer_split'' d = VBool (enable_dsa_cache_layer_split c)"
  "field_or (to_dict c) ''deepep_auto'' d = VBool (deepep_auto c)"
  "field_or (to_dict c) ''fused_qwen3_rms_rope'' d = VBool (fused_qwen3_rms_rope c)"
  "field_or (to_dict c) ''qwen4_exp_hc_sp'' d = VBool (qwen4_exp_hc_sp c)"
  "field_or (to_dict c) ''k3_sp_moe'' d = VBool (k3_sp_moe c)"
  "field_or (to_dict c) ''glm53_kda_cp_head_shard'' d = val_of_bool_option (glm53_kda_cp_head_shard c)"
  "field_or (to_dict c) ''glm53_pcp_mtp_sync'' d = val_of_bool_option (glm53_pcp_mtp_sync c)"
  "field_or (to_dict c) ''dp_int8_allgather'' d = VBool (dp_int8_allgather c)"
  "field_or (to_dict c) ''moe_backend'' d = VStr (moe_backend c)"
  "field_or (to_dict c) ''hcu_flash_attn_mode'' d = val_of_str_option (hcu_flash_attn_mode c)"
  "field_or (to_dict c) ''hcu_gdn_prefill_backend'' d = val_of_str_option (hcu_gdn_prefill_backend c)"
  "field_or (to_dict c) ''expert_map_path'' d = val_of_str_option (expert_map_path c)"
  "field_or (to_dict c) ''expert_map_record_path'' d = val_of_str_option (expert_map_record_path c)"
  "field_or (to_dict c) ''eplb_disable_rearrange'' d = VBool (eplb_disable_rearrange c)"
  "field_or (to_dict c) ''eplb_static_dispatch_policy'' d = VStr (eplb_static_dispatch_policy c)"
  by (simp_all add: field_or_def to_dict_def feature_fields_def)

lemma to_dict_known: "unknown_fields (to_dict c) = []"
proof -
  have "dict_keys (to_dict c) = feature_fields"
    by (simp add: to_dict_def feature_fields_def)
  then show ?thesis
    by (simp add: unknown_fields_def)
qed

lemma option_fields:
  "(case val_of_bool_option x of VNone \<Rightarrow> Inr None | VBool b \<Rightarrow> Inr (Some b) | _ \<Rightarrow> e) = Inr x"
  by (cases x) (simp_all add: val_of_bool_option_def)

lemma make_config_to_dict:
  assumes "conf_ok c"
  shows "make_config (to_dict c) w = Some (Inr c, w)"
proof -
  let ?d = "to_dict c"
  have flags: "bool_or_none_field ?d ''glm53_kda_cp_head_shard'' = Inr (glm53_kda_cp_head_shard c)"
    "bool_or_none_field ?d ''glm53_pcp_mtp_sync'' = Inr (glm53_pcp_mtp_sync c)"
    by (simp_all add: bool_or_none_field_def to_dict_fields option_fields)
  have bools: "bool_field ?d ''enable_lightly_cp'' b = Inr (enable_lightly_cp c)"
    "bool_field ?d ''enable_lightly_cplb'' b = Inr (enable_lightly_cplb c)"
    "bool_field ?d ''enable_custom_sp'' b = Inr (enable_custom_sp c)"
    "bool_field ?d ''enable_multi_layers_mtp'' b = Inr (enable_multi_layers_mtp c)"
    "bool_field ?d ''enable_dsa_cache_layer_split'' b = Inr (enable_dsa_cache_layer_split c)"
    "bool_field ?d ''deepep_auto'' b = Inr (deepep_auto c)"
    "bool_field ?d ''fused_qwen3_rms_rope'' b = Inr (fused_qwen3_rms_rope c)"
    "bool_field ?d ''qwen4_exp_hc_sp'' b = Inr (qwen4_exp_hc_sp c)"
    "bool_field ?d ''k3_sp_moe'' b = Inr (k3_sp_moe c)"
    "bool_field ?d ''dp_int8_allgather'' b = Inr (dp_int8_allgather c)"
    "bool_field ?d ''eplb_disable_rearrange'' b = Inr (eplb_disable_rearrange c)" for b
    by (simp_all add: bool_field_def to_dict_fields)
  have strs: "str_field ?d ''moe_backend'' s = Inr (moe_backend c)"
    "str_field ?d ''eplb_static_dispatch_policy'' s = Inr (eplb_static_dispatch_policy c)" for s
    by (simp_all add: str_field_def to_dict_fields)
  have opts: "flash_field ?d = Inr (hcu_flash_attn_mode c)" "gdn_field ?d = Inr (hcu_gdn_prefill_backend c)"
    "path_field ?d ''expert_map_path'' = Inr (expert_map_path c)"
    "path_field ?d ''expert_map_record_path'' = Inr (expert_map_record_path c)"
    using assms
    by (auto simp: flash_field_def gdn_field_def path_field_def to_dict_fields val_of_str_option_def conf_ok_def path_ok_def
        split: option.splits)
  have "moe_backend c \<noteq> legacy_deep_gemm_backend"
    using assms by (auto simp: conf_ok_def supported_moe_backends_def legacy_deep_gemm_backend_def)
  then have backend: "normalize_hcu_moe_backend (moe_backend c) = ret (moe_backend c)"
    by (simp add: normalize_hcu_moe_backend_def)
  show ?thesis
    unfolding make_config_def flags bools strs opts
    using assms by (auto simp: bind_op_def lift_result_run backend ret_run conf_ok_def)
qed

lemma from_dict: "conf_ok c \<Longrightarrow> from_mapping (VMap mutable (to_dict c)) w = Some (Inr c, w)"
  by (simp add: from_mapping_def to_dict_known make_config_to_dict)

section \<open>Validity of results\<close>

fun confs_ok :: "pyval \<Rightarrow> bool" where
  "confs_ok (VMap mutable d) \<longleftrightarrow> (\<forall>kv \<in> set d. confs_ok (snd kv))"
| "confs_ok (VObj cls r d) \<longleftrightarrow> (\<forall>kv \<in> set d. confs_ok (snd kv))"
| "confs_ok (VConf c) \<longleftrightarrow> conf_ok c"
| "confs_ok v \<longleftrightarrow> True"

lemma confs_ok_field: "\<forall>kv \<in> set d. confs_ok (snd kv) \<Longrightarrow> confs_ok dflt \<Longrightarrow> confs_ok (field_or d name dflt)"
  by (force simp: field_or_def split: option.splits dest: map_of_SomeD)

lemma from_mapping_ok: "from_mapping v w = Some (Inr c, w') \<Longrightarrow> conf_ok c"
  by (auto simp: from_mapping_def run_iffs split: pyval.splits if_splits intro: make_config_ok)

lemma payload_ok: "config_from_payload v w = Some (Inr c, w') \<Longrightarrow> confs_ok v \<Longrightarrow> conf_ok c"
  by (auto simp: config_from_payload_def run_iffs Let_def split: pyval.splits if_splits
      intro: make_config_ok from_mapping_ok)

lemma hcu_of_additional_ok: "hcu_of_additional a = Inr v \<Longrightarrow> confs_ok a \<Longrightarrow> confs_ok v"
  by (auto simp: hcu_of_additional_def split: pyval.splits intro!: confs_ok_field)

lemma read_additional_ok:
  assumes "read_additional_config vc = Inr v" and "confs_ok vc"
  shows "confs_ok v"
proof (cases vc)
  case (VMap mutable d)
  have "confs_ok (field_or d name VNone)" for name
    using assms(2) by (intro confs_ok_field) (simp_all add: VMap)
  then show ?thesis
    using assms by (auto simp: read_additional_config_def VMap split: if_splits dest: hcu_of_additional_ok)
next
  case (VObj cls r d)
  have "confs_ok x" if "dict_get d k = Some x" for k x
    using assms(2) that by (force simp: VObj dest: map_of_SomeD)
  then show ?thesis
    using assms by (auto simp: read_additional_config_def VObj attrs_of_def split: option.splits dest: hcu_of_additional_ok)
qed (use assms in \<open>auto simp: read_additional_config_def attrs_of_def\<close>)

lemma get_ok: "get_hcu_config vc w = Some (Inr c, w') \<Longrightarrow> confs_ok vc \<Longrightarrow> conf_ok c"
  by (auto simp: get_hcu_config_def run_iffs dest: read_additional_ok payload_ok)

lemma normalized_ok: "normalized_config v w = Some (Inr c, w') \<Longrightarrow> confs_ok v \<Longrightarrow> conf_ok c"
  by (auto simp: normalized_config_def run_iffs split: pyval.splits dest: from_mapping_ok)

lemma updates_ok: "with_updates c ups w = Some (Inr c', w') \<Longrightarrow> conf_ok c'"
  by (auto simp: with_updates_def run_iffs split: if_splits dest: make_config_ok)

section \<open>Storing\<close>

definition items :: "pyval \<Rightarrow> attrs" where
  "items v = (case v of VMap mutable d \<Rightarrow> d | VObj cls r d \<Rightarrow> d | _ \<Rightarrow> [])"

definition additional_items :: "pyval \<Rightarrow> attrs" where
  "additional_items v = (case dict_get (items v) ''additional_config'' of Some (VMap mutable d) \<Rightarrow> d | _ \<Rightarrow> [])"

text \<open>Everything but the stored entry is as before.\<close>

definition rest_kept :: "pyval \<Rightarrow> pyval \<Rightarrow> bool" where
  "rest_kept v v' \<longleftrightarrow>
     (\<forall>k. k \<noteq> ''hcu'' \<and> k \<noteq> ''additional_config'' \<longrightarrow> dict_get (items v') k = dict_get (items v) k)
     \<and> (\<forall>k. k \<noteq> ''hcu'' \<longrightarrow> dict_get (additional_items v') k = dict_get (additional_items v) k)"

lemma feature_names: "''hcu'' \<notin> set feature_fields" "''additional_config'' \<notin> set feature_fields"
  by (simp_all add: feature_fields_def)

lemma in_keys_iff: "k \<in> set (dict_keys d) \<longleftrightarrow> dict_get d k \<noteq> None"
  by (simp add: dict_get_None_iff)

lemma stored_dict_read:
  assumes "conf_ok c"
  shows "get_hcu_config (VMap mutable (store_hcu c a d)) w = Some (Inr c, w)"
    and "get_hcu_config (VObj cls r (store_hcu c a d)) w = Some (Inr c, w)"
    and "''additional_config'' \<notin> set (dict_keys d) \<Longrightarrow>
       get_hcu_config (VMap mutable (dict_set ''hcu'' (VMap True (to_dict c)) d)) w = Some (Inr c, w)"
proof -
  let ?h = "VMap True (to_dict c)"
  have payload: "config_from_payload ?h w = Some (Inr c, w)"
    using from_dict [OF assms] by (simp add: config_from_payload_def)
  have stored: "field_or (store_hcu c a d) ''additional_config'' VNone = VMap True (dict_set ''hcu'' ?h a)"
    "dict_get (store_hcu c a d) ''additional_config'' = Some (VMap True (dict_set ''hcu'' ?h a))"
    by (simp_all add: store_hcu_def field_or_def)
  have key: "''additional_config'' \<in> set (dict_keys (store_hcu c a d))"
    unfolding in_keys_iff stored by simp
  have hcu: "hcu_of_additional (VMap True (dict_set ''hcu'' ?h a)) = Inr ?h"
    by (simp add: hcu_of_additional_def field_or_def)
  have "read_additional_config (VMap mutable (store_hcu c a d)) = Inr ?h"
    using key feature_names by (auto simp: read_additional_config_def stored hcu)
  then show "get_hcu_config (VMap mutable (store_hcu c a d)) w = Some (Inr c, w)"
    by (simp add: get_hcu_config_def bind_lift_Inr payload)
  have "read_additional_config (VObj cls r (store_hcu c a d)) = Inr ?h"
    by (simp add: read_additional_config_def attrs_of_def stored hcu)
  then show "get_hcu_config (VObj cls r (store_hcu c a d)) w = Some (Inr c, w)"
    by (simp add: get_hcu_config_def bind_lift_Inr payload)
  assume no: "''additional_config'' \<notin> set (dict_keys d)"
  let ?d = "dict_set ''hcu'' ?h d"
  have "''hcu'' \<in> set (dict_keys ?d)" "''additional_config'' \<notin> set (dict_keys ?d)" "field_or ?d ''hcu'' VNone = ?h"
    using no by (simp_all add: dom_update field_or_def)
  then have "read_additional_config (VMap mutable ?d) = Inr ?h"
    by (simp add: read_additional_config_def)
  then show "get_hcu_config (VMap mutable ?d) w = Some (Inr c, w)"
    by (simp add: get_hcu_config_def bind_lift_Inr payload)
qed

lemma store_rest:
  assumes "own_additional (field_or d ''additional_config'' VNone) place = Inr a"
  shows "rest_kept (VMap mutable d) (VMap mutable' (store_hcu c a d))"
    and "rest_kept (VObj cls r d) (VObj cls r (store_hcu c a d))"
  using assms
  by (auto simp: rest_kept_def items_def additional_items_def store_hcu_def own_additional_def field_or_def
      split: pyval.splits option.splits)

lemma place_hcu_read:
  assumes "place_hcu vc c = Inr vc'" and "conf_ok c"
  shows "get_hcu_config vc' w = Some (Inr c, w) \<and> rest_kept vc vc'"
proof (cases vc)
  case (VMap mutable d)
  have mut: "mutable"
    using assms(1) by (cases mutable) (auto simp: place_hcu_def VMap attrs_of_def)
  show ?thesis
  proof (cases "''hcu'' \<in> set (dict_keys d) \<and> ''additional_config'' \<notin> set (dict_keys d)")
    case True
    then have "vc' = VMap True (dict_set ''hcu'' (VMap True (to_dict c)) d)"
      using assms(1) mut by (simp add: place_hcu_def VMap)
    moreover have "dict_get d ''additional_config'' = None"
      using True in_keys_iff by metis
    ultimately show ?thesis
      using stored_dict_read(3) [OF assms(2)] True
      by (simp add: rest_kept_def items_def additional_items_def VMap)
  next
    case False
    then obtain a place where "own_additional (field_or d ''additional_config'' VNone) place = Inr a"
      "vc' = VMap True (store_hcu c a d)"
      using assms(1) mut by (auto simp: place_hcu_def VMap and_then_Inr_iff split: if_splits)
    then show ?thesis
      using stored_dict_read(1) [OF assms(2)] store_rest(1) by (simp add: VMap)
  qed
next
  case (VObj cls r d)
  then obtain v a where v: "dict_get d ''additional_config'' = Some v" "own_additional v ''vllm_config.additional_config'' = Inr a"
    "vc' = VObj cls r (store_hcu c a d)"
    using assms(1) by (auto simp: place_hcu_def attrs_of_def and_then_Inr_iff split: option.splits)
  then have "own_additional (field_or d ''additional_config'' VNone) ''vllm_config.additional_config'' = Inr a"
    by (simp add: field_or_def)
  then show ?thesis
    using stored_dict_read(2) [OF assms(2)] store_rest(2) v(3) by (simp add: VObj)
qed (use assms in \<open>auto simp: place_hcu_def attrs_of_def\<close>)

section \<open>The warning\<close>

definition warn_step :: "warn_state \<Rightarrow> warn_state \<Rightarrow> bool" where
  "warn_step w w' \<longleftrightarrow> w' = w \<or> (\<not> legacy_backend_warning_emitted w \<and> legacy_backend_warning_emitted w'
     \<and> warnings_issued w' = warnings_issued w @ [legacy_warning])"

interpretation warning: state_preorder warn_step
  by unfold_locales (auto simp: warn_step_def)

lemma normalize_warns [keeps_intros]: "op_keeps warn_step (normalize_hcu_moe_backend v)"
  unfolding normalize_hcu_moe_backend_def
  by (intro keeps_intros warning.keeps_modify) (auto simp: warn_step_def)

lemma keeps_case_pyval:
  assumes "v = VNone \<Longrightarrow> op_keeps R a" "\<And>x. v = VBool x \<Longrightarrow> op_keeps R (b x)" "\<And>x. v = VInt x \<Longrightarrow> op_keeps R (i x)"
    "\<And>x. v = VStr x \<Longrightarrow> op_keeps R (s x)" "\<And>x d. v = VMap x d \<Longrightarrow> op_keeps R (m x d)"
    "\<And>x y d. v = VObj x y d \<Longrightarrow> op_keeps R (obj x y d)" "\<And>x. v = VConf x \<Longrightarrow> op_keeps R (c x)"
    "\<And>x y. v = VOther x y \<Longrightarrow> op_keeps R (t x y)"
  shows "op_keeps R (case v of VNone \<Rightarrow> a | VBool x \<Rightarrow> b x | VInt x \<Rightarrow> i x | VStr x \<Rightarrow> s x | VMap x d \<Rightarrow> m x d
    | VObj x y d \<Rightarrow> obj x y d | VConf x \<Rightarrow> c x | VOther x y \<Rightarrow> t x y)"
  using assms by (cases v) simp_all

lemma make_config_warns [keeps_intros]: "op_keeps warn_step (make_config args)"
  unfolding make_config_def by (intro keeps_intros)

lemma from_mapping_warns [keeps_intros]: "op_keeps warn_step (from_mapping v)"
  unfolding from_mapping_def by (intro keeps_case_pyval keeps_intros)

lemma payload_warns [keeps_intros]: "op_keeps warn_step (config_from_payload v)"
  unfolding config_from_payload_def Let_def by (intro keeps_case_pyval keeps_intros)

lemma get_warns [keeps_intros]: "op_keeps warn_step (get_hcu_config vc)"
  unfolding get_hcu_config_def by (intro keeps_intros)

lemma normalized_warns [keeps_intros]: "op_keeps warn_step (normalized_config v)"
  unfolding normalized_config_def by (intro keeps_case_pyval keeps_intros)

lemma updates_warns [keeps_intros]: "op_keeps warn_step (with_updates c ups)"
  unfolding with_updates_def by (intro keeps_intros)

lemma set_warns: "op_keeps warn_step (set_hcu_config vc config ups)"
  unfolding set_hcu_config_def by (intro keeps_intros)

lemma write_warns: "op_keeps warn_step (write_hcu_config additional config)"
  unfolding write_hcu_config_def by (auto split: pyval.splits bool.splits intro!: keeps_intros)

lemma bind_warns: "op_keeps warn_step (bind_hcu_eplb_config vc)"
  unfolding bind_hcu_eplb_config_def by (intro keeps_intros)

lemma pop_warns:
  assumes "fst (pop_hcu_feature_kwargs kwargs base w) = Some (r, w')"
  shows "warn_step w w'"
proof -
  let ?first = "if base = VNone then make_config [] else normalized_config base"
  have first: "op_keeps warn_step ?first"
    by (intro keeps_intros)
  show ?thesis
  proof (cases "?first w")
    case None
    then show ?thesis using assms by (simp add: pop_hcu_feature_kwargs_def)
  next
    case (Some p)
    obtain v u where p: "p = (v, u)" by (cases p)
    have step: "warn_step w u"
      using first Some p by (auto dest: op_keepsD)
    show ?thesis
    proof (cases v)
      case (Inl e)
      then show ?thesis using assms Some p step by (simp add: pop_hcu_feature_kwargs_def)
    next
      case (Inr c)
      have "op_keeps warn_step (if popped kwargs = [] then ret c else with_updates c (popped kwargs))"
        by (intro keeps_intros)
      moreover have "(if popped kwargs = [] then ret c else with_updates c (popped kwargs)) u = Some (r, w')"
        using assms Some p Inr by (simp add: pop_hcu_feature_kwargs_def)
      ultimately show ?thesis
        using step warning.trans_R by (blast dest: op_keepsD)
    qed
  qed
qed

text \<open>The states of the module over any sequence of calls, whether they return or raise.\<close>

inductive config_reach :: "warn_state \<Rightarrow> bool" where
  loaded: "config_reach \<lparr>legacy_backend_warning_emitted = False, warnings_issued = []\<rparr>"
| got: "config_reach w \<Longrightarrow> get_hcu_config vc w = Some (r, w') \<Longrightarrow> config_reach w'"
| stored: "config_reach w \<Longrightarrow> set_hcu_config vc config ups w = Some (q, w') \<Longrightarrow> config_reach w'"
| written: "config_reach w \<Longrightarrow> write_hcu_config additional config w = Some (q, w') \<Longrightarrow> config_reach w'"
| bound: "config_reach w \<Longrightarrow> bind_hcu_eplb_config vc w = Some (v, w') \<Longrightarrow> config_reach w'"
| taken: "config_reach w \<Longrightarrow> fst (pop_hcu_feature_kwargs kwargs base w) = Some (r, w') \<Longrightarrow> config_reach w'"

lemma warn_step_once:
  assumes "warn_step w w'" and "warnings_issued w = (if legacy_backend_warning_emitted w then [legacy_warning] else [])"
  shows "warnings_issued w' = (if legacy_backend_warning_emitted w' then [legacy_warning] else [])"
  using assms by (auto simp: warn_step_def)

section \<open>Properties\<close>

text \<open>C37. What is stored is read back: after a successful \<open>set_hcu_config\<close>, on a dictionary or an object, with or
  without updates, the stored configuration is valid, \<open>get_hcu_config\<close> returns exactly it, without a
  further warning, and every other entry of the configuration and of its additional part is as before.\<close>

theorem stored_config_read_back:
  assumes "set_hcu_config vc config updates w = Some (Inr (c, vc'), w')" and "confs_ok vc" and "confs_ok config"
  shows "conf_ok c \<and> get_hcu_config vc' u = Some (Inr c, u) \<and> rest_kept vc vc'"
proof -
  obtain base b where base: "(if config = VNone then get_hcu_config vc else normalized_config config) w = Some (Inr base, b)"
    and c: "(if updates = [] then ret base else with_updates base updates) b = Some (Inr c, w')"
    and place: "place_hcu vc c = Inr vc'"
    using assms(1) by (auto simp: set_hcu_config_def run_iffs)
  have "conf_ok base"
    using base assms(2,3) get_ok normalized_ok by (metis (full_types))
  then have "conf_ok c"
    using c by (auto simp: run_iffs split: if_splits dest: updates_ok)
  then show ?thesis
    using place_hcu_read [OF place] by simp
qed

text \<open>The deprecation warning is issued at most once in the life of the module, whatever sequence of reads,
  writes, bindings and argument extractions runs, including those that raise.\<close>

theorem legacy_warning_once:
  assumes "config_reach w"
  shows "warnings_issued w = (if legacy_backend_warning_emitted w then [legacy_warning] else [])"
  using assms
proof induction
  case (got w vc r w')
  show ?case by (rule warn_step_once [OF op_keepsD [OF get_warns got.hyps(2)] got.IH])
next
  case (stored w vc config ups q w')
  show ?case by (rule warn_step_once [OF op_keepsD [OF set_warns stored.hyps(2)] stored.IH])
next
  case (written w additional config q w')
  show ?case by (rule warn_step_once [OF op_keepsD [OF write_warns written.hyps(2)] written.IH])
next
  case (bound w vc v w')
  show ?case by (rule warn_step_once [OF op_keepsD [OF bind_warns bound.hyps(2)] bound.IH])
next
  case (taken w kwargs base r w')
  show ?case by (rule warn_step_once [OF pop_warns [OF taken.hyps(2)] taken.IH])
qed simp

text \<open>The deprecated backend name stored on a configuration object.\<close>

definition sample_vc :: pyval where
  "sample_vc = VObj ''VllmConfig'' ''<config>'' [(''additional_config'', VMap True [(''other'', VInt 3)])]"

definition fresh_module :: warn_state where
  "fresh_module = \<lparr>legacy_backend_warning_emitted = False, warnings_issued = []\<rparr>"

definition sample_conf :: hcu_feature_config where
  "sample_conf =
     \<lparr>enable_lightly_cp = False, enable_lightly_cplb = False, enable_custom_sp = False, enable_multi_layers_mtp = False,
      enable_dsa_cache_layer_split = False, deepep_auto = False, fused_qwen3_rms_rope = True, qwen4_exp_hc_sp = True,
      k3_sp_moe = False, glm53_kda_cp_head_shard = None, glm53_pcp_mtp_sync = None, dp_int8_allgather = False,
      moe_backend = ''deep_gemm'', hcu_flash_attn_mode = None, hcu_gdn_prefill_backend = None, expert_map_path = None,
      expert_map_record_path = None, eplb_disable_rearrange = False, eplb_static_dispatch_policy = ''nearest''\<rparr>"

definition sample_stored :: pyval where
  "sample_stored = VObj ''VllmConfig'' ''<config>''
     [(''additional_config'', VMap True [(''other'', VInt 3), (''hcu'', VMap True (to_dict sample_conf))])]"

definition warned_module :: warn_state where
  "warned_module = \<lparr>legacy_backend_warning_emitted = True, warnings_issued = [legacy_warning]\<rparr>"

lemma sample_set_runs:
  "set_hcu_config sample_vc VNone [(''moe_backend'', VStr ''dpsk_deep_gemm'')] fresh_module
     = Some (Inr (sample_conf, sample_stored), warned_module)"
  by code_simp

theorem stored_config_read_back_witness:
  "conf_ok sample_conf \<and> get_hcu_config sample_stored fresh_module = Some (Inr sample_conf, fresh_module)
    \<and> rest_kept sample_vc sample_stored"
proof -
  have "confs_ok sample_vc"
    by code_simp
  then show ?thesis
    using stored_config_read_back [OF sample_set_runs, of fresh_module] by simp
qed

theorem legacy_warning_once_witness: "warnings_issued warned_module = [legacy_warning]"
proof -
  have "config_reach warned_module"
    using config_reach.stored [OF config_reach.loaded] sample_set_runs unfolding fresh_module_def by blast
  then show ?thesis
    using legacy_warning_once by (simp add: warned_module_def)
qed

end
