(* ===== verification/Mooncake_Transfer.thy ===== *)
theory Mooncake_Transfer
  imports Py_Runtime
begin

text \<open>
  The transfer plan of the mooncake connector,
  \<open>src/vllm_hcu/distributed/kv_transfer/kv_connector/v1/mooncake/mooncake_connector.py\<close>: the regions of
  registered cache memory on both sides, their validation and alignment, and the copy descriptors
  (source address, destination address, length) that a prefill worker hands to the transfer engine.

  Addresses, lengths and block ids are Python integers.  From vLLM come, as fields of \<open>xfer_env\<close>, the
  relation of the two tensor-parallel groups (\<open>TransferTopology\<close>), the expansion of a logical block into
  kernel blocks (\<open>BlockTable.map_to_kernel_blocks\<close>) and the null block id.
\<close>

section \<open>Regions\<close>

record transfer_region =
  tr_layer_name :: string
  tr_layer_index :: int
  tr_base_addr :: int
  tr_block_len :: int
  tr_kv_block_len :: int
  tr_group_index :: int
  tr_num_blocks :: "int option"

definition valid_block_capacities :: "int list \<Rightarrow> nat \<Rightarrow> bool" where
  "valid_block_capacities counts region_count \<longleftrightarrow> length counts = region_count \<and> list_all (\<lambda>count. 0 < count) counts"

definition is_digits :: "string \<Rightarrow> bool" where
  "is_digits s \<longleftrightarrow> s \<noteq> [] \<and> list_all (\<lambda>c. 48 \<le> (of_char c :: nat) \<and> (of_char c :: nat) \<le> 57) s"

definition decimal_value :: "string \<Rightarrow> int" where
  "decimal_value s = foldl (\<lambda>n c. n * 10 + (of_char c - 48)) 0 s"

definition normalize_pp_layer_partition :: "string \<Rightarrow> int \<Rightarrow> int \<Rightarrow> int list result" where
  "normalize_pp_layer_partition spec num_layers pp_size =
     (let parts = py_split (CHR '','') spec
      in if list_ex (\<lambda>p. \<not> is_digits (py_strip p)) parts
         then raise ValueError ''Mooncake PP partition requires comma-separated layer counts.''
         else let counts = map (\<lambda>p. decimal_value (py_strip p)) parts
              in if int (length counts) \<noteq> pp_size \<or> list_ex (\<lambda>count. count \<le> 0) counts
                 then raise ValueError ''Mooncake PP partition requires one positive count per stage.''
                 else if sum_list counts \<noteq> num_layers
                 then raise ValueError ''Mooncake PP partition must sum to the model layer count.''
                 else Inr counts)"

text \<open>\<open>spec\<close> is the environment's \<open>VLLM_PP_LAYER_PARTITION\<close>; the stage ranges come from vLLM's \<open>get_pp_indices\<close>.\<close>

definition get_pp_stage_layer_range ::
    "string option \<Rightarrow> (int \<Rightarrow> int \<Rightarrow> int \<Rightarrow> int \<times> int) \<Rightarrow> int \<Rightarrow> int \<Rightarrow> int \<Rightarrow> (int \<times> int) result" where
  "get_pp_stage_layer_range spec get_pp_indices num_layers pp_rank pp_size =
     (if pp_size \<le> 0 \<or> num_layers < pp_size \<or> \<not> (0 \<le> pp_rank \<and> pp_rank < pp_size)
      then raise ValueError ''Mooncake PP requires positive stage sizes and a valid rank.''
      else case spec of
             None \<Rightarrow> Inr (get_pp_indices num_layers pp_rank pp_size)
           | Some p \<Rightarrow> and_then (normalize_pp_layer_partition p num_layers pp_size)
                         (\<lambda>_. Inr (get_pp_indices num_layers pp_rank pp_size)))"

text \<open>The eight lists are walked in step; the asserts make them equally long.\<close>

record region_row =
  row_base_addr :: int
  row_block_len :: int
  row_kv_block_len :: int
  row_layer_name :: string
  row_layer_index :: int
  row_group_index :: int
  row_split :: bool
  row_num_blocks :: "int option"

fun zip_rows ::
    "int list \<Rightarrow> int list \<Rightarrow> int list \<Rightarrow> string list \<Rightarrow> int list \<Rightarrow> int list \<Rightarrow> bool list \<Rightarrow> int option list
       \<Rightarrow> region_row list" where
  "zip_rows (b # bs) (l # ls) (k # ks) (n # ns) (i # is) (g # gs) (s # ss) (c # cs) =
     \<lparr>row_base_addr = b, row_block_len = l, row_kv_block_len = k, row_layer_name = n, row_layer_index = i,
      row_group_index = g, row_split = s, row_num_blocks = c\<rparr> # zip_rows bs ls ks ns is gs ss cs"
| "zip_rows _ _ _ _ _ _ _ _ = []"

definition row_region :: "region_row \<Rightarrow> int \<Rightarrow> transfer_region" where
  "row_region r offset =
     \<lparr>tr_layer_name = row_layer_name r, tr_layer_index = row_layer_index r, tr_base_addr = row_base_addr r + offset,
      tr_block_len = row_block_len r, tr_kv_block_len = row_kv_block_len r, tr_group_index = row_group_index r,
      tr_num_blocks = row_num_blocks r\<rparr>"

definition expand_row :: "region_row \<Rightarrow> transfer_region list result" where
  "expand_row r =
     (let payload_span = row_kv_block_len r * (if row_split r then 2 else 1)
      in if row_base_addr r \<le> 0
         then raise ValueError (''Mooncake cache base addresses must be positive; layer='' @ row_layer_name r
                @ '', base_address='' @ str_int (row_base_addr r) @ ''.'')
         else if row_block_len r \<le> 0 \<or> row_kv_block_len r \<le> 0
         then raise ValueError (''Mooncake block strides and payload lengths must be positive; layer='' @ row_layer_name r
                @ '', block_stride='' @ str_int (row_block_len r) @ '', payload_length='' @ str_int (row_kv_block_len r) @ ''.'')
         else if payload_span > row_block_len r
         then raise ValueError (''Mooncake KV payload exceeds its physical block stride; layer='' @ row_layer_name r
                @ '', block_stride='' @ str_int (row_block_len r) @ '', payload_span='' @ str_int payload_span @ ''.'')
         else Inr (row_region r 0 # (if row_split r then [row_region r (row_kv_block_len r)] else [])))"

definition expand_transfer_regions ::
    "int list \<Rightarrow> int list \<Rightarrow> int list \<Rightarrow> string list \<Rightarrow> int list \<Rightarrow> bool \<Rightarrow> int list option \<Rightarrow> bool list option
       \<Rightarrow> int list option \<Rightarrow> transfer_region list result" where
  "expand_transfer_regions base_addrs block_lens kv_block_lens layer_names layer_indices is_kv_layout_blocks_first
     group_indices split_kv_regions num_blocks_per_layer =
     (let n = length layer_names
      in if \<not> (length base_addrs = length block_lens \<and> length block_lens = length kv_block_lens
              \<and> length kv_block_lens = n \<and> n = length layer_indices)
         then raise AssertionError (''Mooncake transfer regions require matching metadata lengths, got base_addrs=''
                @ str_nat (length base_addrs) @ '', block_lens='' @ str_nat (length block_lens)
                @ '', kv_block_lens='' @ str_nat (length kv_block_lens) @ '', layer_names='' @ str_nat n
                @ '', layer_indices='' @ str_nat (length layer_indices) @ ''.'')
         else let groups = (case group_indices of None \<Rightarrow> replicate n 0 | Some g \<Rightarrow> g)
         in if length groups \<noteq> n
         then raise AssertionError (''Mooncake transfer regions require matching group metadata lengths, got group_indices=''
                @ str_nat (length groups) @ '', layer_names='' @ str_nat n @ ''.'')
         else let splits = (case split_kv_regions of None \<Rightarrow> replicate n is_kv_layout_blocks_first | Some s \<Rightarrow> s)
         in if length splits \<noteq> n
         then raise AssertionError (''Mooncake transfer regions require matching split metadata, got split_kv_regions=''
                @ str_nat (length splits) @ '', layer_names='' @ str_nat n @ ''.'')
         else if (case num_blocks_per_layer of None \<Rightarrow> False | Some c \<Rightarrow> \<not> valid_block_capacities c n)
         then raise ValueError ''Mooncake requires one positive block capacity per region.''
         else let capacities = (case num_blocks_per_layer of
                                  None \<Rightarrow> replicate n None
                                | Some c \<Rightarrow> if c = [] then replicate n None else map Some c)
         in and_then (map_result expand_row
                (zip_rows base_addrs block_lens kv_block_lens layer_names layer_indices groups splits capacities))
              (\<lambda>rs. Inr (concat rs)))"

section \<open>Pairing two tensor-parallel groups\<close>

record topology =
  topo_tp_rank :: int
  topo_tp_ratio :: "int \<Rightarrow> int"
  topo_replicates :: bool

text \<open>Whether to send, the offsets into the two payloads, and the length.\<close>

type_synonym sender_plan = "bool \<times> int \<times> int \<times> int"

definition compute_sender_transfer_plan :: "topology \<Rightarrow> int \<Rightarrow> int \<Rightarrow> int \<Rightarrow> int \<Rightarrow> bool \<Rightarrow> sender_plan result" where
  "compute_sender_transfer_plan topo remote_tp_rank remote_tp_size local_len remote_len replicated =
     (let tp_ratio = topo_tp_ratio topo remote_tp_size
      in if tp_ratio = 1 then Inr (True, 0, 0, local_len)
         else if tp_ratio > 0
         then if replicated then Inr (topo_tp_rank topo mod tp_ratio = 0, 0, 0, local_len)
              else Inr (True, 0, (topo_tp_rank topo mod tp_ratio) * local_len, local_len)
         else if replicated then Inr (True, 0, 0, local_len)
         else if tp_ratio = 0 then raise ZeroDivisionError ''integer modulo by zero''
         else Inr (True, (remote_tp_rank mod (- tp_ratio)) * remote_len, 0, remote_len))"

definition can_coalesce_block_transfers :: "int \<Rightarrow> int \<Rightarrow> int \<Rightarrow> int \<Rightarrow> int \<Rightarrow> bool" where
  "can_coalesce_block_transfers local_block_len remote_block_len src_offset dst_offset transfer_len \<longleftrightarrow>
     src_offset = 0 \<and> dst_offset = 0 \<and> transfer_len = local_block_len \<and> transfer_len = remote_block_len"

definition lens_text :: "nat \<Rightarrow> transfer_region \<Rightarrow> transfer_region \<Rightarrow> string" where
  "lens_text idx l r = str_nat idx @ '': local='' @ str_int (tr_kv_block_len l) @ '', remote='' @ str_int (tr_kv_block_len r)"

fun replicated_lengths_error :: "nat \<Rightarrow> (transfer_region \<times> transfer_region) list \<Rightarrow> string option" where
  "replicated_lengths_error idx [] = None"
| "replicated_lengths_error idx ((l, r) # rest) =
     (if tr_kv_block_len l \<noteq> tr_kv_block_len r
      then Some (''Mooncake replicated KV region length mismatch at region '' @ lens_text idx l r @ ''.'')
      else replicated_lengths_error (idx + 1) rest)"

fun ratio_lengths_error :: "int \<Rightarrow> nat \<Rightarrow> (transfer_region \<times> transfer_region) list \<Rightarrow> string option" where
  "ratio_lengths_error tp_ratio idx [] = None"
| "ratio_lengths_error tp_ratio idx ((l, r) # rest) =
     (if tp_ratio = 1
      then if tr_kv_block_len l \<noteq> tr_kv_block_len r
           then Some (''Mooncake KV region length mismatch for homogeneous TP at region '' @ lens_text idx l r @ ''.'')
           else ratio_lengths_error tp_ratio (idx + 1) rest
      else if tp_ratio > 0
      then if tr_kv_block_len r \<noteq> tr_kv_block_len l * tp_ratio
           then Some (''Mooncake destination KV region length does not match the producer TP ratio at region ''
                  @ lens_text idx l r @ '', tp_ratio='' @ str_int tp_ratio @ ''.'')
           else ratio_lengths_error tp_ratio (idx + 1) rest
      else if tr_kv_block_len l \<noteq> tr_kv_block_len r * (- tp_ratio)
           then Some (''Mooncake source KV region length does not match the consumer TP ratio at region ''
                  @ lens_text idx l r @ '', tp_ratio='' @ str_int tp_ratio @ ''.'')
           else ratio_lengths_error tp_ratio (idx + 1) rest)"

definition validate_asymmetric_region_lengths ::
    "transfer_region list \<Rightarrow> transfer_region list \<Rightarrow> topology \<Rightarrow> int \<Rightarrow> bool \<Rightarrow> string option" where
  "validate_asymmetric_region_lengths locals remotes topo remote_tp_size replicated =
     (if length locals \<noteq> length remotes
      then Some ''Mooncake asymmetric TP requires matching KV region counts between producer and consumer.''
      else if replicated then replicated_lengths_error 0 (zip locals remotes)
      else ratio_lengths_error (topo_tp_ratio topo remote_tp_size) 0 (zip locals remotes))"

section \<open>Aligning regions\<close>

fun keyed_regions :: "(string, nat) dict \<Rightarrow> transfer_region list \<Rightarrow> ((string \<times> nat) \<times> transfer_region) list" where
  "keyed_regions counts [] = []"
| "keyed_regions counts (r # rs) =
     (let occurrence = (case dict_get counts (tr_layer_name r) of None \<Rightarrow> 0 | Some n \<Rightarrow> n)
      in ((tr_layer_name r, occurrence), r) # keyed_regions (dict_set (tr_layer_name r) (occurrence + 1) counts) rs)"

fun align_keyed ::
    "((string \<times> nat), transfer_region) dict \<Rightarrow> ((string \<times> nat) \<times> transfer_region) list \<Rightarrow> string + transfer_region list" where
  "align_keyed remote_by_key [] = Inr []"
| "align_keyed remote_by_key ((key, l) # rest) =
     (case dict_get remote_by_key key of
        None \<Rightarrow> Inl (''Mooncake producer registered layer has no matching consumer occurrence: ''
                  @ fst key @ '' occurrence '' @ str_nat (snd key) @ ''.'')
      | Some r \<Rightarrow>
          if tr_layer_index l \<noteq> tr_layer_index r
          then Inl (''Mooncake registered layer index mismatch for '' @ tr_layer_name l @ '': producer=''
                 @ str_int (tr_layer_index l) @ '', consumer='' @ str_int (tr_layer_index r) @ ''.'')
          else if tr_group_index l \<noteq> tr_group_index r
          then Inl (''Mooncake registered group index mismatch for '' @ tr_layer_name l @ '': producer=''
                 @ str_int (tr_group_index l) @ '', consumer='' @ str_int (tr_group_index r) @ ''.'')
          else and_then (align_keyed remote_by_key rest) (\<lambda>rs. Inr (r # rs)))"

definition dict_of :: "('k \<times> 'v) list \<Rightarrow> ('k, 'v) dict" where
  "dict_of kvs = fold (\<lambda>(k, v). dict_set k v) kvs []"

definition align_transfer_regions ::
    "transfer_region list \<Rightarrow> transfer_region list \<Rightarrow> transfer_region list \<times> transfer_region list \<times> string option" where
  "align_transfer_regions locals remotes =
     (case align_keyed (dict_of (keyed_regions [] remotes)) (keyed_regions [] locals) of
        Inl message \<Rightarrow> ([], [], Some message)
      | Inr aligned \<Rightarrow> (locals, aligned, None))"

section \<open>Wire metadata\<close>

record wire_meta =
  wm_base_addrs :: "int list"
  wm_block_lens :: "int list"
  wm_kv_block_lens :: "int list"
  wm_layer_names :: "string list"
  wm_layer_indices :: "int list"
  wm_group_indices :: "int list"
  wm_num_blocks :: "int list"

fun local_identity_error :: "string list \<Rightarrow> int list \<Rightarrow> int list \<Rightarrow> string option" where
  "local_identity_error (n # ns) (i # is) (g # gs) =
     (if n = [] then Some ''Mooncake local metadata requires a non-empty layer name.''
      else if i < 0 then Some ''Mooncake local metadata requires non-negative layer indices.''
      else if g < 0 then Some ''Mooncake local metadata requires non-negative group indices.''
      else local_identity_error ns is gs)"
| "local_identity_error _ _ _ = None"

fun remote_entry_error ::
    "int list \<Rightarrow> int list \<Rightarrow> int list \<Rightarrow> string list \<Rightarrow> int list \<Rightarrow> int list \<Rightarrow> string option" where
  "remote_entry_error (b # bs) (l # ls) (k # ks) (n # ns) (i # is) (g # gs) =
     (if b \<le> 0 then Some ''Mooncake remote metadata requires positive base addresses.''
      else if l \<le> 0 then Some ''Mooncake remote metadata requires positive physical block strides.''
      else if k \<le> 0 then Some ''Mooncake remote metadata requires positive KV payload sizes.''
      else if k > l then Some (''Mooncake remote KV payload exceeds its physical block stride: payload=''
             @ str_int k @ '', stride='' @ str_int l @ ''.'')
      else if n = [] then Some ''Mooncake remote metadata requires a non-empty layer name.''
      else if i < 0 then Some ''Mooncake remote metadata requires non-negative layer indices.''
      else if g < 0 then Some ''Mooncake remote metadata requires non-negative group indices.''
      else remote_entry_error bs ls ks ns is gs)"
| "remote_entry_error _ _ _ _ _ _ = None"

definition validate_phase1_metadata :: "string list \<Rightarrow> int list \<Rightarrow> int list \<Rightarrow> wire_meta \<Rightarrow> int list option \<Rightarrow> string option" where
  "validate_phase1_metadata local_names local_indices local_groups meta num_blocks =
     (if (case num_blocks of None \<Rightarrow> False | Some c \<Rightarrow> \<not> valid_block_capacities c (length (wm_layer_names meta)))
      then Some ''Mooncake remote metadata requires one positive block capacity per region.''
      else if \<not> (length local_names = length local_indices \<and> length local_indices = length local_groups)
      then Some (''Mooncake local identity fields have inconsistent cache-entry counts: names=''
             @ str_nat (length local_names) @ '', indices='' @ str_nat (length local_indices)
             @ '', groups='' @ str_nat (length local_groups) @ ''.'')
      else if \<not> list_all (\<lambda>n. n = length (wm_base_addrs meta))
             [length (wm_block_lens meta), length (wm_kv_block_lens meta), length (wm_layer_names meta),
              length (wm_layer_indices meta), length (wm_group_indices meta)]
      then Some (''Mooncake metadata fields have inconsistent cache-entry counts: base='' @ str_nat (length (wm_base_addrs meta))
             @ '', stride='' @ str_nat (length (wm_block_lens meta)) @ '', payload='' @ str_nat (length (wm_kv_block_lens meta))
             @ '', names='' @ str_nat (length (wm_layer_names meta)) @ '', indices='' @ str_nat (length (wm_layer_indices meta))
             @ '', groups='' @ str_nat (length (wm_group_indices meta)) @ ''.'')
      else case local_identity_error local_names local_indices local_groups of
             Some message \<Rightarrow> Some message
           | None \<Rightarrow> remote_entry_error (wm_base_addrs meta) (wm_block_lens meta) (wm_kv_block_lens meta)
                       (wm_layer_names meta) (wm_layer_indices meta) (wm_group_indices meta))"

section \<open>Runs of consecutive blocks\<close>

definition np_diff :: "int list \<Rightarrow> int list" where
  "np_diff xs = map (\<lambda>(a, b). b - a) (zip xs (tl xs))"

text \<open>The elementwise \<open>|\<close> of two arrays, with NumPy's broadcasting of one-element arrays.\<close>

definition np_or :: "bool list \<Rightarrow> bool list \<Rightarrow> bool list result" where
  "np_or xs ys =
     (if length xs = length ys then Inr (map2 (\<or>) xs ys)
      else if length xs = 1 then Inr (map (\<lambda>y. hd xs \<or> y) ys)
      else if length ys = 1 then Inr (map (\<lambda>x. x \<or> hd ys) xs)
      else raise ValueError (''operands could not be broadcast together with shapes ('' @ str_nat (length xs) @ '',) (''
             @ str_nat (length ys) @ '',) ''))"

fun np_split :: "'a list \<Rightarrow> nat \<Rightarrow> nat list \<Rightarrow> 'a list list" where
  "np_split xs i [] = [drop i xs]"
| "np_split xs i (b # bs) = take (b - i) (drop i xs) # np_split xs b bs"

definition group_concurrent_contiguous :: "int list \<Rightarrow> int list \<Rightarrow> (int list list \<times> int list list) result" where
  "group_concurrent_contiguous src_indices dst_indices =
     (if src_indices = [] then Inr ([], [])
      else and_then (np_or (map (\<lambda>d. d \<noteq> 1) (np_diff src_indices)) (map (\<lambda>d. d \<noteq> 1) (np_diff dst_indices))) (\<lambda>flags.
             let brk = map Suc (filter (\<lambda>i. flags ! i) [0..<length flags])
             in Inr (np_split src_indices 0 brk, np_split dst_indices 0 brk)))"

section \<open>Copy descriptors\<close>

record xfer_env =
  xe_mamba :: "bool list"
  xe_null :: int
  xe_phys :: int
  xe_map :: "int list \<Rightarrow> int \<Rightarrow> int list"
  xe_topo :: topology

record agent_meta = wire_meta +
  am_tp_size :: int
  am_tp_rank :: int
  am_req_blocks :: "(string, string \<times> int list list) dict"

definition get_sender_transfer_plan :: "xfer_env \<Rightarrow> int \<Rightarrow> int \<Rightarrow> int \<Rightarrow> int \<Rightarrow> sender_plan result" where
  "get_sender_transfer_plan env local_len remote_len remote_tp_rank remote_tp_size =
     compute_sender_transfer_plan (xe_topo env) remote_tp_rank remote_tp_size local_len remote_len
       (topo_replicates (xe_topo env))"

definition kernel_group :: "xfer_env \<Rightarrow> nat \<times> int list \<Rightarrow> int list result" where
  "kernel_group env = (\<lambda>(i, blocks).
     and_then (py_index (xe_mamba env) (int i)) (\<lambda>mamba. Inr (if \<not> mamba then xe_map env blocks (xe_phys env) else blocks)))"

definition logical_to_kernel_block_ids :: "xfer_env \<Rightarrow> int list list \<Rightarrow> int list list result" where
  "logical_to_kernel_block_ids env block_ids =
     (if xe_phys env = 1 then Inr block_ids else map_result (kernel_group env) (enumerate 0 block_ids))"

fun negative_error :: "string \<Rightarrow> nat \<Rightarrow> int list list \<Rightarrow> string option" where
  "negative_error side i [] = None"
| "negative_error side i (blocks # groups) =
     (case List.find (\<lambda>b. b < 0) blocks of
        Some negative \<Rightarrow> Some (''Mooncake '' @ side @ '' block ID '' @ str_int negative @ '' is negative in KV group '' @ str_nat i @ ''.'')
      | None \<Rightarrow> negative_error side (i + 1) groups)"

definition validate_nonnegative_block_ids :: "int list list \<Rightarrow> int list list \<Rightarrow> string option" where
  "validate_nonnegative_block_ids locals remotes =
     (case negative_error ''producer'' 0 locals of Some message \<Rightarrow> Some message | None \<Rightarrow> negative_error ''consumer'' 0 remotes)"

definition max_block_id :: "int list \<Rightarrow> int" where
  "max_block_id blocks = (if blocks = [] then - 1 else Max (set blocks))"

fun bounds_error :: "string \<Rightarrow> int list list \<Rightarrow> transfer_region list \<Rightarrow> string option" where
  "bounds_error side groups [] = None"
| "bounds_error side groups (r # rs) =
     (if \<not> (0 \<le> tr_group_index r \<and> tr_group_index r < int (length groups))
      then Some (''Mooncake '' @ side @ '' region references a missing KV group.'')
      else case tr_num_blocks r of
             None \<Rightarrow> bounds_error side groups rs
           | Some capacity \<Rightarrow>
               if max_block_id (groups ! nat (tr_group_index r)) \<ge> capacity
               then Some (''Mooncake '' @ side @ '' block ID exceeds region capacity '' @ str_int capacity
                      @ '' for '' @ tr_layer_name r @ ''.'')
               else bounds_error side groups rs)"

text \<open>Pairing the block groups of a request; \<open>None\<close> when the producer has too few blocks.\<close>

definition drop_null :: "xfer_env \<Rightarrow> bool \<Rightarrow> int list \<Rightarrow> int list" where
  "drop_null env mamba blocks = (if mamba then filter (\<lambda>b. b \<noteq> xe_null env) blocks else blocks)"

fun pair_groups :: "xfer_env \<Rightarrow> nat \<Rightarrow> (int list \<times> int list) list \<Rightarrow> (int list \<times> int list) list option result" where
  "pair_groups env i [] = Inr (Some [])"
| "pair_groups env i ((l0, r0) # rest) =
     and_then (py_index (xe_mamba env) (int i)) (\<lambda>mamba.
       let l = drop_null env mamba l0; r = drop_null env mamba r0
       in if length l < length r then Inr None
          else let l' = (if length l > length r
                         then (if length r > 0 then drop (length l - length r) l else [])
                         else l)
               in and_then (pair_groups env (i + 1) rest) (\<lambda>others. Inr (map_option ((#) (l', r)) others)))"

datatype request_plan = SkipRequest | RejectRequest string | CopyGroups "int list list" "int list list"

definition prepare_request ::
    "xfer_env \<Rightarrow> transfer_region list \<Rightarrow> transfer_region list \<Rightarrow> int list list \<Rightarrow> int list list \<Rightarrow> request_plan result" where
  "prepare_request env locals remotes local_ids remote_ids =
     (if remote_ids = [] \<or> list_all (\<lambda>g. g = []) remote_ids then Inr SkipRequest
      else if length local_ids \<noteq> length remote_ids then Inr (RejectRequest ''KV group count mismatch'')
      else and_then (pair_groups env 0 (zip local_ids remote_ids)) (\<lambda>pairs.
             case pairs of
               None \<Rightarrow> Inr (RejectRequest ''P num blocks less than D'')
             | Some ps \<Rightarrow>
                 if list_all (\<lambda>g. g = []) (map fst ps) then Inr SkipRequest
                 else and_then (logical_to_kernel_block_ids env (map fst ps)) (\<lambda>ls.
                      and_then (logical_to_kernel_block_ids env (map snd ps)) (\<lambda>rs.
                        case validate_nonnegative_block_ids ls rs of
                          Some message \<Rightarrow> Inr (RejectRequest message)
                        | None \<Rightarrow>
                            (case bounds_error ''producer'' ls locals of
                               Some message \<Rightarrow> Inr (RejectRequest message)
                             | None \<Rightarrow>
                                 (case bounds_error ''consumer'' rs remotes of
                                    Some message \<Rightarrow> Inr (RejectRequest message)
                                  | None \<Rightarrow> Inr (CopyGroups ls rs)))))))"

type_synonym descriptor = "int \<times> int \<times> int"

definition block_descriptor :: "transfer_region \<Rightarrow> transfer_region \<Rightarrow> sender_plan \<Rightarrow> int \<Rightarrow> int \<Rightarrow> int \<Rightarrow> descriptor" where
  "block_descriptor l r plan lb rb run = (case plan of (_, src_offset, dst_offset, transfer_len) \<Rightarrow>
     (tr_base_addr l + lb * tr_block_len l + src_offset, tr_base_addr r + rb * tr_block_len r + dst_offset, transfer_len * run))"

definition run_descriptors ::
    "transfer_region \<Rightarrow> transfer_region \<Rightarrow> sender_plan \<Rightarrow> bool \<Rightarrow> int list \<times> int list \<Rightarrow> descriptor list result" where
  "run_descriptors l r plan coalesce = (\<lambda>(lbs, rbs).
     if coalesce
     then and_then (py_index lbs 0) (\<lambda>lb. and_then (py_index rbs 0) (\<lambda>rb.
            Inr [block_descriptor l r plan lb rb (int (length lbs))]))
     else Inr (map (\<lambda>(lb, rb). block_descriptor l r plan lb rb 1) (zip lbs rbs)))"

definition region_descriptors ::
    "xfer_env \<Rightarrow> agent_meta \<Rightarrow> int list list \<Rightarrow> int list list \<Rightarrow> transfer_region \<times> transfer_region \<Rightarrow> descriptor list result" where
  "region_descriptors env meta locals remotes = (\<lambda>(l, r).
     if tr_group_index l \<noteq> tr_group_index r
     then raise AssertionError ''Aligned Mooncake transfer regions must belong to the same KV group.''
     else if \<not> tr_group_index l < int (length locals)
     then raise AssertionError ''Transfer region references a missing KV group.''
     else and_then (py_index locals (tr_group_index l)) (\<lambda>lbs.
          and_then (py_index remotes (tr_group_index l)) (\<lambda>rbs.
            if lbs = [] then Inr []
            else and_then (group_concurrent_contiguous lbs rbs) (\<lambda>(lgroups, rgroups).
                 and_then (get_sender_transfer_plan env (tr_kv_block_len l) (tr_kv_block_len r) (am_tp_rank meta) (am_tp_size meta))
                   (\<lambda>plan. case plan of (should_transfer, src_offset, dst_offset, transfer_len) \<Rightarrow>
                      if \<not> should_transfer then Inr []
                      else if src_offset + transfer_len > tr_kv_block_len l
                      then raise AssertionError ''Computed source transfer region exceeds local KV block size.''
                      else if dst_offset + transfer_len > tr_kv_block_len r
                      then raise AssertionError ''Destination transfer region exceeds remote KV block size.''
                      else and_then (map_result (run_descriptors l r plan
                               (can_coalesce_block_transfers (tr_block_len l) (tr_block_len r) src_offset dst_offset transfer_len))
                               (zip lgroups rgroups)) (\<lambda>ds. Inr (concat ds)))))))"

record transfer_params =
  tp_descriptors :: "descriptor list"
  tp_err_reqs :: "string list"
  tp_err_msg :: "string option"

text \<open>
  The three pointer and length lists of the code always grow together; they are one list of
  descriptors here.  \<open>ready\<close> lists request ids with the producer's block ids.
\<close>

definition build_request ::
    "xfer_env \<Rightarrow> agent_meta \<Rightarrow> transfer_region list \<Rightarrow> transfer_region list \<Rightarrow> string \<times> int list list
       \<Rightarrow> transfer_params \<Rightarrow> transfer_params result" where
  "build_request env meta locals remotes = (\<lambda>(d_req_id, local_ids) acc.
     case dict_get (am_req_blocks meta) d_req_id of
       None \<Rightarrow> raise KeyError (py_repr d_req_id)
     | Some (transfer_id, remote_ids) \<Rightarrow>
         and_then (prepare_request env locals remotes local_ids remote_ids) (\<lambda>plan.
           case plan of
             SkipRequest \<Rightarrow> Inr acc
           | RejectRequest message \<Rightarrow>
               Inr (acc\<lparr>tp_err_reqs := tp_err_reqs acc @ [d_req_id],
                        tp_err_msg := (case tp_err_msg acc of None \<Rightarrow> Some message | Some m \<Rightarrow> Some m)\<rparr>)
           | CopyGroups ls rs \<Rightarrow>
               and_then (map_result (region_descriptors env meta ls rs) (zip locals remotes)) (\<lambda>ds.
                 Inr (acc\<lparr>tp_descriptors := tp_descriptors acc @ concat ds\<rparr>))))"

definition build_transfer_params ::
    "xfer_env \<Rightarrow> (string \<times> int list list) list \<Rightarrow> agent_meta \<Rightarrow> transfer_region list \<Rightarrow> transfer_region list
       \<Rightarrow> transfer_params result" where
  "build_transfer_params env ready meta locals remotes =
     fold_result (build_request env meta locals remotes) ready \<lparr>tp_descriptors = [], tp_err_reqs = [], tp_err_msg = None\<rparr>"

section \<open>Accepting the consumer's metadata\<close>

record sender =
  sn_caches :: wire_meta
  sn_layer_groups :: "(string, int) dict"
  sn_tp_rank :: int
  sn_target_ranks :: "int \<Rightarrow> int list"
  sn_env :: xfer_env

definition get_transfer_regions :: "sender \<Rightarrow> 'a wire_meta_scheme \<Rightarrow> transfer_region list result" where
  "get_transfer_regions sn meta =
     expand_transfer_regions (wm_base_addrs meta) (wm_block_lens meta) (wm_kv_block_lens meta) (wm_layer_names meta)
       (wm_layer_indices meta) False
       (Some (if wm_group_indices meta = []
              then map (\<lambda>n. case dict_get (sn_layer_groups sn) n of None \<Rightarrow> 0 | Some g \<Rightarrow> g) (wm_layer_names meta)
              else wm_group_indices meta))
       None (Some (wm_num_blocks meta))"

definition repr_ranks :: "int list \<Rightarrow> string" where
  "repr_ranks xs = ''['' @ py_join '', '' (map str_int xs) @ '']''"

definition pair_regions ::
    "topology \<Rightarrow> int \<Rightarrow> transfer_region list \<Rightarrow> transfer_region list \<Rightarrow> string + transfer_region list \<times> transfer_region list" where
  "pair_regions topo remote_tp_size locals0 remotes0 =
     (case align_transfer_regions locals0 remotes0 of (locals, remotes, align_err) \<Rightarrow>
        (case align_err of
           Some message \<Rightarrow> Inl message
         | None \<Rightarrow>
             (case validate_asymmetric_region_lengths locals remotes topo remote_tp_size (topo_replicates topo) of
                Some message \<Rightarrow> Inl message
              | None \<Rightarrow> Inr (locals, remotes))))"

text \<open>
  \<open>send_kv_to_decode\<close> up to the point where it waits for the requests: the aligned regions, or the
  message with which the consumer is refused.
\<close>

definition accept_metadata :: "sender \<Rightarrow> agent_meta \<Rightarrow> (string + transfer_region list \<times> transfer_region list) result" where
  "accept_metadata sn meta =
     (if am_tp_size meta \<le> 0 \<or> \<not> (0 \<le> am_tp_rank meta \<and> am_tp_rank meta < am_tp_size meta)
      then Inr (Inl (''Mooncake remote TP size/rank is invalid: size='' @ str_int (am_tp_size meta)
             @ '', rank='' @ str_int (am_tp_rank meta) @ ''.''))
      else if am_tp_rank meta \<notin> set (sn_target_ranks sn (am_tp_size meta))
      then Inr (Inl (''This D tp_rank '' @ str_int (am_tp_rank meta) @ '' is not paired with P tp_rank ''
             @ str_int (sn_tp_rank sn) @ ''; expected one of '' @ repr_ranks (sn_target_ranks sn (am_tp_size meta)) @ ''.''))
      else let caches = sn_caches sn;
               metadata_err = (if list_ex (\<lambda>(_, _, groups). list_ex (\<lambda>g. g \<noteq> []) groups) (am_req_blocks meta)
                  then validate_phase1_metadata (wm_layer_names caches) (wm_layer_indices caches) (wm_group_indices caches)
                         (wire_meta.truncate meta) (Some (wm_num_blocks meta))
                  else None)
           in case metadata_err of
                Some message \<Rightarrow> Inr (Inl message)
              | None \<Rightarrow>
                  and_then (get_transfer_regions sn caches) (\<lambda>locals0.
                  and_then (get_transfer_regions sn meta) (\<lambda>remotes0.
                    Inr (pair_regions (xe_topo (sn_env sn)) (am_tp_size meta) locals0 remotes0))))"

end
