(* ===== verification/Mooncake_Transfer_Correct.thy ===== *)
theory Mooncake_Transfer_Correct
  imports Mooncake_Transfer
begin

text \<open>
  The copy descriptors of the mooncake connector: joining runs of consecutive blocks changes no byte,
  every byte stays inside the payload of a registered block on both sides, and the producers of a
  tensor-parallel group fill the consumer's payload exactly once.
\<close>

section \<open>Runs of consecutive blocks\<close>

definition consecutive :: "int list \<Rightarrow> bool" where
  "consecutive xs \<longleftrightarrow> (\<forall>k. Suc k < length xs \<longrightarrow> xs ! Suc k = xs ! k + 1)"

lemma consecutive_Cons:
  assumes "consecutive (x # xs)" and "xs \<noteq> []"
  shows "hd xs = x + 1" and "consecutive xs"
proof -
  show "hd xs = x + 1"
    using assms by (cases xs) (force simp: consecutive_def)+
  show "consecutive xs"
    unfolding consecutive_def
  proof (intro allI impI)
    fix k
    assume "Suc k < length xs"
    then show "xs ! Suc k = xs ! k + 1"
      using assms(1) [unfolded consecutive_def, rule_format, of "Suc k"] by simp
  qed
qed

lemma np_split_lengths: "length xs = length ys \<Longrightarrow> map length (np_split xs i bs) = map length (np_split ys i bs)"
  by (induction bs arbitrary: i) simp_all

lemma np_split_concat:
  "sorted_wrt (<) (i # bs) \<Longrightarrow> list_all (\<lambda>b. b \<le> length xs) (i # bs) \<Longrightarrow> concat (np_split xs i bs) = drop i xs"
proof (induction bs arbitrary: i)
  case (Cons b bs)
  then have "concat (np_split xs i (b # bs)) = take (b - i) (drop i xs) @ drop b xs"
    by simp
  also have "drop b xs = drop (b - i) (drop i xs)"
    using Cons.prems(1) by simp
  finally show ?case
    by (simp only: append_take_drop_id)
qed simp

lemma np_split_runs:
  assumes "sorted_wrt (<) (i # bs)" and "list_all (\<lambda>b. b < length xs) (i # bs)"
    and "\<forall>j. i \<le> j \<longrightarrow> Suc j < length xs \<longrightarrow> Suc j \<notin> set bs \<longrightarrow> xs ! Suc j = xs ! j + 1"
  shows "list_all (\<lambda>g. g \<noteq> [] \<and> consecutive g) (np_split xs i bs)"
  using assms
proof (induction bs arbitrary: i)
  case Nil
  then show ?case
    by (simp add: consecutive_def)
next
  case (Cons b bs)
  have step: "xs ! Suc j = xs ! j + 1" if "i \<le> j" "Suc j < b" for j
  proof -
    have "Suc j \<notin> set (b # bs)"
      using Cons.prems(1) that by auto
    then show ?thesis
      using Cons.prems(2,3) that by simp
  qed
  then have "consecutive (take (b - i) (drop i xs))"
    using Cons.prems(2) by (auto simp: consecutive_def)
  moreover have "take (b - i) (drop i xs) \<noteq> []"
    using Cons.prems(1,2) by simp
  moreover have "list_all (\<lambda>g. g \<noteq> [] \<and> consecutive g) (np_split xs b bs)"
    using Cons.prems by (intro Cons.IH) auto
  ultimately show ?case
    by simp
qed

definition breaks :: "bool list \<Rightarrow> nat list" where
  "breaks flags = map Suc (filter (\<lambda>i. flags ! i) [0..<length flags])"

lemma breaks_props:
  "sorted_wrt (<) (0 # breaks flags)" "list_all (\<lambda>b. b \<le> length flags) (0 # breaks flags)"
  "Suc j \<in> set (breaks flags) \<longleftrightarrow> j < length flags \<and> flags ! j"
proof -
  have "sorted_wrt (<) (filter (\<lambda>i. flags ! i) [0..<length flags])"
    by (intro sorted_wrt_filter) simp
  then show "sorted_wrt (<) (0 # breaks flags)"
    by (auto simp: breaks_def sorted_wrt_map)
qed (auto simp: breaks_def list_all_iff)

lemma grouped_runs:
  assumes len: "length src = length dst" and ne: "src \<noteq> []"
  shows "\<exists>sg dg. group_concurrent_contiguous src dst = Inr (sg, dg) \<and> concat sg = src \<and> concat dg = dst
    \<and> map length sg = map length dg \<and> list_all (\<lambda>g. g \<noteq> [] \<and> consecutive g) sg \<and> list_all (\<lambda>g. g \<noteq> [] \<and> consecutive g) dg"
proof -
  define flags where "flags = map2 (\<or>) (map (\<lambda>d. d \<noteq> 1) (np_diff src)) (map (\<lambda>d. d \<noteq> 1) (np_diff dst))"
  have n: "length flags = length src - 1" "length (np_diff src) = length src - 1" "length (np_diff dst) = length src - 1"
    using len by (simp_all add: flags_def np_diff_def)
  have flag: "flags ! j \<longleftrightarrow> src ! Suc j \<noteq> src ! j + 1 \<or> dst ! Suc j \<noteq> dst ! j + 1" if "Suc j < length src" for j
    using that len by (auto simp: flags_def np_diff_def nth_tl)
  have group: "group_concurrent_contiguous src dst = Inr (np_split src 0 (breaks flags), np_split dst 0 (breaks flags))"
    using ne n by (simp add: group_concurrent_contiguous_def np_or_def flags_def [symmetric] breaks_def Let_def)
  have "list_all (\<lambda>b. b < length src) (0 # breaks flags)"
    using breaks_props(2) [of flags] n ne by (cases src) (auto simp: list_all_iff less_Suc_eq_le)
  then have in_src: "list_all (\<lambda>b. b < length src) (0 # breaks flags)" "list_all (\<lambda>b. b \<le> length src) (0 # breaks flags)"
    by (auto simp: list_all_iff)
  have "list_all (\<lambda>g. g \<noteq> [] \<and> consecutive g) (np_split src 0 (breaks flags))"
    using in_src(1) breaks_props flag n by (intro np_split_runs) auto
  moreover have "list_all (\<lambda>g. g \<noteq> [] \<and> consecutive g) (np_split dst 0 (breaks flags))"
    using in_src(1) breaks_props flag n len by (intro np_split_runs) auto
  moreover have "concat (np_split src 0 (breaks flags)) = src" "concat (np_split dst 0 (breaks flags)) = dst"
    using np_split_concat [OF breaks_props(1), of src flags] np_split_concat [OF breaks_props(1), of dst flags] in_src(2) len
    by simp_all
  ultimately show ?thesis
    using group np_split_lengths [OF len] by blast
qed

section \<open>The bytes a descriptor copies\<close>

text \<open>Pairs of a source and a destination address, in the order of the descriptors.\<close>

definition descriptor_bytes :: "descriptor \<Rightarrow> (int \<times> int) list" where
  "descriptor_bytes = (\<lambda>(src, dst, len). map (\<lambda>i. (src + i, dst + i)) [0..len - 1])"

definition copied :: "descriptor list \<Rightarrow> (int \<times> int) list" where
  "copied ds = concat (map descriptor_bytes ds)"

text \<open>The specification: block by block, without looking for runs.\<close>

definition pair_bytes :: "transfer_region \<Rightarrow> transfer_region \<Rightarrow> sender_plan \<Rightarrow> int list \<Rightarrow> int list \<Rightarrow> (int \<times> int) list" where
  "pair_bytes l r plan lbs rbs = concat (map (\<lambda>(lb, rb). descriptor_bytes (block_descriptor l r plan lb rb 1)) (zip lbs rbs))"

lemma upto_append: "0 \<le> m \<Longrightarrow> 0 \<le> n \<Longrightarrow> [0..m + n - 1] = [0..m - 1] @ map (\<lambda>i. m + i) [0..n - (1::int)]"
proof -
  assume "0 \<le> m" "0 \<le> n"
  then have "[0..m + n - 1] = [0..m - 1] @ [m..m + n - 1]"
    by (cases "n = 0") (simp, intro upto_split1, simp_all)
  moreover have "[m..m + n - 1] = map (\<lambda>i. m + i) [0..n - 1]"
    by (intro nth_equalityI) simp_all
  ultimately show ?thesis
    by simp
qed

lemma coalesced_bytes:
  assumes "consecutive lbs" and "consecutive rbs" and "lbs \<noteq> []" and "length lbs = length rbs"
    and "can_coalesce_block_transfers (tr_block_len l) (tr_block_len r) so dof len" and "0 \<le> len"
  shows "descriptor_bytes (block_descriptor l r (b, so, dof, len) (hd lbs) (hd rbs) (int (length lbs)))
    = pair_bytes l r (b, so, dof, len) lbs rbs"
  using assms(1-4)
proof (induction lbs arbitrary: rbs)
  case (Cons x xs)
  from Cons.prems(4) obtain y ys where rbs: "rbs = y # ys"
    by (cases rbs) auto
  have c: "so = 0" "dof = 0" "tr_block_len l = len" "tr_block_len r = len"
    using assms(5) by (auto simp: can_coalesce_block_transfers_def)
  show ?case
  proof (cases "xs = []")
    case True
    then show ?thesis
      using Cons.prems(4) rbs by (simp add: pair_bytes_def)
  next
    case False
    then have heads: "hd xs = x + 1" "hd ys = y + 1" "consecutive xs" "consecutive ys"
      using consecutive_Cons [of x xs] consecutive_Cons [of y ys] Cons.prems rbs by (cases ys; auto)+
    from Cons.IH [OF heads(3,4) False] Cons.prems(4) rbs
    have "pair_bytes l r (b, so, dof, len) xs ys
        = descriptor_bytes (block_descriptor l r (b, so, dof, len) (x + 1) (y + 1) (int (length xs)))"
      by (simp add: heads)
    then have "pair_bytes l r (b, so, dof, len) (x # xs) (y # ys)
        = descriptor_bytes (block_descriptor l r (b, so, dof, len) x y 1)
          @ descriptor_bytes (block_descriptor l r (b, so, dof, len) (x + 1) (y + 1) (int (length xs)))"
      by (simp add: pair_bytes_def)
    also have "\<dots> = descriptor_bytes (block_descriptor l r (b, so, dof, len) x y (1 + int (length xs)))"
      using upto_append [of len "len * int (length xs)"] assms(6)
      by (simp add: descriptor_bytes_def block_descriptor_def c algebra_simps)
    finally show ?thesis
      by (simp add: rbs)
  qed
qed simp

lemma zip_concat:
  "map length xss = map length yss \<Longrightarrow> zip (concat xss) (concat yss) = concat (map2 zip xss yss)"
proof (induction xss arbitrary: yss)
  case (Cons xs xss)
  then show ?case
    by (cases yss) auto
qed simp

section \<open>One pair of regions\<close>

text \<open>What the length checks ask of a pair of regions.\<close>

definition lens_match :: "topology \<Rightarrow> int \<Rightarrow> transfer_region \<times> transfer_region \<Rightarrow> bool" where
  "lens_match topo tps = (\<lambda>(l, r).
     if topo_replicates topo \<or> topo_tp_ratio topo tps = 1 then tr_kv_block_len l = tr_kv_block_len r
     else if topo_tp_ratio topo tps > 0 then tr_kv_block_len r = tr_kv_block_len l * topo_tp_ratio topo tps
     else tr_kv_block_len l = tr_kv_block_len r * (- topo_tp_ratio topo tps))"

lemma replicated_lengths_ok:
  "replicated_lengths_error i ps = None \<Longrightarrow> list_all (\<lambda>(l, r). tr_kv_block_len l = tr_kv_block_len r) ps"
  by (induction i ps rule: replicated_lengths_error.induct) (auto split: if_splits)

lemma ratio_lengths_ok:
  "ratio_lengths_error (topo_tp_ratio topo tps) i ps = None \<Longrightarrow> \<not> topo_replicates topo \<Longrightarrow> list_all (lens_match topo tps) ps"
  by (induction "topo_tp_ratio topo tps" i ps rule: ratio_lengths_error.induct) (auto simp: lens_match_def split: if_splits)

lemma validated_lengths:
  assumes "validate_asymmetric_region_lengths locals remotes topo tps (topo_replicates topo) = None"
  shows "length locals = length remotes" and "list_all (lens_match topo tps) (zip locals remotes)"
proof -
  show "length locals = length remotes"
    using assms by (auto simp: validate_asymmetric_region_lengths_def split: if_splits)
  show "list_all (lens_match topo tps) (zip locals remotes)"
  proof (cases "topo_replicates topo")
    case True
    then have "list_all (\<lambda>(l, r). tr_kv_block_len l = tr_kv_block_len r) (zip locals remotes)"
      using assms replicated_lengths_ok by (auto simp: validate_asymmetric_region_lengths_def split: if_splits)
    then show ?thesis
      using True by (auto simp: lens_match_def list_all_iff)
  next
    case False
    then show ?thesis
      using assms ratio_lengths_ok by (auto simp: validate_asymmetric_region_lengths_def split: if_splits)
  qed
qed

definition region_ok :: "transfer_region \<Rightarrow> bool" where
  "region_ok r \<longleftrightarrow> 0 < tr_kv_block_len r \<and> tr_kv_block_len r \<le> tr_block_len r \<and> tr_num_blocks r \<noteq> None"

definition plan_fits :: "transfer_region \<Rightarrow> transfer_region \<Rightarrow> sender_plan \<Rightarrow> bool" where
  "plan_fits l r = (\<lambda>(should, so, dof, len).
     0 \<le> so \<and> 0 \<le> dof \<and> 0 < len \<and> so + len \<le> tr_kv_block_len l \<and> dof + len \<le> tr_kv_block_len r)"

lemma mod_slot: "0 < (a::int) \<Longrightarrow> 0 < n \<Longrightarrow> 0 \<le> p mod a * n \<and> p mod a * n + n \<le> n * a"
proof -
  assume "0 < a" "0 < n"
  then have "p mod a + 1 \<le> a"
    by (simp add: zless_imp_add1_zle)
  then have "(p mod a + 1) * n \<le> a * n"
    using \<open>0 < n\<close> by (intro mult_right_mono) simp_all
  then show ?thesis
    using \<open>0 < a\<close> \<open>0 < n\<close> by (simp add: algebra_simps)
qed

lemma sender_plan_fits:
  assumes "lens_match (xe_topo env) tps (l, r)" and "region_ok l" and "region_ok r"
  shows "\<exists>plan. get_sender_transfer_plan env (tr_kv_block_len l) (tr_kv_block_len r) rank tps = Inr plan \<and> plan_fits l r plan"
proof -
  let ?t = "topo_tp_ratio (xe_topo env) tps"
  have pos: "0 < tr_kv_block_len l" "0 < tr_kv_block_len r"
    using assms(2,3) by (auto simp: region_ok_def)
  consider "topo_replicates (xe_topo env) \<or> ?t = 1" | "\<not> topo_replicates (xe_topo env)" "?t > 1"
    | "\<not> topo_replicates (xe_topo env)" "?t < 0"
  proof -
    have "?t \<noteq> 0" if "\<not> topo_replicates (xe_topo env)"
      using that assms(1) pos by (auto simp: lens_match_def)
    then show thesis
      using that by linarith
  qed
  then show ?thesis
  proof cases
    case 1
    then have "tr_kv_block_len l = tr_kv_block_len r"
      using assms(1) by (auto simp: lens_match_def)
    then show ?thesis
      using 1 pos by (auto simp: get_sender_transfer_plan_def compute_sender_transfer_plan_def plan_fits_def Let_def)
  next
    case 2
    then show ?thesis
      using assms(1) pos mod_slot [of ?t "tr_kv_block_len l" "topo_tp_rank (xe_topo env)"]
      by (auto simp: get_sender_transfer_plan_def compute_sender_transfer_plan_def plan_fits_def lens_match_def Let_def)
  next
    case 3
    then show ?thesis
      using assms(1) pos mod_slot [of "- ?t" "tr_kv_block_len r" rank]
      by (auto simp: get_sender_transfer_plan_def compute_sender_transfer_plan_def plan_fits_def lens_match_def Let_def)
  qed
qed

definition plan_of :: "xfer_env \<Rightarrow> agent_meta \<Rightarrow> transfer_region \<Rightarrow> transfer_region \<Rightarrow> sender_plan" where
  "plan_of env meta l r =
     (case get_sender_transfer_plan env (tr_kv_block_len l) (tr_kv_block_len r) (am_tp_rank meta) (am_tp_size meta) of
        Inr plan \<Rightarrow> plan | Inl _ \<Rightarrow> (False, 0, 0, 0))"

definition region_bytes ::
    "xfer_env \<Rightarrow> agent_meta \<Rightarrow> int list list \<Rightarrow> int list list \<Rightarrow> transfer_region \<times> transfer_region \<Rightarrow> (int \<times> int) list" where
  "region_bytes env meta ls rs = (\<lambda>(l, r).
     if fst (plan_of env meta l r)
     then pair_bytes l r (plan_of env meta l r) (ls ! nat (tr_group_index l)) (rs ! nat (tr_group_index l))
     else [])"

text \<open>A pair of regions that passed every check, for given groups of blocks.\<close>

definition pair_ready :: "xfer_env \<Rightarrow> agent_meta \<Rightarrow> int list list \<Rightarrow> int list list \<Rightarrow> transfer_region \<times> transfer_region \<Rightarrow> bool" where
  "pair_ready env meta ls rs = (\<lambda>(l, r).
     tr_group_index l = tr_group_index r \<and> region_ok l \<and> region_ok r \<and> lens_match (xe_topo env) (am_tp_size meta) (l, r)
     \<and> 0 \<le> tr_group_index l \<and> tr_group_index l < int (length ls)
     \<and> list_all2 (\<lambda>x y. length x = length y) ls rs)"

lemma py_index_at: "0 \<le> i \<Longrightarrow> i < int (length xs) \<Longrightarrow> py_index xs i = Inr (xs ! nat i)"
  by (simp add: py_index_def)

lemma py_index_hd: "xs \<noteq> [] \<Longrightarrow> py_index xs 0 = Inr (hd xs)"
  by (cases xs) (simp_all add: py_index_def)

lemma run_descriptors_bytes:
  assumes "consecutive x" "consecutive y" "x \<noteq> []" "y \<noteq> []" "length x = length y" "0 \<le> len"
  shows "\<exists>ds. run_descriptors l r (b, so, dof, len)
        (can_coalesce_block_transfers (tr_block_len l) (tr_block_len r) so dof len) (x, y) = Inr ds
      \<and> copied ds = pair_bytes l r (b, so, dof, len) x y"
proof (cases "can_coalesce_block_transfers (tr_block_len l) (tr_block_len r) so dof len")
  case True
  then show ?thesis
    using coalesced_bytes [OF assms(1-3,5) True assms(6)] py_index_hd [OF assms(3)] py_index_hd [OF assms(4)]
    by (simp add: run_descriptors_def copied_def)
next
  case False
  then show ?thesis
    by (simp add: run_descriptors_def copied_def pair_bytes_def case_prod_unfold comp_def)
qed

lemma runs_bytes:
  assumes "map length xss = map length yss" and "list_all (\<lambda>g. g \<noteq> [] \<and> consecutive g) xss"
    and "list_all (\<lambda>g. g \<noteq> [] \<and> consecutive g) yss" and "0 \<le> len"
  shows "\<exists>ds. map_result (run_descriptors l r (b, so, dof, len)
        (can_coalesce_block_transfers (tr_block_len l) (tr_block_len r) so dof len)) (zip xss yss) = Inr ds
      \<and> copied (concat ds) = pair_bytes l r (b, so, dof, len) (concat xss) (concat yss)"
  using assms(1-3)
proof (induction xss arbitrary: yss)
  case Nil
  then show ?case
    by (simp add: copied_def pair_bytes_def)
next
  case (Cons x xss)
  then obtain y ys where yss: "yss = y # ys"
    by (cases yss) auto
  with Cons obtain ds where ds: "map_result (run_descriptors l r (b, so, dof, len)
      (can_coalesce_block_transfers (tr_block_len l) (tr_block_len r) so dof len)) (zip xss ys) = Inr ds"
      "copied (concat ds) = pair_bytes l r (b, so, dof, len) (concat xss) (concat ys)"
    by auto
  from run_descriptors_bytes [of x y len l r b so dof] Cons.prems yss assms(4) obtain d where d:
    "run_descriptors l r (b, so, dof, len) (can_coalesce_block_transfers (tr_block_len l) (tr_block_len r) so dof len) (x, y) = Inr d"
    "copied d = pair_bytes l r (b, so, dof, len) x y"
    by auto
  show ?case
    using ds d Cons.prems(1) by (simp add: yss copied_def pair_bytes_def)
qed

lemma region_descriptors_bytes:
  assumes ready: "pair_ready env meta ls rs (l, r)"
  shows "\<exists>ds. region_descriptors env meta ls rs (l, r) = Inr ds \<and> copied ds = region_bytes env meta ls rs (l, r)"
proof -
  let ?g = "nat (tr_group_index l)"
  have g: "tr_group_index l = tr_group_index r" "0 \<le> tr_group_index l" "tr_group_index l < int (length ls)"
    "length rs = length ls" and same: "length (ls ! ?g) = length (rs ! ?g)"
    using ready by (auto simp: pair_ready_def list_all2_conv_all_nth)
  from sender_plan_fits [of env "am_tp_size meta" l r "am_tp_rank meta"] ready obtain b so dof len
    where plan: "get_sender_transfer_plan env (tr_kv_block_len l) (tr_kv_block_len r) (am_tp_rank meta) (am_tp_size meta) = Inr (b, so, dof, len)"
      and fits: "plan_fits l r (b, so, dof, len)"
    by (auto simp: pair_ready_def)
  have idx: "py_index ls (tr_group_index l) = Inr (ls ! ?g)" "py_index rs (tr_group_index l) = Inr (rs ! ?g)"
    using g by (simp_all add: py_index_at)
  show ?thesis
  proof (cases "ls ! ?g = []")
    case True
    then show ?thesis
      using g idx plan by (simp add: region_descriptors_def region_bytes_def pair_bytes_def copied_def)
  next
    case False
    from grouped_runs [OF same False] obtain sg dg where runs: "group_concurrent_contiguous (ls ! ?g) (rs ! ?g) = Inr (sg, dg)"
      "concat sg = ls ! ?g" "concat dg = rs ! ?g" "map length sg = map length dg"
      "list_all (\<lambda>g. g \<noteq> [] \<and> consecutive g) sg" "list_all (\<lambda>g. g \<noteq> [] \<and> consecutive g) dg"
      by blast
    from runs_bytes [OF runs(4-6), of len l r b so dof] fits runs(2,3) obtain ds where
      "map_result (run_descriptors l r (b, so, dof, len)
        (can_coalesce_block_transfers (tr_block_len l) (tr_block_len r) so dof len)) (zip sg dg) = Inr ds"
      "copied (concat ds) = pair_bytes l r (b, so, dof, len) (ls ! ?g) (rs ! ?g)"
      by (auto simp: plan_fits_def)
    then show ?thesis
      using g idx plan runs(1) fits False
      by (auto simp: region_descriptors_def region_bytes_def plan_of_def plan_fits_def copied_def)
  qed
qed

section \<open>One request\<close>

text \<open>What is documented of \<open>BlockTable.map_to_kernel_blocks\<close>: every logical block becomes the same number of kernel blocks.\<close>

definition kernel_expansion :: "xfer_env \<Rightarrow> bool" where
  "kernel_expansion env \<longleftrightarrow> (\<forall>bs. length (xe_map env bs (xe_phys env)) = length bs * nat (xe_phys env))"

abbreviation same_lengths :: "int list list \<Rightarrow> int list list \<Rightarrow> bool" where
  "same_lengths \<equiv> list_all2 (\<lambda>x y. length x = length y)"

lemma pair_groups_lengths:
  "pair_groups env i ps = Inr (Some qs) \<Longrightarrow> same_lengths (map fst qs) (map snd qs) \<and> length qs = length ps"
proof (induction ps arbitrary: i qs)
  case (Cons p ps)
  then show ?case
    by (cases p) (auto simp: and_then_Inr_iff Let_def split: if_splits)
qed simp

lemma pair_groups_returns: "i + length ps \<le> length (xe_mamba env) \<Longrightarrow> returns (pair_groups env i ps)"
proof (induction ps arbitrary: i)
  case (Cons p ps)
  from Cons.IH [of "i + 1"] Cons.prems obtain others where others: "pair_groups env (Suc i) ps = Inr others"
    by (auto simp: returns_iff)
  have "py_index (xe_mamba env) (int i) = Inr (xe_mamba env ! i)"
    using Cons.prems by (simp add: py_index_at)
  then show ?case
    using others by (cases p) (simp add: Let_def)
qed simp

lemma kernel_groups:
  assumes "length gs \<le> length (xe_mamba env)"
  shows "logical_to_kernel_block_ids env gs =
    Inr (map (\<lambda>(i, g). if xe_phys env \<noteq> 1 \<and> \<not> xe_mamba env ! i then xe_map env g (xe_phys env) else g) (enumerate 0 gs))"
proof (cases "xe_phys env = 1")
  case True
  then show ?thesis
    by (simp add: logical_to_kernel_block_ids_def case_prod_unfold enumerate_eq_zip)
next
  case False
  have "kernel_group env (i, g) = Inr (if \<not> xe_mamba env ! i then xe_map env g (xe_phys env) else g)"
    if "(i, g) \<in> set (enumerate 0 gs)" for i g
    using that assms by (simp add: kernel_group_def py_index_at in_set_enumerate_eq)
  then have "map_result (kernel_group env) (enumerate 0 gs)
      = Inr (map (\<lambda>(i, g). if \<not> xe_mamba env ! i then xe_map env g (xe_phys env) else g) (enumerate 0 gs))"
    by (intro map_result_total) auto
  with False show ?thesis
    by (simp add: logical_to_kernel_block_ids_def)
qed

lemma kernel_groups_lengths:
  assumes "kernel_expansion env" and "same_lengths ls rs" and "length ls \<le> length (xe_mamba env)"
    and "logical_to_kernel_block_ids env ls = Inr ls'" and "logical_to_kernel_block_ids env rs = Inr rs'"
  shows "same_lengths ls' rs'"
proof -
  have "length rs = length ls"
    using assms(2) by (simp add: list_all2_lengthD)
  then show ?thesis
    using assms kernel_groups [of ls env] kernel_groups [of rs env]
    by (auto simp: list_all2_conv_all_nth nth_enumerate_eq kernel_expansion_def)
qed

lemma negative_ok: "negative_error side i gs = None \<Longrightarrow> list_all (list_all (\<lambda>b. 0 \<le> b)) gs"
  by (induction side i gs rule: negative_error.induct)
    (auto simp: list_all_iff find_None_iff not_less split: option.splits)

definition blocks_within :: "int list list \<Rightarrow> transfer_region \<Rightarrow> bool" where
  "blocks_within gs r \<longleftrightarrow> 0 \<le> tr_group_index r \<and> tr_group_index r < int (length gs)
     \<and> (\<forall>c b. tr_num_blocks r = Some c \<longrightarrow> b \<in> set (gs ! nat (tr_group_index r)) \<longrightarrow> b < c)"

lemma max_block_id_bound: "max_block_id xs < c \<Longrightarrow> b \<in> set xs \<Longrightarrow> b < c"
  by (auto simp: max_block_id_def split: if_splits)

lemma bounds_ok: "bounds_error side gs rs = None \<Longrightarrow> list_all (blocks_within gs) rs"
  by (induction side gs rs rule: bounds_error.induct)
    (auto simp: blocks_within_def not_le intro: max_block_id_bound split: if_splits option.splits)

definition known_request :: "xfer_env \<Rightarrow> agent_meta \<Rightarrow> string \<times> int list list \<Rightarrow> bool" where
  "known_request env meta = (\<lambda>(d_req_id, local_ids).
     case dict_get (am_req_blocks meta) d_req_id of
       None \<Rightarrow> False | Some (transfer_id, remote_ids) \<Rightarrow> length remote_ids \<le> length (xe_mamba env))"

lemma prepared_groups:
  assumes "prepare_request env locals remotes local_ids remote_ids = Inr (CopyGroups ls rs)"
    and "length remote_ids \<le> length (xe_mamba env)" and "kernel_expansion env"
  shows "same_lengths ls rs \<and> list_all (list_all (\<lambda>b. 0 \<le> b)) ls \<and> list_all (list_all (\<lambda>b. 0 \<le> b)) rs
    \<and> list_all (blocks_within ls) locals \<and> list_all (blocks_within rs) remotes"
proof -
  from assms(1) obtain ps where ps: "pair_groups env 0 (zip local_ids remote_ids) = Inr (Some ps)"
    and k: "logical_to_kernel_block_ids env (map fst ps) = Inr ls" "logical_to_kernel_block_ids env (map snd ps) = Inr rs"
    and checks: "validate_nonnegative_block_ids ls rs = None" "bounds_error ''producer'' ls locals = None"
      "bounds_error ''consumer'' rs remotes = None"
    by (auto simp: prepare_request_def and_then_Inr_iff split: if_splits option.splits)
  have "length ps \<le> length (xe_mamba env)" "same_lengths (map fst ps) (map snd ps)"
    using pair_groups_lengths [OF ps] assms(2) by simp_all
  then have "same_lengths ls rs"
    using kernel_groups_lengths [OF assms(3) _ _ k] by simp
  then show ?thesis
    using checks negative_ok bounds_ok by (auto simp: validate_nonnegative_block_ids_def split: option.splits)
qed

lemma prepare_returns:
  assumes "length remote_ids \<le> length (xe_mamba env)"
  shows "returns (prepare_request env locals remotes local_ids remote_ids)"
proof -
  have "returns (pair_groups env 0 (zip local_ids remote_ids))"
    using assms by (intro pair_groups_returns) simp
  then obtain o' where o': "pair_groups env 0 (zip local_ids remote_ids) = Inr o'"
    by (auto simp: returns_iff)
  show ?thesis
  proof (cases o')
    case None
    then show ?thesis
      using o' by (simp add: prepare_request_def)
  next
    case (Some ps)
    have "length ps \<le> length (xe_mamba env)"
      using pair_groups_lengths [of env 0 "zip local_ids remote_ids" ps] o' Some assms by simp
    then show ?thesis
      using o' Some kernel_groups [of "map fst ps" env] kernel_groups [of "map snd ps" env]
      by (auto simp: prepare_request_def split: option.split)
  qed
qed

definition request_bytes ::
    "xfer_env \<Rightarrow> agent_meta \<Rightarrow> transfer_region list \<Rightarrow> transfer_region list \<Rightarrow> string \<times> int list list \<Rightarrow> (int \<times> int) list" where
  "request_bytes env meta locals remotes = (\<lambda>(d_req_id, local_ids).
     case dict_get (am_req_blocks meta) d_req_id of
       None \<Rightarrow> []
     | Some (transfer_id, remote_ids) \<Rightarrow>
         (case prepare_request env locals remotes local_ids remote_ids of
            Inr (CopyGroups ls rs) \<Rightarrow> concat (map (region_bytes env meta ls rs) (zip locals remotes))
          | _ \<Rightarrow> []))"

text \<open>Two lists of regions that were accepted together.\<close>

definition pairs_accepted :: "xfer_env \<Rightarrow> agent_meta \<Rightarrow> transfer_region list \<Rightarrow> transfer_region list \<Rightarrow> bool" where
  "pairs_accepted env meta locals remotes \<longleftrightarrow> length locals = length remotes \<and> list_all (\<lambda>(l, r).
     tr_group_index l = tr_group_index r \<and> region_ok l \<and> region_ok r \<and> lens_match (xe_topo env) (am_tp_size meta) (l, r))
     (zip locals remotes)"

lemma pairs_ready:
  assumes "pairs_accepted env meta locals remotes" and "same_lengths ls rs" and "list_all (blocks_within ls) locals"
    and "p \<in> set (zip locals remotes)"
  shows "pair_ready env meta ls rs p"
proof -
  obtain l r where p: "p = (l, r)"
    by (cases p)
  then have "blocks_within ls l"
    using assms(3,4) by (auto simp: list_all_iff dest: set_zip_leftD)
  then show ?thesis
    using assms by (auto simp: p pairs_accepted_def pair_ready_def blocks_within_def list_all_iff)
qed

lemma regions_bytes:
  assumes "list_all (pair_ready env meta ls rs) ps"
  shows "\<exists>ds. map_result (region_descriptors env meta ls rs) ps = Inr ds
    \<and> copied (concat ds) = concat (map (region_bytes env meta ls rs) ps)"
  using assms
proof (induction ps)
  case (Cons p ps)
  obtain l r where p: "p = (l, r)"
    by (cases p)
  from Cons obtain ds where "map_result (region_descriptors env meta ls rs) ps = Inr ds"
    "copied (concat ds) = concat (map (region_bytes env meta ls rs) ps)"
    by auto
  moreover from region_descriptors_bytes [of env meta ls rs l r] Cons.prems p obtain d
    where "region_descriptors env meta ls rs p = Inr d" "copied d = region_bytes env meta ls rs p"
    by auto
  ultimately show ?case
    by (simp add: copied_def)
qed (simp add: copied_def)

lemma build_request_bytes:
  assumes acc: "pairs_accepted env meta locals remotes" and known: "known_request env meta x" and kernel: "kernel_expansion env"
  shows "\<exists>params. build_request env meta locals remotes x st = Inr params
    \<and> copied (tp_descriptors params) = copied (tp_descriptors st) @ request_bytes env meta locals remotes x"
proof -
  obtain d_req_id local_ids where x: "x = (d_req_id, local_ids)"
    by (cases x)
  from known obtain t remote_ids where blocks: "dict_get (am_req_blocks meta) d_req_id = Some (t, remote_ids)"
    and len: "length remote_ids \<le> length (xe_mamba env)"
    by (auto simp: known_request_def x split: option.splits)
  from prepare_returns [OF len, of locals remotes local_ids] obtain plan
    where plan: "prepare_request env locals remotes local_ids remote_ids = Inr plan"
    by (auto simp: returns_iff)
  show ?thesis
  proof (cases plan)
    case (CopyGroups ls rs)
    have groups: "same_lengths ls rs" "list_all (blocks_within ls) locals"
      using prepared_groups [OF plan [unfolded CopyGroups] len kernel] by simp_all
    have "list_all (pair_ready env meta ls rs) (zip locals remotes)"
      using pairs_ready [OF acc groups] by (simp add: list_all_iff)
    from regions_bytes [OF this] obtain ds where "map_result (region_descriptors env meta ls rs) (zip locals remotes) = Inr ds"
      "copied (concat ds) = concat (map (region_bytes env meta ls rs) (zip locals remotes))"
      by blast
    then show ?thesis
      using blocks plan CopyGroups by (simp add: build_request_def request_bytes_def x copied_def)
  qed (use blocks plan in \<open>simp_all add: build_request_def request_bytes_def x copied_def\<close>)
qed

lemma build_bytes:
  assumes acc: "pairs_accepted env meta locals remotes" and "list_all (known_request env meta) ready" and kernel: "kernel_expansion env"
  shows "\<exists>params. fold_result (build_request env meta locals remotes) ready st = Inr params
    \<and> copied (tp_descriptors params) = copied (tp_descriptors st) @ concat (map (request_bytes env meta locals remotes) ready)"
  using assms(2)
proof (induction ready arbitrary: st)
  case (Cons x ready)
  from build_request_bytes [OF acc _ kernel, of x st] Cons.prems obtain next_st
    where "build_request env meta locals remotes x st = Inr next_st"
      "copied (tp_descriptors next_st) = copied (tp_descriptors st) @ request_bytes env meta locals remotes x"
    by auto
  with Cons.IH [of next_st] Cons.prems show ?case
    by auto
qed simp

section \<open>Aligning regions\<close>

definition occurrence :: "transfer_region list \<Rightarrow> nat \<Rightarrow> nat" where
  "occurrence rs i = length (filter (\<lambda>r. tr_layer_name r = tr_layer_name (rs ! i)) (take i rs))"

definition get_count :: "(string, nat) dict \<Rightarrow> string \<Rightarrow> nat" where
  "get_count counts name = (case dict_get counts name of None \<Rightarrow> 0 | Some n \<Rightarrow> n)"

lemma keyed_length [simp]: "length (keyed_regions counts rs) = length rs"
  by (induction rs arbitrary: counts) (simp_all add: Let_def)

lemma keyed_nth:
  "i < length rs \<Longrightarrow> keyed_regions counts rs ! i
     = ((tr_layer_name (rs ! i), get_count counts (tr_layer_name (rs ! i)) + occurrence rs i), rs ! i)"
proof (induction rs arbitrary: counts i)
  case (Cons r rs)
  then show ?case
    by (cases i) (simp_all add: Let_def occurrence_def get_count_def)
qed simp

lemma occurrence_less:
  assumes "i < j" and "j < length rs" and "tr_layer_name (rs ! i) = tr_layer_name (rs ! j)"
  shows "occurrence rs i < occurrence rs j"
proof -
  let ?p = "\<lambda>r. tr_layer_name r = tr_layer_name (rs ! j)"
  have "take j rs = take i (take j rs) @ take j rs ! i # drop (Suc i) (take j rs)"
    using assms(1,2) by (intro id_take_nth_drop) simp
  then have "filter ?p (take j rs) = filter ?p (take i (take j rs)) @ filter ?p (take j rs ! i # drop (Suc i) (take j rs))"
    by (metis filter_append)
  moreover have "take i (take j rs) = take i rs" "take j rs ! i = rs ! i"
    using assms(1) by simp_all
  ultimately show ?thesis
    using assms(3) by (simp add: occurrence_def)
qed

lemma occurrence_inj:
  "i < length rs \<Longrightarrow> j < length rs \<Longrightarrow> tr_layer_name (rs ! i) = tr_layer_name (rs ! j) \<Longrightarrow> occurrence rs i = occurrence rs j \<Longrightarrow> i = j"
  using occurrence_less [of i j rs] occurrence_less [of j i rs] by (cases i j rule: linorder_cases) auto

lemma dict_of_mem: "dict_get (dict_of kvs) k = Some v \<Longrightarrow> (k, v) \<in> set kvs"
proof -
  have "dict_get (fold (\<lambda>(k, v). dict_set k v) kvs d) k = Some v \<Longrightarrow> (k, v) \<in> set kvs \<or> dict_get d k = Some v" for d
  proof (induction kvs arbitrary: d)
    case (Cons kv kvs)
    obtain k' v' where kv: "kv = (k', v')"
      by (cases kv)
    from Cons.IH [of "dict_set k' v' d"] Cons.prems show ?case
      by (auto simp: kv split: if_splits)
  qed simp
  from this [of "[]"] show "dict_get (dict_of kvs) k = Some v \<Longrightarrow> (k, v) \<in> set kvs"
    by (simp add: dict_of_def)
qed

lemma align_keyed_matches:
  "align_keyed d kl = Inr aligned \<Longrightarrow> list_all2 (\<lambda>(key, l) r. dict_get d key = Some r
     \<and> tr_layer_index l = tr_layer_index r \<and> tr_group_index l = tr_group_index r) kl aligned"
  by (induction d kl arbitrary: aligned rule: align_keyed.induct)
    (auto simp: and_then_Inr_iff list_all2_Cons1 split: option.splits if_splits)

definition matching :: "transfer_region list \<Rightarrow> transfer_region list \<Rightarrow> nat \<Rightarrow> nat \<Rightarrow> bool" where
  "matching locals remotes i j \<longleftrightarrow> j < length remotes
     \<and> tr_layer_name (remotes ! j) = tr_layer_name (locals ! i) \<and> occurrence remotes j = occurrence locals i
     \<and> tr_layer_index (remotes ! j) = tr_layer_index (locals ! i) \<and> tr_group_index (remotes ! j) = tr_group_index (locals ! i)"

lemma aligned_positions:
  assumes "align_transfer_regions locals remotes = (locals', remotes', None)"
  shows "locals' = locals \<and> length remotes' = length locals
    \<and> (\<forall>i < length locals. \<exists>j. matching locals remotes i j \<and> remotes' ! i = remotes ! j)"
proof -
  from assms have ok: "align_keyed (dict_of (keyed_regions [] remotes)) (keyed_regions [] locals) = Inr remotes'" "locals' = locals"
    by (auto simp: align_transfer_regions_def split: sum.splits)
  note all = align_keyed_matches [OF ok(1)]
  then have "length remotes' = length locals"
    by (auto dest: list_all2_lengthD)
  moreover have "\<exists>j. matching locals remotes i j \<and> remotes' ! i = remotes ! j" if "i < length locals" for i
  proof -
    have key: "keyed_regions [] locals ! i = ((tr_layer_name (locals ! i), occurrence locals i), locals ! i)"
      using keyed_nth [OF that, of "[]"] by (simp add: get_count_def)
    then have hit: "dict_get (dict_of (keyed_regions [] remotes)) (tr_layer_name (locals ! i), occurrence locals i) = Some (remotes' ! i)"
      and eq: "tr_layer_index (locals ! i) = tr_layer_index (remotes' ! i)" "tr_group_index (locals ! i) = tr_group_index (remotes' ! i)"
      using list_all2_nthD [OF all, of i] that by auto
    from dict_of_mem [OF hit] obtain j where j: "j < length remotes"
      "keyed_regions [] remotes ! j = ((tr_layer_name (locals ! i), occurrence locals i), remotes' ! i)"
      by (auto simp: in_set_conv_nth)
    with keyed_nth [OF j(1), of "[]"] eq show ?thesis
      by (auto simp: matching_def get_count_def)
  qed
  ultimately show ?thesis
    using ok(2) by simp
qed

text \<open>
  When \<open>_align_transfer_regions\<close> succeeds it keeps the producer's regions and pairs each with a
  region of the consumer of the same layer name, the same occurrence number among the regions of that
  name, the same layer index and the same KV group; no region of the consumer is used twice.
\<close>

theorem regions_aligned_by_occurrence:
  assumes "align_transfer_regions locals remotes = (locals', remotes', None)"
  shows "locals' = locals \<and> (\<exists>js. length js = length locals \<and> distinct js \<and> remotes' = map ((!) remotes) js
    \<and> (\<forall>i < length locals. matching locals remotes i (js ! i)))"
proof -
  note al = aligned_positions [OF assms]
  then obtain f where f: "matching locals remotes i (f i) \<and> remotes' ! i = remotes ! f i" if "i < length locals" for i
    by metis
  let ?js = "map f [0..<length locals]"
  have "i = k" if "i < length locals" "k < length locals" "f i = f k" for i k
    using f [OF that(1)] f [OF that(2)] that occurrence_inj [of i locals k] by (auto simp: matching_def)
  then have "distinct ?js"
    by (auto simp: distinct_map inj_on_def)
  moreover have "remotes' = map ((!) remotes) ?js"
    using al f by (intro nth_equalityI) auto
  ultimately show ?thesis
    using al f by (intro conjI exI [of _ ?js]) auto
qed

definition region_named :: "string \<Rightarrow> int \<Rightarrow> transfer_region" where
  "region_named name addr = \<lparr>tr_layer_name = name, tr_layer_index = 0, tr_base_addr = addr, tr_block_len = 16, tr_kv_block_len = 8,
     tr_group_index = 0, tr_num_blocks = Some 4\<rparr>"

theorem regions_aligned_by_occurrence_witness:
  "\<exists>js. length js = 2 \<and> distinct js
    \<and> [region_named ''k'' 64, region_named ''k'' 128]
        = map ((!) [region_named ''k'' 64, region_named ''v'' 96, region_named ''k'' 128]) js
    \<and> (\<forall>i < 2. matching [region_named ''k'' 1, region_named ''k'' 9]
          [region_named ''k'' 64, region_named ''v'' 96, region_named ''k'' 128] i (js ! i))"
proof -
  have "align_transfer_regions [region_named ''k'' 1, region_named ''k'' 9]
      [region_named ''k'' 64, region_named ''v'' 96, region_named ''k'' 128]
    = ([region_named ''k'' 1, region_named ''k'' 9], [region_named ''k'' 64, region_named ''k'' 128], None)"
    by code_simp
  from regions_aligned_by_occurrence [OF this] show ?thesis
    by (simp add: eval_nat_numeral)
qed

section \<open>Accepted metadata\<close>

lemma zip_rows_capacity: "row \<in> set (zip_rows bs ls ks ns is gs ss cs) \<Longrightarrow> row_num_blocks row \<in> set cs"
  by (induction bs ls ks ns "is" gs ss cs rule: zip_rows.induct) auto

lemma expand_row_ok: "expand_row row = Inr rs \<Longrightarrow> row_num_blocks row \<noteq> None \<Longrightarrow> list_all region_ok rs"
  by (auto simp: expand_row_def row_region_def region_ok_def Let_def split: if_splits)

lemma expanded_regions_ok:
  assumes "expand_transfer_regions bs ls ks ns is first gs ss (Some cs) = Inr regions"
  shows "list_all region_ok regions"
proof -
  from assms obtain groups splits capacities rss where caps: "capacities = (if cs = [] then replicate (length ns) None else map Some cs)"
    and n: "length cs = length ns" and regions: "regions = concat rss"
    and rows: "map_result expand_row (zip_rows bs ls ks ns is groups splits capacities) = Inr rss"
    by (auto simp: expand_transfer_regions_def valid_block_capacities_def Let_def and_then_Inr_iff split: if_splits)
  have "None \<notin> set capacities"
    using caps n by auto
  moreover have "\<exists>row \<in> set (zip_rows bs ls ks ns is groups splits capacities). expand_row row = Inr rs" if "rs \<in> set rss" for rs
    using map_result_mem [OF rows that] .
  ultimately have "list_all region_ok rs" if "rs \<in> set rss" for rs
    using that zip_rows_capacity expand_row_ok by metis
  then show ?thesis
    by (auto simp: regions list_all_iff)
qed

lemma pair_regions_Inr:
  assumes "pair_regions topo tps ls rs = Inr (locals, remotes)"
  shows "align_transfer_regions ls rs = (locals, remotes, None)
    \<and> validate_asymmetric_region_lengths locals remotes topo tps (topo_replicates topo) = None"
  using assms by (cases "align_transfer_regions ls rs") (auto simp: pair_regions_def split: option.splits)

lemma accepted_pairs:
  assumes "accept_metadata sn meta = Inr (Inr (locals, remotes))"
  shows "pairs_accepted (sn_env sn) meta locals remotes"
proof -
  from assms obtain ls rs where regions: "get_transfer_regions sn (sn_caches sn) = Inr ls" "get_transfer_regions sn meta = Inr rs"
    and pairs: "pair_regions (xe_topo (sn_env sn)) (am_tp_size meta) ls rs = Inr (locals, remotes)"
    by (auto simp: accept_metadata_def Let_def and_then_Inr_iff split: if_splits option.splits)
  from pair_regions_Inr [OF pairs] have align: "align_transfer_regions ls rs = (locals, remotes, None)"
    and lens: "validate_asymmetric_region_lengths locals remotes (xe_topo (sn_env sn)) (am_tp_size meta)
      (topo_replicates (xe_topo (sn_env sn))) = None"
    by simp_all
  have ok: "list_all region_ok ls" "list_all region_ok rs"
    using regions by (auto simp: get_transfer_regions_def intro: expanded_regions_ok)
  note al = aligned_positions [OF align] and len = validated_lengths [OF lens]
  have "tr_group_index l = tr_group_index r \<and> region_ok l \<and> region_ok r" if "(l, r) \<in> set (zip locals remotes)" for l r
  proof -
    from that obtain i where i: "i < length locals" "l = locals ! i" "r = remotes ! i"
      by (auto simp: in_set_zip)
    with al obtain j where "matching ls rs i j" "r = rs ! j" "l = ls ! i" "i < length ls"
      by auto
    then show ?thesis
      using ok by (auto simp: matching_def list_all_length)
  qed
  then show ?thesis
    using len by (auto simp: pairs_accepted_def list_all_iff)
qed

text \<open>
  C22. After \<open>send_kv_to_decode\<close> has accepted the consumer's metadata, \<open>_build_transfer_params\<close> returns
  for every batch of requests named in that metadata: none of its assertions fails.  The bytes its
  descriptors copy, in order, are those of the block-by-block copy: joining runs of consecutive blocks
  into one descriptor changes neither which bytes are copied nor where they go.
\<close>

theorem descriptors_copy_the_blocks:
  assumes accept: "accept_metadata sn meta = Inr (Inr (locals, remotes))"
    and known: "list_all (known_request (sn_env sn) meta) ready" and kernel: "kernel_expansion (sn_env sn)"
  shows "\<exists>params. build_transfer_params (sn_env sn) ready meta locals remotes = Inr params
    \<and> copied (tp_descriptors params) = concat (map (request_bytes (sn_env sn) meta locals remotes) ready)"
  using build_bytes [OF accepted_pairs [OF accept] known kernel,
      of "\<lparr>tp_descriptors = [], tp_err_reqs = [], tp_err_msg = None\<rparr>"]
  by (simp add: build_transfer_params_def copied_def)

definition demo_env2 :: xfer_env where
  "demo_env2 = \<lparr>xe_mamba = [False], xe_null = 0, xe_phys = 1, xe_map = (\<lambda>bs n. bs),
     xe_topo = \<lparr>topo_tp_rank = 1, topo_tp_ratio = (\<lambda>n. 2), topo_replicates = False\<rparr>\<rparr>"

definition demo_sender :: sender where
  "demo_sender = \<lparr>sn_caches = \<lparr>wm_base_addrs = [1000], wm_block_lens = [4], wm_kv_block_lens = [4], wm_layer_names = [''l0''],
       wm_layer_indices = [0], wm_group_indices = [0], wm_num_blocks = [8]\<rparr>,
     sn_layer_groups = [], sn_tp_rank = 1, sn_target_ranks = (\<lambda>n. [0]), sn_env = demo_env2\<rparr>"

definition demo_meta :: agent_meta where
  "demo_meta = \<lparr>wm_base_addrs = [5000], wm_block_lens = [8], wm_kv_block_lens = [8], wm_layer_names = [''l0''],
     wm_layer_indices = [0], wm_group_indices = [0], wm_num_blocks = [8], am_tp_size = 1, am_tp_rank = 0,
     am_req_blocks = [(''d'', ''t'', [[2, 3, 6]])]\<rparr>"

definition demo_regions :: "string + transfer_region list \<times> transfer_region list" where
  "demo_regions = Inr
     ([\<lparr>tr_layer_name = ''l0'', tr_layer_index = 0, tr_base_addr = 1000, tr_block_len = 4, tr_kv_block_len = 4, tr_group_index = 0,
        tr_num_blocks = Some 8\<rparr>],
      [\<lparr>tr_layer_name = ''l0'', tr_layer_index = 0, tr_base_addr = 5000, tr_block_len = 8, tr_kv_block_len = 8, tr_group_index = 0,
        tr_num_blocks = Some 8\<rparr>])"

lemma demo_accepts: "accept_metadata demo_sender demo_meta = Inr demo_regions"
  by code_simp

lemma demo_sender_facts:
  "list_all (known_request (sn_env demo_sender) demo_meta) [(''d'', [[1, 4, 5, 7]])]" "kernel_expansion (sn_env demo_sender)"
  by code_simp (simp add: kernel_expansion_def demo_sender_def demo_env2_def)

theorem descriptors_copy_the_blocks_witness:
  "\<exists>params. build_transfer_params (sn_env demo_sender) [(''d'', [[1, 4, 5, 7]])] demo_meta
      (fst (projr demo_regions)) (snd (projr demo_regions)) = Inr params
    \<and> copied (tp_descriptors params) = concat (map (request_bytes (sn_env demo_sender) demo_meta
        (fst (projr demo_regions)) (snd (projr demo_regions))) [(''d'', [[1, 4, 5, 7]])])"
  by (rule descriptors_copy_the_blocks [OF _ demo_sender_facts]) (simp add: demo_accepts demo_regions_def)

section \<open>Bounds\<close>

text \<open>An address inside the payload of a block of a registered region.\<close>

definition payload_byte :: "transfer_region \<Rightarrow> int \<Rightarrow> bool" where
  "payload_byte r addr \<longleftrightarrow> (\<exists>c b. tr_num_blocks r = Some c \<and> 0 \<le> b \<and> b < c
     \<and> tr_base_addr r + b * tr_block_len r \<le> addr \<and> addr < tr_base_addr r + b * tr_block_len r + tr_kv_block_len r)"

lemma pair_bytes_payload:
  assumes "(s, d) \<in> set (pair_bytes l r plan lbs rbs)" and "plan_fits l r plan" and "region_ok l" and "region_ok r"
    and "list_all (\<lambda>b. 0 \<le> b) lbs" and "list_all (\<lambda>b. 0 \<le> b) rbs"
    and "\<And>c b. tr_num_blocks l = Some c \<Longrightarrow> b \<in> set lbs \<Longrightarrow> b < c" and "\<And>c b. tr_num_blocks r = Some c \<Longrightarrow> b \<in> set rbs \<Longrightarrow> b < c"
  shows "payload_byte l s \<and> payload_byte r d"
proof -
  obtain b so dof len where plan: "plan = (b, so, dof, len)"
    by (cases plan)
  from assms(1) obtain lb rb i where mem: "(lb, rb) \<in> set (zip lbs rbs)" and i: "0 \<le> i" "i < len"
    and sd: "s = tr_base_addr l + lb * tr_block_len l + so + i" "d = tr_base_addr r + rb * tr_block_len r + dof + i"
    by (auto simp: pair_bytes_def descriptor_bytes_def block_descriptor_def plan)
  have in_lists: "lb \<in> set lbs" "rb \<in> set rbs"
    using mem by (auto dest: set_zip_leftD set_zip_rightD)
  obtain c c' where caps: "tr_num_blocks l = Some c" "tr_num_blocks r = Some c'"
    using assms(3,4) by (auto simp: region_ok_def)
  have within: "0 \<le> lb" "lb < c" "0 \<le> rb" "rb < c'"
    using assms(5-8) in_lists caps by (auto simp: list_all_iff)
  have fits: "0 \<le> so" "0 \<le> dof" "so + len \<le> tr_kv_block_len l" "dof + len \<le> tr_kv_block_len r"
    using assms(2) by (simp_all add: plan_fits_def plan)
  have "payload_byte l s"
    unfolding payload_byte_def using caps(1) within(1,2) fits(1,3) i sd(1)
    by (intro exI [of _ c] exI [of _ lb]) simp
  moreover have "payload_byte r d"
    unfolding payload_byte_def using caps(2) within(3,4) fits(2,4) i sd(2)
    by (intro exI [of _ c'] exI [of _ rb]) simp
  ultimately show ?thesis
    by simp
qed

lemma region_bytes_payload:
  assumes "(s, d) \<in> set (region_bytes env meta ls rs (l, r))" and "pair_ready env meta ls rs (l, r)"
    and "list_all (list_all (\<lambda>b. 0 \<le> b)) ls" and "list_all (list_all (\<lambda>b. 0 \<le> b)) rs"
    and "blocks_within ls l" and "blocks_within rs r"
  shows "payload_byte l s \<and> payload_byte r d"
proof -
  let ?g = "nat (tr_group_index l)"
  from sender_plan_fits [of env "am_tp_size meta" l r "am_tp_rank meta"] assms(2)
  have fits: "plan_fits l r (plan_of env meta l r)"
    by (auto simp: pair_ready_def plan_of_def)
  have g: "?g < length ls" "?g < length rs" "tr_group_index r = tr_group_index l" "region_ok l" "region_ok r"
    using assms(2,6) by (auto simp: pair_ready_def blocks_within_def list_all2_lengthD)
  have "(s, d) \<in> set (pair_bytes l r (plan_of env meta l r) (ls ! ?g) (rs ! ?g))"
    using assms(1) by (auto simp: region_bytes_def split: if_splits)
  then show ?thesis
    using assms(3-6) g by (intro pair_bytes_payload [OF _ fits]) (auto simp: list_all_length blocks_within_def)
qed

lemma request_bytes_cases:
  assumes "x \<in> set (request_bytes env meta locals remotes q)"
  obtains d_req_id local_ids t remote_ids ls rs where "q = (d_req_id, local_ids)"
    "dict_get (am_req_blocks meta) d_req_id = Some (t, remote_ids)"
    "prepare_request env locals remotes local_ids remote_ids = Inr (CopyGroups ls rs)"
    "x \<in> set (concat (map (region_bytes env meta ls rs) (zip locals remotes)))"
proof -
  obtain d_req_id local_ids where q: "q = (d_req_id, local_ids)"
    by (cases q)
  from assms obtain t remote_ids where blocks: "dict_get (am_req_blocks meta) d_req_id = Some (t, remote_ids)"
    by (cases "dict_get (am_req_blocks meta) d_req_id") (auto simp: request_bytes_def q)
  from assms blocks obtain ls rs where "prepare_request env locals remotes local_ids remote_ids = Inr (CopyGroups ls rs)"
    by (cases "prepare_request env locals remotes local_ids remote_ids")
      (auto simp: request_bytes_def q split: request_plan.splits)
  with that q blocks assms show thesis
    by (simp add: request_bytes_def)
qed

lemma bytes_in_payloads:
  assumes accept: "accept_metadata sn meta = Inr (Inr (locals, remotes))"
    and known: "list_all (known_request (sn_env sn) meta) ready" and kernel: "kernel_expansion (sn_env sn)"
    and build: "build_transfer_params (sn_env sn) ready meta locals remotes = Inr params"
    and byte: "(s, d) \<in> set (copied (tp_descriptors params))"
  shows "\<exists>(l, r) \<in> set (zip locals remotes). payload_byte l s \<and> payload_byte r d"
proof -
  let ?env = "sn_env sn"
  note acc = accepted_pairs [OF accept]
  have "copied (tp_descriptors params) = concat (map (request_bytes ?env meta locals remotes) ready)"
    using build_bytes [OF acc known kernel, of "\<lparr>tp_descriptors = [], tp_err_reqs = [], tp_err_msg = None\<rparr>"] build
    by (simp add: build_transfer_params_def copied_def)
  with byte obtain x where x: "x \<in> set ready" "(s, d) \<in> set (request_bytes ?env meta locals remotes x)"
    by auto
  from request_bytes_cases [OF x(2)] obtain d_req_id local_ids t remote_ids ls rs where blocks: "x = (d_req_id, local_ids)"
      "dict_get (am_req_blocks meta) d_req_id = Some (t, remote_ids)"
    and plan: "prepare_request ?env locals remotes local_ids remote_ids = Inr (CopyGroups ls rs)"
    and mem: "(s, d) \<in> set (concat (map (region_bytes ?env meta ls rs) (zip locals remotes)))" .
  have "length remote_ids \<le> length (xe_mamba ?env)"
    using known x(1) blocks by (auto simp: list_all_iff known_request_def)
  note groups = prepared_groups [OF plan this kernel]
  from mem obtain l r where lr: "(l, r) \<in> set (zip locals remotes)" "(s, d) \<in> set (region_bytes ?env meta ls rs (l, r))"
    by auto
  have "blocks_within ls l" "blocks_within rs r"
    using groups lr(1) by (auto simp: list_all_iff dest: set_zip_leftD set_zip_rightD)
  then have "payload_byte l s \<and> payload_byte r d"
    using region_bytes_payload [OF lr(2) pairs_ready [OF acc _ _ lr(1)]] groups by simp
  then show ?thesis
    using lr(1) by blast
qed

text \<open>
  C23. Every byte of a transfer is read from the payload of a block that the producer registered and
  written into the payload of a block that the consumer registered, block ids below the registered
  capacities on both sides: a request cannot make the engine touch other memory.
\<close>

theorem transfer_stays_in_payloads:
  assumes accept: "accept_metadata sn meta = Inr (Inr (locals, remotes))"
    and known: "list_all (known_request (sn_env sn) meta) ready" and kernel: "kernel_expansion (sn_env sn)"
    and build: "build_transfer_params (sn_env sn) ready meta locals remotes = Inr params"
    and byte: "(s, d) \<in> set (copied (tp_descriptors params))"
  shows "\<exists>(l, r) \<in> set (zip locals remotes). payload_byte l s \<and> payload_byte r d"
  by (rule bytes_in_payloads [OF assms])

definition demo_params :: transfer_params where
  "demo_params = \<lparr>tp_descriptors = [(1016, 5020, 4), (1020, 5028, 4), (1028, 5052, 4)], tp_err_reqs = [], tp_err_msg = None\<rparr>"

theorem transfer_stays_in_payloads_witness:
  "\<exists>(l, r) \<in> set (zip (fst (projr demo_regions)) (snd (projr demo_regions))). payload_byte l 1017 \<and> payload_byte r 5021"
proof (rule transfer_stays_in_payloads [OF _ demo_sender_facts])
  show "accept_metadata demo_sender demo_meta = Inr (Inr (fst (projr demo_regions), snd (projr demo_regions)))"
    by (simp add: demo_accepts demo_regions_def)
  show "build_transfer_params (sn_env demo_sender) [(''d'', [[1, 4, 5, 7]])] demo_meta
      (fst (projr demo_regions)) (snd (projr demo_regions)) = Inr demo_params"
    by code_simp
  show "(1017, 5021) \<in> set (copied (tp_descriptors demo_params))"
    by code_simp
qed

section \<open>Tensor-parallel groups of different sizes\<close>

text \<open>
  What a plan does with one block: byte \<open>s\<close> of the producer's payload goes to byte \<open>x\<close> of the consumer's.
\<close>

definition moves :: "sender_plan result \<Rightarrow> int \<Rightarrow> int \<Rightarrow> bool" where
  "moves plan s x \<longleftrightarrow> (case plan of Inr (should, so, dof, len) \<Rightarrow> should \<and> so \<le> s \<and> s < so + len \<and> x = dof + (s - so) | Inl _ \<Rightarrow> False)"

text \<open>
  Producer rank \<open>p\<close> and consumer rank \<open>q\<close> work together: the producer group is \<open>t\<close> times larger, or the consumer
  group is \<open>- t\<close> times larger.
\<close>

definition paired :: "int \<Rightarrow> int \<Rightarrow> int \<Rightarrow> bool" where
  "paired t p q \<longleftrightarrow> (if 0 < t then p div t = q else q div (- t) = p)"

definition rank_plan :: "topology \<Rightarrow> int \<Rightarrow> transfer_region \<Rightarrow> transfer_region \<Rightarrow> int \<Rightarrow> int \<Rightarrow> sender_plan result" where
  "rank_plan topo tps l r p q =
     compute_sender_transfer_plan (topo\<lparr>topo_tp_rank := p\<rparr>) q tps (tr_kv_block_len l) (tr_kv_block_len r) (topo_replicates topo)"

text \<open>The sizes that a sharded cache has on the two sides.\<close>

definition shard_sizes :: "int \<Rightarrow> int \<Rightarrow> int \<Rightarrow> bool" where
  "shard_sizes t m n \<longleftrightarrow> 0 < m \<and> 0 < n \<and> (0 < t \<and> n = m * t \<or> t < 0 \<and> m = n * (- t))"

lemma lens_shard_sizes:
  assumes "lens_match topo tps (l, r)" and "0 < tr_kv_block_len l" and "topo_tp_ratio topo tps = t" and "\<not> topo_replicates topo"
  shows "shard_sizes t (tr_kv_block_len l) (tr_kv_block_len r)"
proof (cases "0 < t")
  case True
  then show ?thesis
    using assms by (auto simp: shard_sizes_def lens_match_def split: if_splits)
next
  case False
  then have len: "tr_kv_block_len l = tr_kv_block_len r * (- t)"
    using assms by (auto simp: lens_match_def)
  then have "0 < tr_kv_block_len r * (- t)" "0 \<le> - t"
    using assms(2) False by simp_all
  then have "0 < tr_kv_block_len r" "t < 0"
    by (auto simp: zero_less_mult_iff mult_less_0_iff)
  then show ?thesis
    using len assms(2) by (simp add: shard_sizes_def)
qed

lemma byte_rank: "0 \<le> s \<Longrightarrow> s < m \<Longrightarrow> (p * m + s) div m = (p :: int)"
  by (rule int_div_pos_eq [of _ m p s]) (simp_all add: mult.commute)

lemma same_byte_paired:
  assumes sizes: "shard_sizes t m n" and byte: "p * m + s = q * n + x" and s: "0 \<le> s" "s < m" and x: "0 \<le> x" "x < n"
  shows "paired t p q"
proof -
  have p: "(p * m + s) div m = p" and q: "(p * m + s) div n = q"
    using byte_rank [OF s, of p] byte_rank [OF x, of q] byte by simp_all
  consider "0 < t" "n = m * t" | "t < 0" "m = n * (- t)"
    using sizes by (auto simp: shard_sizes_def)
  then show ?thesis
  proof cases
    case 1
    then have "(p * m + s) div n = (p * m + s) div m div t"
      using zdiv_zmult2_eq [of t "p * m + s" m] by simp
    then show ?thesis
      using 1 p q by (simp add: paired_def)
  next
    case 2
    then have "(p * m + s) div m = (p * m + s) div n div (- t)"
      using zdiv_zmult2_eq [of "- t" "p * m + s" n] by simp
    then show ?thesis
      using 2 p q by (simp add: paired_def)
  qed
qed

lemma slot_in_shards: "0 < m \<Longrightarrow> 0 < a \<Longrightarrow> 0 \<le> s \<Longrightarrow> s < m \<Longrightarrow> 0 \<le> p mod a * m + s \<and> p mod a * m + s < m * (a :: int)"
proof -
  assume a: "0 < m" "0 < a" and s: "0 \<le> s" "s < m"
  have "p mod a + 1 \<le> a"
    using pos_mod_bound [OF a(2), of p] by linarith
  then have "(p mod a + 1) * m \<le> a * m"
    using a(1) by (intro mult_right_mono) simp_all
  then have "p mod a * m + m \<le> m * a"
    by (simp add: algebra_simps)
  moreover have "0 \<le> p mod a * m"
    using a pos_mod_sign [OF a(2), of p] by simp
  ultimately show ?thesis
    using s by linarith
qed

lemma sharded_moves:
  assumes lens: "lens_match topo tps (l, r)" and pos: "0 < tr_kv_block_len l" and t: "topo_tp_ratio topo tps = t"
    and sharded: "\<not> topo_replicates topo" and pq: "paired t p q"
  shows "moves (rank_plan topo tps l r p q) s x \<longleftrightarrow> 0 \<le> s \<and> s < tr_kv_block_len l \<and> 0 \<le> x \<and> x < tr_kv_block_len r
    \<and> p * tr_kv_block_len l + s = q * tr_kv_block_len r + x" (is "_ \<longleftrightarrow> 0 \<le> s \<and> s < ?m \<and> 0 \<le> x \<and> x < ?n \<and> _")
proof -
  consider "t = 1" "?n = ?m" "p = q" | "1 < t" "?n = ?m * t" "p div t = q" | "t < 0" "?m = ?n * (- t)" "q div (- t) = p" "0 < ?n"
    using lens_shard_sizes [OF lens pos t sharded] pq by (cases "t = 1") (auto simp: shard_sizes_def paired_def)
  then show ?thesis
  proof cases
    case 1
    then show ?thesis
      using t by (auto simp: rank_plan_def compute_sender_transfer_plan_def moves_def)
  next
    case 2
    have plan: "rank_plan topo tps l r p q = Inr (True, 0, p mod t * ?m, ?m)"
      using 2(1) t sharded by (simp add: rank_plan_def compute_sender_transfer_plan_def)
    have "p * ?m = q * ?n + p mod t * ?m"
      using div_mult_mod_eq [of p t] 2(2,3) by (metis distrib_right mult.assoc mult.commute)
    then show ?thesis
      using slot_in_shards [OF pos, of t s p] 2(1,2) by (auto simp: plan moves_def)
  next
    case 3
    define k where "k = q mod (- t) * ?n"
    have plan: "rank_plan topo tps l r p q = Inr (True, k, 0, ?n)"
      using 3(1) t sharded by (simp add: rank_plan_def compute_sender_transfer_plan_def k_def)
    have "q * ?n = p * ?m + k"
      using div_mult_mod_eq [of q "- t"] 3(2,3) unfolding k_def by (metis distrib_right mult.assoc mult.commute)
    moreover have "0 \<le> k" and "0 \<le> x \<and> x < ?n \<Longrightarrow> k + x < ?m"
      using 3 slot_in_shards [OF 3(4), of "- t" 0 q] slot_in_shards [OF 3(4), of "- t" x q] by (simp_all add: k_def)
    ultimately show ?thesis
      by (auto simp: plan moves_def)
  qed
qed

lemma replicated_moves:
  assumes lens: "lens_match topo tps (l, r)" and t: "topo_tp_ratio topo tps = t" and rep: "topo_replicates topo"
  shows "moves (rank_plan topo tps l r p q) s x \<longleftrightarrow> 0 \<le> s \<and> s < tr_kv_block_len l \<and> s = x \<and> (0 < t \<longrightarrow> p mod t = 0)"
  using lens t rep by (auto simp: rank_plan_def compute_sender_transfer_plan_def moves_def lens_match_def Let_def)

lemma consumer_byte_once:
  assumes lens: "lens_match topo tps (l, r)" and pos: "0 < tr_kv_block_len l" and t: "topo_tp_ratio topo tps = t" "t \<noteq> 0"
    and x: "0 \<le> x" "x < tr_kv_block_len r"
  shows "\<exists>!(p, s). paired t p q \<and> moves (rank_plan topo tps l r p q) s x"
proof (cases "topo_replicates topo")
  case True
  then have len: "tr_kv_block_len l = tr_kv_block_len r"
    using lens by (simp add: lens_match_def)
  let ?p = "if 0 < t then q * t else q div (- t)"
  have "paired t p q \<and> (0 < t \<longrightarrow> p mod t = 0) \<longleftrightarrow> p = ?p" for p
  proof (cases "0 < t")
    case True
    have "p = q * t" if "p div t = q" "p mod t = 0"
      using div_mult_mod_eq [of p t] that by (simp only: add_0_right)
    then show ?thesis
      using True by (auto simp: paired_def)
  qed (auto simp: paired_def)
  moreover have "moves (rank_plan topo tps l r p q) s x \<longleftrightarrow> s = x \<and> (0 < t \<longrightarrow> p mod t = 0)" for p s
    unfolding replicated_moves [OF lens t(1) True] len using x by blast
  ultimately have "paired t p q \<and> moves (rank_plan topo tps l r p q) s x \<longleftrightarrow> p = ?p \<and> s = x" for p s
    by blast
  then show ?thesis
    by auto
next
  case False
  note moves = sharded_moves [OF lens pos t(1) False]
  let ?m = "tr_kv_block_len l" and ?g = "q * tr_kv_block_len r + x"
  have "paired t p q \<and> moves (rank_plan topo tps l r p q) s x \<longleftrightarrow> p = ?g div ?m \<and> s = ?g mod ?m" for p s
  proof
    assume "paired t p q \<and> moves (rank_plan topo tps l r p q) s x"
    then have "0 \<le> s" "s < ?m" "p * ?m + s = ?g"
      using moves by auto
    then show "p = ?g div ?m \<and> s = ?g mod ?m"
      using byte_rank [of s ?m p] div_mult_mod_eq [of ?g ?m] by auto
  next
    assume "p = ?g div ?m \<and> s = ?g mod ?m"
    then have s: "0 \<le> s" "s < ?m" "p * ?m + s = ?g"
      using pos div_mult_mod_eq [of ?g ?m] by auto
    then show "paired t p q \<and> moves (rank_plan topo tps l r p q) s x"
      using same_byte_paired [OF lens_shard_sizes [OF lens pos t(1) False] s(3,1,2) x] moves x by blast
  qed
  then show ?thesis
    by auto
qed

lemma producer_byte_once:
  assumes lens: "lens_match topo tps (l, r)" and pos: "0 < tr_kv_block_len l" and t: "topo_tp_ratio topo tps = t"
    and sharded: "\<not> topo_replicates topo" and s: "0 \<le> s" "s < tr_kv_block_len l"
  shows "\<exists>!(q, x). paired t p q \<and> moves (rank_plan topo tps l r p q) s x"
proof -
  note moves = sharded_moves [OF lens pos t sharded] and sizes = lens_shard_sizes [OF lens pos t sharded]
  let ?n = "tr_kv_block_len r" and ?g = "p * tr_kv_block_len l + s"
  have n: "0 < ?n"
    using sizes by (simp add: shard_sizes_def)
  have "paired t p q \<and> moves (rank_plan topo tps l r p q) s x \<longleftrightarrow> q = ?g div ?n \<and> x = ?g mod ?n" for q x
  proof
    assume "paired t p q \<and> moves (rank_plan topo tps l r p q) s x"
    then have "0 \<le> x" "x < ?n" "q * ?n + x = ?g"
      using moves by auto
    then show "q = ?g div ?n \<and> x = ?g mod ?n"
      using byte_rank [of x ?n q] div_mult_mod_eq [of ?g ?n] by auto
  next
    assume "q = ?g div ?n \<and> x = ?g mod ?n"
    then have x: "0 \<le> x" "x < ?n" "?g = q * ?n + x"
      using n div_mult_mod_eq [of ?g ?n] by auto
    then show "paired t p q \<and> moves (rank_plan topo tps l r p q) s x"
      using same_byte_paired [OF sizes x(3) s x(1,2)] moves s by blast
  qed
  then show ?thesis
    by auto
qed

text \<open>
  C26. Tensor-parallel groups of any two sizes, for regions that passed
  \<open>_validate_asymmetric_region_lengths\<close>; the producer group is \<open>t\<close> times larger, or the consumer group
  \<open>- t\<close> times.  With a sharded cache, a producer and a consumer that are paired move exactly the bytes
  they share: byte \<open>s\<close> of producer \<open>p\<close> to byte \<open>x\<close> of consumer \<open>q\<close> when both are the same byte of the whole
  block.  With a replicated one a byte keeps its place, and of the producers paired with a consumer
  the first sends.  In all four cases every byte of a consumer's payload is written exactly once, and
  with a sharded cache every byte of a producer's payload is read exactly once.
\<close>

theorem payload_shared_out_exactly_once:
  assumes lens: "lens_match topo tps (l, r)" and pos: "0 < tr_kv_block_len l" and t: "topo_tp_ratio topo tps = t" "t \<noteq> 0"
  shows "(\<forall>p q s x. paired t p q \<longrightarrow>
      (moves (rank_plan topo tps l r p q) s x \<longleftrightarrow> 0 \<le> s \<and> s < tr_kv_block_len l \<and> 0 \<le> x \<and> x < tr_kv_block_len r
        \<and> (if topo_replicates topo then s = x \<and> (0 < t \<longrightarrow> p mod t = 0)
           else p * tr_kv_block_len l + s = q * tr_kv_block_len r + x)))
    \<and> (\<forall>q x. 0 \<le> x \<and> x < tr_kv_block_len r \<longrightarrow> (\<exists>!(p, s). paired t p q \<and> moves (rank_plan topo tps l r p q) s x))
    \<and> (\<forall>p s. \<not> topo_replicates topo \<and> 0 \<le> s \<and> s < tr_kv_block_len l \<longrightarrow>
        (\<exists>!(q, x). paired t p q \<and> moves (rank_plan topo tps l r p q) s x))"
proof (intro conjI allI impI)
  fix p q s x
  assume pq: "paired t p q"
  show "moves (rank_plan topo tps l r p q) s x \<longleftrightarrow> 0 \<le> s \<and> s < tr_kv_block_len l \<and> 0 \<le> x \<and> x < tr_kv_block_len r
        \<and> (if topo_replicates topo then s = x \<and> (0 < t \<longrightarrow> p mod t = 0)
           else p * tr_kv_block_len l + s = q * tr_kv_block_len r + x)"
  proof (cases "topo_replicates topo")
    case True
    then have "tr_kv_block_len l = tr_kv_block_len r"
      using lens by (simp add: lens_match_def)
    then show ?thesis
      unfolding replicated_moves [OF lens t(1) True] using True by auto
  qed (simp add: sharded_moves [OF lens pos t(1) _ pq])
next
  fix q x
  assume "0 \<le> x \<and> x < tr_kv_block_len r"
  then show "\<exists>!(p, s). paired t p q \<and> moves (rank_plan topo tps l r p q) s x"
    using consumer_byte_once [OF lens pos t] by blast
next
  fix p s
  assume "\<not> topo_replicates topo \<and> 0 \<le> s \<and> s < tr_kv_block_len l"
  then show "\<exists>!(q, x). paired t p q \<and> moves (rank_plan topo tps l r p q) s x"
    using producer_byte_once [OF lens pos t(1)] by blast
qed

theorem payload_shared_out_exactly_once_witness:
  "(\<exists>!(p, s). paired 2 p 0 \<and> moves (rank_plan (xe_topo demo_env2) 1 (hd (fst (projr demo_regions))) (hd (snd (projr demo_regions))) p 0) s 5)
   \<and> moves (rank_plan (xe_topo demo_env2) 1 (hd (fst (projr demo_regions))) (hd (snd (projr demo_regions))) 1 0) 1 5"
proof -
  let ?l = "hd (fst (projr demo_regions))" and ?r = "hd (snd (projr demo_regions))"
  have facts: "lens_match (xe_topo demo_env2) 1 (?l, ?r)" "0 < tr_kv_block_len ?l" "topo_tp_ratio (xe_topo demo_env2) 1 = 2" "(2 :: int) \<noteq> 0"
    by code_simp+
  have sizes: "tr_kv_block_len ?l = 4" "tr_kv_block_len ?r = 8" "\<not> topo_replicates (xe_topo demo_env2)"
    by code_simp+
  note all = payload_shared_out_exactly_once [OF facts]
  have "\<exists>!(p, s). paired 2 p 0 \<and> moves (rank_plan (xe_topo demo_env2) 1 ?l ?r p 0) s 5"
    using conjunct1 [OF conjunct2 [OF all], rule_format, of 5 0] sizes by simp
  moreover have "moves (rank_plan (xe_topo demo_env2) 1 ?l ?r 1 0) 1 5"
    using conjunct1 [OF all, rule_format, of 1 0 1 5] sizes by (simp add: paired_def)
  ultimately show ?thesis
    by (rule conjI)
qed

end
