(* ===== verification/Mooncake_Bootstrap.thy ===== *)
theory Mooncake_Bootstrap
  imports Patch_Registry
begin

text \<open>
  How a decode worker finds the prefill workers, in \<open>mooncake_connector.py\<close>: the bootstrap server that
  records the address of every prefill worker, the check of the recorded topology, and the choice of
  the workers to ask for a request.

  A worker is known by its data-parallel, (virtual) tensor-parallel and pipeline rank.  With the layer
  split the virtual rank is \<open>tp_rank * pcp_size + pcp_rank\<close>; without it only the workers of context-parallel
  rank 0 register.  The HTTP transport is not modelled: what \<open>/query\<close> answers is an argument.
\<close>

type_synonym worker_addrs = "(int, (int, string) dict) dict"

record register_payload =
  rp_engine_id :: string
  rp_dp_rank :: int
  rp_tp_rank :: int
  rp_pp_rank :: int
  rp_addr :: string
  rp_pcp_size :: int
  rp_layer_split :: bool

record engine_entry =
  ee_engine_id :: string
  ee_worker_addr :: worker_addrs
  ee_pcp_size :: int
  ee_layer_split :: bool

type_synonym bootstrap = "(int, engine_entry) dict"

section \<open>Checking a topology\<close>

definition text_ints :: "int list \<Rightarrow> string" where
  "text_ints xs = ''['' @ py_join '', '' (map str_int xs) @ '']''"

definition text_int_tuple :: "int list \<Rightarrow> string" where
  "text_int_tuple xs = ''('' @ py_join '', '' (map str_int xs) @ (if length xs = 1 then '','' else []) @ '')''"

definition int_range :: "nat \<Rightarrow> int list" where
  "int_range n = map int [0..<n]"

definition check_split_ranks :: "int list \<Rightarrow> int \<Rightarrow> unit result" where
  "check_split_ranks ranks pcp_size =
     (if ranks \<noteq> int_range (length ranks)
      then raise ValueError (''Mooncake bootstrap registered non-contiguous virtual TP ranks: '' @ text_ints ranks)
      else if int (length ranks) mod pcp_size \<noteq> 0
      then raise ValueError (''Mooncake bootstrap registered an incomplete PCP topology: workers='' @ str_nat (length ranks)
             @ '', pcp_size='' @ str_int pcp_size)
      else Inr ())"

definition check_replicated_ranks :: "int list \<Rightarrow> int \<Rightarrow> unit result" where
  "check_replicated_ranks ranks pcp_size =
     (if list_ex (\<lambda>r. r < 0 \<or> r mod pcp_size \<noteq> 0) ranks
      then raise ValueError (''Mooncake bootstrap registered invalid replicated-PCP ranks: '' @ text_ints ranks
             @ '' (pcp_size='' @ str_int pcp_size @ '')'')
      else if ranks \<noteq> map (\<lambda>i. i * pcp_size) (int_range (length ranks))
      then raise ValueError (''Mooncake bootstrap registered non-contiguous replicated-PCP ranks: '' @ text_ints ranks)
      else Inr ())"

definition pp_rank_sets :: "worker_addrs \<Rightarrow> int list list" where
  "pp_rank_sets workers = remdups (map (\<lambda>(_, pps). sort (dict_keys pps)) workers)"

definition check_pp_ranks :: "worker_addrs \<Rightarrow> unit result" where
  "check_pp_ranks workers =
     (let sets = pp_rank_sets workers
      in if length sets \<noteq> 1
         then raise ValueError (''Mooncake bootstrap registered inconsistent PP rank sets: ''
                @ ''['' @ py_join '', '' (map text_int_tuple (sort sets)) @ '']'')
         else if hd sets \<noteq> int_range (length (hd sets))
         then raise ValueError (''Mooncake bootstrap registered non-contiguous PP ranks: '' @ text_int_tuple (hd sets))
         else Inr ())"

definition validate_bootstrap_worker_topology :: "worker_addrs \<Rightarrow> int \<Rightarrow> bool \<Rightarrow> unit result" where
  "validate_bootstrap_worker_topology workers pcp_size layer_split =
     (if pcp_size \<le> 0
      then raise ValueError (''Mooncake bootstrap pcp_size must be positive, got '' @ str_int pcp_size)
      else let ranks = sort (dict_keys workers)
      in if ranks = [] then raise ValueError ''Mooncake bootstrap registered no virtual TP workers''
      else and_then (if layer_split then check_split_ranks ranks pcp_size else check_replicated_ranks ranks pcp_size)
             (\<lambda>_. check_pp_ranks workers))"

section \<open>The server\<close>

definition http_400 :: "string \<Rightarrow> exn" where
  "http_400 detail = Exn (OtherError ''HTTPException'') (''400: '' @ detail)"

definition text_bool :: "bool \<Rightarrow> string" where
  "text_bool b = (if b then ''True'' else ''False'')"

definition new_engine :: "register_payload \<Rightarrow> engine_entry" where
  "new_engine payload = \<lparr>ee_engine_id = rp_engine_id payload, ee_worker_addr = [], ee_pcp_size = rp_pcp_size payload,
     ee_layer_split = rp_layer_split payload\<rparr>"

text \<open>The entries are objects that the code updates in place; here the updated entry is stored back.\<close>

definition put_engine :: "int \<Rightarrow> engine_entry \<Rightarrow> (bootstrap, unit) op" where
  "put_engine dp_rank e = modify (dict_set dp_rank e)"

definition add_address :: "register_payload \<Rightarrow> engine_entry \<Rightarrow> (bootstrap, unit) op" where
  "add_address payload e0 =
     (let tp = rp_tp_rank payload; pp = rp_pp_rank payload;
          e = (if dict_get (ee_worker_addr e0) tp = None
               then e0\<lparr>ee_worker_addr := dict_set tp [] (ee_worker_addr e0)\<rparr> else e0);
          tp_entry = the (dict_get (ee_worker_addr e) tp)
      in seq_op (put_engine (rp_dp_rank payload) e)
           (case dict_get tp_entry pp of
              Some old \<Rightarrow> throw (http_400 (''Worker with dp_rank='' @ str_int (rp_dp_rank payload) @ '', tp_rank='' @ str_int tp
                           @ '', pp_rank='' @ str_int pp @ '' is already registered at '' @ old
                           @ '', but still want to register at '' @ rp_addr payload))
            | None \<Rightarrow> put_engine (rp_dp_rank payload)
                (e\<lparr>ee_worker_addr := dict_set tp (dict_set pp (rp_addr payload) tp_entry) (ee_worker_addr e)\<rparr>)))"

definition register_worker :: "register_payload \<Rightarrow> (bootstrap, unit) op" where
  "register_worker payload =
     (if rp_pcp_size payload \<le> 0
      then throw (http_400 (''pcp_size must be positive, got '' @ str_int (rp_pcp_size payload)))
      else if rp_tp_rank payload < 0 \<or> rp_pp_rank payload < 0
      then throw (http_400 (''tp_rank and pp_rank must be non-negative, got tp_rank='' @ str_int (rp_tp_rank payload)
             @ '', pp_rank='' @ str_int (rp_pp_rank payload)))
      else bind_op (gets (\<lambda>s. dict_get s (rp_dp_rank payload))) (\<lambda>found.
           seq_op (if found = None then put_engine (rp_dp_rank payload) (new_engine payload) else ret ())
             (let e = (case found of None \<Rightarrow> new_engine payload | Some e \<Rightarrow> e)
              in if ee_engine_id e \<noteq> rp_engine_id payload
                 then throw (http_400 (''Engine ID mismatch for dp_rank='' @ str_int (rp_dp_rank payload) @ '': expected ''
                        @ ee_engine_id e @ '', got '' @ rp_engine_id payload))
                 else if ee_pcp_size e \<noteq> rp_pcp_size payload \<or> ee_layer_split e \<noteq> rp_layer_split payload
                 then throw (http_400 (''PCP topology mismatch for dp_rank='' @ str_int (rp_dp_rank payload)
                        @ '': registered pcp_size='' @ str_int (ee_pcp_size e) @ ''/layer_split='' @ text_bool (ee_layer_split e)
                        @ '', got pcp_size='' @ str_int (rp_pcp_size payload) @ ''/layer_split='' @ text_bool (rp_layer_split payload)))
                 else add_address payload e)))"

definition query :: "bootstrap \<Rightarrow> bootstrap" where
  "query s = s"

section \<open>The consumer's view\<close>

record remote_view =
  rv_agents :: "(string, worker_addrs) dict"
  rv_pcp_info :: "(string, int \<times> bool) dict"
  rv_tp_size :: "(string, int) dict"

definition learn_engine :: "engine_entry \<Rightarrow> remote_view \<Rightarrow> remote_view" where
  "learn_engine e v =
     (let pcp = (if ee_pcp_size e = 0 then 1 else ee_pcp_size e); n = int (length (ee_worker_addr e))
      in v\<lparr>rv_agents := dict_set (ee_engine_id e) (ee_worker_addr e) (rv_agents v),
           rv_pcp_info := dict_set (ee_engine_id e) (pcp, ee_layer_split e) (rv_pcp_info v),
           rv_tp_size := dict_set (ee_engine_id e) (if ee_layer_split e then n div pcp else n) (rv_tp_size v)\<rparr>)"

text \<open>An exception ends the loop and is logged; what was learnt before it stays.\<close>

fun learn_engines :: "engine_entry list \<Rightarrow> remote_view \<Rightarrow> remote_view" where
  "learn_engines [] v = v"
| "learn_engines (e # es) v =
     (case validate_bootstrap_worker_topology (ee_worker_addr e) (if ee_pcp_size e = 0 then 1 else ee_pcp_size e) (ee_layer_split e) of
        Inl _ \<Rightarrow> v
      | Inr _ \<Rightarrow> learn_engines es (learn_engine e v))"

definition connect_to_prefiller_bootstrap :: "bootstrap result \<Rightarrow> remote_view \<Rightarrow> remote_view" where
  "connect_to_prefiller_bootstrap response v =
     (case response of Inl _ \<Rightarrow> v | Inr data \<Rightarrow> learn_engines (map snd data) v)"

definition dict_at :: "(int, 'v) dict \<Rightarrow> int \<Rightarrow> 'v result" where
  "dict_at d k = (case dict_get d k of Some x \<Rightarrow> Inr x | None \<Rightarrow> raise KeyError (str_int k))"

definition virtual_ranks :: "int \<Rightarrow> bool \<Rightarrow> int list \<Rightarrow> int list" where
  "virtual_ranks pcp layer_split tp_ranks =
     (if pcp > 1
      then if \<not> layer_split then map (\<lambda>tp. tp * pcp) tp_ranks
           else concat (map (\<lambda>tp. map (\<lambda>c. tp * pcp + c) (int_range (nat pcp))) tp_ranks)
      else tp_ranks)"

definition pp_ranks_of :: "int \<Rightarrow> int \<Rightarrow> (int, string) dict \<Rightarrow> int list" where
  "pp_ranks_of pp_rank pp_size pps =
     (if pp_size = int (length pps) \<and> dict_get pps pp_rank \<noteq> None then [pp_rank] else sort (dict_keys pps))"

definition worker_addresses :: "int \<Rightarrow> int \<Rightarrow> worker_addrs \<Rightarrow> int \<Rightarrow> string list result" where
  "worker_addresses pp_rank pp_size workers rank =
     and_then (dict_at workers rank) (\<lambda>pps. map_result (dict_at pps) (pp_ranks_of pp_rank pp_size pps))"

text \<open>
  The addresses \<open>receive_kv\<close> asks; their number becomes the number of outstanding answers of each
  request.  \<open>target_ranks\<close> is vLLM's \<open>handshake_target_ranks\<close>.
\<close>

definition receive_targets ::
    "(int \<Rightarrow> int list) \<Rightarrow> int \<Rightarrow> int \<Rightarrow> remote_view \<Rightarrow> string \<Rightarrow> string list result" where
  "receive_targets target_ranks pp_rank pp_size v engine =
     (case dict_get (rv_tp_size v) engine of
        None \<Rightarrow> raise KeyError (py_repr engine)
      | Some tp_size \<Rightarrow>
          (let (pcp, layer_split) = (case dict_get (rv_pcp_info v) engine of None \<Rightarrow> (1, False) | Some i \<Rightarrow> i);
               ranks = virtual_ranks pcp layer_split (target_ranks tp_size)
           in case dict_get (rv_agents v) engine of
                None \<Rightarrow> (if ranks = [] then Inr [] else raise KeyError (py_repr engine))
              | Some workers \<Rightarrow>
                  and_then (map_result (worker_addresses pp_rank pp_size workers) ranks) (\<lambda>addrs. Inr (concat addrs))))"

end
