(* ===== verification/Mooncake_Bootstrap_Correct.thy ===== *)
theory Mooncake_Bootstrap_Correct
  imports Mooncake_Bootstrap
begin

text \<open>
  The bootstrap server never loses or overwrites an address, a topology is accepted exactly when it
  is complete, and a consumer that learnt an engine asks every producer that holds part of its data.
\<close>

section \<open>Registration\<close>

definition worker_address :: "bootstrap \<Rightarrow> int \<Rightarrow> int \<Rightarrow> int \<Rightarrow> string option" where
  "worker_address s dp tp pp =
     (case dict_get s dp of
        None \<Rightarrow> None
      | Some e \<Rightarrow> (case dict_get (ee_worker_addr e) tp of None \<Rightarrow> None | Some pps \<Rightarrow> dict_get pps pp))"

lemma dict_set_same: "dict_get d k = Some v \<Longrightarrow> dict_set k v d = d"
  by (induction d) (auto split: if_splits)

lemma add_address_known:
  assumes "dict_get s (rp_dp_rank p) = Some e" and "dict_get (ee_worker_addr e) (rp_tp_rank p) = Some pps"
    and "dict_get pps (rp_pp_rank p) = Some old"
  shows "\<exists>err. add_address p e s = Some (Inl err, s)"
  using assms by (simp add: add_address_def put_engine_def op_defs op_simps Let_def dict_set_same)

lemma add_address_new:
  assumes "\<And>pps. dict_get (ee_worker_addr e) (rp_tp_rank p) = Some pps \<Longrightarrow> dict_get pps (rp_pp_rank p) = None"
  shows "\<exists>t. add_address p e s = Some (Inr (), t) \<and> (\<forall>dp tp pp.
    worker_address t dp tp pp = (if dp \<noteq> rp_dp_rank p then worker_address s dp tp pp
      else if tp = rp_tp_rank p \<and> pp = rp_pp_rank p then Some (rp_addr p)
      else (case dict_get (ee_worker_addr e) tp of None \<Rightarrow> None | Some pps \<Rightarrow> dict_get pps pp)))"
  using assms
  by (cases "dict_get (ee_worker_addr e) (rp_tp_rank p)")
    (auto simp: add_address_def put_engine_def op_defs op_simps Let_def worker_address_def split: option.split)

text \<open>The outcome of an attempt to add an address, in a state with the entry and in one without it.\<close>

definition added :: "register_payload \<Rightarrow> bootstrap \<Rightarrow> bootstrap \<Rightarrow> bool" where
  "added p s t \<longleftrightarrow> worker_address s (rp_dp_rank p) (rp_tp_rank p) (rp_pp_rank p) = None
     \<and> (\<forall>dp tp pp. worker_address t dp tp pp =
          (if (dp, tp, pp) = (rp_dp_rank p, rp_tp_rank p, rp_pp_rank p) then Some (rp_addr p) else worker_address s dp tp pp))"

lemma add_address_outcome:
  assumes e: "dict_get s (rp_dp_rank p) = Some e"
  shows "\<exists>r t. add_address p e s = Some (r, t) \<and> (case r of Inl _ \<Rightarrow> t = s | Inr _ \<Rightarrow> added p s t)"
proof (cases "worker_address s (rp_dp_rank p) (rp_tp_rank p) (rp_pp_rank p)")
  case (Some old)
  with e obtain pps where "dict_get (ee_worker_addr e) (rp_tp_rank p) = Some pps" "dict_get pps (rp_pp_rank p) = Some old"
    by (auto simp: worker_address_def split: option.splits)
  from add_address_known [OF e this] show ?thesis
    by auto
next
  case None
  then have new: "dict_get pps (rp_pp_rank p) = None" if "dict_get (ee_worker_addr e) (rp_tp_rank p) = Some pps" for pps
    using that e by (simp add: worker_address_def)
  obtain t where "add_address p e s = Some (Inr (), t)"
    and "\<forall>dp tp pp. worker_address t dp tp pp = (if dp \<noteq> rp_dp_rank p then worker_address s dp tp pp
      else if tp = rp_tp_rank p \<and> pp = rp_pp_rank p then Some (rp_addr p)
      else (case dict_get (ee_worker_addr e) tp of None \<Rightarrow> None | Some pps \<Rightarrow> dict_get pps pp))"
    using add_address_new [where e = e and p = p and s = s] new by auto
  moreover from this(2) have "added p s t"
    using None e by (simp add: added_def) (simp add: worker_address_def)
  ultimately show ?thesis
    by simp
qed

lemma add_address_first:
  assumes "dict_get s (rp_dp_rank p) = None"
  shows "\<exists>t. add_address p (new_engine p) (dict_set (rp_dp_rank p) (new_engine p) s) = Some (Inr (), t) \<and> added p s t"
proof -
  obtain t where "add_address p (new_engine p) (dict_set (rp_dp_rank p) (new_engine p) s) = Some (Inr (), t)"
    and "\<forall>dp tp pp. worker_address t dp tp pp = (if dp \<noteq> rp_dp_rank p then worker_address (dict_set (rp_dp_rank p) (new_engine p) s) dp tp pp
      else if tp = rp_tp_rank p \<and> pp = rp_pp_rank p then Some (rp_addr p)
      else (case dict_get (ee_worker_addr (new_engine p)) tp of None \<Rightarrow> None | Some pps \<Rightarrow> dict_get pps pp))"
    using add_address_new [of "new_engine p" p "dict_set (rp_dp_rank p) (new_engine p) s"] by (auto simp: new_engine_def)
  then show ?thesis
    using assms by (simp add: added_def worker_address_def new_engine_def)
qed

text \<open>
  A registration is all or nothing: a refused one leaves the server as it was, and an accepted one
  adds the address of exactly the worker that registered, which had none, and changes no other.
\<close>

theorem registration_all_or_nothing:
  "\<exists>r t. register_worker p s = Some (r, t)
    \<and> (case r of
         Inl _ \<Rightarrow> t = s
       | Inr _ \<Rightarrow> worker_address s (rp_dp_rank p) (rp_tp_rank p) (rp_pp_rank p) = None
           \<and> (\<forall>dp tp pp. worker_address t dp tp pp =
                (if (dp, tp, pp) = (rp_dp_rank p, rp_tp_rank p, rp_pp_rank p) then Some (rp_addr p) else worker_address s dp tp pp)))"
  unfolding added_def [symmetric]
proof (cases "dict_get s (rp_dp_rank p)")
  case None
  then show "\<exists>r t. register_worker p s = Some (r, t) \<and> (case r of Inl _ \<Rightarrow> t = s | Inr _ \<Rightarrow> added p s t)"
    using add_address_first [OF None] by (auto simp: register_worker_def put_engine_def op_defs op_simps new_engine_def)
next
  case (Some e)
  then show "\<exists>r t. register_worker p s = Some (r, t) \<and> (case r of Inl _ \<Rightarrow> t = s | Inr _ \<Rightarrow> added p s t)"
    using add_address_outcome [OF Some] by (auto simp: register_worker_def op_defs op_simps)
qed

section \<open>Complete topologies\<close>

lemma int_range_props [simp]: "sorted (int_range n)" "distinct (int_range n)" "set (int_range n) = {0..<int n}" "length (int_range n) = n"
  using image_int_atLeastLessThan [of 0 n] by (auto simp: int_range_def sorted_map distinct_map)

lemma sort_eq_iff:
  fixes xs ys :: "int list"
  assumes "distinct xs" and "distinct ys" and "sorted ys"
  shows "sort xs = ys \<longleftrightarrow> set xs = set ys"
  using assms sorted_distinct_set_unique [of "sort xs" ys] by (metis distinct_sort set_sort sorted_sort)

lemma remdups_single: "remdups xs = [x] \<longleftrightarrow> xs \<noteq> [] \<and> (\<forall>y \<in> set xs. y = x)"
proof
  assume "remdups xs = [x]"
  then show "xs \<noteq> [] \<and> (\<forall>y \<in> set xs. y = x)"
    using set_remdups [of xs] by (cases xs) auto
next
  assume "xs \<noteq> [] \<and> (\<forall>y \<in> set xs. y = x)"
  then show "remdups xs = [x]"
  proof (induction xs)
    case (Cons y ys)
    then show ?case
      by (cases ys) auto
  qed simp
qed

definition wf_addrs :: "worker_addrs \<Rightarrow> bool" where
  "wf_addrs workers \<longleftrightarrow> distinct (dict_keys workers) \<and> list_all (\<lambda>(_, pps). distinct (dict_keys pps)) workers"

lemma check_pp_ranks_iff:
  assumes "wf_addrs workers" and "workers \<noteq> []"
  shows "check_pp_ranks workers = Inr () \<longleftrightarrow> (\<exists>k. list_all (\<lambda>(_, pps). set (dict_keys pps) = {0..<int k}) workers)"
proof
  assume "check_pp_ranks workers = Inr ()"
  then obtain ks where ks: "pp_rank_sets workers = [ks]" "ks = int_range (length ks)"
    by (cases "pp_rank_sets workers") (auto simp: check_pp_ranks_def Let_def split: if_splits)
  then have "sort (dict_keys pps) = int_range (length ks)" if "(r, pps) \<in> set workers" for r pps
    using that by (auto simp: pp_rank_sets_def remdups_single)
  then have "set (dict_keys pps) = {0..<int (length ks)}" if "(r, pps) \<in> set workers" for r pps
    using that arg_cong [of "sort (dict_keys pps)" "int_range (length ks)" set] by fastforce
  then show "\<exists>k. list_all (\<lambda>(_, pps). set (dict_keys pps) = {0..<int k}) workers"
    by (intro exI [of _ "length ks"]) (auto simp: list_all_iff)
next
  assume "\<exists>k. list_all (\<lambda>(_, pps). set (dict_keys pps) = {0..<int k}) workers"
  then obtain k where k: "list_all (\<lambda>(_, pps). set (dict_keys pps) = {0..<int k}) workers" ..
  have "sort (dict_keys pps) = int_range k" if "(r, pps) \<in> set workers" for r pps
  proof -
    have "set (dict_keys pps) = {0..<int k}" "distinct (dict_keys pps)"
      using that k assms(1) unfolding wf_addrs_def list_all_iff by blast+
    then show ?thesis
      by (simp add: sort_eq_iff)
  qed
  then have "pp_rank_sets workers = [int_range k]"
    using assms(2) by (auto simp: pp_rank_sets_def remdups_single)
  then show "check_pp_ranks workers = Inr ()"
    by (simp add: check_pp_ranks_def)
qed

lemma check_split_iff:
  assumes "distinct ks"
  shows "check_split_ranks (sort ks) pcp = Inr () \<longleftrightarrow> set ks = {0..<int (length ks)} \<and> pcp dvd int (length ks)"
proof -
  have "sort ks = int_range (length ks) \<longleftrightarrow> set ks = {0..<int (length ks)}"
    using sort_eq_iff [OF assms, of "int_range (length ks)"] by simp
  then show ?thesis
    by (auto simp: check_split_ranks_def dvd_eq_mod_eq_0)
qed

lemma check_replicated_iff:
  assumes "distinct ks" and "0 < pcp"
  shows "check_replicated_ranks (sort ks) pcp = Inr () \<longleftrightarrow> set ks = (\<lambda>i. i * pcp) ` {0..<int (length ks)}"
proof -
  let ?ms = "map (\<lambda>i. i * pcp) (int_range (length ks))"
  have "sorted ?ms" "distinct ?ms"
    using assms(2) by (auto simp: sorted_map distinct_map inj_on_def int_range_def mult_right_mono sorted_wrt_map
        intro!: sorted_wrt_mono_rel [OF _ sorted_wrt_upt])
  then have "sort ks = ?ms \<longleftrightarrow> set ks = (\<lambda>i. i * pcp) ` {0..<int (length ks)}"
    using sort_eq_iff [OF assms(1), of ?ms] by simp
  then show ?thesis
    using assms(2) by (auto simp: check_replicated_ranks_def list_ex_iff mult_less_0_iff)
qed

lemma topology_iff:
  assumes "wf_addrs workers"
  shows "validate_bootstrap_worker_topology workers pcp split = Inr () \<longleftrightarrow>
    0 < pcp \<and> workers \<noteq> []
    \<and> (if split then set (dict_keys workers) = {0..<int (length workers)} \<and> pcp dvd int (length workers)
       else set (dict_keys workers) = (\<lambda>i. i * pcp) ` {0..<int (length workers)})
    \<and> (\<exists>k. list_all (\<lambda>(_, pps). set (dict_keys pps) = {0..<int k}) workers)"
proof -
  have dist: "distinct (dict_keys workers)"
    using assms by (simp add: wf_addrs_def)
  have nil: "sort (dict_keys workers) = [] \<longleftrightarrow> workers = []"
    by (metis length_0_conv length_map length_sort)
  show ?thesis
    using check_split_iff [OF dist, of pcp] check_replicated_iff [OF dist, of pcp] check_pp_ranks_iff [OF assms] nil
    by (cases split) (auto simp: validate_bootstrap_worker_topology_def Let_def and_then_Inr_iff)
qed

text \<open>
  C27. A bootstrap topology is accepted exactly when it is complete: the context-parallel size is
  positive, some worker registered, the virtual ranks are \<open>0, 1, \<dots>, n - 1\<close> with \<open>n\<close> a multiple of the
  context-parallel size (with the layer split) or \<open>0, pcp, 2 * pcp, \<dots>\<close> (without), and every virtual rank has
  the same pipeline ranks \<open>0, \<dots>, k - 1\<close>.
\<close>

theorem topology_accepted_iff_complete:
  assumes "wf_addrs workers"
  shows "validate_bootstrap_worker_topology workers pcp split = Inr () \<longleftrightarrow>
    0 < pcp \<and> workers \<noteq> []
    \<and> (if split then set (dict_keys workers) = {0..<int (length workers)} \<and> pcp dvd int (length workers)
       else set (dict_keys workers) = (\<lambda>i. i * pcp) ` {0..<int (length workers)})
    \<and> (\<exists>k. list_all (\<lambda>(_, pps). set (dict_keys pps) = {0..<int k}) workers)"
  using topology_iff [OF assms] .

definition two_by_two :: worker_addrs where
  "two_by_two = [(1, [(1, ''b1''), (0, ''b0'')]), (0, [(0, ''a0''), (1, ''a1'')])]"

theorem topology_accepted_iff_complete_witness:
  "validate_bootstrap_worker_topology two_by_two 2 True = Inr () \<longleftrightarrow>
    0 < (2::int) \<and> two_by_two \<noteq> []
    \<and> (if True then set (dict_keys two_by_two) = {0..<int (length two_by_two)} \<and> 2 dvd int (length two_by_two)
       else set (dict_keys two_by_two) = (\<lambda>i. i * 2) ` {0..<int (length two_by_two)})
    \<and> (\<exists>k. list_all (\<lambda>(_, pps). set (dict_keys pps) = {0..<int k}) two_by_two)"
  by (rule topology_accepted_iff_complete) code_simp

section \<open>The workers that are asked\<close>

text \<open>The pipeline ranks of a producer rank that a consumer needs, when every producer rank has \<open>k\<close> of them.\<close>

definition needed_pp :: "int \<Rightarrow> int \<Rightarrow> nat \<Rightarrow> int set" where
  "needed_pp pp_rank pp_size k = (if pp_size = int k \<and> 0 \<le> pp_rank \<and> pp_rank < int k then {pp_rank} else {0..<int k})"

lemma pp_ranks_of_needed:
  assumes "set (dict_keys pps) = {0..<int k}" and "distinct (dict_keys pps)"
  shows "set (pp_ranks_of pp_rank pp_size pps) = needed_pp pp_rank pp_size k"
    and "length (pp_ranks_of pp_rank pp_size pps) = card (needed_pp pp_rank pp_size k)"
proof -
  have n: "length pps = k"
    using assms distinct_card [of "dict_keys pps"] by simp
  have known: "dict_get pps i \<noteq> None \<longleftrightarrow> 0 \<le> i \<and> i < int k" for i
    using assms(1) by (auto simp: dict_get_None_iff)
  show "set (pp_ranks_of pp_rank pp_size pps) = needed_pp pp_rank pp_size k"
    using n known [of pp_rank] assms(1) by (auto simp: pp_ranks_of_def needed_pp_def)
  show "length (pp_ranks_of pp_rank pp_size pps) = card (needed_pp pp_rank pp_size k)"
    using n known [of pp_rank] by (auto simp: pp_ranks_of_def needed_pp_def)
qed

lemma worker_addresses_ok:
  assumes "dict_get workers rank = Some pps" and "set (dict_keys pps) = {0..<int k}" and "distinct (dict_keys pps)"
  shows "\<exists>addrs. worker_addresses pp_rank pp_size workers rank = Inr addrs
    \<and> set addrs = (\<lambda>i. the (dict_get pps i)) ` needed_pp pp_rank pp_size k \<and> length addrs = card (needed_pp pp_rank pp_size k)"
proof -
  note needed = pp_ranks_of_needed [OF assms(2,3), of pp_rank pp_size]
  have "dict_at pps i = Inr (the (dict_get pps i))" if "i \<in> set (pp_ranks_of pp_rank pp_size pps)" for i
  proof -
    have "i \<in> set (dict_keys pps)"
      using that needed(1) assms(2) by (auto simp: needed_pp_def split: if_splits)
    then show ?thesis
      by (auto simp: dict_at_def dict_get_None_iff split: option.split)
  qed
  then have "map_result (dict_at pps) (pp_ranks_of pp_rank pp_size pps)
      = Inr (map (\<lambda>i. the (dict_get pps i)) (pp_ranks_of pp_rank pp_size pps))"
    by (rule map_result_total)
  then show ?thesis
    using assms(1) needed by (simp add: worker_addresses_def dict_at_def)
qed

lemma needed_registered:
  assumes "set (dict_keys pps) = {0..<int k}" and "i \<in> needed_pp pp_rank pp_size k"
  shows "\<exists>a. dict_get pps i = Some a"
proof -
  have "i \<in> set (dict_keys pps)"
    using assms by (auto simp: needed_pp_def split: if_splits)
  then show ?thesis
    using dict_get_None_iff [of pps i] by (cases "dict_get pps i") simp_all
qed

text \<open>The virtual ranks that hold data of a tensor-parallel rank.\<close>

definition holders :: "int \<Rightarrow> bool \<Rightarrow> int \<Rightarrow> int set" where
  "holders pcp split tp = (if split then {tp * pcp..<tp * pcp + pcp} else {tp * pcp})"

lemma virtual_ranks_holders: "0 < pcp \<Longrightarrow> set (virtual_ranks pcp split tps) = (\<Union>tp \<in> set tps. holders pcp split tp)"
proof (cases "pcp = 1")
  case True
  have "holders 1 split tp = {tp}" for tp
    by (auto simp: holders_def)
  with True show ?thesis
    by (simp add: virtual_ranks_def)
qed (auto simp: virtual_ranks_def holders_def image_add_atLeastLessThan)

lemma holders_registered:
  assumes "0 < pcp" and "0 \<le> tp" and "tp < (if split then n div pcp else n)" and "split \<longrightarrow> pcp dvd n" and "r \<in> holders pcp split tp"
  shows "if split then r \<in> {0..<n} else r \<in> (\<lambda>i. i * pcp) ` {0..<n}"
proof (cases split)
  case True
  have "(tp + 1) * pcp \<le> n div pcp * pcp"
    using assms(1,3) True by (intro mult_right_mono) simp_all
  also have "\<dots> = n"
    using assms(4) True by simp
  finally have "tp * pcp + pcp \<le> n"
    by (simp add: algebra_simps)
  moreover have "0 \<le> tp * pcp"
    using assms(1,2) by simp
  ultimately show ?thesis
    using True assms(5) by (simp add: holders_def)
qed (use assms in \<open>auto simp: holders_def\<close>)

text \<open>What the consumer knows of an engine whose topology it accepted.\<close>

lemma learnt_workers:
  assumes wf: "wf_addrs (ee_worker_addr e)"
    and ok: "validate_bootstrap_worker_topology (ee_worker_addr e) (ee_pcp_size e) (ee_layer_split e) = Inr ()"
  obtains k where "list_all (\<lambda>(_, pps). set (dict_keys pps) = {0..<int k}) (ee_worker_addr e)" "0 < ee_pcp_size e" "ee_layer_split e \<longrightarrow> ee_pcp_size e dvd int (length (ee_worker_addr e))"
    "\<And>r. (if ee_layer_split e then r \<in> {0..<int (length (ee_worker_addr e))}
         else r \<in> (\<lambda>i. i * ee_pcp_size e) ` {0..<int (length (ee_worker_addr e))}) \<Longrightarrow>
       \<exists>pps. dict_get (ee_worker_addr e) r = Some pps \<and> set (dict_keys pps) = {0..<int k} \<and> distinct (dict_keys pps)"
proof -
  let ?w = "ee_worker_addr e"
  from topology_iff [OF wf, of "ee_pcp_size e" "ee_layer_split e"] ok obtain k
    where pos: "0 < ee_pcp_size e" and k: "list_all (\<lambda>(_, pps). set (dict_keys pps) = {0..<int k}) ?w"
      and keys: "if ee_layer_split e then set (dict_keys ?w) = {0..<int (length ?w)} \<and> ee_pcp_size e dvd int (length ?w)
       else set (dict_keys ?w) = (\<lambda>i. i * ee_pcp_size e) ` {0..<int (length ?w)}"
    by auto
  have "\<exists>pps. dict_get ?w r = Some pps \<and> set (dict_keys pps) = {0..<int k} \<and> distinct (dict_keys pps)"
    if "r \<in> set (dict_keys ?w)" for r
  proof -
    from that obtain pps where pps: "dict_get ?w r = Some pps"
      using dict_get_None_iff [of ?w r] by fastforce
    then have "(r, pps) \<in> set ?w"
      by (rule map_of_SomeD)
    then show ?thesis
      using pps k wf unfolding wf_addrs_def list_all_iff by blast
  qed
  then show thesis
    using that [of k] k pos keys by (auto split: if_splits)
qed

definition engine_tp_size :: "engine_entry \<Rightarrow> int" where
  "engine_tp_size e =
     (if ee_layer_split e then int (length (ee_worker_addr e)) div ee_pcp_size e else int (length (ee_worker_addr e)))"

text \<open>The address that pipeline rank \<open>i\<close> of virtual rank \<open>r\<close> registered.\<close>

definition address_of :: "engine_entry \<Rightarrow> int \<Rightarrow> int \<Rightarrow> string option" where
  "address_of e r i = Option.bind (dict_get (ee_worker_addr e) r) (\<lambda>pps. dict_get pps i)"

lemma worker_lists:
  assumes "\<forall>r \<in> set ranks. \<exists>pps. dict_get w r = Some pps \<and> set (dict_keys pps) = {0..<int k} \<and> distinct (dict_keys pps)"
  shows "\<exists>ads. map_result (worker_addresses pp_rank pp_size w) ranks = Inr ads
    \<and> length (concat ads) = length ranks * card (needed_pp pp_rank pp_size k)
    \<and> set (concat ads) = (\<Union>r \<in> set ranks. (\<lambda>i. the (dict_get (the (dict_get w r)) i)) ` needed_pp pp_rank pp_size k)"
  using assms
proof (induction ranks)
  case (Cons r ranks)
  from Cons.prems obtain pps where pps: "dict_get w r = Some pps" "set (dict_keys pps) = {0..<int k}" "distinct (dict_keys pps)"
    by auto
  from worker_addresses_ok [OF this, of pp_rank pp_size] obtain one where "worker_addresses pp_rank pp_size w r = Inr one"
    "set one = (\<lambda>i. the (dict_get pps i)) ` needed_pp pp_rank pp_size k" "length one = card (needed_pp pp_rank pp_size k)"
    by blast
  moreover from Cons.IH Cons.prems obtain ads where "map_result (worker_addresses pp_rank pp_size w) ranks = Inr ads"
    "length (concat ads) = length ranks * card (needed_pp pp_rank pp_size k)"
    "set (concat ads) = (\<Union>r \<in> set ranks. (\<lambda>i. the (dict_get (the (dict_get w r)) i)) ` needed_pp pp_rank pp_size k)"
    by auto
  ultimately show ?case
    using pps(1) by auto
qed simp

text \<open>
  C29. A consumer that learnt an engine with an accepted topology can start a request: \<open>receive_kv\<close> finds
  every worker it looks up and asks exactly the workers that hold data of a paired tensor-parallel
  rank: with the layer split those of all context-parallel ranks, and of each the pipeline rank that
  corresponds to its own if the engine has as many pipeline ranks as the consumer, else all of them.
  It asks once per chosen virtual rank and pipeline rank, which is the number of answers it waits for.
  Here \<open>k\<close> is the number of pipeline ranks that every rank of the engine has registered.
\<close>

theorem receive_asks_every_holder:
  assumes wf: "wf_addrs (ee_worker_addr e)"
    and ok: "validate_bootstrap_worker_topology (ee_worker_addr e) (ee_pcp_size e) (ee_layer_split e) = Inr ()"
    and targets: "list_all (\<lambda>tp. 0 \<le> tp \<and> tp < engine_tp_size e) (target_ranks (engine_tp_size e))"
  shows "\<exists>k addrs. list_all (\<lambda>(_, pps). set (dict_keys pps) = {0..<int k}) (ee_worker_addr e)
    \<and> receive_targets target_ranks pp_rank pp_size (learn_engine e v) (ee_engine_id e) = Inr addrs
    \<and> length addrs = length (virtual_ranks (ee_pcp_size e) (ee_layer_split e) (target_ranks (engine_tp_size e)))
        * card (needed_pp pp_rank pp_size k)
    \<and> Some ` set addrs = (\<Union>tp \<in> set (target_ranks (engine_tp_size e)). \<Union>r \<in> holders (ee_pcp_size e) (ee_layer_split e) tp.
         address_of e r ` needed_pp pp_rank pp_size k)"
proof -
  let ?w = "ee_worker_addr e" and ?pcp = "ee_pcp_size e" and ?split = "ee_layer_split e" and ?tps = "target_ranks (engine_tp_size e)"
  obtain k where k: "list_all (\<lambda>(_, pps). set (dict_keys pps) = {0..<int k}) ?w" and pos: "0 < ?pcp" and dvd: "?split \<longrightarrow> ?pcp dvd int (length ?w)"
    and reg: "\<And>r. (if ?split then r \<in> {0..<int (length ?w)} else r \<in> (\<lambda>i. i * ?pcp) ` {0..<int (length ?w)}) \<Longrightarrow>
       \<exists>pps. dict_get ?w r = Some pps \<and> set (dict_keys pps) = {0..<int k} \<and> distinct (dict_keys pps)"
    by (rule learnt_workers [OF wf ok]) blast
  let ?ranks = "virtual_ranks ?pcp ?split ?tps" and ?needed = "needed_pp pp_rank pp_size k"
  have ranks: "set ?ranks = (\<Union>tp \<in> set ?tps. holders ?pcp ?split tp)"
    by (rule virtual_ranks_holders [OF pos])
  have known: "\<exists>pps. dict_get ?w r = Some pps \<and> set (dict_keys pps) = {0..<int k} \<and> distinct (dict_keys pps)" if "r \<in> set ?ranks" for r
  proof -
    from that ranks obtain tp where "tp \<in> set ?tps" "r \<in> holders ?pcp ?split tp"
      by blast
    then show ?thesis
      using targets pos dvd by (intro reg holders_registered [of _ tp]) (auto simp: list_all_iff engine_tp_size_def)
  qed
  from worker_lists [of ?ranks ?w k pp_rank pp_size] known obtain ads
    where ads: "map_result (worker_addresses pp_rank pp_size ?w) ?ranks = Inr ads"
      "length (concat ads) = length ?ranks * card ?needed"
      "set (concat ads) = (\<Union>r \<in> set ?ranks. (\<lambda>i. the (dict_get (the (dict_get ?w r)) i)) ` ?needed)"
    by blast
  have run: "receive_targets target_ranks pp_rank pp_size (learn_engine e v) (ee_engine_id e) = Inr (concat ads)"
    using pos ads(1) by (simp add: receive_targets_def learn_engine_def engine_tp_size_def Let_def)
  have "Some (the (dict_get (the (dict_get ?w r)) i)) = address_of e r i" if "r \<in> set ?ranks" "i \<in> ?needed" for r i
    using known [OF that(1)] that(2) needed_registered [of _ k] by (fastforce simp: address_of_def)
  then have "Some ` set (concat ads) = (\<Union>r \<in> set ?ranks. address_of e r ` ?needed)"
    unfolding ads(3) image_UN image_image by (intro SUP_cong refl image_cong) simp_all
  then show ?thesis
    using k run ads(2) unfolding ranks UN_UN_flatten by blast
qed

definition two_engine :: engine_entry where
  "two_engine = \<lparr>ee_engine_id = ''p'', ee_worker_addr = two_by_two, ee_pcp_size = 2, ee_layer_split = True\<rparr>"

theorem receive_asks_every_holder_witness:
  "\<exists>k addrs. list_all (\<lambda>(_, pps). set (dict_keys pps) = {0..<int k}) (ee_worker_addr two_engine)
    \<and> receive_targets (\<lambda>n. [0]) 1 2 (learn_engine two_engine \<lparr>rv_agents = [], rv_pcp_info = [], rv_tp_size = []\<rparr>) (ee_engine_id two_engine)
      = Inr addrs
    \<and> length addrs = length (virtual_ranks (ee_pcp_size two_engine) (ee_layer_split two_engine) [0]) * card (needed_pp 1 2 k)
    \<and> Some ` set addrs = (\<Union>tp \<in> set [0]. \<Union>r \<in> holders (ee_pcp_size two_engine) (ee_layer_split two_engine) tp.
         address_of two_engine r ` needed_pp 1 2 k)"
proof (rule receive_asks_every_holder [of _ "\<lambda>n. [0]"])
  show "wf_addrs (ee_worker_addr two_engine)" "validate_bootstrap_worker_topology (ee_worker_addr two_engine) (ee_pcp_size two_engine)
      (ee_layer_split two_engine) = Inr ()" "list_all (\<lambda>tp. 0 \<le> tp \<and> tp < engine_tp_size two_engine) [0]"
    by code_simp+
qed

end
