(* ===== verification/Mooncake_Scheduler.thy ===== *)
theory Mooncake_Scheduler
  imports Py_Runtime
begin

text \<open>
  The scheduler side of the mooncake connector, class \<open>MooncakeConnectorScheduler\<close> of \<open>mooncake_connector.py\<close>:
  which requests are to be pulled from a prefill engine or sent to a decode engine, and what the
  workers are told in each step.

  A request is an object that the scheduler and its queues share; the state has one object per request
  id and the queues hold ids.  The transfer parameters of a request are a dictionary that the code
  updates in place.  Block ids come from vLLM's block manager as arguments.
\<close>

section \<open>Requests\<close>

datatype param_value = PvNone | PvBool bool | PvText string

type_synonym xfer_args = "(string, param_value) dict"

fun truthy :: "param_value \<Rightarrow> bool" where
  "truthy PvNone = False"
| "truthy (PvBool b) = b"
| "truthy (PvText t) = (t \<noteq> [])"

definition flag :: "xfer_args \<Rightarrow> string \<Rightarrow> bool" where
  "flag params key = (case dict_get params key of None \<Rightarrow> False | Some v \<Rightarrow> truthy v)"

definition param_at :: "xfer_args \<Rightarrow> string \<Rightarrow> param_value result" where
  "param_at params key = (case dict_get params key of None \<Rightarrow> raise KeyError (py_repr key) | Some v \<Rightarrow> Inr v)"

datatype request_status = FINISHED_LENGTH_CAPPED | OtherStatus string

record request =
  rq_params :: "xfer_args option"
  rq_prompt_token_ids :: "int list option"
  rq_prompt_embeds :: "int list option"
  rq_all_token_ids :: "int list"
  rq_num_prompt_tokens :: int
  rq_max_tokens :: int
  rq_status :: request_status

record scheduler =
  sc_producer :: bool
  sc_consumer :: bool
  sc_hma_required :: bool
  sc_has_mamba :: bool
  sc_blocks_per_sw :: "int list"
  sc_need_recv :: "(string, int list list) dict"
  sc_need_send :: "(string, int list list) dict"
  sc_not_processed :: "param_value list"
  sc_request :: "string \<Rightarrow> request"

text \<open>\<open>cdiv\<close> is vLLM's rounding-up division; a group without sliding window has window 0.\<close>

definition init_scheduler ::
    "(int \<Rightarrow> int \<Rightarrow> int) \<Rightarrow> string \<Rightarrow> bool \<Rightarrow> bool \<Rightarrow> bool list \<Rightarrow> (int \<times> int) list \<Rightarrow> (string \<Rightarrow> request) \<Rightarrow> scheduler" where
  "init_scheduler cdiv kv_role disable_hybrid has_mamba full_attention windows requests =
     \<lparr>sc_producer = (kv_role = ''kv_producer''), sc_consumer = (kv_role = ''kv_consumer''),
      sc_hma_required = (\<not> disable_hybrid \<and> list_ex (\<lambda>full. \<not> full) full_attention), sc_has_mamba = has_mamba,
      sc_blocks_per_sw = map (\<lambda>(n, bs). if n \<noteq> 0 then cdiv n bs + 1 else 0) windows,
      sc_need_recv = [], sc_need_send = [], sc_not_processed = [], sc_request = requests\<rparr>"

definition set_params :: "string \<Rightarrow> xfer_args \<Rightarrow> scheduler \<Rightarrow> scheduler" where
  "set_params rid params s = s\<lparr>sc_request := (sc_request s)(rid := (sc_request s rid)\<lparr>rq_params := Some params\<rparr>)\<rparr>"

section \<open>Operations\<close>

definition clip_group :: "scheduler \<Rightarrow> nat \<times> int list \<Rightarrow> int list result" where
  "clip_group s = (\<lambda>(i, blocks).
     and_then (py_index (sc_blocks_per_sw s) (int i)) (\<lambda>n.
       Inr (if n > 0 then drop (length blocks - nat n) blocks else blocks)))"

definition get_sw_clipped_blocks :: "scheduler \<Rightarrow> int list list \<Rightarrow> int list list result" where
  "get_sw_clipped_blocks s block_ids =
     (if block_ids = [] \<or> \<not> sc_hma_required s then Inr block_ids
      else map_result (clip_group s) (enumerate 0 block_ids))"

definition get_remote_prefill_token_count :: "scheduler \<Rightarrow> int \<Rightarrow> int" where
  "get_remote_prefill_token_count s num_prompt_tokens =
     (if sc_has_mamba s \<and> num_prompt_tokens > 1 then num_prompt_tokens - 1 else num_prompt_tokens)"

definition pop_last :: "int list \<Rightarrow> int list result" where
  "pop_last xs = (if xs = [] then raise IndexError ''pop from empty list'' else Inr (butlast xs))"

definition put_request :: "string \<Rightarrow> request \<Rightarrow> (scheduler, unit) op" where
  "put_request rid r = modify (\<lambda>s. s\<lparr>sc_request := (sc_request s)(rid := r)\<rparr>)"

definition cut_prompt :: "request \<Rightarrow> request option result" where
  "cut_prompt r =
     (case rq_prompt_token_ids r of
        Some ids \<Rightarrow> and_then (pop_last ids) (\<lambda>ids'. Inr (Some (r\<lparr>rq_prompt_token_ids := Some ids'\<rparr>)))
      | None \<Rightarrow> (case rq_prompt_embeds r of
          Some rows \<Rightarrow> Inr (Some (r\<lparr>rq_prompt_embeds := Some (butlast rows)\<rparr>))
        | None \<Rightarrow> Inr None))"

definition truncate_mamba_request_for_prefill :: "string \<Rightarrow> (scheduler, unit) op" where
  "truncate_mamba_request_for_prefill rid =
     bind_op (gets (\<lambda>s. sc_request s rid)) (\<lambda>r.
       case rq_params r of
         None \<Rightarrow> ret ()
       | Some params \<Rightarrow>
           if flag params ''_p_side_truncated'' \<or> \<not> rq_num_prompt_tokens r > 1 then ret ()
           else bind_op (lift_result (cut_prompt r)) (\<lambda>cut.
                  case cut of
                    None \<Rightarrow> ret ()
                  | Some r' \<Rightarrow>
                      seq_op (put_request rid r')
                        (bind_op (lift_result (pop_last (rq_all_token_ids r'))) (\<lambda>all.
                          put_request rid (r'\<lparr>rq_all_token_ids := all, rq_num_prompt_tokens := rq_num_prompt_tokens r' - 1,
                            rq_max_tokens := 1, rq_params := Some (dict_set ''_p_side_truncated'' (PvBool True) params)\<rparr>)))))"

definition get_num_new_matched_tokens :: "string \<Rightarrow> int \<Rightarrow> (scheduler, int \<times> bool) op" where
  "get_num_new_matched_tokens rid num_computed_tokens =
     bind_op (gets id) (\<lambda>s.
       case rq_params (sc_request s rid) of
         None \<Rightarrow> ret (0, False)
       | Some params \<Rightarrow>
           if params = [] then ret (0, False)
           else if flag params ''do_remote_prefill'' \<and> sc_producer s then throw (Exn AssertionError [])
           else (let n = (case rq_prompt_token_ids (sc_request s rid) of None \<Rightarrow> 0 | Some ids \<Rightarrow> int (length ids));
                     remaining = get_remote_prefill_token_count s n - num_computed_tokens
                 in if flag params ''do_remote_prefill'' \<and> remaining > 0 then ret (remaining, True)
                    else seq_op (if flag params ''do_remote_decode'' \<and> sc_has_mamba s
                                 then truncate_mamba_request_for_prefill rid else ret ())
                           (ret (0, False))))"

definition has_remote_keys :: "xfer_args \<Rightarrow> bool" where
  "has_remote_keys params \<longleftrightarrow>
     list_all (\<lambda>key. dict_get params key \<noteq> None) [''remote_engine_id'', ''remote_bootstrap_addr'', ''transfer_id'']"

definition clear_prefill :: "xfer_args \<Rightarrow> xfer_args" where
  "clear_prefill params = dict_set ''do_remote_prefill'' (PvBool False) params"

definition queue_recv :: "string \<Rightarrow> int list list \<Rightarrow> (scheduler, unit) op" where
  "queue_recv rid blocks = modify (\<lambda>s. s\<lparr>sc_need_recv := dict_set rid blocks (sc_need_recv s)\<rparr>)"

definition queue_send :: "string \<Rightarrow> int list list \<Rightarrow> (scheduler, unit) op" where
  "queue_send rid blocks = modify (\<lambda>s. s\<lparr>sc_need_send := dict_set rid blocks (sc_need_send s)\<rparr>)"

definition update_state_after_alloc :: "string \<Rightarrow> int list list \<Rightarrow> int \<Rightarrow> (scheduler, unit) op" where
  "update_state_after_alloc rid unhashed num_external_tokens =
     bind_op (gets id) (\<lambda>s.
       case rq_params (sc_request s rid) of
         None \<Rightarrow> ret ()
       | Some params \<Rightarrow>
           if params = [] then ret ()
           else if flag params ''do_remote_prefill''
           then if sc_producer s then throw (Exn AssertionError [])
                else seq_op (if has_remote_keys params
                             then bind_op (lift_result (get_sw_clipped_blocks s (if num_external_tokens > 0 then unhashed else [])))
                                    (queue_recv rid)
                             else ret ())
                       (modify (set_params rid (clear_prefill params)))
           else if flag params ''do_remote_decode''
           then if sc_consumer s then throw (Exn AssertionError [])
                else if \<not> flag params ''transfer_id'' then ret () else queue_send rid []
           else ret ())"

section \<open>The message to the workers\<close>

record pull_meta =
  pm_d_req_id :: string
  pm_transfer_id :: param_value
  pm_local_block_ids :: "int list list"
  pm_remote_engine_id :: param_value
  pm_remote_bootstrap_addr :: param_value

record connector_meta =
  cm_reqs_to_recv :: "(param_value, (string, pull_meta) dict) dict"
  cm_reqs_to_send :: "(string, param_value \<times> int list list) dict"
  cm_reqs_not_processed :: "param_value list"

definition empty_meta :: connector_meta where
  "empty_meta = \<lparr>cm_reqs_to_recv = [], cm_reqs_to_send = [], cm_reqs_not_processed = []\<rparr>"

definition add_new_req :: "string \<Rightarrow> int list list \<Rightarrow> xfer_args \<Rightarrow> bool \<Rightarrow> connector_meta \<Rightarrow> connector_meta result" where
  "add_new_req rid blocks params load_remote_cache meta =
     and_then (param_at params ''transfer_id'') (\<lambda>transfer_id.
       if load_remote_cache
       then and_then (param_at params ''remote_engine_id'') (\<lambda>engine.
            and_then (param_at params ''remote_bootstrap_addr'') (\<lambda>addr.
              let known = (case dict_get (cm_reqs_to_recv meta) engine of None \<Rightarrow> [] | Some d \<Rightarrow> d);
                  pull = \<lparr>pm_d_req_id = rid, pm_transfer_id = transfer_id, pm_local_block_ids = blocks,
                          pm_remote_engine_id = engine, pm_remote_bootstrap_addr = addr\<rparr>
              in Inr (meta\<lparr>cm_reqs_to_recv := dict_set engine (dict_set rid pull known) (cm_reqs_to_recv meta)\<rparr>)))
       else Inr (meta\<lparr>cm_reqs_to_send := dict_set rid (transfer_id, blocks) (cm_reqs_to_send meta)\<rparr>))"

definition add_queued :: "scheduler \<Rightarrow> bool \<Rightarrow> string \<times> int list list \<Rightarrow> connector_meta \<Rightarrow> connector_meta result" where
  "add_queued s load_remote_cache = (\<lambda>(rid, blocks) meta.
     case rq_params (sc_request s rid) of
       None \<Rightarrow> raise AssertionError []
     | Some params \<Rightarrow> add_new_req rid blocks params load_remote_cache meta)"

definition build_connector_meta :: "(scheduler, connector_meta) op" where
  "build_connector_meta =
     bind_op (gets id) (\<lambda>s.
     bind_op (if \<not> sc_producer s
              then bind_op (lift_result (fold_result (add_queued s True) (sc_need_recv s) empty_meta)) (\<lambda>meta.
                     seq_op (modify (\<lambda>t. t\<lparr>sc_need_recv := []\<rparr>)) (ret meta))
              else ret empty_meta) (\<lambda>meta.
       if \<not> sc_consumer s
       then bind_op (lift_result (fold_result (add_queued s False) (sc_need_send s) meta)) (\<lambda>full.
              seq_op (modify (\<lambda>t. t\<lparr>sc_need_send := [], sc_not_processed := []\<rparr>))
                (ret (full\<lparr>cm_reqs_not_processed := sc_not_processed s\<rparr>)))
       else ret meta))"

definition request_finished :: "string \<Rightarrow> int list list \<Rightarrow> (scheduler, bool) op" where
  "request_finished rid block_ids =
     bind_op (gets id) (\<lambda>s.
       case rq_params (sc_request s rid) of
         None \<Rightarrow> ret False
       | Some params \<Rightarrow>
           if params = [] \<or> \<not> flag params ''transfer_id'' then ret False
           else if flag params ''do_remote_prefill''
           then if sc_producer s then throw (Exn AssertionError [])
                else seq_op (queue_recv rid []) (seq_op (modify (set_params rid (clear_prefill params))) (ret False))
           else if \<not> flag params ''do_remote_decode'' then ret False
           else if sc_consumer s then throw (Exn AssertionError [])
           else if rq_status (sc_request s rid) \<noteq> FINISHED_LENGTH_CAPPED
           then bind_op (lift_result (param_at params ''transfer_id'')) (\<lambda>tid.
                  seq_op (modify (\<lambda>t. t\<lparr>sc_not_processed := List.insert tid (sc_not_processed t)\<rparr>)) (ret False))
           else if list_ex (\<lambda>blocks. blocks \<noteq> []) block_ids
           then bind_op (lift_result (get_sw_clipped_blocks s block_ids)) (\<lambda>clipped.
                  seq_op (queue_send rid clipped) (ret True))
           else ret False)"

end
