(* ===== verification/Mooncake_Scheduler_Correct.thy ===== *)
theory Mooncake_Scheduler_Correct
  imports Mooncake_Scheduler
begin

text \<open>
  The scheduler side tells the workers of every remote prefill exactly once: a request waits, is
  queued or was announced, and no sequence of calls loses or repeats it.  An aborted request without
  the address of its prefill engine is queued nevertheless, and then no message can be built.
\<close>

section \<open>Sequences of calls\<close>

datatype sched_call =
    MatchTokens string int
  | AfterAlloc string "int list list" int
  | BuildMeta
  | Finished string "int list list"

definition void_run :: "('s, 'a) op \<Rightarrow> 's \<Rightarrow> 's" where
  "void_run m s = (case m s of None \<Rightarrow> s | Some (_, t) \<Rightarrow> t)"

text \<open>A call and the messages it produced; a call that raises leaves what it had written.\<close>

fun sched_exec :: "sched_call \<Rightarrow> scheduler \<Rightarrow> connector_meta list \<times> scheduler" where
  "sched_exec (MatchTokens rid n) s = ([], void_run (get_num_new_matched_tokens rid n) s)"
| "sched_exec (AfterAlloc rid blocks n) s = ([], void_run (update_state_after_alloc rid blocks n) s)"
| "sched_exec (Finished rid blocks) s = ([], void_run (request_finished rid blocks) s)"
| "sched_exec BuildMeta s =
     (case build_connector_meta s of Some (Inr meta, t) \<Rightarrow> ([meta], t) | Some (Inl _, t) \<Rightarrow> ([], t) | None \<Rightarrow> ([], s))"

fun sched_run :: "sched_call list \<Rightarrow> scheduler \<Rightarrow> connector_meta list \<times> scheduler" where
  "sched_run [] s = ([], s)"
| "sched_run (c # cs) s = (let (ms, t) = sched_exec c s; (ms', u) = sched_run cs t in (ms @ ms', u))"

section \<open>Where a remote prefill is\<close>

definition announced :: "string \<Rightarrow> connector_meta \<Rightarrow> nat" where
  "announced rid meta = card {engine. \<exists>d. dict_get (cm_reqs_to_recv meta) engine = Some d \<and> dict_get d rid \<noteq> None}"

definition waiting :: "string \<Rightarrow> scheduler \<Rightarrow> bool" where
  "waiting rid s \<longleftrightarrow> (case rq_params (sc_request s rid) of None \<Rightarrow> False | Some params \<Rightarrow> flag params ''do_remote_prefill'')"

definition queued :: "string \<Rightarrow> scheduler \<Rightarrow> bool" where
  "queued rid s \<longleftrightarrow> dict_get (sc_need_recv s) rid \<noteq> None"

definition weight :: "string \<Rightarrow> scheduler \<Rightarrow> nat" where
  "weight rid s = of_bool (waiting rid s) + of_bool (queued rid s)"

text \<open>
  The invariant: the queues are dictionaries, every request queued for sending has a transfer id, and
  a queued request no longer waits.
\<close>

definition has_key :: "string \<Rightarrow> string \<Rightarrow> scheduler \<Rightarrow> bool" where
  "has_key rid key s \<longleftrightarrow> (case rq_params (sc_request s rid) of None \<Rightarrow> False | Some params \<Rightarrow> dict_get params key \<noteq> None)"

definition sched_inv :: "scheduler \<Rightarrow> bool" where
  "sched_inv s \<longleftrightarrow> distinct (dict_keys (sc_need_recv s)) \<and> (\<forall>rid. dict_get (sc_need_send s) rid \<noteq> None \<longrightarrow> has_key rid ''transfer_id'' s)"

definition remote_ready :: "string \<Rightarrow> scheduler \<Rightarrow> bool" where
  "remote_ready rid s \<longleftrightarrow> (\<forall>key \<in> {''remote_engine_id'', ''remote_bootstrap_addr'', ''transfer_id''}. has_key rid key s)"

text \<open>What a call does to a request: the invariant and its keys stay, and its weight moves into the messages.\<close>

definition conserves :: "string \<Rightarrow> scheduler \<Rightarrow> connector_meta list \<Rightarrow> scheduler \<Rightarrow> bool" where
  "conserves rid s ms t \<longleftrightarrow> sched_inv t \<and> remote_ready rid t \<and> weight rid t + sum_list (map (announced rid) ms) = weight rid s"

lemma conserves_refl: "sched_inv s \<Longrightarrow> remote_ready rid s \<Longrightarrow> conserves rid s [] s"
  by (simp add: conserves_def)

section \<open>Calls that only touch requests and the send queue\<close>

definition recv_frame :: "scheduler \<Rightarrow> scheduler \<Rightarrow> bool" where
  "recv_frame s t \<longleftrightarrow> sc_need_recv t = sc_need_recv s \<and> (\<forall>r k. has_key r k s \<longrightarrow> has_key r k t) \<and> (\<forall>r. waiting r t = waiting r s)
     \<and> (\<forall>r. dict_get (sc_need_send t) r \<noteq> None \<longrightarrow> dict_get (sc_need_send s) r \<noteq> None \<or> has_key r ''transfer_id'' t)"

lemma recv_frame_conserves: "recv_frame s t \<Longrightarrow> sched_inv s \<Longrightarrow> remote_ready rid s \<Longrightarrow> conserves rid s [] t"
  by (auto simp: recv_frame_def conserves_def sched_inv_def remote_ready_def weight_def queued_def)

lemma recv_frame_refl: "recv_frame s s"
  by (simp add: recv_frame_def)

lemma recv_frame_request:
  assumes "rq_params (sc_request s rid) = Some params" and "rq_params r = Some params'"
    and "\<And>k. dict_get params k \<noteq> None \<Longrightarrow> dict_get params' k \<noteq> None"
    and "flag params' ''do_remote_prefill'' = flag params ''do_remote_prefill''"
  shows "recv_frame s (s\<lparr>sc_request := (sc_request s)(rid := r)\<rparr>)"
  using assms by (auto simp: recv_frame_def has_key_def waiting_def)

lemma flag_other: "k \<noteq> k' \<Longrightarrow> flag (dict_set k' v params) k = flag params k"
  by (simp add: flag_def)

lemma cut_prompt_params: "cut_prompt r = Inr (Some r') \<Longrightarrow> rq_params r' = rq_params r"
  by (auto simp: cut_prompt_def and_then_Inr_iff split: option.splits)

lemma truncate_frame: "truncate_mamba_request_for_prefill rid s = Some (v, t) \<Longrightarrow> recv_frame s t"
proof -
  assume run: "truncate_mamba_request_for_prefill rid s = Some (v, t)"
  let ?r = "sc_request s rid"
  show "recv_frame s t"
  proof (cases "t = s")
    case False
    with run obtain params r' where params: "rq_params ?r = Some params" and cut: "cut_prompt ?r = Inr (Some r')"
      and "\<exists>r''. t = s\<lparr>sc_request := (sc_request s)(rid := r'')\<rparr>
        \<and> rq_params r'' \<in> {rq_params r', Some (dict_set ''_p_side_truncated'' (PvBool True) params)}"
      by (fastforce simp: truncate_mamba_request_for_prefill_def put_request_def op_defs op_simps
          split: option.splits if_splits sum.splits)
    moreover have "rq_params r' = Some params"
      using cut_prompt_params [OF cut] params by simp
    ultimately show ?thesis
      by (auto intro!: recv_frame_request [OF params] simp: flag_other)
  qed (simp add: recv_frame_refl)
qed

lemma match_tokens_frame: "get_num_new_matched_tokens rid n s = Some (v, t) \<Longrightarrow> recv_frame s t"
  by (auto simp: get_num_new_matched_tokens_def op_defs op_simps Let_def recv_frame_refl
      split: option.splits if_splits sum.splits dest: truncate_frame)

section \<open>Queueing a remote prefill\<close>

lemma clear_prefill_simps:
  "\<not> flag (clear_prefill params) ''do_remote_prefill''" "dict_get params k \<noteq> None \<Longrightarrow> dict_get (clear_prefill params) k \<noteq> None"
  by (auto simp: clear_prefill_def flag_def)

definition moved :: "string \<Rightarrow> int list list \<Rightarrow> xfer_args \<Rightarrow> scheduler \<Rightarrow> scheduler" where
  "moved rid blocks params s =
     set_params rid (clear_prefill params) (s\<lparr>sc_need_recv := dict_set rid blocks (sc_need_recv s)\<rparr>)"

lemma has_key_set_params:
  assumes "rq_params (sc_request s rid) = Some params" and "has_key r key s"
  shows "has_key r key (set_params rid (clear_prefill params) s)"
  using assms clear_prefill_simps(2) [of params key] by (auto simp: has_key_def set_params_def)

lemma waiting_set_params: "waiting r (set_params rid (clear_prefill params) s) \<longleftrightarrow> r \<noteq> rid \<and> waiting r s"
  using clear_prefill_simps(1) [of params] by (auto simp: waiting_def set_params_def)

lemma set_params_fields [simp]:
  "sc_need_recv (set_params rid p s) = sc_need_recv s" "sc_need_send (set_params rid p s) = sc_need_send s"
  by (simp_all add: set_params_def)

lemma has_key_recv [simp]: "has_key r k (s\<lparr>sc_need_recv := q\<rparr>) = has_key r k s"
  by (simp add: has_key_def)

lemma waiting_recv [simp]: "waiting r (s\<lparr>sc_need_recv := q\<rparr>) = waiting r s"
  by (simp add: waiting_def)

lemma moved_conserves:
  assumes "rq_params (sc_request s q) = Some params" and "flag params ''do_remote_prefill''"
    and inv: "sched_inv s" "remote_ready rid s" and one: "weight rid s \<le> 1"
  shows "conserves rid s [] (moved q blocks params s)"
proof -
  let ?s = "s\<lparr>sc_need_recv := dict_set q blocks (sc_need_recv s)\<rparr>"
  have keys: "has_key r k (moved q blocks params s)" if "has_key r k s" for r k
    unfolding moved_def using that assms(1) by (intro has_key_set_params) simp_all
  have w: "waiting q s"
    using assms(1,2) by (simp add: waiting_def)
  have "weight rid (moved q blocks params s) = weight rid s"
    using w one by (cases "rid = q") (auto simp: moved_def weight_def queued_def waiting_set_params)
  then show ?thesis
    using inv keys by (auto simp: conserves_def sched_inv_def remote_ready_def moved_def intro: dict_set_distinct)
qed

lemma cleared_conserves:
  assumes "rq_params (sc_request s q) = Some params" and "\<not> has_remote_keys params"
    and inv: "sched_inv s" "remote_ready rid s"
  shows "conserves rid s [] (set_params q (clear_prefill params) s)"
proof -
  have "rid \<noteq> q"
    using assms(1,2) inv(2) by (auto simp: remote_ready_def has_key_def has_remote_keys_def)
  moreover have "has_key r k (set_params q (clear_prefill params) s)" if "has_key r k s" for r k
    using that assms(1) by (intro has_key_set_params) simp_all
  ultimately show ?thesis
    using inv by (auto simp: conserves_def sched_inv_def remote_ready_def weight_def queued_def waiting_set_params)
qed

lemma queue_send_frame: "has_key q ''transfer_id'' s \<Longrightarrow> recv_frame s (s\<lparr>sc_need_send := dict_set q blocks (sc_need_send s)\<rparr>)"
  by (auto simp: recv_frame_def has_key_def waiting_def)

lemma after_alloc_conserves:
  assumes run: "update_state_after_alloc q blocks n s = Some (v, t)"
    and inv: "sched_inv s" "remote_ready rid s" and one: "weight rid s \<le> 1"
  shows "conserves rid s [] t"
proof (cases "rq_params (sc_request s q)")
  case None
  then show ?thesis
    using run inv by (simp add: update_state_after_alloc_def op_defs op_simps conserves_refl)
next
  case (Some params)
  note unfold = update_state_after_alloc_def op_defs op_simps queue_recv_def queue_send_def
  show ?thesis
  proof (cases "params \<noteq> [] \<and> flag params ''do_remote_prefill'' \<and> \<not> sc_producer s")
    case True
    then consider "t = s" | c where "t = moved q c params s" | "\<not> has_remote_keys params" "t = set_params q (clear_prefill params) s"
      using run Some by (auto simp: unfold moved_def split: if_splits sum.splits)
    then show ?thesis
      using inv one Some True by cases (auto intro: conserves_refl moved_conserves cleared_conserves)
  next
    case False
    have "has_key q ''transfer_id'' s" if "flag params ''transfer_id''"
      using that Some by (auto simp: has_key_def flag_def split: option.splits)
    then have "recv_frame s t"
      using run Some False by (auto simp: unfold recv_frame_refl intro: queue_send_frame split: if_splits)
    then show ?thesis
      using inv by (rule recv_frame_conserves)
  qed
qed

lemma finished_conserves:
  assumes run: "request_finished q blocks s = Some (v, t)"
    and inv: "sched_inv s" "remote_ready rid s" and one: "weight rid s \<le> 1"
  shows "conserves rid s [] t"
proof (cases "rq_params (sc_request s q)")
  case None
  then show ?thesis
    using run inv by (simp add: request_finished_def op_defs op_simps conserves_refl)
next
  case (Some params)
  note unfold = request_finished_def op_defs op_simps queue_recv_def queue_send_def
  show ?thesis
  proof (cases "params \<noteq> [] \<and> flag params ''transfer_id'' \<and> flag params ''do_remote_prefill'' \<and> \<not> sc_producer s")
    case True
    then have "t = moved q [] params s"
      using run Some by (auto simp: unfold moved_def)
    then show ?thesis
      using inv one Some True by (auto intro: moved_conserves)
  next
    case False
    have key: "has_key q ''transfer_id'' s" if "flag params ''transfer_id''"
      using that Some by (auto simp: has_key_def flag_def split: option.splits)
    have np: "recv_frame s (s\<lparr>sc_not_processed := x\<rparr>)" for x
      by (simp add: recv_frame_def has_key_def waiting_def)
    have "recv_frame s t"
      using run Some False key np
      by (auto simp: unfold recv_frame_refl intro: queue_send_frame split: if_splits sum.splits)
    then show ?thesis
      using inv by (rule recv_frame_conserves)
  qed
qed

section \<open>Building a message\<close>

definition engines_of :: "string \<Rightarrow> connector_meta \<Rightarrow> param_value set" where
  "engines_of rid meta = {engine. \<exists>d. dict_get (cm_reqs_to_recv meta) engine = Some d \<and> dict_get d rid \<noteq> None}"

lemma add_recv_engines:
  assumes "add_queued s True (q, blocks) meta = Inr meta'"
  shows "rid \<noteq> q \<Longrightarrow> engines_of rid meta' = engines_of rid meta" and "\<exists>engine. engines_of q meta' = insert engine (engines_of q meta)"
proof -
  from assms obtain engine pull where m: "meta' = meta\<lparr>cm_reqs_to_recv := dict_set engine
      (dict_set q pull (case dict_get (cm_reqs_to_recv meta) engine of None \<Rightarrow> [] | Some d \<Rightarrow> d)) (cm_reqs_to_recv meta)\<rparr>"
    by (cases "rq_params (sc_request s q)") (auto simp: add_queued_def add_new_req_def and_then_Inr_iff Let_def)
  show "rid \<noteq> q \<Longrightarrow> engines_of rid meta' = engines_of rid meta"
    by (auto simp: m engines_of_def split: option.splits if_splits)
  have "engines_of q meta' = insert engine (engines_of q meta)"
    by (auto simp: m engines_of_def split: if_splits)
  then show "\<exists>engine. engines_of q meta' = insert engine (engines_of q meta)" ..
qed

lemma recv_fold_engines:
  assumes "fold_result (add_queued s True) items meta = Inr meta'" and "distinct (dict_keys items)"
  shows "if rid \<in> set (dict_keys items) then \<exists>engine. engines_of rid meta' = insert engine (engines_of rid meta)
    else engines_of rid meta' = engines_of rid meta"
  using assms
proof (induction items arbitrary: meta)
  case (Cons item items)
  obtain q blocks where item: "item = (q, blocks)"
    by (cases item)
  from Cons.prems obtain mid where mid: "add_queued s True (q, blocks) meta = Inr mid"
    and rest: "fold_result (add_queued s True) items mid = Inr meta'" and "distinct (dict_keys items)"
    by (auto simp: item and_then_Inr_iff)
  note IH = Cons.IH [OF rest] and one = add_recv_engines [OF mid]
  show ?case
    using IH one Cons.prems(2) by (cases "rid = q") (auto simp: item split: if_splits)
qed simp

lemma send_fold:
  assumes "\<forall>rid \<in> set (dict_keys items). has_key rid ''transfer_id'' s"
  shows "\<exists>meta'. fold_result (add_queued s False) items meta = Inr meta' \<and> engines_of rid meta' = engines_of rid meta"
  using assms
proof (induction items arbitrary: meta)
  case (Cons item items)
  obtain q blocks where item: "item = (q, blocks)"
    by (cases item)
  from Cons.prems obtain tid where "add_queued s False (q, blocks) meta
      = Inr (meta\<lparr>cm_reqs_to_send := dict_set q (tid, blocks) (cm_reqs_to_send meta)\<rparr>)"
    by (auto simp: item has_key_def add_queued_def add_new_req_def param_at_def split: option.splits)
  moreover have "engines_of rid (meta\<lparr>cm_reqs_to_send := x\<rparr>) = engines_of rid meta" for x
    by (simp add: engines_of_def)
  ultimately show ?case
    using Cons.IH [of "meta\<lparr>cm_reqs_to_send := dict_set q (tid, blocks) (cm_reqs_to_send meta)\<rparr>"] Cons.prems
    by (simp add: item)
qed simp

lemma engines_empty: "engines_of rid empty_meta = {}"
  by (simp add: engines_of_def empty_meta_def)

lemma announced_engines: "announced rid meta = card (engines_of rid meta)"
  by (simp add: announced_def engines_of_def)

lemma build_recv_part:
  assumes "sched_inv s" and "fold_result (add_queued s True) (sc_need_recv s) empty_meta = Inr meta"
  shows "announced rid meta = of_bool (queued rid s)"
  using recv_fold_engines [OF assms(2), of rid] assms(1)
  by (auto simp: announced_engines engines_empty queued_def sched_inv_def dict_get_None_iff split: if_splits)

lemma build_conserves:
  assumes inv: "sched_inv s" "remote_ready rid s"
  shows "case build_connector_meta s of
      Some (Inr meta, t) \<Rightarrow> conserves rid s [meta] t | Some (Inl _, t) \<Rightarrow> t = s | None \<Rightarrow> False"
proof -
  have send: "\<exists>full. fold_result (add_queued s False) (sc_need_send s) meta = Inr full \<and> announced rid full = announced rid meta" for meta
    using send_fold [of "sc_need_send s" s meta rid] inv(1)
    by (auto simp: announced_engines sched_inv_def dict_get_None_iff)
  have after: "sched_inv (s\<lparr>sc_need_recv := [], sc_need_send := [], sc_not_processed := []\<rparr>)" "sched_inv (s\<lparr>sc_need_recv := []\<rparr>)"
    "sched_inv (s\<lparr>sc_need_send := [], sc_not_processed := []\<rparr>)"
    using inv(1) by (simp_all add: sched_inv_def has_key_def)
  have keys: "has_key r k (s\<lparr>sc_need_send := x, sc_not_processed := y\<rparr>) = has_key r k s"
    "waiting r (s\<lparr>sc_need_send := x, sc_not_processed := y\<rparr>) = waiting r s"
    "announced rid (m\<lparr>cm_reqs_not_processed := z\<rparr>) = announced rid m" for r k x y z m
    by (simp_all add: has_key_def waiting_def announced_def)
  note unfold = build_connector_meta_def op_defs op_simps conserves_def weight_def remote_ready_def queued_def
  show ?thesis
  proof (cases "sc_producer s")
    case True
    obtain full where "fold_result (add_queued s False) (sc_need_send s) empty_meta = Inr full" "announced rid full = 0"
      using send [of empty_meta] by (auto simp: announced_engines engines_empty)
    then show ?thesis
      using True inv after keys by (auto simp: unfold has_key_def waiting_def announced_engines engines_empty)
  next
    case False
    show ?thesis
    proof (cases "fold_result (add_queued s True) (sc_need_recv s) empty_meta")
      case (Inr meta)
      obtain full where "fold_result (add_queued s False) (sc_need_send s) meta = Inr full" "announced rid full = announced rid meta"
        using send [of meta] by blast
      then show ?thesis
        using False Inr inv after keys build_recv_part [OF inv(1) Inr, of rid]
        by (auto simp: unfold has_key_def waiting_def)
    qed (use False in \<open>simp add: unfold\<close>)
  qed
qed

section \<open>Exactly once\<close>

lemma exec_conserves:
  assumes inv: "sched_inv s" "remote_ready rid s" and one: "weight rid s \<le> 1" and run: "sched_exec c s = (ms, t)"
  shows "conserves rid s ms t"
proof (cases c)
  case (MatchTokens q n)
  then show ?thesis
    using run inv recv_frame_conserves [OF match_tokens_frame [of q n s _ t]]
    by (auto simp: void_run_def conserves_refl split: option.splits)
next
  case (AfterAlloc q blocks n)
  then show ?thesis
    using run inv after_alloc_conserves [of q blocks n s _ t rid] one
    by (auto simp: void_run_def conserves_refl split: option.splits)
next
  case BuildMeta
  then show ?thesis
    using run build_conserves [OF inv] inv by (auto simp: conserves_refl split: option.splits sum.splits)
next
  case (Finished q blocks)
  then show ?thesis
    using run inv finished_conserves [of q blocks s _ t rid] one
    by (auto simp: void_run_def conserves_refl split: option.splits)
qed

text \<open>
  C30. A remote prefill is announced to the workers exactly once.  For a request with the three
  addresses of its transfer, the number of places where it is (still waiting, queued) plus the number
  of messages that name it is the same after any sequence of scheduler calls, on any requests and
  with calls that raise: a waiting request is announced at most once, and if it is neither waiting nor
  queued any more it was announced.
\<close>

theorem remote_prefill_announced_once:
  assumes "sched_inv s" and "remote_ready rid s" and "weight rid s \<le> 1"
  shows "case sched_run cs s of (ms, t) \<Rightarrow> weight rid t + sum_list (map (announced rid) ms) = weight rid s"
  using assms
proof (induction cs arbitrary: s)
  case (Cons c cs)
  obtain ms t where exec: "sched_exec c s = (ms, t)"
    by (cases "sched_exec c s")
  have one: "conserves rid s ms t"
    using exec_conserves [OF Cons.prems exec] .
  then have "sched_inv t" "remote_ready rid t" "weight rid t \<le> 1"
    using Cons.prems(3) by (auto simp: conserves_def)
  with Cons.IH [of t] one show ?case
    by (auto simp: exec conserves_def split: prod.splits)
qed simp

definition blank_request :: request where
  "blank_request = \<lparr>rq_params = None, rq_prompt_token_ids = Some [7, 8, 9], rq_prompt_embeds = None, rq_all_token_ids = [7, 8, 9],
     rq_num_prompt_tokens = 3, rq_max_tokens = 16, rq_status = FINISHED_LENGTH_CAPPED\<rparr>"

definition pull_args :: xfer_args where
  "pull_args = [(''do_remote_prefill'', PvBool True), (''remote_engine_id'', PvText ''e''),
     (''remote_bootstrap_addr'', PvText ''http://p''), (''transfer_id'', PvText ''t'')]"

definition decode_scheduler :: scheduler where
  "decode_scheduler = init_scheduler (\<lambda>a b. (a + b - 1) div b) ''kv_consumer'' False False [True] [(0, 16)]
     (\<lambda>_. blank_request\<lparr>rq_params := Some pull_args\<rparr>)"

theorem remote_prefill_announced_once_witness:
  "case sched_run [MatchTokens ''d'' 0, AfterAlloc ''d'' [[3, 4]] 3, BuildMeta, Finished ''d'' [[3, 4]], BuildMeta] decode_scheduler of
     (ms, t) \<Rightarrow> weight ''d'' t + sum_list (map (announced ''d'') ms) = weight ''d'' decode_scheduler"
proof (rule remote_prefill_announced_once)
  show "sched_inv decode_scheduler"
    by (simp add: sched_inv_def decode_scheduler_def init_scheduler_def)
  show "remote_ready ''d'' decode_scheduler"
    by (simp add: remote_ready_def has_key_def decode_scheduler_def init_scheduler_def pull_args_def)
  show "weight ''d'' decode_scheduler \<le> 1"
    by (simp add: weight_def queued_def decode_scheduler_def init_scheduler_def)
qed

section \<open>An aborted request without an address\<close>

lemma fold_result_Inl_mem:
  "x \<in> set xs \<Longrightarrow> (\<And>st. \<exists>e. f x st = Inl e) \<Longrightarrow> \<exists>e. fold_result f xs st = Inl e"
proof (induction xs arbitrary: st)
  case (Cons y ys)
  show ?case
  proof (cases "f y st")
    case (Inr st')
    then have "x \<in> set ys"
      using Cons.prems by (metis Inl_Inr_False set_ConsD)
    then show ?thesis
      using Inr Cons.IH [of st'] Cons.prems(2) by simp
  qed simp
qed simp

text \<open>
  \<open>request_finished\<close> queues an aborted remote prefill without looking for the address of its prefill
  engine, which \<open>update_state_after_alloc\<close> does check.  When the engine id or the bootstrap address is
  missing, \<open>build_connector_meta\<close> raises and leaves its queues as they are, so it raises again in every later
  step: one bad request stops the messages of all.
\<close>

theorem aborted_request_blocks_messages:
  assumes role: "\<not> sc_producer s" and params: "rq_params (sc_request s rid) = Some params"
    and flags: "flag params ''transfer_id''" "flag params ''do_remote_prefill''"
    and missing: "dict_get params ''remote_engine_id'' = None \<or> dict_get params ''remote_bootstrap_addr'' = None"
  shows "\<exists>t. request_finished rid blocks s = Some (Inr False, t) \<and> (\<exists>e. build_connector_meta t = Some (Inl e, t))"
proof -
  have ne: "params \<noteq> []"
    using flags(1) by (auto simp: flag_def)
  let ?t = "moved rid [] params s"
  have run: "request_finished rid blocks s = Some (Inr False, ?t)"
    using role params flags ne by (simp add: request_finished_def op_defs op_simps queue_recv_def moved_def)
  have args: "rq_params (sc_request ?t rid) = Some (clear_prefill params)" "\<not> sc_producer ?t"
    using role by (simp_all add: moved_def set_params_def)
  have "dict_get (clear_prefill params) ''remote_engine_id'' = None \<or> dict_get (clear_prefill params) ''remote_bootstrap_addr'' = None"
    using missing by (simp add: clear_prefill_def)
  then have bad: "\<exists>e. add_queued ?t True (rid, []) meta = Inl e" for meta
    using args(1) by (auto simp: add_queued_def add_new_req_def param_at_def split: option.split)
  have "dict_get (sc_need_recv ?t) rid = Some []"
    by (simp add: moved_def)
  then have "(rid, []) \<in> set (sc_need_recv ?t)"
    by (rule map_of_SomeD)
  then obtain e where "fold_result (add_queued ?t True) (sc_need_recv ?t) empty_meta = Inl e"
    using fold_result_Inl_mem [of "(rid, [])" "sc_need_recv ?t" "add_queued ?t True" empty_meta] bad by blast
  then have "build_connector_meta ?t = Some (Inl e, ?t)"
    using args(2) by (simp add: build_connector_meta_def op_defs op_simps)
  with run show ?thesis
    by blast
qed

definition aborted_args :: xfer_args where
  "aborted_args = [(''do_remote_prefill'', PvBool True), (''transfer_id'', PvText ''t'')]"

definition aborting_scheduler :: scheduler where
  "aborting_scheduler = decode_scheduler\<lparr>sc_request := (\<lambda>_. blank_request\<lparr>rq_params := Some aborted_args\<rparr>)\<rparr>"

theorem aborted_request_blocks_messages_witness:
  "\<exists>t. request_finished ''d'' [] aborting_scheduler = Some (Inr False, t) \<and> (\<exists>e. build_connector_meta t = Some (Inl e, t))"
  by (rule aborted_request_blocks_messages [of _ _ aborted_args])
    (simp_all add: aborting_scheduler_def decode_scheduler_def init_scheduler_def aborted_args_def flag_def)

end
