(* ===== verification/Mooncake_Producer.thy ===== *)
theory Mooncake_Producer
  imports Mooncake_Transfer Mooncake_Scheduler
begin

text \<open>
  The producer's worker of the mooncake connector: the requests it holds for decode workers, the
  handlers that serve those workers, and the report of finished requests (\<open>record_send_reqs\<close>,
  \<open>send_kv_to_decode\<close>, \<open>_sender_worker\<close> and \<open>fetch_finished_sending_reqs\<close> of
  \<open>MooncakeConnectorWorker\<close>).

  All of it runs on one event loop, so the code between two points where a coroutine is suspended is
  one step.  A \<open>SendBlockMeta\<close> is shared by the table and the handlers and outlives its entry in the
  table: the state has a list of such objects and the holders have their positions in it.  The
  readiness event of an object is a flag.  A handler is suspended in \<open>asyncio.wait\<close> or during a
  transfer of the engine; which of its ready requests the wait reports, and in which order, is an
  argument of the step, and so are the clock and the engine's result.
\<close>

section \<open>State\<close>

record send_meta =
  sm_p_req_id :: string
  sm_transfer_id :: param_value
  sm_local_block_ids :: "int list list"
  sm_ready :: bool
  sm_expire_time :: "int option"
  sm_need_send :: int
  sm_sent :: int
  sm_sending :: int

text \<open>The expiry \<open>float('inf')\<close> of a new object is \<open>None\<close>.\<close>

definition new_send_meta :: "string \<Rightarrow> param_value \<Rightarrow> send_meta" where
  "new_send_meta p_req_id transfer_id =
     \<lparr>sm_p_req_id = p_req_id, sm_transfer_id = transfer_id, sm_local_block_ids = [], sm_ready = False,
      sm_expire_time = None, sm_need_send = 0, sm_sent = 0, sm_sending = 0\<rparr>"

datatype response_status = FINISH | CONTINUE | ERROR

record xfer_response =
  xr_status :: response_status
  xr_ok_reqs :: "string list option"
  xr_err_reqs :: "string list option"
  xr_err_msg :: "string option"

record flight =
  fl_ready :: "(string \<times> nat) list"
  fl_params :: transfer_params

record handler =
  ha_meta :: agent_meta
  ha_locals :: "transfer_region list"
  ha_remotes :: "transfer_region list"
  ha_pending :: "(string, nat) dict"
  ha_flight :: "flight option"
  ha_responses :: "xfer_response list"

record producer =
  pr_sender :: sender
  pr_pcp_dummy :: bool
  pr_timeout :: int
  pr_metas :: "send_meta list"
  pr_need_send :: "(param_value, nat) dict"
  pr_finished :: "string list"
  pr_handlers :: "handler list"

definition upd_meta :: "nat \<Rightarrow> (send_meta \<Rightarrow> send_meta) \<Rightarrow> producer \<Rightarrow> producer" where
  "upd_meta a f p = p\<lparr>pr_metas := (pr_metas p)[a := f (pr_metas p ! a)]\<rparr>"

definition upd_handler :: "nat \<Rightarrow> (handler \<Rightarrow> handler) \<Rightarrow> producer \<Rightarrow> producer" where
  "upd_handler i f p = p\<lparr>pr_handlers := (pr_handlers p)[i := f (pr_handlers p ! i)]\<rparr>"

text \<open>A new object under a transfer id that the table does not have.\<close>

definition ensure_meta :: "string \<Rightarrow> param_value \<Rightarrow> producer \<Rightarrow> producer" where
  "ensure_meta p_req_id transfer_id p =
     (if dict_get (pr_need_send p) transfer_id = None
      then p\<lparr>pr_metas := pr_metas p @ [new_send_meta p_req_id transfer_id],
             pr_need_send := dict_set transfer_id (length (pr_metas p)) (pr_need_send p)\<rparr>
      else p)"

section \<open>What the scheduler tells the worker\<close>

fun param_repr :: "param_value \<Rightarrow> string" where
  "param_repr PvNone = ''None''"
| "param_repr (PvBool b) = (if b then ''True'' else ''False'')"
| "param_repr (PvText t) = py_repr t"

definition mark_ready :: "string \<Rightarrow> int list list \<Rightarrow> int \<Rightarrow> send_meta \<Rightarrow> send_meta" where
  "mark_ready p_req_id blocks expire m =
     m\<lparr>sm_p_req_id := p_req_id, sm_local_block_ids := blocks, sm_expire_time := Some expire, sm_ready := True\<rparr>"

definition finish_request :: "param_value \<Rightarrow> string \<Rightarrow> producer \<Rightarrow> producer" where
  "finish_request transfer_id p_req_id p =
     p\<lparr>pr_need_send := dict_pop transfer_id (pr_need_send p), pr_finished := List.insert p_req_id (pr_finished p)\<rparr>"

definition record_send :: "int \<Rightarrow> string \<times> param_value \<times> int list list \<Rightarrow> (producer, unit) op" where
  "record_send now = (\<lambda>(p_req_id, transfer_id, blocks).
     bind_op (gets id) (\<lambda>p.
       if blocks \<noteq> []
       then if pr_pcp_dummy p then modify (finish_request transfer_id p_req_id)
            else (case dict_get (pr_need_send p) transfer_id of
                    None \<Rightarrow> throw (Exn KeyError (param_repr transfer_id))
                  | Some a \<Rightarrow> modify (upd_meta a (mark_ready p_req_id blocks (now + pr_timeout p))))
       else modify (ensure_meta p_req_id transfer_id)))"

definition drop_unprocessed :: "param_value \<Rightarrow> (producer, unit) op" where
  "drop_unprocessed transfer_id =
     bind_op (gets id) (\<lambda>p.
       seq_op (modify (\<lambda>p. p\<lparr>pr_need_send := dict_pop transfer_id (pr_need_send p)\<rparr>))
         (case dict_get (pr_need_send p) transfer_id of
            None \<Rightarrow> ret ()
          | Some a \<Rightarrow> if sm_ready (pr_metas p ! a) then throw (Exn AssertionError []) else ret ()))"

definition record_send_reqs :: "int \<Rightarrow> connector_meta \<Rightarrow> (producer, unit) op" where
  "record_send_reqs now meta =
     seq_op (for_each (cm_reqs_to_send meta) (record_send now))
       (for_each (cm_reqs_not_processed meta) drop_unprocessed)"

section \<open>Serving a decode worker\<close>

definition error_response :: "string \<Rightarrow> xfer_response" where
  "error_response message = \<lparr>xr_status = ERROR, xr_ok_reqs = None, xr_err_reqs = None, xr_err_msg = Some message\<rparr>"

definition enlist_request :: "string \<times> string \<times> int list list \<Rightarrow> producer \<times> (string, nat) dict \<Rightarrow> producer \<times> (string, nat) dict" where
  "enlist_request = (\<lambda>(d_req_id, transfer_id, _) (p, pending).
     let p' = ensure_meta [] (PvText transfer_id) p
     in (p', dict_set d_req_id (the (dict_get (pr_need_send p') (PvText transfer_id))) pending))"

definition add_handler :: "handler \<Rightarrow> producer \<Rightarrow> producer" where
  "add_handler h p = p\<lparr>pr_handlers := pr_handlers p @ [h]\<rparr>"

definition open_handler :: "agent_meta \<Rightarrow> transfer_region list \<Rightarrow> transfer_region list \<Rightarrow> (string, nat) dict \<Rightarrow> xfer_response list \<Rightarrow> handler" where
  "open_handler meta locals remotes pending responses =
     \<lparr>ha_meta = meta, ha_locals = locals, ha_remotes = remotes, ha_pending = pending, ha_flight = None, ha_responses = responses\<rparr>"

text \<open>A request of a decode worker, up to the first wait of its handler.\<close>

definition start_handler :: "agent_meta \<Rightarrow> producer \<Rightarrow> producer" where
  "start_handler meta p =
     (case accept_metadata (pr_sender p) meta of
        Inl e \<Rightarrow> add_handler (open_handler meta [] [] [] [error_response (exn_text e)]) p
      | Inr (Inl message) \<Rightarrow> add_handler (open_handler meta [] [] [] [error_response message]) p
      | Inr (Inr (locals, remotes)) \<Rightarrow>
          (case fold enlist_request (am_req_blocks meta) (p, []) of
             (p', pending) \<Rightarrow> add_handler (open_handler meta locals remotes pending []) p'))"

definition respond :: "xfer_response \<Rightarrow> handler \<Rightarrow> handler" where
  "respond r h = h\<lparr>ha_responses := ha_responses h @ [r]\<rparr>"

text \<open>\<open>_sender_worker\<close> answers an exception of the handler with its text.\<close>

definition fail_handler :: "exn \<Rightarrow> handler \<Rightarrow> handler" where
  "fail_handler e h = respond (error_response (exn_text e)) (h\<lparr>ha_pending := [], ha_flight := None\<rparr>)"

definition time_out :: "nat \<Rightarrow> producer \<Rightarrow> producer" where
  "time_out i = upd_handler i (\<lambda>h.
     respond \<lparr>xr_status = FINISH, xr_ok_reqs = None, xr_err_reqs = Some (dict_keys (ha_pending h)),
              xr_err_msg = Some ''Timeout waiting for P side ready.''\<rparr> (h\<lparr>ha_pending := []\<rparr>))"

definition resolve_need_send :: "int list \<Rightarrow> send_meta \<Rightarrow> send_meta" where
  "resolve_need_send ranks m = m\<lparr>sm_need_send := int (length ranks)\<rparr>"

definition claim_meta :: "int list \<Rightarrow> send_meta \<Rightarrow> send_meta" where
  "claim_meta ranks m =
     (let m' = m\<lparr>sm_sending := sm_sending m + 1\<rparr> in if sm_need_send m' = 0 then resolve_need_send ranks m' else m')"

definition claim_request :: "int list \<Rightarrow> string \<times> nat \<Rightarrow> producer \<times> (string \<times> nat) list \<Rightarrow> producer \<times> (string \<times> nat) list" where
  "claim_request ranks = (\<lambda>(d, a) (p, ready).
     if dict_get (pr_need_send p) (sm_transfer_id (pr_metas p ! a)) \<noteq> None
     then (upd_meta a (claim_meta ranks) p, ready @ [(d, a)])
     else (p, ready))"

definition settle_request :: "string list \<Rightarrow> string \<times> nat \<Rightarrow> producer \<Rightarrow> producer" where
  "settle_request errs = (\<lambda>(d, a) p0.
     let p1 = upd_meta a (\<lambda>m. m\<lparr>sm_sending := sm_sending m - 1\<rparr>) p0
     in if d \<in> set errs then p1
        else let p2 = upd_meta a (\<lambda>m. m\<lparr>sm_sent := sm_sent m + 1\<rparr>) p1;
                 m = pr_metas p2 ! a
             in if sm_sent m = sm_need_send m \<and> dict_get (pr_need_send p2) (sm_transfer_id m) \<noteq> None
                then finish_request (sm_transfer_id m) (sm_p_req_id m) p2 else p2)"

definition none_if_empty :: "'a list \<Rightarrow> 'a list option" where
  "none_if_empty xs = (if xs = [] then None else Some xs)"

definition settle_response :: "bool \<Rightarrow> string list \<Rightarrow> string option \<Rightarrow> (string \<times> nat) list \<Rightarrow> xfer_response" where
  "settle_response unfinished errs message ok =
     \<lparr>xr_status = (if unfinished then CONTINUE else FINISH), xr_ok_reqs = none_if_empty (map fst ok),
      xr_err_reqs = none_if_empty errs, xr_err_msg = message\<rparr>"

text \<open>The rest of a round once the engine has returned; \<open>code\<close> is its result, 0 when nothing was sent.\<close>

definition settle_round :: "nat \<Rightarrow> flight \<Rightarrow> int \<Rightarrow> producer \<Rightarrow> producer" where
  "settle_round i f code p =
     (let params = fl_params f;
          ok = filter (\<lambda>(d, _). d \<notin> set (tp_err_reqs params)) (fl_ready f);
          text = ''Mooncake transfer engine returned '' @ str_int code;
          errs = (if code = 0 then tp_err_reqs params else tp_err_reqs params @ map fst ok);
          message = (if code = 0 then tp_err_msg params
                     else Some (case tp_err_msg params of None \<Rightarrow> text | Some m \<Rightarrow> m @ ''; '' @ text));
          unfinished = ha_pending (pr_handlers p ! i) \<noteq> []
      in upd_handler i (\<lambda>h. respond (settle_response unfinished errs message (if code = 0 then ok else [])) (h\<lparr>ha_flight := None\<rparr>))
           (fold (settle_request errs) (fl_ready f) p))"

text \<open>A round: \<open>finished\<close> are the requests whose wait is over.\<close>

definition begin_round :: "nat \<Rightarrow> string list \<Rightarrow> producer \<Rightarrow> producer" where
  "begin_round i finished p =
     (let h = pr_handlers p ! i;
          ranks = sn_target_ranks (pr_sender p) (am_tp_size (ha_meta h));
          p1 = upd_handler i (\<lambda>h. h\<lparr>ha_pending := fold dict_pop finished (ha_pending h)\<rparr>) p
      in case fold (claim_request ranks) (map (\<lambda>d. (d, the (dict_get (ha_pending h) d))) finished) (p1, []) of
           (p2, ready) \<Rightarrow>
             (case build_transfer_params (sn_env (pr_sender p))
                     (map (\<lambda>(d, a). (d, sm_local_block_ids (pr_metas p2 ! a))) ready) (ha_meta h) (ha_locals h) (ha_remotes h) of
                Inl e \<Rightarrow> upd_handler i (fail_handler e) p2
              | Inr params \<Rightarrow>
                  let f = \<lparr>fl_ready = ready, fl_params = params\<rparr>
                  in if tp_descriptors params = [] then settle_round i f 0 p2
                     else upd_handler i (\<lambda>h. h\<lparr>ha_flight := Some f\<rparr>) p2))"

definition end_round :: "nat \<Rightarrow> int result \<Rightarrow> producer \<Rightarrow> producer" where
  "end_round i outcome p =
     (case outcome of
        Inl e \<Rightarrow> upd_handler i (fail_handler e) p
      | Inr code \<Rightarrow> settle_round i (the (ha_flight (pr_handlers p ! i))) code p)"

section \<open>Finished and expired requests\<close>

definition expired :: "int \<Rightarrow> send_meta \<Rightarrow> bool" where
  "expired now m \<longleftrightarrow> sm_p_req_id m \<noteq> [] \<and> (case sm_expire_time m of None \<Rightarrow> False | Some t \<Rightarrow> t < now) \<and> sm_sending m = 0"

definition fetch_finished_sending_reqs :: "int \<Rightarrow> producer \<Rightarrow> string list \<times> producer" where
  "fetch_finished_sending_reqs now p =
     (let late = filter (\<lambda>(_, a). expired now (pr_metas p ! a)) (pr_need_send p)
      in (fold (\<lambda>(_, a). List.insert (sm_p_req_id (pr_metas p ! a))) late (pr_finished p),
          p\<lparr>pr_finished := [], pr_need_send := fold (\<lambda>(transfer_id, _). dict_pop transfer_id) late (pr_need_send p)\<rparr>))"

section \<open>Steps of the event loop\<close>

definition can_wait :: "nat \<Rightarrow> producer \<Rightarrow> bool" where
  "can_wait i p \<longleftrightarrow> i < length (pr_handlers p) \<and> ha_pending (pr_handlers p ! i) \<noteq> [] \<and> ha_flight (pr_handlers p ! i) = None"

definition wakes :: "nat \<Rightarrow> string list \<Rightarrow> producer \<Rightarrow> bool" where
  "wakes i finished p \<longleftrightarrow> finished \<noteq> [] \<and> distinct finished
     \<and> list_all (\<lambda>d. case dict_get (ha_pending (pr_handlers p ! i)) d of None \<Rightarrow> False | Some a \<Rightarrow> sm_ready (pr_metas p ! a)) finished"

datatype worker_event =
    Recorded "unit result" | Asked | TimedOut nat | Round nat | Transferred nat | Fetched "string list"

inductive worker_step :: "producer \<Rightarrow> worker_event \<Rightarrow> producer \<Rightarrow> bool" where
  Record: "record_send_reqs now meta p = Some (r, q) \<Longrightarrow> worker_step p (Recorded r) q"
| Ask: "distinct (dict_keys (am_req_blocks meta)) \<Longrightarrow> worker_step p Asked (start_handler meta p)"
| Timeout: "can_wait i p \<Longrightarrow> worker_step p (TimedOut i) (time_out i p)"
| Wake: "can_wait i p \<Longrightarrow> wakes i finished p \<Longrightarrow> worker_step p (Round i) (begin_round i finished p)"
| Transfer: "i < length (pr_handlers p) \<Longrightarrow> ha_flight (pr_handlers p ! i) \<noteq> None \<Longrightarrow>
    worker_step p (Transferred i) (end_round i outcome p)"
| Fetch: "fetch_finished_sending_reqs now p = (done_ids, q) \<Longrightarrow> worker_step p (Fetched done_ids) q"

inductive worker_run :: "producer \<Rightarrow> worker_event list \<Rightarrow> producer \<Rightarrow> bool" where
  Stop: "worker_run p [] p"
| Step: "worker_step p e q \<Longrightarrow> worker_run q es r \<Longrightarrow> worker_run p (e # es) r"

inductive_cases worker_stepE: "worker_step p e q"
inductive_simps worker_run_Nil: "worker_run p [] q"
inductive_simps worker_run_Cons: "worker_run p (e # es) q"

definition init_producer :: "sender \<Rightarrow> bool \<Rightarrow> int \<Rightarrow> producer" where
  "init_producer sn dummy timeout =
     \<lparr>pr_sender = sn, pr_pcp_dummy = dummy, pr_timeout = timeout, pr_metas = [], pr_need_send = [], pr_finished = [], pr_handlers = []\<rparr>"

end
