(* ===== verification/Mooncake_Producer_Inv.thy ===== *)
theory Mooncake_Producer_Inv
  imports Mooncake_Producer
begin

text \<open>
  The producer's worker keeps a request while its blocks are being read, and every handler ends.
\<close>

section \<open>Counting transfers and waits\<close>

definition flight_of :: "handler \<Rightarrow> nat list" where
  "flight_of h = (case ha_flight h of None \<Rightarrow> [] | Some f \<Rightarrow> map snd (fl_ready f))"

definition flights :: "producer \<Rightarrow> nat \<Rightarrow> nat" where
  "flights p a = (\<Sum>h\<leftarrow>pr_handlers p. count_list (flight_of h) a)"

definition waits :: "producer \<Rightarrow> nat \<Rightarrow> nat" where
  "waits p a = (\<Sum>h\<leftarrow>pr_handlers p. count_list (map snd (ha_pending h)) a)"

text \<open>Which rank asked for which transfer.\<close>

definition asked_by :: "handler \<Rightarrow> (param_value \<times> int) list" where
  "asked_by h = map (\<lambda>(_, t, _). (PvText t, am_tp_rank (ha_meta h))) (am_req_blocks (ha_meta h))"

definition ask_pairs :: "producer \<Rightarrow> (param_value \<times> int) list" where
  "ask_pairs p = concat (map asked_by (pr_handlers p))"

definition asks :: "int list \<Rightarrow> producer \<Rightarrow> param_value \<Rightarrow> nat" where
  "asks ranks p t = length (filter (\<lambda>(t', r). t' = t \<and> r \<in> set ranks) (ask_pairs p))"

text \<open>
  What holds of the objects, with the number of transfers in flight \<open>F\<close>, of handlers waiting \<open>T\<close> and
  of ranks that asked \<open>A\<close>, each at most \<open>L\<close>.
\<close>

definition meta_ok :: "(param_value, nat) dict \<Rightarrow> nat \<Rightarrow> nat \<Rightarrow> nat \<Rightarrow> nat \<Rightarrow> nat \<Rightarrow> send_meta \<Rightarrow> bool" where
  "meta_ok tab L A a F T m \<longleftrightarrow> int F \<le> sm_sending m \<and> 0 \<le> sm_sent m \<and> sm_sent m + int F + int T \<le> int A
     \<and> (sm_need_send m = 0 \<or> sm_need_send m = int L)
     \<and> (F > 0 \<longrightarrow> sm_need_send m = int L \<and> sm_ready m \<and> dict_get tab (sm_transfer_id m) = Some a)"

definition held :: "producer \<Rightarrow> nat \<Rightarrow> (param_value \<Rightarrow> nat) \<Rightarrow> (nat \<Rightarrow> nat) \<Rightarrow> (nat \<Rightarrow> nat) \<Rightarrow> bool" where
  "held p L A F T \<longleftrightarrow> distinct (dict_keys (pr_need_send p))
     \<and> (\<forall>t a. dict_get (pr_need_send p) t = Some a \<longrightarrow> a < length (pr_metas p) \<and> sm_transfer_id (pr_metas p ! a) = t)
     \<and> (\<forall>a. F a > 0 \<or> T a > 0 \<longrightarrow> a < length (pr_metas p))
     \<and> (\<forall>a < length (pr_metas p). meta_ok (pr_need_send p) L (A (sm_transfer_id (pr_metas p ! a))) a (F a) (T a) (pr_metas p ! a))
     \<and> (pr_pcp_dummy p \<longrightarrow> (\<forall>a < length (pr_metas p). \<not> sm_ready (pr_metas p ! a)))"

lemma heldI:
  assumes "distinct (dict_keys (pr_need_send p))"
    and "\<And>t a. dict_get (pr_need_send p) t = Some a \<Longrightarrow> a < length (pr_metas p) \<and> sm_transfer_id (pr_metas p ! a) = t"
    and "\<And>a. F a > 0 \<or> T a > 0 \<Longrightarrow> a < length (pr_metas p)"
    and "\<And>a. a < length (pr_metas p) \<Longrightarrow>
      meta_ok (pr_need_send p) L (A (sm_transfer_id (pr_metas p ! a))) a (F a) (T a) (pr_metas p ! a)"
    and "\<And>a. pr_pcp_dummy p \<Longrightarrow> a < length (pr_metas p) \<Longrightarrow> \<not> sm_ready (pr_metas p ! a)"
  shows "held p L A F T"
  using assms by (simp add: held_def)

lemma heldD:
  assumes "held p L A F T"
  shows "dict_get (pr_need_send p) t = Some a \<Longrightarrow> a < length (pr_metas p)"
    and "dict_get (pr_need_send p) t = Some a \<Longrightarrow> sm_transfer_id (pr_metas p ! a) = t"
    and "a < length (pr_metas p) \<Longrightarrow> meta_ok (pr_need_send p) L (A (sm_transfer_id (pr_metas p ! a))) a (F a) (T a) (pr_metas p ! a)"
    and "distinct (dict_keys (pr_need_send p))" and "pr_pcp_dummy p \<Longrightarrow> a < length (pr_metas p) \<Longrightarrow> \<not> sm_ready (pr_metas p ! a)"
    and "F a > 0 \<Longrightarrow> a < length (pr_metas p)" and "T a > 0 \<Longrightarrow> a < length (pr_metas p)"
  using assms by (auto simp: held_def)

lemma held_mono:
  assumes "held p L A F T" and le: "\<forall>a. F' a \<le> F a" "\<forall>a. T' a \<le> T a" "\<forall>t. A t \<le> A' t"
  shows "held p L A' F' T'"
proof (rule heldI)
  note D = heldD [OF assms(1)]
  show "a < length (pr_metas p)" if "F' a > 0 \<or> T' a > 0" for a
    using that le(1,2) [rule_format, of a] D(6,7) [of a] by auto
  show "meta_ok (pr_need_send p) L (A' (sm_transfer_id (pr_metas p ! a))) a (F' a) (T' a) (pr_metas p ! a)"
    if "a < length (pr_metas p)" for a
    using D(3) [OF that] le(1,2) [rule_format, of a] le(3) [rule_format, of "sm_transfer_id (pr_metas p ! a)"]
    by (auto simp: meta_ok_def)
qed (use heldD [OF assms(1)] in auto)

section \<open>The table\<close>

lemma upd_meta_simps [simp]:
  "pr_need_send (upd_meta a f p) = pr_need_send p" "pr_handlers (upd_meta a f p) = pr_handlers p"
  "pr_pcp_dummy (upd_meta a f p) = pr_pcp_dummy p" "pr_sender (upd_meta a f p) = pr_sender p"
  "pr_metas (upd_meta a f p) = (pr_metas p)[a := f (pr_metas p ! a)]"
  by (simp_all add: upd_meta_def)

lemma upd_handler_simps [simp]:
  "pr_need_send (upd_handler i g p) = pr_need_send p" "pr_metas (upd_handler i g p) = pr_metas p"
  "pr_pcp_dummy (upd_handler i g p) = pr_pcp_dummy p" "pr_sender (upd_handler i g p) = pr_sender p"
  "pr_handlers (upd_handler i g p) = (pr_handlers p)[i := g (pr_handlers p ! i)]"
  by (simp_all add: upd_handler_def)

lemma held_upd_meta:
  assumes "held p L A F T" and "a < length (pr_metas p)"
    and same: "sm_transfer_id (f (pr_metas p ! a)) = sm_transfer_id (pr_metas p ! a)"
    and ok: "meta_ok (pr_need_send p) L (A (sm_transfer_id (pr_metas p ! a))) a (F' a) (T' a) (f (pr_metas p ! a))"
    and others: "\<forall>b. b \<noteq> a \<longrightarrow> F' b = F b \<and> T' b = T b"
    and dummy: "pr_pcp_dummy p \<longrightarrow> \<not> sm_ready (f (pr_metas p ! a))"
  shows "held (upd_meta a f p) L A F' T'"
proof (rule heldI)
  note D = heldD [OF assms(1)]
  have at: "pr_metas (upd_meta a f p) ! b = (if b = a then f (pr_metas p ! a) else pr_metas p ! b)" for b
    using assms(2) by simp
  show "b < length (pr_metas (upd_meta a f p))" if "F' b > 0 \<or> T' b > 0" for b
    using that others D(6,7) [of b] assms(2) by (cases "b = a") auto
  show "meta_ok (pr_need_send (upd_meta a f p)) L (A (sm_transfer_id (pr_metas (upd_meta a f p) ! b))) b (F' b) (T' b)
      (pr_metas (upd_meta a f p) ! b)" if "b < length (pr_metas (upd_meta a f p))" for b
    using that ok others D(3) [of b] unfolding at by (auto simp: same)
  show "b < length (pr_metas (upd_meta a f p)) \<and> sm_transfer_id (pr_metas (upd_meta a f p) ! b) = t"
    if "dict_get (pr_need_send (upd_meta a f p)) t = Some b" for t b
    using that D(1,2) [of t b] unfolding at by (auto simp: same)
  show "\<not> sm_ready (pr_metas (upd_meta a f p) ! b)" if "pr_pcp_dummy (upd_meta a f p)" "b < length (pr_metas (upd_meta a f p))" for b
    using that D(5) [of b] dummy unfolding at by auto
qed (simp add: heldD(4) [OF assms(1)])

lemma held_pop:
  assumes "held p L A F T" and free: "\<forall>a. dict_get (pr_need_send p) t = Some a \<longrightarrow> F a = 0"
  shows "held (p\<lparr>pr_need_send := dict_pop t (pr_need_send p), pr_finished := fin\<rparr>) L A F T"
proof (rule heldI)
  note D = heldD [OF assms(1)]
  show "meta_ok (pr_need_send (p\<lparr>pr_need_send := dict_pop t (pr_need_send p), pr_finished := fin\<rparr>)) L
      (A (sm_transfer_id (pr_metas (p\<lparr>pr_need_send := dict_pop t (pr_need_send p), pr_finished := fin\<rparr>) ! a))) a (F a) (T a)
      (pr_metas (p\<lparr>pr_need_send := dict_pop t (pr_need_send p), pr_finished := fin\<rparr>) ! a)"
    if "a < length (pr_metas (p\<lparr>pr_need_send := dict_pop t (pr_need_send p), pr_finished := fin\<rparr>))" for a
    using D(3) [of a] that free by (auto simp: meta_ok_def)
qed (use heldD [OF assms(1)] in \<open>auto split: if_splits\<close>)

lemma held_ensure:
  assumes "held p L A F T"
  shows "held (ensure_meta rid t p) L A F T"
proof (cases "dict_get (pr_need_send p) t")
  case None
  note D = heldD [OF assms]
  let ?n = "length (pr_metas p)" and ?q = "ensure_meta rid t p"
  have q: "pr_need_send ?q = dict_set t ?n (pr_need_send p)" "pr_metas ?q = pr_metas p @ [new_send_meta rid t]" "pr_pcp_dummy ?q = pr_pcp_dummy p"
    using None by (simp_all add: ensure_meta_def)
  have at: "pr_metas ?q ! a = (if a < ?n then pr_metas p ! a else new_send_meta rid t)" if "a < length (pr_metas ?q)" for a
    using that by (auto simp: q nth_append less_Suc_eq)
  show ?thesis
  proof (rule heldI)
    fix a
    assume a: "a < length (pr_metas ?q)"
    have zero: "F a = 0" "T a = 0" if "\<not> a < ?n"
      using D(6,7) [of a] that by auto
    then show "meta_ok (pr_need_send ?q) L (A (sm_transfer_id (pr_metas ?q ! a))) a (F a) (T a) (pr_metas ?q ! a)"
      using D(3) [of a] None unfolding at [OF a] by (auto simp: q meta_ok_def new_send_meta_def)
    show "\<not> sm_ready (pr_metas ?q ! a)" if "pr_pcp_dummy ?q"
      using D(5) [of a] that unfolding at [OF a] by (simp add: q new_send_meta_def)
  next
    show "a < length (pr_metas ?q) \<and> sm_transfer_id (pr_metas ?q ! a) = t'" if "dict_get (pr_need_send ?q) t' = Some a" for t' a
      using that D(1,2) [of t' a] by (auto simp: q nth_append new_send_meta_def split: if_splits)
    show "a < length (pr_metas ?q)" if "F a > 0 \<or> T a > 0" for a
      using that D(6,7) [of a] by (auto simp: q)
  qed (use D(4) q in \<open>auto intro: dict_set_distinct\<close>)
qed (simp add: ensure_meta_def assms)

section \<open>Claiming and settling a request\<close>

lemma held_claim:
  assumes held: "held p L A F T" and unique: "distinct (map sm_transfer_id (pr_metas p))"
    and a: "T a > 0" "sm_ready (pr_metas p ! a)" and L: "L = length ranks"
    and live: "dict_get (pr_need_send p) (sm_transfer_id (pr_metas p ! a)) \<noteq> None"
  shows "held (upd_meta a (claim_meta ranks) p) L A (F(a := F a + 1)) (T(a := T a - 1))"
proof -
  note D = heldD [OF held]
  have in_a: "a < length (pr_metas p)"
    using D(7) a by blast
  obtain b where b: "dict_get (pr_need_send p) (sm_transfer_id (pr_metas p ! a)) = Some b"
    using live by blast
  then have "b = a"
    using D(1,2) [OF b] unique in_a by (auto simp: distinct_conv_nth)
  moreover have "\<not> pr_pcp_dummy p"
    using D(5) [of a] in_a a by blast
  ultimately show ?thesis
    using D(3) [OF in_a] a b L by (intro held_upd_meta [OF held in_a]) (auto simp: claim_meta_def resolve_need_send_def meta_ok_def Let_def)
qed

lemma held_settle:
  assumes held: "held p L A F T" and a: "F a > 0" and A: "\<forall>t. A t \<le> L"
  shows "held (settle_request errs (d, a) p) L A (F(a := F a - 1)) T"
proof -
  note D = heldD [OF held]
  let ?F = "F(a := F a - 1)"
  let ?p = "upd_meta a (\<lambda>m. m\<lparr>sm_sending := sm_sending m - 1\<rparr>) p"
  have in_a: "a < length (pr_metas p)" and ok: "meta_ok (pr_need_send p) L (A (sm_transfer_id (pr_metas p ! a))) a (F a) (T a) (pr_metas p ! a)"
    using D(3,6) a by blast+
  have one: "held ?p L A ?F T"
    using ok a D(5) [OF _ in_a] by (intro held_upd_meta [OF held in_a]) (auto simp: meta_ok_def)
  show ?thesis
  proof (cases "d \<in> set errs")
    case False
    let ?q = "upd_meta a (\<lambda>m. m\<lparr>sm_sent := sm_sent m + 1\<rparr>) ?p"
    have two: "held ?q L A ?F T"
      using ok a D(5) [OF _ in_a] in_a by (intro held_upd_meta [OF one]) (auto simp: meta_ok_def)
    have sent: "sm_sent (pr_metas ?q ! a) + int (?F a) \<le> int L" "sm_need_send (pr_metas ?q ! a) = int L"
      "dict_get (pr_need_send ?q) (sm_transfer_id (pr_metas ?q ! a)) = Some a"
      using ok a in_a A [rule_format, of "sm_transfer_id (pr_metas p ! a)"] by (auto simp: meta_ok_def)
    have "held (finish_request (sm_transfer_id (pr_metas ?q ! a)) rid ?q) L A ?F T"
      if "sm_sent (pr_metas ?q ! a) = sm_need_send (pr_metas ?q ! a)" for rid
      unfolding finish_request_def using sent that by (intro held_pop [OF two]) auto
    then show ?thesis
      using False two by (auto simp: settle_request_def Let_def simp del: upd_meta_simps)
  qed (use one in \<open>simp add: settle_request_def Let_def\<close>)
qed

lemma count_le_Cons:
  assumes "\<forall>b. count_list (x # xs) b \<le> (F b :: nat)"
  shows "F x > 0" and "\<forall>b. count_list xs b \<le> (F(x := F x - 1)) b"
proof -
  have "Suc (count_list xs x) \<le> F x"
    using assms [rule_format, of x] by simp
  then show "F x > 0" and "\<forall>b. count_list xs b \<le> (F(x := F x - 1)) b"
    using assms by (auto split: if_splits)
qed

lemma settle_keeps [simp]: "pr_handlers (settle_request errs x p) = pr_handlers p"
  by (simp add: settle_request_def finish_request_def Let_def split: prod.splits)

lemma fold_settle_handlers [simp]: "pr_handlers (fold (settle_request errs) xs p) = pr_handlers p"
  by (induction xs arbitrary: p) simp_all

lemma held_fold_settle:
  assumes "held p L A F T" and "\<forall>a. count_list (map snd xs) a \<le> F a" and "\<forall>t. A t \<le> L"
  shows "held (fold (settle_request errs) xs p) L A (\<lambda>a. F a - count_list (map snd xs) a) T"
  using assms(1,2)
proof (induction xs arbitrary: p F)
  case (Cons x xs)
  obtain d a where x: "x = (d, a)"
    by (cases x)
  have "F a > 0" and le: "\<forall>b. count_list (map snd xs) b \<le> (F(a := F a - 1)) b"
    using count_le_Cons [of a "map snd xs" F] Cons.prems(2) by (simp_all add: x)
  then have one: "held (settle_request errs (d, a) p) L A (F(a := F a - 1)) T"
    using held_settle Cons.prems(1) assms(3) by blast
  have "held (fold (settle_request errs) xs (settle_request errs (d, a) p)) L A
      (\<lambda>b. (F(a := F a - 1)) b - count_list (map snd xs) b) T"
    by (rule Cons.IH [OF one le])
  moreover have "(\<lambda>b. (F(a := F a - 1)) b - count_list (map snd xs) b) = (\<lambda>b. F b - count_list (map snd (x # xs)) b)"
    by (auto simp: x)
  ultimately show ?case
    by (simp add: x)
qed simp

lemma held_claim_request:
  assumes held: "held p L A (\<lambda>b. G b + count_list (map snd ready) b) T" and "distinct (map sm_transfer_id (pr_metas p))"
    and "T a > 0" "sm_ready (pr_metas p ! a)" "L = length ranks" and run: "claim_request ranks (d, a) (p, ready) = (q, ready')"
  shows "held q L A (\<lambda>b. G b + count_list (map snd ready') b) (T(a := T a - 1))"
proof (cases "dict_get (pr_need_send p) (sm_transfer_id (pr_metas p ! a)) = None")
  case True
  then show ?thesis
    using run held_mono [OF held, of _ "T(a := T a - 1)" A] by (auto simp: claim_request_def)
next
  case False
  have "(\<lambda>b. G b + count_list (map snd (ready @ [(d, a)])) b)
      = (\<lambda>b. G b + count_list (map snd ready) b)(a := G a + count_list (map snd ready) a + 1)"
    by auto
  then show ?thesis
    using held_claim [OF held assms(2-5) False] False run by (auto simp: claim_request_def)
qed

definition same_frame :: "producer \<Rightarrow> producer \<Rightarrow> bool" where
  "same_frame p q \<longleftrightarrow> pr_handlers q = pr_handlers p \<and> pr_sender q = pr_sender p
     \<and> map sm_transfer_id (pr_metas q) = map sm_transfer_id (pr_metas p) \<and> map sm_ready (pr_metas q) = map sm_ready (pr_metas p)"

lemma map_update_same: "g y = g (xs ! a) \<Longrightarrow> map g (xs[a := y]) = map g xs"
  by (cases "a < length xs") (simp_all add: map_update list_update_same_conv list_update_beyond)

lemma claim_frame:
  assumes "claim_request ranks x (p, ready) = (q, ready')"
  shows "same_frame p q"
  using assms by (auto simp: claim_request_def same_frame_def claim_meta_def resolve_need_send_def Let_def
      split: prod.splits if_splits intro!: map_update_same)

lemma same_frame_trans: "same_frame p q \<Longrightarrow> same_frame q r \<Longrightarrow> same_frame p r"
  by (simp add: same_frame_def)

lemma same_frame_ready:
  assumes "same_frame p q" and "a < length (pr_metas p)"
  shows "sm_ready (pr_metas q ! a) = sm_ready (pr_metas p ! a)"
proof -
  have eq: "map sm_ready (pr_metas q) = map sm_ready (pr_metas p)"
    using assms(1) by (simp add: same_frame_def)
  then have "length (pr_metas q) = length (pr_metas p)"
    using map_eq_imp_length_eq by blast
  then show ?thesis
    using arg_cong [OF eq, of "\<lambda>xs. xs ! a"] assms(2) by simp
qed

lemma held_fold_claim:
  assumes "held p L A (\<lambda>b. G b + count_list (map snd ready) b) T" and "distinct (map sm_transfer_id (pr_metas p))" and "L = length ranks"
    and "\<forall>a. count_list (map snd xs) a \<le> T a" and "\<forall>(d, a) \<in> set xs. sm_ready (pr_metas p ! a)"
    and "fold (claim_request ranks) xs (p, ready) = (q, ready')"
  shows "held q L A (\<lambda>b. G b + count_list (map snd ready') b) (\<lambda>a. T a - count_list (map snd xs) a) \<and> same_frame p q"
  using assms
proof (induction xs arbitrary: p T ready)
  case (Cons x xs)
  obtain d a where x: "x = (d, a)"
    by (cases x)
  obtain p1 ready1 where step: "claim_request ranks (d, a) (p, ready) = (p1, ready1)"
    by (cases "claim_request ranks (d, a) (p, ready)")
  have "T a > 0" and le: "\<forall>b. count_list (map snd xs) b \<le> (T(a := T a - 1)) b"
    using count_le_Cons [of a "map snd xs" T] Cons.prems(4) by (simp_all add: x)
  moreover have "sm_ready (pr_metas p ! a)"
    using Cons.prems(5) by (simp add: x)
  ultimately have one: "held p1 L A (\<lambda>b. G b + count_list (map snd ready1) b) (T(a := T a - 1))"
    using held_claim_request Cons.prems(1-3) step by blast
  have frame: "same_frame p p1"
    using claim_frame step .
  have ready: "\<forall>(d, b) \<in> set xs. sm_ready (pr_metas p1 ! b)"
  proof (intro ballI, clarify)
    fix e b
    assume e: "(e, b) \<in> set xs"
    then have "b \<in> set (map snd xs)"
      by force
    then have "count_list (map snd xs) b > 0"
      by (metis count_list_0_iff gr0I)
    then have "T b > 0"
      using Cons.prems(4) [rule_format, of b] by (auto simp: x split: if_splits)
    then have "b < length (pr_metas p)"
      using heldD(7) [OF Cons.prems(1)] by blast
    then show "sm_ready (pr_metas p1 ! b)"
      using same_frame_ready [OF frame] Cons.prems(5) e by auto
  qed
  have uniq: "distinct (map sm_transfer_id (pr_metas p1))"
    using frame Cons.prems(2) by (simp add: same_frame_def)
  have rest: "fold (claim_request ranks) xs (p1, ready1) = (q, ready')"
    using Cons.prems(6) step by (simp add: x)
  have "(\<lambda>b. (T(a := T a - 1)) b - count_list (map snd xs) b) = (\<lambda>b. T b - count_list (map snd (x # xs)) b)"
    by (auto simp: x)
  then show ?case
    using Cons.IH [OF one uniq Cons.prems(3) le ready rest] same_frame_trans [OF frame] by simp
qed (simp add: same_frame_def)

section \<open>Handlers\<close>

lemma sum_list_update:
  assumes "i < length xs"
  shows "sum_list (map f (xs[i := y])) + f (xs ! i) = sum_list (map f xs) + (f y :: nat)"
  using assms
proof (induction xs arbitrary: i)
  case (Cons x xs)
  then show ?case
    by (cases i) auto
qed simp

lemma flights_upd:
  assumes "i < length (pr_handlers p)"
  shows "flights (upd_handler i g p) a + count_list (flight_of (pr_handlers p ! i)) a
      = flights p a + count_list (flight_of (g (pr_handlers p ! i))) a"
  using sum_list_update [OF assms, of "\<lambda>h. count_list (flight_of h) a"] by (simp add: flights_def)

lemma waits_upd:
  assumes "i < length (pr_handlers p)"
  shows "waits (upd_handler i g p) a + count_list (map snd (ha_pending (pr_handlers p ! i))) a
      = waits p a + count_list (map snd (ha_pending (g (pr_handlers p ! i)))) a"
  using sum_list_update [OF assms, of "\<lambda>h. count_list (map snd (ha_pending h)) a"] by (simp add: waits_def)

lemma held_upd_handler [simp]: "held (upd_handler i g p) L A F T = held p L A F T"
  by (simp add: held_def)

definition worker_ok :: "int list \<Rightarrow> producer \<Rightarrow> bool" where
  "worker_ok ranks p \<longleftrightarrow> held p (length ranks) (asks ranks p) (flights p) (waits p)
     \<and> (\<forall>h \<in> set (pr_handlers p). distinct (dict_keys (ha_pending h)))"

lemma asks_upd:
  assumes "\<And>h. ha_meta (g h) = ha_meta h"
  shows "asks ranks (upd_handler i g p) = asks ranks p"
proof -
  have "map asked_by ((pr_handlers p)[i := g (pr_handlers p ! i)]) = map asked_by (pr_handlers p)"
    using assms by (intro map_update_same) (simp add: asked_by_def)
  then show ?thesis
    by (simp add: asks_def ask_pairs_def fun_eq_iff)
qed

text \<open>Handlers keep the request they serve.\<close>

definition keeps_meta :: "(handler \<Rightarrow> handler) \<Rightarrow> bool" where
  "keeps_meta g \<longleftrightarrow> (\<forall>h. ha_meta (g h) = ha_meta h)"

lemma keeps_meta_simps [simp]:
  "keeps_meta (\<lambda>h. h\<lparr>ha_pending := x h\<rparr>)" "keeps_meta (\<lambda>h. h\<lparr>ha_flight := y h\<rparr>)" "keeps_meta (fail_handler e)"
  "keeps_meta (\<lambda>h. respond (r h) (h\<lparr>ha_flight := None\<rparr>))" "keeps_meta (\<lambda>h. respond (r h) (h\<lparr>ha_pending := []\<rparr>))"
  by (simp_all add: keeps_meta_def fail_handler_def respond_def)

lemma worker_okI:
  assumes "held q (length ranks) (asks ranks p) F T" and "i < length (pr_handlers q)" and "pr_handlers q = pr_handlers p"
    and "keeps_meta g" and F: "\<forall>a. flights (upd_handler i g q) a \<le> F a" and T: "\<forall>a. waits (upd_handler i g q) a \<le> T a"
    and keys: "\<forall>h \<in> set (pr_handlers p). distinct (dict_keys (ha_pending h))" "distinct (dict_keys (ha_pending (g (pr_handlers p ! i))))"
  shows "worker_ok ranks (upd_handler i g q)"
proof -
  have "asks ranks (upd_handler i g q) = asks ranks p"
    using asks_upd [of g ranks i q] assms(3,4) by (simp add: keeps_meta_def asks_def ask_pairs_def fun_eq_iff)
  moreover have "set ((pr_handlers p)[i := g (pr_handlers p ! i)]) \<subseteq> insert (g (pr_handlers p ! i)) (set (pr_handlers p))"
    by (rule set_update_subset_insert)
  ultimately show ?thesis
    using held_mono [OF assms(1) F T, of "asks ranks p"] keys assms(3) by (auto simp: worker_ok_def)
qed

lemma flights_cong:
  assumes "pr_handlers q = pr_handlers p"
  shows "flights q = flights p" "waits q = waits p" "asks ranks q = asks ranks p"
  using assms by (simp_all add: flights_def waits_def asks_def ask_pairs_def fun_eq_iff)

lemma flight_le: "i < length (pr_handlers p) \<Longrightarrow> count_list (flight_of (pr_handlers p ! i)) a \<le> flights p a"
  unfolding flights_def by (rule member_le_sum_list) (auto intro: imageI nth_mem)

lemma wait_le: "i < length (pr_handlers p) \<Longrightarrow> count_list (map snd (ha_pending (pr_handlers p ! i))) a \<le> waits p a"
  unfolding waits_def by (rule member_le_sum_list) (auto intro: imageI nth_mem)

lemma settle_round_ok:
  assumes ok: "worker_ok ranks p" and i: "i < length (pr_handlers p)" and f: "ha_flight (pr_handlers p ! i) = Some f"
    and A: "\<forall>t. asks ranks p t \<le> length ranks"
  shows "worker_ok ranks (settle_round i f code p)"
proof -
  note held = ok [unfolded worker_ok_def, THEN conjunct1] and keys = ok [unfolded worker_ok_def, THEN conjunct2]
  have fl: "flight_of (pr_handlers p ! i) = map snd (fl_ready f)"
    by (simp add: flight_of_def f)
  then have "\<forall>a. count_list (map snd (fl_ready f)) a \<le> flights p a"
    using flight_le [OF i] by simp
  from held_fold_settle [OF held this A]
  have settled: "held (fold (settle_request errs) (fl_ready f) p) (length ranks) (asks ranks p)
      (\<lambda>a. flights p a - count_list (map snd (fl_ready f)) a) (waits p)" for errs .
  have "worker_ok ranks (upd_handler i (\<lambda>h. respond (r h) (h\<lparr>ha_flight := None\<rparr>)) (fold (settle_request errs) (fl_ready f) p))" for r errs
  proof (rule worker_okI [OF settled])
    let ?q = "fold (settle_request errs) (fl_ready f) p" and ?g = "\<lambda>h. respond (r h) (h\<lparr>ha_flight := None\<rparr>)"
    have i': "i < length (pr_handlers ?q)"
      using i by simp
    show "\<forall>a. flights (upd_handler i ?g ?q) a \<le> flights p a - count_list (map snd (fl_ready f)) a"
    proof
      fix a
      show "flights (upd_handler i ?g ?q) a \<le> flights p a - count_list (map snd (fl_ready f)) a"
        using flights_upd [OF i', of ?g a] fl by (simp add: respond_def flight_of_def flights_cong(1) [of ?q p])
    qed
    show "\<forall>a. waits (upd_handler i ?g ?q) a \<le> waits p a"
      using waits_upd [OF i', of ?g] by (simp add: respond_def flights_cong(2) [of ?q p])
    show "distinct (dict_keys (ha_pending (?g (pr_handlers p ! i))))"
      using keys i by (simp add: respond_def)
  qed (use i keys in simp_all)
  then show ?thesis
    by (simp add: settle_round_def Let_def)
qed

lemma time_out_ok:
  assumes ok: "worker_ok ranks p" and i: "i < length (pr_handlers p)"
  shows "worker_ok ranks (time_out i p)"
  unfolding time_out_def
proof (rule worker_okI [OF ok [unfolded worker_ok_def, THEN conjunct1]])
  let ?g = "\<lambda>h. respond \<lparr>xr_status = FINISH, xr_ok_reqs = None, xr_err_reqs = Some (dict_keys (ha_pending h)),
              xr_err_msg = Some ''Timeout waiting for P side ready.''\<rparr> (h\<lparr>ha_pending := []\<rparr>)"
  show "\<forall>a. flights (upd_handler i ?g p) a \<le> flights p a"
    using flights_upd [OF i, of ?g] by (simp add: respond_def flight_of_def)
  show "\<forall>a. waits (upd_handler i ?g p) a \<le> waits p a"
  proof
    show "waits (upd_handler i ?g p) a \<le> waits p a" for a
      using waits_upd [OF i, of ?g a] by (simp add: respond_def)
  qed
  show "distinct (dict_keys (ha_pending (?g (pr_handlers p ! i))))"
    by (simp add: respond_def)
qed (use i ok in \<open>simp_all add: worker_ok_def keeps_meta_def respond_def\<close>)

lemma fail_ok:
  assumes "held q (length ranks) (asks ranks p) F T" and i: "i < length (pr_handlers p)" and "pr_handlers q = pr_handlers p"
    and "\<forall>h \<in> set (pr_handlers p). distinct (dict_keys (ha_pending h))"
    and F: "\<forall>a. flights p a \<le> F a + count_list (flight_of (pr_handlers p ! i)) a"
    and T: "\<forall>a. waits p a \<le> T a + count_list (map snd (ha_pending (pr_handlers p ! i))) a"
  shows "worker_ok ranks (upd_handler i (fail_handler e) q)"
proof (rule worker_okI [OF assms(1)])
  have i': "i < length (pr_handlers q)"
    using i assms(3) by simp
  show "\<forall>a. flights (upd_handler i (fail_handler e) q) a \<le> F a"
  proof
    show "flights (upd_handler i (fail_handler e) q) a \<le> F a" for a
      using flights_upd [OF i', of "fail_handler e" a] F [rule_format, of a] flights_cong(1) [OF assms(3)] assms(3)
      by (simp add: fail_handler_def respond_def flight_of_def)
  qed
  show "\<forall>a. waits (upd_handler i (fail_handler e) q) a \<le> T a"
  proof
    show "waits (upd_handler i (fail_handler e) q) a \<le> T a" for a
      using waits_upd [OF i', of "fail_handler e" a] T [rule_format, of a] flights_cong(2) [OF assms(3)] assms(3)
      by (simp add: fail_handler_def respond_def)
  qed
  show "distinct (dict_keys (ha_pending (fail_handler e (pr_handlers p ! i))))"
    by (simp add: fail_handler_def respond_def)
qed (use i assms(3,4) in simp_all)

lemma end_round_ok:
  assumes ok: "worker_ok ranks p" and i: "i < length (pr_handlers p)" and "ha_flight (pr_handlers p ! i) \<noteq> None"
    and "\<forall>t. asks ranks p t \<le> length ranks"
  shows "worker_ok ranks (end_round i outcome p)"
proof (cases outcome)
  case (Inl e)
  then show ?thesis
    using ok fail_ok [of p ranks p "flights p" "waits p" i e] i by (simp add: end_round_def worker_ok_def)
qed (use assms settle_round_ok in \<open>auto simp: end_round_def\<close>)

section \<open>A round\<close>

lemma count_pop:
  assumes "distinct (dict_keys d)"
  shows "count_list (map snd d) a = count_list (map snd (dict_pop k d)) a + (if dict_get d k = Some a then 1 else 0)"
  using assms
proof (induction d)
  case (Cons x d)
  obtain k' v where x: "x = (k', v)"
    by (cases x)
  show ?case
  proof (cases "k' = k")
    case True
    then have "k \<notin> set (dict_keys d)"
      using Cons.prems by (simp add: x)
    then have "dict_pop k d = d"
      by (simp add: delete_conv filter_id_conv)
    then show ?thesis
      using True by (simp add: x)
  qed (use Cons in \<open>simp add: x\<close>)
qed simp

lemma count_pops:
  assumes "distinct (dict_keys d)" and "distinct ks" and "\<forall>k \<in> set ks. dict_get d k \<noteq> None"
  shows "count_list (map snd d) a
    = count_list (map snd (fold dict_pop ks d)) a + count_list (map snd (map (\<lambda>k. (k, the (dict_get d k))) ks)) a"
  using assms
proof (induction ks arbitrary: d)
  case (Cons k ks)
  have same: "map snd (map (\<lambda>k'. (k', the (dict_get (dict_pop k d) k'))) ks) = map snd (map (\<lambda>k'. (k', the (dict_get d k'))) ks)"
    using Cons.prems(2) by auto
  have "count_list (map snd (dict_pop k d)) a = count_list (map snd (fold dict_pop ks (dict_pop k d))) a
      + count_list (map snd (map (\<lambda>k'. (k', the (dict_get (dict_pop k d) k'))) ks)) a"
    using Cons.prems by (intro Cons.IH) auto
  with count_pop [OF Cons.prems(1), of a k] Cons.prems(3) show ?case
    unfolding same by auto
qed simp

lemma pops_distinct: "distinct (dict_keys d) \<Longrightarrow> distinct (dict_keys (fold dict_pop ks d))"
  by (induction ks arbitrary: d) (auto intro: dict_pop_distinct)

lemma handlers_irrelevant:
  "upd_meta a f (q\<lparr>pr_handlers := hs\<rparr>) = (upd_meta a f q)\<lparr>pr_handlers := hs\<rparr>"
  "finish_request t rid (q\<lparr>pr_handlers := hs\<rparr>) = (finish_request t rid q)\<lparr>pr_handlers := hs\<rparr>"
  by (simp_all add: upd_meta_def finish_request_def)

lemma settle_handlers_irrelevant:
  "settle_request errs x (q\<lparr>pr_handlers := hs\<rparr>) = (settle_request errs x q)\<lparr>pr_handlers := hs\<rparr>"
  by (cases x) (auto simp: settle_request_def Let_def handlers_irrelevant simp del: upd_meta_simps)

lemma fold_settle_handlers_irrelevant:
  "fold (settle_request errs) xs (q\<lparr>pr_handlers := hs\<rparr>) = (fold (settle_request errs) xs q)\<lparr>pr_handlers := hs\<rparr>"
  by (induction xs arbitrary: q) (simp_all add: settle_handlers_irrelevant)

lemma settle_round_flight:
  assumes "i < length (pr_handlers q)"
  shows "settle_round i f code (upd_handler i (\<lambda>h. h\<lparr>ha_flight := Some f\<rparr>) q) = settle_round i f code q"
  using assms by (simp add: settle_round_def upd_handler_def respond_def fold_settle_handlers_irrelevant Let_def)

lemma begin_round_cases:
  assumes "fold (claim_request (sn_target_ranks (pr_sender p) (am_tp_size (ha_meta (pr_handlers p ! i)))))
      (map (\<lambda>d. (d, the (dict_get (ha_pending (pr_handlers p ! i)) d))) finished)
      (upd_handler i (\<lambda>h. h\<lparr>ha_pending := fold dict_pop finished (ha_pending h)\<rparr>) p, []) = (q, ready)"
  obtains (fail) e where "begin_round i finished p = upd_handler i (fail_handler e) q"
  | (fly) f where "fl_ready f = ready" "begin_round i finished p = upd_handler i (\<lambda>h. h\<lparr>ha_flight := Some f\<rparr>) q"
  | (skip) f where "fl_ready f = ready" "begin_round i finished p = settle_round i f 0 q"
proof -
  let ?r = "build_transfer_params (sn_env (pr_sender p)) (map (\<lambda>(d, a). (d, sm_local_block_ids (pr_metas q ! a))) ready)
     (ha_meta (pr_handlers p ! i)) (ha_locals (pr_handlers p ! i)) (ha_remotes (pr_handlers p ! i))"
  show thesis
  proof (cases ?r)
    case (Inl e)
    then show thesis
      using assms by (intro fail) (simp add: begin_round_def Let_def)
  next
    case (Inr params)
    then show thesis
      using assms fly [of "\<lparr>fl_ready = ready, fl_params = params\<rparr>"] skip [of "\<lparr>fl_ready = ready, fl_params = params\<rparr>"]
      by (cases "tp_descriptors params = []") (simp_all add: begin_round_def Let_def)
  qed
qed

lemma flown_ok:
  assumes held: "held q (length ranks) (asks ranks p) (\<lambda>a. flights p a + count_list (map snd (fl_ready f)) a) (waits p)"
    and hs: "pr_handlers q = pr_handlers p" and i: "i < length (pr_handlers p)" and none: "ha_flight (pr_handlers p ! i) = None"
    and keys: "\<forall>h \<in> set (pr_handlers p). distinct (dict_keys (ha_pending h))"
  shows "worker_ok ranks (upd_handler i (\<lambda>h. h\<lparr>ha_flight := Some f\<rparr>) q)"
proof (rule worker_okI [OF held])
  let ?g = "\<lambda>h. h\<lparr>ha_flight := Some f\<rparr>"
  have i': "i < length (pr_handlers q)"
    using i hs by simp
  show "\<forall>a. flights (upd_handler i ?g q) a \<le> flights p a + count_list (map snd (fl_ready f)) a"
    using flights_upd [OF i', of ?g] none by (simp add: flight_of_def hs flights_cong(1) [OF hs])
  show "\<forall>a. waits (upd_handler i ?g q) a \<le> waits p a"
    using waits_upd [OF i', of ?g] by (simp add: flights_cong(2) [OF hs])
qed (use i hs keys in simp_all)

text \<open>The state after a wait: the finished requests are no longer pending.\<close>

definition woken :: "nat \<Rightarrow> string list \<Rightarrow> producer \<Rightarrow> producer" where
  "woken i finished p = upd_handler i (\<lambda>h. h\<lparr>ha_pending := fold dict_pop finished (ha_pending h)\<rparr>) p"

definition woken_for :: "nat \<Rightarrow> string list \<Rightarrow> producer \<Rightarrow> (string \<times> nat) list" where
  "woken_for i finished p = map (\<lambda>d. (d, the (dict_get (ha_pending (pr_handlers p ! i)) d))) finished"

lemma woken_counts:
  assumes ok: "worker_ok ranks p" and can: "can_wait i p" and wakes: "wakes i finished p"
  shows "waits p a = waits (woken i finished p) a + count_list (map snd (woken_for i finished p)) a"
    and "flights (woken i finished p) = flights p" and "asks ranks (woken i finished p) = asks ranks p"
    and "\<forall>h \<in> set (pr_handlers (woken i finished p)). distinct (dict_keys (ha_pending h))"
proof -
  let ?g = "\<lambda>h. h\<lparr>ha_pending := fold dict_pop finished (ha_pending h)\<rparr>"
  have i: "i < length (pr_handlers p)" and keys: "\<forall>h \<in> set (pr_handlers p). distinct (dict_keys (ha_pending h))"
    using can ok by (auto simp: can_wait_def worker_ok_def)
  have pend: "distinct (dict_keys (ha_pending (pr_handlers p ! i)))"
    using keys i by simp
  have "distinct finished" "\<forall>d \<in> set finished. dict_get (ha_pending (pr_handlers p ! i)) d \<noteq> None"
    using wakes by (auto simp: wakes_def list_all_iff split: option.splits)
  then show "waits p a = waits (woken i finished p) a + count_list (map snd (woken_for i finished p)) a"
    using waits_upd [OF i, of ?g a] count_pops [OF pend, of finished a] by (simp add: woken_def woken_for_def)
  show "flights (woken i finished p) = flights p"
    using flights_upd [OF i, of ?g] by (simp add: woken_def flight_of_def fun_eq_iff)
  show "asks ranks (woken i finished p) = asks ranks p"
    unfolding woken_def by (rule asks_upd) simp
  show "\<forall>h \<in> set (pr_handlers (woken i finished p)). distinct (dict_keys (ha_pending h))"
    using keys pops_distinct [OF pend] set_update_subset_insert [of "pr_handlers p" i "?g (pr_handlers p ! i)"] by (auto simp: woken_def)
qed

lemma claimed_held:
  assumes ok: "worker_ok ranks p" and can: "can_wait i p" and wakes: "wakes i finished p"
    and uniq: "distinct (map sm_transfer_id (pr_metas p))"
    and claim: "fold (claim_request ranks) (woken_for i finished p) (woken i finished p, []) = (q, ready)"
  shows "held q (length ranks) (asks ranks (woken i finished p))
      (\<lambda>a. flights (woken i finished p) a + count_list (map snd ready) a) (waits (woken i finished p))"
    and "pr_handlers q = pr_handlers (woken i finished p)"
proof -
  note T = woken_counts(1) [OF assms(1-3)] and same = woken_counts(2,3) [OF assms(1-3)]
  let ?xs = "woken_for i finished p"
  have le: "\<forall>a. count_list (map snd ?xs) a \<le> waits p a"
  proof
    show "count_list (map snd ?xs) a \<le> waits p a" for a
      unfolding T [of a] by (rule le_add2)
  qed
  have waits: "(\<lambda>a. waits p a - count_list (map snd ?xs) a) = waits (woken i finished p)"
  proof
    show "waits p a - count_list (map snd ?xs) a = waits (woken i finished p) a" for a
      unfolding T [of a] by (rule add_diff_cancel_right')
  qed
  have "held (woken i finished p) (length ranks) (asks ranks p) (\<lambda>a. flights p a + count_list (map snd []) a) (waits p)"
    and "distinct (map sm_transfer_id (pr_metas (woken i finished p)))"
    using ok uniq by (simp_all add: worker_ok_def woken_def)
  moreover have "\<forall>(d, a) \<in> set ?xs. sm_ready (pr_metas (woken i finished p) ! a)"
    using wakes by (auto simp: wakes_def list_all_iff woken_def woken_for_def split: option.splits)
  ultimately show "held q (length ranks) (asks ranks (woken i finished p))
      (\<lambda>a. flights (woken i finished p) a + count_list (map snd ready) a) (waits (woken i finished p))"
    and "pr_handlers q = pr_handlers (woken i finished p)"
    using held_fold_claim [OF _ _ refl le _ claim] unfolding waits same by (simp_all add: same_frame_def)
qed

lemma begin_round_ok:
  assumes ok: "worker_ok ranks p" and can: "can_wait i p" and wakes: "wakes i finished p"
    and uniq: "distinct (map sm_transfer_id (pr_metas p))" and A: "\<forall>t. asks ranks p t \<le> length ranks"
    and ranks: "ranks = sn_target_ranks (pr_sender p) (am_tp_size (ha_meta (pr_handlers p ! i)))"
  shows "worker_ok ranks (begin_round i finished p)"
proof -
  let ?p = "woken i finished p"
  obtain q ready where claim: "fold (claim_request ranks) (woken_for i finished p) (?p, []) = (q, ready)"
    by (cases "fold (claim_request ranks) (woken_for i finished p) (?p, [])")
  note held = claimed_held(1) [OF ok can wakes uniq claim] and hs = claimed_held(2) [OF ok can wakes uniq claim]
  note keys = woken_counts(4) [OF ok can wakes]
  have i: "i < length (pr_handlers ?p)" and none: "ha_flight (pr_handlers ?p ! i) = None"
    using can by (simp_all add: can_wait_def woken_def)
  have flown: "worker_ok ranks (upd_handler i (\<lambda>h. h\<lparr>ha_flight := Some f\<rparr>) q)" if "fl_ready f = ready" for f
    using flown_ok [of q ranks ?p f i] held hs i none keys that by blast
  from claim [unfolded ranks woken_for_def woken_def] show ?thesis
  proof (cases rule: begin_round_cases)
    case (fail e)
    have "worker_ok ranks (upd_handler i (fail_handler e) q)"
      by (rule fail_ok [OF held i hs keys]) (simp_all add: trans_le_add1)
    then show ?thesis
      by (simp add: fail)
  next
    case (skip f)
    let ?q = "upd_handler i (\<lambda>h. h\<lparr>ha_flight := Some f\<rparr>) q"
    have "asks ranks ?q = asks ranks q"
      by (rule asks_upd) simp
    then have "asks ranks ?q = asks ranks p"
      using flights_cong(3) [OF hs] woken_counts(3) [OF ok can wakes] by simp
    then have "worker_ok ranks (settle_round i f 0 ?q)"
      using flown [OF skip(1)] A i hs by (intro settle_round_ok) simp_all
    then show ?thesis
      using settle_round_flight [of i q f 0] i hs by (simp add: skip)
  qed (use flown in simp)
qed

section \<open>Messages, questions and reports\<close>

lemma worker_ok_cong:
  assumes "worker_ok ranks p" and "pr_handlers q = pr_handlers p"
    and "held q (length ranks) (asks ranks p) (flights p) (waits p)"
  shows "worker_ok ranks q"
  using assms by (simp add: worker_ok_def flights_cong [OF assms(2)])

lemma worker_ok_held: "worker_ok ranks p \<Longrightarrow> held p (length ranks) (asks ranks p) (flights p) (waits p)"
  by (simp add: worker_ok_def)

lemma record_send_ok:
  assumes ok: "worker_ok ranks p" and run: "record_send now x p = Some (r, q)"
  shows "worker_ok ranks q"
proof -
  obtain rid t blocks where x: "x = (rid, t, blocks)"
    by (cases x)
  note held = worker_ok_held [OF ok] and D = heldD [OF worker_ok_held [OF ok]]
  have mark: "held (upd_meta a (mark_ready rid blocks n) p) (length ranks) (asks ranks p) (flights p) (waits p)"
    if "dict_get (pr_need_send p) t = Some a" "\<not> pr_pcp_dummy p" for a n
    using D(3) [OF D(1) [OF that(1)]] that
    by (intro held_upd_meta [OF held D(1) [OF that(1)]]) (auto simp: mark_ready_def meta_ok_def)
  have idle: "flights p a = 0" if "pr_pcp_dummy p" "dict_get (pr_need_send p) t = Some a" for a
    using D(3) [OF D(1) [OF that(2)]] D(5) [OF that(1) D(1) [OF that(2)]] by (auto simp: meta_ok_def)
  have "held (finish_request t rid p) (length ranks) (asks ranks p) (flights p) (waits p)" if "pr_pcp_dummy p"
    unfolding finish_request_def using held idle that by (intro held_pop) auto
  then show ?thesis
    using run mark held_ensure [OF held, of rid t] ok
    by (auto simp: x record_send_def op_defs op_simps finish_request_def ensure_meta_def upd_meta_def
        split: if_splits option.splits intro!: worker_ok_cong [OF ok])
qed

lemma drop_unprocessed_ok:
  assumes ok: "worker_ok ranks p" and run: "drop_unprocessed t p = Some (Inr (), q)"
  shows "worker_ok ranks q"
proof -
  note held = worker_ok_held [OF ok] and D = heldD [OF worker_ok_held [OF ok]]
  have q: "q = p\<lparr>pr_need_send := dict_pop t (pr_need_send p), pr_finished := pr_finished p\<rparr>"
    and idle: "\<forall>a. dict_get (pr_need_send p) t = Some a \<longrightarrow> \<not> sm_ready (pr_metas p ! a)"
    using run by (auto simp: drop_unprocessed_def op_defs op_simps split: option.splits if_splits)
  have "flights p a = 0" if "dict_get (pr_need_send p) t = Some a" for a
    using D(3) [OF D(1) [OF that]] idle that by (auto simp: meta_ok_def)
  then show ?thesis
    unfolding q by (intro worker_ok_cong [OF ok] held_pop [OF held]) auto
qed

text \<open>
  A message may raise for a request that is unknown, in the middle of its requests.  The assertion that
  an aborted request was not ready is another matter: it comes after the request left the table.
\<close>

definition tolerable :: "unit result \<Rightarrow> bool" where
  "tolerable r = (case r of Inl e \<Rightarrow> exn_kind e \<noteq> AssertionError | Inr _ \<Rightarrow> True)"

lemma drop_unprocessed_tolerable:
  assumes "drop_unprocessed t p = Some (r, q)" and "tolerable r"
  shows "r = Inr ()"
  using assms by (auto simp: drop_unprocessed_def tolerable_def op_defs op_simps split: option.splits if_splits)

lemma record_send_reqs_ok:
  assumes "worker_ok ranks p" and run: "record_send_reqs now meta p = Some (r, q)" and fine: "tolerable r"
  shows "worker_ok ranks q"
proof -
  note loop = for_each_outcome [where P = "worker_ok ranks" and fine = tolerable]
  have ret: "tolerable (Inr ())"
    by (simp add: tolerable_def)
  have drop: "worker_ok ranks q" if "worker_ok ranks p" "drop_unprocessed t p = Some (r, q)" "tolerable r" for t p r q
    using drop_unprocessed_tolerable [OF that(2,3)] drop_unprocessed_ok [OF that(1)] that(2) by simp
  from run consider e where "for_each (cm_reqs_to_send meta) (record_send now) p = Some (Inl e, q)" "r = Inl e"
    | p1 where "for_each (cm_reqs_to_send meta) (record_send now) p = Some (Inr (), p1)"
      "for_each (cm_reqs_not_processed meta) drop_unprocessed p1 = Some (r, q)"
    by (auto simp: record_send_reqs_def op_defs split: option.splits prod.splits sum.splits)
  then show ?thesis
  proof cases
    case 1
    then show ?thesis
      using loop [OF 1(1) assms(1) _ ret record_send_ok] fine by simp
  next
    case (2 p1)
    show ?thesis
      by (rule loop [OF 2(2) loop [OF 2(1) assms(1) ret ret record_send_ok] fine ret drop])
  qed
qed

lemma fold_pop_held:
  assumes "held p L A F T" and "\<forall>t \<in> fst ` set late. \<forall>b. dict_get (pr_need_send p) t = Some b \<longrightarrow> F b = 0"
  shows "held (p\<lparr>pr_finished := fin, pr_need_send := fold (\<lambda>(t, _). dict_pop t) late (pr_need_send p)\<rparr>) L A F T"
  using assms
proof (induction late arbitrary: p)
  case (Cons x late)
  obtain t a where x: "x = (t, a)"
    by (cases x)
  let ?p = "p\<lparr>pr_need_send := dict_pop t (pr_need_send p), pr_finished := fin\<rparr>"
  have "held ?p L A F T"
    using Cons.prems by (intro held_pop) (auto simp: x)
  then have "held (?p\<lparr>pr_finished := fin, pr_need_send := fold (\<lambda>(t, _). dict_pop t) late (pr_need_send ?p)\<rparr>) L A F T"
    using Cons.prems(2) by (intro Cons.IH) (auto split: if_splits)
  then show ?case
    by (simp add: x)
qed (simp add: held_def)

lemma fetch_ok:
  assumes ok: "worker_ok ranks p" and run: "fetch_finished_sending_reqs now p = (ids, q)"
  shows "worker_ok ranks q"
proof -
  note held = worker_ok_held [OF ok] and D = heldD [OF worker_ok_held [OF ok]]
  let ?late = "filter (\<lambda>(_, a). expired now (pr_metas p ! a)) (pr_need_send p)"
  have "flights p b = 0" if "(t, a) \<in> set ?late" "dict_get (pr_need_send p) t = Some b" for t a b
  proof -
    have "b = a" "expired now (pr_metas p ! a)"
      using that D(4) by auto
    then show ?thesis
      using D(3) [OF D(1) [OF that(2)]] by (simp add: meta_ok_def expired_def)
  qed
  then have "held (p\<lparr>pr_finished := [], pr_need_send := fold (\<lambda>(t, _). dict_pop t) ?late (pr_need_send p)\<rparr>)
      (length ranks) (asks ranks p) (flights p) (waits p)"
    by (intro fold_pop_held [OF held]) force
  then show ?thesis
    using run by (intro worker_ok_cong [OF ok]) (auto simp: fetch_finished_sending_reqs_def Let_def)
qed

definition tid_of :: "string \<times> string \<times> int list list \<Rightarrow> param_value" where
  "tid_of = (\<lambda>(_, t, _). PvText t)"

lemma held_enlist:
  assumes held: "held p L A F T" and "d \<notin> set (dict_keys pending)" and run: "enlist_request (d, t, bs) (p, pending) = (q, pending')"
  obtains a where "pending' = pending @ [(d, a)]" and "held q L (A(PvText t := A (PvText t) + 1)) F (T(a := T a + 1))"
proof -
  let ?q = "ensure_meta [] (PvText t) p"
  note held' = held_ensure [OF held, of "[]" "PvText t"]
  obtain a where a: "dict_get (pr_need_send ?q) (PvText t) = Some a"
    by (cases "dict_get (pr_need_send p) (PvText t)") (auto simp: ensure_meta_def)
  have out: "q = ?q" "pending' = pending @ [(d, a)]"
    using run a dict_set_fresh [of pending d] assms(2) by (auto simp: enlist_request_def Let_def dict_get_None_iff)
  note D = heldD [OF held']
  have tid: "sm_transfer_id (pr_metas ?q ! a) = PvText t"
    using D(2) [OF a] .
  have "held ?q L (A(PvText t := A (PvText t) + 1)) F (T(a := T a + 1))"
  proof (rule heldI)
    show "meta_ok (pr_need_send ?q) L ((A(PvText t := A (PvText t) + 1)) (sm_transfer_id (pr_metas ?q ! b))) b (F b)
        ((T(a := T a + 1)) b) (pr_metas ?q ! b)" if "b < length (pr_metas ?q)" for b
      using D(3) [OF that] tid by (auto simp: meta_ok_def)
    show "b < length (pr_metas ?q)" if "F b > 0 \<or> (T(a := T a + 1)) b > 0" for b
      using that D(1) [OF a] D(6,7) [of b] by (auto split: if_splits)
  qed (use D in auto)
  then show thesis
    using that out by blast
qed

lemma held_fold_enlist:
  assumes "held p L A F (\<lambda>a. T a + count_list (map snd pending) a)" and "distinct (dict_keys pending @ map fst reqs)"
    and "fold enlist_request reqs (p, pending) = (q, pending')"
  shows "held q L (\<lambda>t. A t + count_list (map tid_of reqs) t) F (\<lambda>a. T a + count_list (map snd pending') a)
    \<and> distinct (dict_keys pending') \<and> pr_handlers q = pr_handlers p"
  using assms
proof (induction reqs arbitrary: p pending A)
  case (Cons x reqs)
  obtain d t bs where x: "x = (d, t, bs)"
    by (cases x)
  obtain p1 pending1 where step: "enlist_request (d, t, bs) (p, pending) = (p1, pending1)"
    by (cases "enlist_request (d, t, bs) (p, pending)")
  have "d \<notin> set (dict_keys pending)"
    using Cons.prems(2) by (auto simp: x)
  from held_enlist [OF Cons.prems(1) this step] obtain a where p1: "pending1 = pending @ [(d, a)]"
    and held: "held p1 L (A(PvText t := A (PvText t) + 1)) F
        ((\<lambda>b. T b + count_list (map snd pending) b)(a := T a + count_list (map snd pending) a + 1))"
    by blast
  have counts: "(\<lambda>b. T b + count_list (map snd pending) b)(a := T a + count_list (map snd pending) a + 1)
      = (\<lambda>b. T b + count_list (map snd pending1) b)"
    "(\<lambda>s. (A(PvText t := A (PvText t) + 1)) s + count_list (map tid_of reqs) s) = (\<lambda>s. A s + count_list (map tid_of (x # reqs)) s)"
    by (auto simp: p1 x tid_of_def)
  have "pr_handlers p1 = pr_handlers p"
    using step by (auto simp: enlist_request_def ensure_meta_def Let_def split: if_splits)
  moreover have "distinct (dict_keys pending1 @ map fst reqs)" "fold enlist_request reqs (p1, pending1) = (q, pending')"
    using Cons.prems(2,3) step by (auto simp: p1 x)
  ultimately show ?case
    using Cons.IH [OF held [unfolded counts(1)]] unfolding counts(2) by simp
qed simp

lemma counts_add_handler:
  assumes "ha_flight h = None"
  shows "flights (add_handler h p) = flights p"
    and "waits (add_handler h p) = (\<lambda>a. waits p a + count_list (map snd (ha_pending h)) a)"
    and "asks ranks (add_handler h p) t = asks ranks p t + length (filter (\<lambda>(t', r). t' = t \<and> r \<in> set ranks) (asked_by h))"
  using assms by (simp_all add: add_handler_def flights_def waits_def asks_def ask_pairs_def flight_of_def fun_eq_iff)

lemma asked_count:
  assumes "am_tp_rank (ha_meta h) \<in> set ranks"
  shows "length (filter (\<lambda>(t', r). t' = t \<and> r \<in> set ranks) (asked_by h)) = count_list (map tid_of (am_req_blocks (ha_meta h))) t"
proof -
  have "length (filter (\<lambda>(t', r). t' = t \<and> r \<in> set ranks) (map (\<lambda>(_, s, _). (PvText s, am_tp_rank (ha_meta h))) xs))
      = count_list (map tid_of xs) t" for xs
    using assms by (induction xs) (auto simp: tid_of_def)
  then show ?thesis
    by (simp add: asked_by_def)
qed

lemma held_add_handler [simp]: "held (add_handler h p) L A F T = held p L A F T"
  by (simp add: held_def add_handler_def)

lemma add_handler_ok:
  assumes held: "held q (length ranks) A (flights q) (\<lambda>a. waits q a + count_list (map snd (ha_pending h)) a)"
    and none: "ha_flight h = None" and A: "\<forall>t. A t \<le> asks ranks (add_handler h q) t"
    and "\<forall>h' \<in> set (h # pr_handlers q). distinct (dict_keys (ha_pending h'))"
  shows "worker_ok ranks (add_handler h q)"
proof -
  have "held (add_handler h q) (length ranks) (asks ranks (add_handler h q)) (flights (add_handler h q)) (waits (add_handler h q))"
    unfolding held_add_handler counts_add_handler(1,2) [OF none] by (rule held_mono [OF held _ _ A]) simp_all
  moreover have "\<forall>h' \<in> set (pr_handlers (add_handler h q)). distinct (dict_keys (ha_pending h'))"
    using assms(4) by (simp add: add_handler_def)
  ultimately show ?thesis
    by (simp add: worker_ok_def)
qed

lemma accept_rank: "accept_metadata sn meta = Inr (Inr regions) \<Longrightarrow> am_tp_rank meta \<in> set (sn_target_ranks sn (am_tp_size meta))"
  by (auto simp: accept_metadata_def split: if_splits)

lemma start_ok:
  assumes ok: "worker_ok ranks p" and keys: "distinct (dict_keys (am_req_blocks meta))"
    and ranks: "ranks = sn_target_ranks (pr_sender p) (am_tp_size meta)"
  shows "worker_ok ranks (start_handler meta p)"
proof (cases "\<exists>locals remotes. accept_metadata (pr_sender p) meta = Inr (Inr (locals, remotes))")
  case True
  then obtain locals remotes where acc: "accept_metadata (pr_sender p) meta = Inr (Inr (locals, remotes))"
    by blast
  obtain q pending where fold: "fold enlist_request (am_req_blocks meta) (p, []) = (q, pending)"
    by (cases "fold enlist_request (am_req_blocks meta) (p, [])")
  let ?h = "open_handler meta locals remotes pending []"
  have none: "ha_flight ?h = None" and rank: "am_tp_rank (ha_meta ?h) \<in> set ranks"
    using accept_rank [OF acc] by (simp_all add: open_handler_def ranks)
  have "held q (length ranks) (\<lambda>t. asks ranks p t + count_list (map tid_of (am_req_blocks meta)) t) (flights p)
      (\<lambda>a. waits p a + count_list (map snd pending) a) \<and> distinct (dict_keys pending) \<and> pr_handlers q = pr_handlers p"
    using worker_ok_held [OF ok] keys fold by (intro held_fold_enlist [where pending = "[]"]) simp_all
  then have held: "held q (length ranks) (\<lambda>t. asks ranks p t + count_list (map tid_of (am_req_blocks meta)) t) (flights p)
      (\<lambda>a. waits p a + count_list (map snd pending) a)" and hs: "pr_handlers q = pr_handlers p" "distinct (dict_keys pending)"
    by blast+
  have "asks ranks p t + count_list (map tid_of (am_req_blocks meta)) t = asks ranks (add_handler ?h q) t" for t
    using counts_add_handler(3) [OF none, of ranks q t] asked_count [OF rank, of t] flights_cong(3) [OF hs(1)] by (simp add: open_handler_def)
  then have "\<forall>t. asks ranks p t + count_list (map tid_of (am_req_blocks meta)) t \<le> asks ranks (add_handler ?h q) t"
    by (auto intro: eq_refl)
  then have "worker_ok ranks (add_handler ?h q)"
    using held ok hs none by (intro add_handler_ok [OF _ none]) (simp_all add: flights_cong [OF hs(1)] open_handler_def worker_ok_def)
  then show ?thesis
    by (simp add: start_handler_def acc fold)
next
  case False
  have "worker_ok ranks (add_handler (open_handler meta [] [] [] rs) p)" for rs
    using ok by (intro add_handler_ok [where A = "asks ranks p"]) (simp_all add: open_handler_def worker_ok_def counts_add_handler(3))
  then show ?thesis
    using False by (auto simp: start_handler_def split: sum.splits)
qed

section \<open>Runs\<close>

text \<open>Objects and handlers are only added, and keep the transfer and the question they were made for.\<close>

definition extends :: "producer \<Rightarrow> producer \<Rightarrow> bool" where
  "extends p q \<longleftrightarrow> pr_sender q = pr_sender p \<and> prefix (map ha_meta (pr_handlers p)) (map ha_meta (pr_handlers q))
     \<and> prefix (map sm_transfer_id (pr_metas p)) (map sm_transfer_id (pr_metas q))"

interpretation ext: state_preorder extends
  by unfold_locales (auto simp: extends_def intro: prefix_order.trans)

lemma extends_upd_meta: "(\<And>m. sm_transfer_id (f m) = sm_transfer_id m) \<Longrightarrow> extends p (upd_meta a f p)"
  by (simp add: extends_def map_update_same)

lemma extends_upd_handler: "keeps_meta g \<Longrightarrow> extends p (upd_handler i g p)"
  by (simp add: extends_def map_update_same keeps_meta_def)

lemma extends_table: "extends p (p\<lparr>pr_need_send := x, pr_finished := y\<rparr>)" "extends p (p\<lparr>pr_need_send := x\<rparr>)"
  "extends p (p\<lparr>pr_finished := y, pr_need_send := x\<rparr>)"
  by (simp_all add: extends_def)

lemma extends_ensure: "extends p (ensure_meta rid t p)"
  by (simp add: extends_def ensure_meta_def)

lemma extends_settle: "extends p (settle_request errs x p)"
proof -
  obtain d a where x: "x = (d, a)"
    by (cases x)
  have up: "extends q (upd_meta a (\<lambda>m. m\<lparr>sm_sending := y m\<rparr>) q)" "extends q (upd_meta a (\<lambda>m. m\<lparr>sm_sent := y m\<rparr>) q)"
    "extends q (finish_request t rid q)" for y t rid q
    by (simp_all add: extends_upd_meta finish_request_def extends_table)
  note onto = ext.trans_R [OF _ up(1)] ext.trans_R [OF _ up(2)] ext.trans_R [OF _ up(3)]
  show ?thesis
    unfolding settle_request_def x by (simp add: Let_def onto ext.refl_R del: upd_meta_simps)
qed

lemma extends_fold: "(\<And>x p. extends p (f x p)) \<Longrightarrow> extends p (fold f xs p)"
  by (induction xs arbitrary: p) (auto intro: ext.refl_R ext.trans_R)

lemma extends_settle_round: "extends p (settle_round i f code p)"
  unfolding settle_round_def Let_def
  by (rule ext.trans_R [OF extends_fold extends_upd_handler]) (simp_all add: extends_settle)

lemma extends_record: "op_keeps extends (record_send_reqs now meta)"
  unfolding record_send_reqs_def
proof (intro ext.keeps_seq ext.keeps_for_each)
  show "op_keeps extends (record_send now x)" for x
    by (cases x) (auto simp: record_send_def mark_ready_def finish_request_def extends_table
        intro!: keeps_intros ext.keeps_modify extends_upd_meta extends_ensure)
  show "op_keeps extends (drop_unprocessed t)" for t
    unfolding drop_unprocessed_def by (auto intro!: keeps_intros ext.keeps_modify extends_table)
qed

lemma extends_start: "extends p (start_handler meta p)"
proof -
  have enlists: "fold enlist_request reqs (q, pending) = (r, pending') \<Longrightarrow> extends q r" for reqs q pending r pending'
  proof (induction reqs arbitrary: q pending)
    case (Cons x reqs)
    then show ?case
      by (cases x) (auto simp: enlist_request_def Let_def intro: ext.trans_R [OF extends_ensure])
  qed (simp add: ext.refl_R)
  have add: "extends q (add_handler h q)" for q h
    by (simp add: extends_def add_handler_def)
  show ?thesis
    using add by (auto simp: start_handler_def split: sum.splits prod.splits intro: ext.trans_R [OF enlists])
qed

lemma extends_claims: "fold (claim_request ranks) xs (p, ready) = (q, ready') \<Longrightarrow> extends p q"
proof (induction xs arbitrary: p ready)
  case (Cons x xs)
  obtain p1 ready1 where step: "claim_request ranks x (p, ready) = (p1, ready1)"
    by (cases "claim_request ranks x (p, ready)")
  then have "extends p p1"
    using claim_frame [OF step] by (simp add: same_frame_def extends_def)
  then show ?case
    using Cons.IH [of p1 ready1] Cons.prems step by (auto intro: ext.trans_R)
qed (simp add: ext.refl_R)

lemma claims_handlers: "fold (claim_request ranks) xs (p, ready) = (q, ready') \<Longrightarrow> pr_handlers q = pr_handlers p"
proof (induction xs arbitrary: p ready)
  case (Cons x xs)
  obtain p1 ready1 where step: "claim_request ranks x (p, ready) = (p1, ready1)"
    by (cases "claim_request ranks x (p, ready)")
  then show ?case
    using Cons claim_frame [OF step] by (simp add: same_frame_def)
qed simp

lemma extends_begin: "extends p (begin_round i finished p)"
proof -
  let ?p = "upd_handler i (\<lambda>h. h\<lparr>ha_pending := fold dict_pop finished (ha_pending h)\<rparr>) p"
  obtain q ready where claim: "fold (claim_request (sn_target_ranks (pr_sender p) (am_tp_size (ha_meta (pr_handlers p ! i)))))
      (map (\<lambda>d. (d, the (dict_get (ha_pending (pr_handlers p ! i)) d))) finished) (?p, []) = (q, ready)"
    by fastforce
  have "extends p ?p"
    by (rule extends_upd_handler) simp
  with extends_claims [OF claim] have q: "extends p q"
    by (blast intro: ext.trans_R)
  from claim show ?thesis
    by (cases rule: begin_round_cases) (auto intro!: ext.trans_R [OF q] extends_upd_handler extends_settle_round)
qed

lemma extends_step: "worker_step p e q \<Longrightarrow> extends p q"
  by (induction rule: worker_step.induct)
     (auto simp: time_out_def end_round_def fetch_finished_sending_reqs_def Let_def extends_table
       intro: op_keepsD [OF extends_record] extends_start extends_begin extends_upd_handler extends_settle_round split: sum.splits)

text \<open>
  What the outside does: no message aborts a request that was ready.  There is one decode engine of
  tensor-parallel size \<open>n\<close>: each of its ranks asks for a transfer at most once, and
  no transfer id is used again after its request has left the table.
\<close>

definition accepted :: "worker_event \<Rightarrow> bool" where
  "accepted e = (case e of Recorded r \<Rightarrow> tolerable r | _ \<Rightarrow> True)"

definition one_consumer :: "int \<Rightarrow> producer \<Rightarrow> bool" where
  "one_consumer n p \<longleftrightarrow> list_all (\<lambda>h. am_tp_size (ha_meta h) = n) (pr_handlers p) \<and> distinct (ask_pairs p)
     \<and> distinct (map sm_transfer_id (pr_metas p))"

lemma asked_by_meta: "ask_pairs p = concat (map (\<lambda>meta. map (\<lambda>(_, t, _). (PvText t, am_tp_rank meta)) (am_req_blocks meta)) (map ha_meta (pr_handlers p)))"
  by (simp add: ask_pairs_def asked_by_def [abs_def] comp_def)

lemma one_consumer_earlier:
  assumes "extends p q" and "one_consumer n q"
  shows "one_consumer n p"
proof -
  obtain ms ts where ms: "map ha_meta (pr_handlers q) = map ha_meta (pr_handlers p) @ ms"
    and ts: "map sm_transfer_id (pr_metas q) = map sm_transfer_id (pr_metas p) @ ts"
    using assms(1) by (auto simp: extends_def prefix_def)
  have "list_all (\<lambda>meta. am_tp_size meta = n) (map ha_meta (pr_handlers q))"
    using assms(2) by (simp add: one_consumer_def list.pred_map comp_def)
  then have "list_all (\<lambda>h. am_tp_size (ha_meta h) = n) (pr_handlers p)"
    unfolding ms by (simp add: list.pred_map comp_def)
  moreover have "distinct (ask_pairs p)" "distinct (map sm_transfer_id (pr_metas p))"
    using assms(2) unfolding one_consumer_def asked_by_meta ms ts by auto
  ultimately show ?thesis
    by (simp add: one_consumer_def)
qed

lemma asks_bounded:
  assumes "distinct (ask_pairs p)"
  shows "asks ranks p t \<le> length ranks"
proof -
  let ?xs = "filter (\<lambda>(t', r). t' = t \<and> r \<in> set ranks) (ask_pairs p)"
  have "inj_on snd (set ?xs)"
    by (auto simp: inj_on_def)
  then have "length ?xs = card (snd ` set ?xs)"
    using assms by (simp add: card_image distinct_card [symmetric])
  also have "\<dots> \<le> card (set ranks)"
    by (intro card_mono) auto
  also have "\<dots> \<le> length ranks"
    by (rule card_length)
  finally show ?thesis
    by (simp add: asks_def)
qed

lemma worker_step_ok:
  assumes "worker_step p e q" and ok: "worker_ok ranks p" and ranks: "ranks = sn_target_ranks (pr_sender p) n"
    and fair: "one_consumer n q" and quiet: "accepted e"
  shows "worker_ok ranks q"
proof -
  have p: "one_consumer n p"
    using one_consumer_earlier [OF extends_step [OF assms(1)] fair] .
  then have uniq: "distinct (map sm_transfer_id (pr_metas p))" and A: "\<forall>t. asks ranks p t \<le> length ranks"
    by (auto simp: one_consumer_def intro: asks_bounded)
  have size: "am_tp_size (ha_meta (pr_handlers p ! i)) = n" if "i < length (pr_handlers p)" for i
    using p that by (simp add: one_consumer_def list_all_length)
  from assms(1) show ?thesis
  proof (cases rule: worker_step.cases)
    case (Record now meta r)
    then show ?thesis
      using quiet ok by (auto simp: accepted_def intro: record_send_reqs_ok)
  next
    case (Ask meta)
    have "am_tp_size meta = n"
      using fair Ask by (auto simp: one_consumer_def start_handler_def add_handler_def open_handler_def split: sum.splits prod.splits)
    then show ?thesis
      using Ask ok ranks start_ok by blast
  next
    case (Timeout i)
    then show ?thesis
      using ok time_out_ok by (auto simp: can_wait_def)
  next
    case (Wake i finished)
    then have "i < length (pr_handlers p)"
      by (simp add: can_wait_def)
    then show ?thesis
      using Wake ok uniq A ranks size begin_round_ok by blast
  qed (use ok A in \<open>auto intro: end_round_ok fetch_ok\<close>)
qed

lemma extends_run: "worker_run p es q \<Longrightarrow> extends p q"
  by (induction rule: worker_run.induct) (auto intro: ext.refl_R ext.trans_R extends_step)

lemma worker_run_ok:
  assumes "worker_run p es q" and "worker_ok ranks p" and "ranks = sn_target_ranks (pr_sender p) n" and "one_consumer n q"
    and "list_all accepted es"
  shows "worker_ok ranks q"
  using assms
proof (induction rule: worker_run.induct)
  case (Step p e q es r)
  have "one_consumer n q"
    using one_consumer_earlier [OF extends_run [OF Step(2)] Step.prems(3)] .
  then have "worker_ok ranks q"
    using worker_step_ok [OF Step(1)] Step.prems by simp
  moreover have "pr_sender q = pr_sender p"
    using extends_step [OF Step(1)] by (simp add: extends_def)
  ultimately show ?case
    using Step by simp
qed simp

lemma init_ok: "worker_ok ranks (init_producer sn dummy timeout)"
  by (simp add: worker_ok_def held_def init_producer_def flights_def waits_def)

end
