(* ===== verification/Mooncake_Producer_Correct.thy ===== *)
theory Mooncake_Producer_Correct
  imports Mooncake_Producer_Inv
begin

text \<open>
  The producer's worker: a request stays in the table while its blocks are being read, a handler ends
  after at most one round per request and its last answer, and only that one, is final.
\<close>

section \<open>Blocks are kept while they are read\<close>

lemma flying_meta:
  assumes "worker_run (init_producer sn dummy timeout) es q" and "one_consumer n q" and quiet: "list_all accepted es"
    and i: "i < length (pr_handlers q)" and f: "ha_flight (pr_handlers q ! i) = Some f" and a: "(d, a) \<in> set (fl_ready f)"
  shows "sm_sending (pr_metas q ! a) > 0 \<and> dict_get (pr_need_send q) (sm_transfer_id (pr_metas q ! a)) = Some a"
proof -
  have "worker_ok (sn_target_ranks sn n) q"
    using worker_run_ok [OF assms(1) init_ok _ assms(2) quiet] by (simp add: init_producer_def)
  note D = heldD [OF worker_ok_held [OF this]]
  have "a \<in> set (flight_of (pr_handlers q ! i))"
    using a f by (force simp: flight_of_def)
  then have "count_list (flight_of (pr_handlers q ! i)) a > 0"
    by (metis count_list_0_iff gr0I)
  then have "flights q a > 0"
    using flight_le [OF i, of a] by simp
  then show ?thesis
    using D(3) [OF D(6), of a] by (auto simp: meta_ok_def)
qed

text \<open>
  C18. For an outside that keeps to the protocol, as long as a transfer is in flight, its request is in
  the table under its transfer id, so it has neither been reported as sent nor expired and its blocks
  are not released.  This is over all sequences of messages, questions, wake-ups, engine results and
  reports in which each rank of one decode engine asks at most once for a transfer, no transfer id is
  used again after its request left the table, and no message aborts a request that was ready;
  messages that raise for an unknown request are allowed.  The second condition is needed, as
  \<open>expired_blocks_sent\<close> shows.
\<close>

theorem request_held_while_transferred:
  assumes "worker_run (init_producer sn dummy timeout) es q" and "one_consumer n q" and "list_all accepted es"
    and "i < length (pr_handlers q)" and "ha_flight (pr_handlers q ! i) = Some f" and "(d, a) \<in> set (fl_ready f)"
  shows "dict_get (pr_need_send q) (sm_transfer_id (pr_metas q ! a)) = Some a"
  using flying_meta [OF assms] by blast

text \<open>
  An exception of the transfer engine ends the handler without counting its transfers as over, and a
  request with transfers never expires.
\<close>

lemma failed_transfer_not_expired:
  assumes "worker_run (init_producer sn dummy timeout) es q" and "one_consumer n q" and "list_all accepted es"
    and "i < length (pr_handlers q)" and "ha_flight (pr_handlers q ! i) = Some f" and "(d, a) \<in> set (fl_ready f)"
  shows "\<not> expired now (pr_metas (end_round i (Inl e) q) ! a)"
  using flying_meta [OF assms] by (simp add: end_round_def expired_def)

section \<open>A concrete worker\<close>

text \<open>One producer rank with one layer of 8 blocks that serves the two ranks of a decode engine.\<close>

definition layer_caches :: "int \<Rightarrow> wire_meta" where
  "layer_caches addr = \<lparr>wm_base_addrs = [addr], wm_block_lens = [8], wm_kv_block_lens = [8], wm_layer_names = [''l0''],
     wm_layer_indices = [0], wm_group_indices = [0], wm_num_blocks = [8]\<rparr>"

definition small_sender :: sender where
  "small_sender = \<lparr>sn_caches = layer_caches 1000, sn_layer_groups = [(''l0'', 0)], sn_tp_rank = 0, sn_target_ranks = (\<lambda>_. [0, 1]),
     sn_env = \<lparr>xe_mamba = [False], xe_null = 0, xe_phys = 1, xe_map = (\<lambda>bs _. bs),
       xe_topo = \<lparr>topo_tp_rank = 0, topo_tp_ratio = (\<lambda>_. - 2), topo_replicates = True\<rparr>\<rparr>\<rparr>"

definition question :: "int \<Rightarrow> (string \<times> string) list \<Rightarrow> agent_meta" where
  "question rank reqs = wire_meta.extend (layer_caches (5000 + 1000 * rank))
     \<lparr>am_tp_size = 2, am_tp_rank = rank, am_req_blocks = map (\<lambda>(d, t). (d, t, [[1]])) reqs\<rparr>"

text \<open>The choices of a run as data, so that runs can be evaluated.\<close>

datatype worker_action =
    Message int connector_meta
  | Question agent_meta
  | WaitExpires nat
  | WakeUp nat "string list"
  | EngineReturns nat "int result"
  | Report int

fun perform :: "worker_action \<Rightarrow> producer \<Rightarrow> (worker_event \<times> producer) option" where
  "perform (Message now meta) p = (case record_send_reqs now meta p of None \<Rightarrow> None | Some (r, q) \<Rightarrow> Some (Recorded r, q))"
| "perform (Question meta) p = (if distinct (dict_keys (am_req_blocks meta)) then Some (Asked, start_handler meta p) else None)"
| "perform (WaitExpires i) p = (if can_wait i p then Some (TimedOut i, time_out i p) else None)"
| "perform (WakeUp i ds) p = (if can_wait i p \<and> wakes i ds p then Some (Round i, begin_round i ds p) else None)"
| "perform (EngineReturns i r) p =
     (if i < length (pr_handlers p) \<and> ha_flight (pr_handlers p ! i) \<noteq> None then Some (Transferred i, end_round i r p) else None)"
| "perform (Report now) p = (case fetch_finished_sending_reqs now p of (ids, q) \<Rightarrow> Some (Fetched ids, q))"

fun play :: "worker_action list \<Rightarrow> producer \<Rightarrow> (worker_event list \<times> producer) option" where
  "play [] p = Some ([], p)"
| "play (x # xs) p = (case perform x p of None \<Rightarrow> None
     | Some (e, q) \<Rightarrow> (case play xs q of None \<Rightarrow> None | Some (es, r) \<Rightarrow> Some (e # es, r)))"

lemma perform_step: "perform x p = Some (e, q) \<Longrightarrow> worker_step p e q"
  by (cases x) (auto intro: worker_step.intros split: option.splits prod.splits if_splits)

lemma play_run: "play xs p = Some (es, q) \<Longrightarrow> worker_run p es q"
  by (induction xs p arbitrary: es q rule: play.induct)
     (auto intro: worker_run.intros perform_step split: option.splits prod.splits)

definition message :: "int \<Rightarrow> (string \<times> string \<times> int list list) list \<Rightarrow> worker_action" where
  "message now reqs = Message now (empty_meta\<lparr>cm_reqs_to_send := map (\<lambda>(p, t, bs). (p, PvText t, bs)) reqs\<rparr>)"

definition small_worker :: producer where
  "small_worker = init_producer small_sender False 100"

definition both_ranks :: "worker_action list" where
  "both_ranks = [message 0 [(''p1'', ''t1'', [])], Question (question 0 [(''d1'', ''t1'')]), message 1 [(''p1'', ''t1'', [[3]])],
     WakeUp 0 [''d1''], Question (question 1 [(''d1'', ''t1'')]), EngineReturns 0 (Inr 0), WakeUp 1 [''d1''], Report 200]"

lemma both_ranks_run:
  "case play both_ranks small_worker of None \<Rightarrow> False
   | Some (es, q) \<Rightarrow> list_all accepted es \<and> one_consumer 2 q \<and> 1 < length (pr_handlers q)
       \<and> (case ha_flight (pr_handlers q ! 1) of None \<Rightarrow> False | Some f \<Rightarrow> fl_ready f = [(''d1'', 0)])"
  by code_simp

theorem request_held_while_transferred_witness:
  "case play both_ranks small_worker of None \<Rightarrow> False
   | Some (es, q) \<Rightarrow> dict_get (pr_need_send q) (sm_transfer_id (pr_metas q ! 0)) = Some 0"
proof -
  obtain es q f where play: "play both_ranks small_worker = Some (es, q)" and ok: "list_all accepted es" "one_consumer 2 q"
    "1 < length (pr_handlers q)" and f: "ha_flight (pr_handlers q ! 1) = Some f" "fl_ready f = [(''d1'', 0)]"
    using both_ranks_run by (auto split: option.splits)
  have "dict_get (pr_need_send q) (sm_transfer_id (pr_metas q ! 0)) = Some 0"
    using request_held_while_transferred [OF play_run [OF play [unfolded small_worker_def]] ok(2,1,3) f(1), of "''d1''" 0] f(2) by simp
  then show ?thesis
    by (simp add: play)
qed

section \<open>A transfer id that is used again\<close>

text \<open>
  If a transfer id is used again the property fails.  A handler is busy with the transfer of one request
  while another one it waits for becomes ready and expires; then a second rank asks for the expired
  one, which puts a new object under the same transfer id.  The handler looks the id up, finds it in
  the table and sends the blocks of the old object, which have been reported as free.
\<close>

definition late_rank :: "worker_action list" where
  "late_rank = [Question (question 0 [(''d1'', ''t1''), (''d2'', ''t2'')]), message 0 [(''p1'', ''t1'', [[3]])], WakeUp 0 [''d1''],
     message 1 [(''p2'', ''t2'', [[4]])], Report 200]"

lemma expired_blocks_sent:
  "case play (late_rank @ [Question (question 1 [(''d2'', ''t2'')]), EngineReturns 0 (Inr 0), WakeUp 0 [''d2'']]) small_worker of
     None \<Rightarrow> False
   | Some (es, q) \<Rightarrow> es ! 4 = Fetched [''p2''] \<and> (case ha_flight (pr_handlers q ! 0) of None \<Rightarrow> False
       | Some f \<Rightarrow> map (\<lambda>(d, a). sm_p_req_id (pr_metas q ! a)) (fl_ready f) = [''p2''] \<and> tp_descriptors (fl_params f) = [(1032, 5008, 8)])"
  by code_simp

text \<open>
  If no rank asks again, the handler leaves the expired request out: its final answer has neither
  confirmed nor refused it, so the decode worker goes on waiting for it.
\<close>

lemma expired_request_unanswered:
  "case play (late_rank @ [EngineReturns 0 (Inr 0), WakeUp 0 [''d2'']]) small_worker of None \<Rightarrow> False
   | Some (es, q) \<Rightarrow> map (\<lambda>r. (xr_status r, xr_ok_reqs r, xr_err_reqs r)) (ha_responses (pr_handlers q ! 0))
       = [(CONTINUE, Some [''d1''], None), (FINISH, None, None)]"
  by code_simp

section \<open>Handlers end\<close>

text \<open>
  A handler that waits or transfers has sent only \<open>CONTINUE\<close>; one that has ended sent one other answer,
  the last, unless it was asked for nothing.
\<close>

definition answers_ok :: "handler \<Rightarrow> bool" where
  "answers_ok h \<longleftrightarrow> (if ha_pending h = [] \<and> ha_flight h = None
     then ha_responses h = [] \<and> am_req_blocks (ha_meta h) = []
       \<or> ha_responses h \<noteq> [] \<and> xr_status (last (ha_responses h)) \<noteq> CONTINUE \<and> list_all (\<lambda>r. xr_status r = CONTINUE) (butlast (ha_responses h))
     else list_all (\<lambda>r. xr_status r = CONTINUE) (ha_responses h))"

text \<open>What a step does to one handler.\<close>

definition settles :: "handler \<Rightarrow> handler \<Rightarrow> bool" where
  "settles h h' \<longleftrightarrow> ha_meta h' = ha_meta h \<and> ha_pending h' = ha_pending h \<and> ha_flight h' = None
     \<and> (\<exists>r. ha_responses h' = ha_responses h @ [r] \<and> xr_status r = (if ha_pending h = [] then FINISH else CONTINUE))"

definition fails :: "handler \<Rightarrow> handler \<Rightarrow> bool" where
  "fails h h' \<longleftrightarrow> ha_meta h' = ha_meta h \<and> ha_pending h' = [] \<and> ha_flight h' = None
     \<and> (\<exists>r. ha_responses h' = ha_responses h @ [r] \<and> xr_status r \<noteq> CONTINUE)"

definition takes_off :: "handler \<Rightarrow> handler \<Rightarrow> bool" where
  "takes_off h h' \<longleftrightarrow> (\<exists>f. h' = h\<lparr>ha_flight := Some f\<rparr>)"

definition drops :: "string list \<Rightarrow> handler \<Rightarrow> handler" where
  "drops ds h = h\<lparr>ha_pending := fold dict_pop ds (ha_pending h)\<rparr>"

lemma settle_round_handlers:
  assumes "i < length (pr_handlers p)"
  shows "\<exists>h'. pr_handlers (settle_round i f code p) = (pr_handlers p)[i := h'] \<and> settles (pr_handlers p ! i) h'"
  using assms by (auto simp: settle_round_def settles_def settle_response_def respond_def Let_def)

lemma begin_round_handlers:
  assumes i: "i < length (pr_handlers p)"
  shows "\<exists>h'. pr_handlers (begin_round i ds p) = (pr_handlers p)[i := h'] \<and> (let h = drops ds (pr_handlers p ! i) in
     settles h h' \<or> fails h h' \<or> takes_off h h')"
proof -
  let ?p = "upd_handler i (\<lambda>h. h\<lparr>ha_pending := fold dict_pop ds (ha_pending h)\<rparr>) p"
  obtain q ready where claim: "fold (claim_request (sn_target_ranks (pr_sender p) (am_tp_size (ha_meta (pr_handlers p ! i)))))
      (map (\<lambda>d. (d, the (dict_get (ha_pending (pr_handlers p ! i)) d))) ds) (?p, []) = (q, ready)"
    by fastforce
  have "pr_handlers q = pr_handlers ?p"
    using claims_handlers [OF claim] .
  then have hs: "pr_handlers q = (pr_handlers p)[i := drops ds (pr_handlers p ! i)]"
    by (simp add: drops_def)
  from claim show ?thesis
  proof (cases rule: begin_round_cases)
    case (skip f)
    obtain h' where "pr_handlers (settle_round i f 0 q) = (pr_handlers q)[i := h']" "settles (pr_handlers q ! i) h'"
      using settle_round_handlers [of i q f 0] hs i by auto
    then show ?thesis
      using hs i by (auto simp: skip)
  next
    case (fly f)
    then have "pr_handlers (begin_round i ds p) = (pr_handlers p)[i := drops ds (pr_handlers p ! i)\<lparr>ha_flight := Some f\<rparr>]"
      using hs i by simp
    then show ?thesis
      by (auto simp: takes_off_def Let_def)
  next
    case (fail e)
    then have "pr_handlers (begin_round i ds p) = (pr_handlers p)[i := fail_handler e (drops ds (pr_handlers p ! i))]"
      using hs i by simp
    then show ?thesis
      by (auto simp: fails_def fail_handler_def respond_def error_response_def Let_def)
  qed
qed

lemma pops_shorter:
  fixes pending :: "(string, nat) dict"
  assumes "ds \<noteq> []" and "\<forall>d \<in> set ds. dict_get pending d \<noteq> None"
  shows "length (fold dict_pop ds pending) < length pending"
proof -
  have le: "length (fold dict_pop (es :: string list) xs) \<le> length xs" for es and xs :: "(string \<times> nat) list"
  proof (induction es arbitrary: xs)
    case (Cons e es)
    then show ?case
      using le_trans [OF Cons.IH [of "dict_pop e xs"]] by (simp add: length_delete_le)
  qed simp
  obtain d es where ds: "ds = d # es"
    using assms(1) by (cases ds) auto
  have "d \<in> fst ` set pending"
    using assms(2) by (auto simp: ds dict_get_None_iff)
  then have "length (dict_pop d pending) < length pending"
    by (auto simp: AList.delete_eq intro!: length_filter_less)
  then show ?thesis
    using le [of es "dict_pop d pending"] by (simp add: ds)
qed

text \<open>Every other step leaves the handler alone, or only adds one.\<close>

lemma ensure_handlers [simp]: "pr_handlers (ensure_meta rid t p) = pr_handlers p"
  by (simp add: ensure_meta_def)

definition same_handlers :: "producer \<Rightarrow> producer \<Rightarrow> bool" where
  "same_handlers p q \<longleftrightarrow> pr_handlers q = pr_handlers p"

interpretation hs: state_preorder same_handlers
  by unfold_locales (auto simp: same_handlers_def)

lemma record_handlers: "op_keeps same_handlers (record_send_reqs now meta)"
  unfolding record_send_reqs_def
proof (intro hs.keeps_seq hs.keeps_for_each)
  show "op_keeps same_handlers (record_send now x)" for x
    by (cases x) (auto simp: record_send_def same_handlers_def finish_request_def intro!: keeps_intros hs.keeps_modify)
  show "op_keeps same_handlers (drop_unprocessed t)" for t
    unfolding drop_unprocessed_def by (auto simp: same_handlers_def intro!: keeps_intros hs.keeps_modify)
qed

lemma enlist_handlers: "fold enlist_request reqs (q, pending) = (r, pending') \<Longrightarrow> pr_handlers r = pr_handlers q \<and> (pending' = [] \<longrightarrow> reqs = [] \<and> pending = [])"
proof (induction reqs arbitrary: q pending)
  case (Cons x reqs)
  then show ?case
    by (cases x) (fastforce simp: enlist_request_def Let_def)
qed simp

lemma start_handlers: "\<exists>h. pr_handlers (start_handler meta p) = pr_handlers p @ [h] \<and> answers_ok h"
  using enlist_handlers
  by (fastforce simp: start_handler_def add_handler_def answers_ok_def open_handler_def error_response_def split: sum.splits prod.splits)

lemma step_handlers:
  assumes "worker_step p e q" and i: "i < length (pr_handlers p)"
  shows "i < length (pr_handlers q) \<and> (let h = pr_handlers p ! i; h' = pr_handlers q ! i in
     if e = Round i then \<exists>ds. ds \<noteq> [] \<and> (\<forall>d \<in> set ds. dict_get (ha_pending h) d \<noteq> None)
         \<and> (settles (drops ds h) h' \<or> fails (drops ds h) h' \<or> takes_off (drops ds h) h')
     else if e = TimedOut i then ha_pending h \<noteq> [] \<and> fails h h'
     else if e = Transferred i then ha_flight h \<noteq> None \<and> (settles h h' \<or> fails h h')
     else h' = h)"
  using assms(1)
proof (cases rule: worker_step.cases)
  case (Record now meta r)
  then show ?thesis
    using op_keepsD [OF record_handlers] i by (auto simp: same_handlers_def)
next
  case (Ask meta)
  then show ?thesis
    using start_handlers [of meta p] i by (auto simp: nth_append)
next
  case (Timeout j)
  then show ?thesis
    using i by (auto simp: time_out_def can_wait_def fails_def respond_def Let_def)
next
  case (Wake j ds)
  have j: "j < length (pr_handlers p)" and ds: "ds \<noteq> []" "\<forall>d \<in> set ds. dict_get (ha_pending (pr_handlers p ! j)) d \<noteq> None"
    using Wake(3,4) by (auto simp: can_wait_def wakes_def list_all_iff split: option.splits)
  show ?thesis
    using begin_round_handlers [OF j, of ds] ds i Wake(1,2) by (cases "j = i") (auto simp: Let_def)
next
  case (Transfer j outcome)
  show ?thesis
  proof (cases outcome)
    case (Inl x)
    then show ?thesis
      using Transfer i by (auto simp: end_round_def fails_def fail_handler_def respond_def error_response_def nth_list_update)
  next
    case (Inr code)
    obtain h' where "pr_handlers q = (pr_handlers p)[j := h']" "settles (pr_handlers p ! j) h'"
      using settle_round_handlers [OF Transfer(3)] Transfer(2) Inr by (auto simp: end_round_def)
    then show ?thesis
      using Transfer i by (cases "j = i") auto
  qed
next
  case (Fetch now ids)
  then show ?thesis
    using i by (auto simp: fetch_finished_sending_reqs_def Let_def)
qed

lemma step_pending:
  assumes "worker_step p e q" and i: "i < length (pr_handlers p)"
  shows "length (ha_pending (pr_handlers q ! i)) + (if e = Round i \<or> e = TimedOut i then 1 else 0) \<le> length (ha_pending (pr_handlers p ! i))"
  using step_handlers [OF assms]
proof (cases "e = Round i")
  case True
  then obtain ds where "ds \<noteq> []" "\<forall>d \<in> set ds. dict_get (ha_pending (pr_handlers p ! i)) d \<noteq> None"
    and "settles (drops ds (pr_handlers p ! i)) (pr_handlers q ! i) \<or> fails (drops ds (pr_handlers p ! i)) (pr_handlers q ! i)
      \<or> takes_off (drops ds (pr_handlers p ! i)) (pr_handlers q ! i)"
    using step_handlers [OF assms] by (auto simp: Let_def)
  then show ?thesis
    using pops_shorter [of ds "ha_pending (pr_handlers p ! i)"] by (auto simp: settles_def fails_def takes_off_def drops_def)
next
  case False
  then show ?thesis
    using step_handlers [OF assms]
    by (cases "ha_pending (pr_handlers p ! i)") (auto simp: Let_def settles_def fails_def split: if_splits)
qed

text \<open>
  C19. The loop of a handler ends: over any run, the number of its rounds and timeouts together with
  the requests it still waits for is at most the number it waited for before, whatever else the event
  loop does in between.
\<close>

theorem handler_rounds_bounded:
  assumes "worker_run p es q" and "i < length (pr_handlers p)"
  shows "length (filter (\<lambda>e. e = Round i \<or> e = TimedOut i) es) + length (ha_pending (pr_handlers q ! i))
    \<le> length (ha_pending (pr_handlers p ! i))"
  using assms
proof (induction rule: worker_run.induct)
  case (Step p e q es r)
  then show ?case
    using step_pending [OF Step(1) Step.prems] step_handlers [OF Step(1) Step.prems] by (auto split: if_splits)
qed simp

lemma late_rank_run:
  "case play (take 1 late_rank) small_worker of None \<Rightarrow> False
   | Some (es, p) \<Rightarrow> length (pr_handlers p) = 1 \<and> length (ha_pending (pr_handlers p ! 0)) = 2
       \<and> (case play (drop 1 late_rank @ [EngineReturns 0 (Inr 0), WakeUp 0 [''d2'']]) p of None \<Rightarrow> False
          | Some (es', q) \<Rightarrow> length (filter (\<lambda>e. e = Round 0 \<or> e = TimedOut 0) es') = 2)"
  by code_simp

theorem handler_rounds_bounded_witness:
  "case play (take 1 late_rank) small_worker of None \<Rightarrow> False
   | Some (es, p) \<Rightarrow> (case play (drop 1 late_rank @ [EngineReturns 0 (Inr 0), WakeUp 0 [''d2'']]) p of None \<Rightarrow> False
       | Some (es', q) \<Rightarrow> ha_pending (pr_handlers q ! 0) = [])"
proof -
  obtain es p es' q where p: "play (take 1 late_rank) small_worker = Some (es, p)"
    and q: "play (drop 1 late_rank @ [EngineReturns 0 (Inr 0), WakeUp 0 [''d2'']]) p = Some (es', q)"
    and n: "length (pr_handlers p) = 1" "length (ha_pending (pr_handlers p ! 0)) = 2"
      "length (filter (\<lambda>e. e = Round 0 \<or> e = TimedOut 0) es') = 2"
    using late_rank_run by (auto split: option.splits)
  have "ha_pending (pr_handlers q ! 0) = []"
    using handler_rounds_bounded [OF play_run [OF q], of 0] n by simp
  then show ?thesis
    by (simp only: p q option.case prod.case)
qed

section \<open>The final answer\<close>

lemma answers_move:
  assumes "list_all (\<lambda>r. xr_status r = CONTINUE) (ha_responses h)" and "settles h h' \<or> fails h h' \<or> takes_off h h'"
  shows "answers_ok h'"
  using assms by (auto simp: answers_ok_def settles_def fails_def takes_off_def)

lemma answers_old:
  assumes "worker_step p e q" and i: "i < length (pr_handlers p)" and ok: "answers_ok (pr_handlers p ! i)"
  shows "answers_ok (pr_handlers q ! i)"
proof -
  let ?h = "pr_handlers p ! i"
  note step = step_handlers [OF assms(1) i]
  have busy: "list_all (\<lambda>r. xr_status r = CONTINUE) (ha_responses ?h)" if "ha_pending ?h \<noteq> [] \<or> ha_flight ?h \<noteq> None"
    using ok that by (auto simp: answers_ok_def split: if_splits)
  consider (round) "e = Round i" | (out) "e = TimedOut i" | (landed) "e = Transferred i" | (other) "pr_handlers q ! i = ?h"
    using step by (auto simp: Let_def split: if_splits)
  then show ?thesis
  proof cases
    case round
    then obtain ds where ds: "ds \<noteq> []" "\<forall>d \<in> set ds. dict_get (ha_pending ?h) d \<noteq> None"
      and move: "settles (drops ds ?h) (pr_handlers q ! i) \<or> fails (drops ds ?h) (pr_handlers q ! i) \<or> takes_off (drops ds ?h) (pr_handlers q ! i)"
      using step by (auto simp: Let_def)
    have "ha_pending ?h \<noteq> []"
      using ds by (cases ds) auto
    then show ?thesis
      using answers_move [OF _ move] busy by (simp add: drops_def)
  qed (use step busy answers_move ok in \<open>auto simp: Let_def\<close>)
qed

lemma answers_step:
  assumes "worker_step p e q" and "list_all answers_ok (pr_handlers p)"
  shows "list_all answers_ok (pr_handlers q)"
proof -
  have old: "answers_ok (pr_handlers q ! i)" if "i < length (pr_handlers p)" for i
    using answers_old [OF assms(1) that] assms(2) that by (simp add: list_all_length)
  have "length (pr_handlers q) = Suc (length (pr_handlers p)) \<and> answers_ok (pr_handlers q ! length (pr_handlers p))
      \<or> length (pr_handlers q) = length (pr_handlers p)"
    using assms(1)
  proof (cases rule: worker_step.cases)
    case (Record now meta r)
    then show ?thesis
      using op_keepsD [OF record_handlers] by (fastforce simp: same_handlers_def)
  next
    case (Ask meta)
    then show ?thesis
      using start_handlers [of meta p] by auto
  next
    case (Wake i ds)
    then show ?thesis
      using begin_round_handlers [of i p ds] by (auto simp: can_wait_def)
  next
    case (Transfer i outcome)
    then show ?thesis
      by (auto simp: end_round_def settle_round_def Let_def split: sum.splits)
  qed (auto simp: time_out_def fetch_finished_sending_reqs_def Let_def)
  then show ?thesis
    using old by (auto simp: list_all_length less_Suc_eq)
qed

text \<open>
  C20. Every handler that ever started answers finally exactly once: while it waits or transfers all it
  has sent says that more follows, and when it is over its last answer, and no other, is final, also
  after a refusal, a timeout or an exception of the transfer engine.
\<close>

theorem handlers_answer_finally:
  assumes "worker_run (init_producer sn dummy timeout) es q"
  shows "list_all answers_ok (pr_handlers q)"
proof -
  have "worker_run p es q \<Longrightarrow> list_all answers_ok (pr_handlers p) \<Longrightarrow> list_all answers_ok (pr_handlers q)" for p
    by (induction rule: worker_run.induct) (auto intro: answers_step)
  with assms show ?thesis
    by (simp add: init_producer_def)
qed

theorem handlers_answer_finally_witness:
  "case play both_ranks small_worker of None \<Rightarrow> False | Some (es, q) \<Rightarrow> list_all answers_ok (pr_handlers q)"
proof -
  obtain es q where play: "play both_ranks small_worker = Some (es, q)"
    using both_ranks_run by (auto split: option.splits)
  have "list_all answers_ok (pr_handlers q)"
    by (rule handlers_answer_finally [OF play_run [OF play [unfolded small_worker_def]]])
  then show ?thesis
    by (simp add: play)
qed

end
