(* ===== verification/Mooncake_Consumer.thy ===== *)
theory Mooncake_Consumer
  imports Mooncake_Producer
begin

text \<open>
  The decode worker of the mooncake connector: the pulls it has started, the answers of the prefill
  workers and the report of received requests (\<open>receive_kv\<close>, \<open>receive_kv_from_single_worker\<close>,
  \<open>process_pulling_result\<close>, \<open>_fail_pull_metas\<close> and \<open>fetch_finished_recving_reqs\<close> of
  \<open>MooncakeConnectorWorker\<close>), and when its requests are known to be ready.

  A \<open>PullReqMeta\<close> is shared by the tasks that ask the prefill workers; the state has a list of such
  objects and \<open>pull_metas\<close> maps request ids to positions in it.
\<close>

section \<open>State and operations\<close>

record pull_state =
  pu_d_req_id :: string
  pu_pull_tasks_count :: int

record receiver =
  rv_pulls :: "pull_state list"
  rv_finished :: "string list"
  rv_load_error :: "string option"

definition new_pull :: "string \<Rightarrow> receiver \<Rightarrow> receiver" where
  "new_pull d r = r\<lparr>rv_pulls := rv_pulls r @ [\<lparr>pu_d_req_id = d, pu_pull_tasks_count = 0\<rparr>]\<rparr>"

text \<open>\<open>receive_kv\<close> once the workers to ask are known; it starts one task for each of them.\<close>

definition start_pulls :: "string list \<Rightarrow> (string, nat) dict \<Rightarrow> receiver \<Rightarrow> receiver" where
  "start_pulls worker_addrs pulls r =
     r\<lparr>rv_pulls := fold (\<lambda>(_, a) ps. ps[a := (ps ! a)\<lparr>pu_pull_tasks_count := int (length worker_addrs)\<rparr>]) pulls (rv_pulls r)\<rparr>"

definition confirm_pull :: "(string, nat) dict \<Rightarrow> string \<Rightarrow> (receiver, unit) op" where
  "confirm_pull pulls req_id =
     (case dict_get pulls req_id of
        None \<Rightarrow> throw (Exn KeyError (py_repr req_id))
      | Some a \<Rightarrow> modify (\<lambda>r.
          let pull = (rv_pulls r ! a)\<lparr>pu_pull_tasks_count := pu_pull_tasks_count (rv_pulls r ! a) - 1\<rparr>;
              r' = r\<lparr>rv_pulls := (rv_pulls r)[a := pull]\<rparr>
          in if pu_pull_tasks_count pull = 0
             then r'\<lparr>rv_finished := List.insert (pu_d_req_id pull) (rv_finished r')\<rparr> else r'))"

definition list_or_empty :: "'a list option \<Rightarrow> 'a list" where
  "list_or_empty xs = (case xs of None \<Rightarrow> [] | Some ys \<Rightarrow> ys)"

text \<open>\<open>dict.fromkeys\<close>: every element once, at its first place.\<close>

definition from_keys :: "'a list \<Rightarrow> 'a list" where
  "from_keys xs = rev (remdups (rev xs))"

definition process_pulling_result :: "xfer_response \<Rightarrow> (string, nat) dict \<Rightarrow> (receiver, unit) op" where
  "process_pulling_result response pulls =
     (let ok = list_or_empty (xr_ok_reqs response);
          err = list_or_empty (xr_err_reqs response)
      in if err \<noteq> []
         then modify (\<lambda>r. r\<lparr>rv_load_error := Some (''Mooncake KV receive failed for '' @ py_repr_list err @ '': ''
                @ (case xr_err_msg response of None \<Rightarrow> ''None'' | Some m \<Rightarrow> m))\<rparr>)
         else for_each (from_keys (ok @ err)) (confirm_pull pulls))"

definition fail_pull_metas :: "(string, nat) dict \<Rightarrow> string \<Rightarrow> (receiver, unit) op" where
  "fail_pull_metas pulls message =
     process_pulling_result \<lparr>xr_status = ERROR, xr_ok_reqs = None, xr_err_reqs = Some (dict_keys pulls), xr_err_msg = Some message\<rparr> pulls"

text \<open>
  One message from a prefill worker: whether the task goes on reading.  An exception, also one of the
  socket, fails all requests of the task; only when the ZMQ context was terminated, at shutdown, the
  task ends without a trace.
\<close>

definition context_terminated :: "exn \<Rightarrow> bool" where
  "context_terminated e \<longleftrightarrow> exn_kind e = OtherError ''zmq.ContextTerminated''"

definition handle_response :: "(string, nat) dict \<Rightarrow> xfer_response result \<Rightarrow> (receiver, bool) op" where
  "handle_response pulls received =
     catch_op
       (bind_op (lift_result received) (\<lambda>response.
          if xr_status response = ERROR
          then seq_op (process_pulling_result
                 (if list_or_empty (xr_err_reqs response) = []
                  then response\<lparr>xr_ok_reqs := None, xr_err_reqs := Some (dict_keys pulls)\<rparr> else response) pulls) (ret False)
          else seq_op (process_pulling_result response pulls) (ret (xr_status response \<noteq> FINISH))))
       (\<lambda>e. if context_terminated e then ret False else seq_op (fail_pull_metas pulls (exn_text e)) (ret False))"

definition fetch_finished_recving_reqs :: "(receiver, string list) op" where
  "fetch_finished_recving_reqs =
     bind_op (gets id) (\<lambda>r.
       case rv_load_error r of
         Some message \<Rightarrow> throw (Exn RuntimeError message)
       | None \<Rightarrow> seq_op (modify (\<lambda>r. r\<lparr>rv_finished := []\<rparr>)) (ret (rv_finished r)))"

text \<open>The messages of all tasks of a pull, in the order in which the event loop handles them.\<close>

fun handle_all :: "(string, nat) dict \<Rightarrow> xfer_response result list \<Rightarrow> (receiver, unit) op" where
  "handle_all pulls [] = ret ()"
| "handle_all pulls (m # ms) = seq_op (handle_response pulls m) (handle_all pulls ms)"

section \<open>Ready when every worker has confirmed\<close>

text \<open>A message without error, that names only requests of the pull.\<close>

definition clean :: "(string, nat) dict \<Rightarrow> xfer_response result \<Rightarrow> bool" where
  "clean pulls received = (case received of Inl _ \<Rightarrow> False | Inr response \<Rightarrow> xr_status response \<noteq> ERROR
     \<and> list_or_empty (xr_err_reqs response) = [] \<and> list_all (\<lambda>d. dict_get pulls d \<noteq> None) (list_or_empty (xr_ok_reqs response)))"

text \<open>A message whose handling records no error: a clean one, or none because the context was terminated.\<close>

definition harmless :: "(string, nat) dict \<Rightarrow> xfer_response result \<Rightarrow> bool" where
  "harmless pulls received \<longleftrightarrow> clean pulls received \<or> (\<exists>e. received = Inl e \<and> context_terminated e)"

definition confirms :: "string \<Rightarrow> xfer_response result \<Rightarrow> bool" where
  "confirms d received = (case received of Inl _ \<Rightarrow> False | Inr response \<Rightarrow> d \<in> set (list_or_empty (xr_ok_reqs response)))"

definition pulls_ok :: "(string, nat) dict \<Rightarrow> receiver \<Rightarrow> bool" where
  "pulls_ok pulls r \<longleftrightarrow> pulls \<noteq> [] \<and> distinct (dict_keys pulls)
     \<and> list_all (\<lambda>(d, a). a < length (rv_pulls r) \<and> pu_d_req_id (rv_pulls r ! a) = d) pulls"

definition count_of :: "(string, nat) dict \<Rightarrow> string \<Rightarrow> receiver \<Rightarrow> int" where
  "count_of pulls d r = pu_pull_tasks_count (rv_pulls r ! the (dict_get pulls d))"

lemma pulls_okD:
  assumes "pulls_ok pulls r" and "dict_get pulls d = Some a"
  shows "a < length (rv_pulls r)" and "pu_d_req_id (rv_pulls r ! a) = d" and "dict_get pulls d' = Some a \<Longrightarrow> d' = d"
proof -
  have named: "a < length (rv_pulls r) \<and> pu_d_req_id (rv_pulls r ! a) = e" if "dict_get pulls e = Some a" for e
    using assms(1) map_of_SomeD [OF that] by (auto simp: pulls_ok_def list_all_iff)
  show "a < length (rv_pulls r)" "pu_d_req_id (rv_pulls r ! a) = d" "dict_get pulls d' = Some a \<Longrightarrow> d' = d"
    using named [OF assms(2)] named [of d'] by simp_all
qed

lemma confirm_pull_effect:
  assumes ok: "pulls_ok pulls r" and e: "dict_get pulls e = Some b" and d: "dict_get pulls d = Some a"
  shows "\<exists>t. confirm_pull pulls e r = Some (Inr (), t) \<and> pulls_ok pulls t \<and> rv_load_error t = rv_load_error r
    \<and> count_of pulls d t = count_of pulls d r - of_bool (e = d)
    \<and> (d \<in> set (rv_finished t) \<longleftrightarrow> d \<in> set (rv_finished r) \<or> e = d \<and> count_of pulls d r = 1)"
proof -
  let ?pull = "(rv_pulls r ! b)\<lparr>pu_pull_tasks_count := pu_pull_tasks_count (rv_pulls r ! b) - 1\<rparr>"
  let ?r = "r\<lparr>rv_pulls := (rv_pulls r)[b := ?pull]\<rparr>"
  let ?t = "if pu_pull_tasks_count ?pull = 0 then ?r\<lparr>rv_finished := List.insert e (rv_finished r)\<rparr> else ?r"
  note b = pulls_okD [OF ok e] and a = pulls_okD [OF ok d]
  have run: "confirm_pull pulls e r = Some (Inr (), ?t)"
    using b(2) by (simp add: confirm_pull_def e modify_def Let_def)
  have kept: "pu_d_req_id ((rv_pulls r)[b := ?pull] ! c) = pu_d_req_id (rv_pulls r ! c)" for c
    using b(1) by (cases "c = b") simp_all
  have "pulls_ok pulls ?t"
    using ok kept by (auto simp: pulls_ok_def list_all_iff)
  moreover have same: "b = a \<longleftrightarrow> e = d"
    using a(3) [of e] d e by auto
  ultimately show ?thesis
    using run a(1) same by (auto simp: count_of_def d)
qed

lemma confirm_all_effect:
  assumes "pulls_ok pulls r" and d: "dict_get pulls d = Some a" and "\<forall>e \<in> set es. dict_get pulls e \<noteq> None" and "distinct es"
  shows "\<exists>t. for_each es (confirm_pull pulls) r = Some (Inr (), t) \<and> pulls_ok pulls t \<and> rv_load_error t = rv_load_error r
    \<and> count_of pulls d t = count_of pulls d r - of_bool (d \<in> set es)
    \<and> (d \<in> set (rv_finished t) \<longleftrightarrow> d \<in> set (rv_finished r) \<or> d \<in> set es \<and> count_of pulls d r = 1)"
  using assms(1,3,4)
proof (induction es arbitrary: r)
  case (Cons e es)
  obtain b where b: "dict_get pulls e = Some b"
    using Cons.prems(2) by auto
  obtain s where step: "confirm_pull pulls e r = Some (Inr (), s)" "pulls_ok pulls s" "rv_load_error s = rv_load_error r"
    "count_of pulls d s = count_of pulls d r - of_bool (e = d)"
    "d \<in> set (rv_finished s) \<longleftrightarrow> d \<in> set (rv_finished r) \<or> e = d \<and> count_of pulls d r = 1"
    using confirm_pull_effect [OF Cons.prems(1) b d] by blast
  obtain t where "for_each es (confirm_pull pulls) s = Some (Inr (), t)" "pulls_ok pulls t" "rv_load_error t = rv_load_error s"
    "count_of pulls d t = count_of pulls d s - of_bool (d \<in> set es)"
    "d \<in> set (rv_finished t) \<longleftrightarrow> d \<in> set (rv_finished s) \<or> d \<in> set es \<and> count_of pulls d s = 1"
    using Cons.IH [OF step(2)] Cons.prems by auto
  then show ?case
    using step Cons.prems(3) by (auto simp: op_defs)
qed (simp add: op_simps)

lemma from_keys_props [simp]: "set (from_keys xs) = set xs" "distinct (from_keys xs)"
  by (simp_all add: from_keys_def)

lemma handle_clean:
  assumes "pulls_ok pulls r" and d: "dict_get pulls d = Some a" and "clean pulls m"
  shows "\<exists>go t. handle_response pulls m r = Some (Inr go, t) \<and> pulls_ok pulls t \<and> rv_load_error t = rv_load_error r
    \<and> count_of pulls d t = count_of pulls d r - of_bool (confirms d m)
    \<and> (d \<in> set (rv_finished t) \<longleftrightarrow> d \<in> set (rv_finished r) \<or> confirms d m \<and> count_of pulls d r = 1)"
proof -
  obtain resp where m: "m = Inr resp" and s: "xr_status resp \<noteq> ERROR" "list_or_empty (xr_err_reqs resp) = []"
    and known: "\<forall>e \<in> set (from_keys (list_or_empty (xr_ok_reqs resp))). dict_get pulls e \<noteq> None"
    using assms(3) by (auto simp: clean_def list_all_iff split: sum.splits)
  from confirm_all_effect [OF assms(1) d known] show ?thesis
    using s by (auto simp: handle_response_def process_pulling_result_def m confirms_def op_defs op_simps)
qed

lemma handle_harmless:
  assumes "pulls_ok pulls r" and d: "dict_get pulls d = Some a" and "harmless pulls m"
  shows "\<exists>go t. handle_response pulls m r = Some (Inr go, t) \<and> pulls_ok pulls t \<and> rv_load_error t = rv_load_error r
    \<and> count_of pulls d t = count_of pulls d r - of_bool (confirms d m)
    \<and> (d \<in> set (rv_finished t) \<longleftrightarrow> d \<in> set (rv_finished r) \<or> confirms d m \<and> count_of pulls d r = 1)"
proof (cases m)
  case (Inl e)
  then show ?thesis
    using assms by (intro exI [of _ False] exI [of _ r]) (simp add: harmless_def clean_def handle_response_def confirms_def op_defs op_simps)
next
  case (Inr resp)
  then show ?thesis
    using handle_clean [OF assms(1) d, of m] assms(3) by (simp add: harmless_def)
qed

lemma confirm_all_known:
  "\<exists>v t. for_each es (confirm_pull pulls) r = Some (v, t) \<and> rv_load_error t = rv_load_error r
    \<and> ((\<forall>e \<in> set es. dict_get pulls e \<noteq> None) \<longleftrightarrow> v = Inr ()) \<and> (\<forall>e. v = Inl e \<longrightarrow> \<not> context_terminated e)"
proof (induction es arbitrary: r)
  case (Cons e es)
  show ?case
  proof (cases "dict_get pulls e")
    case (Some a)
    obtain s where step: "confirm_pull pulls e r = Some (Inr (), s)" "rv_load_error s = rv_load_error r"
      by (cases "confirm_pull pulls e r") (auto simp: confirm_pull_def Some modify_def Let_def)
    then show ?thesis
      using Cons.IH [of s] Some by (auto simp: op_defs)
  qed (simp add: confirm_pull_def context_terminated_def op_defs op_simps)
qed (simp add: op_simps)

lemma fail_latches: "pulls \<noteq> [] \<Longrightarrow> \<exists>t. fail_pull_metas pulls message r = Some (Inr (), t) \<and> rv_load_error t \<noteq> None"
  by (simp add: fail_pull_metas_def process_pulling_result_def list_or_empty_def op_simps)

lemma handle_latches:
  assumes "pulls \<noteq> []" and bad: "\<not> harmless pulls m \<or> rv_load_error r \<noteq> None"
  shows "\<exists>go t. handle_response pulls m r = Some (Inr go, t) \<and> rv_load_error t \<noteq> None"
proof (cases m)
  case (Inl e)
  then show ?thesis
    using fail_latches [OF assms(1), of "exn_text e" r] bad
    by (cases "context_terminated e") (auto simp: harmless_def handle_response_def op_defs op_simps)
next
  case (Inr resp)
  let ?ok = "from_keys (list_or_empty (xr_ok_reqs resp))"
  obtain v t where run: "for_each ?ok (confirm_pull pulls) r = Some (v, t)" "rv_load_error t = rv_load_error r"
    and v: "(\<forall>e \<in> set ?ok. dict_get pulls e \<noteq> None) \<longleftrightarrow> v = Inr ()" "\<And>e. v = Inl e \<Longrightarrow> \<not> context_terminated e"
    using confirm_all_known [of ?ok pulls r] by blast
  show ?thesis
  proof (cases "xr_status resp = ERROR \<or> list_or_empty (xr_err_reqs resp) \<noteq> []")
    case True
    then show ?thesis
      using assms(1) by (auto simp: Inr handle_response_def process_pulling_result_def op_defs op_simps list_or_empty_def [of "Some _"])
  next
    case False
    show ?thesis
    proof (cases v)
      case v_Inl: (Inl e)
      then show ?thesis
        using False run v(2) [OF v_Inl] fail_latches [OF assms(1), of "exn_text e" t]
        by (auto simp: Inr handle_response_def process_pulling_result_def op_defs op_simps)
    next
      case v_Inr: (Inr u)
      then have "rv_load_error r \<noteq> None"
        using bad v(1) False by (auto simp: harmless_def clean_def Inr list_all_iff)
      then show ?thesis
        using False run v_Inr by (auto simp: Inr handle_response_def process_pulling_result_def op_defs op_simps)
    qed
  qed
qed

lemma all_harmless:
  assumes "pulls_ok pulls r" and d: "dict_get pulls d = Some a" and "list_all (harmless pulls) ms"
  shows "\<exists>t. handle_all pulls ms r = Some (Inr (), t) \<and> rv_load_error t = rv_load_error r
    \<and> (d \<in> set (rv_finished t) \<longleftrightarrow> d \<in> set (rv_finished r)
        \<or> 0 < count_of pulls d r \<and> count_of pulls d r \<le> int (length (filter (confirms d) ms)))"
  using assms(1,3)
proof (induction ms arbitrary: r)
  case (Cons m ms)
  obtain go s where step: "handle_response pulls m r = Some (Inr go, s)" "pulls_ok pulls s" "rv_load_error s = rv_load_error r"
    "count_of pulls d s = count_of pulls d r - of_bool (confirms d m)"
    "d \<in> set (rv_finished s) \<longleftrightarrow> d \<in> set (rv_finished r) \<or> confirms d m \<and> count_of pulls d r = 1"
    using handle_harmless [OF Cons.prems(1) d, of m] Cons.prems(2) by auto
  obtain t where "handle_all pulls ms s = Some (Inr (), t)" "rv_load_error t = rv_load_error s"
    "d \<in> set (rv_finished t) \<longleftrightarrow> d \<in> set (rv_finished s)
        \<or> 0 < count_of pulls d s \<and> count_of pulls d s \<le> int (length (filter (confirms d) ms))"
    using Cons.IH [OF step(2)] Cons.prems(2) by auto
  then show ?case
    using step by (auto simp: op_defs)
qed (auto simp: op_simps)

lemma handle_total:
  assumes "harmless pulls m"
  shows "\<exists>go t. handle_response pulls m r = Some (Inr go, t)"
proof (cases m)
  case (Inl e)
  then show ?thesis
    using assms by (intro exI [of _ False] exI [of _ r]) (simp add: harmless_def clean_def handle_response_def op_defs op_simps)
next
  case (Inr resp)
  then have "xr_status resp \<noteq> ERROR" "list_or_empty (xr_err_reqs resp) = []"
    "\<forall>e \<in> set (from_keys (list_or_empty (xr_ok_reqs resp))). dict_get pulls e \<noteq> None"
    using assms by (auto simp: harmless_def clean_def list_all_iff)
  then show ?thesis
    using Inr confirm_all_known [of "from_keys (list_or_empty (xr_ok_reqs resp))" pulls r]
    by (auto simp: handle_response_def process_pulling_result_def op_defs op_simps)
qed

lemma some_harmful:
  assumes "pulls \<noteq> []" and "\<not> list_all (harmless pulls) ms \<or> rv_load_error r \<noteq> None"
  shows "\<exists>t. handle_all pulls ms r = Some (Inr (), t) \<and> rv_load_error t \<noteq> None"
  using assms(2)
proof (induction ms arbitrary: r)
  case (Cons m ms)
  obtain go s where step: "handle_response pulls m r = Some (Inr go, s)"
    and s: "\<not> list_all (harmless pulls) ms \<or> rv_load_error s \<noteq> None"
  proof (cases "harmless pulls m \<and> rv_load_error r = None")
    case True
    then show thesis
      using handle_total [of pulls m r] Cons.prems that by auto
  next
    case False
    then show thesis
      using handle_latches [OF assms(1), of m r] that by auto
  qed
  then show ?case
    using Cons.IH [OF s] by (auto simp: op_defs)
qed (simp add: op_simps)

lemma set_counts:
  fixes pulls :: "(string, nat) dict" and n :: int
  defines "step \<equiv> \<lambda>(_, a) ps. ps[a := (ps ! a)\<lparr>pu_pull_tasks_count := n\<rparr>]"
  shows "length (fold step pulls ps) = length ps"
    and "b < length ps \<Longrightarrow> fold step pulls ps ! b = (if b \<in> snd ` set pulls then (ps ! b)\<lparr>pu_pull_tasks_count := n\<rparr> else ps ! b)"
proof (induction pulls arbitrary: ps)
  case (Cons x pulls)
  obtain e c where x: "x = (e, c)"
    by (cases x)
  {
    case 1
    show ?case
      using Cons.IH(1) by (simp add: x step_def)
  next
    case 2
    then show ?case
      using Cons.IH(2) [of "ps[c := (ps ! c)\<lparr>pu_pull_tasks_count := n\<rparr>]"] by (cases "b = c") (simp_all add: x step_def)
  }
qed simp_all

lemma start_counts:
  assumes ok: "pulls_ok pulls r" and d: "dict_get pulls d = Some a"
  shows "pulls_ok pulls (start_pulls addrs pulls r)" and "count_of pulls d (start_pulls addrs pulls r) = int (length addrs)"
proof -
  have "a \<in> snd ` set pulls"
    using map_of_SomeD [OF d] by force
  then show "count_of pulls d (start_pulls addrs pulls r) = int (length addrs)"
    using pulls_okD(1) [OF ok d] by (simp add: count_of_def d start_pulls_def set_counts)
  show "pulls_ok pulls (start_pulls addrs pulls r)"
    using ok by (auto simp: pulls_ok_def start_pulls_def list_all_iff set_counts)
qed

text \<open>
  C21. After any sequence of messages of the prefill workers, a decode worker reports a request as
  received if and only if at least as many messages confirmed it as workers were asked, and reports
  nothing, now or later, but raises, once a message has an error, names an unknown request or could
  not be received.  A message that is missing because the ZMQ context was terminated counts as no
  confirmation and raises nothing.
\<close>

theorem received_iff_all_confirmed:
  assumes ok: "pulls_ok pulls r" and d: "dict_get pulls d = Some a" and new: "d \<notin> set (rv_finished r)" "rv_load_error r = None"
  shows "\<exists>t. handle_all pulls ms (start_pulls addrs pulls r) = Some (Inr (), t) \<and>
    (case fetch_finished_recving_reqs t of
       Some (Inr ids, _) \<Rightarrow> list_all (harmless pulls) ms \<and> (d \<in> set ids \<longleftrightarrow> addrs \<noteq> [] \<and> length addrs \<le> length (filter (confirms d) ms))
     | Some (Inl e, u) \<Rightarrow> \<not> list_all (harmless pulls) ms \<and> u = t \<and> exn_kind e = RuntimeError
     | None \<Rightarrow> False)"
proof -
  let ?r = "start_pulls addrs pulls r"
  note start = start_counts [OF ok d, of addrs]
  have r: "rv_finished ?r = rv_finished r" "rv_load_error ?r = None"
    using new by (simp_all add: start_pulls_def)
  show ?thesis
  proof (cases "list_all (harmless pulls) ms")
    case True
    obtain t where "handle_all pulls ms ?r = Some (Inr (), t)" "rv_load_error t = None"
      "d \<in> set (rv_finished t) \<longleftrightarrow> 0 < int (length addrs) \<and> int (length addrs) \<le> int (length (filter (confirms d) ms))"
      using all_harmless [OF start(1) d True] new r start(2) by auto
    then show ?thesis
      using True by (auto simp: fetch_finished_recving_reqs_def op_defs op_simps)
  next
    case False
    have "pulls \<noteq> []"
      using ok by (simp add: pulls_ok_def)
    then show ?thesis
      using some_harmful [of pulls ms ?r] False by (auto simp: fetch_finished_recving_reqs_def op_defs op_simps)
  qed
qed

definition ok_answer :: "string list \<Rightarrow> xfer_response result" where
  "ok_answer ds = Inr \<lparr>xr_status = FINISH, xr_ok_reqs = Some ds, xr_err_reqs = None, xr_err_msg = None\<rparr>"

theorem received_iff_all_confirmed_witness:
  "\<exists>t. handle_all [(''d'', 0)] [ok_answer [''d''], ok_answer [''d'']] (start_pulls [''w0'', ''w1''] [(''d'', 0)]
         (new_pull ''d'' \<lparr>rv_pulls = [], rv_finished = [], rv_load_error = None\<rparr>)) = Some (Inr (), t) \<and>
    (case fetch_finished_recving_reqs t of
       Some (Inr ids, _) \<Rightarrow> list_all (harmless [(''d'', 0)]) [ok_answer [''d''], ok_answer [''d'']]
         \<and> (''d'' \<in> set ids \<longleftrightarrow> [''w0'', ''w1''] \<noteq> []
              \<and> length [''w0'', ''w1''] \<le> length (filter (confirms ''d'') [ok_answer [''d''], ok_answer [''d'']]))
     | Some (Inl e, u) \<Rightarrow> \<not> list_all (harmless [(''d'', 0)]) [ok_answer [''d''], ok_answer [''d'']] \<and> u = t \<and> exn_kind e = RuntimeError
     | None \<Rightarrow> False)"
  by (rule received_iff_all_confirmed [of _ _ _ 0]) (simp_all add: pulls_ok_def new_pull_def)

end
