(* ===== verification/Mooncake_Registration.thy ===== *)
theory Mooncake_Registration
  imports Mooncake_Transfer Layer_Split
begin

text \<open>
  The start of a mooncake worker: its block size, the layers it holds, and the registration of its
  caches with the transfer engine (constructor parts, \<open>_sync_block_size_with_kernel\<close>,
  \<open>_validate_phase1_kv_cache_config\<close>, \<open>_dsa_owns_layer\<close> and \<open>register_kv_caches\<close> of
  \<open>MooncakeConnectorWorker\<close>).

  A cache tensor is what the code asks of it: its shape, strides, address and storage.  The layer index
  in a name comes from vLLM's \<open>extract_layer_index\<close>, an argument.
\<close>

section \<open>Configuration\<close>

text \<open>The KV-cache specifications that are told apart; the sizes are vLLM's.\<close>

datatype page_spec =
    KpoolTail int
  | AttentionPages (is_mla: bool) (page_size_bytes: int) (unpadded_page_size_bytes: int)
  | OtherSpec string

record cache_group =
  cg_layer_names :: "string list"
  cg_spec :: page_spec
  cg_specs_by_layer :: "(string, page_spec) dict"

definition page_spec_of :: "cache_group \<Rightarrow> string \<Rightarrow> page_spec" where
  "page_spec_of g n = (case dict_get (cg_specs_by_layer g) n of None \<Rightarrow> cg_spec g | Some s \<Rightarrow> s)"

definition layer_specs :: "cache_group list \<Rightarrow> (string, page_spec) dict" where
  "layer_specs groups = fold (\<lambda>g. fold (\<lambda>n. dict_set n (page_spec_of g n)) (cg_layer_names g)) groups []"

definition layer_group_indices :: "cache_group list \<Rightarrow> (string, int) dict" where
  "layer_group_indices groups = fold (\<lambda>(i, g). fold (\<lambda>n. dict_set n (int i)) (cg_layer_names g)) (enumerate 0 groups) []"

definition sync_block_size_with_kernel :: "int \<Rightarrow> int \<Rightarrow> (int \<times> int) result" where
  "sync_block_size_with_kernel logical physical =
     (if logical \<le> 0 \<or> physical \<le> 0
      then raise ValueError (''Mooncake logical and physical KV block sizes must be positive: logical='' @ str_int logical
             @ '', physical='' @ str_int physical @ ''.'')
      else if logical mod physical \<noteq> 0
      then raise ValueError (''Mooncake logical KV block size must be an integer multiple of the physical kernel block size: logical=''
             @ str_int logical @ '', physical='' @ str_int physical @ ''.'')
      else Inr (logical div physical, physical))"

definition validate_phase1_kv_cache_config :: "cache_group list \<Rightarrow> bool \<Rightarrow> int \<Rightarrow> unit result" where
  "validate_phase1_kv_cache_config groups has_mamba ratio =
     (if ratio \<le> 0
      then raise ValueError ''HCU Mooncake requires a positive number of physical kernel blocks per logical KV block.''
      else if has_mamba
      then raise (OtherError ''NotImplementedError'') ''HCU Mooncake phase-1 does not support Mamba/GDN hybrid cache groups.''
      else if groups = [] then raise ValueError ''HCU Mooncake requires at least one KV cache group.''
      else Inr ())"

record worker_config =
  wc_groups :: "cache_group list"
  wc_ratio :: int
  wc_pp_rank :: int
  wc_pp_size :: int
  wc_pp_layer_range :: "(int \<times> int) option"
  wc_speculative :: bool
  wc_pcp_rank :: int
  wc_pcp_size :: int
  wc_layer_split :: bool
  wc_total_layers :: int
  wc_owned_range :: "int \<times> int"

text \<open>
  The constructor: \<open>requested\<close> is \<open>is_dsa_cache_layer_split_requested\<close>, \<open>stage_range\<close> the layer range of
  the pipeline stage.
\<close>

definition init_worker ::
    "cache_group list \<Rightarrow> bool \<Rightarrow> int \<Rightarrow> int \<Rightarrow> (int \<times> int) result \<Rightarrow> int \<Rightarrow> int \<Rightarrow> bool \<Rightarrow> int \<Rightarrow> int \<Rightarrow> bool \<Rightarrow> bool \<Rightarrow> int
       \<Rightarrow> worker_config result" where
  "init_worker groups has_mamba logical physical stage_range pp_rank pp_size speculative pcp_rank pcp_size is_producer requested num_hidden =
     and_then (sync_block_size_with_kernel logical physical) (\<lambda>(ratio, _).
     and_then (validate_phase1_kv_cache_config groups has_mamba ratio) (\<lambda>_.
     and_then (if pp_size > 1 then and_then stage_range (\<lambda>r. Inr (Some r)) else Inr None) (\<lambda>pp_range.
     let split = pcp_size > 1 \<and> is_producer \<and> requested
     in and_then (if split then get_layer_shard_range pcp_rank pcp_size num_hidden else Inr (0, 0)) (\<lambda>owned.
          Inr \<lparr>wc_groups = groups, wc_ratio = ratio, wc_pp_rank = pp_rank, wc_pp_size = pp_size, wc_pp_layer_range = pp_range,
               wc_speculative = speculative, wc_pcp_rank = pcp_rank, wc_pcp_size = pcp_size, wc_layer_split = split,
               wc_total_layers = (if split then num_hidden else 0), wc_owned_range = owned\<rparr>))))"

definition dsa_owns_layer :: "worker_config \<Rightarrow> int \<Rightarrow> bool" where
  "dsa_owns_layer wc layer_index =
     (if layer_index \<ge> wc_total_layers wc then wc_pcp_rank wc = wc_pcp_size wc - 1
      else fst (wc_owned_range wc) \<le> layer_index \<and> layer_index < snd (wc_owned_range wc))"

section \<open>Registering the caches\<close>

record cache_tensor =
  ct_ndim :: nat
  ct_num_blocks :: int
  ct_block_stride :: int
  ct_element_size :: int
  ct_page_contiguous :: bool
  ct_page_numel :: int
  ct_data_ptr :: int
  ct_storage_ptr :: int
  ct_storage_len :: int

text \<open>
  \<open>cr_meta\<close> is what the worker publishes; the base addresses are published after the loop.  The set of
  storages seen is the set of addresses in \<open>cr_ptrs\<close>.
\<close>

record cache_reg =
  cr_meta :: wire_meta
  cr_bases :: "int list"
  cr_ptrs :: "int list"
  cr_lens :: "int list"

definition empty_reg :: cache_reg where
  "empty_reg = \<lparr>cr_meta = \<lparr>wm_base_addrs = [], wm_block_lens = [], wm_kv_block_lens = [], wm_layer_names = [], wm_layer_indices = [],
       wm_group_indices = [], wm_num_blocks = []\<rparr>, cr_bases = [], cr_ptrs = [], cr_lens = []\<rparr>"

definition in_stage :: "worker_config \<Rightarrow> string \<Rightarrow> int \<Rightarrow> unit result" where
  "in_stage wc n i =
     (case wc_pp_layer_range wc of
        None \<Rightarrow> Inr ()
      | Some (start, stop) \<Rightarrow>
          let local_draft = wc_pp_rank wc = wc_pp_size wc - 1 \<and> wc_speculative wc \<and> i \<ge> stop
          in if \<not> (start \<le> i \<and> i < stop) \<and> \<not> local_draft
             then raise ValueError (''Mooncake layer '' @ n @ '' is outside PP stage ['' @ str_int start @ '', '' @ str_int stop @ '').'')
             else Inr ())"

definition check_pages :: "string \<Rightarrow> cache_tensor \<Rightarrow> unit result" where
  "check_pages n c =
     (if ct_ndim c \<noteq> 4 then raise ValueError (''HCU Mooncake on vLLM 0.28 requires a [B, H, N, C] KV page tensor for '' @ n @ ''.'')
      else if ct_num_blocks c \<le> 0 then raise ValueError (''KV cache '' @ n @ '' must contain at least one block.'')
      else if \<not> ct_page_contiguous c
      then raise ValueError (''HCU Mooncake requires canonical contiguous [H, N, C] page contents; layer='' @ n
             @ ''. Use KV cache layout LBHNC.'')
      else Inr ())"

definition payload_len :: "int \<Rightarrow> page_spec \<Rightarrow> string \<Rightarrow> cache_tensor \<Rightarrow> int \<Rightarrow> int result" where
  "payload_len ratio spec n c block_len =
     (case spec of
        KpoolTail unpadded \<Rightarrow> Inr (unpadded div 2)
      | AttentionPages mla page unpadded \<Rightarrow>
          if page mod ratio \<noteq> 0
          then raise ValueError (''Mooncake KV page size must divide evenly into physical kernel blocks for '' @ n @ ''.'')
          else if page div ratio > block_len
          then raise ValueError (''Mooncake KV page exceeds its physical block stride: '' @ n @ ''.'')
          else if mla then Inr (page div ratio)
          else if unpadded mod ratio \<noteq> 0 then raise ValueError ''Mooncake KV content must divide into kernel blocks.''
          else if unpadded div ratio \<noteq> ct_page_numel c * ct_element_size c
          then raise ValueError ''Mooncake KV page shape does not match its spec.''
          else Inr (unpadded div ratio)
      | OtherSpec name \<Rightarrow> raise (OtherError ''NotImplementedError'')
          (''HCU Mooncake supports attention KV pages only; layer='' @ n @ '', spec='' @ name @ ''.''))"

definition checked_payload :: "int \<Rightarrow> page_spec \<Rightarrow> string \<Rightarrow> cache_tensor \<Rightarrow> int \<Rightarrow> int result" where
  "checked_payload ratio spec n c block_len =
     and_then (payload_len ratio spec n c block_len) (\<lambda>len.
       if len \<le> 0 \<or> len > block_len
       then raise ValueError (''Mooncake KV payload exceeds its physical block stride: layer='' @ n @ '', stride='' @ str_int block_len
              @ '', payload_span='' @ str_int len @ ''.'')
       else Inr len)"

definition publish_region :: "string \<Rightarrow> int \<Rightarrow> int \<Rightarrow> cache_tensor \<Rightarrow> int \<Rightarrow> int \<Rightarrow> cache_reg \<Rightarrow> cache_reg" where
  "publish_region n i g c block_len len r =
     (let m = cr_meta r
      in r\<lparr>cr_bases := cr_bases r @ [ct_data_ptr c],
           cr_meta := m\<lparr>wm_block_lens := wm_block_lens m @ [block_len], wm_kv_block_lens := wm_kv_block_lens m @ [len],
             wm_layer_names := wm_layer_names m @ [n], wm_layer_indices := wm_layer_indices m @ [i],
             wm_group_indices := wm_group_indices m @ [g], wm_num_blocks := wm_num_blocks m @ [ct_num_blocks c]\<rparr>\<rparr>)"

definition note_storage :: "string \<Rightarrow> cache_tensor \<Rightarrow> int \<Rightarrow> int \<Rightarrow> (cache_reg, unit) op" where
  "note_storage n c block_len len =
     (let offset = ct_data_ptr c - ct_storage_ptr c;
          view_end = offset + (ct_num_blocks c - 1) * block_len + len
      in if offset < 0 \<or> view_end > ct_storage_len c
         then throw (Exn ValueError (''KV cache view exceeds its registered storage: layer='' @ n @ '', view_offset='' @ str_int offset
                @ '', view_end='' @ str_int view_end @ '', storage_length='' @ str_int (ct_storage_len c) @ ''.''))
         else modify (\<lambda>r. if ct_storage_ptr c \<in> set (cr_ptrs r) then r
                else r\<lparr>cr_ptrs := cr_ptrs r @ [ct_storage_ptr c], cr_lens := cr_lens r @ [ct_storage_len c]\<rparr>))"

definition register_layer :: "(string \<Rightarrow> int result) \<Rightarrow> worker_config \<Rightarrow> string \<times> cache_tensor \<Rightarrow> (cache_reg, unit) op" where
  "register_layer extract_layer_index wc = (\<lambda>(n, c).
     bind_op (lift_result (extract_layer_index n)) (\<lambda>i.
       case dict_get (layer_specs (wc_groups wc)) n of
         None \<Rightarrow> ret ()
       | Some spec \<Rightarrow>
           bind_op (lift_result (in_stage wc n i)) (\<lambda>_.
             if wc_layer_split wc \<and> \<not> dsa_owns_layer wc i then ret ()
             else bind_op (lift_result (check_pages n c)) (\<lambda>_.
               let block_len = ct_block_stride c * ct_element_size c
               in bind_op (lift_result (checked_payload (wc_ratio wc) spec n c block_len)) (\<lambda>len.
                    case dict_get (layer_group_indices (wc_groups wc)) n of
                      None \<Rightarrow> throw (Exn KeyError (py_repr n))
                    | Some g \<Rightarrow> seq_op (modify (publish_region n i g c block_len len)) (note_storage n c block_len len))))))"

text \<open>\<open>batch_register\<close> is the engine's \<open>batch_register_memory\<close>, 0 for success.\<close>

definition register_kv_caches ::
    "(string \<Rightarrow> int result) \<Rightarrow> (int list \<Rightarrow> int list \<Rightarrow> int) \<Rightarrow> worker_config \<Rightarrow> (string, cache_tensor) dict \<Rightarrow> (cache_reg, unit) op" where
  "register_kv_caches extract_layer_index batch_register wc kv_caches =
     seq_op (modify (\<lambda>r. empty_reg\<lparr>cr_meta := (cr_meta empty_reg)\<lparr>wm_base_addrs := wm_base_addrs (cr_meta r)\<rparr>\<rparr>))
    (seq_op (for_each kv_caches (register_layer extract_layer_index wc))
    (seq_op (modify (\<lambda>r. r\<lparr>cr_meta := (cr_meta r)\<lparr>wm_base_addrs := cr_bases r\<rparr>\<rparr>))
    (bind_op (gets id) (\<lambda>r.
       if cr_ptrs r = [] then throw (Exn RuntimeError ''No KV cache tensors were registered with Mooncake.'')
       else if batch_register (cr_ptrs r) (cr_lens r) \<noteq> 0 then throw (Exn RuntimeError ''Mooncake batch memory registration failed.'')
       else ret ()))))"

end
