(* ===== verification/Mooncake_Registration_Correct.thy ===== *)
theory Mooncake_Registration_Correct
  imports Mooncake_Registration Mooncake_Transfer_Correct Layer_Split_Correct
begin

text \<open>
  What a worker has registered covers what it sends: every byte that a transfer reads lies in memory
  that was registered with the engine.  In layer-split mode every layer is registered by one
  context-parallel rank.
\<close>

section \<open>The published regions\<close>

text \<open>A published region lies in a registered piece of memory.\<close>

definition inside :: "cache_reg \<Rightarrow> int \<Rightarrow> int \<Rightarrow> int \<Rightarrow> int \<Rightarrow> bool" where
  "inside r base block_len len blocks \<longleftrightarrow>
     (\<exists>(q, size) \<in> set (zip (cr_ptrs r) (cr_lens r)). q \<le> base \<and> base + (blocks - 1) * block_len + len \<le> q + size)"

definition covered :: "cache_reg \<Rightarrow> bool" where
  "covered r \<longleftrightarrow> (let m = cr_meta r; n = length (cr_bases r) in
     length (wm_block_lens m) = n \<and> length (wm_kv_block_lens m) = n \<and> length (wm_num_blocks m) = n
     \<and> (\<forall>k < n. inside r (cr_bases r ! k) (wm_block_lens m ! k) (wm_kv_block_lens m ! k) (wm_num_blocks m ! k)))"

text \<open>Tensors at one storage address have the same storage.\<close>

definition one_storage :: "(string, cache_tensor) dict \<Rightarrow> bool" where
  "one_storage caches \<longleftrightarrow> (\<forall>(_, c) \<in> set caches. \<forall>(_, d) \<in> set caches. ct_storage_ptr c = ct_storage_ptr d \<longrightarrow> ct_storage_len c = ct_storage_len d)"

definition storages_of :: "(string, cache_tensor) dict \<Rightarrow> cache_reg \<Rightarrow> bool" where
  "storages_of caches r \<longleftrightarrow> length (cr_lens r) = length (cr_ptrs r)
     \<and> (\<forall>(q, size) \<in> set (zip (cr_ptrs r) (cr_lens r)). \<exists>(_, c) \<in> set caches. ct_storage_ptr c = q \<and> ct_storage_len c = size)"

lemma publish_then_note:
  assumes cov: "covered r" and st: "storages_of caches r" and one: "one_storage caches" and c: "(n, c) \<in> set caches"
    and run: "note_storage n c block_len len (publish_region n i g c block_len len r) = Some (Inr (), t)"
  shows "covered t \<and> storages_of caches t"
proof -
  let ?p = "publish_region n i g c block_len len r"
  let ?ptr = "ct_storage_ptr c" and ?size = "ct_storage_len c"
  have fit: "?ptr \<le> ct_data_ptr c" "ct_data_ptr c + (ct_num_blocks c - 1) * block_len + len \<le> ?ptr + ?size"
    and t: "t = (if ?ptr \<in> set (cr_ptrs ?p) then ?p
       else ?p\<lparr>cr_ptrs := cr_ptrs ?p @ [?ptr], cr_lens := cr_lens ?p @ [?size]\<rparr>)"
    using run by (auto simp: note_storage_def op_simps Let_def split: if_splits)
  have same: "cr_ptrs ?p = cr_ptrs r" "cr_lens ?p = cr_lens r" "cr_bases t = cr_bases r @ [ct_data_ptr c]"
    "wm_block_lens (cr_meta t) = wm_block_lens (cr_meta r) @ [block_len]" "wm_kv_block_lens (cr_meta t) = wm_kv_block_lens (cr_meta r) @ [len]"
    "wm_num_blocks (cr_meta t) = wm_num_blocks (cr_meta r) @ [ct_num_blocks c]"
    by (simp_all add: t publish_region_def Let_def)
  have len: "length (cr_lens r) = length (cr_ptrs r)"
    using st by (simp add: storages_of_def)
  have storages: "set (zip (cr_ptrs t) (cr_lens t)) = insert (?ptr, ?size) (set (zip (cr_ptrs r) (cr_lens r)))"
  proof (cases "?ptr \<in> set (cr_ptrs r)")
    case True
    then obtain size where size: "(?ptr, size) \<in> set (zip (cr_ptrs r) (cr_lens r))"
      using len by (metis in_set_impl_in_set_zip1)
    then obtain m d where "(m, d) \<in> set caches" "ct_storage_ptr d = ?ptr" "ct_storage_len d = size"
      using st by (auto simp: storages_of_def)
    then have "size = ?size"
      using one c by (fastforce simp: one_storage_def)
    then show ?thesis
      using True size by (auto simp: t same)
  qed (use len in \<open>simp add: t same\<close>)
  have "storages_of caches t"
    using st c len unfolding storages_of_def storages by (auto simp: t same)
  moreover have "inside t b l k nb" if "inside r b l k nb" for b l k nb
    using that unfolding inside_def storages by blast
  moreover have "inside t (ct_data_ptr c) block_len len (ct_num_blocks c)"
    unfolding inside_def storages using fit by auto
  ultimately show ?thesis
    using cov by (auto simp: covered_def Let_def same nth_append less_Suc_eq)
qed

text \<open>The layers that a worker registers: those with a specification and, with the layer split, of its own.\<close>

definition registers :: "(string \<Rightarrow> int result) \<Rightarrow> worker_config \<Rightarrow> string \<Rightarrow> bool" where
  "registers ex wc n \<longleftrightarrow> dict_get (layer_specs (wc_groups wc)) n \<noteq> None
     \<and> (wc_layer_split wc \<longrightarrow> (\<exists>i. ex n = Inr i \<and> dsa_owns_layer wc i))"

lemma register_layer_outcome:
  assumes run: "register_layer ex wc (n, c) r = Some (Inr (), t)"
  shows "if registers ex wc n
    then \<exists>b i g len. note_storage n c b len (publish_region n i g c b len r) = Some (Inr (), t) else t = r"
proof (cases "ex n")
  case ex: (Inr i)
  let ?len = "ct_block_stride c * ct_element_size c"
  show ?thesis
  proof (cases "dict_get (layer_specs (wc_groups wc)) n")
    case (Some spec)
    note run' = run [unfolded register_layer_def, simplified, unfolded lift_bind_run ex, simplified, unfolded Some, simplified]
    show ?thesis
      using run' by (cases "in_stage wc n i"; cases "check_pages n c"; cases "checked_payload (wc_ratio wc) spec n c ?len";
          cases "dict_get (layer_group_indices (wc_groups wc)) n"; cases "wc_layer_split wc \<and> \<not> dsa_owns_layer wc i")
        (simp_all add: registers_def Some ex lift_bind_run modify_seq_run ret_run throw_run Let_def, blast+)
  qed (use run ex in \<open>simp add: register_layer_def registers_def lift_bind_run ret_run\<close>)
qed (use run in \<open>simp add: register_layer_def lift_bind_run\<close>)

lemma register_layer_covers:
  assumes "covered r \<and> storages_of caches r" and "one_storage caches" and "x \<in> set caches"
    and run: "register_layer ex wc x r = Some (Inr (), t)"
  shows "covered t \<and> storages_of caches t"
proof -
  obtain n c where x: "x = (n, c)"
    by (cases x)
  from register_layer_outcome [OF run [unfolded x]]
  consider "t = r" | b i g len where "note_storage n c b len (publish_region n i g c b len r) = Some (Inr (), t)"
    by (auto split: if_splits)
  then show ?thesis
    using assms(1-3) publish_then_note [of r caches n c] by cases (auto simp: x)
qed

lemma register_loop:
  assumes "register_kv_caches ex engine wc caches r = Some (Inr (), t)"
  obtains u where "for_each caches (register_layer ex wc)
      (empty_reg\<lparr>cr_meta := (cr_meta empty_reg)\<lparr>wm_base_addrs := wm_base_addrs (cr_meta r)\<rparr>\<rparr>) = Some (Inr (), u)"
    and "t = u\<lparr>cr_meta := (cr_meta u)\<lparr>wm_base_addrs := cr_bases u\<rparr>\<rparr>"
  using assms by (auto simp: register_kv_caches_def op_defs op_simps split: option.splits sum.splits prod.splits if_splits)

text \<open>The published layers, in the order of the caches.\<close>

lemma loop_names:
  assumes "for_each caches (register_layer ex wc) r = Some (Inr (), t)"
  shows "wm_layer_names (cr_meta t) = wm_layer_names (cr_meta r) @ filter (registers ex wc) (dict_keys caches)"
  using assms
proof (induction caches arbitrary: r)
  case (Cons x caches)
  obtain n c where x: "x = (n, c)"
    by (cases x)
  from Cons.prems obtain s where s: "register_layer ex wc (n, c) r = Some (Inr (), s)"
    and rest: "for_each caches (register_layer ex wc) s = Some (Inr (), t)"
    by (auto simp: x op_defs split: option.splits sum.splits)
  have "wm_layer_names (cr_meta s) = wm_layer_names (cr_meta r) @ filter (registers ex wc) [n]"
    using register_layer_outcome [OF s]
    by (auto simp: note_storage_def publish_region_def op_simps Let_def split: if_splits)
  then show ?case
    using Cons.IH [OF rest] by (simp add: x)
qed (simp add: op_simps)

lemma registered_names:
  assumes "register_kv_caches ex engine wc caches r = Some (Inr (), t)"
  shows "wm_layer_names (cr_meta t) = filter (registers ex wc) (dict_keys caches)"
proof -
  from register_loop [OF assms] obtain u where "for_each caches (register_layer ex wc)
      (empty_reg\<lparr>cr_meta := (cr_meta empty_reg)\<lparr>wm_base_addrs := wm_base_addrs (cr_meta r)\<rparr>\<rparr>) = Some (Inr (), u)"
    and "t = u\<lparr>cr_meta := (cr_meta u)\<lparr>wm_base_addrs := cr_bases u\<rparr>\<rparr>"
    by blast
  then show ?thesis
    using loop_names by (auto simp: empty_reg_def)
qed

lemma registered_covers:
  assumes "register_kv_caches ex engine wc caches r = Some (Inr (), t)" and one: "one_storage caches"
  shows "covered t \<and> wm_base_addrs (cr_meta t) = cr_bases t"
proof -
  let ?s = "empty_reg\<lparr>cr_meta := (cr_meta empty_reg)\<lparr>wm_base_addrs := wm_base_addrs (cr_meta r)\<rparr>\<rparr>"
  from register_loop [OF assms(1)] obtain u where loop: "for_each caches (register_layer ex wc) ?s = Some (Inr (), u)"
    and t: "t = u\<lparr>cr_meta := (cr_meta u)\<lparr>wm_base_addrs := cr_bases u\<rparr>\<rparr>"
    by blast
  have "covered ?s \<and> storages_of caches ?s"
    by (simp add: covered_def storages_of_def empty_reg_def)
  then have "covered u \<and> storages_of caches u"
    using register_layer_covers [OF _ one] by (rule for_each_invariant [OF loop])
  then show ?thesis
    by (simp add: t covered_def inside_def Let_def)
qed

section \<open>Transfers read registered memory\<close>

lemma zip_rows_nth:
  assumes "row \<in> set (zip_rows bs ls ks ns is gs ss cs)"
  shows "\<exists>k < length bs. k < length ls \<and> k < length ks \<and> k < length ss \<and> k < length cs \<and> row_base_addr row = bs ! k \<and> row_block_len row = ls ! k
    \<and> row_kv_block_len row = ks ! k \<and> row_split row = ss ! k \<and> row_num_blocks row = cs ! k"
  using assms
proof (induction bs ls ks ns "is" gs ss cs rule: zip_rows.induct)
  case (1 b bs l ls k ks n ns i "is" g gs s ss c cs)
  show ?case
  proof (cases "row \<in> set (zip_rows bs ls ks ns is gs ss cs)")
    case True
    from 1(1) [OF this] obtain j where "j < length bs" "j < length ls \<and> j < length ks \<and> j < length ss \<and> j < length cs
        \<and> row_base_addr row = bs ! j \<and> row_block_len row = ls ! j \<and> row_kv_block_len row = ks ! j \<and> row_split row = ss ! j
        \<and> row_num_blocks row = cs ! j"
      by blast
    then show ?thesis
      by (intro exI [of _ "Suc j"]) simp
  qed (use 1(2) in \<open>auto intro!: exI [of _ 0]\<close>)
qed simp_all

lemma region_of_entry:
  assumes "get_transfer_regions sn m = Inr regions" and "l \<in> set regions"
  shows "\<exists>k < length (wm_base_addrs m). tr_base_addr l = wm_base_addrs m ! k \<and> tr_block_len l = wm_block_lens m ! k
    \<and> tr_kv_block_len l = wm_kv_block_lens m ! k \<and> tr_num_blocks l = Some (wm_num_blocks m ! k)"
proof -
  let ?n = "length (wm_layer_names m)" and ?cs = "wm_num_blocks m"
  from assms(1) obtain groups rss where n: "length ?cs = ?n" and regions: "regions = concat rss"
    and rows: "map_result expand_row (zip_rows (wm_base_addrs m) (wm_block_lens m) (wm_kv_block_lens m) (wm_layer_names m)
        (wm_layer_indices m) groups (replicate ?n False) (if ?cs = [] then replicate ?n None else map Some ?cs)) = Inr rss"
    by (auto simp: get_transfer_regions_def expand_transfer_regions_def valid_block_capacities_def Let_def and_then_Inr_iff split: if_splits)
  have caps: "(if ?cs = [] then replicate ?n None else map Some ?cs) = map Some ?cs"
    using n by auto
  obtain rs where rs: "rs \<in> set rss" "l \<in> set rs"
    using assms(2) regions by auto
  obtain row where row: "row \<in> set (zip_rows (wm_base_addrs m) (wm_block_lens m) (wm_kv_block_lens m) (wm_layer_names m)
        (wm_layer_indices m) groups (replicate ?n False) (map Some ?cs))" "expand_row row = Inr rs"
    using map_result_mem [OF rows rs(1)] unfolding caps by blast
  obtain k where k: "k < length (wm_base_addrs m)" "k < length (replicate ?n False)" "k < length (map Some ?cs)"
    "row_base_addr row = wm_base_addrs m ! k" "row_block_len row = wm_block_lens m ! k" "row_kv_block_len row = wm_kv_block_lens m ! k"
    "row_split row = replicate ?n False ! k" "row_num_blocks row = map Some ?cs ! k"
    using zip_rows_nth [OF row(1)] by blast
  have "l = row_region row 0"
    using row(2) rs(2) k(2,7) by (auto simp: expand_row_def Let_def split: if_splits)
  then show ?thesis
    using k by (intro exI [of _ k]) (simp add: row_region_def)
qed

lemma accepted_locals:
  assumes "accept_metadata sn meta = Inr (Inr (locals, remotes))"
  shows "\<exists>regions. get_transfer_regions sn (sn_caches sn) = Inr regions \<and> set locals \<subseteq> set regions"
proof -
  from assms obtain ls rs where regions: "get_transfer_regions sn (sn_caches sn) = Inr ls"
    and pairs: "pair_regions (xe_topo (sn_env sn)) (am_tp_size meta) ls rs = Inr (locals, remotes)"
    by (auto simp: accept_metadata_def Let_def and_then_Inr_iff split: if_splits option.splits)
  then show ?thesis
    using pair_regions_Inr [OF pairs] by (auto simp: align_transfer_regions_def split: sum.splits)
qed

lemma payload_in_registered:
  assumes cov: "covered r" and bases: "wm_base_addrs (cr_meta r) = cr_bases r" and regions: "get_transfer_regions sn (cr_meta r) = Inr ls"
    and l: "l \<in> set ls" and byte: "payload_byte l s"
  shows "\<exists>(q, size) \<in> set (zip (cr_ptrs r) (cr_lens r)). q \<le> s \<and> s < q + size"
proof -
  let ?m = "cr_meta r"
  obtain k where k: "k < length (cr_bases r)" "tr_base_addr l = cr_bases r ! k" "tr_block_len l = wm_block_lens ?m ! k"
    "tr_kv_block_len l = wm_kv_block_lens ?m ! k" "tr_num_blocks l = Some (wm_num_blocks ?m ! k)"
    using region_of_entry [OF regions l] bases by auto
  have "list_all region_ok ls"
    using regions by (auto simp: get_transfer_regions_def intro: expanded_regions_ok)
  then have pos: "0 < tr_block_len l"
    using l by (auto simp: list_all_iff region_ok_def)
  obtain q size where q: "(q, size) \<in> set (zip (cr_ptrs r) (cr_lens r))" "q \<le> tr_base_addr l"
    "tr_base_addr l + (wm_num_blocks ?m ! k - 1) * tr_block_len l + tr_kv_block_len l \<le> q + size"
    using cov k by (fastforce simp: covered_def inside_def Let_def)
  obtain b where b: "0 \<le> b" "b \<le> wm_num_blocks ?m ! k - 1" "tr_base_addr l + b * tr_block_len l \<le> s"
    "s < tr_base_addr l + b * tr_block_len l + tr_kv_block_len l"
    using byte k(5) by (auto simp: payload_byte_def)
  have "b * tr_block_len l \<le> (wm_num_blocks ?m ! k - 1) * tr_block_len l" "0 \<le> b * tr_block_len l"
    using b(1,2) pos by (simp_all add: mult_right_mono)
  then have "q \<le> s \<and> s < q + size"
    using q(2,3) b(3,4) by linarith
  then show ?thesis
    using q(1) by blast
qed

text \<open>
  C24. Every byte that a transfer reads lies in memory that the producer has registered with the engine:
  if the registration of the caches succeeded, its result is what the worker publishes, and the
  consumer's metadata was accepted.
\<close>

theorem transferred_bytes_registered:
  assumes "register_kv_caches ex engine wc caches r = Some (Inr (), t)" and "one_storage caches" and "sn_caches sn = cr_meta t"
    and accept: "accept_metadata sn meta = Inr (Inr (locals, remotes))"
    and "list_all (known_request (sn_env sn) meta) ready" and "kernel_expansion (sn_env sn)"
    and "build_transfer_params (sn_env sn) ready meta locals remotes = Inr params"
    and "(s, d) \<in> set (copied (tp_descriptors params))"
  shows "\<exists>(q, size) \<in> set (zip (cr_ptrs t) (cr_lens t)). q \<le> s \<and> s < q + size"
proof -
  obtain l where l: "l \<in> set locals" "payload_byte l s"
    using bytes_in_payloads [OF assms(4-8)] by (auto dest: set_zip_leftD)
  obtain ls where "get_transfer_regions sn (cr_meta t) = Inr ls" "l \<in> set ls"
    using accepted_locals [OF accept] assms(3) l(1) by auto
  then show ?thesis
    using registered_covers [OF assms(1,2)] l(2) by (intro payload_in_registered) auto
qed

definition page_cache :: "int \<Rightarrow> cache_tensor" where
  "page_cache ptr = \<lparr>ct_ndim = 4, ct_num_blocks = 8, ct_block_stride = 2, ct_element_size = 2, ct_page_contiguous = True, ct_page_numel = 2,
     ct_data_ptr = ptr, ct_storage_ptr = 992, ct_storage_len = 80\<rparr>"

definition layer_config :: worker_config where
  "layer_config = \<lparr>wc_groups = [\<lparr>cg_layer_names = [''l0'', ''l1''], cg_spec = AttentionPages False 4 4, cg_specs_by_layer = []\<rparr>],
     wc_ratio = 1, wc_pp_rank = 0, wc_pp_size = 1, wc_pp_layer_range = None, wc_speculative = False, wc_pcp_rank = 0, wc_pcp_size = 1,
     wc_layer_split = False, wc_total_layers = 0, wc_owned_range = (0, 0)\<rparr>"

definition demo_reg :: cache_reg where
  "demo_reg = \<lparr>cr_meta = sn_caches demo_sender, cr_bases = [1000], cr_ptrs = [992], cr_lens = [80]\<rparr>"

lemma demo_registers:
  "register_kv_caches (\<lambda>_. Inr 0) (\<lambda>_ _. 0) layer_config [(''l0'', page_cache 1000), (''draft'', page_cache 0)] empty_reg = Some (Inr (), demo_reg)"
  by code_simp

theorem transferred_bytes_registered_witness: "\<exists>(q, size) \<in> set (zip [992] [80]). q \<le> (1017 :: int) \<and> 1017 < q + size"
proof -
  have "\<exists>(q, size) \<in> set (zip (cr_ptrs demo_reg) (cr_lens demo_reg)). q \<le> (1017 :: int) \<and> 1017 < q + size"
  proof (rule transferred_bytes_registered [OF demo_registers _ _ _ demo_sender_facts])
    show "one_storage [(''l0'', page_cache 1000), (''draft'', page_cache 0)]"
      by (simp add: one_storage_def page_cache_def)
    show "sn_caches demo_sender = cr_meta demo_reg"
      by (simp add: demo_reg_def)
    show "accept_metadata demo_sender demo_meta = Inr (Inr (fst (projr demo_regions), snd (projr demo_regions)))"
      by (simp add: demo_accepts demo_regions_def)
    show "build_transfer_params (sn_env demo_sender) [(''d'', [[1, 4, 5, 7]])] demo_meta
        (fst (projr demo_regions)) (snd (projr demo_regions)) = Inr demo_params"
      by code_simp
    show "(1017, 5021) \<in> set (copied (tp_descriptors demo_params))"
      by code_simp
  qed
  then show ?thesis
    by (simp add: demo_reg_def)
qed

section \<open>Layer-split producers\<close>

lemma init_worker_split:
  assumes "init_worker groups has_mamba logical physical stage pp_rank pp_size speculative q pcp True True layers = Inr w" and "1 < pcp"
  shows "wc_total_layers w = layers" and "wc_pcp_rank w = q" and "wc_pcp_size w = pcp"
    and "get_layer_shard_range q pcp layers = Inr (wc_owned_range w)" and "wc_groups w = groups" and "wc_layer_split w"
  using assms by (auto simp: init_worker_def and_then_Inr_iff Let_def split: if_splits)

lemma layer_owned_by_one:
  assumes pcp: "1 < pcp" and i: "0 \<le> i"
    and start: "\<forall>q. 0 \<le> q \<and> q < pcp \<longrightarrow>
      init_worker groups has_mamba logical physical stage pp_rank pp_size speculative q pcp True True layers = Inr (wc q)"
  shows "\<exists>k. 0 \<le> k \<and> k < pcp \<and> (\<forall>q. 0 \<le> q \<and> q < pcp \<longrightarrow> (dsa_owns_layer (wc q) i \<longleftrightarrow> q = k)) \<and> (layers \<le> i \<longrightarrow> k = pcp - 1)"
proof -
  have wc: "wc_total_layers (wc q) = layers" "wc_pcp_rank (wc q) = q" "wc_pcp_size (wc q) = pcp"
    "get_layer_shard_range q pcp layers = Inr (wc_owned_range (wc q))" if "0 \<le> q" "q < pcp" for q
    using init_worker_split [OF start [rule_format, of q] pcp] that by simp_all
  show ?thesis
  proof (cases "i < layers")
    case False
    then have "dsa_owns_layer (wc q) i \<longleftrightarrow> q = pcp - 1" if "0 \<le> q" "q < pcp" for q
      using wc that by (simp add: dsa_owns_layer_def)
    then show ?thesis
      using pcp by (intro exI [of _ "pcp - 1"]) auto
  next
    case True
    obtain k where k: "k < nat pcp"
      "\<And>q. q < nat pcp \<Longrightarrow> shard_lo (nat pcp, nat layers) q \<le> nat i \<and> nat i < shard_hi (nat pcp, nat layers) q \<longleftrightarrow> q = k"
      using owner_obtain [of pcp i layers] pcp i True by auto
    have "dsa_owns_layer (wc q) i \<longleftrightarrow> nat q = k" if "0 \<le> q" "q < pcp" for q
    proof -
      have "wc_owned_range (wc q) = (int (shard_lo (nat pcp, nat layers) (nat q)), int (shard_hi (nat pcp, nat layers) (nat q)))"
        using wc(4) [OF that] shard_range_int [of q pcp layers] that i True by simp
      then show ?thesis
        using k(2) [of "nat q"] wc(1) [OF that] that i True by (auto simp: dsa_owns_layer_def le_nat_iff nat_less_iff)
    qed
    then show ?thesis
      using k(1) True by (intro exI [of _ "int k"]) auto
  qed
qed

text \<open>
  C25. In layer-split mode every layer is sent by exactly one context-parallel rank: when the workers of
  all ranks started with the same configuration and registered their caches, which all have a tensor
  for the layer, one of them has the layer among those it publishes and no other has.  A layer of
  the backbone is with the rank whose shard range has its index, the draft layers after the backbone
  are with the last rank.
\<close>

theorem layer_sent_by_one_rank:
  assumes pcp: "1 < pcp"
    and start: "\<forall>q. 0 \<le> q \<and> q < pcp \<longrightarrow>
      init_worker groups has_mamba logical physical stage pp_rank pp_size speculative q pcp True True layers = Inr (wc q)"
    and run: "\<forall>q. 0 \<le> q \<and> q < pcp \<longrightarrow> n \<in> set (dict_keys (caches q))
      \<and> register_kv_caches extract_layer_index (engine q) (wc q) (caches q) (r q) = Some (Inr (), t q)"
    and layer: "extract_layer_index n = Inr i" "0 \<le> i" "dict_get (layer_specs groups) n \<noteq> None"
  shows "\<exists>k. 0 \<le> k \<and> k < pcp \<and> (\<forall>q. 0 \<le> q \<and> q < pcp \<longrightarrow> (n \<in> set (wm_layer_names (cr_meta (t q))) \<longleftrightarrow> q = k))
    \<and> (if i < layers then \<exists>a b. get_layer_shard_range k pcp layers = Inr (a, b) \<and> a \<le> i \<and> i < b else k = pcp - 1)"
proof -
  from layer_owned_by_one [OF pcp layer(2) start] obtain k where k: "0 \<le> k" "k < pcp" "layers \<le> i \<longrightarrow> k = pcp - 1"
    and owner: "\<forall>q. 0 \<le> q \<and> q < pcp \<longrightarrow> (dsa_owns_layer (wc q) i \<longleftrightarrow> q = k)"
    by blast
  note init = init_worker_split [OF start [rule_format] pcp]
  have "n \<in> set (wm_layer_names (cr_meta (t q))) \<longleftrightarrow> q = k" if q: "0 \<le> q" "q < pcp" for q
  proof -
    have "wm_layer_names (cr_meta (t q)) = filter (registers extract_layer_index (wc q)) (dict_keys (caches q))"
      using run q registered_names [of extract_layer_index "engine q" "wc q" "caches q" "r q" "t q"] by blast
    moreover have "registers extract_layer_index (wc q) n \<longleftrightarrow> q = k"
      using owner q init(5,6) [of q] layer by (simp add: registers_def)
    ultimately show ?thesis
      using run q by (simp only: set_filter mem_Collect_eq) blast
  qed
  moreover have "\<exists>a b. get_layer_shard_range k pcp layers = Inr (a, b) \<and> a \<le> i \<and> i < b" if "i < layers"
    using that owner k init(1,4) [of k] by (cases "wc_owned_range (wc k)") (auto simp: dsa_owns_layer_def)
  ultimately show ?thesis
    using k by (intro exI [of _ k]) auto
qed

text \<open>Two ranks, one layer and one draft layer.\<close>

definition split_config :: "int \<Rightarrow> worker_config" where
  "split_config q = (layer_config\<lparr>wc_pcp_size := 2, wc_layer_split := True, wc_total_layers := 1\<rparr>)
     \<lparr>wc_pcp_rank := q, wc_owned_range := (if q = 0 then (0, 1) else (1, 1))\<rparr>"

definition split_index :: "string \<Rightarrow> int result" where
  "split_index n = Inr (if n = ''l0'' then 0 else 1)"

definition split_caches :: "(string, cache_tensor) dict" where
  "split_caches = [(''l0'', page_cache 1000), (''l1'', page_cache 1032)]"

definition split_reg :: "int \<Rightarrow> cache_reg" where
  "split_reg q = snd (the (register_kv_caches split_index (\<lambda>_ _. 0) (split_config q) split_caches empty_reg))"

lemma split_registers:
  "register_kv_caches split_index (\<lambda>_ _. 0) (split_config 0) split_caches empty_reg = Some (Inr (), split_reg 0)"
  "register_kv_caches split_index (\<lambda>_ _. 0) (split_config 1) split_caches empty_reg = Some (Inr (), split_reg 1)"
  "init_worker (wc_groups layer_config) False 16 16 (Inr (0, 0)) 0 1 False 0 2 True True 1 = Inr (split_config 0)"
  "init_worker (wc_groups layer_config) False 16 16 (Inr (0, 0)) 0 1 False 1 2 True True 1 = Inr (split_config 1)"
  by code_simp+

theorem layer_sent_by_one_rank_witness:
  "\<exists>k. 0 \<le> k \<and> k < 2 \<and> (\<forall>q. 0 \<le> q \<and> q < 2 \<longrightarrow> (''l1'' \<in> set (wm_layer_names (cr_meta (split_reg q))) \<longleftrightarrow> q = k))
    \<and> (if (1 :: int) < 1 then \<exists>a b. get_layer_shard_range k 2 1 = Inr (a, b) \<and> a \<le> 1 \<and> 1 < b else k = 2 - 1)"
proof (rule layer_sent_by_one_rank)
  have two: "q = 0 \<or> q = 1" if "0 \<le> q \<and> q < 2" for q :: int
    using that by linarith
  show "\<forall>q. 0 \<le> q \<and> q < 2 \<longrightarrow>
      init_worker (wc_groups layer_config) False 16 16 (Inr (0, 0)) 0 1 False q 2 True True 1 = Inr (split_config q)"
    using two split_registers(3,4) by fastforce
  show "\<forall>q. 0 \<le> q \<and> q < 2 \<longrightarrow> ''l1'' \<in> set (dict_keys split_caches)
      \<and> register_kv_caches split_index (\<lambda>_ _. 0) (split_config q) split_caches empty_reg = Some (Inr (), split_reg q)"
    using two split_registers(1,2) by (fastforce simp: split_caches_def)
  show "split_index ''l1'' = Inr 1" "dict_get (layer_specs (wc_groups layer_config)) ''l1'' \<noteq> None"
    by code_simp+
qed simp_all

end
