(* ===== verification/Mooncake_Startup.thy ===== *)
theory Mooncake_Startup
  imports Mooncake_Registration Mooncake_Bootstrap_Correct
begin

text \<open>
  How the workers of a prefill engine start: which of them runs the bootstrap server, and what each
  registers with it (\<open>register_worker_with_bootstrap\<close>, \<open>should_launch_bootstrap_server\<close>,
  \<open>get_mooncake_bootstrap_addr\<close>).  When all have registered, in any order, decode workers accept the
  topology of the engine.
\<close>

section \<open>The start of a worker\<close>

definition bootstrap_tp_rank :: "int \<Rightarrow> worker_config \<Rightarrow> int" where
  "bootstrap_tp_rank tp_rank wc = tp_rank * wc_pcp_size wc + wc_pcp_rank wc"

definition pcp_dummy_sender :: "bool \<Rightarrow> worker_config \<Rightarrow> bool" where
  "pcp_dummy_sender is_producer wc \<longleftrightarrow> wc_pcp_size wc > 1 \<and> is_producer \<and> \<not> wc_layer_split wc \<and> wc_pcp_rank wc \<noteq> 0"

text \<open>The payload that a worker posts, if any; posting is repeated until the server can be reached.\<close>

definition register_worker_with_bootstrap :: "string \<Rightarrow> int \<Rightarrow> int \<Rightarrow> string \<Rightarrow> bool \<Rightarrow> worker_config \<Rightarrow> register_payload option" where
  "register_worker_with_bootstrap engine_id dp_rank tp_rank addr is_producer wc =
     (if pcp_dummy_sender is_producer wc then None
      else Some \<lparr>rp_engine_id = engine_id, rp_dp_rank = dp_rank, rp_tp_rank = bootstrap_tp_rank tp_rank wc, rp_pp_rank = wc_pp_rank wc,
                 rp_addr = addr, rp_pcp_size = wc_pcp_size wc, rp_layer_split = wc_layer_split wc\<rparr>)"

record process_place =
  pl_kv_role :: "string option"
  pl_pcp_size :: int
  pl_pcp_group_rank :: int
  pl_pcp_first :: bool
  pl_tp_rank :: int
  pl_pp_rank :: int
  pl_local_engines_only :: bool
  pl_dp_rank_local :: int
  pl_dp_index :: int

definition should_launch_bootstrap_server :: "process_place \<Rightarrow> bool" where
  "should_launch_bootstrap_server pl =
     (if pl_kv_role pl \<noteq> Some ''kv_producer'' \<and> pl_kv_role pl \<noteq> Some ''kv_both'' then False
      else if pl_pcp_size pl > 1 \<and> (pl_kv_role pl \<noteq> Some ''kv_producer'' \<or> pl_pcp_group_rank pl \<noteq> 0 \<or> \<not> pl_pcp_first pl) then False
      else if pl_tp_rank pl \<noteq> 0 then False
      else if pl_pp_rank pl \<noteq> 0 then False
      else if pl_local_engines_only pl then pl_dp_rank_local pl = 0
      else pl_dp_index pl = 0)"

definition get_mooncake_bootstrap_addr :: "bool \<Rightarrow> int \<Rightarrow> string \<Rightarrow> string \<Rightarrow> int \<Rightarrow> string \<times> int" where
  "get_mooncake_bootstrap_addr local_engines_only nnodes_within_dp master_addr data_parallel_master_ip port =
     (if local_engines_only then ''127.0.0.1''
      else if nnodes_within_dp > 1 then master_addr else data_parallel_master_ip, port)"

section \<open>Registering one after the other\<close>

text \<open>The pairs of virtual and pipeline rank that a topology has.\<close>

definition ranks_of :: "worker_addrs \<Rightarrow> (int \<times> int) set" where
  "ranks_of w = {(v, pp). \<exists>pps. dict_get w v = Some pps \<and> dict_get pps pp \<noteq> None}"

definition filled :: "worker_addrs \<Rightarrow> bool" where
  "filled w \<longleftrightarrow> distinct (dict_keys w) \<and> (\<forall>v pps. dict_get w v = Some pps \<longrightarrow> distinct (dict_keys pps) \<and> pps \<noteq> [])"

definition place_worker :: "register_payload \<Rightarrow> worker_addrs \<Rightarrow> worker_addrs" where
  "place_worker p w = dict_set (rp_tp_rank p)
     (dict_set (rp_pp_rank p) (rp_addr p) (case dict_get w (rp_tp_rank p) of None \<Rightarrow> [] | Some pps \<Rightarrow> pps)) w"

lemma dict_set_nonempty [simp]: "dict_set k v d \<noteq> []"
  by (cases d) auto

lemma place_worker_filled:
  assumes "filled w"
  shows "filled (place_worker p w)" and "ranks_of (place_worker p w) = insert (rp_tp_rank p, rp_pp_rank p) (ranks_of w)"
proof -
  show "filled (place_worker p w)"
    using assms by (cases "dict_get w (rp_tp_rank p)") (auto simp: filled_def place_worker_def intro: dict_set_distinct)
  show "ranks_of (place_worker p w) = insert (rp_tp_rank p, rp_pp_rank p) (ranks_of w)"
    by (cases "dict_get w (rp_tp_rank p)") (auto simp: ranks_of_def place_worker_def split: if_splits)
qed

lemma dict_set_twice: "dict_set k v (dict_set k u d) = dict_set k v d"
  by (induction d) auto

lemma add_address_places:
  assumes "(rp_tp_rank p, rp_pp_rank p) \<notin> ranks_of (ee_worker_addr e)"
  shows "add_address p e s = Some (Inr (), dict_set (rp_dp_rank p) (e\<lparr>ee_worker_addr := place_worker p (ee_worker_addr e)\<rparr>) s)"
  using assms
  by (cases "dict_get (ee_worker_addr e) (rp_tp_rank p)")
    (auto simp: add_address_def put_engine_def op_defs op_simps Let_def place_worker_def ranks_of_def dict_set_twice)

text \<open>The workers of one engine register with the same engine id, data-parallel rank and context-parallel setting.\<close>

definition same_engine :: "string \<Rightarrow> int \<Rightarrow> int \<Rightarrow> bool \<Rightarrow> register_payload \<Rightarrow> bool" where
  "same_engine engine dp pcp split p \<longleftrightarrow> rp_engine_id p = engine \<and> rp_dp_rank p = dp \<and> rp_pcp_size p = pcp \<and> rp_layer_split p = split
     \<and> 0 \<le> rp_tp_rank p \<and> 0 \<le> rp_pp_rank p"

definition rank_pair :: "register_payload \<Rightarrow> int \<times> int" where
  "rank_pair p = (rp_tp_rank p, rp_pp_rank p)"

lemma register_at_engine:
  assumes "same_engine engine dp pcp split p" and "0 < pcp" and e: "dict_get s dp = Some e"
    and "ee_engine_id e = engine" "ee_pcp_size e = pcp" "ee_layer_split e = split" and new: "rank_pair p \<notin> ranks_of (ee_worker_addr e)"
  shows "register_worker p s = Some (Inr (), dict_set dp (e\<lparr>ee_worker_addr := place_worker p (ee_worker_addr e)\<rparr>) s)"
  using assms add_address_places [of p e s] by (simp add: register_worker_def same_engine_def rank_pair_def op_defs op_simps)

lemma register_first:
  assumes "same_engine engine dp pcp split p" and "0 < pcp" and "dict_get s dp = None"
  shows "register_worker p s = Some (Inr (), dict_set dp ((new_engine p)\<lparr>ee_worker_addr := place_worker p []\<rparr>) s)"
  using assms add_address_places [of p "new_engine p" "dict_set dp (new_engine p) s"]
  by (simp add: register_worker_def same_engine_def op_defs op_simps put_engine_def new_engine_def ranks_of_def dict_set_twice)

lemma register_all:
  assumes "list_all (same_engine engine dp pcp split) ps" and "0 < pcp" and "dict_get s dp = Some e"
    and "ee_engine_id e = engine" "ee_pcp_size e = pcp" "ee_layer_split e = split"
    and "filled (ee_worker_addr e)" and "distinct (map rank_pair ps)" and "set (map rank_pair ps) \<inter> ranks_of (ee_worker_addr e) = {}"
  shows "\<exists>t w. for_each ps register_worker s = Some (Inr (), t) \<and> dict_get t dp = Some (e\<lparr>ee_worker_addr := w\<rparr>) \<and> filled w
    \<and> ranks_of w = ranks_of (ee_worker_addr e) \<union> set (map rank_pair ps)"
  using assms
proof (induction ps arbitrary: s e)
  case (Cons p ps)
  let ?e = "e\<lparr>ee_worker_addr := place_worker p (ee_worker_addr e)\<rparr>"
  have step: "register_worker p s = Some (Inr (), dict_set dp ?e s)"
    using Cons.prems by (intro register_at_engine) auto
  have w: "filled (ee_worker_addr ?e)" "ranks_of (ee_worker_addr ?e) = insert (rank_pair p) (ranks_of (ee_worker_addr e))"
    using place_worker_filled Cons.prems(7) by (simp_all add: rank_pair_def)
  have "\<exists>t w. for_each ps register_worker (dict_set dp ?e s) = Some (Inr (), t) \<and> dict_get t dp = Some (?e\<lparr>ee_worker_addr := w\<rparr>) \<and> filled w
    \<and> ranks_of w = ranks_of (ee_worker_addr ?e) \<union> set (map rank_pair ps)"
    using Cons.prems w by (intro Cons.IH) auto
  then show ?case
    using step w(2) by (auto simp: op_defs)
next
  case Nil
  have "e\<lparr>ee_worker_addr := ee_worker_addr e\<rparr> = e"
    by simp
  then show ?case
    using Nil by (intro exI [of _ s] exI [of _ "ee_worker_addr e"]) (simp add: op_simps)
qed

section \<open>A complete engine\<close>

lemma grid_keys:
  assumes fill: "filled w" and grid: "ranks_of w = V \<times> {0..<pps}" and "0 < pps"
  shows "dict_get w v = Some d \<Longrightarrow> v \<in> V \<and> set (dict_keys d) = {0..<pps}" and "set (dict_keys w) = V"
proof -
  have keys: "v \<in> V \<and> set (dict_keys d) = {0..<pps}" if "dict_get w v = Some d" for v d
  proof -
    have "(v, pp) \<in> ranks_of w \<longleftrightarrow> dict_get d pp \<noteq> None" for pp
      using that by (simp add: ranks_of_def)
    then have v: "v \<in> V \<and> pp \<in> {0..<pps} \<longleftrightarrow> dict_get d pp \<noteq> None" for pp
      by (simp only: grid mem_Sigma_iff)
    have "d \<noteq> []"
      using fill that by (simp add: filled_def)
    then have "dict_get d (fst (hd d)) \<noteq> None"
      by (cases d) auto
    then have "v \<in> V"
      using v by blast
    then show ?thesis
      using v unfolding set_eq_iff by (simp only: dict_get_None_iff not_not simp_thms)
  qed
  then show "dict_get w v = Some d \<Longrightarrow> v \<in> V \<and> set (dict_keys d) = {0..<pps}" .
  have "dict_get w v \<noteq> None" if "v \<in> V" for v
  proof -
    have "(v, 0) \<in> ranks_of w"
      using that \<open>0 < pps\<close> by (simp add: grid)
    then show ?thesis
      by (auto simp: ranks_of_def)
  qed
  moreover have "v \<in> V" if "dict_get w v \<noteq> None" for v
    using keys that by blast
  ultimately show "set (dict_keys w) = V"
    unfolding dict_get_None_iff not_not by blast
qed

lemma grid_accepted:
  assumes fill: "filled w" and grid: "ranks_of w = V \<times> {0..<pps}" and pps: "0 < pps" and "V \<noteq> {}" and pcp: "0 < pcp" "0 < tps"
    and V: "V = (if split then {0..<tps * pcp} else (\<lambda>i. i * pcp) ` {0..<tps})"
  shows "validate_bootstrap_worker_topology w pcp split = Inr ()" and "int (length w) = (if split then tps * pcp else tps)"
proof -
  note set_keys = grid_keys(2) [OF fill grid pps]
  have dist: "distinct (dict_keys w)"
    using fill by (simp add: filled_def)
  have inner: "distinct (dict_keys d)" "set (dict_keys d) = {0..<int (nat pps)}" if "(v, d) \<in> set w" for v d
    using map_of_is_SomeI [OF dist that] fill grid_keys(1) [OF fill grid pps] pps unfolding filled_def by auto
  have wf: "wf_addrs w"
    using dist inner(1) unfolding wf_addrs_def list_all_iff by blast
  have "int (card V) = (if split then tps * pcp else tps)"
    using pcp by (auto simp: V card_image inj_on_def)
  then show len: "int (length w) = (if split then tps * pcp else tps)"
    using distinct_card [OF dist] set_keys by simp
  have "\<exists>k :: nat. list_all (\<lambda>(_, d). set (dict_keys d) = {0..<int k}) w"
    using inner(2) unfolding list_all_iff by blast
  moreover have "w \<noteq> []"
    using set_keys \<open>V \<noteq> {}\<close> by auto
  ultimately show "validate_bootstrap_worker_topology w pcp split = Inr ()"
    unfolding topology_iff [OF wf] using set_keys len pcp V by (auto split: if_splits)
qed

text \<open>The payloads that the workers of an engine post, one for each tensor-, context- and pipeline-parallel rank.\<close>

definition startup_payloads ::
    "string \<Rightarrow> int \<Rightarrow> worker_config \<Rightarrow> (int \<times> int \<times> int \<Rightarrow> string) \<Rightarrow> (int \<times> int \<times> int) list \<Rightarrow> register_payload list" where
  "startup_payloads engine dp wc addr ws = List.map_filter (\<lambda>(tp, c, pp).
     register_worker_with_bootstrap engine dp tp (addr (tp, c, pp)) True (wc\<lparr>wc_pcp_rank := c, wc_pp_rank := pp\<rparr>)) ws"

definition posts :: "worker_config \<Rightarrow> int \<times> int \<times> int \<Rightarrow> bool" where
  "posts wc = (\<lambda>(tp, c, pp). wc_pcp_size wc > 1 \<longrightarrow> wc_layer_split wc \<or> c = 0)"

lemma startup_pairs:
  "map rank_pair (startup_payloads engine dp wc addr ws) = map (\<lambda>(tp, c, pp). (tp * wc_pcp_size wc + c, pp)) (filter (posts wc) ws)"
  by (induction ws)
    (auto simp: startup_payloads_def map_filter_simps register_worker_with_bootstrap_def pcp_dummy_sender_def bootstrap_tp_rank_def
      posts_def rank_pair_def split: option.splits prod.splits)

lemma startup_same_engine:
  assumes "\<forall>(tp, c, pp) \<in> set ws. 0 \<le> tp \<and> 0 \<le> c \<and> 0 \<le> pp" and "0 < wc_pcp_size wc"
  shows "list_all (same_engine engine dp (wc_pcp_size wc) (wc_layer_split wc)) (startup_payloads engine dp wc addr ws)"
  using assms
  by (induction ws)
    (auto simp: startup_payloads_def map_filter_simps register_worker_with_bootstrap_def bootstrap_tp_rank_def same_engine_def split: prod.splits)

lemma virtual_div:
  assumes "0 \<le> c" "c < (pcp :: int)"
  shows "(t * pcp + c) div pcp = t" and "(t * pcp + c) mod pcp = c"
proof -
  have e: "t * pcp + c = pcp * t + c"
    by (simp only: mult.commute)
  show "(t * pcp + c) div pcp = t"
    by (rule int_div_pos_eq [OF e assms])
  show "(t * pcp + c) mod pcp = c"
    by (rule int_mod_pos_eq [OF e assms])
qed

lemma virtual_inj: "inj_on (\<lambda>(tp, c, pp). (tp * pcp + c, pp)) ({0..<tps} \<times> {0..<pcp :: int} \<times> P)"
proof -
  have inj: "t = t' \<and> c = c'" if "t * pcp + c = t' * pcp + c'" "0 \<le> c" "c < pcp" "0 \<le> c'" "c' < pcp" for t c t' c' :: int
    using virtual_div [OF that(2,3), of t] virtual_div [OF that(4,5), of t'] that(1) by metis
  show ?thesis
  proof (rule inj_onI)
    fix x y :: "int \<times> int \<times> 'a"
    assume "x \<in> {0..<tps} \<times> {0..<pcp} \<times> P" "y \<in> {0..<tps} \<times> {0..<pcp} \<times> P"
      and eq: "(case x of (tp, c, pp) \<Rightarrow> (tp * pcp + c, pp)) = (case y of (tp, c, pp) \<Rightarrow> (tp * pcp + c, pp))"
    then obtain t c t' c' pp pp' where xy: "x = (t, c, pp)" "y = (t', c', pp')" "0 \<le> c" "c < pcp" "0 \<le> c'" "c' < pcp"
      by auto
    then show "x = y"
      using inj [of t c t' c'] eq by (simp only: prod.case prod.inject)
  qed
qed

lemma virtual_grid:
  assumes pcp: "0 < (pcp :: int)"
  shows "(\<lambda>(tp, c, pp). (tp * pcp + c, pp)) ` ({0..<tps} \<times> {0..<pcp} \<times> P) = {0..<tps * pcp} \<times> P"
proof (intro equalityI subsetI)
  fix x
  assume "x \<in> (\<lambda>(tp, c, pp). (tp * pcp + c, pp)) ` ({0..<tps} \<times> {0..<pcp} \<times> P)"
  then obtain t c pp where x: "x = (t * pcp + c, pp)" "0 \<le> t" "t + 1 \<le> tps" "0 \<le> c" "c < pcp" "pp \<in> P"
    by auto
  have "(t + 1) * pcp \<le> tps * pcp"
    using x(3) pcp by (intro mult_right_mono) auto
  then show "x \<in> {0..<tps * pcp} \<times> P"
    using x pcp by (simp add: distrib_right)
next
  fix x
  assume "x \<in> {0..<tps * pcp} \<times> P"
  then obtain v pp where x: "x = (v, pp)" "0 \<le> v" "v < tps * pcp" "pp \<in> P"
    by auto
  have "v div pcp < tps"
  proof (rule ccontr)
    assume "\<not> v div pcp < tps"
    then have "tps * pcp \<le> v div pcp * pcp"
      using pcp by (intro mult_right_mono) auto
    also have "\<dots> \<le> v"
      using div_mult_mod_eq [of v pcp] pos_mod_sign [OF pcp, of v] by linarith
    finally show False
      using x(3) by simp
  qed
  then show "x \<in> (\<lambda>(tp, c, pp). (tp * pcp + c, pp)) ` ({0..<tps} \<times> {0..<pcp} \<times> P)"
    using x pcp by (intro image_eqI [of _ _ "(v div pcp, v mod pcp, pp)"]) (auto simp: pos_imp_zdiv_nonneg_iff)
qed

text \<open>The pairs that are registered: all virtual ranks with the layer split, every \<open>pcp\<close>-th otherwise.\<close>

lemma posted_grid:
  assumes pcp: "wc_pcp_size wc = pcp" "0 < pcp" and ws: "set ws = {0..<tps} \<times> {0..<pcp} \<times> {0..<pps}"
  shows "(\<lambda>(tp, c, pp). (tp * pcp + c, pp)) ` set (filter (posts wc) ws)
    = (if wc_layer_split wc then {0..<tps * pcp} else (\<lambda>i. i * pcp) ` {0..<tps}) \<times> {0..<pps}"
proof (cases "wc_layer_split wc")
  case True
  then have "set (filter (posts wc) ws) = {0..<tps} \<times> {0..<pcp} \<times> {0..<pps}"
    using ws by (auto simp: posts_def)
  then show ?thesis
    using virtual_grid [OF pcp(2), of tps] True by simp
next
  case False
  have "set (filter (posts wc) ws) = {0..<tps} \<times> {0} \<times> {0..<pps}"
    using ws pcp False by (auto simp: posts_def)
  moreover have "(\<lambda>(tp, c, pp). (tp * pcp + c, pp)) ` ({0..<tps} \<times> {0} \<times> {0..<pps}) = (\<lambda>i. i * pcp) ` {0..<tps} \<times> {0..<pps}"
    unfolding set_eq_iff image_iff Bex_def by (auto simp del: mult_cancel_right)
  ultimately show ?thesis
    using False by (simp only: if_False)
qed

text \<open>
  C28. When all workers of a prefill engine have started, in any order, each with the same configuration but
  for its ranks, every registration has succeeded, decode workers accept the topology, and they see
  the engine's tensor-parallel size: with the layer split all context-parallel ranks are registered,
  without it only the first of each.
\<close>

theorem started_engine_accepted:
  assumes pcp: "wc_pcp_size wc = pcp" "0 < pcp" and pos: "0 < tps" "0 < pps" and dist: "distinct ws"
    and ws: "set ws = {0..<tps} \<times> {0..<pcp} \<times> {0..<pps}" and free: "dict_get s dp = None"
  shows "\<exists>t e. for_each (startup_payloads engine dp wc addr ws) register_worker s = Some (Inr (), t) \<and> dict_get t dp = Some e
    \<and> validate_bootstrap_worker_topology (ee_worker_addr e) (ee_pcp_size e) (ee_layer_split e) = Inr () \<and> engine_tp_size e = tps"
proof -
  let ?ps = "startup_payloads engine dp wc addr ws"
  let ?V = "if wc_layer_split wc then {0..<tps * pcp} else (\<lambda>i. i * pcp) ` {0..<tps}"
  have pairs: "set (map rank_pair ?ps) = ?V \<times> {0..<pps}"
    unfolding startup_pairs pcp(1) set_map using posted_grid [OF pcp ws] by simp
  have distinct: "distinct (map rank_pair ?ps)"
    unfolding startup_pairs pcp(1) distinct_map
    using dist inj_on_subset [OF virtual_inj [of pcp tps "{0..<pps}"], of "set (filter (posts wc) ws)"] ws by auto
  have V: "?V \<noteq> {}"
    using pcp(2) pos(1) by (auto simp: zero_less_mult_iff)
  have same: "list_all (same_engine engine dp pcp (wc_layer_split wc)) ?ps"
    using startup_same_engine [of ws wc engine dp addr] ws pcp by auto
  have "?V \<times> {0..<pps} \<noteq> {}"
    using V pos(2) by (simp add: Sigma_empty_iff)
  then have "?ps \<noteq> []"
    using pairs by (metis list.set(1) list.simps(8))
  then obtain p ps where ps: "?ps = p # ps"
    using list.exhaust by blast
  let ?e = "(new_engine p)\<lparr>ee_worker_addr := place_worker p []\<rparr>"
  have e: "ee_engine_id ?e = engine" "ee_pcp_size ?e = pcp" "ee_layer_split ?e = wc_layer_split wc"
    using same ps by (auto simp: new_engine_def same_engine_def)
  have w: "filled (ee_worker_addr ?e)" "ranks_of (ee_worker_addr ?e) = {rank_pair p}"
    using place_worker_filled [of "[]" p] by (simp_all add: filled_def ranks_of_def rank_pair_def)
  have first: "register_worker p s = Some (Inr (), dict_set dp ?e s)"
    using register_first [OF _ pcp(2) free] same ps by auto
  obtain t w where run: "for_each ps register_worker (dict_set dp ?e s) = Some (Inr (), t)"
    and t: "dict_get t dp = Some (?e\<lparr>ee_worker_addr := w\<rparr>)" "filled w" "ranks_of w = {rank_pair p} \<union> set (map rank_pair ps)"
    using register_all [of engine dp pcp "wc_layer_split wc" ps "dict_set dp ?e s" ?e] same distinct e w pcp(2) by (auto simp: ps)
  have "ranks_of w = ?V \<times> {0..<pps}"
    using t(3) pairs by (simp add: ps)
  note grid = grid_accepted [OF t(2) this pos(2) V pcp(2) pos(1) refl]
  then show ?thesis
    using run first t(1) e pcp(2) by (auto simp: ps op_defs engine_tp_size_def)
qed

definition replicated_pair :: worker_config where
  "replicated_pair = \<lparr>wc_groups = [], wc_ratio = 1, wc_pp_rank = 0, wc_pp_size = 1, wc_pp_layer_range = None, wc_speculative = False,
     wc_pcp_rank = 0, wc_pcp_size = 2, wc_layer_split = False, wc_total_layers = 0, wc_owned_range = (0, 0)\<rparr>"

theorem started_engine_accepted_witness:
  "\<exists>t e. for_each (startup_payloads ''P'' 0 replicated_pair (\<lambda>_. ''tcp'') [(1, 0, 0), (0, 1, 0), (0, 0, 0), (1, 1, 0)]) register_worker []
       = Some (Inr (), t) \<and> dict_get t 0 = Some e
    \<and> validate_bootstrap_worker_topology (ee_worker_addr e) (ee_pcp_size e) (ee_layer_split e) = Inr () \<and> engine_tp_size e = 2"
proof (rule started_engine_accepted)
  have "{0..<2 :: int} = {0, 1}" "{0..<1 :: int} = {0}"
    by auto
  then show "set [(1, 0, 0), (0, 1, 0), (0, 0, 0), (1, 1, 0)] = {0..<2 :: int} \<times> {0..<2 :: int} \<times> {0..<1 :: int}"
    by auto
qed (simp_all add: replicated_pair_def)

end
