(* ===== verification/Spec2Isabelle.thy ===== *)
theory Spec2Isabelle
  imports Module_Exchange Pcp_Batch Memory_Pool_Correct Kv_Planner_Correct Kv_Cache_Correct Broadcast_Refine Static_Eplb_Correct
    Feature_Config_Correct Mooncake_Transfer_Correct Mooncake_Bootstrap_Correct Mooncake_Scheduler_Correct
    Mooncake_Producer_Correct Mooncake_Consumer Mooncake_Registration_Correct Mooncake_Startup
begin

text \<open>
  Verification library of vLLM-HCU, the plugin that runs vLLM on Hygon DCU devices (\<open>src/vllm_hcu\<close>).

  \<^bold>\<open>The program.\<close>  The plugin is loaded into every vLLM process.  It patches vLLM at import time
  (\<open>patch/\<close>), registers its own platform, models, layers and kernels, and extends the serving worker
  (\<open>v1/\<close>): prefill context parallelism splits the tokens of a step over ranks, and for sparse-MLA
  models the KV cache of the layers is split over the same ranks, so that a rank stores its own
  layers durably and borrows the others from their owners through broadcasts.  KV-transfer
  connectors move caches between prefill and decode engines, through pinned host memory or directly
  with the mooncake transfer engine.

  The parts modelled here are those whose correctness is decided by state and arithmetic: the patch
  lifecycle, the import hook, the token layout, the layer-split cache with its packed memory layout
  and its broadcast protocol, the cache views, the host-memory allocator and the mooncake connector.

  \<^bold>\<open>Theories and sources.\<close>

    \<^item> \<open>Prelude\<close>, \<open>Py_Runtime\<close>: Python dictionaries as ordered association lists, exceptions as
      sums, operations on a state that may block (\<open>None\<close>), raise or return; text operations, \<open>repr\<close> and
      decimal rendering; the locale \<open>state_preorder\<close> of relations that all operations keep.
    \<^item> \<open>Patch_Registry\<close>: \<open>patch/runtime_state.py\<close>.  The registry record with one record per patch;
      \<open>declare\<close>, \<open>begin\<close>, \<open>mark_applied\<close>, \<open>mark_skipped\<close>, \<open>mark_failed\<close>, feature and role settings,
      \<open>run_patch\<close> and \<open>applying_patch\<close>.  A call is one atomic step under the lock; \<open>begin\<close> waiting on
      the condition variable is the blocked outcome; calls of threads interleave as traces.
    \<^item> \<open>Import_Coordinator\<close>: \<open>patch/import_coordinator.py\<close>.  The interpreter state (\<open>sys.modules\<close>,
      \<open>sys.meta_path\<close>), the entries, registration, draining, \<open>find_spec\<close> and the loaders.  Callbacks,
      factories, and the finders and loaders of others are parameters that may do anything their
      contract (the locales \<open>coordinator_relation\<close>, \<open>registry_relation\<close>) allows.
    \<^item> \<open>Module_Exchange\<close>: \<open>patch/module_exchange.py\<close>.  The inventory of vLLM modules the plugin replaces as a
      whole, its validation against the source tree and its registration with the coordinator.
    \<^item> \<open>Interval_Tiling\<close>: the contract of routines that cut an interval into consecutive ranges,
      interpreted for the request chunks and for the layer shards.
    \<^item> \<open>Pcp_Layout\<close>, \<open>Pcp_Correct\<close>, \<open>Pcp_Batch\<close>: \<open>v1/pcp_manager.py\<close>.  DualChunkSwap segments, padding
      and index arrays of a batch; the rank-local batch, slot mappings, attention plan, restoration.
    \<^item> \<open>Memory_Pool\<close>, \<open>Buddy_Tree\<close>, \<open>Memory_Pool_Correct\<close>: \<open>du/tensor_memory_pool.py\<close>, the buddy allocator of
      pinned memory, and the binary tree of blocks it refines.
    \<^item> \<open>Layer_Split\<close>, \<open>Layer_Split_Correct\<close>: first part of \<open>v1/dsa_cache_layer_split.py\<close>.  Shard ranges,
      owners, validation of the feature, runtime state, packed slots.
    \<^item> \<open>Packed_Layout\<close>, \<open>Packed_Correct\<close>: last part of that file.  Page sizes, descriptors, block pitch
      and the remapping of layer offsets.
    \<^item> \<open>Layer_Broadcast\<close>, \<open>Broadcast_Group\<close>, \<open>Broadcast_Coherent\<close>, \<open>Broadcast_Refine\<close>: its middle part and the
      two call sites in \<open>patch/worker/op_opt/patch_mla_attention.py\<close> and
      \<open>model_executor/layers/sparse_attn_indexer.py\<close>.  A rank is a record of bookkeeping, runtime state
      and memory; an operation is an action that ends, raises or enters a collective; a group runs
      its ranks in lockstep.
    \<^item> \<open>Strided_View\<close>, \<open>Kv_Cache\<close>, \<open>Kv_Cache_Correct\<close>: \<open>v1/kv_cache.py\<close>.  Buffers, strided views and the
      initialisation of the worker's caches.
    \<^item> \<open>Kv_Planner\<close>, \<open>Kv_Planner_Correct\<close>: \<open>patch/platform/framework_opt/patch_dsa_layer_split_kv_config.py\<close>.  The
      engine-side plan of the packed cache, its memory budget and the wrappers around vLLM's planner.
    \<^item> \<open>Feature_Config\<close>, \<open>Feature_Config_Correct\<close>: \<open>patch/config.py\<close>.  The plugin's own configuration, stored inside
      vLLM's, over Python values (dictionaries, objects, instances).
    \<^item> \<open>Static_Eplb\<close>, \<open>Static_Eplb_Correct\<close>: \<open>model_executor/layers/fused_moe/static_eplb.py\<close>.  Offline expert
      placement: plans, their JSON file, the replicating loader and the binding to a model.
    \<^item> \<open>Mooncake_Transfer\<close>, \<open>Mooncake_Transfer_Correct\<close>: \<open>kv_connector/v1/mooncake/mooncake_connector.py\<close>, as the next
      theories.  Transfer regions, their alignment and validation, the pairing of tensor-parallel
      groups and the copy descriptors (\<open>_build_transfer_params\<close> and the functions it calls).
    \<^item> \<open>Mooncake_Bootstrap\<close>, \<open>Mooncake_Bootstrap_Correct\<close>: \<open>HCUMooncakeBootstrapServer\<close>, the check of a topology and the
      choice of the workers that \<open>receive_kv\<close> asks.
    \<^item> \<open>Mooncake_Scheduler\<close>, \<open>Mooncake_Scheduler_Correct\<close>: \<open>MooncakeConnectorScheduler\<close> and \<open>MooncakeConnectorMetadata\<close>.  The
      queues of the scheduler, one object per request, calls as a sequence.
    \<^item> \<open>Mooncake_Producer\<close>, \<open>Mooncake_Producer_Inv\<close>, \<open>Mooncake_Producer_Correct\<close>: \<open>record_send_reqs\<close>, \<open>send_kv_to_decode\<close>,
      \<open>_sender_worker\<close> and \<open>fetch_finished_sending_reqs\<close> of \<open>MooncakeConnectorWorker\<close>.  The code between two
      suspensions of a coroutine is a step; \<open>worker_step\<close> is the step relation of the event loop.
    \<^item> \<open>Mooncake_Consumer\<close>: \<open>receive_kv\<close>, \<open>receive_kv_from_single_worker\<close>, \<open>process_pulling_result\<close> and
      \<open>fetch_finished_recving_reqs\<close> of that class.
    \<^item> \<open>Mooncake_Registration\<close>, \<open>Mooncake_Registration_Correct\<close>: \<open>register_kv_caches\<close> of that class, with what its
      constructor decides.  A cache tensor is the numbers the code asks of it; the memory handed to
      the engine is part of the state.
    \<^item> \<open>Mooncake_Startup\<close>: \<open>register_worker_with_bootstrap\<close>, \<open>should_launch_bootstrap_server\<close> and
      \<open>get_mooncake_bootstrap_addr\<close>, composed with the bootstrap server.
    \<^item> this theory: properties that span components.

  \<^bold>\<open>What is shown.\<close>

    \<^item> Patches: the registry is well formed in every reachable state, one thread claims a patch, final
      states are latched, a raising callback is recorded; a callback of the coordinator is applied at
      most once, and an import of a module whose patch failed, is running or would be reloaded is
      refused.  The module exchanges are registered without importing anything, and from then
      on an exchanged module is answered by its replacement or refused, unless its patch was skipped;
      nothing changes when a source is missing.
    \<^item> Context parallelism: chunks tile every request, ranks have equal width, gathered rows are restored
      to the global order, every token's KV slot is written by exactly one rank, and every row of the
      attention plan sees its prefix.
    \<^item> Memory pool: the blocks tile the buffer in every reachable state, allocation and release are
      steps of the tree, freeing everything restores one block, a stored tensor is loaded back.
    \<^item> Layer split: every layer has one owner on which all ranks agree; owned layers have slots and
      bytes of their own; validated configurations give every rank a layer.
    \<^item> Planner: a plan fits the memory with the broadcast scratch, is accepted by the remapping of every
      rank, and planning again for an equalised number of blocks gives that number.
    \<^item> Broadcast: calls made alike on all ranks never get stuck; the group refines a single store of
      layers, and reads on any rank see that store.
    \<^item> Views: a view addresses one page per block inside its buffer and never two indices the same
      element; composed with the remapping, the bytes of an owned layer are its own.
    \<^item> Configuration: what is stored is read back and nothing else changes, results are valid, the
      deprecation warning comes once, and the expert binding reads the plan of the configured path.
    \<^item> Expert placement: accepted plans are well typed, every slot receives the weight of its expert, and
      the binding is all or nothing and idempotent.
    \<^item> Mooncake: the descriptors copy exactly the bytes of the blocks and stay inside registered payloads;
      between groups of any two sizes every byte of a payload is written once, from its place in the
      whole block, every byte read is in memory registered with
      the engine, and a layer is sent by one context-parallel rank; an engine whose workers have
      started in any order is accepted by decode workers; topologies are accepted iff complete, and
      \<open>receive_kv\<close> asks exactly the holders; a remote prefill is announced once; for decode engines
      that keep to the protocol a request stays in the producer's table while it is being
      transferred; handlers end and answer finally once, and a request counts as received when all
      workers have confirmed it.  Lemmas show where the code
      falls short: an aborted request without an address blocks all messages, an expired request can
      be sent after its blocks were released or stay unanswered, and an exception of the transfer
      engine keeps a request from expiring.
  \<^bold>\<open>Bounds and fuel.\<close>  The merge loop of the pool runs at most \<open>MAX_MERGE_DEPTH = 30\<close> rounds, as in the code;
  theorems about it cover pools whose size ratio is at most \<open>2 ^ 30\<close>.  A call of the broadcast protocol
  enters at most one collective, so the lockstep fuel of 3 suffices, which \<open>lockstep_plan\<close> proves.  The
  loop of a mooncake handler is a sequence of steps, whose number \<open>handler_rounds_bounded\<close> bounds.  All
  other loops are structural or terminate by a proved measure.  Integers of Python are unbounded;
  tensor shapes, and the counts and indices that the token layout keeps in NumPy arrays, are natural
  numbers; text is Latin-1.  Stream order replaces stream synchronisation.

  \<^bold>\<open>Not modelled.\<close>  Kernels and their wrappers (\<open>csrc\<close>, \<open>ops\<close>, the Triton and aiter files), the models and
  quantized layers, and the attention backends compute on device tensors; what they return is not
  determined by code of this repository alone.  The model runner (\<open>v1/hcu_model_runner.py\<close>) is
  orchestration of vLLM objects.  Of the mooncake connector the threads, the
  sockets, the transfer engine and the statistics are left out; its topology object, the clock and
  the outcome of transfers are parameters.  The swift connector is a network engine with threads of
  its own around a third-party library.  Most files of \<open>patch/platform\<close> and \<open>patch/worker\<close> rebind attributes
  of vLLM classes that are not part of the repository.  Test, benchmark and container files are left
  out.

  \<^bold>\<open>Extensions.\<close>  The natural next parts are the composition of the mooncake scheduler with its
  workers, and the swift connector's scheduler.
\<close>

section \<open>Packed layout and views together\<close>

definition view_bytes :: "view_spec \<Rightarrow> nat list \<Rightarrow> tview \<Rightarrow> int" where
  "view_bytes sp so v = int (vs_dtype_size sp * prod_list (gather (tv_size v) so))"

text \<open>
  C33.  The cache bytes of an owned layer are its own: after the packed remapping on a rank, let an
  owned (or replicated) layer and any other packed layer be viewed through their descriptors, each
  view no larger than the layer's page.  Then no element of the one view overlaps any element of
  the other, in any block.
\<close>

theorem owned_cache_bytes_private:
  assumes st: "state_ok st" "start_layer st = 0" and named: "layout_named parse cfg"
    and run: "remap_packed_kv_tensor_offsets parse cls (Some st) cfg = Inr (True, cfg')"
    and u: "u \<in> set (kc_tensors cfg')" "0 < kt_block_stride u" and v: "v \<in> set (kc_tensors cfg')" "0 < kt_block_stride v"
    and other: "hd (kt_names u) \<noteq> hd (kt_names v)"
    and own: "parse (hd (kt_names u)) = Inr i" "is_owned st i = Inr True"
    and vu: "reshape_modern_packed_cache nu u spu beu ku cd = Inr x" "be_stride_order beu = Inr (0 # so)" "block_first beu" "0 < vs_dtype_size spu"
    and vv: "reshape_modern_packed_cache nv v spv bev kv cd' = Inr y" "be_stride_order bev = Inr (0 # so')" "block_first bev" "0 < vs_dtype_size spv"
    and fit: "\<And>p. cfg_page cfg (hd (kt_names u)) = Some p \<Longrightarrow> view_bytes spu so x \<le> p"
      "\<And>q. cfg_page cfg (hd (kt_names v)) = Some q \<Longrightarrow> view_bytes spv so' y \<le> q"
    and idx: "in_shape idx (tv_size x)" "in_shape jdx (tv_size y)"
  shows "int (address x idx * vs_dtype_size spu) + int (vs_dtype_size spu) \<le> int (address y jdx * vs_dtype_size spv)
       \<or> int (address y jdx * vs_dtype_size spv) + int (vs_dtype_size spv) \<le> int (address x idx * vs_dtype_size spu)"
proof -
  obtain p q where r: "cfg_page cfg (hd (kt_names u)) = Some p" "cfg_page cfg (hd (kt_names v)) = Some q"
      "0 \<le> kt_offset u" "kt_offset u + p \<le> kt_block_stride u" "kt_offset u + p \<le> kt_offset v \<or> kt_offset v + q \<le> kt_offset u"
      "0 \<le> kt_offset v" "kt_offset v + q \<le> kt_block_stride v" "kt_block_stride v = kt_block_stride u"
    using remap_bytes [OF st named run u v other own] by blast
  show ?thesis
  proof (rule pages_apart [where S = "kt_block_stride u" and i = "int (hd idx)" and j = "int (hd jdx)"])
    show "kt_offset u + int (hd idx) * kt_block_stride u \<le> int (address x idx * vs_dtype_size spu)"
      "int (address x idx * vs_dtype_size spu) + int (vs_dtype_size spu) \<le> kt_offset u + int (hd idx) * kt_block_stride u + p"
      using packed_element [OF vu idx(1)] fit(1) [OF r(1)] by (simp_all add: view_bytes_def)
    show "kt_offset v + int (hd jdx) * kt_block_stride u \<le> int (address y jdx * vs_dtype_size spv)"
      "int (address y jdx * vs_dtype_size spv) + int (vs_dtype_size spv) \<le> kt_offset v + int (hd jdx) * kt_block_stride u + q"
      using packed_element [OF vv idx(2)] fit(2) [OF r(2)] r(8) by (simp_all add: view_bytes_def)
  qed (use r u(2) in auto)
qed

theorem owned_cache_bytes_private_witness:
  "\<exists>x y. reshape_modern_packed_cache 300 (demo_kv_tensor ''2'') sample_page_spec (mla_backend [0, 1, 2]) 10 ''auto'' = Inr x
    \<and> reshape_modern_packed_cache 300 ((demo_kv_tensor ''0'')\<lparr>kt_offset := 20\<rparr>) sample_page_spec (mla_backend [0, 1, 2]) 10 ''auto'' = Inr y
    \<and> (int (address x [3, 1, 4]) + 1 \<le> int (address y [2, 0, 3]) \<or> int (address y [2, 0, 3]) + 1 \<le> int (address x [3, 1, 4]))"
proof -
  let ?x = "\<lparr>tv_size = [10, 2, 5], tv_stride = [30, 5, 1], tv_offset = 0\<rparr>" and ?y = "\<lparr>tv_size = [10, 2, 5], tv_stride = [30, 5, 1], tv_offset = 20\<rparr>"
  let ?be = "mla_backend [0, 1, 2]" and ?u = "demo_kv_tensor ''2''" and ?v = "(demo_kv_tensor ''0'')\<lparr>kt_offset := 20\<rparr>"
  have x: "reshape_modern_packed_cache 300 ?u sample_page_spec ?be 10 ''auto'' = Inr ?x" by code_simp
  have y: "reshape_modern_packed_cache 300 ?v sample_page_spec ?be 10 ''auto'' = Inr ?y" by code_simp
  have be: "be_stride_order ?be = Inr (0 # [1, 2])" "block_first ?be" by (auto simp: block_first_def mla_backend_def)
  have st: "state_ok (rank_state 1 2 4)" "start_layer (rank_state 1 2 4) = 0" by (simp_all add: state_ok_def rank_state_def)
  have own: "is_owned (rank_state 1 2 4) 2 = Inr True" by code_simp
  have mem: "?u \<in> set (kc_tensors demo_remapped)" "?v \<in> set (kc_tensors demo_remapped)" "0 < kt_block_stride ?u" "0 < kt_block_stride ?v"
    by (simp_all add: demo_remapped_def demo_kv_tensor_def)
  have pages: "cfg_page demo_kv_config ''2'' = Some 10" "cfg_page demo_kv_config ''0'' = Some 10" by code_simp+
  have d: "vs_dtype_size sample_page_spec = 1" by (simp add: sample_page_spec_def)
  have "int (address ?x [3, 1, 4] * vs_dtype_size sample_page_spec) + int (vs_dtype_size sample_page_spec)
        \<le> int (address ?y [2, 0, 3] * vs_dtype_size sample_page_spec)
      \<or> int (address ?y [2, 0, 3] * vs_dtype_size sample_page_spec) + int (vs_dtype_size sample_page_spec)
        \<le> int (address ?x [3, 1, 4] * vs_dtype_size sample_page_spec)"
    by (rule owned_cache_bytes_private [OF st demo_named demo_remap mem(1,3,2,4) _ _ own x be _ y be])
      (use pages demo_ints d in \<open>simp_all add: demo_kv_tensor_def view_bytes_def gather_def\<close>)
  then show ?thesis using x y d by auto
qed

section \<open>Feature configuration and expert placement together\<close>

text \<open>
  C40. The binding of expert plans follows the stored feature configuration.  A configuration that is
  refused ends it with that error, one without a map path makes it do nothing, and both leave the
  module as it was.  A path, which is then not blank and excludes the recording path, is the one that
  is opened: a plan that was bound carries the resolved path and the digest of the bytes read there,
  and the owner of the experts, the module itself or the text model inside, has it on every layer; a
  plan that loads from there and passes the checks is bound; an error leaves the module as it was, and
  no plan is bound only for a module without experts.
\<close>

theorem binding_follows_configuration:
  assumes "vc = VObj cls r d" and "parallel_of vc = VObj pcls pr pd" and "confs_ok vc" and "get_hcu_config vc w = Some (q, w')"
  shows "\<exists>res g' vc'. bind_static_eplb_plan pf env vc g w = Some ((res, g', vc'), w') \<and>
    (case q of
       Inl e \<Rightarrow> res = Inl e \<and> g' = g
     | Inr c \<Rightarrow>
         (case expert_map_path c of
            None \<Rightarrow> res = Inr None \<and> g' = g
          | Some path \<Rightarrow> py_strip path \<noteq> [] \<and> expert_map_record_path c = None
              \<and> (case res of
                   Inl _ \<Rightarrow> g' = g
                 | Inr None \<Rightarrow> g' = g \<and> resolve_static_eplb_owner g = Inr NoExperts
                 | Inr (Some p) \<Rightarrow> (\<exists>m m'. experts_owner g = Some m \<and> experts_owner g' = Some m' \<and> bound_from pf path p m m'))
              \<and> (\<forall>m p. (resolve_static_eplb_owner g = Inr (Itself m) \<or> resolve_static_eplb_owner g = Inr (Inner m))
                     \<and> plan_passes pf env path m p \<longrightarrow> res = Inr (Some p))))"
proof (cases q)
  case (Inl e)
  then show ?thesis
    using assms by (simp add: bind_static_eplb_plan_def bind_hcu_eplb_config_def bind_op_def)
next
  case (Inr c)
  obtain vc' where vc': "bind_hcu_eplb_config vc w = Some (Inr vc', w')"
    "sidecar_path vc' = (if expert_map_path c = Some [] then None else expert_map_path c)"
    using configured_sidecar [OF assms(1,2) assms(4) [unfolded Inr]] by blast
  have ok: "conf_ok c"
    using get_ok assms(3,4) Inr by blast
  show ?thesis
  proof (cases "expert_map_path c")
    case None
    then show ?thesis
      using vc' Inr by (simp add: bind_static_eplb_plan_def)
  next
    case (Some path)
    then have strip: "py_strip path \<noteq> []" "expert_map_record_path c = None"
      using ok by (auto simp: conf_ok_def path_ok_def)
    then have "path \<noteq> []"
      by auto
    obtain res g' where run: "bind_to_module pf env path g = (res, g')"
      by fastforce
    then have "bind_static_eplb_plan pf env vc g w = Some ((res, g', vc'), w')"
      using vc' Some \<open>path \<noteq> []\<close> by (simp add: bind_static_eplb_plan_def)
    then show ?thesis
      using bind_all_or_nothing(2) [OF run] passing_plan_bound [of g _ pf env path] run strip Inr Some by fastforce
  qed
qed

text \<open>A configuration object that stores the path of the sample plan.\<close>

definition sample_eplb_vc :: pyval where
  "sample_eplb_vc = VObj ''VllmConfig'' ''<config>''
     [(''parallel_config'', VObj ''ParallelConfig'' ''<parallel>'' []),
      (''additional_config'', VMap True [(''hcu'', VMap True [(''expert_map_path'', VStr ''plan'')])])]"

definition sample_eplb_conf :: hcu_feature_config where
  "sample_eplb_conf = sample_conf\<lparr>moe_backend := ''auto'', expert_map_path := Some ''plan''\<rparr>"

theorem binding_follows_configuration_witness:
  "\<exists>g' vc' m'. bind_static_eplb_plan sample_file sample_env sample_eplb_vc sample_module fresh_module
      = Some ((Inr (Some sample_plan), g', vc'), fresh_module)
    \<and> experts_owner g' = Some m' \<and> carries_plan sample_plan m' \<and> read_from sample_file ''plan'' sample_plan"
proof -
  have get: "get_hcu_config sample_eplb_vc fresh_module = Some (Inr sample_eplb_conf, fresh_module)"
    by code_simp
  have ok: "confs_ok sample_eplb_vc"
    by code_simp
  have par: "parallel_of sample_eplb_vc = VObj ''ParallelConfig'' ''<parallel>'' []"
    by code_simp
  have path: "expert_map_path sample_eplb_conf = Some ''plan''"
    by (simp add: sample_eplb_conf_def)
  have owner: "resolve_static_eplb_owner sample_module = Inr (Itself (the (gm_self sample_module)))"
    by (simp add: resolve_static_eplb_owner_def sample_module_def)
  have passes: "plan_passes sample_file sample_env ''plan'' (the (gm_self sample_module)) sample_plan"
    by code_simp
  show ?thesis
    using binding_follows_configuration [OF sample_eplb_vc_def par ok get, of sample_file sample_env sample_module] path owner passes
    by (fastforce simp: bound_from_def)
qed

end
